(* ===== verification/Flow_Prelude.thy ===== *)
theory Flow_Prelude
  imports Main "HOL-Library.Word"
begin

text \<open>
  The prelude of the development: the named collections of facts, the types the
  components share (bytes, addresses, the byte store), the reading, writing and
  copying of memory (\<open>memcpy\<close>, \<open>memmove\<close>), and the little-endian layout of the
  16-bit and 32-bit fields of packed structs (the build fixes
  \<open>BADVPN_LITTLE_ENDIAN\<close>).  A C \<open>int\<close> that holds a length or an MTU is an \<open>int\<close>
  of the model (its values stay within the checked bounds); integers whose
  wrap-around the code relies on or checks are words.
\<close>

unbundle bit_operations_syntax

named_theorems mem_simps "reading memory after a write"
named_theorems flow_defs "handlers of flow components"
named_theorems call_simps "what the calls of a handler do to the interfaces"

type_synonym byte = "8 word"
type_synonym bytes = "byte list"
type_synonym ptr = nat
type_synonym mem = "nat \<Rightarrow> byte"

definition INT_MAX :: int where "INT_MAX = 2147483647"
definition UINT16_MAX :: int where "UINT16_MAX = 65535"
definition SIZE_MAX :: int where "SIZE_MAX = 18446744073709551615"

section \<open>The byte store\<close>

definition mread :: "mem \<Rightarrow> ptr \<Rightarrow> nat \<Rightarrow> bytes" where
  "mread m p n = map m [p..<p + n]"

definition mwrite :: "mem \<Rightarrow> ptr \<Rightarrow> bytes \<Rightarrow> mem" where
  "mwrite m p bs = (\<lambda>a. if p \<le> a \<and> a < p + length bs then bs ! (a - p) else m a)"

text \<open>\<open>memcpy\<close> and \<open>memmove\<close> read the whole source before they write, so the model is one
  function; that the C \<open>memcpy\<close> needs disjoint areas is not used anywhere.\<close>

definition memcpy :: "mem \<Rightarrow> ptr \<Rightarrow> ptr \<Rightarrow> nat \<Rightarrow> mem" where
  "memcpy m dst src n = mwrite m dst (mread m src n)"

lemma length_mread [simp]: "length (mread m p n) = n"
  by (simp add: mread_def)

lemma nth_mread [simp]: "i < n \<Longrightarrow> mread m p n ! i = m (p + i)"
  by (simp add: mread_def)

lemma mread_0 [simp]: "mread m p 0 = []"
  by (simp add: mread_def)

lemma mread_eq_Nil [simp]: "mread m p n = [] \<longleftrightarrow> n = 0"
  by (auto simp: mread_def)

lemma mread_append: "mread m p (a + b) = mread m p a @ mread m (p + a) b"
  by (rule nth_equalityI) (auto simp: nth_append)

lemma take_mread: "take k (mread m p n) = mread m p (min k n)"
  by (rule nth_equalityI) auto

lemma drop_mread: "drop k (mread m p n) = mread m (p + k) (n - k)"
  by (rule nth_equalityI) (auto simp: add.assoc)

lemma mread_cong: "(\<And>a. p \<le> a \<Longrightarrow> a < p + n \<Longrightarrow> m a = m' a) \<Longrightarrow> mread m p n = mread m' p n"
  by (simp add: mread_def)

lemma mwrite_Nil [simp]: "mwrite m p [] = m"
  by (rule ext) (auto simp: mwrite_def)

lemma mwrite_outside [mem_simps]: "a < p \<or> p + length bs \<le> a \<Longrightarrow> mwrite m p bs a = m a"
  by (auto simp: mwrite_def)

lemma mwrite_inside [mem_simps]: "p \<le> a \<Longrightarrow> a < p + length bs \<Longrightarrow> mwrite m p bs a = bs ! (a - p)"
  by (simp add: mwrite_def)

lemma mread_mwrite_same [mem_simps]: "length bs = n \<Longrightarrow> mread (mwrite m p bs) p n = bs"
  by (rule nth_equalityI) (auto simp: mwrite_def)

lemma mread_mwrite_disj [mem_simps]:
  "p + n \<le> q \<or> q + length bs \<le> p \<Longrightarrow> mread (mwrite m q bs) p n = mread m p n"
  by (rule mread_cong) (auto simp: mwrite_def)

lemma mread_memcpy_same [mem_simps]: "mread (memcpy m dst src n) dst n = mread m src n"
  by (simp add: memcpy_def mem_simps)

lemma mread_memcpy_disj [mem_simps]:
  "p + k \<le> dst \<or> dst + n \<le> p \<Longrightarrow> mread (memcpy m dst src n) p k = mread m p k"
  by (simp add: memcpy_def mem_simps)

lemma mwrite_mwrite_append: "mwrite (mwrite m p xs) (p + length xs) ys = mwrite m p (xs @ ys)"
  by (rule ext) (auto simp: mwrite_def nth_append)

text \<open>Consecutive areas of the sizes \<open>ks\<close> from address \<open>b\<close> on.\<close>

fun tiles :: "ptr \<Rightarrow> int list \<Rightarrow> (ptr \<times> int) list" where
  "tiles b [] = []"
| "tiles b (k # ks) = (b, k) # tiles (b + nat k) ks"

lemma positive_sum: "list_all (\<lambda>k. 0 < k) (ks :: int list) \<Longrightarrow> 0 \<le> sum_list ks"
  by (induction ks) auto

lemma positive_sum_zero: "list_all (\<lambda>k. 0 < k) (ks :: int list) \<Longrightarrow> sum_list ks \<le> 0 \<Longrightarrow> ks = []"
  by (cases ks) (auto dest: positive_sum)

lemma read_tiles:
  "list_all (\<lambda>k. 0 < k) ks \<Longrightarrow>
   concat (map (\<lambda>(d, k). mread m d (nat k)) (tiles b ks)) = mread m b (nat (sum_list ks))"
proof (induction ks arbitrary: b)
  case (Cons k ks)
  from Cons.prems have "0 \<le> sum_list ks" by (simp add: positive_sum)
  with Cons show ?case by (simp add: nat_add_distrib mread_append)
qed simp

lemma write_tiles:
  "fold (\<lambda>((d, k), bs) m. mwrite m d bs) (zip (tiles b (map (\<lambda>bs. int (length bs)) bss)) bss) m =
   mwrite m b (concat bss)"
proof (induction bss arbitrary: b m)
  case (Cons bs bss)
  then show ?case by (simp add: mwrite_mwrite_append [symmetric] del: concat.simps)
      (simp add: mwrite_mwrite_append)
qed simp

section \<open>Little-endian fields\<close>

definition le16_bytes :: "16 word \<Rightarrow> bytes" where
  "le16_bytes w = [ucast w, ucast (drop_bit 8 w)]"

definition le16_of :: "bytes \<Rightarrow> 16 word" where
  "le16_of bs = ucast (bs ! 0) OR push_bit 8 (ucast (bs ! 1))"

definition le32_bytes :: "32 word \<Rightarrow> bytes" where
  "le32_bytes w = [ucast w, ucast (drop_bit 8 w), ucast (drop_bit 16 w), ucast (drop_bit 24 w)]"

definition le32_of :: "bytes \<Rightarrow> 32 word" where
  "le32_of bs = ucast (bs ! 0) OR push_bit 8 (ucast (bs ! 1)) OR
     push_bit 16 (ucast (bs ! 2)) OR push_bit 24 (ucast (bs ! 3))"

lemma length_le16_bytes [simp]: "length (le16_bytes w) = 2"
  by (simp add: le16_bytes_def)

lemma length_le32_bytes [simp]: "length (le32_bytes w) = 4"
  by (simp add: le32_bytes_def)

lemma le16_roundtrip [simp]: "le16_of (le16_bytes w) = w"
  by (rule bit_word_eqI) (auto simp: le16_of_def le16_bytes_def bit_simps)

lemma le32_roundtrip [simp]: "le32_of (le32_bytes w) = w"
proof (rule bit_word_eqI)
  fix n
  assume "n < LENGTH(32)"
  then show "bit (le32_of (le32_bytes w)) n = bit w n"
    by (cases "n < 8"; cases "n < 16"; cases "n < 24")
      (auto simp: le32_of_def le32_bytes_def bit_simps)
qed

lemma le16_of_append [simp]: "2 \<le> length bs \<Longrightarrow> le16_of (bs @ cs) = le16_of bs"
  by (auto simp: le16_of_def nth_append)

lemma le16_of_take [simp]: "le16_of (take 2 bs) = le16_of bs"
  by (simp add: le16_of_def)

lemma le32_of_take [simp]: "le32_of (take 4 bs) = le32_of bs"
  by (simp add: le32_of_def)

text \<open>A C \<open>int\<close> field in memory is the 32-bit two's complement of its value.\<close>

definition store_int :: "mem \<Rightarrow> ptr \<Rightarrow> int \<Rightarrow> mem" where
  "store_int m p v = mwrite m p (le32_bytes (word_of_int v))"

definition load_int :: "mem \<Rightarrow> ptr \<Rightarrow> int" where
  "load_int m p = sint (le32_of (mread m p 4))"

lemma load_store_int: "- (2 ^ 31) \<le> v \<Longrightarrow> v < 2 ^ 31 \<Longrightarrow> load_int (store_int m p v) p = v"
  by (simp add: load_int_def store_int_def mem_simps sint_sbintrunc'
      signed_take_bit_int_eq_self)

lemma load_int_mwrite_disj [mem_simps]:
  "p + 4 \<le> q \<or> q + length bs \<le> p \<Longrightarrow> load_int (mwrite m q bs) p = load_int m p"
  by (simp add: load_int_def mem_simps)

lemma mread_store_int_disj [mem_simps]:
  "p + n \<le> q \<or> q + 4 \<le> p \<Longrightarrow> mread (store_int m q v) p n = mread m p n"
  by (simp add: store_int_def mem_simps)

lemma load_int_store_int_disj [mem_simps]:
  "p + 4 \<le> q \<or> q + 4 \<le> p \<Longrightarrow> load_int (store_int m q v) p = load_int m p"
  by (simp add: store_int_def mem_simps)

lemma unat_word_of_nat_16: "n \<le> 65535 \<Longrightarrow> unat (word_of_nat n :: 16 word) = n"
  by (simp add: unat_of_nat take_bit_nat_eq_self)

section \<open>Integer helpers (\<open>misc/balign.h\<close>, \<open>misc/minmax.h\<close>, \<open>misc/compare.h\<close>)\<close>

definition B_COMPARE :: "int \<Rightarrow> int \<Rightarrow> int" where
  "B_COMPARE a b = (if a > b then 1 else 0) - (if a < b then 1 else 0)"

definition bdivide_up :: "int \<Rightarrow> int \<Rightarrow> int" where
  "bdivide_up a b = (let r = a mod b in if r > 0 then a div b + 1 else a div b)"

definition bmin_int :: "int \<Rightarrow> int \<Rightarrow> int" where
  "bmin_int a b = (if a < b then a else b)"

lemma bdivide_up_4_bounds: "0 \<le> a \<Longrightarrow> a \<le> 4 * bdivide_up a 4 \<and> 4 * bdivide_up a 4 < a + 4"
  by (simp add: bdivide_up_def Let_def) presburger

lemma bdivide_up_4_nonneg: "0 \<le> a \<Longrightarrow> 0 \<le> bdivide_up a 4"
  using bdivide_up_4_bounds [of a] by linarith

lemma bdivide_up_4_mono: "0 \<le> a \<Longrightarrow> a \<le> b \<Longrightarrow> bdivide_up a 4 \<le> bdivide_up b 4"
  using bdivide_up_4_bounds [of a] bdivide_up_4_bounds [of b] by linarith

end
