(* ===== verification/Pending_Jobs.thy ===== *)
theory Pending_Jobs
  imports Flow_Prelude
begin

text \<open>
  \<open>base/BPending.c\<close>: the group of pending jobs, a stack.  The list \<open>jobs\<close> is the intrusive
  list of the group (first entry first).  An object remembers that it is in no list by
  pointing its own \<open>next\<close> at itself; that marker is \<open>is_removed\<close>, kept apart from the list
  as in the code, so that their agreement is an invariant (\<open>group_inv\<close>) and not built in.
  A handler is the pair of function and user pointer, a value of \<open>'h\<close>.
\<close>

record ('j, 'h) BPendingGroup =
  jobs :: "'j list"
  is_removed :: "'j \<Rightarrow> bool"
  job_handler :: "'j \<Rightarrow> 'h"

section \<open>Operations\<close>

definition BPendingGroup_Init :: "('j, 'h) BPendingGroup \<Rightarrow> ('j, 'h) BPendingGroup" where
  "BPendingGroup_Init g = g\<lparr>jobs := []\<rparr>"

definition BPendingGroup_HasJobs :: "('j, 'h) BPendingGroup \<Rightarrow> bool" where
  "BPendingGroup_HasJobs g \<longleftrightarrow> \<not> List.null (jobs g)"

text \<open>The handler is returned, to be called by whoever runs the job; \<open>None\<close> is the failed
  assertion that there is a job.\<close>

definition BPendingGroup_ExecuteJob ::
    "('j, 'h) BPendingGroup \<Rightarrow> (('j, 'h) BPendingGroup \<times> 'h) option" where
  "BPendingGroup_ExecuteJob g =
     (case jobs g of
        [] \<Rightarrow> None
      | p # ps \<Rightarrow>
          Some (g\<lparr>jobs := ps, is_removed := (is_removed g)(p := True)\<rparr>, job_handler g p))"

definition BPendingGroup_PeekJob :: "('j, 'h) BPendingGroup \<Rightarrow> 'j option" where
  "BPendingGroup_PeekJob g = (case jobs g of [] \<Rightarrow> None | p # _ \<Rightarrow> Some p)"

definition BSmallPending_Init ::
    "'j \<Rightarrow> 'h \<Rightarrow> ('j, 'h) BPendingGroup \<Rightarrow> ('j, 'h) BPendingGroup" where
  "BSmallPending_Init p h g =
     g\<lparr>is_removed := (is_removed g)(p := True), job_handler := (job_handler g)(p := h)\<rparr>"

definition BSmallPending_Free :: "'j \<Rightarrow> ('j, 'h) BPendingGroup \<Rightarrow> ('j, 'h) BPendingGroup" where
  "BSmallPending_Free p g =
     (if \<not> is_removed g p then g\<lparr>jobs := remove1 p (jobs g)\<rparr> else g)"

definition BSmallPending_SetHandler ::
    "'j \<Rightarrow> 'h \<Rightarrow> ('j, 'h) BPendingGroup \<Rightarrow> ('j, 'h) BPendingGroup" where
  "BSmallPending_SetHandler p h g = g\<lparr>job_handler := (job_handler g)(p := h)\<rparr>"

definition BSmallPending_Set :: "'j \<Rightarrow> ('j, 'h) BPendingGroup \<Rightarrow> ('j, 'h) BPendingGroup" where
  "BSmallPending_Set p g =
     (let g' = (if \<not> is_removed g p then g\<lparr>jobs := remove1 p (jobs g)\<rparr> else g)
      in g'\<lparr>jobs := p # jobs g', is_removed := (is_removed g')(p := False)\<rparr>)"

definition BSmallPending_Unset :: "'j \<Rightarrow> ('j, 'h) BPendingGroup \<Rightarrow> ('j, 'h) BPendingGroup" where
  "BSmallPending_Unset p g =
     (if \<not> is_removed g p
      then g\<lparr>jobs := remove1 p (jobs g), is_removed := (is_removed g)(p := True)\<rparr>
      else g)"

definition BSmallPending_IsSet :: "'j \<Rightarrow> ('j, 'h) BPendingGroup \<Rightarrow> bool" where
  "BSmallPending_IsSet p g \<longleftrightarrow> \<not> is_removed g p"

text \<open>\<open>BPending\<close> is a \<open>BSmallPending\<close> that remembers its group.\<close>

definition BPending_Init ::
    "'j \<Rightarrow> 'h \<Rightarrow> ('j, 'h) BPendingGroup \<Rightarrow> ('j, 'h) BPendingGroup" where
  "BPending_Init p h g = BSmallPending_Init p h g"

definition BPending_Free :: "'j \<Rightarrow> ('j, 'h) BPendingGroup \<Rightarrow> ('j, 'h) BPendingGroup" where
  "BPending_Free p g = BSmallPending_Free p g"

definition BPending_Set :: "'j \<Rightarrow> ('j, 'h) BPendingGroup \<Rightarrow> ('j, 'h) BPendingGroup" where
  "BPending_Set p g = BSmallPending_Set p g"

definition BPending_Unset :: "'j \<Rightarrow> ('j, 'h) BPendingGroup \<Rightarrow> ('j, 'h) BPendingGroup" where
  "BPending_Unset p g = BSmallPending_Unset p g"

definition BPending_IsSet :: "'j \<Rightarrow> ('j, 'h) BPendingGroup \<Rightarrow> bool" where
  "BPending_IsSet p g = BSmallPending_IsSet p g"

lemmas BPending_defs =
  BPending_Init_def BPending_Free_def BPending_Set_def BPending_Unset_def BPending_IsSet_def
  BSmallPending_Init_def BSmallPending_Free_def BSmallPending_SetHandler_def
  BSmallPending_Set_def BSmallPending_Unset_def BSmallPending_IsSet_def

section \<open>The marker agrees with the list\<close>

text \<open>\<open>live\<close> is the set of objects between their \<open>Init\<close> and their \<open>Free\<close>.\<close>

definition group_inv :: "'j set \<Rightarrow> ('j, 'h) BPendingGroup \<Rightarrow> bool" where
  "group_inv live g \<longleftrightarrow> distinct (jobs g) \<and> set (jobs g) \<subseteq> live \<and>
     (\<forall>p \<in> live. is_removed g p \<longleftrightarrow> p \<notin> set (jobs g))"

text \<open>The operations on a group, as one type, so that a whole life of a group is a list of
  them; \<open>G_Execute\<close> runs the top job, if there is one.\<close>

datatype ('j, 'h) group_op =
    G_Init 'j 'h | G_Free 'j | G_SetHandler 'j 'h | G_Set 'j | G_Unset 'j | G_Execute

fun group_step ::
    "'j set \<times> ('j, 'h) BPendingGroup \<Rightarrow> ('j, 'h) group_op \<Rightarrow> 'j set \<times> ('j, 'h) BPendingGroup" where
  "group_step (live, g) (G_Init p h) =
     (if p \<in> live then (live, g) else (insert p live, BPending_Init p h g))"
| "group_step (live, g) (G_Free p) =
     (if p \<in> live then (live - {p}, BPending_Free p g) else (live, g))"
| "group_step (live, g) (G_SetHandler p h) =
     (if p \<in> live then (live, BSmallPending_SetHandler p h g) else (live, g))"
| "group_step (live, g) (G_Set p) = (if p \<in> live then (live, BPending_Set p g) else (live, g))"
| "group_step (live, g) (G_Unset p) = (if p \<in> live then (live, BPending_Unset p g) else (live, g))"
| "group_step (live, g) G_Execute =
     (case BPendingGroup_ExecuteJob g of None \<Rightarrow> (live, g) | Some (g', _) \<Rightarrow> (live, g'))"

lemma group_inv_Init: "group_inv {} (BPendingGroup_Init g)"
  by (simp add: group_inv_def BPendingGroup_Init_def)

lemma group_inv_step:
  "group_inv live g \<Longrightarrow> group_step (live, g) op = (live', g') \<Longrightarrow> group_inv live' g'"
  by (cases op) (auto simp: group_inv_def BPending_defs BPendingGroup_ExecuteJob_def Let_def
      split: if_splits list.splits)

lemma group_inv_steps:
  "group_inv live g \<Longrightarrow> foldl group_step (live, g) ops = (live', g') \<Longrightarrow> group_inv live' g'"
proof (induction ops arbitrary: live g)
  case (Cons op ops)
  obtain l1 g1 where "group_step (live, g) op = (l1, g1)" by fastforce
  with Cons show ?case by (auto dest: group_inv_step)
qed simp

section \<open>Facts for the users of jobs\<close>

abbreviation all_inv :: "('j, 'h) BPendingGroup \<Rightarrow> bool" where
  "all_inv \<equiv> group_inv UNIV"

lemma all_inv_removed: "all_inv g \<Longrightarrow> is_removed g p \<longleftrightarrow> p \<notin> set (jobs g)"
  by (simp add: group_inv_def)

lemma all_inv_distinct: "all_inv g \<Longrightarrow> distinct (jobs g)"
  by (simp add: group_inv_def)

lemma all_inv_Set [simp]: "all_inv g \<Longrightarrow> all_inv (BPending_Set p g)"
  by (auto simp: group_inv_def BPending_defs Let_def)

lemma all_inv_Unset [simp]: "all_inv g \<Longrightarrow> all_inv (BPending_Unset p g)"
  by (auto simp: group_inv_def BPending_defs)

lemma jobs_Set: "all_inv g \<Longrightarrow> jobs (BPending_Set p g) = p # remove1 p (jobs g)"
  by (auto simp: group_inv_def BPending_defs Let_def remove1_idem)

lemma jobs_Unset: "all_inv g \<Longrightarrow> jobs (BPending_Unset p g) = remove1 p (jobs g)"
  by (auto simp: group_inv_def BPending_defs remove1_idem)

lemma set_jobs_Set [simp]: "all_inv g \<Longrightarrow> set (jobs (BPending_Set p g)) = insert p (set (jobs g))"
  by (auto simp: jobs_Set all_inv_distinct)

lemma set_jobs_Unset [simp]: "all_inv g \<Longrightarrow> set (jobs (BPending_Unset p g)) = set (jobs g) - {p}"
  by (simp add: jobs_Unset all_inv_distinct)

lemma IsSet_iff [simp]: "all_inv g \<Longrightarrow> BPending_IsSet p g \<longleftrightarrow> p \<in> set (jobs g)"
  by (simp add: BPending_defs all_inv_removed)

text \<open>Jobs set one after the other, on a group that holds none of them, stack up.\<close>

lemma fold_Set_jobs:
  "all_inv g \<Longrightarrow> distinct ps \<Longrightarrow> set ps \<inter> set (jobs g) = {} \<Longrightarrow>
   all_inv (fold BPending_Set ps g) \<and> jobs (fold BPending_Set ps g) = rev ps @ jobs g"
  by (induction ps arbitrary: g) (auto simp: jobs_Set remove1_idem)

text \<open>Executing the first \<open>n\<close> jobs, while the handlers set no jobs of their own.\<close>

fun execute_n :: "nat \<Rightarrow> ('j, 'h) BPendingGroup \<Rightarrow> 'h list" where
  "execute_n 0 g = []"
| "execute_n (Suc n) g =
     (case BPendingGroup_ExecuteJob g of None \<Rightarrow> [] | Some (g', h) \<Rightarrow> h # execute_n n g')"

lemma execute_n_jobs: "execute_n n g = map (job_handler g) (take n (jobs g))"
  by (induction n arbitrary: g)
    (auto simp: BPendingGroup_ExecuteJob_def split: list.splits)

lemma job_handler_Set [simp]: "job_handler (BPending_Set p g) = job_handler g"
  by (simp add: BPending_defs Let_def)

lemma job_handler_Unset [simp]: "job_handler (BPending_Unset p g) = job_handler g"
  by (simp add: BPending_defs)

lemma job_handler_fold_Set [simp]: "job_handler (fold BPending_Set ps g) = job_handler g"
  by (induction ps arbitrary: g) simp_all

section \<open>Properties\<close>

text \<open>C28: over any sequence of \<open>Init\<close>, \<open>Free\<close>, \<open>SetHandler\<close>, \<open>Set\<close>, \<open>Unset\<close> and
  \<open>ExecuteJob\<close> on the objects of a group, started from \<open>BPendingGroup_Init\<close>, no object is
  ever twice in the list, only objects that are initialised are in it, and \<open>BPending_IsSet\<close>
  (the self-pointing marker) tells exactly whether the object is in the list.\<close>

theorem group_always_consistent:
  assumes "foldl group_step ({}, BPendingGroup_Init g) ops = (live, g')"
  shows "distinct (jobs g') \<and> set (jobs g') \<subseteq> live \<and>
    (\<forall>p \<in> live. BPending_IsSet p g' \<longleftrightarrow> p \<in> set (jobs g'))"
  using group_inv_steps [OF group_inv_Init assms] by (simp add: group_inv_def BPending_defs)

theorem group_always_consistent_witness:
  "\<exists>live g'. foldl group_step ({}, BPendingGroup_Init
       \<lparr>jobs = [], is_removed = (\<lambda>_. False), job_handler = (\<lambda>_. 0)\<rparr>)
     [G_Init (1::nat) (10::nat), G_Init 2 20, G_Set 1, G_Set 2, G_Set 1, G_Execute, G_Free 1]
     = (live, g') \<and> jobs g' = [2] \<and>
     (\<forall>p \<in> live. BPending_IsSet p g' \<longleftrightarrow> p \<in> set (jobs g'))"
proof -
  let ?r = "foldl group_step ({}, BPendingGroup_Init
       \<lparr>jobs = [], is_removed = (\<lambda>_. False), job_handler = (\<lambda>_. 0)\<rparr>)
     [G_Init (1::nat) (10::nat), G_Init 2 20, G_Set 1, G_Set 2, G_Set 1, G_Execute, G_Free 1]"
  have eq: "?r = (fst ?r, snd ?r)" by simp
  have "jobs (snd ?r) = [2]"
    by (simp add: BPending_defs BPendingGroup_Init_def BPendingGroup_ExecuteJob_def Let_def)
  with group_always_consistent [OF eq] eq show ?thesis by blast
qed

text \<open>The group is a stack: jobs set in the order \<open>ps\<close> run before everything that was
  already pending and in the reverse order of their setting, each with the handler it was
  initialised with.  (\<open>SocksUdpClient\<close> and \<open>UdpGwClient\<close> rely on it for their first job.)\<close>

theorem jobs_run_lifo:
  assumes "all_inv g" and "distinct ps" and "set ps \<inter> set (jobs g) = {}"
  shows "execute_n (length ps + length (jobs g)) (fold BPending_Set ps g)
     = map (job_handler g) (rev ps) @ map (job_handler g) (jobs g)"
  using fold_Set_jobs [OF assms] by (simp add: execute_n_jobs)

theorem jobs_run_lifo_witness:
  "execute_n 3 (fold BPending_Set [5::nat, 6]
     \<lparr>jobs = [7], is_removed = (\<lambda>p. p \<noteq> 7), job_handler = (\<lambda>p. 10 * p)\<rparr>) = [60, 50, 70]"
  using jobs_run_lifo [of "\<lparr>jobs = [7], is_removed = (\<lambda>p. p \<noteq> 7), job_handler = (\<lambda>p. 10 * p)\<rparr>"
      "[5::nat, 6]"]
  by (simp add: group_inv_def numeral_3_eq_3)

end
