(* ===== verification/Flow_Interfaces.thy ===== *)
theory Flow_Interfaces
  imports Pending_Jobs
begin

text \<open>
  The four interfaces of \<open>flow/\<close> (\<open>PacketPassInterface\<close>, \<open>PacketRecvInterface\<close>,
  \<open>StreamPassInterface\<close>, \<open>StreamRecvInterface\<close>) and the net they live in.  The four C
  structs are the same four-state object with different arguments, so one record
  \<open>flow_if\<close> stands for all; a field the struct of a kind lacks is unused for that kind.
  A value of \<open>'p\<close> is the address of an interface, a value of \<open>'c\<close> the address of a job or
  timer embedded in a component, a value of \<open>'u\<close> a call of a user's handler with its
  arguments.

  What a handler of a component does to its surroundings is the list of calls it makes, in
  program order (\<open>call\<close>), the component's own \<open>ASSERT\<close>s among them (\<open>Assert\<close>, with the value
  of its condition).  \<open>call_ok\<close> is the conjunction of the \<open>ASSERT\<close>s at the head of the
  called function; the Android build compiles with \<open>NDEBUG\<close>, so these are obligations on the
  callers that nothing checks at run time.  \<open>do_call\<close> is the effect of the call.
\<close>

section \<open>The interface and the net\<close>

datatype if_kind = PacketPass | PacketRecv | StreamPass | StreamRecv

datatype if_state = IF_NONE | IF_OPERATION_PENDING | IF_BUSY | IF_DONE_PENDING

record flow_if =
  if_kind :: if_kind
  mtu :: int
  has_requestcancel :: bool
  has_user :: bool
  op_data :: ptr
  op_len :: int
  done_len :: int
  state :: if_state
  cancel_requested :: bool

datatype ('p, 'c) job = JobOperation 'p | JobRequestCancel 'p | JobDone 'p | OwnJob 'c

record ('p, 'c) net =
  ifs :: "'p \<Rightarrow> flow_if"
  grp :: "(('p, 'c) job, unit) BPendingGroup"
  timer_running :: "'c \<Rightarrow> bool"

definition upd_if :: "'p \<Rightarrow> (flow_if \<Rightarrow> flow_if) \<Rightarrow> ('p, 'c) net \<Rightarrow> ('p, 'c) net" where
  "upd_if p f n = n\<lparr>ifs := (ifs n)(p := f (ifs n p))\<rparr>"

definition set_job :: "('p, 'c) job \<Rightarrow> ('p, 'c) net \<Rightarrow> ('p, 'c) net" where
  "set_job j n = n\<lparr>grp := BPending_Set j (grp n)\<rparr>"

definition unset_job :: "('p, 'c) job \<Rightarrow> ('p, 'c) net \<Rightarrow> ('p, 'c) net" where
  "unset_job j n = n\<lparr>grp := BPending_Unset j (grp n)\<rparr>"

definition init_job :: "('p, 'c) job \<Rightarrow> ('p, 'c) net \<Rightarrow> ('p, 'c) net" where
  "init_job j n = n\<lparr>grp := BPending_Init j () (grp n)\<rparr>"

definition free_job :: "('p, 'c) job \<Rightarrow> ('p, 'c) net \<Rightarrow> ('p, 'c) net" where
  "free_job j n = n\<lparr>grp := BPending_Free j (grp n)\<rparr>"

section \<open>PacketPassInterface\<close>

definition PacketPassInterface_Init :: "'p \<Rightarrow> int \<Rightarrow> ('p, 'c) net \<Rightarrow> ('p, 'c) net" where
  "PacketPassInterface_Init p m n =
     upd_if p (\<lambda>i. i\<lparr>if_kind := PacketPass, mtu := m, has_requestcancel := False,
                      has_user := False, state := IF_NONE\<rparr>)
       (init_job (JobDone p) (init_job (JobRequestCancel p) (init_job (JobOperation p) n)))"

definition PacketPassInterface_Free :: "'p \<Rightarrow> ('p, 'c) net \<Rightarrow> ('p, 'c) net" where
  "PacketPassInterface_Free p n =
     free_job (JobOperation p) (free_job (JobRequestCancel p) (free_job (JobDone p) n))"

definition PacketPassInterface_EnableCancel :: "'p \<Rightarrow> ('p, 'c) net \<Rightarrow> ('p, 'c) net" where
  "PacketPassInterface_EnableCancel p n = upd_if p (\<lambda>i. i\<lparr>has_requestcancel := True\<rparr>) n"

definition PacketPassInterface_Done :: "'p \<Rightarrow> ('p, 'c) net \<Rightarrow> ('p, 'c) net" where
  "PacketPassInterface_Done p n =
     upd_if p (\<lambda>i. i\<lparr>state := IF_DONE_PENDING\<rparr>)
       (set_job (JobDone p) (unset_job (JobRequestCancel p) n))"

definition PacketPassInterface_GetMTU :: "'p \<Rightarrow> ('p, 'c) net \<Rightarrow> int" where
  "PacketPassInterface_GetMTU p n = mtu (ifs n p)"

definition PacketPassInterface_Sender_Init :: "'p \<Rightarrow> ('p, 'c) net \<Rightarrow> ('p, 'c) net" where
  "PacketPassInterface_Sender_Init p n = upd_if p (\<lambda>i. i\<lparr>has_user := True\<rparr>) n"

definition PacketPassInterface_Sender_Send ::
    "'p \<Rightarrow> ptr \<Rightarrow> int \<Rightarrow> ('p, 'c) net \<Rightarrow> ('p, 'c) net" where
  "PacketPassInterface_Sender_Send p data data_len n =
     upd_if p (\<lambda>i. i\<lparr>op_data := data, op_len := data_len, state := IF_OPERATION_PENDING,
                      cancel_requested := False\<rparr>)
       (set_job (JobOperation p) n)"

definition PacketPassInterface_Sender_RequestCancel :: "'p \<Rightarrow> ('p, 'c) net \<Rightarrow> ('p, 'c) net" where
  "PacketPassInterface_Sender_RequestCancel p n =
     (if cancel_requested (ifs n p) then n
      else
        let n1 = upd_if p (\<lambda>i. i\<lparr>cancel_requested := True\<rparr>) n
        in if state (ifs n1 p) = IF_OPERATION_PENDING
           then upd_if p (\<lambda>i. i\<lparr>state := IF_DONE_PENDING\<rparr>)
                  (set_job (JobDone p) (unset_job (JobOperation p) n1))
           else if state (ifs n1 p) = IF_BUSY then set_job (JobRequestCancel p) n1
           else n1)"

definition PacketPassInterface_HasCancel :: "'p \<Rightarrow> ('p, 'c) net \<Rightarrow> bool" where
  "PacketPassInterface_HasCancel p n = has_requestcancel (ifs n p)"

text \<open>The job functions return the arguments they hand to the component's handler.\<close>

definition PacketPassInterface_job_operation ::
    "'p \<Rightarrow> ('p, 'c) net \<Rightarrow> ('p, 'c) net \<times> ptr \<times> int" where
  "PacketPassInterface_job_operation p n =
     (upd_if p (\<lambda>i. i\<lparr>state := IF_BUSY\<rparr>) n, op_data (ifs n p), op_len (ifs n p))"

definition PacketPassInterface_job_done :: "'p \<Rightarrow> ('p, 'c) net \<Rightarrow> ('p, 'c) net" where
  "PacketPassInterface_job_done p n = upd_if p (\<lambda>i. i\<lparr>state := IF_NONE\<rparr>) n"

section \<open>PacketRecvInterface\<close>

definition PacketRecvInterface_Init :: "'p \<Rightarrow> int \<Rightarrow> ('p, 'c) net \<Rightarrow> ('p, 'c) net" where
  "PacketRecvInterface_Init p m n =
     upd_if p (\<lambda>i. i\<lparr>if_kind := PacketRecv, mtu := m, has_user := False, state := IF_NONE\<rparr>)
       (init_job (JobDone p) (init_job (JobOperation p) n))"

definition PacketRecvInterface_Free :: "'p \<Rightarrow> ('p, 'c) net \<Rightarrow> ('p, 'c) net" where
  "PacketRecvInterface_Free p n = free_job (JobOperation p) (free_job (JobDone p) n)"

definition PacketRecvInterface_Done :: "'p \<Rightarrow> int \<Rightarrow> ('p, 'c) net \<Rightarrow> ('p, 'c) net" where
  "PacketRecvInterface_Done p data_len n =
     upd_if p (\<lambda>i. i\<lparr>done_len := data_len, state := IF_DONE_PENDING\<rparr>) (set_job (JobDone p) n)"

definition PacketRecvInterface_GetMTU :: "'p \<Rightarrow> ('p, 'c) net \<Rightarrow> int" where
  "PacketRecvInterface_GetMTU p n = mtu (ifs n p)"

definition PacketRecvInterface_Receiver_Init :: "'p \<Rightarrow> ('p, 'c) net \<Rightarrow> ('p, 'c) net" where
  "PacketRecvInterface_Receiver_Init p n = upd_if p (\<lambda>i. i\<lparr>has_user := True\<rparr>) n"

definition PacketRecvInterface_Receiver_Recv ::
    "'p \<Rightarrow> ptr \<Rightarrow> ('p, 'c) net \<Rightarrow> ('p, 'c) net" where
  "PacketRecvInterface_Receiver_Recv p data n =
     upd_if p (\<lambda>i. i\<lparr>op_data := data, state := IF_OPERATION_PENDING\<rparr>)
       (set_job (JobOperation p) n)"

definition PacketRecvInterface_job_operation ::
    "'p \<Rightarrow> ('p, 'c) net \<Rightarrow> ('p, 'c) net \<times> ptr" where
  "PacketRecvInterface_job_operation p n =
     (upd_if p (\<lambda>i. i\<lparr>state := IF_BUSY\<rparr>) n, op_data (ifs n p))"

definition PacketRecvInterface_job_done :: "'p \<Rightarrow> ('p, 'c) net \<Rightarrow> ('p, 'c) net \<times> int" where
  "PacketRecvInterface_job_done p n =
     (upd_if p (\<lambda>i. i\<lparr>state := IF_NONE\<rparr>) n, done_len (ifs n p))"

section \<open>StreamPassInterface\<close>

definition StreamPassInterface_Init :: "'p \<Rightarrow> ('p, 'c) net \<Rightarrow> ('p, 'c) net" where
  "StreamPassInterface_Init p n =
     upd_if p (\<lambda>i. i\<lparr>if_kind := StreamPass, has_user := False, state := IF_NONE\<rparr>)
       (init_job (JobDone p) (init_job (JobOperation p) n))"

definition StreamPassInterface_Free :: "'p \<Rightarrow> ('p, 'c) net \<Rightarrow> ('p, 'c) net" where
  "StreamPassInterface_Free p n = free_job (JobOperation p) (free_job (JobDone p) n)"

definition StreamPassInterface_Done :: "'p \<Rightarrow> int \<Rightarrow> ('p, 'c) net \<Rightarrow> ('p, 'c) net" where
  "StreamPassInterface_Done p data_len n =
     upd_if p (\<lambda>i. i\<lparr>done_len := data_len, state := IF_DONE_PENDING\<rparr>) (set_job (JobDone p) n)"

definition StreamPassInterface_Sender_Init :: "'p \<Rightarrow> ('p, 'c) net \<Rightarrow> ('p, 'c) net" where
  "StreamPassInterface_Sender_Init p n = upd_if p (\<lambda>i. i\<lparr>has_user := True\<rparr>) n"

definition StreamPassInterface_Sender_Send ::
    "'p \<Rightarrow> ptr \<Rightarrow> int \<Rightarrow> ('p, 'c) net \<Rightarrow> ('p, 'c) net" where
  "StreamPassInterface_Sender_Send p data data_len n =
     upd_if p (\<lambda>i. i\<lparr>op_data := data, op_len := data_len, state := IF_OPERATION_PENDING\<rparr>)
       (set_job (JobOperation p) n)"

definition StreamPassInterface_job_operation ::
    "'p \<Rightarrow> ('p, 'c) net \<Rightarrow> ('p, 'c) net \<times> ptr \<times> int" where
  "StreamPassInterface_job_operation p n =
     (upd_if p (\<lambda>i. i\<lparr>state := IF_BUSY\<rparr>) n, op_data (ifs n p), op_len (ifs n p))"

definition StreamPassInterface_job_done :: "'p \<Rightarrow> ('p, 'c) net \<Rightarrow> ('p, 'c) net \<times> int" where
  "StreamPassInterface_job_done p n =
     (upd_if p (\<lambda>i. i\<lparr>state := IF_NONE\<rparr>) n, done_len (ifs n p))"

section \<open>StreamRecvInterface\<close>

definition StreamRecvInterface_Init :: "'p \<Rightarrow> ('p, 'c) net \<Rightarrow> ('p, 'c) net" where
  "StreamRecvInterface_Init p n =
     upd_if p (\<lambda>i. i\<lparr>if_kind := StreamRecv, has_user := False, state := IF_NONE\<rparr>)
       (init_job (JobDone p) (init_job (JobOperation p) n))"

definition StreamRecvInterface_Free :: "'p \<Rightarrow> ('p, 'c) net \<Rightarrow> ('p, 'c) net" where
  "StreamRecvInterface_Free p n = free_job (JobOperation p) (free_job (JobDone p) n)"

definition StreamRecvInterface_Done :: "'p \<Rightarrow> int \<Rightarrow> ('p, 'c) net \<Rightarrow> ('p, 'c) net" where
  "StreamRecvInterface_Done p data_len n =
     upd_if p (\<lambda>i. i\<lparr>done_len := data_len, state := IF_DONE_PENDING\<rparr>) (set_job (JobDone p) n)"

definition StreamRecvInterface_Receiver_Init :: "'p \<Rightarrow> ('p, 'c) net \<Rightarrow> ('p, 'c) net" where
  "StreamRecvInterface_Receiver_Init p n = upd_if p (\<lambda>i. i\<lparr>has_user := True\<rparr>) n"

definition StreamRecvInterface_Receiver_Recv ::
    "'p \<Rightarrow> ptr \<Rightarrow> int \<Rightarrow> ('p, 'c) net \<Rightarrow> ('p, 'c) net" where
  "StreamRecvInterface_Receiver_Recv p data data_len n =
     upd_if p (\<lambda>i. i\<lparr>op_data := data, op_len := data_len, state := IF_OPERATION_PENDING\<rparr>)
       (set_job (JobOperation p) n)"

definition StreamRecvInterface_job_operation ::
    "'p \<Rightarrow> ('p, 'c) net \<Rightarrow> ('p, 'c) net \<times> ptr \<times> int" where
  "StreamRecvInterface_job_operation p n =
     (upd_if p (\<lambda>i. i\<lparr>state := IF_BUSY\<rparr>) n, op_data (ifs n p), op_len (ifs n p))"

definition StreamRecvInterface_job_done :: "'p \<Rightarrow> ('p, 'c) net \<Rightarrow> ('p, 'c) net \<times> int" where
  "StreamRecvInterface_job_done p n =
     (upd_if p (\<lambda>i. i\<lparr>state := IF_NONE\<rparr>) n, done_len (ifs n p))"

lemmas interface_defs =
  PacketPassInterface_Init_def PacketPassInterface_Free_def PacketPassInterface_EnableCancel_def
  PacketPassInterface_Done_def PacketPassInterface_GetMTU_def PacketPassInterface_Sender_Init_def
  PacketPassInterface_Sender_Send_def PacketPassInterface_Sender_RequestCancel_def
  PacketPassInterface_HasCancel_def PacketPassInterface_job_operation_def
  PacketPassInterface_job_done_def
  PacketRecvInterface_Init_def PacketRecvInterface_Free_def PacketRecvInterface_Done_def
  PacketRecvInterface_GetMTU_def PacketRecvInterface_Receiver_Init_def
  PacketRecvInterface_Receiver_Recv_def PacketRecvInterface_job_operation_def
  PacketRecvInterface_job_done_def
  StreamPassInterface_Init_def StreamPassInterface_Free_def StreamPassInterface_Done_def
  StreamPassInterface_Sender_Init_def StreamPassInterface_Sender_Send_def
  StreamPassInterface_job_operation_def StreamPassInterface_job_done_def
  StreamRecvInterface_Init_def StreamRecvInterface_Free_def StreamRecvInterface_Done_def
  StreamRecvInterface_Receiver_Init_def StreamRecvInterface_Receiver_Recv_def
  StreamRecvInterface_job_operation_def StreamRecvInterface_job_done_def

section \<open>Calls\<close>

datatype ('p, 'c, 'u) call =
    PP_Init 'p int | PP_Free 'p | PP_EnableCancel 'p | PP_Done 'p
  | PP_Sender_Init 'p | PP_Send 'p ptr int | PP_RequestCancel 'p
  | PR_Init 'p int | PR_Free 'p | PR_Done 'p int | PR_Receiver_Init 'p | PR_Recv 'p ptr
  | SP_Init 'p | SP_Free 'p | SP_Done 'p int | SP_Sender_Init 'p | SP_Send 'p ptr int
  | SR_Init 'p | SR_Free 'p | SR_Done 'p int | SR_Receiver_Init 'p | SR_Recv 'p ptr int
  | Job_Init 'c | Job_Free 'c | Job_Set 'c | Job_Unset 'c
  | Timer_Set 'c | Timer_SetAfter 'c int | Timer_Remove 'c
  | Assert bool | Assert_MTU_ge 'p int | Assert_MTU_le 'p int | UserCall 'u

fun call_ok :: "('p, 'c, 'u) call \<Rightarrow> ('p, 'c) net \<Rightarrow> bool" where
  "call_ok (PP_Init p m) n = (0 \<le> m)"
| "call_ok (PP_EnableCancel p) n =
     (if_kind (ifs n p) = PacketPass \<and> \<not> has_requestcancel (ifs n p) \<and> \<not> has_user (ifs n p))"
| "call_ok (PP_Done p) n = (if_kind (ifs n p) = PacketPass \<and> state (ifs n p) = IF_BUSY)"
| "call_ok (PP_Sender_Init p) n = (if_kind (ifs n p) = PacketPass \<and> \<not> has_user (ifs n p))"
| "call_ok (PP_Send p d l) n =
     (if_kind (ifs n p) = PacketPass \<and> 0 \<le> l \<and> l \<le> mtu (ifs n p) \<and> (0 < l \<longrightarrow> d \<noteq> 0) \<and>
      state (ifs n p) = IF_NONE \<and> has_user (ifs n p))"
| "call_ok (PP_RequestCancel p) n =
     (if_kind (ifs n p) = PacketPass \<and> state (ifs n p) \<noteq> IF_NONE \<and>
      has_requestcancel (ifs n p))"
| "call_ok (PR_Init p m) n = (0 \<le> m)"
| "call_ok (PR_Done p l) n =
     (if_kind (ifs n p) = PacketRecv \<and> 0 \<le> l \<and> l \<le> mtu (ifs n p) \<and>
      state (ifs n p) = IF_BUSY)"
| "call_ok (PR_Receiver_Init p) n = (if_kind (ifs n p) = PacketRecv \<and> \<not> has_user (ifs n p))"
| "call_ok (PR_Recv p d) n =
     (if_kind (ifs n p) = PacketRecv \<and> (0 < mtu (ifs n p) \<longrightarrow> d \<noteq> 0) \<and>
      state (ifs n p) = IF_NONE \<and> has_user (ifs n p))"
| "call_ok (SP_Done p l) n =
     (if_kind (ifs n p) = StreamPass \<and> state (ifs n p) = IF_BUSY \<and> 0 < l \<and>
      l \<le> op_len (ifs n p))"
| "call_ok (SP_Sender_Init p) n = (if_kind (ifs n p) = StreamPass \<and> \<not> has_user (ifs n p))"
| "call_ok (SP_Send p d l) n =
     (if_kind (ifs n p) = StreamPass \<and> 0 < l \<and> d \<noteq> 0 \<and> state (ifs n p) = IF_NONE \<and>
      has_user (ifs n p))"
| "call_ok (SR_Done p l) n =
     (if_kind (ifs n p) = StreamRecv \<and> state (ifs n p) = IF_BUSY \<and> 0 < l \<and>
      l \<le> op_len (ifs n p))"
| "call_ok (SR_Receiver_Init p) n = (if_kind (ifs n p) = StreamRecv \<and> \<not> has_user (ifs n p))"
| "call_ok (SR_Recv p d l) n =
     (if_kind (ifs n p) = StreamRecv \<and> 0 < l \<and> d \<noteq> 0 \<and> state (ifs n p) = IF_NONE \<and>
      has_user (ifs n p))"
| "call_ok (Assert b) n = b"
| "call_ok (Assert_MTU_ge p m) n = (m \<le> mtu (ifs n p))"
| "call_ok (Assert_MTU_le p m) n = (mtu (ifs n p) \<le> m)"
| "call_ok _ n = True"

fun do_call :: "('p, 'c, 'u) call \<Rightarrow> ('p, 'c) net \<Rightarrow> ('p, 'c) net" where
  "do_call (PP_Init p m) n = PacketPassInterface_Init p m n"
| "do_call (PP_Free p) n = PacketPassInterface_Free p n"
| "do_call (PP_EnableCancel p) n = PacketPassInterface_EnableCancel p n"
| "do_call (PP_Done p) n = PacketPassInterface_Done p n"
| "do_call (PP_Sender_Init p) n = PacketPassInterface_Sender_Init p n"
| "do_call (PP_Send p d l) n = PacketPassInterface_Sender_Send p d l n"
| "do_call (PP_RequestCancel p) n = PacketPassInterface_Sender_RequestCancel p n"
| "do_call (PR_Init p m) n = PacketRecvInterface_Init p m n"
| "do_call (PR_Free p) n = PacketRecvInterface_Free p n"
| "do_call (PR_Done p l) n = PacketRecvInterface_Done p l n"
| "do_call (PR_Receiver_Init p) n = PacketRecvInterface_Receiver_Init p n"
| "do_call (PR_Recv p d) n = PacketRecvInterface_Receiver_Recv p d n"
| "do_call (SP_Init p) n = StreamPassInterface_Init p n"
| "do_call (SP_Free p) n = StreamPassInterface_Free p n"
| "do_call (SP_Done p l) n = StreamPassInterface_Done p l n"
| "do_call (SP_Sender_Init p) n = StreamPassInterface_Sender_Init p n"
| "do_call (SP_Send p d l) n = StreamPassInterface_Sender_Send p d l n"
| "do_call (SR_Init p) n = StreamRecvInterface_Init p n"
| "do_call (SR_Free p) n = StreamRecvInterface_Free p n"
| "do_call (SR_Done p l) n = StreamRecvInterface_Done p l n"
| "do_call (SR_Receiver_Init p) n = StreamRecvInterface_Receiver_Init p n"
| "do_call (SR_Recv p d l) n = StreamRecvInterface_Receiver_Recv p d l n"
| "do_call (Job_Init c) n = init_job (OwnJob c) n"
| "do_call (Job_Free c) n = free_job (OwnJob c) n"
| "do_call (Job_Set c) n = set_job (OwnJob c) n"
| "do_call (Job_Unset c) n = unset_job (OwnJob c) n"
| "do_call (Timer_Set c) n = n\<lparr>timer_running := (timer_running n)(c := True)\<rparr>"
| "do_call (Timer_SetAfter c t) n = n\<lparr>timer_running := (timer_running n)(c := True)\<rparr>"
| "do_call (Timer_Remove c) n = n\<lparr>timer_running := (timer_running n)(c := False)\<rparr>"
| "do_call (Assert b) n = n"
| "do_call (Assert_MTU_ge p m) n = n"
| "do_call (Assert_MTU_le p m) n = n"
| "do_call (UserCall u) n = n"

text \<open>The calls of a handler, one after the other; \<open>None\<close> when the assertions of one fail.\<close>

fun exec_calls :: "('p, 'c, 'u) call list \<Rightarrow> ('p, 'c) net \<Rightarrow> ('p, 'c) net option" where
  "exec_calls [] n = Some n"
| "exec_calls (c # cs) n = (if call_ok c n then exec_calls cs (do_call c n) else None)"

end
