(* ===== verification/Flow_Contract.thy ===== *)
theory Flow_Contract
  imports Flow_Interfaces
begin

text \<open>
  What it means for a component to keep the contract of the flow interfaces.  A component is
  its handlers; it is closed with an environment that may do, in any order and interleaved
  with the pending jobs in any order, everything the interfaces allow it (start an operation
  on an interface the component provides, finish one on an interface it uses, request a
  cancel, let a running timer expire, call the component's own functions within their
  documented preconditions).  The real order of jobs is one of these.  A reachable state is
  \<open>None\<close> when some \<open>ASSERT\<close> of the code was violated; the locale \<open>flow_contract\<close> turns an
  invariant of a component into the fact that this never happens.
\<close>

section \<open>The jobs of the interfaces agree with their states\<close>

definition args_ok :: "flow_if \<Rightarrow> bool" where
  "args_ok i \<longleftrightarrow>
     (if_kind i = PacketPass \<and> state i \<in> {IF_OPERATION_PENDING, IF_BUSY} \<longrightarrow>
        0 \<le> op_len i \<and> op_len i \<le> mtu i \<and> (0 < op_len i \<longrightarrow> op_data i \<noteq> 0)) \<and>
     (if_kind i = PacketRecv \<and> state i \<in> {IF_OPERATION_PENDING, IF_BUSY} \<longrightarrow>
        0 < mtu i \<longrightarrow> op_data i \<noteq> 0) \<and>
     (if_kind i = PacketRecv \<and> state i = IF_DONE_PENDING \<longrightarrow>
        0 \<le> done_len i \<and> done_len i \<le> mtu i) \<and>
     (if_kind i \<in> {StreamPass, StreamRecv} \<and> state i \<noteq> IF_NONE \<longrightarrow>
        0 < op_len i \<and> op_data i \<noteq> 0) \<and>
     (if_kind i \<in> {StreamPass, StreamRecv} \<and> state i = IF_DONE_PENDING \<longrightarrow>
        0 < done_len i \<and> done_len i \<le> op_len i)"

text \<open>\<open>args_ok\<close>: the arguments an interface holds are those its assertions let in.\<close>

definition iface_ok :: "('p, 'c) net \<Rightarrow> 'p \<Rightarrow> bool" where
  "iface_ok n p \<longleftrightarrow>
     (JobOperation p \<in> set (jobs (grp n)) \<longleftrightarrow> state (ifs n p) = IF_OPERATION_PENDING) \<and>
     (JobDone p \<in> set (jobs (grp n)) \<longleftrightarrow> state (ifs n p) = IF_DONE_PENDING) \<and>
     (JobRequestCancel p \<in> set (jobs (grp n)) \<longrightarrow>
        if_kind (ifs n p) = PacketPass \<and> state (ifs n p) = IF_BUSY \<and>
        cancel_requested (ifs n p) \<and> has_requestcancel (ifs n p))"

definition net_ok :: "('p, 'c) net \<Rightarrow> bool" where
  "net_ok n \<longleftrightarrow>
     all_inv (grp n) \<and> (\<forall>p. iface_ok n p) \<and> (\<forall>p. args_ok (ifs n p))"

text \<open>Every call but the creation and destruction of interfaces and jobs.\<close>

fun plain_call :: "('p, 'c, 'u) call \<Rightarrow> bool" where
  "plain_call (PP_Init _ _) = False"
| "plain_call (PP_Free _) = False"
| "plain_call (PP_EnableCancel _) = False"
| "plain_call (PR_Init _ _) = False"
| "plain_call (PR_Free _) = False"
| "plain_call (SP_Init _) = False"
| "plain_call (SP_Free _) = False"
| "plain_call (SR_Init _) = False"
| "plain_call (SR_Free _) = False"
| "plain_call (Job_Init _) = False"
| "plain_call (Job_Free _) = False"
| "plain_call _ = True"

lemma net_field_simps [simp]:
  "ifs (upd_if p f n) = (ifs n)(p := f (ifs n p))"
  "grp (upd_if p f n) = grp n"
  "timer_running (upd_if p f n) = timer_running n"
  "ifs (set_job j n) = ifs n"
  "grp (set_job j n) = BPending_Set j (grp n)"
  "timer_running (set_job j n) = timer_running n"
  "ifs (unset_job j n) = ifs n"
  "grp (unset_job j n) = BPending_Unset j (grp n)"
  "timer_running (unset_job j n) = timer_running n"
  "ifs (init_job j n) = ifs n"
  "ifs (free_job j n) = ifs n"
  "timer_running (init_job j n) = timer_running n"
  "timer_running (free_job j n) = timer_running n"
  by (simp_all add: upd_if_def set_job_def unset_job_def init_job_def free_job_def)

lemma do_call_jobs:
  "all_inv (grp n) \<Longrightarrow> \<forall>p. iface_ok n p \<Longrightarrow> plain_call c \<Longrightarrow> call_ok c n \<Longrightarrow>
   all_inv (grp (do_call c n)) \<and> (\<forall>p. iface_ok (do_call c n) p)"
  by (cases c) (auto simp: iface_ok_def interface_defs Let_def)

lemma args_ok_updates [simp]:
  "args_ok (i\<lparr>has_user := b\<rparr>) \<longleftrightarrow> args_ok i"
  "args_ok (i\<lparr>cancel_requested := b\<rparr>) \<longleftrightarrow> args_ok i"
  "args_ok (i\<lparr>state := IF_NONE\<rparr>)"
  "args_ok i \<Longrightarrow> state i = IF_OPERATION_PENDING \<Longrightarrow> args_ok (i\<lparr>state := IF_BUSY\<rparr>)"
  "args_ok i \<Longrightarrow> if_kind i = PacketPass \<Longrightarrow> args_ok (i\<lparr>state := IF_DONE_PENDING\<rparr>)"
  by (auto simp: args_ok_def)

lemma args_ok_send [simp]:
  "if_kind i = PacketPass \<Longrightarrow> 0 \<le> l \<Longrightarrow> l \<le> mtu i \<Longrightarrow> (0 < l \<Longrightarrow> 0 < d) \<Longrightarrow>
     args_ok (i\<lparr>op_data := d, op_len := l, state := IF_OPERATION_PENDING\<rparr>)"
  "if_kind i = PacketRecv \<Longrightarrow> (0 < mtu i \<Longrightarrow> 0 < d) \<Longrightarrow>
     args_ok (i\<lparr>op_data := d, state := IF_OPERATION_PENDING\<rparr>)"
  "if_kind i = PacketRecv \<Longrightarrow> 0 \<le> l \<Longrightarrow> l \<le> mtu i \<Longrightarrow>
     args_ok (i\<lparr>done_len := l, state := IF_DONE_PENDING\<rparr>)"
  "if_kind i \<in> {StreamPass, StreamRecv} \<Longrightarrow> 0 < l \<Longrightarrow> 0 < d \<Longrightarrow>
     args_ok (i\<lparr>op_data := d, op_len := l, state := IF_OPERATION_PENDING\<rparr>)"
  "args_ok i \<Longrightarrow> state i = IF_BUSY \<Longrightarrow> if_kind i \<in> {StreamPass, StreamRecv} \<Longrightarrow>
     0 < l \<Longrightarrow> l \<le> op_len i \<Longrightarrow> args_ok (i\<lparr>done_len := l, state := IF_DONE_PENDING\<rparr>)"
  by (auto simp: args_ok_def)

lemma do_call_args:
  "\<forall>p. args_ok (ifs n p) \<Longrightarrow> plain_call c \<Longrightarrow> call_ok c n \<Longrightarrow> \<forall>p. args_ok (ifs (do_call c n) p)"
  by (cases c) (simp_all add: interface_defs Let_def)

lemma do_call_net_ok: "net_ok n \<Longrightarrow> plain_call c \<Longrightarrow> call_ok c n \<Longrightarrow> net_ok (do_call c n)"
  using do_call_jobs [of n c] do_call_args [of n c] by (simp add: net_ok_def)

lemma exec_calls_net_ok:
  "net_ok n \<Longrightarrow> list_all plain_call cs \<Longrightarrow> exec_calls cs n = Some n' \<Longrightarrow> net_ok n'"
  by (induction cs arbitrary: n) (auto split: if_splits dest: do_call_net_ok)

lemma exec_calls_append:
  "exec_calls (cs @ ds) n = (case exec_calls cs n of None \<Rightarrow> None | Some n' \<Rightarrow> exec_calls ds n')"
  by (induction cs arbitrary: n) auto

section \<open>Components and their environment\<close>

record ('s, 'p, 'c, 'u, 'e) component =
  provides :: "'p \<Rightarrow> bool"
  on_operation :: "'p \<Rightarrow> ptr \<Rightarrow> int \<Rightarrow> 's \<Rightarrow> 's \<times> ('p, 'c, 'u) call list"
  on_requestcancel :: "'p \<Rightarrow> 's \<Rightarrow> 's \<times> ('p, 'c, 'u) call list"
  on_done :: "'p \<Rightarrow> int \<Rightarrow> 's \<Rightarrow> 's \<times> ('p, 'c, 'u) call list"
  on_job :: "'c \<Rightarrow> 's \<Rightarrow> 's \<times> ('p, 'c, 'u) call list"
  on_timer :: "'c \<Rightarrow> 's \<Rightarrow> 's \<times> ('p, 'c, 'u) call list"
  on_api :: "'e \<Rightarrow> 's \<Rightarrow> 's \<times> ('p, 'c, 'u) call list"
  api_ok :: "'e \<Rightarrow> 's \<Rightarrow> ('p, 'c) net \<Rightarrow> bool"

definition finish ::
    "'s \<times> ('p, 'c, 'u) call list \<Rightarrow> ('p, 'c) net \<Rightarrow> ('s \<times> ('p, 'c) net) option" where
  "finish r n = map_option (\<lambda>n'. (fst r, n')) (exec_calls (snd r) n)"

text \<open>Running one pending job: it leaves the group, the job function of the interface checks
  and updates the state, and the handler of the side that is the component runs.\<close>

definition iface_job_operation :: "'p \<Rightarrow> ('p, 'c) net \<Rightarrow> ('p, 'c) net \<times> ptr \<times> int" where
  "iface_job_operation p n =
     (case if_kind (ifs n p) of
        PacketPass \<Rightarrow> PacketPassInterface_job_operation p n
      | PacketRecv \<Rightarrow> (case PacketRecvInterface_job_operation p n of (n', d) \<Rightarrow> (n', d, 0))
      | StreamPass \<Rightarrow> StreamPassInterface_job_operation p n
      | StreamRecv \<Rightarrow> StreamRecvInterface_job_operation p n)"

definition iface_job_done :: "'p \<Rightarrow> ('p, 'c) net \<Rightarrow> ('p, 'c) net \<times> int" where
  "iface_job_done p n =
     (case if_kind (ifs n p) of
        PacketPass \<Rightarrow> (PacketPassInterface_job_done p n, 0)
      | PacketRecv \<Rightarrow> PacketRecvInterface_job_done p n
      | StreamPass \<Rightarrow> StreamPassInterface_job_done p n
      | StreamRecv \<Rightarrow> StreamRecvInterface_job_done p n)"

definition run_job ::
    "('s, 'p, 'c, 'u, 'e) component \<Rightarrow> ('p, 'c) job \<Rightarrow> 's \<times> ('p, 'c) net \<Rightarrow>
     ('s \<times> ('p, 'c) net) option" where
  "run_job C j = (\<lambda>(s, n0).
     let n = unset_job j n0 in
     case j of
       JobOperation p \<Rightarrow>
         (if state (ifs n p) \<noteq> IF_OPERATION_PENDING then None
          else case iface_job_operation p n of (n1, d, l) \<Rightarrow>
            if provides C p then finish (on_operation C p d l s) n1 else Some (s, n1))
     | JobRequestCancel p \<Rightarrow>
         (if state (ifs n p) \<noteq> IF_BUSY \<or> \<not> cancel_requested (ifs n p)
             \<or> \<not> has_requestcancel (ifs n p) then None
          else if provides C p then finish (on_requestcancel C p s) n else Some (s, n))
     | JobDone p \<Rightarrow>
         (if state (ifs n p) \<noteq> IF_DONE_PENDING then None
          else case iface_job_done p n of (n1, l) \<Rightarrow>
            if provides C p then Some (s, n1) else finish (on_done C p l s) n1)
     | OwnJob c \<Rightarrow> finish (on_job C c s) n)"

definition run_timer ::
    "('s, 'p, 'c, 'u, 'e) component \<Rightarrow> 'c \<Rightarrow> 's \<times> ('p, 'c) net \<Rightarrow>
     ('s \<times> ('p, 'c) net) option" where
  "run_timer C c = (\<lambda>(s, n).
     finish (on_timer C c s) (n\<lparr>timer_running := (timer_running n)(c := False)\<rparr>))"

text \<open>The calls the environment may make: it is the user of the interfaces the component
  provides and the provider of those it uses.\<close>

fun env_may :: "('p \<Rightarrow> bool) \<Rightarrow> ('p, 'c, 'u) call \<Rightarrow> bool" where
  "env_may prov (PP_Send p d l) = prov p"
| "env_may prov (PP_RequestCancel p) = prov p"
| "env_may prov (PR_Recv p d) = prov p"
| "env_may prov (SP_Send p d l) = prov p"
| "env_may prov (SR_Recv p d l) = prov p"
| "env_may prov (PP_Done p) = (\<not> prov p)"
| "env_may prov (PR_Done p l) = (\<not> prov p)"
| "env_may prov (SP_Done p l) = (\<not> prov p)"
| "env_may prov (SR_Done p l) = (\<not> prov p)"
| "env_may prov _ = False"

lemma env_may_plain: "env_may prov c \<Longrightarrow> plain_call c"
  by (cases c) auto

inductive reach ::
    "('s, 'p, 'c, 'u, 'e) component \<Rightarrow> 's \<Rightarrow> ('p, 'c) net \<Rightarrow>
     ('s \<times> ('p, 'c) net) option \<Rightarrow> bool" for C s0 n0 where
  reach_init: "reach C s0 n0 (Some (s0, n0))"
| reach_job: "reach C s0 n0 (Some (s, n)) \<Longrightarrow> j \<in> set (jobs (grp n)) \<Longrightarrow>
     reach C s0 n0 (run_job C j (s, n))"
| reach_timer: "reach C s0 n0 (Some (s, n)) \<Longrightarrow> timer_running n t \<Longrightarrow>
     reach C s0 n0 (run_timer C t (s, n))"
| reach_env: "reach C s0 n0 (Some (s, n)) \<Longrightarrow> env_may (provides C) (c :: ('p, 'c, 'u) call) \<Longrightarrow>
     call_ok c n \<Longrightarrow> reach C s0 n0 (Some (s, do_call c n))"
| reach_api: "reach C s0 n0 (Some (s, n)) \<Longrightarrow> api_ok C e s n \<Longrightarrow>
     reach C s0 n0 (finish (on_api C e s) n)"

abbreviation reach_from ::
    "('s, 'p, 'c, 'u, 'e) component \<Rightarrow> 's \<times> ('p, 'c) net \<Rightarrow> ('s \<times> ('p, 'c) net) option \<Rightarrow> bool" where
  "reach_from C st \<equiv> reach C (fst st) (snd st)"

text \<open>The same steps as an executable schedule.\<close>

datatype ('p, 'c, 'u, 'e) move_kind = RunJob "('p, 'c) job" | Expire 'c | Env "('p, 'c, 'u) call" | Api 'e

fun enabled ::
    "('s, 'p, 'c, 'u, 'e) component \<Rightarrow> ('p, 'c, 'u, 'e) move_kind \<Rightarrow> 's \<times> ('p, 'c) net \<Rightarrow> bool" where
  "enabled C (RunJob j) (s, n) = (j \<in> set (jobs (grp n)))"
| "enabled C (Expire t) (s, n) = timer_running n t"
| "enabled C (Env c) (s, n) = (env_may (provides C) c \<and> call_ok c n)"
| "enabled C (Api e) (s, n) = api_ok C e s n"

fun move ::
    "('s, 'p, 'c, 'u, 'e) component \<Rightarrow> ('p, 'c, 'u, 'e) move_kind \<Rightarrow> 's \<times> ('p, 'c) net \<Rightarrow>
     ('s \<times> ('p, 'c) net) option" where
  "move C (RunJob j) x = run_job C j x"
| "move C (Expire t) x = run_timer C t x"
| "move C (Env c) (s, n) = Some (s, do_call c n)"
| "move C (Api e) (s, n) = finish (on_api C e s) n"

fun run_moves ::
    "('s, 'p, 'c, 'u, 'e) component \<Rightarrow> ('p, 'c, 'u, 'e) move_kind list \<Rightarrow> 's \<times> ('p, 'c) net \<Rightarrow>
     ('s \<times> ('p, 'c) net) option" where
  "run_moves C [] x = Some x"
| "run_moves C (v # vs) x =
     (if enabled C v x then (case move C v x of None \<Rightarrow> None | Some y \<Rightarrow> run_moves C vs y) else None)"

lemma move_reach:
  "reach C s0 n0 (Some x) \<Longrightarrow> enabled C v x \<Longrightarrow> reach C s0 n0 (move C v x)"
  by (cases x; cases v)
    (auto intro: reach_job reach_timer reach_env reach_api simp del: call_ok.simps do_call.simps)

lemma run_moves_reach_from:
  "reach C s0 n0 (Some x) \<Longrightarrow> run_moves C vs x = Some y \<Longrightarrow> reach C s0 n0 (Some y)"
proof (induction vs arbitrary: x)
  case (Cons v vs)
  from Cons.prems(2) obtain z where "enabled C v x" and "move C v x = Some z"
    and "run_moves C vs z = Some y"
    by (auto split: if_splits option.splits)
  with Cons.IH [of z] move_reach [OF Cons.prems(1)] show ?case by metis
qed simp

lemma run_moves_reach: "run_moves C vs st = Some y \<Longrightarrow> reach_from C st (Some y)"
  using run_moves_reach_from [OF reach_init [of C "fst st" "snd st"], of vs y] by simp

text \<open>A result that is a state and satisfies \<open>I\<close> and the agreement of jobs and states.\<close>

definition good :: "('s \<Rightarrow> ('p, 'c) net \<Rightarrow> bool) \<Rightarrow> ('s \<times> ('p, 'c) net) option \<Rightarrow> bool" where
  "good I r \<longleftrightarrow> (case r of None \<Rightarrow> False | Some (s, n) \<Rightarrow> I s n \<and> net_ok n)"

lemma good_Some [simp]: "good I (Some (s, n)) \<longleftrightarrow> I s n \<and> net_ok n"
  by (simp add: good_def)

text \<open>The transitions of an interface state when one of its jobs runs.\<close>

definition go_busy :: "'p \<Rightarrow> ('p, 'c) net \<Rightarrow> ('p, 'c) net" where
  "go_busy p n = upd_if p (\<lambda>i. i\<lparr>state := IF_BUSY\<rparr>) (unset_job (JobOperation p) n)"

definition go_none :: "'p \<Rightarrow> ('p, 'c) net \<Rightarrow> ('p, 'c) net" where
  "go_none p n = upd_if p (\<lambda>i. i\<lparr>state := IF_NONE\<rparr>) (unset_job (JobDone p) n)"

definition op_arg :: "flow_if \<Rightarrow> int" where
  "op_arg i = (if if_kind i = PacketRecv then 0 else op_len i)"

definition done_arg :: "flow_if \<Rightarrow> int" where
  "done_arg i = (if if_kind i = PacketPass then 0 else done_len i)"

lemma iface_job_operation_eq:
  "iface_job_operation p (unset_job (JobOperation p) n) =
     (go_busy p n, op_data (ifs n p), op_arg (ifs n p))"
  by (simp add: iface_job_operation_def interface_defs go_busy_def op_arg_def split: if_kind.splits)

lemma iface_job_done_eq:
  "iface_job_done p (unset_job (JobDone p) n) = (go_none p n, done_arg (ifs n p))"
  by (simp add: iface_job_done_def interface_defs go_none_def done_arg_def split: if_kind.splits)

lemma go_busy_net_ok [simp]:
  "net_ok n \<Longrightarrow> state (ifs n p) = IF_OPERATION_PENDING \<Longrightarrow> net_ok (go_busy p n)"
  by (auto simp: net_ok_def iface_ok_def go_busy_def)

lemma go_none_net_ok [simp]:
  "net_ok n \<Longrightarrow> state (ifs n p) = IF_DONE_PENDING \<Longrightarrow> net_ok (go_none p n)"
  by (auto simp: net_ok_def iface_ok_def go_none_def)

lemma unset_cancel_net_ok [simp]: "net_ok n \<Longrightarrow> net_ok (unset_job (JobRequestCancel p) n)"
  by (auto simp: net_ok_def iface_ok_def)

lemma unset_own_net_ok [simp]: "net_ok n \<Longrightarrow> net_ok (unset_job (OwnJob c) n)"
  by (auto simp: net_ok_def iface_ok_def)

lemma timer_net_ok [simp]: "net_ok (n\<lparr>timer_running := f\<rparr>) \<longleftrightarrow> net_ok n"
  by (simp add: net_ok_def iface_ok_def)

lemma net_ok_args: "net_ok n \<Longrightarrow> args_ok (ifs n p)"
  by (simp add: net_ok_def)

lemma net_ok_all_inv [simp]: "net_ok n \<Longrightarrow> all_inv (grp n)"
  by (simp add: net_ok_def)

lemma go_simps [simp]:
  "ifs (go_busy p n) = (ifs n)(p := (ifs n p)\<lparr>state := IF_BUSY\<rparr>)"
  "grp (go_busy p n) = BPending_Unset (JobOperation p) (grp n)"
  "timer_running (go_busy p n) = timer_running n"
  "ifs (go_none p n) = (ifs n)(p := (ifs n p)\<lparr>state := IF_NONE\<rparr>)"
  "grp (go_none p n) = BPending_Unset (JobDone p) (grp n)"
  "timer_running (go_none p n) = timer_running n"
  by (simp_all add: go_busy_def go_none_def)

text \<open>What running a pending job amounts to when jobs and states agree.\<close>

lemma run_operation:
  "net_ok n \<Longrightarrow> JobOperation p \<in> set (jobs (grp n)) \<Longrightarrow> run_job C (JobOperation p) (s, n) =
     (if provides C p then finish (on_operation C p (op_data (ifs n p)) (op_arg (ifs n p)) s) (go_busy p n)
      else Some (s, go_busy p n))"
  by (simp add: run_job_def Let_def iface_job_operation_eq net_ok_def iface_ok_def)

lemma run_done:
  "net_ok n \<Longrightarrow> JobDone p \<in> set (jobs (grp n)) \<Longrightarrow> run_job C (JobDone p) (s, n) =
     (if provides C p then Some (s, go_none p n)
      else finish (on_done C p (done_arg (ifs n p)) s) (go_none p n))"
  by (simp add: run_job_def Let_def iface_job_done_eq net_ok_def iface_ok_def)

lemma run_cancel:
  "net_ok n \<Longrightarrow> JobRequestCancel p \<in> set (jobs (grp n)) \<Longrightarrow> run_job C (JobRequestCancel p) (s, n) =
     (if provides C p then finish (on_requestcancel C p s) (unset_job (JobRequestCancel p) n)
      else Some (s, unset_job (JobRequestCancel p) n))"
  by (auto simp: run_job_def Let_def net_ok_def iface_ok_def)

lemma run_own: "run_job C (OwnJob c) (s, n) = finish (on_job C c s) (unset_job (OwnJob c) n)"
  by (simp add: run_job_def)

lemmas run_job_simps = run_operation run_done run_cancel run_own

lemma pending_state:
  "net_ok n \<Longrightarrow> JobOperation p \<in> set (jobs (grp n)) \<Longrightarrow> state (ifs n p) = IF_OPERATION_PENDING"
  "net_ok n \<Longrightarrow> JobDone p \<in> set (jobs (grp n)) \<Longrightarrow> state (ifs n p) = IF_DONE_PENDING"
  "net_ok n \<Longrightarrow> JobRequestCancel p \<in> set (jobs (grp n)) \<Longrightarrow> state (ifs n p) = IF_BUSY"
  by (auto simp: net_ok_def iface_ok_def)

text \<open>The calls of a handler meet their assertions and lead to the invariant.\<close>

definition handled ::
    "('s \<Rightarrow> ('p, 'c) net \<Rightarrow> bool) \<Rightarrow> 's \<times> ('p, 'c, 'u) call list \<Rightarrow> ('p, 'c) net \<Rightarrow> bool" where
  "handled I r n \<longleftrightarrow> list_all plain_call (snd r) \<and>
     (case exec_calls (snd r) n of None \<Rightarrow> False | Some n' \<Rightarrow> I (fst r) n')"

lemma handled_good: "handled I r n \<Longrightarrow> net_ok n \<Longrightarrow> good I (finish r n)"
  by (auto simp: handled_def finish_def split: option.splits dest: exec_calls_net_ok)

text \<open>An inductive invariant of a component under its environment.  The assumptions are the
  component's obligations, one for each way control enters it and one for each move of the
  environment; \<open>handled\<close> contains the assertions of every function the handler calls.\<close>

locale flow_contract =
  fixes C :: "('s, 'p, 'c, 'u, 'e) component"
    and I :: "'s \<Rightarrow> ('p, 'c) net \<Rightarrow> bool"
  assumes inv_operation: "I s n \<Longrightarrow> net_ok n \<Longrightarrow> provides C p \<Longrightarrow>
      state (ifs n p) = IF_OPERATION_PENDING \<Longrightarrow>
      handled I (on_operation C p (op_data (ifs n p)) (op_arg (ifs n p)) s) (go_busy p n)"
    and inv_busy: "I s n \<Longrightarrow> net_ok n \<Longrightarrow> \<not> provides C p \<Longrightarrow>
      state (ifs n p) = IF_OPERATION_PENDING \<Longrightarrow> I s (go_busy p n)"
    and inv_cancel: "I s n \<Longrightarrow> net_ok n \<Longrightarrow> provides C p \<Longrightarrow> state (ifs n p) = IF_BUSY \<Longrightarrow>
      if_kind (ifs n p) = PacketPass \<Longrightarrow> has_requestcancel (ifs n p) \<Longrightarrow>
      handled I (on_requestcancel C p s) (unset_job (JobRequestCancel p) n)"
    and inv_cancel_used: "I s n \<Longrightarrow> net_ok n \<Longrightarrow> \<not> provides C p \<Longrightarrow>
      I s (unset_job (JobRequestCancel p) n)"
    and inv_done: "I s n \<Longrightarrow> net_ok n \<Longrightarrow> \<not> provides C p \<Longrightarrow>
      state (ifs n p) = IF_DONE_PENDING \<Longrightarrow>
      handled I (on_done C p (done_arg (ifs n p)) s) (go_none p n)"
    and inv_none: "I s n \<Longrightarrow> net_ok n \<Longrightarrow> provides C p \<Longrightarrow>
      state (ifs n p) = IF_DONE_PENDING \<Longrightarrow> I s (go_none p n)"
    and inv_own_job: "I s n \<Longrightarrow> net_ok n \<Longrightarrow> OwnJob c \<in> set (jobs (grp n)) \<Longrightarrow>
      handled I (on_job C c s) (unset_job (OwnJob c) n)"
    and inv_timer: "I s n \<Longrightarrow> net_ok n \<Longrightarrow> timer_running n c \<Longrightarrow>
      handled I (on_timer C c s) (n\<lparr>timer_running := (timer_running n)(c := False)\<rparr>)"
    and inv_env: "I s n \<Longrightarrow> net_ok n \<Longrightarrow> env_may (provides C) (k :: ('p, 'c, 'u) call) \<Longrightarrow> call_ok k n \<Longrightarrow>
      I s (do_call k n)"
    and inv_api: "I s n \<Longrightarrow> net_ok n \<Longrightarrow> api_ok C e s n \<Longrightarrow> good I (finish (on_api C e s) n)"
begin

lemma run_job_good:
  assumes "I s n" and ok: "net_ok n" and j: "j \<in> set (jobs (grp n))"
  shows "good I (run_job C j (s, n))"
proof (cases j)
  case (JobOperation p)
  with ok j have "state (ifs n p) = IF_OPERATION_PENDING" by (auto simp: net_ok_def iface_ok_def)
  with assms JobOperation show ?thesis
    by (auto simp: run_job_def Let_def iface_job_operation_eq
        intro: handled_good inv_operation inv_busy)
next
  case (JobRequestCancel p)
  with ok j have "state (ifs n p) = IF_BUSY" and "cancel_requested (ifs n p)"
    and "has_requestcancel (ifs n p)" and "if_kind (ifs n p) = PacketPass"
    by (auto simp: net_ok_def iface_ok_def)
  with assms JobRequestCancel show ?thesis
    by (auto simp: run_job_def Let_def intro: handled_good inv_cancel inv_cancel_used)
next
  case (JobDone p)
  with ok j have "state (ifs n p) = IF_DONE_PENDING" by (auto simp: net_ok_def iface_ok_def)
  with assms JobDone show ?thesis
    by (auto simp: run_job_def Let_def iface_job_done_eq intro: handled_good inv_done inv_none)
next
  case (OwnJob c)
  with assms show ?thesis by (auto simp: run_job_def Let_def intro: handled_good inv_own_job)
qed

lemma reach_good: "reach C s0 n0 x \<Longrightarrow> I s0 n0 \<Longrightarrow> net_ok n0 \<Longrightarrow> good I x"
proof (induction rule: reach.induct)
  case (reach_env s n c)
  then show ?case by (auto intro: inv_env do_call_net_ok dest: env_may_plain)
next
  case (reach_timer s n t)
  then show ?case by (auto simp: run_timer_def intro: handled_good inv_timer)
qed (auto intro: run_job_good inv_api)

lemma never_fails: "reach C s0 n0 x \<Longrightarrow> I s0 n0 \<Longrightarrow> net_ok n0 \<Longrightarrow> x \<noteq> None"
  by (cases x) (auto simp: good_def dest: reach_good)

lemma reach_inv: "reach C s0 n0 (Some (s, n)) \<Longrightarrow> I s0 n0 \<Longrightarrow> net_ok n0 \<Longrightarrow> I s n \<and> net_ok n"
  by (auto dest: reach_good)

lemma reached:
  assumes "reach_from C st r" and "case_prod I st" and "net_ok (snd st)"
  obtains s n where "r = Some (s, n)" and "I s n" and "net_ok n"
  using assms reach_good [of "fst st" "snd st" r]
  by (auto simp: good_def case_prod_unfold split: option.splits)

end

section \<open>Facts for the components\<close>

text \<open>A part of the state of a component that no handler changes keeps its value.\<close>

lemma finish_fst: "finish r n = Some (s, n') \<Longrightarrow> s = fst r"
  by (auto simp: finish_def)

lemma reach_keeps:
  assumes "\<And>p d l s. g (fst (on_operation C p d l s)) = g s" and "\<And>p s. g (fst (on_requestcancel C p s)) = g s"
    and "\<And>p l s. g (fst (on_done C p l s)) = g s" and "\<And>c s. g (fst (on_job C c s)) = g s"
    and "\<And>c s. g (fst (on_timer C c s)) = g s" and "\<And>e s. g (fst (on_api C e s)) = g s"
    and "reach C s0 n0 r" and "r = Some (s, n)"
  shows "g s = g s0"
  using assms(7,8)
proof (induction arbitrary: s n rule: reach.induct)
  case (reach_job t m j)
  then show ?case
    using assms(1-4) reach_job.IH [OF refl]
    by (auto simp: run_job_def Let_def split: job.splits if_splits prod.splits dest!: finish_fst)
next
  case (reach_timer t m c)
  then show ?case using assms(5) by (auto simp: run_timer_def dest!: finish_fst)
next
  case (reach_api t m e)
  then show ?case using assms(6) by (auto dest!: finish_fst)
qed simp_all

lemma args_ok_none: "state i = IF_NONE \<Longrightarrow> args_ok i"
  by (auto simp: args_ok_def)

lemma reinit_PacketPass_net_ok [simp]:
  "net_ok n \<Longrightarrow> net_ok (PacketPassInterface_Init p m (PacketPassInterface_Free p n))"
  by (auto simp: net_ok_def iface_ok_def interface_defs group_inv_def init_job_def free_job_def
      BPending_defs args_ok_none)

lemma reinit_PacketRecv_net_ok [simp]:
  "net_ok n \<Longrightarrow> JobRequestCancel p \<notin> set (jobs (grp n)) \<Longrightarrow>
   net_ok (PacketRecvInterface_Init p m (PacketRecvInterface_Free p n))"
  by (auto simp: net_ok_def iface_ok_def interface_defs group_inv_def init_job_def free_job_def
      BPending_defs args_ok_none)

lemma reinit_StreamPass_net_ok [simp]:
  "net_ok n \<Longrightarrow> JobRequestCancel p \<notin> set (jobs (grp n)) \<Longrightarrow>
   net_ok (StreamPassInterface_Init p (StreamPassInterface_Free p n))"
  by (auto simp: net_ok_def iface_ok_def interface_defs group_inv_def init_job_def free_job_def
      BPending_defs args_ok_none)

lemma reinit_StreamRecv_net_ok [simp]:
  "net_ok n \<Longrightarrow> JobRequestCancel p \<notin> set (jobs (grp n)) \<Longrightarrow>
   net_ok (StreamRecvInterface_Init p (StreamRecvInterface_Free p n))"
  by (auto simp: net_ok_def iface_ok_def interface_defs group_inv_def init_job_def free_job_def
      BPending_defs args_ok_none)

lemma net_ok_no_cancel:
  "net_ok n \<Longrightarrow> if_kind (ifs n p) \<noteq> PacketPass \<Longrightarrow> JobRequestCancel p \<notin> set (jobs (grp n))"
  by (auto simp: net_ok_def iface_ok_def)

lemma ifs_Free [simp]:
  "ifs (PacketPassInterface_Free p n) = ifs n" "ifs (PacketRecvInterface_Free p n) = ifs n"
  "ifs (StreamPassInterface_Free p n) = ifs n" "ifs (StreamRecvInterface_Free p n) = ifs n"
  by (simp_all add: interface_defs)

lemma ifs_Init [simp]:
  "ifs (PacketPassInterface_Init p m n) = (ifs n)(p := (ifs n p)\<lparr>if_kind := PacketPass, mtu := m,
     has_requestcancel := False, has_user := False, state := IF_NONE\<rparr>)"
  "ifs (PacketRecvInterface_Init p m n) = (ifs n)(p := (ifs n p)\<lparr>if_kind := PacketRecv, mtu := m,
     has_user := False, state := IF_NONE\<rparr>)"
  "ifs (StreamPassInterface_Init p n) = (ifs n)(p := (ifs n p)\<lparr>if_kind := StreamPass,
     has_user := False, state := IF_NONE\<rparr>)"
  "ifs (StreamRecvInterface_Init p n) = (ifs n)(p := (ifs n p)\<lparr>if_kind := StreamRecv,
     has_user := False, state := IF_NONE\<rparr>)"
  by (simp_all add: interface_defs)

text \<open>Most components have one interface on either side.\<close>

datatype port = In | Out

lemma port_neq [simp]: "p \<noteq> In \<longleftrightarrow> p = Out" "p \<noteq> Out \<longleftrightarrow> p = In"
  by (cases p; simp)+

abbreviation no_calls :: "'s \<Rightarrow> 's \<times> ('p, 'c, 'u) call list" where
  "no_calls s \<equiv> (s, [])"

section \<open>Start-up\<close>

definition idle_net :: "('p \<Rightarrow> if_kind) \<Rightarrow> ('p \<Rightarrow> int) \<Rightarrow> ('p \<Rightarrow> bool) \<Rightarrow> ('p, 'c) net" where
  "idle_net k m can = \<lparr>ifs = (\<lambda>p. \<lparr>if_kind = k p, mtu = m p, has_requestcancel = can p,
        has_user = True, op_data = 0, op_len = 0, done_len = 0, state = IF_NONE,
        cancel_requested = False\<rparr>),
     grp = \<lparr>jobs = [], is_removed = (\<lambda>_. True), job_handler = (\<lambda>_. ())\<rparr>,
     timer_running = (\<lambda>_. False)\<rparr>"

lemma idle_net_ok [simp]: "net_ok (idle_net k m can)"
  by (simp add: idle_net_def net_ok_def iface_ok_def args_ok_def group_inv_def)

lemma idle_net_simps [simp]:
  "if_kind (ifs (idle_net k m can) p) = k p"
  "mtu (ifs (idle_net k m can) p) = m p"
  "has_requestcancel (ifs (idle_net k m can) p) = can p"
  "has_user (ifs (idle_net k m can) p)"
  "state (ifs (idle_net k m can) p) = IF_NONE"
  "jobs (grp (idle_net k m can)) = []"
  "timer_running (idle_net k m can) c = False"
  by (simp_all add: idle_net_def)

text \<open>The net after the creating calls \<open>cs\<close>, made on memory that holds no interface yet.\<close>

definition started :: "('p, 'c, 'u) call list \<Rightarrow> ('p, 'c) net" where
  "started cs = fold do_call cs (idle_net (\<lambda>_. PacketPass) (\<lambda>_. 0) (\<lambda>_. False))"

lemma init_job_jobs [simp]: "jobs (grp (init_job j n)) = jobs (grp n)"
  by (simp add: init_job_def BPending_defs)

lemma init_job_all_inv [simp]:
  "all_inv (grp n) \<Longrightarrow> j \<notin> set (jobs (grp n)) \<Longrightarrow> all_inv (grp (init_job j n))"
  by (auto simp: init_job_def BPending_defs group_inv_def)

lemma Init_net_ok [simp]:
  "net_ok n \<Longrightarrow> jobs (grp n) = [] \<Longrightarrow> net_ok (PacketPassInterface_Init p m n)"
  "net_ok n \<Longrightarrow> jobs (grp n) = [] \<Longrightarrow> net_ok (PacketRecvInterface_Init p m n)"
  "net_ok n \<Longrightarrow> jobs (grp n) = [] \<Longrightarrow> net_ok (StreamPassInterface_Init p n)"
  "net_ok n \<Longrightarrow> jobs (grp n) = [] \<Longrightarrow> net_ok (StreamRecvInterface_Init p n)"
  "net_ok n \<Longrightarrow> jobs (grp n) = [] \<Longrightarrow> net_ok (init_job (OwnJob c) n)"
  by (auto simp: net_ok_def iface_ok_def interface_defs args_ok_none)

lemma user_net_ok [simp]:
  "net_ok n \<Longrightarrow> net_ok (PacketPassInterface_Sender_Init p n)"
  "net_ok n \<Longrightarrow> net_ok (PacketRecvInterface_Receiver_Init p n)"
  "net_ok n \<Longrightarrow> net_ok (StreamPassInterface_Sender_Init p n)"
  "net_ok n \<Longrightarrow> net_ok (StreamRecvInterface_Receiver_Init p n)"
  "net_ok n \<Longrightarrow> state (ifs n p) = IF_NONE \<Longrightarrow> net_ok (PacketPassInterface_EnableCancel p n)"
  by (auto simp: net_ok_def iface_ok_def interface_defs args_ok_none)

lemma set_own_net_ok [simp]: "net_ok n \<Longrightarrow> net_ok (set_job (OwnJob c) n)"
  by (auto simp: net_ok_def iface_ok_def)

lemma send_net_ok [simp]:
  "net_ok n \<Longrightarrow> call_ok (PP_Send p d l) n \<Longrightarrow> net_ok (PacketPassInterface_Sender_Send p d l n)"
  "net_ok n \<Longrightarrow> call_ok (PR_Recv p d) n \<Longrightarrow> net_ok (PacketRecvInterface_Receiver_Recv p d n)"
  "net_ok n \<Longrightarrow> call_ok (SP_Send p d l) n \<Longrightarrow> net_ok (StreamPassInterface_Sender_Send p d l n)"
  "net_ok n \<Longrightarrow> call_ok (SR_Recv p d l) n \<Longrightarrow> net_ok (StreamRecvInterface_Receiver_Recv p d l n)"
  using do_call_net_ok [of n "PP_Send p d l"] do_call_net_ok [of n "PR_Recv p d"]
    do_call_net_ok [of n "SP_Send p d l"] do_call_net_ok [of n "SR_Recv p d l"] by simp_all

lemma user_jobs [simp]:
  "grp (PacketPassInterface_Sender_Init p n) = grp n"
  "grp (PacketRecvInterface_Receiver_Init p n) = grp n"
  "grp (StreamPassInterface_Sender_Init p n) = grp n"
  "grp (StreamRecvInterface_Receiver_Init p n) = grp n"
  "grp (PacketPassInterface_EnableCancel p n) = grp n"
  "jobs (grp (PacketPassInterface_Init p m n)) = jobs (grp n)"
  "jobs (grp (PacketRecvInterface_Init p m n)) = jobs (grp n)"
  "jobs (grp (StreamPassInterface_Init p n)) = jobs (grp n)"
  "jobs (grp (StreamRecvInterface_Init p n)) = jobs (grp n)"
  by (simp_all add: interface_defs)

lemma timer_running_simps [simp]:
  "timer_running (PacketPassInterface_Sender_Init p n) = timer_running n"
  "timer_running (PacketRecvInterface_Receiver_Init p n) = timer_running n"
  "timer_running (StreamPassInterface_Sender_Init p n) = timer_running n"
  "timer_running (StreamRecvInterface_Receiver_Init p n) = timer_running n"
  "timer_running (PacketPassInterface_EnableCancel p n) = timer_running n"
  "timer_running (PacketPassInterface_Init p m n) = timer_running n"
  "timer_running (PacketRecvInterface_Init p m n) = timer_running n"
  "timer_running (StreamPassInterface_Init p n) = timer_running n"
  "timer_running (StreamRecvInterface_Init p n) = timer_running n"
  by (simp_all add: interface_defs)

lemma user_ifs [simp]:
  "ifs (PacketPassInterface_Sender_Init p n) = (ifs n)(p := (ifs n p)\<lparr>has_user := True\<rparr>)"
  "ifs (PacketRecvInterface_Receiver_Init p n) = (ifs n)(p := (ifs n p)\<lparr>has_user := True\<rparr>)"
  "ifs (StreamPassInterface_Sender_Init p n) = (ifs n)(p := (ifs n p)\<lparr>has_user := True\<rparr>)"
  "ifs (StreamRecvInterface_Receiver_Init p n) = (ifs n)(p := (ifs n p)\<lparr>has_user := True\<rparr>)"
  "ifs (PacketPassInterface_EnableCancel p n) =
     (ifs n)(p := (ifs n p)\<lparr>has_requestcancel := True\<rparr>)"
  by (simp_all add: interface_defs)

section \<open>Properties\<close>

text \<open>C29: for any interfaces and jobs, a call that meets the assertions of the called function
  keeps the agreement of jobs and interface states: the operation job is pending exactly in
  state \<open>OPERATION_PENDING\<close>, the done job exactly in \<open>DONE_PENDING\<close>, a pending cancel job
  means a busy interface whose cancel was requested and is supported.  With it the assertions
  at the head of \<open>_PacketPassInterface_job_operation\<close>, \<open>_job_requestcancel\<close>, \<open>_job_done\<close> and
  their namesakes hold whenever the job runs.\<close>

theorem calls_keep_jobs_and_states:
  assumes "net_ok n" and "list_all plain_call cs" and "exec_calls cs n = Some n'"
    and "j \<in> set (jobs (grp n'))"
  shows "net_ok n' \<and>
    (\<forall>p. j = JobOperation p \<longrightarrow> state (ifs n' p) = IF_OPERATION_PENDING) \<and>
    (\<forall>p. j = JobDone p \<longrightarrow> state (ifs n' p) = IF_DONE_PENDING) \<and>
    (\<forall>p. j = JobRequestCancel p \<longrightarrow> state (ifs n' p) = IF_BUSY \<and> cancel_requested (ifs n' p) \<and>
       has_requestcancel (ifs n' p))"
  using exec_calls_net_ok [OF assms(1-3)] assms(4) by (auto simp: net_ok_def iface_ok_def)

theorem calls_keep_jobs_and_states_witness:
  "\<exists>n'. exec_calls [PP_Send (0::nat) 4096 60 :: (nat, unit, unit) call, PP_RequestCancel 0]
       (idle_net (\<lambda>_. PacketPass) (\<lambda>_. 1500) (\<lambda>_. True)) = Some n' \<and>
     JobDone 0 \<in> set (jobs (grp n')) \<and> state (ifs n' 0) = IF_DONE_PENDING \<and> net_ok n'"
proof -
  let ?n = "idle_net (\<lambda>_. PacketPass) (\<lambda>_. 1500) (\<lambda>_. True) :: (nat, unit) net"
  let ?cs = "[PP_Send (0::nat) 4096 60 :: (nat, unit, unit) call, PP_RequestCancel 0]"
  let ?n' = "do_call (?cs ! 1) (do_call (?cs ! 0) ?n)"
  have run: "exec_calls ?cs ?n = Some ?n'"
    by (simp add: interface_defs)
  have mem: "JobDone 0 \<in> set (jobs (grp ?n'))"
    by (simp add: interface_defs idle_net_def BPending_defs Let_def)
  show ?thesis
    using calls_keep_jobs_and_states [OF idle_net_ok _ run mem] run mem by auto
qed

end
