(* ===== verification/Flow_Connectors.thy ===== *)
theory Flow_Connectors
  imports Flow_Contract
begin

text \<open>
  The four connectors of \<open>flow/\<close> (\<open>PacketPassConnector\<close>, \<open>PacketRecvConnector\<close>,
  \<open>StreamPassConnector\<close>, \<open>StreamRecvConnector\<close>): one interface is always there, the other
  is connected and disconnected at run time; a request that arrives while nothing is
  connected waits in the connector.
\<close>

section \<open>PacketPassConnector\<close>

record 'p PacketPassConnector =
  ppc_input :: 'p
  ppc_input_mtu :: int
  ppc_in_len :: int
  ppc_in :: ptr
  ppc_output :: "'p option"

definition PacketPassConnector_input_handler_send ::
    "'p PacketPassConnector \<Rightarrow> ptr \<Rightarrow> int \<Rightarrow> 'p PacketPassConnector \<times> ('p, 'c, 'u) call list" where
  "PacketPassConnector_input_handler_send o1 data data_len =
     (let o2 = o1\<lparr>ppc_in_len := data_len, ppc_in := data\<rparr>
      in (o2, [Assert (0 \<le> data_len), Assert (data_len \<le> ppc_input_mtu o1), Assert (ppc_in_len o1 = -1)] @
              (case ppc_output o2 of
                 Some out \<Rightarrow> [PP_Send out (ppc_in o2) (ppc_in_len o2)]
               | None \<Rightarrow> [])))"

definition PacketPassConnector_output_handler_done ::
    "'p PacketPassConnector \<Rightarrow> 'p PacketPassConnector \<times> ('p, 'c, 'u) call list" where
  "PacketPassConnector_output_handler_done o1 =
     (o1\<lparr>ppc_in_len := -1\<rparr>,
      [Assert (0 \<le> ppc_in_len o1), Assert (ppc_output o1 \<noteq> None), PP_Done (ppc_input o1)])"

definition PacketPassConnector_Init ::
    "'p \<Rightarrow> int \<Rightarrow> 'p PacketPassConnector \<times> ('p, 'c, 'u) call list" where
  "PacketPassConnector_Init inp m =
     (\<lparr>ppc_input = inp, ppc_input_mtu = m, ppc_in_len = -1, ppc_in = 0, ppc_output = None\<rparr>,
      [Assert (0 \<le> m), PP_Init inp m])"

definition PacketPassConnector_Free ::
    "'p PacketPassConnector \<Rightarrow> ('p, 'c, 'u) call list" where
  "PacketPassConnector_Free o1 = [PP_Free (ppc_input o1)]"

definition PacketPassConnector_GetInput :: "'p PacketPassConnector \<Rightarrow> 'p" where
  "PacketPassConnector_GetInput o1 = ppc_input o1"

definition PacketPassConnector_ConnectOutput ::
    "'p PacketPassConnector \<Rightarrow> 'p \<Rightarrow> 'p PacketPassConnector \<times> ('p, 'c, 'u) call list" where
  "PacketPassConnector_ConnectOutput o1 out =
     (o1\<lparr>ppc_output := Some out\<rparr>,
      [Assert (ppc_output o1 = None), Assert_MTU_ge out (ppc_input_mtu o1), PP_Sender_Init out] @
      (if ppc_in_len o1 \<ge> 0 then [PP_Send out (ppc_in o1) (ppc_in_len o1)] else []))"

definition PacketPassConnector_DisconnectOutput ::
    "'p PacketPassConnector \<Rightarrow> 'p PacketPassConnector \<times> ('p, 'c, 'u) call list" where
  "PacketPassConnector_DisconnectOutput o1 =
     (o1\<lparr>ppc_output := None\<rparr>, [Assert (ppc_output o1 \<noteq> None)])"

text \<open>The user connects a fresh output, and after a disconnect destroys the output at once (as
  \<open>UdpGwClient\<close> does in \<open>free_server\<close>); the address may be used for a new one.\<close>

datatype connector_api = Connect | Disconnect int

definition then_calls ::
    "'s \<times> ('p, 'c, 'u) call list \<Rightarrow> ('p, 'c, 'u) call list \<Rightarrow> 's \<times> ('p, 'c, 'u) call list" where
  "then_calls r cs = (fst r, snd r @ cs)"

definition ppc_component :: "(port PacketPassConnector, port, unit, unit, connector_api) component" where
  "ppc_component = \<lparr>
     provides = (\<lambda>p. p = In),
     on_operation = (\<lambda>p d l s. PacketPassConnector_input_handler_send s d l),
     on_requestcancel = (\<lambda>p s. no_calls s),
     on_done = (\<lambda>p l s. PacketPassConnector_output_handler_done s),
     on_job = (\<lambda>c s. no_calls s),
     on_timer = (\<lambda>c s. no_calls s),
     on_api = (\<lambda>e s. case e of
         Connect \<Rightarrow> PacketPassConnector_ConnectOutput s Out
       | Disconnect m \<Rightarrow> then_calls (PacketPassConnector_DisconnectOutput s) [PP_Free Out, PP_Init Out m]),
     api_ok = (\<lambda>e s n. case e of
         Connect \<Rightarrow> ppc_output s = None \<and> ppc_input_mtu s \<le> mtu (ifs n Out)
       | Disconnect m \<Rightarrow> ppc_output s \<noteq> None \<and> 0 \<le> m)\<rparr>"

definition ppc_inv :: "port PacketPassConnector \<Rightarrow> (port, unit) net \<Rightarrow> bool" where
  "ppc_inv s n \<longleftrightarrow>
     ppc_input s = In \<and> ppc_output s \<in> {None, Some Out} \<and>
     if_kind (ifs n In) = PacketPass \<and> if_kind (ifs n Out) = PacketPass \<and>
     has_user (ifs n In) \<and> \<not> has_requestcancel (ifs n In) \<and> mtu (ifs n In) = ppc_input_mtu s \<and>
     (state (ifs n In) = IF_BUSY \<longleftrightarrow> 0 \<le> ppc_in_len s) \<and> -1 \<le> ppc_in_len s \<and>
     (0 \<le> ppc_in_len s \<longrightarrow>
        ppc_in_len s = op_len (ifs n In) \<and> ppc_in s = op_data (ifs n In)) \<and>
     (ppc_output s = None \<longrightarrow> \<not> has_user (ifs n Out) \<and> state (ifs n Out) = IF_NONE) \<and>
     (ppc_output s = Some Out \<longrightarrow>
        has_user (ifs n Out) \<and> ppc_input_mtu s \<le> mtu (ifs n Out) \<and>
        (state (ifs n Out) = IF_NONE \<longleftrightarrow> ppc_in_len s < 0) \<and>
        (0 \<le> ppc_in_len s \<longrightarrow>
           op_data (ifs n Out) = ppc_in s \<and> op_len (ifs n Out) = ppc_in_len s))"

lemmas ppc_defs = ppc_component_def ppc_inv_def then_calls_def handled_def op_arg_def done_arg_def
  PacketPassConnector_input_handler_send_def PacketPassConnector_output_handler_done_def
  PacketPassConnector_ConnectOutput_def PacketPassConnector_DisconnectOutput_def

interpretation ppc: flow_contract ppc_component ppc_inv
proof (unfold_locales, goal_cases)
  case (1 s n p)
  with net_ok_args [of n In] show ?case by (cases p) (auto simp: ppc_defs args_ok_def Let_def interface_defs)
next
  case (2 s n p)
  then show ?case by (cases p) (auto simp: ppc_defs)
next
  case (3 s n p)
  then show ?case by (auto simp: ppc_defs)
next
  case (4 s n p)
  then show ?case by (auto simp: ppc_defs)
next
  case (5 s n p)
  then show ?case by (cases p) (auto simp: ppc_defs interface_defs)
next
  case (6 s n p)
  then show ?case by (cases p) (auto simp: ppc_defs)
next
  case (7 s n c)
  then show ?case by (auto simp: ppc_defs)
next
  case (8 s n c)
  then show ?case by (auto simp: ppc_defs)
next
  case (9 s n k)
  then show ?case by (cases k) (auto simp: ppc_defs interface_defs Let_def)
next
  case (10 s n e)
  show ?case
  proof (cases e)
    case Connect
    with 10 net_ok_args [of n In] show ?thesis
      by (intro handled_good) (auto simp: ppc_defs args_ok_def interface_defs)
  next
    case (Disconnect m)
    with 10 show ?thesis
      by (auto simp: ppc_defs finish_def)
  qed
qed

section \<open>PacketRecvConnector\<close>

record 'p PacketRecvConnector =
  prc_output :: 'p
  prc_output_mtu :: int
  prc_out_have :: bool
  prc_out :: ptr
  prc_input :: "'p option"

definition PacketRecvConnector_output_handler_recv ::
    "'p PacketRecvConnector \<Rightarrow> ptr \<Rightarrow> 'p PacketRecvConnector \<times> ('p, 'c, 'u) call list" where
  "PacketRecvConnector_output_handler_recv o1 data =
     (let o2 = o1\<lparr>prc_out_have := True, prc_out := data\<rparr>
      in (o2, [Assert (\<not> prc_out_have o1)] @
              (case prc_input o2 of Some inp \<Rightarrow> [PR_Recv inp (prc_out o2)] | None \<Rightarrow> [])))"

definition PacketRecvConnector_input_handler_done ::
    "'p PacketRecvConnector \<Rightarrow> int \<Rightarrow> 'p PacketRecvConnector \<times> ('p, 'c, 'u) call list" where
  "PacketRecvConnector_input_handler_done o1 data_len =
     (o1\<lparr>prc_out_have := False\<rparr>,
      [Assert (prc_out_have o1), Assert (prc_input o1 \<noteq> None), PR_Done (prc_output o1) data_len])"

definition PacketRecvConnector_Init ::
    "'p \<Rightarrow> int \<Rightarrow> 'p PacketRecvConnector \<times> ('p, 'c, 'u) call list" where
  "PacketRecvConnector_Init out m =
     (\<lparr>prc_output = out, prc_output_mtu = m, prc_out_have = False, prc_out = 0, prc_input = None\<rparr>,
      [Assert (0 \<le> m), PR_Init out m])"

definition PacketRecvConnector_Free :: "'p PacketRecvConnector \<Rightarrow> ('p, 'c, 'u) call list" where
  "PacketRecvConnector_Free o1 = [PR_Free (prc_output o1)]"

definition PacketRecvConnector_GetOutput :: "'p PacketRecvConnector \<Rightarrow> 'p" where
  "PacketRecvConnector_GetOutput o1 = prc_output o1"

definition PacketRecvConnector_ConnectInput ::
    "'p PacketRecvConnector \<Rightarrow> 'p \<Rightarrow> 'p PacketRecvConnector \<times> ('p, 'c, 'u) call list" where
  "PacketRecvConnector_ConnectInput o1 inp =
     (o1\<lparr>prc_input := Some inp\<rparr>,
      [Assert (prc_input o1 = None), Assert_MTU_le inp (prc_output_mtu o1), PR_Receiver_Init inp] @
      (if prc_out_have o1 then [PR_Recv inp (prc_out o1)] else []))"

definition PacketRecvConnector_DisconnectInput ::
    "'p PacketRecvConnector \<Rightarrow> 'p PacketRecvConnector \<times> ('p, 'c, 'u) call list" where
  "PacketRecvConnector_DisconnectInput o1 =
     (o1\<lparr>prc_input := None\<rparr>, [Assert (prc_input o1 \<noteq> None)])"

definition prc_component :: "(port PacketRecvConnector, port, unit, unit, connector_api) component" where
  "prc_component = \<lparr>
     provides = (\<lambda>p. p = Out),
     on_operation = (\<lambda>p d l s. PacketRecvConnector_output_handler_recv s d),
     on_requestcancel = (\<lambda>p s. no_calls s),
     on_done = (\<lambda>p l s. PacketRecvConnector_input_handler_done s l),
     on_job = (\<lambda>c s. no_calls s),
     on_timer = (\<lambda>c s. no_calls s),
     on_api = (\<lambda>e s. case e of
         Connect \<Rightarrow> PacketRecvConnector_ConnectInput s In
       | Disconnect m \<Rightarrow> then_calls (PacketRecvConnector_DisconnectInput s) [PR_Free In, PR_Init In m]),
     api_ok = (\<lambda>e s n. case e of
         Connect \<Rightarrow> prc_input s = None \<and> mtu (ifs n In) \<le> prc_output_mtu s
       | Disconnect m \<Rightarrow> prc_input s \<noteq> None \<and> 0 \<le> m)\<rparr>"

definition prc_inv :: "port PacketRecvConnector \<Rightarrow> (port, unit) net \<Rightarrow> bool" where
  "prc_inv s n \<longleftrightarrow>
     prc_output s = Out \<and> prc_input s \<in> {None, Some In} \<and>
     if_kind (ifs n In) = PacketRecv \<and> if_kind (ifs n Out) = PacketRecv \<and>
     has_user (ifs n Out) \<and> mtu (ifs n Out) = prc_output_mtu s \<and>
     (state (ifs n Out) = IF_BUSY \<longleftrightarrow> prc_out_have s) \<and>
     (prc_out_have s \<longrightarrow> prc_out s = op_data (ifs n Out)) \<and>
     (prc_input s = None \<longrightarrow> \<not> has_user (ifs n In) \<and> state (ifs n In) = IF_NONE) \<and>
     (prc_input s = Some In \<longrightarrow>
        has_user (ifs n In) \<and> mtu (ifs n In) \<le> prc_output_mtu s \<and>
        (state (ifs n In) = IF_NONE \<longleftrightarrow> \<not> prc_out_have s) \<and>
        (prc_out_have s \<longrightarrow> op_data (ifs n In) = prc_out s))"

lemmas prc_defs = prc_component_def prc_inv_def then_calls_def handled_def op_arg_def done_arg_def args_ok_def
  PacketRecvConnector_output_handler_recv_def PacketRecvConnector_input_handler_done_def
  PacketRecvConnector_ConnectInput_def PacketRecvConnector_DisconnectInput_def

interpretation prc: flow_contract prc_component prc_inv
proof (unfold_locales, goal_cases)
  case (1 s n p)
  with net_ok_args [of n Out] show ?case by (cases p) (auto simp: prc_defs Let_def interface_defs)
next
  case (2 s n p)
  then show ?case by (cases p) (auto simp: prc_defs)
next
  case (5 s n p)
  with net_ok_args [of n In] show ?case by (cases p) (auto simp: prc_defs interface_defs)
next
  case (6 s n p)
  then show ?case by (cases p) (auto simp: prc_defs)
next
  case (9 s n k)
  then show ?case by (cases k) (auto simp: prc_defs interface_defs Let_def)
next
  case (10 s n e)
  show ?case
  proof (cases e)
    case Connect
    with 10 net_ok_args [of n Out] show ?thesis
      by (intro handled_good) (auto simp: prc_defs interface_defs)
  next
    case (Disconnect m)
    with 10 net_ok_no_cancel [of n In] show ?thesis
      by (auto simp: prc_defs finish_def)
  qed
qed (auto simp: prc_defs)

section \<open>StreamPassConnector\<close>

record 'p StreamPassConnector =
  spc_input :: 'p
  spc_in_len :: int
  spc_in :: ptr
  spc_output :: "'p option"

definition StreamPassConnector_input_handler_send ::
    "'p StreamPassConnector \<Rightarrow> ptr \<Rightarrow> int \<Rightarrow> 'p StreamPassConnector \<times> ('p, 'c, 'u) call list" where
  "StreamPassConnector_input_handler_send o1 data data_len =
     (let o2 = o1\<lparr>spc_in_len := data_len, spc_in := data\<rparr>
      in (o2, [Assert (0 < data_len), Assert (spc_in_len o1 = -1)] @
              (case spc_output o2 of
                 Some out \<Rightarrow> [SP_Send out (spc_in o2) (spc_in_len o2)]
               | None \<Rightarrow> [])))"

definition StreamPassConnector_output_handler_done ::
    "'p StreamPassConnector \<Rightarrow> int \<Rightarrow> 'p StreamPassConnector \<times> ('p, 'c, 'u) call list" where
  "StreamPassConnector_output_handler_done o1 data_len =
     (o1\<lparr>spc_in_len := -1\<rparr>,
      [Assert (0 < data_len), Assert (data_len \<le> spc_in_len o1), Assert (0 < spc_in_len o1),
       Assert (spc_output o1 \<noteq> None), SP_Done (spc_input o1) data_len])"

definition StreamPassConnector_Init ::
    "'p \<Rightarrow> 'p StreamPassConnector \<times> ('p, 'c, 'u) call list" where
  "StreamPassConnector_Init inp =
     (\<lparr>spc_input = inp, spc_in_len = -1, spc_in = 0, spc_output = None\<rparr>, [SP_Init inp])"

definition StreamPassConnector_Free :: "'p StreamPassConnector \<Rightarrow> ('p, 'c, 'u) call list" where
  "StreamPassConnector_Free o1 = [SP_Free (spc_input o1)]"

definition StreamPassConnector_GetInput :: "'p StreamPassConnector \<Rightarrow> 'p" where
  "StreamPassConnector_GetInput o1 = spc_input o1"

definition StreamPassConnector_ConnectOutput ::
    "'p StreamPassConnector \<Rightarrow> 'p \<Rightarrow> 'p StreamPassConnector \<times> ('p, 'c, 'u) call list" where
  "StreamPassConnector_ConnectOutput o1 out =
     (o1\<lparr>spc_output := Some out\<rparr>,
      [Assert (spc_output o1 = None), SP_Sender_Init out] @
      (if spc_in_len o1 > 0 then [SP_Send out (spc_in o1) (spc_in_len o1)] else []))"

definition StreamPassConnector_DisconnectOutput ::
    "'p StreamPassConnector \<Rightarrow> 'p StreamPassConnector \<times> ('p, 'c, 'u) call list" where
  "StreamPassConnector_DisconnectOutput o1 =
     (o1\<lparr>spc_output := None\<rparr>, [Assert (spc_output o1 \<noteq> None)])"

definition spc_component :: "(port StreamPassConnector, port, unit, unit, connector_api) component" where
  "spc_component = \<lparr>
     provides = (\<lambda>p. p = In),
     on_operation = (\<lambda>p d l s. StreamPassConnector_input_handler_send s d l),
     on_requestcancel = (\<lambda>p s. no_calls s),
     on_done = (\<lambda>p l s. StreamPassConnector_output_handler_done s l),
     on_job = (\<lambda>c s. no_calls s),
     on_timer = (\<lambda>c s. no_calls s),
     on_api = (\<lambda>e s. case e of
         Connect \<Rightarrow> StreamPassConnector_ConnectOutput s Out
       | Disconnect m \<Rightarrow> then_calls (StreamPassConnector_DisconnectOutput s) [SP_Free Out, SP_Init Out]),
     api_ok = (\<lambda>e s n. case e of
         Connect \<Rightarrow> spc_output s = None
       | Disconnect m \<Rightarrow> spc_output s \<noteq> None)\<rparr>"

definition spc_inv :: "port StreamPassConnector \<Rightarrow> (port, unit) net \<Rightarrow> bool" where
  "spc_inv s n \<longleftrightarrow>
     spc_input s = In \<and> spc_output s \<in> {None, Some Out} \<and>
     if_kind (ifs n In) = StreamPass \<and> if_kind (ifs n Out) = StreamPass \<and>
     has_user (ifs n In) \<and>
     (state (ifs n In) = IF_BUSY \<longleftrightarrow> spc_in_len s \<noteq> -1) \<and>
     (spc_in_len s \<noteq> -1 \<longrightarrow>
        0 < spc_in_len s \<and> spc_in_len s = op_len (ifs n In) \<and> spc_in s = op_data (ifs n In)) \<and>
     (spc_output s = None \<longrightarrow> \<not> has_user (ifs n Out) \<and> state (ifs n Out) = IF_NONE) \<and>
     (spc_output s = Some Out \<longrightarrow>
        has_user (ifs n Out) \<and> (state (ifs n Out) = IF_NONE \<longleftrightarrow> spc_in_len s = -1) \<and>
        (spc_in_len s \<noteq> -1 \<longrightarrow>
           op_data (ifs n Out) = spc_in s \<and> op_len (ifs n Out) = spc_in_len s))"

lemmas spc_defs = spc_component_def spc_inv_def then_calls_def handled_def op_arg_def done_arg_def args_ok_def
  StreamPassConnector_input_handler_send_def StreamPassConnector_output_handler_done_def
  StreamPassConnector_ConnectOutput_def StreamPassConnector_DisconnectOutput_def

interpretation spc: flow_contract spc_component spc_inv
proof (unfold_locales, goal_cases)
  case (1 s n p)
  with net_ok_args [of n In] show ?case by (cases p) (auto simp: spc_defs Let_def interface_defs)
next
  case (2 s n p)
  then show ?case by (cases p) (auto simp: spc_defs)
next
  case (5 s n p)
  with net_ok_args [of n Out] show ?case by (cases p) (auto simp: spc_defs interface_defs)
next
  case (6 s n p)
  then show ?case by (cases p) (auto simp: spc_defs)
next
  case (9 s n k)
  then show ?case by (cases k) (auto simp: spc_defs interface_defs Let_def)
next
  case (10 s n e)
  show ?case
  proof (cases e)
    case Connect
    with 10 net_ok_args [of n In] show ?thesis
      by (intro handled_good) (auto simp: spc_defs interface_defs)
  next
    case (Disconnect m)
    with 10 net_ok_no_cancel [of n Out] show ?thesis
      by (auto simp: spc_defs finish_def)
  qed
qed (auto simp: spc_defs)

section \<open>StreamRecvConnector\<close>

record 'p StreamRecvConnector =
  src_output :: 'p
  src_out_avail :: int
  src_out :: ptr
  src_input :: "'p option"

definition StreamRecvConnector_output_handler_recv ::
    "'p StreamRecvConnector \<Rightarrow> ptr \<Rightarrow> int \<Rightarrow> 'p StreamRecvConnector \<times> ('p, 'c, 'u) call list" where
  "StreamRecvConnector_output_handler_recv o1 data data_avail =
     (let o2 = o1\<lparr>src_out_avail := data_avail, src_out := data\<rparr>
      in (o2, [Assert (0 < data_avail), Assert (src_out_avail o1 = -1)] @
              (case src_input o2 of
                 Some inp \<Rightarrow> [SR_Recv inp (src_out o2) (src_out_avail o2)]
               | None \<Rightarrow> [])))"

definition StreamRecvConnector_input_handler_done ::
    "'p StreamRecvConnector \<Rightarrow> int \<Rightarrow> 'p StreamRecvConnector \<times> ('p, 'c, 'u) call list" where
  "StreamRecvConnector_input_handler_done o1 data_len =
     (o1\<lparr>src_out_avail := -1\<rparr>,
      [Assert (0 < data_len), Assert (data_len \<le> src_out_avail o1), Assert (0 < src_out_avail o1),
       Assert (src_input o1 \<noteq> None), SR_Done (src_output o1) data_len])"

definition StreamRecvConnector_Init ::
    "'p \<Rightarrow> 'p StreamRecvConnector \<times> ('p, 'c, 'u) call list" where
  "StreamRecvConnector_Init out =
     (\<lparr>src_output = out, src_out_avail = -1, src_out = 0, src_input = None\<rparr>, [SR_Init out])"

definition StreamRecvConnector_Free :: "'p StreamRecvConnector \<Rightarrow> ('p, 'c, 'u) call list" where
  "StreamRecvConnector_Free o1 = [SR_Free (src_output o1)]"

definition StreamRecvConnector_GetOutput :: "'p StreamRecvConnector \<Rightarrow> 'p" where
  "StreamRecvConnector_GetOutput o1 = src_output o1"

definition StreamRecvConnector_ConnectInput ::
    "'p StreamRecvConnector \<Rightarrow> 'p \<Rightarrow> 'p StreamRecvConnector \<times> ('p, 'c, 'u) call list" where
  "StreamRecvConnector_ConnectInput o1 inp =
     (o1\<lparr>src_input := Some inp\<rparr>,
      [Assert (src_input o1 = None), SR_Receiver_Init inp] @
      (if src_out_avail o1 > 0 then [SR_Recv inp (src_out o1) (src_out_avail o1)] else []))"

definition StreamRecvConnector_DisconnectInput ::
    "'p StreamRecvConnector \<Rightarrow> 'p StreamRecvConnector \<times> ('p, 'c, 'u) call list" where
  "StreamRecvConnector_DisconnectInput o1 =
     (o1\<lparr>src_input := None\<rparr>, [Assert (src_input o1 \<noteq> None)])"

definition src_component :: "(port StreamRecvConnector, port, unit, unit, connector_api) component" where
  "src_component = \<lparr>
     provides = (\<lambda>p. p = Out),
     on_operation = (\<lambda>p d l s. StreamRecvConnector_output_handler_recv s d l),
     on_requestcancel = (\<lambda>p s. no_calls s),
     on_done = (\<lambda>p l s. StreamRecvConnector_input_handler_done s l),
     on_job = (\<lambda>c s. no_calls s),
     on_timer = (\<lambda>c s. no_calls s),
     on_api = (\<lambda>e s. case e of
         Connect \<Rightarrow> StreamRecvConnector_ConnectInput s In
       | Disconnect m \<Rightarrow> then_calls (StreamRecvConnector_DisconnectInput s) [SR_Free In, SR_Init In]),
     api_ok = (\<lambda>e s n. case e of
         Connect \<Rightarrow> src_input s = None
       | Disconnect m \<Rightarrow> src_input s \<noteq> None)\<rparr>"

definition src_inv :: "port StreamRecvConnector \<Rightarrow> (port, unit) net \<Rightarrow> bool" where
  "src_inv s n \<longleftrightarrow>
     src_output s = Out \<and> src_input s \<in> {None, Some In} \<and>
     if_kind (ifs n Out) = StreamRecv \<and> if_kind (ifs n In) = StreamRecv \<and>
     has_user (ifs n Out) \<and>
     (state (ifs n Out) = IF_BUSY \<longleftrightarrow> src_out_avail s \<noteq> -1) \<and>
     (src_out_avail s \<noteq> -1 \<longrightarrow>
        0 < src_out_avail s \<and> src_out_avail s = op_len (ifs n Out) \<and> src_out s = op_data (ifs n Out)) \<and>
     (src_input s = None \<longrightarrow> \<not> has_user (ifs n In) \<and> state (ifs n In) = IF_NONE) \<and>
     (src_input s = Some In \<longrightarrow>
        has_user (ifs n In) \<and> (state (ifs n In) = IF_NONE \<longleftrightarrow> src_out_avail s = -1) \<and>
        (src_out_avail s \<noteq> -1 \<longrightarrow>
           op_data (ifs n In) = src_out s \<and> op_len (ifs n In) = src_out_avail s))"

lemmas src_defs = src_component_def src_inv_def then_calls_def handled_def op_arg_def done_arg_def args_ok_def
  StreamRecvConnector_output_handler_recv_def StreamRecvConnector_input_handler_done_def
  StreamRecvConnector_ConnectInput_def StreamRecvConnector_DisconnectInput_def

interpretation src: flow_contract src_component src_inv
proof (unfold_locales, goal_cases)
  case (1 s n p)
  with net_ok_args [of n Out] show ?case by (cases p) (auto simp: src_defs Let_def interface_defs)
next
  case (2 s n p)
  then show ?case by (cases p) (auto simp: src_defs)
next
  case (5 s n p)
  with net_ok_args [of n In] show ?case by (cases p) (auto simp: src_defs interface_defs)
next
  case (6 s n p)
  then show ?case by (cases p) (auto simp: src_defs)
next
  case (9 s n k)
  then show ?case by (cases k) (auto simp: src_defs interface_defs Let_def)
next
  case (10 s n e)
  show ?case
  proof (cases e)
    case Connect
    with 10 net_ok_args [of n Out] show ?thesis
      by (intro handled_good) (auto simp: src_defs interface_defs)
  next
    case (Disconnect m)
    with 10 net_ok_no_cancel [of n In] show ?thesis
      by (auto simp: src_defs finish_def)
  qed
qed (auto simp: src_defs)

section \<open>Properties\<close>

definition ppc_start :: "int \<Rightarrow> int \<Rightarrow> port PacketPassConnector \<times> (port, unit) net" where
  "ppc_start m m' =
     (case PacketPassConnector_Init In m of (s, cs :: (port, unit, unit) call list) \<Rightarrow>
        (s, started (cs @ [PP_Sender_Init In, PP_Init Out m'])))"

definition prc_start :: "int \<Rightarrow> int \<Rightarrow> port PacketRecvConnector \<times> (port, unit) net" where
  "prc_start m m' =
     (case PacketRecvConnector_Init Out m of (s, cs :: (port, unit, unit) call list) \<Rightarrow>
        (s, started (cs @ [PR_Receiver_Init Out, PR_Init In m'])))"

definition spc_start :: "port StreamPassConnector \<times> (port, unit) net" where
  "spc_start =
     (case StreamPassConnector_Init In of (s, cs :: (port, unit, unit) call list) \<Rightarrow>
        (s, started (cs @ [SP_Sender_Init In, SP_Init Out])))"

definition src_start :: "port StreamRecvConnector \<times> (port, unit) net" where
  "src_start =
     (case StreamRecvConnector_Init Out of (s, cs :: (port, unit, unit) call list) \<Rightarrow>
        (s, started (cs @ [SR_Receiver_Init Out, SR_Init In])))"

lemma ppc_start_inv: "case_prod ppc_inv (ppc_start m m')" "net_ok (snd (ppc_start m m'))"
  by (simp_all add: ppc_start_def started_def PacketPassConnector_Init_def ppc_inv_def)

lemma prc_start_inv: "case_prod prc_inv (prc_start m m')" "net_ok (snd (prc_start m m'))"
  by (simp_all add: prc_start_def started_def PacketRecvConnector_Init_def prc_inv_def)

lemma spc_start_inv: "case_prod spc_inv spc_start" "net_ok (snd spc_start)"
  by (simp_all add: spc_start_def started_def StreamPassConnector_Init_def spc_inv_def)

lemma src_start_inv: "case_prod src_inv src_start" "net_ok (snd src_start)"
  by (simp_all add: src_start_def started_def StreamRecvConnector_Init_def src_inv_def)

text \<open>However the user connects and disconnects the output of a \<open>PacketPassConnector\<close>,
  against any behaviour of both neighbours, no assertion of the code fails; and whenever the
  input has a packet in flight, a connected output is working on exactly that packet, while
  with no output connected the connector still holds it, to send it on the next connect.\<close>

theorem packet_survives_disconnect:
  assumes "reach_from ppc_component (ppc_start m m') r"
  shows "\<exists>s n. r = Some (s, n) \<and>
    (state (ifs n In) = IF_BUSY \<longrightarrow>
       PacketPassConnector_ConnectOutput s Out =
         (s\<lparr>ppc_output := Some Out\<rparr>,
          [Assert (ppc_output s = None), Assert_MTU_ge Out (ppc_input_mtu s), PP_Sender_Init Out,
           PP_Send Out (op_data (ifs n In)) (op_len (ifs n In))] ::
            (port, unit, unit) call list)) \<and>
    (state (ifs n In) = IF_BUSY \<and> ppc_output s \<noteq> None \<longrightarrow>
       state (ifs n Out) \<noteq> IF_NONE \<and> op_data (ifs n Out) = op_data (ifs n In) \<and>
       op_len (ifs n Out) = op_len (ifs n In))"
  by (rule ppc.reached [OF assms ppc_start_inv])
    (auto simp: ppc_inv_def PacketPassConnector_ConnectOutput_def)

text \<open>A packet arrives with no output connected, then an output is connected.\<close>

theorem packet_survives_disconnect_witness:
  "\<exists>s n. run_job ppc_component (JobOperation In)
       (fst (ppc_start 1500 1500), do_call (PP_Send In 4096 60 :: (port, unit, unit) call)
          (snd (ppc_start 1500 1500))) = Some (s, n) \<and>
     state (ifs n In) = IF_BUSY \<and> ppc_output s = None \<and>
     PacketPassConnector_ConnectOutput s Out =
       (s\<lparr>ppc_output := Some Out\<rparr>,
        [Assert True, Assert_MTU_ge Out 1500, PP_Sender_Init Out, PP_Send Out 4096 60] ::
          (port, unit, unit) call list)"
proof -
  let ?st = "ppc_start 1500 1500"
  let ?c = "PP_Send In 4096 60 :: (port, unit, unit) call"
  have 1: "reach_from ppc_component ?st (Some (fst ?st, do_call ?c (snd ?st)))"
    by (rule reach_env [OF reach_init])
      (simp_all add: ppc_component_def ppc_start_def started_def PacketPassConnector_Init_def)
  have "JobOperation In \<in> set (jobs (grp (do_call ?c (snd ?st))))"
    using ppc_start_inv(2) [of 1500 1500] by (simp add: PacketPassInterface_Sender_Send_def)
  from reach_job [OF 1 this]
  have 2: "reach_from ppc_component ?st
      (run_job ppc_component (JobOperation In) (fst ?st, do_call ?c (snd ?st)))" .
  show ?thesis
    using packet_survives_disconnect [OF 2]
    by (auto simp: run_job_def ppc_component_def ppc_start_def started_def finish_def Let_def
        PacketPassConnector_Init_def PacketPassConnector_input_handler_send_def
        iface_job_operation_def interface_defs)
qed

text \<open>The other three connectors against any neighbours and any connects and disconnects:
  no assertion fails; while the permanent side waits and the other side is connected, the
  latter is busy with the same buffer (and, for streams, the same length), so that what it
  completes is within what was asked for.\<close>

theorem connectors_forward_the_request:
  "\<lbrakk>reach_from prc_component (prc_start m m') r1; reach_from spc_component spc_start r2;
    reach_from src_component src_start r3\<rbrakk> \<Longrightarrow>
   \<exists>s1 n1 s2 n2 s3 n3. r1 = Some (s1, n1) \<and> r2 = Some (s2, n2) \<and> r3 = Some (s3, n3) \<and>
     (state (ifs n1 Out) = IF_BUSY \<and> prc_input s1 \<noteq> None \<longrightarrow>
        state (ifs n1 In) \<noteq> IF_NONE \<and> op_data (ifs n1 In) = op_data (ifs n1 Out)) \<and>
     (state (ifs n2 In) = IF_BUSY \<and> spc_output s2 \<noteq> None \<longrightarrow>
        state (ifs n2 Out) \<noteq> IF_NONE \<and> op_data (ifs n2 Out) = op_data (ifs n2 In) \<and>
        op_len (ifs n2 Out) = op_len (ifs n2 In)) \<and>
     (state (ifs n3 Out) = IF_BUSY \<and> src_input s3 \<noteq> None \<longrightarrow>
        state (ifs n3 In) \<noteq> IF_NONE \<and> op_data (ifs n3 In) = op_data (ifs n3 Out) \<and>
        op_len (ifs n3 In) = op_len (ifs n3 Out))"
proof -
  assume 1: "reach_from prc_component (prc_start m m') r1"
    and 2: "reach_from spc_component spc_start r2" and 3: "reach_from src_component src_start r3"
  from prc.reached [OF 1 prc_start_inv] obtain s1 n1
    where r1: "r1 = Some (s1, n1)" and i1: "prc_inv s1 n1" .
  from spc.reached [OF 2 spc_start_inv] obtain s2 n2
    where r2: "r2 = Some (s2, n2)" and i2: "spc_inv s2 n2" .
  from src.reached [OF 3 src_start_inv] obtain s3 n3
    where r3: "r3 = Some (s3, n3)" and i3: "src_inv s3 n3" .
  from i1 have 1: "state (ifs n1 Out) = IF_BUSY \<and> prc_input s1 \<noteq> None \<Longrightarrow>
      state (ifs n1 In) \<noteq> IF_NONE \<and> op_data (ifs n1 In) = op_data (ifs n1 Out)"
    by (auto simp: prc_inv_def)
  from i2 have 2: "state (ifs n2 In) = IF_BUSY \<and> spc_output s2 \<noteq> None \<Longrightarrow>
      state (ifs n2 Out) \<noteq> IF_NONE \<and> op_data (ifs n2 Out) = op_data (ifs n2 In) \<and>
      op_len (ifs n2 Out) = op_len (ifs n2 In)"
    by (auto simp: spc_inv_def)
  from i3 have 3: "state (ifs n3 Out) = IF_BUSY \<and> src_input s3 \<noteq> None \<Longrightarrow>
      state (ifs n3 In) \<noteq> IF_NONE \<and> op_data (ifs n3 In) = op_data (ifs n3 Out) \<and>
      op_len (ifs n3 In) = op_len (ifs n3 Out)"
    by (auto simp: src_inv_def)
  from 1 2 3 show ?thesis by (simp add: r1 r2 r3)
qed

theorem connectors_forward_the_request_witness:
  "\<exists>r1 r2 r3. reach_from prc_component (prc_start 1500 1400) r1 \<and>
     reach_from spc_component spc_start r2 \<and> reach_from src_component src_start r3 \<and>
     r1 \<noteq> None \<and> r2 \<noteq> None \<and> r3 \<noteq> None"
proof -
  have 1: "reach_from prc_component (prc_start 1500 1400) (Some (prc_start 1500 1400))"
    using reach_init [of prc_component "fst (prc_start 1500 1400)" "snd (prc_start 1500 1400)"]
    by simp
  have 2: "reach_from spc_component spc_start (Some spc_start)"
    using reach_init [of spc_component "fst spc_start" "snd spc_start"] by simp
  have 3: "reach_from src_component src_start (Some src_start)"
    using reach_init [of src_component "fst src_start" "snd src_start"] by simp
  show ?thesis
    using connectors_forward_the_request [OF 1 2 3] 1 2 3 by blast
qed

end
