(* ===== verification/Flow_Adapters.thy ===== *)
theory Flow_Adapters
  imports Flow_Contract
begin

text \<open>
  The small adapters of \<open>flow/\<close> and \<open>flowextra/\<close>: \<open>PacketPassNotifier\<close>, \<open>PacketCopier\<close>,
  \<open>PacketRecvBlocker\<close>, \<open>BufferWriter\<close>, \<open>SinglePacketBuffer\<close>, \<open>SinglePacketSender\<close> and
  \<open>PacketPassInactivityMonitor\<close>.  In every component \<open>In\<close> is the interface data comes in by and
  \<open>Out\<close> the one it leaves by; which of them the component provides is \<open>provides\<close>.
\<close>

section \<open>PacketPassNotifier\<close>

record 'p PacketPassNotifier =
  ppn_input :: 'p
  ppn_output :: 'p
  ppn_handler :: bool

datatype notify = Notify ptr int

definition PacketPassNotifier_input_handler_send ::
    "'p PacketPassNotifier \<Rightarrow> ptr \<Rightarrow> int \<Rightarrow> ('p, 'c, notify) call list" where
  "PacketPassNotifier_input_handler_send o1 data data_len =
     PP_Send (ppn_output o1) data data_len #
     (if ppn_handler o1 then [UserCall (Notify data data_len)] else [])"

definition PacketPassNotifier_input_handler_requestcancel ::
    "'p PacketPassNotifier \<Rightarrow> ('p, 'c, 'u) call list" where
  "PacketPassNotifier_input_handler_requestcancel o1 = [PP_RequestCancel (ppn_output o1)]"

definition PacketPassNotifier_output_handler_done ::
    "'p PacketPassNotifier \<Rightarrow> ('p, 'c, 'u) call list" where
  "PacketPassNotifier_output_handler_done o1 = [PP_Done (ppn_input o1)]"

text \<open>\<open>mtu_out\<close> and \<open>can_cancel\<close> are what \<open>PacketPassInterface_GetMTU\<close> and \<open>_HasCancel\<close> return
  on the output.\<close>

definition PacketPassNotifier_Init ::
    "'p \<Rightarrow> 'p \<Rightarrow> int \<Rightarrow> bool \<Rightarrow> 'p PacketPassNotifier \<times> ('p, 'c, 'u) call list" where
  "PacketPassNotifier_Init inp out mtu_out can_cancel =
     (\<lparr>ppn_input = inp, ppn_output = out, ppn_handler = False\<rparr>,
      [PP_Init inp mtu_out] @ (if can_cancel then [PP_EnableCancel inp] else []) @
      [PP_Sender_Init out])"

definition PacketPassNotifier_Free :: "'p PacketPassNotifier \<Rightarrow> ('p, 'c, 'u) call list" where
  "PacketPassNotifier_Free o1 = [PP_Free (ppn_input o1)]"

definition PacketPassNotifier_GetInput :: "'p PacketPassNotifier \<Rightarrow> 'p" where
  "PacketPassNotifier_GetInput o1 = ppn_input o1"

definition PacketPassNotifier_SetHandler ::
    "'p PacketPassNotifier \<Rightarrow> bool \<Rightarrow> 'p PacketPassNotifier" where
  "PacketPassNotifier_SetHandler o1 h = o1\<lparr>ppn_handler := h\<rparr>"

definition ppn_component :: "(port PacketPassNotifier, port, unit, notify, bool) component" where
  "ppn_component = \<lparr>
     provides = (\<lambda>p. p = In),
     on_operation = (\<lambda>p d l s. (s, PacketPassNotifier_input_handler_send s d l)),
     on_requestcancel = (\<lambda>p s. (s, PacketPassNotifier_input_handler_requestcancel s)),
     on_done = (\<lambda>p l s. (s, PacketPassNotifier_output_handler_done s)),
     on_job = (\<lambda>c s. no_calls s),
     on_timer = (\<lambda>c s. no_calls s),
     on_api = (\<lambda>h s. no_calls (PacketPassNotifier_SetHandler s h)),
     api_ok = (\<lambda>h s n. True)\<rparr>"

text \<open>A packet interface passed straight through: the shared part of the invariants.\<close>

definition pass_through :: "(port, 'c) net \<Rightarrow> bool" where
  "pass_through n \<longleftrightarrow>
     if_kind (ifs n In) = PacketPass \<and> if_kind (ifs n Out) = PacketPass \<and>
     has_user (ifs n In) \<and> has_user (ifs n Out) \<and> mtu (ifs n In) = mtu (ifs n Out) \<and>
     has_requestcancel (ifs n In) = has_requestcancel (ifs n Out) \<and>
     (state (ifs n In) = IF_BUSY \<longleftrightarrow> state (ifs n Out) \<noteq> IF_NONE) \<and>
     (state (ifs n In) = IF_BUSY \<longrightarrow> op_data (ifs n Out) = op_data (ifs n In) \<and>
        op_len (ifs n Out) = op_len (ifs n In))"

definition ppn_inv :: "port PacketPassNotifier \<Rightarrow> (port, unit) net \<Rightarrow> bool" where
  "ppn_inv s n \<longleftrightarrow> ppn_input s = In \<and> ppn_output s = Out \<and> pass_through n"

lemmas ppn_defs = ppn_component_def ppn_inv_def pass_through_def handled_def op_arg_def done_arg_def
  PacketPassNotifier_input_handler_send_def PacketPassNotifier_input_handler_requestcancel_def
  PacketPassNotifier_output_handler_done_def PacketPassNotifier_SetHandler_def

interpretation ppn: flow_contract ppn_component ppn_inv
proof (unfold_locales, goal_cases)
  case (1 s n p)
  with net_ok_args [of n In] show ?case
    by (cases p) (auto simp: ppn_defs args_ok_def interface_defs)
next
  case (2 s n p)
  then show ?case by (cases p) (auto simp: ppn_defs)
next
  case (3 s n p)
  then show ?case by (cases p) (auto simp: ppn_defs interface_defs Let_def)
next
  case (5 s n p)
  then show ?case by (cases p) (auto simp: ppn_defs interface_defs)
next
  case (6 s n p)
  then show ?case by (cases p) (auto simp: ppn_defs)
next
  case (9 s n k)
  then show ?case by (cases k) (auto simp: ppn_defs interface_defs Let_def)
next
  case (10 s n e)
  then show ?case by (intro handled_good) (auto simp: ppn_defs)
qed (auto simp: ppn_defs)

section \<open>PacketCopier\<close>

record 'p PacketCopier =
  pc_input :: 'p
  pc_output :: 'p
  pc_in_len :: int
  pc_in :: ptr
  pc_out_have :: bool
  pc_out :: ptr

definition PacketCopier_input_handler_send ::
    "'p PacketCopier \<Rightarrow> mem \<Rightarrow> ptr \<Rightarrow> int \<Rightarrow> ('p PacketCopier \<times> mem) \<times> ('p, 'c, 'u) call list" where
  "PacketCopier_input_handler_send o1 m data data_len =
     (let asserts = [Assert (pc_in_len o1 = -1), Assert (0 \<le> data_len)]
      in if \<not> pc_out_have o1
         then ((o1\<lparr>pc_in_len := data_len, pc_in := data\<rparr>, m), asserts)
         else ((o1\<lparr>pc_out_have := False\<rparr>, memcpy m (pc_out o1) data (nat data_len)),
               asserts @ [PP_Done (pc_input o1), PR_Done (pc_output o1) data_len]))"

definition PacketCopier_input_handler_requestcancel ::
    "'p PacketCopier \<Rightarrow> 'p PacketCopier \<times> ('p, 'c, 'u) call list" where
  "PacketCopier_input_handler_requestcancel o1 =
     (o1\<lparr>pc_in_len := -1\<rparr>,
      [Assert (0 \<le> pc_in_len o1), Assert (\<not> pc_out_have o1), PP_Done (pc_input o1)])"

definition PacketCopier_output_handler_recv ::
    "'p PacketCopier \<Rightarrow> mem \<Rightarrow> ptr \<Rightarrow> ('p PacketCopier \<times> mem) \<times> ('p, 'c, 'u) call list" where
  "PacketCopier_output_handler_recv o1 m data =
     (let asserts = [Assert (\<not> pc_out_have o1)]
      in if pc_in_len o1 < 0
         then ((o1\<lparr>pc_out_have := True, pc_out := data\<rparr>, m), asserts)
         else ((o1\<lparr>pc_in_len := -1\<rparr>, memcpy m data (pc_in o1) (nat (pc_in_len o1))),
               asserts @ [PP_Done (pc_input o1), PR_Done (pc_output o1) (pc_in_len o1)]))"

definition PacketCopier_Init ::
    "'p \<Rightarrow> 'p \<Rightarrow> int \<Rightarrow> 'p PacketCopier \<times> ('p, 'c, 'u) call list" where
  "PacketCopier_Init inp out m =
     (\<lparr>pc_input = inp, pc_output = out, pc_in_len = -1, pc_in = 0, pc_out_have = False,
       pc_out = 0\<rparr>,
      [Assert (0 \<le> m), PP_Init inp m, PP_EnableCancel inp, PR_Init out m])"

definition PacketCopier_Free :: "'p PacketCopier \<Rightarrow> ('p, 'c, 'u) call list" where
  "PacketCopier_Free o1 = [PR_Free (pc_output o1), PP_Free (pc_input o1)]"

definition PacketCopier_GetInput :: "'p PacketCopier \<Rightarrow> 'p" where
  "PacketCopier_GetInput o1 = pc_input o1"

definition PacketCopier_GetOutput :: "'p PacketCopier \<Rightarrow> 'p" where
  "PacketCopier_GetOutput o1 = pc_output o1"

text \<open>The environment writes memory as it likes (\<open>on_api\<close>), as long as it leaves the packet it
  has handed in alone.\<close>

definition pc_component :: "(port PacketCopier \<times> mem, port, unit, unit, mem) component" where
  "pc_component = \<lparr>
     provides = (\<lambda>p. True),
     on_operation = (\<lambda>p d l (s, m).
        if p = In then PacketCopier_input_handler_send s m d l
        else PacketCopier_output_handler_recv s m d),
     on_requestcancel = (\<lambda>p (s, m).
        case PacketCopier_input_handler_requestcancel s of (s', cs) \<Rightarrow> ((s', m), cs)),
     on_done = (\<lambda>p l s. no_calls s),
     on_job = (\<lambda>c s. no_calls s),
     on_timer = (\<lambda>c s. no_calls s),
     on_api = (\<lambda>m' (s, m). ((s, m'), [])),
     api_ok = (\<lambda>m' (s, m) n. 0 \<le> pc_in_len s \<longrightarrow>
        mread m' (pc_in s) (nat (pc_in_len s)) = mread m (pc_in s) (nat (pc_in_len s)))\<rparr>"

definition pc_inv :: "port PacketCopier \<times> mem \<Rightarrow> (port, unit) net \<Rightarrow> bool" where
  "pc_inv sm n \<longleftrightarrow> (case sm of (s, m) \<Rightarrow>
     pc_input s = In \<and> pc_output s = Out \<and>
     if_kind (ifs n In) = PacketPass \<and> if_kind (ifs n Out) = PacketRecv \<and>
     has_user (ifs n In) \<and> has_user (ifs n Out) \<and> mtu (ifs n In) = mtu (ifs n Out) \<and>
     -1 \<le> pc_in_len s \<and>
     (state (ifs n In) = IF_BUSY \<longleftrightarrow> 0 \<le> pc_in_len s) \<and>
     (state (ifs n Out) = IF_BUSY \<longleftrightarrow> pc_out_have s) \<and>
     \<not> (0 \<le> pc_in_len s \<and> pc_out_have s) \<and>
     (0 \<le> pc_in_len s \<longrightarrow> pc_in s = op_data (ifs n In) \<and> pc_in_len s = op_len (ifs n In)) \<and>
     (pc_out_have s \<longrightarrow> pc_out s = op_data (ifs n Out)))"

lemmas pc_defs = pc_component_def pc_inv_def handled_def op_arg_def done_arg_def
  PacketCopier_input_handler_send_def PacketCopier_output_handler_recv_def
  PacketCopier_input_handler_requestcancel_def

interpretation pc: flow_contract pc_component pc_inv
proof (unfold_locales, goal_cases)
  case (1 s n p)
  with net_ok_args [of n In] show ?case
    by (cases p; cases s) (auto simp: pc_defs args_ok_def interface_defs Let_def)
next
  case (2 s n p)
  then show ?case by (auto simp: pc_defs)
next
  case (3 s n p)
  then show ?case by (cases p; cases s) (auto simp: pc_defs interface_defs dest: net_ok_no_cancel)
next
  case (6 s n p)
  then show ?case by (cases p) (auto simp: pc_defs)
next
  case (9 s n k)
  then show ?case by (cases k) (auto simp: pc_defs interface_defs Let_def)
next
  case (10 s n e)
  then show ?case by (intro handled_good) (auto simp: pc_defs)
qed (auto simp: pc_defs)

section \<open>PacketRecvBlocker\<close>

record 'p PacketRecvBlocker =
  prb_output :: 'p
  prb_out_have :: bool
  prb_out :: ptr
  prb_out_input_blocking :: bool
  prb_input :: 'p

definition PacketRecvBlocker_output_handler_recv ::
    "'p PacketRecvBlocker \<Rightarrow> ptr \<Rightarrow> 'p PacketRecvBlocker \<times> ('p, 'c, 'u) call list" where
  "PacketRecvBlocker_output_handler_recv o1 data =
     (o1\<lparr>prb_out_have := True, prb_out := data, prb_out_input_blocking := False\<rparr>,
      [Assert (\<not> prb_out_have o1)])"

definition PacketRecvBlocker_input_handler_done ::
    "'p PacketRecvBlocker \<Rightarrow> int \<Rightarrow> 'p PacketRecvBlocker \<times> ('p, 'c, 'u) call list" where
  "PacketRecvBlocker_input_handler_done o1 data_len =
     (o1\<lparr>prb_out_have := False\<rparr>,
      [Assert (prb_out_have o1), Assert (prb_out_input_blocking o1),
       PR_Done (prb_output o1) data_len])"

definition PacketRecvBlocker_Init ::
    "'p \<Rightarrow> 'p \<Rightarrow> int \<Rightarrow> 'p PacketRecvBlocker \<times> ('p, 'c, 'u) call list" where
  "PacketRecvBlocker_Init inp out mtu_in =
     (\<lparr>prb_output = out, prb_out_have = False, prb_out = 0, prb_out_input_blocking = False,
       prb_input = inp\<rparr>,
      [PR_Init out mtu_in, PR_Receiver_Init inp])"

definition PacketRecvBlocker_Free :: "'p PacketRecvBlocker \<Rightarrow> ('p, 'c, 'u) call list" where
  "PacketRecvBlocker_Free o1 = [PR_Free (prb_output o1)]"

definition PacketRecvBlocker_GetOutput :: "'p PacketRecvBlocker \<Rightarrow> 'p" where
  "PacketRecvBlocker_GetOutput o1 = prb_output o1"

definition PacketRecvBlocker_AllowBlockedPacket ::
    "'p PacketRecvBlocker \<Rightarrow> 'p PacketRecvBlocker \<times> ('p, 'c, 'u) call list" where
  "PacketRecvBlocker_AllowBlockedPacket o1 =
     (if \<not> prb_out_have o1 \<or> prb_out_input_blocking o1 then (o1, [])
      else (o1\<lparr>prb_out_input_blocking := True\<rparr>, [PR_Recv (prb_input o1) (prb_out o1)]))"

definition prb_component :: "(port PacketRecvBlocker, port, unit, unit, unit) component" where
  "prb_component = \<lparr>
     provides = (\<lambda>p. p = Out),
     on_operation = (\<lambda>p d l s. PacketRecvBlocker_output_handler_recv s d),
     on_requestcancel = (\<lambda>p s. no_calls s),
     on_done = (\<lambda>p l s. PacketRecvBlocker_input_handler_done s l),
     on_job = (\<lambda>c s. no_calls s),
     on_timer = (\<lambda>c s. no_calls s),
     on_api = (\<lambda>_ s. PacketRecvBlocker_AllowBlockedPacket s),
     api_ok = (\<lambda>_ s n. True)\<rparr>"

definition prb_inv :: "port PacketRecvBlocker \<Rightarrow> (port, unit) net \<Rightarrow> bool" where
  "prb_inv s n \<longleftrightarrow>
     prb_input s = In \<and> prb_output s = Out \<and>
     if_kind (ifs n In) = PacketRecv \<and> if_kind (ifs n Out) = PacketRecv \<and>
     has_user (ifs n In) \<and> has_user (ifs n Out) \<and> mtu (ifs n In) = mtu (ifs n Out) \<and>
     (state (ifs n Out) = IF_BUSY \<longleftrightarrow> prb_out_have s) \<and>
     (prb_out_have s \<longrightarrow> prb_out s = op_data (ifs n Out)) \<and>
     (state (ifs n In) \<noteq> IF_NONE \<longleftrightarrow> prb_out_have s \<and> prb_out_input_blocking s) \<and>
     (state (ifs n In) \<noteq> IF_NONE \<longrightarrow> op_data (ifs n In) = op_data (ifs n Out))"

lemmas prb_defs = prb_component_def prb_inv_def handled_def op_arg_def done_arg_def args_ok_def
  PacketRecvBlocker_output_handler_recv_def PacketRecvBlocker_input_handler_done_def
  PacketRecvBlocker_AllowBlockedPacket_def

interpretation prb: flow_contract prb_component prb_inv
proof (unfold_locales, goal_cases)
  case (1 s n p)
  then show ?case by (cases p) (auto simp: prb_defs)
next
  case (2 s n p)
  then show ?case by (cases p) (auto simp: prb_defs)
next
  case (5 s n p)
  with net_ok_args [of n In] show ?case by (cases p) (auto simp: prb_defs interface_defs)
next
  case (6 s n p)
  then show ?case by (cases p) (auto simp: prb_defs)
next
  case (9 s n k)
  then show ?case by (cases k) (auto simp: prb_defs interface_defs Let_def)
next
  case (10 s n e)
  with net_ok_args [of n Out] show ?case
    by (intro handled_good) (auto simp: prb_defs interface_defs)
qed (auto simp: prb_defs)

section \<open>BufferWriter\<close>

text \<open>\<open>d_mtu\<close> and \<open>d_writing\<close> exist in builds without \<open>NDEBUG\<close> only; they state what the caller
  owes and no branch reads them.\<close>

record 'p BufferWriter =
  bw_recv_interface :: 'p
  bw_out_have :: bool
  bw_out :: ptr
  bw_d_mtu :: int
  bw_d_writing :: bool

definition BufferWriter_output_handler_recv ::
    "'p BufferWriter \<Rightarrow> ptr \<Rightarrow> 'p BufferWriter \<times> ('p, 'c, 'u) call list" where
  "BufferWriter_output_handler_recv o1 data =
     (o1\<lparr>bw_out_have := True, bw_out := data\<rparr>, [Assert (\<not> bw_out_have o1)])"

definition BufferWriter_Init :: "'p \<Rightarrow> int \<Rightarrow> 'p BufferWriter \<times> ('p, 'c, 'u) call list" where
  "BufferWriter_Init out m =
     (\<lparr>bw_recv_interface = out, bw_out_have = False, bw_out = 0, bw_d_mtu = m,
       bw_d_writing = False\<rparr>, [Assert (0 \<le> m), PR_Init out m])"

definition BufferWriter_Free :: "'p BufferWriter \<Rightarrow> ('p, 'c, 'u) call list" where
  "BufferWriter_Free o1 = [PR_Free (bw_recv_interface o1)]"

definition BufferWriter_GetOutput :: "'p BufferWriter \<Rightarrow> 'p" where
  "BufferWriter_GetOutput o1 = bw_recv_interface o1"

text \<open>The returned option is the result 1 with the buffer in \<open>*buf\<close>, or the result 0.\<close>

definition BufferWriter_StartPacket ::
    "'p BufferWriter \<Rightarrow> 'p BufferWriter \<times> ('p, 'c, 'u) call list \<times> ptr option" where
  "BufferWriter_StartPacket o1 =
     (if \<not> bw_out_have o1 then (o1, [Assert (\<not> bw_d_writing o1)], None)
      else (o1\<lparr>bw_d_writing := True\<rparr>, [Assert (\<not> bw_d_writing o1)], Some (bw_out o1)))"

definition BufferWriter_EndPacket ::
    "'p BufferWriter \<Rightarrow> int \<Rightarrow> 'p BufferWriter \<times> ('p, 'c, 'u) call list" where
  "BufferWriter_EndPacket o1 len =
     (o1\<lparr>bw_out_have := False, bw_d_writing := False\<rparr>,
      [Assert (0 \<le> len), Assert (len \<le> bw_d_mtu o1), Assert (bw_out_have o1),
       Assert (bw_d_writing o1), PR_Done (bw_recv_interface o1) len])"

datatype writer_api = StartPacket | EndPacket int

definition bw_component :: "(port BufferWriter, port, unit, unit, writer_api) component" where
  "bw_component = \<lparr>
     provides = (\<lambda>p. True),
     on_operation = (\<lambda>p d l s. BufferWriter_output_handler_recv s d),
     on_requestcancel = (\<lambda>p s. no_calls s),
     on_done = (\<lambda>p l s. no_calls s),
     on_job = (\<lambda>c s. no_calls s),
     on_timer = (\<lambda>c s. no_calls s),
     on_api = (\<lambda>e s. case e of
         StartPacket \<Rightarrow> (case BufferWriter_StartPacket s of (s', cs, _) \<Rightarrow> (s', cs))
       | EndPacket len \<Rightarrow> BufferWriter_EndPacket s len),
     api_ok = (\<lambda>e s n. case e of
         StartPacket \<Rightarrow> \<not> bw_d_writing s
       | EndPacket len \<Rightarrow> 0 \<le> len \<and> len \<le> bw_d_mtu s \<and> bw_d_writing s)\<rparr>"

definition bw_inv :: "port BufferWriter \<Rightarrow> (port, unit) net \<Rightarrow> bool" where
  "bw_inv s n \<longleftrightarrow>
     bw_recv_interface s = Out \<and> if_kind (ifs n Out) = PacketRecv \<and> has_user (ifs n Out) \<and>
     mtu (ifs n Out) = bw_d_mtu s \<and> state (ifs n In) = IF_NONE \<and> \<not> has_user (ifs n In) \<and>
     (state (ifs n Out) = IF_BUSY \<longleftrightarrow> bw_out_have s) \<and>
     (bw_d_writing s \<longrightarrow> bw_out_have s) \<and>
     (bw_out_have s \<longrightarrow> bw_out s = op_data (ifs n Out))"

lemmas bw_defs = bw_component_def bw_inv_def handled_def op_arg_def done_arg_def
  BufferWriter_output_handler_recv_def BufferWriter_StartPacket_def BufferWriter_EndPacket_def

interpretation bw: flow_contract bw_component bw_inv
proof (unfold_locales, goal_cases)
  case (1 s n p)
  then show ?case by (cases p) (auto simp: bw_defs)
next
  case (6 s n p)
  then show ?case by (cases p) (auto simp: bw_defs)
next
  case (9 s n k)
  then show ?case by (cases k) (auto simp: bw_defs interface_defs Let_def)
next
  case (10 s n e)
  then show ?case
    by (cases e; intro handled_good) (auto simp: bw_defs interface_defs)
qed (auto simp: bw_defs)

section \<open>SinglePacketBuffer\<close>

record 'p SinglePacketBuffer =
  spb_input :: 'p
  spb_output :: 'p
  spb_buf :: ptr

definition SinglePacketBuffer_input_handler_done ::
    "'p SinglePacketBuffer \<Rightarrow> int \<Rightarrow> ('p, 'c, 'u) call list" where
  "SinglePacketBuffer_input_handler_done o1 in_len = [PP_Send (spb_output o1) (spb_buf o1) in_len]"

definition SinglePacketBuffer_output_handler_done ::
    "'p SinglePacketBuffer \<Rightarrow> ('p, 'c, 'u) call list" where
  "SinglePacketBuffer_output_handler_done o1 = [PR_Recv (spb_input o1) (spb_buf o1)]"

text \<open>\<open>alloc\<close> is the result of \<open>BAlloc\<close>; without memory \<open>Init\<close> returns 0 (\<open>None\<close>).\<close>

definition SinglePacketBuffer_Init ::
    "'p \<Rightarrow> 'p \<Rightarrow> int \<Rightarrow> ptr option \<Rightarrow> 'p SinglePacketBuffer option \<times> ('p, 'c, 'u) call list" where
  "SinglePacketBuffer_Init inp out mtu_in alloc =
     (let cs = [Assert_MTU_ge out mtu_in, PR_Receiver_Init inp, PP_Sender_Init out]
      in case alloc of
           None \<Rightarrow> (None, cs)
         | Some b \<Rightarrow> (Some \<lparr>spb_input = inp, spb_output = out, spb_buf = b\<rparr>,
                      cs @ [PR_Recv inp b]))"

definition spb_component :: "(port SinglePacketBuffer, port, unit, unit, unit) component" where
  "spb_component = \<lparr>
     provides = (\<lambda>p. False),
     on_operation = (\<lambda>p d l s. no_calls s),
     on_requestcancel = (\<lambda>p s. no_calls s),
     on_done = (\<lambda>p l s. (s, if p = In then SinglePacketBuffer_input_handler_done s l
                             else SinglePacketBuffer_output_handler_done s)),
     on_job = (\<lambda>c s. no_calls s),
     on_timer = (\<lambda>c s. no_calls s),
     on_api = (\<lambda>e s. no_calls s),
     api_ok = (\<lambda>e s n. False)\<rparr>"

definition spb_inv :: "port SinglePacketBuffer \<Rightarrow> (port, unit) net \<Rightarrow> bool" where
  "spb_inv s n \<longleftrightarrow>
     spb_input s = In \<and> spb_output s = Out \<and> spb_buf s \<noteq> 0 \<and>
     if_kind (ifs n In) = PacketRecv \<and> if_kind (ifs n Out) = PacketPass \<and>
     has_user (ifs n In) \<and> has_user (ifs n Out) \<and> mtu (ifs n In) \<le> mtu (ifs n Out) \<and>
     (state (ifs n In) = IF_NONE \<longleftrightarrow> state (ifs n Out) \<noteq> IF_NONE) \<and>
     (state (ifs n In) \<noteq> IF_NONE \<longrightarrow> op_data (ifs n In) = spb_buf s) \<and>
     (state (ifs n Out) \<noteq> IF_NONE \<longrightarrow> op_data (ifs n Out) = spb_buf s)"

lemmas spb_defs = spb_component_def spb_inv_def handled_def op_arg_def done_arg_def args_ok_def
  SinglePacketBuffer_input_handler_done_def SinglePacketBuffer_output_handler_done_def

interpretation spb: flow_contract spb_component spb_inv
proof (unfold_locales, goal_cases)
  case (2 s n p)
  then show ?case by (cases p) (auto simp: spb_defs)
next
  case (5 s n p)
  with net_ok_args [of n In] show ?case by (cases p) (auto simp: spb_defs interface_defs)
next
  case (9 s n k)
  then show ?case by (cases k) (auto simp: spb_defs interface_defs Let_def)
qed (auto simp: spb_defs)

section \<open>SinglePacketSender\<close>

record 'p SinglePacketSender =
  sps_output :: 'p

datatype sender_event = Sent

definition SinglePacketSender_call_handler :: "('p, 'c, sender_event) call list" where
  "SinglePacketSender_call_handler = [UserCall Sent]"

definition SinglePacketSender_output_handler_done ::
    "'p SinglePacketSender \<Rightarrow> ('p, 'c, sender_event) call list" where
  "SinglePacketSender_output_handler_done o1 = SinglePacketSender_call_handler"

definition SinglePacketSender_Init ::
    "ptr \<Rightarrow> int \<Rightarrow> 'p \<Rightarrow> 'p SinglePacketSender \<times> ('p, 'c, 'u) call list" where
  "SinglePacketSender_Init packet packet_len out =
     (\<lparr>sps_output = out\<rparr>,
      [Assert (0 \<le> packet_len), Assert_MTU_ge out packet_len, PP_Sender_Init out,
       PP_Send out packet packet_len])"

section \<open>PacketPassInactivityMonitor\<close>

record ('p, 'c) PacketPassInactivityMonitor =
  im_output :: 'p
  im_handler :: bool
  im_input :: 'p
  im_timer :: 'c

datatype inactivity = Inactive

definition PacketPassInactivityMonitor_input_handler_send ::
    "('p, 'c) PacketPassInactivityMonitor \<Rightarrow> ptr \<Rightarrow> int \<Rightarrow> ('p, 'c, 'u) call list" where
  "PacketPassInactivityMonitor_input_handler_send o1 data data_len =
     [PP_Send (im_output o1) data data_len, Timer_Remove (im_timer o1)]"

definition PacketPassInactivityMonitor_input_handler_requestcancel ::
    "('p, 'c) PacketPassInactivityMonitor \<Rightarrow> ('p, 'c, 'u) call list" where
  "PacketPassInactivityMonitor_input_handler_requestcancel o1 = [PP_RequestCancel (im_output o1)]"

definition PacketPassInactivityMonitor_output_handler_done ::
    "('p, 'c) PacketPassInactivityMonitor \<Rightarrow> ('p, 'c, 'u) call list" where
  "PacketPassInactivityMonitor_output_handler_done o1 =
     [Timer_Set (im_timer o1), PP_Done (im_input o1)]"

definition PacketPassInactivityMonitor_timer_handler ::
    "('p, 'c) PacketPassInactivityMonitor \<Rightarrow> ('p, 'c, inactivity) call list" where
  "PacketPassInactivityMonitor_timer_handler o1 =
     Timer_Set (im_timer o1) # (if im_handler o1 then [UserCall Inactive] else [])"

definition PacketPassInactivityMonitor_Init ::
    "'p \<Rightarrow> 'p \<Rightarrow> 'c \<Rightarrow> int \<Rightarrow> bool \<Rightarrow> bool \<Rightarrow>
     ('p, 'c) PacketPassInactivityMonitor \<times> ('p, 'c, 'u) call list" where
  "PacketPassInactivityMonitor_Init inp out t mtu_out can_cancel handler =
     (\<lparr>im_output = out, im_handler = handler, im_input = inp, im_timer = t\<rparr>,
      [PP_Init inp mtu_out] @ (if can_cancel then [PP_EnableCancel inp] else []) @
      [PP_Sender_Init out, Timer_Set t])"

definition PacketPassInactivityMonitor_Free ::
    "('p, 'c) PacketPassInactivityMonitor \<Rightarrow> ('p, 'c, 'u) call list" where
  "PacketPassInactivityMonitor_Free o1 = [Timer_Remove (im_timer o1), PP_Free (im_input o1)]"

definition PacketPassInactivityMonitor_GetInput ::
    "('p, 'c) PacketPassInactivityMonitor \<Rightarrow> 'p" where
  "PacketPassInactivityMonitor_GetInput o1 = im_input o1"

definition PacketPassInactivityMonitor_SetHandler ::
    "('p, 'c) PacketPassInactivityMonitor \<Rightarrow> bool \<Rightarrow> ('p, 'c) PacketPassInactivityMonitor" where
  "PacketPassInactivityMonitor_SetHandler o1 h = o1\<lparr>im_handler := h\<rparr>"

definition PacketPassInactivityMonitor_Force ::
    "('p, 'c) PacketPassInactivityMonitor \<Rightarrow> ('p, 'c, 'u) call list" where
  "PacketPassInactivityMonitor_Force o1 = [Timer_SetAfter (im_timer o1) 0]"

datatype monitor_api = SetHandler bool | Force

definition im_component ::
    "((port, unit) PacketPassInactivityMonitor, port, unit, inactivity, monitor_api) component" where
  "im_component = \<lparr>
     provides = (\<lambda>p. p = In),
     on_operation = (\<lambda>p d l s. (s, PacketPassInactivityMonitor_input_handler_send s d l)),
     on_requestcancel = (\<lambda>p s. (s, PacketPassInactivityMonitor_input_handler_requestcancel s)),
     on_done = (\<lambda>p l s. (s, PacketPassInactivityMonitor_output_handler_done s)),
     on_job = (\<lambda>c s. no_calls s),
     on_timer = (\<lambda>c s. (s, PacketPassInactivityMonitor_timer_handler s)),
     on_api = (\<lambda>e s. case e of
         SetHandler h \<Rightarrow> no_calls (PacketPassInactivityMonitor_SetHandler s h)
       | Force \<Rightarrow> (s, PacketPassInactivityMonitor_Force s)),
     api_ok = (\<lambda>e s n. True)\<rparr>"

definition im_inv :: "(port, unit) PacketPassInactivityMonitor \<Rightarrow> (port, unit) net \<Rightarrow> bool" where
  "im_inv s n \<longleftrightarrow> im_input s = In \<and> im_output s = Out \<and> pass_through n \<and>
     (state (ifs n Out) = IF_NONE \<longrightarrow> timer_running n ())"

lemmas im_defs = im_component_def im_inv_def pass_through_def handled_def op_arg_def done_arg_def
  PacketPassInactivityMonitor_input_handler_send_def
  PacketPassInactivityMonitor_input_handler_requestcancel_def
  PacketPassInactivityMonitor_output_handler_done_def
  PacketPassInactivityMonitor_timer_handler_def
  PacketPassInactivityMonitor_SetHandler_def PacketPassInactivityMonitor_Force_def

interpretation im: flow_contract im_component im_inv
proof (unfold_locales, goal_cases)
  case (1 s n p)
  with net_ok_args [of n In] show ?case
    by (cases p) (auto simp: im_defs args_ok_def interface_defs)
next
  case (2 s n p)
  then show ?case by (cases p) (auto simp: im_defs)
next
  case (3 s n p)
  then show ?case by (cases p) (auto simp: im_defs interface_defs Let_def)
next
  case (5 s n p)
  then show ?case by (cases p) (auto simp: im_defs interface_defs)
next
  case (6 s n p)
  then show ?case by (cases p) (auto simp: im_defs)
next
  case (9 s n k)
  then show ?case by (cases k) (auto simp: im_defs interface_defs Let_def)
next
  case (10 s n e)
  then show ?case by (cases e; intro handled_good) (auto simp: im_defs)
qed (auto simp: im_defs)

section \<open>Properties\<close>

definition pc_start :: "int \<Rightarrow> mem \<Rightarrow> (port PacketCopier \<times> mem) \<times> (port, unit) net" where
  "pc_start m st =
     (case PacketCopier_Init In Out m of (s, cs :: (port, unit, unit) call list) \<Rightarrow>
        ((s, st), started (cs @ [PP_Sender_Init In, PR_Receiver_Init Out])))"

lemma pc_start_inv: "case_prod pc_inv (pc_start m st)" "net_ok (snd (pc_start m st))"
  by (simp_all add: pc_start_def started_def PacketCopier_Init_def pc_inv_def)

text \<open>In every reachable state of a \<open>PacketCopier\<close>, when the request of one side arrives
  while the other side is waiting, no assertion fails, the bytes of the sender's packet are
  at the receiver's address, nothing else in memory changes, and both sides are completed,
  the receiver with the packet's length.\<close>

theorem copier_copies_the_packet:
  assumes "reach_from pc_component (pc_start mtu0 st) (Some ((s, m), n))"
    and "JobOperation p \<in> set (jobs (grp n))" and "q \<noteq> p" and "state (ifs n q) = IF_BUSY"
  shows "\<exists>s' m' n'. run_job pc_component (JobOperation p) ((s, m), n) = Some ((s', m'), n') \<and>
    m' = mwrite m (op_data (ifs n Out)) (mread m (op_data (ifs n In)) (nat (op_len (ifs n In)))) \<and>
    mread m' (op_data (ifs n Out)) (nat (op_len (ifs n In))) =
      mread m (op_data (ifs n In)) (nat (op_len (ifs n In))) \<and>
    state (ifs n' In) = IF_DONE_PENDING \<and> state (ifs n' Out) = IF_DONE_PENDING \<and>
    done_len (ifs n' Out) = op_len (ifs n In)"
proof -
  from pc.reached [OF assms(1) pc_start_inv] have inv: "pc_inv (s, m) n" and ok: "net_ok n"
    by auto
  from ok assms(2) have st: "state (ifs n p) = IF_OPERATION_PENDING"
    by (auto simp: net_ok_def iface_ok_def)
  from net_ok_args [OF ok, of In] inv st assms(3,4) show ?thesis
    by (cases p; cases q)
      (auto simp: run_job_def Let_def iface_job_operation_eq pc_defs args_ok_def finish_def
        interface_defs memcpy_def mem_simps)
qed

text \<open>The packet 1, 2, 3 at address 1, then a buffer at address 100.\<close>

theorem copier_copies_the_packet_witness:
  "\<exists>s m n s' m' n'.
     run_moves pc_component [Env (PP_Send In 1 3), RunJob (JobOperation In), Env (PR_Recv Out 100)]
       (pc_start 10 (\<lambda>a. of_nat a)) = Some ((s, m), n) \<and>
     run_job pc_component (JobOperation Out) ((s, m), n) = Some ((s', m'), n') \<and>
     mread m' 100 3 = [1, 2, 3] \<and> done_len (ifs n' Out) = 3"
proof -
  let ?vs = "[Env (PP_Send In 1 3), RunJob (JobOperation In), Env (PR_Recv Out 100)]"
  let ?r = "run_moves pc_component ?vs (pc_start 10 (\<lambda>a. of_nat a))"
  have "case ?r of None \<Rightarrow> False | Some ((s, m), n) \<Rightarrow>
      JobOperation Out \<in> set (jobs (grp n)) \<and> state (ifs n In) = IF_BUSY \<and>
      op_data (ifs n Out) = 100 \<and> op_data (ifs n In) = 1 \<and> op_len (ifs n In) = 3 \<and>
      mread m 1 3 = [1, 2, 3]"
    by code_simp
  then obtain s m n where run: "?r = Some ((s, m), n)"
    and *: "JobOperation Out \<in> set (jobs (grp n))" "state (ifs n In) = IF_BUSY"
      "op_data (ifs n Out) = 100" "op_data (ifs n In) = 1" "op_len (ifs n In) = 3"
      "mread m 1 3 = [1, 2, 3]"
    by (auto split: option.splits)
  show ?thesis
    using copier_copies_the_packet [OF run_moves_reach [OF run] *(1) _ *(2)] run * by auto
qed

definition prb_start :: "int \<Rightarrow> port PacketRecvBlocker \<times> (port, unit) net" where
  "prb_start m =
     (case PacketRecvBlocker_Init In Out m of (s, cs :: (port, unit, unit) call list) \<Rightarrow>
        (s, started ([PR_Init In m] @ cs @ [PR_Receiver_Init Out])))"

lemma prb_start_inv: "case_prod prb_inv (prb_start m)" "net_ok (snd (prb_start m))"
  by (simp_all add: prb_start_def started_def PacketRecvBlocker_Init_def prb_inv_def)

text \<open>A \<open>PacketRecvBlocker\<close> asks its input for a packet only inside
  \<open>PacketRecvBlocker_AllowBlockedPacket\<close>: no job, timer or move of the environment starts a
  receive.  The call itself starts one exactly when the output waits for a packet and none was
  let through for it yet, into the buffer the output waits with.\<close>

theorem blocker_lets_packets_through_on_demand:
  assumes "reach_from prb_component (prb_start m) (Some (s, n))" and "state (ifs n In) = IF_NONE"
    and "\<And>e. v \<noteq> Api e" and "enabled prb_component v (s, n)"
  shows "(\<exists>s' n'. move prb_component v (s, n) = Some (s', n') \<and> state (ifs n' In) = IF_NONE) \<and>
    snd (PacketRecvBlocker_AllowBlockedPacket s) =
      (if state (ifs n Out) = IF_BUSY
       then [PR_Recv In (op_data (ifs n Out)) :: (port, unit, unit) call] else [])"
proof -
  from prb.reached [OF assms(1) prb_start_inv] have inv: "prb_inv s n" and ok: "net_ok n" by auto
  from inv assms(2) have "snd (PacketRecvBlocker_AllowBlockedPacket s) =
      (if state (ifs n Out) = IF_BUSY
       then [PR_Recv In (op_data (ifs n Out)) :: (port, unit, unit) call] else [])"
    by (auto simp: prb_inv_def PacketRecvBlocker_AllowBlockedPacket_def)
  moreover have "\<exists>s' n'. move prb_component v (s, n) = Some (s', n') \<and> state (ifs n' In) = IF_NONE"
  proof (cases v)
    case (RunJob j)
    show ?thesis
    proof (cases j)
      case (JobOperation p)
      with RunJob assms(2,4) inv ok show ?thesis
        by (cases p) (auto simp: run_job_simps prb_defs finish_def dest: pending_state)
    next
      case (JobRequestCancel p)
      with RunJob assms(2,4) inv ok show ?thesis by (auto simp: run_job_simps prb_defs finish_def)
    next
      case (JobDone p)
      with RunJob assms(2,4) inv ok show ?thesis
        by (cases p) (auto simp: run_job_simps prb_defs finish_def dest: pending_state)
    next
      case (OwnJob c)
      with RunJob assms(2) show ?thesis by (simp add: run_job_simps prb_component_def finish_def)
    qed
  next
    case (Expire t)
    with assms(2) show ?thesis by (simp add: run_timer_def prb_component_def finish_def)
  next
    case (Env c)
    with assms(2,4) inv show ?thesis
      by (cases c) (auto simp: prb_defs interface_defs Let_def)
  qed (use assms(3) in auto)
  ultimately show ?thesis by simp
qed

theorem blocker_lets_packets_through_on_demand_witness:
  "\<exists>s n. run_moves prb_component [Env (PR_Recv Out 100)] (prb_start 10) = Some (s, n) \<and>
     (\<exists>s' n'. move prb_component (RunJob (JobOperation Out)) (s, n) = Some (s', n') \<and>
        state (ifs n' In) = IF_NONE)"
proof -
  let ?r = "run_moves prb_component [Env (PR_Recv Out 100)] (prb_start 10)"
  have "case ?r of None \<Rightarrow> False | Some (s, n) \<Rightarrow>
      JobOperation Out \<in> set (jobs (grp n)) \<and> state (ifs n In) = IF_NONE"
    by code_simp
  then obtain s n where run: "?r = Some (s, n)" and *: "JobOperation Out \<in> set (jobs (grp n))"
      "state (ifs n In) = IF_NONE"
    by (auto split: option.splits)
  show ?thesis
    using blocker_lets_packets_through_on_demand [OF run_moves_reach [OF run] *(2),
        of "RunJob (JobOperation Out)"] run *(1) by auto
qed

definition spb_start :: "int \<Rightarrow> int \<Rightarrow> ptr \<Rightarrow> port SinglePacketBuffer \<times> (port, unit) net" where
  "spb_start m m' b =
     (case SinglePacketBuffer_Init In Out m (Some b) of
        (s, cs :: (port, unit, unit) call list) \<Rightarrow>
          (the s, started ([PR_Init In m, PP_Init Out m'] @ cs)))"

lemma spb_start_inv:
  "m \<le> m' \<Longrightarrow> b \<noteq> 0 \<Longrightarrow> case_prod spb_inv (spb_start m m' b)"
  "b \<noteq> 0 \<Longrightarrow> net_ok (snd (spb_start m m' b))"
  by (simp add: spb_start_def started_def SinglePacketBuffer_Init_def spb_inv_def
        PacketRecvInterface_Receiver_Recv_def [of In b])
    (simp add: spb_start_def started_def SinglePacketBuffer_Init_def)

text \<open>A \<open>SinglePacketBuffer\<close> never stops and never overlaps: in every reachable state
  exactly one of its sides is at work, always on its one buffer; and when the input delivers
  a packet, the job that does it starts the send of exactly those bytes.\<close>

theorem single_buffer_alternates:
  assumes "reach_from spb_component (spb_start m m' b) r" and "m \<le> m'" and "b \<noteq> 0"
  shows "\<exists>s n. r = Some (s, n) \<and>
    (state (ifs n In) = IF_NONE \<longleftrightarrow> state (ifs n Out) \<noteq> IF_NONE) \<and>
    (state (ifs n Out) \<noteq> IF_NONE \<longrightarrow> op_data (ifs n Out) = b) \<and>
    (JobDone In \<in> set (jobs (grp n)) \<longrightarrow>
       (\<exists>s' n'. run_job spb_component (JobDone In) (s, n) = Some (s', n') \<and>
          state (ifs n' Out) = IF_OPERATION_PENDING \<and> op_data (ifs n' Out) = b \<and>
          op_len (ifs n' Out) = done_len (ifs n In)))"
proof -
  have buf: "\<forall>s n. r = Some (s, n) \<longrightarrow> spb_buf s = b"
    using assms(1)
  proof (induction rule: reach.induct)
    case reach_init
    then show ?case by (simp add: spb_start_def SinglePacketBuffer_Init_def)
  next
    case (reach_job s n j)
    then show ?case
      by (auto simp: run_job_def Let_def spb_component_def finish_def
          split: job.splits if_splits prod.splits)
  qed (auto simp: spb_component_def run_timer_def finish_def)
  from spb.reached [OF assms(1) spb_start_inv(1) [OF assms(2,3)] spb_start_inv(2) [OF assms(3)]]
  obtain s n where r: "r = Some (s, n)" and inv: "spb_inv s n" and ok: "net_ok n" .
  have sends: "\<exists>s' n'. run_job spb_component (JobDone In) (s, n) = Some (s', n') \<and>
      state (ifs n' Out) = IF_OPERATION_PENDING \<and> op_data (ifs n' Out) = b \<and>
      op_len (ifs n' Out) = done_len (ifs n In)" if "JobDone In \<in> set (jobs (grp n))"
  proof -
    from that ok have "state (ifs n In) = IF_DONE_PENDING" by (auto simp: net_ok_def iface_ok_def)
    with net_ok_args [OF ok, of In] inv buf r ok that show ?thesis
      by (auto simp: run_job_simps spb_defs finish_def interface_defs)
  qed
  with inv buf r show ?thesis by (simp add: spb_inv_def)
qed

theorem single_buffer_alternates_witness:
  "\<exists>s n. run_moves spb_component [RunJob (JobOperation In), Env (PR_Done In 7)]
      (spb_start 10 20 64) = Some (s, n) \<and>
     (\<exists>s' n'. run_job spb_component (JobDone In) (s, n) = Some (s', n') \<and>
        op_data (ifs n' Out) = 64 \<and> op_len (ifs n' Out) = 7)"
proof -
  let ?r = "run_moves spb_component [RunJob (JobOperation In), Env (PR_Done In 7)]
      (spb_start 10 20 64)"
  have "case ?r of None \<Rightarrow> False | Some (s, n) \<Rightarrow>
      JobDone In \<in> set (jobs (grp n)) \<and> done_len (ifs n In) = 7"
    by code_simp
  then obtain s n where run: "?r = Some (s, n)" and *: "JobDone In \<in> set (jobs (grp n))"
      "done_len (ifs n In) = 7"
    by (auto split: option.splits)
  show ?thesis
    using single_buffer_alternates [OF run_moves_reach [OF run]] run * by auto
qed

definition im_start ::
    "int \<Rightarrow> bool \<Rightarrow> bool \<Rightarrow> (port, unit) PacketPassInactivityMonitor \<times> (port, unit) net" where
  "im_start m can h =
     (case PacketPassInactivityMonitor_Init In Out () m can h of
        (s, cs :: (port, unit, unit) call list) \<Rightarrow>
          (s, started ([PP_Init Out m] @ (if can then [PP_EnableCancel Out] else []) @ cs @
             [PP_Sender_Init In])))"

lemma im_start_inv: "case_prod im_inv (im_start m can h)" "net_ok (snd (im_start m can h))"
  by (simp_all add: im_start_def started_def PacketPassInactivityMonitor_Init_def im_inv_def
      pass_through_def)

text \<open>While nothing is being sent through a \<open>PacketPassInactivityMonitor\<close> its timer runs, so
  the inactivity handler will be called; when the timer expires it is running again at once
  and the handler (if any) was called; and a packet that starts being sent stops it.\<close>

theorem idle_output_is_monitored:
  assumes "reach_from im_component (im_start m can h) r"
  shows "\<exists>s n. r = Some (s, n) \<and>
    (state (ifs n Out) = IF_NONE \<longrightarrow> timer_running n ()) \<and>
    (timer_running n () \<longrightarrow> (\<exists>n'. run_timer im_component () (s, n) = Some (s, n') \<and>
       timer_running n' () \<and>
       snd (on_timer im_component () s) = Timer_Set () # (if im_handler s then [UserCall Inactive] else []))) \<and>
    (JobOperation In \<in> set (jobs (grp n)) \<longrightarrow>
       (\<exists>n'. run_job im_component (JobOperation In) (s, n) = Some (s, n') \<and>
          \<not> timer_running n' () \<and> state (ifs n' Out) = IF_OPERATION_PENDING))"
proof -
  from im.reached [OF assms im_start_inv] obtain s n
    where r: "r = Some (s, n)" and inv: "im_inv s n" and ok: "net_ok n" .
  have send: "\<exists>n'. run_job im_component (JobOperation In) (s, n) = Some (s, n') \<and>
      \<not> timer_running n' () \<and> state (ifs n' Out) = IF_OPERATION_PENDING"
    if "JobOperation In \<in> set (jobs (grp n))"
  proof -
    from that ok have "state (ifs n In) = IF_OPERATION_PENDING" by (auto simp: net_ok_def iface_ok_def)
    with net_ok_args [OF ok, of In] inv ok that show ?thesis
      by (auto simp: run_job_simps im_defs args_ok_def finish_def interface_defs)
  qed
  have "\<exists>n'. run_timer im_component () (s, n) = Some (s, n') \<and> timer_running n' () \<and>
      snd (on_timer im_component () s) =
        Timer_Set () # (if im_handler s then [UserCall Inactive] else [])"
    by (simp add: run_timer_def im_component_def finish_def
        PacketPassInactivityMonitor_timer_handler_def)
  with inv send r show ?thesis by (auto simp: im_inv_def)
qed

theorem idle_output_is_monitored_witness:
  "\<exists>s n. run_moves im_component [Expire (), Env (PP_Send In 4 2), RunJob (JobOperation In)]
      (im_start 10 True True) = Some (s, n) \<and>
     state (ifs n Out) \<noteq> IF_NONE \<and> (state (ifs n Out) = IF_NONE \<longrightarrow> timer_running n ())"
proof -
  let ?r = "run_moves im_component [Expire (), Env (PP_Send In 4 2), RunJob (JobOperation In)]
      (im_start 10 True True)"
  have "case ?r of None \<Rightarrow> False | Some (s, n) \<Rightarrow> state (ifs n Out) \<noteq> IF_NONE"
    by code_simp
  then obtain s n where run: "?r = Some (s, n)" and *: "state (ifs n Out) \<noteq> IF_NONE"
    by (auto split: option.splits)
  show ?thesis
    using idle_output_is_monitored [OF run_moves_reach [OF run]] run * by auto
qed

end
