(* ===== verification/Stream_Senders.thy ===== *)
theory Stream_Senders
  imports Flow_Contract
begin

text \<open>
  The components of \<open>flow/\<close> that move one block of bytes over a stream in as many pieces as the
  stream takes (\<open>PacketStreamSender\<close>, \<open>SingleStreamSender\<close>, \<open>SingleStreamReceiver\<close>), and
  \<open>StreamPacketSender\<close>, which cuts a stream into packets.  That every byte goes over once and in
  order is proved once, in the locale \<open>chunked_transfer\<close>.  Fields that an \<open>Init\<close> leaves unset
  start at 0 here; they are written before they are read.
\<close>

section \<open>PacketStreamSender\<close>

record 'p PacketStreamSender =
  pss_input :: 'p
  pss_output :: 'p
  pss_in_len :: int
  pss_in_used :: int
  pss_in :: ptr

definition PacketStreamSender_send_data ::
    "'p PacketStreamSender \<Rightarrow> 'p PacketStreamSender \<times> ('p, 'c, 'u) call list" where
  "PacketStreamSender_send_data s =
     (if pss_in_used s < pss_in_len s
      then (s, [Assert (0 \<le> pss_in_len s),
                SP_Send (pss_output s) (pss_in s + nat (pss_in_used s)) (pss_in_len s - pss_in_used s)])
      else (s\<lparr>pss_in_len := -1\<rparr>, [Assert (0 \<le> pss_in_len s), PP_Done (pss_input s)]))"

definition PacketStreamSender_input_handler_send ::
    "'p PacketStreamSender \<Rightarrow> ptr \<Rightarrow> int \<Rightarrow> 'p PacketStreamSender \<times> ('p, 'c, 'u) call list" where
  "PacketStreamSender_input_handler_send s data data_len =
     (case PacketStreamSender_send_data (s\<lparr>pss_in_len := data_len, pss_in := data, pss_in_used := 0\<rparr>)
      of (s', cs) \<Rightarrow> (s', [Assert (pss_in_len s = -1), Assert (0 \<le> data_len)] @ cs))"

definition PacketStreamSender_output_handler_done ::
    "'p PacketStreamSender \<Rightarrow> int \<Rightarrow> 'p PacketStreamSender \<times> ('p, 'c, 'u) call list" where
  "PacketStreamSender_output_handler_done s data_len =
     (case PacketStreamSender_send_data (s\<lparr>pss_in_used := pss_in_used s + data_len\<rparr>)
      of (s', cs) \<Rightarrow> (s', [Assert (0 \<le> pss_in_len s), Assert (0 < data_len),
                          Assert (data_len \<le> pss_in_len s - pss_in_used s)] @ cs))"

definition PacketStreamSender_Init ::
    "'p \<Rightarrow> 'p \<Rightarrow> int \<Rightarrow> 'p PacketStreamSender \<times> ('p, 'c, 'u) call list" where
  "PacketStreamSender_Init inp out m =
     (\<lparr>pss_input = inp, pss_output = out, pss_in_len = -1, pss_in_used = 0, pss_in = 0\<rparr>,
      [Assert (0 \<le> m), PP_Init inp m, SP_Sender_Init out])"

definition PacketStreamSender_Free :: "'p PacketStreamSender \<Rightarrow> ('p, 'c, 'u) call list" where
  "PacketStreamSender_Free s = [PP_Free (pss_input s)]"

definition PacketStreamSender_GetInput :: "'p PacketStreamSender \<Rightarrow> 'p" where
  "PacketStreamSender_GetInput s = pss_input s"

definition pss_component :: "(port PacketStreamSender, port, unit, unit, unit) component" where
  "pss_component = \<lparr>
     provides = (\<lambda>p. p = In),
     on_operation = (\<lambda>p d l s. PacketStreamSender_input_handler_send s d l),
     on_requestcancel = (\<lambda>p s. no_calls s),
     on_done = (\<lambda>p l s. PacketStreamSender_output_handler_done s l),
     on_job = (\<lambda>c s. no_calls s),
     on_timer = (\<lambda>c s. no_calls s),
     on_api = (\<lambda>e s. no_calls s),
     api_ok = (\<lambda>e s n. False)\<rparr>"

definition pss_inv :: "port PacketStreamSender \<Rightarrow> (port, unit) net \<Rightarrow> bool" where
  "pss_inv s n \<longleftrightarrow>
     pss_input s = In \<and> pss_output s = Out \<and>
     if_kind (ifs n In) = PacketPass \<and> if_kind (ifs n Out) = StreamPass \<and>
     has_user (ifs n In) \<and> has_user (ifs n Out) \<and> \<not> has_requestcancel (ifs n In) \<and>
     -1 \<le> pss_in_len s \<and>
     (state (ifs n In) = IF_BUSY \<longleftrightarrow> 0 \<le> pss_in_len s) \<and>
     (state (ifs n Out) = IF_NONE \<longleftrightarrow> pss_in_len s = -1) \<and>
     (0 \<le> pss_in_len s \<longrightarrow>
        pss_in s = op_data (ifs n In) \<and> pss_in_len s = op_len (ifs n In) \<and>
        0 \<le> pss_in_used s \<and> pss_in_used s < pss_in_len s \<and>
        op_data (ifs n Out) = pss_in s + nat (pss_in_used s) \<and>
        op_len (ifs n Out) = pss_in_len s - pss_in_used s)"

lemmas pss_defs = pss_component_def pss_inv_def handled_def op_arg_def done_arg_def args_ok_def
  PacketStreamSender_input_handler_send_def PacketStreamSender_output_handler_done_def
  PacketStreamSender_send_data_def

interpretation pss: flow_contract pss_component pss_inv
proof (unfold_locales, goal_cases)
  case (1 s n p)
  with net_ok_args [of n In] show ?case by (cases p) (auto simp: pss_defs interface_defs)
next
  case (2 s n p)
  then show ?case by (cases p) (auto simp: pss_defs)
next
  case (5 s n p)
  with net_ok_args [of n Out] net_ok_args [of n In] show ?case
    by (cases p) (auto simp: pss_defs interface_defs)
next
  case (6 s n p)
  then show ?case by (cases p) (auto simp: pss_defs)
next
  case (9 s n k)
  then show ?case by (cases k) (auto simp: pss_defs interface_defs Let_def)
qed (auto simp: pss_defs)

section \<open>StreamPacketSender\<close>

record 'p StreamPacketSender =
  sts_input :: 'p
  sts_output :: 'p
  sts_output_mtu :: int
  sts_sending_len :: int

definition StreamPacketSender_input_handler_send ::
    "'p StreamPacketSender \<Rightarrow> ptr \<Rightarrow> int \<Rightarrow> 'p StreamPacketSender \<times> ('p, 'c, 'u) call list" where
  "StreamPacketSender_input_handler_send o1 data data_len =
     (let o2 = (if data_len > sts_output_mtu o1 then o1\<lparr>sts_sending_len := sts_output_mtu o1\<rparr>
                else o1\<lparr>sts_sending_len := data_len\<rparr>)
      in (o2, [Assert (0 < data_len), PP_Send (sts_output o2) data (sts_sending_len o2)]))"

definition StreamPacketSender_output_handler_done ::
    "'p StreamPacketSender \<Rightarrow> ('p, 'c, 'u) call list" where
  "StreamPacketSender_output_handler_done o1 = [SP_Done (sts_input o1) (sts_sending_len o1)]"

definition StreamPacketSender_Init ::
    "'p \<Rightarrow> 'p \<Rightarrow> int \<Rightarrow> 'p StreamPacketSender \<times> ('p, 'c, 'u) call list" where
  "StreamPacketSender_Init inp out mtu_out =
     (\<lparr>sts_input = inp, sts_output = out, sts_output_mtu = mtu_out, sts_sending_len = 0\<rparr>,
      [Assert (0 < mtu_out), SP_Init inp, PP_Sender_Init out])"

definition StreamPacketSender_Free :: "'p StreamPacketSender \<Rightarrow> ('p, 'c, 'u) call list" where
  "StreamPacketSender_Free o1 = [SP_Free (sts_input o1)]"

definition StreamPacketSender_GetInput :: "'p StreamPacketSender \<Rightarrow> 'p" where
  "StreamPacketSender_GetInput o1 = sts_input o1"

definition sts_component :: "(port StreamPacketSender, port, unit, unit, unit) component" where
  "sts_component = \<lparr>
     provides = (\<lambda>p. p = In),
     on_operation = (\<lambda>p d l s. StreamPacketSender_input_handler_send s d l),
     on_requestcancel = (\<lambda>p s. no_calls s),
     on_done = (\<lambda>p l s. (s, StreamPacketSender_output_handler_done s)),
     on_job = (\<lambda>c s. no_calls s),
     on_timer = (\<lambda>c s. no_calls s),
     on_api = (\<lambda>e s. no_calls s),
     api_ok = (\<lambda>e s n. False)\<rparr>"

definition sts_inv :: "port StreamPacketSender \<Rightarrow> (port, unit) net \<Rightarrow> bool" where
  "sts_inv s n \<longleftrightarrow>
     sts_input s = In \<and> sts_output s = Out \<and>
     if_kind (ifs n In) = StreamPass \<and> if_kind (ifs n Out) = PacketPass \<and>
     has_user (ifs n In) \<and> has_user (ifs n Out) \<and>
     sts_output_mtu s = mtu (ifs n Out) \<and> 0 < sts_output_mtu s \<and>
     (state (ifs n In) = IF_BUSY \<longleftrightarrow> state (ifs n Out) \<noteq> IF_NONE) \<and>
     (state (ifs n In) = IF_BUSY \<longrightarrow>
        op_data (ifs n Out) = op_data (ifs n In) \<and> op_len (ifs n Out) = sts_sending_len s \<and>
        sts_sending_len s = min (op_len (ifs n In)) (sts_output_mtu s))"

lemmas sts_defs = sts_component_def sts_inv_def handled_def op_arg_def done_arg_def args_ok_def
  StreamPacketSender_input_handler_send_def StreamPacketSender_output_handler_done_def

interpretation sts: flow_contract sts_component sts_inv
proof (unfold_locales, goal_cases)
  case (1 s n p)
  with net_ok_args [of n In] show ?case
    by (cases p) (auto simp: sts_defs interface_defs Let_def)
next
  case (2 s n p)
  then show ?case by (cases p) (auto simp: sts_defs)
next
  case (5 s n p)
  with net_ok_args [of n In] show ?case
    by (cases p) (auto simp: sts_defs interface_defs)
next
  case (6 s n p)
  then show ?case by (cases p) (auto simp: sts_defs)
next
  case (9 s n k)
  then show ?case by (cases k) (auto simp: sts_defs interface_defs Let_def)
qed (auto simp: sts_defs)

section \<open>SingleStreamSender and SingleStreamReceiver\<close>

record 'p SingleStreamSender =
  sss_packet :: ptr
  sss_packet_len :: int
  sss_output :: 'p
  sss_pos :: int

datatype transfer_event = AllDone

definition SingleStreamSender_output_handler_done ::
    "'p SingleStreamSender \<Rightarrow> int \<Rightarrow> 'p SingleStreamSender \<times> ('p, 'c, transfer_event) call list" where
  "SingleStreamSender_output_handler_done o1 data_len =
     (let o2 = o1\<lparr>sss_pos := sss_pos o1 + data_len\<rparr>
      in (o2, [Assert (0 < data_len), Assert (data_len \<le> sss_packet_len o1 - sss_pos o1)] @
              (if sss_pos o2 = sss_packet_len o2 then [UserCall AllDone]
               else [SP_Send (sss_output o2) (sss_packet o2 + nat (sss_pos o2))
                       (sss_packet_len o2 - sss_pos o2)])))"

definition SingleStreamSender_Init ::
    "ptr \<Rightarrow> int \<Rightarrow> 'p \<Rightarrow> 'p SingleStreamSender \<times> ('p, 'c, transfer_event) call list" where
  "SingleStreamSender_Init packet packet_len out =
     (\<lparr>sss_packet = packet, sss_packet_len = packet_len, sss_output = out, sss_pos = 0\<rparr>,
      [Assert (0 < packet_len), SP_Sender_Init out, SP_Send out (packet + 0) (packet_len - 0)])"

record 'p SingleStreamReceiver =
  ssr_packet :: ptr
  ssr_packet_len :: int
  ssr_input :: 'p
  ssr_pos :: int

definition SingleStreamReceiver_input_handler_done ::
    "'p SingleStreamReceiver \<Rightarrow> int \<Rightarrow> 'p SingleStreamReceiver \<times> ('p, 'c, transfer_event) call list" where
  "SingleStreamReceiver_input_handler_done o1 data_len =
     (let o2 = o1\<lparr>ssr_pos := ssr_pos o1 + data_len\<rparr>
      in (o2, [Assert (0 < data_len), Assert (data_len \<le> ssr_packet_len o1 - ssr_pos o1)] @
              (if ssr_pos o2 = ssr_packet_len o2 then [UserCall AllDone]
               else [SR_Recv (ssr_input o2) (ssr_packet o2 + nat (ssr_pos o2))
                       (ssr_packet_len o2 - ssr_pos o2)])))"

definition SingleStreamReceiver_Init ::
    "ptr \<Rightarrow> int \<Rightarrow> 'p \<Rightarrow> 'p SingleStreamReceiver \<times> ('p, 'c, transfer_event) call list" where
  "SingleStreamReceiver_Init packet packet_len inp =
     (\<lparr>ssr_packet = packet, ssr_packet_len = packet_len, ssr_input = inp, ssr_pos = 0\<rparr>,
      [Assert (0 < packet_len), SR_Receiver_Init inp, SR_Recv inp (packet + 0) (packet_len - 0)])"

section \<open>Every byte once and in order\<close>

text \<open>The area a list of calls asks the stream to work on, and a transfer driven by the sizes
  \<open>ks\<close> of the pieces the stream completes: the areas completed, the final state and the last
  calls.\<close>

fun window :: "('p, 'c, 'u) call list \<Rightarrow> (ptr \<times> int) option" where
  "window (SP_Send p d l # cs) = Some (d, l)"
| "window (SR_Recv p d l # cs) = Some (d, l)"
| "window (c # cs) = window cs"
| "window [] = None"

fun drive ::
    "('s \<Rightarrow> int \<Rightarrow> 's \<times> ('p, 'c, 'u) call list) \<Rightarrow> 's \<times> ('p, 'c, 'u) call list \<Rightarrow> int list \<Rightarrow>
     (ptr \<times> int) list \<times> 's \<times> ('p, 'c, 'u) call list" where
  "drive h (s, cs) [] = ([], s, cs)"
| "drive h (s, cs) (k # ks) =
     (case window cs of
        None \<Rightarrow> ([], s, cs)
      | Some (d, l) \<Rightarrow> (case drive h (h s k) ks of (areas, r) \<Rightarrow> ((d, k) # areas, r)))"

text \<open>A handler \<open>h\<close> of completed pieces: at position \<open>i\<close> of a block of \<open>len\<close> bytes at \<open>base\<close>
  it asks for the rest, and when nothing is left it ends the transfer.\<close>

locale chunked_transfer =
  fixes h :: "'s \<Rightarrow> int \<Rightarrow> 's \<times> ('p, 'c, 'u) call list"
    and at :: "int \<Rightarrow> 's \<Rightarrow> bool"
    and base :: ptr and len :: int
    and ended :: "('p, 'c, 'u) call list \<Rightarrow> bool"
  assumes step_more: "at i s \<Longrightarrow> 0 \<le> i \<Longrightarrow> 0 < k \<Longrightarrow> i + k < len \<Longrightarrow>
      at (i + k) (fst (h s k)) \<and> window (snd (h s k)) = Some (base + nat (i + k), len - (i + k)) \<and>
      \<not> ended (snd (h s k))"
    and step_last: "at i s \<Longrightarrow> 0 \<le> i \<Longrightarrow> 0 < k \<Longrightarrow> i + k = len \<Longrightarrow>
      window (snd (h s k)) = None \<and> ended (snd (h s k))"
begin

lemma drive_tiles:
  assumes "list_all (\<lambda>k. 0 < k) ks" and "i + sum_list ks \<le> len"
    and "at i s" and "0 \<le> i" and "i < len" and "window cs = Some (base + nat i, len - i)"
  shows "\<exists>s' cs'. drive h (s, cs) ks = (tiles (base + nat i) ks, s', cs') \<and>
    (ks \<noteq> [] \<longrightarrow> (ended cs' \<longleftrightarrow> i + sum_list ks = len)) \<and>
    window cs' = (if i + sum_list ks < len
      then Some (base + nat (i + sum_list ks), len - (i + sum_list ks)) else None)"
  using assms
proof (induction ks arbitrary: i s cs)
  case (Cons k ks)
  obtain s1 cs1 where h: "h s k = (s1, cs1)" by fastforce
  from Cons.prems have k: "0 < k" and ks: "list_all (\<lambda>k. 0 < k) ks" by auto
  then have nonneg: "0 \<le> sum_list ks" by (simp add: positive_sum)
  have base: "base + nat (i + k) = base + nat i + nat k"
    using k Cons.prems(4) by (simp add: nat_add_distrib)
  show ?case
  proof (cases "i + k < len")
    case True
    from step_more [OF Cons.prems(3,4) k True] h
    have *: "at (i + k) s1" "window cs1 = Some (base + nat (i + k), len - (i + k))" "\<not> ended cs1"
      by simp_all
    from Cons.IH [OF ks _ *(1) _ True *(2)] Cons.prems(2,4) k
    obtain s' cs' where r: "drive h (s1, cs1) ks = (tiles (base + nat (i + k)) ks, s', cs')"
      and e: "ks \<noteq> [] \<longrightarrow> (ended cs' \<longleftrightarrow> i + k + sum_list ks = len)"
      and w: "window cs' = (if i + k + sum_list ks < len
        then Some (base + nat (i + k + sum_list ks), len - (i + k + sum_list ks)) else None)"
      by (auto simp: add.assoc)
    show ?thesis
      using r e w h * Cons.prems(6) base True
      by (cases ks) (auto simp: add.assoc)
  next
    case False
    with Cons.prems(2) nonneg have end_pos: "i + k = len" and "sum_list ks \<le> 0" by auto
    with ks have "ks = []" by (simp add: positive_sum_zero)
    with step_last [OF Cons.prems(3,4) k end_pos] h Cons.prems(6) end_pos show ?thesis by simp
  qed
qed simp

lemma drive_start:
  assumes "drive h x ks = (areas, s', cs')" and "list_all (\<lambda>k. 0 < k) ks"
    and "sum_list ks \<le> len" and "0 < len" and "at 0 (fst x)" and "window (snd x) = Some (base, len)"
  shows "areas = tiles base ks \<and> (ks \<noteq> [] \<longrightarrow> (ended cs' \<longleftrightarrow> sum_list ks = len)) \<and>
    window cs' = (if sum_list ks < len
      then Some (base + nat (sum_list ks), len - sum_list ks) else None)"
  using drive_tiles [OF assms(2) _ assms(5) _ assms(4), of "snd x"] assms(1,3,6) by simp

end

interpretation pss_bytes: chunked_transfer PacketStreamSender_output_handler_done
  "\<lambda>i s. pss_in s = base \<and> pss_in_len s = len \<and> pss_in_used s = i \<and> pss_input s = inp"
  base len "\<lambda>cs. PP_Done inp \<in> set cs" for base len inp
  by unfold_locales
    (auto simp: PacketStreamSender_output_handler_done_def PacketStreamSender_send_data_def)

interpretation sss_bytes: chunked_transfer SingleStreamSender_output_handler_done
  "\<lambda>i s. sss_packet s = base \<and> sss_packet_len s = len \<and> sss_pos s = i"
  base len "\<lambda>cs. UserCall AllDone \<in> set cs" for base len
  by unfold_locales (auto simp: SingleStreamSender_output_handler_done_def Let_def)

interpretation ssr_bytes: chunked_transfer SingleStreamReceiver_input_handler_done
  "\<lambda>i s. ssr_packet s = base \<and> ssr_packet_len s = len \<and> ssr_pos s = i"
  base len "\<lambda>cs. UserCall AllDone \<in> set cs" for base len
  by unfold_locales (auto simp: SingleStreamReceiver_input_handler_done_def Let_def)

section \<open>Properties\<close>

text \<open>A \<open>PacketStreamSender\<close> given a packet and a stream that takes it in pieces of the
  sizes \<open>ks\<close> hands the stream, piece by piece, exactly the bytes of the packet in order, and
  completes the packet with the last byte and not before; until then it asks the stream for
  exactly the rest.\<close>

theorem packet_goes_out_whole:
  assumes "0 < l" and "list_all (\<lambda>k. 0 < k) ks" and "sum_list ks \<le> l"
    and "drive PacketStreamSender_output_handler_done
           (PacketStreamSender_input_handler_send s d l) ks = (areas, s', cs')"
  shows "concat (map (\<lambda>(a, k). mread m a (nat k)) areas) = mread m d (nat (sum_list ks)) \<and>
    (ks \<noteq> [] \<longrightarrow> (PP_Done (pss_input s) \<in> set cs' \<longleftrightarrow> sum_list ks = l)) \<and>
    window cs' = (if sum_list ks < l
      then Some (d + nat (sum_list ks), l - sum_list ks) else None)"
proof -
  have "areas = tiles d ks \<and> (ks \<noteq> [] \<longrightarrow> (PP_Done (pss_input s) \<in> set cs' \<longleftrightarrow> sum_list ks = l)) \<and>
    window cs' = (if sum_list ks < l then Some (d + nat (sum_list ks), l - sum_list ks) else None)"
    by (rule pss_bytes.drive_start [OF assms(4,2,3,1)])
      (use assms(1) in \<open>simp_all add: PacketStreamSender_input_handler_send_def
        PacketStreamSender_send_data_def\<close>)
  then show ?thesis by (simp add: read_tiles [OF assms(2)])
qed

theorem packet_goes_out_whole_witness:
  "\<exists>areas s' (cs' :: (port, unit, unit) call list).
     drive PacketStreamSender_output_handler_done
       (PacketStreamSender_input_handler_send
          (fst (PacketStreamSender_Init In Out 10 :: _ \<times> (port, unit, unit) call list)) 4 5) [2, 3]
     = (areas, s', cs') \<and>
     concat (map (\<lambda>(a, k). mread (\<lambda>a. of_nat a) a (nat k)) areas) = [4, 5, 6, 7, 8] \<and>
     PP_Done In \<in> set cs'"
proof -
  let ?s = "fst (PacketStreamSender_Init In Out 10 :: _ \<times> (port, unit, unit) call list)"
  let ?r = "drive PacketStreamSender_output_handler_done
      (PacketStreamSender_input_handler_send ?s 4 5) [2, 3] :: _ \<times> _ \<times> (port, unit, unit) call list"
  obtain areas s' cs' where eq: "?r = (areas, s', cs')" by (metis prod_cases3)
  have "mread (\<lambda>a. of_nat a) 4 5 = [4, 5, 6, 7, 8]" by (simp add: mread_def upt_rec)
  with packet_goes_out_whole [OF _ _ _ eq, of "\<lambda>a. of_nat a"] eq show ?thesis
    by (simp add: PacketStreamSender_Init_def)
qed

text \<open>A \<open>SingleStreamSender\<close> passes the bytes of its packet once and in order and calls the
  user's handler with the last one; a \<open>SingleStreamReceiver\<close> whose stream delivers the pieces
  \<open>bss\<close> has exactly their concatenation in its buffer, and calls the handler exactly when the
  buffer is full.\<close>

theorem single_transfers_complete:
  assumes "0 < l" and "list_all (\<lambda>k. 0 < k) (map (\<lambda>bs. int (length bs)) bss)"
    and "sum_list (map (\<lambda>bs. int (length bs)) bss) \<le> l"
    and "drive SingleStreamSender_output_handler_done (SingleStreamSender_Init d l out)
           (map (\<lambda>bs. int (length bs)) bss) = (areas, s', cs')"
    and "drive SingleStreamReceiver_input_handler_done (SingleStreamReceiver_Init d l inp)
           (map (\<lambda>bs. int (length bs)) bss) = (areas2, r', ds')"
  shows "concat (map (\<lambda>(a, k). mread m a (nat k)) areas) =
       mread m d (nat (sum_list (map (\<lambda>bs. int (length bs)) bss))) \<and>
     fold (\<lambda>((a, k), bs) m. mwrite m a bs) (zip areas2 bss) m = mwrite m d (concat bss) \<and>
     (bss \<noteq> [] \<longrightarrow>
        (UserCall AllDone \<in> set cs' \<longleftrightarrow> sum_list (map (\<lambda>bs. int (length bs)) bss) = l) \<and>
        (UserCall AllDone \<in> set ds' \<longleftrightarrow> sum_list (map (\<lambda>bs. int (length bs)) bss) = l))"
proof -
  let ?ks = "map (\<lambda>bs. int (length bs)) bss"
  have 1: "areas = tiles d ?ks \<and> (?ks \<noteq> [] \<longrightarrow> (UserCall AllDone \<in> set cs' \<longleftrightarrow> sum_list ?ks = l)) \<and>
    window cs' = (if sum_list ?ks < l then Some (d + nat (sum_list ?ks), l - sum_list ?ks) else None)"
    by (rule sss_bytes.drive_start [OF assms(4,2,3,1)]) (simp_all add: SingleStreamSender_Init_def)
  have 2: "areas2 = tiles d ?ks \<and> (?ks \<noteq> [] \<longrightarrow> (UserCall AllDone \<in> set ds' \<longleftrightarrow> sum_list ?ks = l)) \<and>
    window ds' = (if sum_list ?ks < l then Some (d + nat (sum_list ?ks), l - sum_list ?ks) else None)"
    by (rule ssr_bytes.drive_start [OF assms(5,2,3,1)]) (simp_all add: SingleStreamReceiver_Init_def)
  from 1 2 show ?thesis by (simp add: read_tiles [OF assms(2)] write_tiles)
qed

theorem single_transfers_complete_witness:
  "\<exists>areas s' cs' areas2 r' ds'.
     drive SingleStreamSender_output_handler_done (SingleStreamSender_Init 4 3 Out)
       [1, 2] = (areas, s', cs' :: (port, unit, transfer_event) call list) \<and>
     drive SingleStreamReceiver_input_handler_done (SingleStreamReceiver_Init 4 3 In)
       [1, 2] = (areas2, r', ds' :: (port, unit, transfer_event) call list) \<and>
     fold (\<lambda>((a, k), bs) m. mwrite m a bs) (zip areas2 [[9], [8, 7]]) (\<lambda>_. 0) =
       mwrite (\<lambda>_. 0) 4 [9, 8, 7] \<and>
     UserCall AllDone \<in> set cs' \<and> UserCall AllDone \<in> set ds'"
proof -
  let ?r = "drive SingleStreamSender_output_handler_done (SingleStreamSender_Init 4 3 Out)
      (map (\<lambda>bs. int (length bs)) [[9], [8, 7 :: byte]]) ::
      _ \<times> _ \<times> (port, unit, transfer_event) call list"
  let ?q = "drive SingleStreamReceiver_input_handler_done (SingleStreamReceiver_Init 4 3 In)
      (map (\<lambda>bs. int (length bs)) [[9], [8, 7 :: byte]]) ::
      _ \<times> _ \<times> (port, unit, transfer_event) call list"
  obtain areas s' cs' where 1: "?r = (areas, s', cs')" by (metis prod_cases3)
  obtain areas2 r' ds' where 2: "?q = (areas2, r', ds')" by (metis prod_cases3)
  from single_transfers_complete [OF _ _ _ 1 2, of "\<lambda>_. 0"]
  have "fold (\<lambda>((a, k), bs) m. mwrite m a bs) (zip areas2 [[9], [8, 7]]) (\<lambda>_. 0) =
       mwrite (\<lambda>_. 0) 4 [9, 8, 7]" "UserCall AllDone \<in> set cs'" "UserCall AllDone \<in> set ds'"
    by simp_all
  with 1 2 show ?thesis by simp
qed

definition sts_start :: "int \<Rightarrow> port StreamPacketSender \<times> (port, unit) net" where
  "sts_start m =
     (case StreamPacketSender_Init In Out m of (s, cs :: (port, unit, unit) call list) \<Rightarrow>
        (s, started ([PP_Init Out m] @ cs @ [SP_Sender_Init In])))"

lemma sts_start_inv:
  "0 < m \<Longrightarrow> case_prod sts_inv (sts_start m)" "net_ok (snd (sts_start m))"
  by (simp_all add: sts_start_def started_def StreamPacketSender_Init_def sts_inv_def)

text \<open>A \<open>StreamPacketSender\<close> never violates an assertion, keeps its output within the MTU,
  and completes exactly the bytes it has put into the packet: the prefix of the data that
  fits, so that nothing of the stream is lost or sent twice.\<close>

theorem stream_is_cut_at_the_mtu:
  assumes "reach_from sts_component (sts_start m) r" and "0 < m"
  shows "\<exists>s n. r = Some (s, n) \<and>
    (state (ifs n In) = IF_BUSY \<longrightarrow> op_data (ifs n Out) = op_data (ifs n In) \<and>
       op_len (ifs n Out) = min (op_len (ifs n In)) (sts_output_mtu s)) \<and>
    (JobDone Out \<in> set (jobs (grp n)) \<longrightarrow>
       (\<exists>s' n'. run_job sts_component (JobDone Out) (s, n) = Some (s', n') \<and>
          state (ifs n' In) = IF_DONE_PENDING \<and> done_len (ifs n' In) = op_len (ifs n Out)))"
proof -
  from sts.reached [OF assms(1) sts_start_inv(1) [OF assms(2)] sts_start_inv(2)] obtain s n
    where r: "r = Some (s, n)" and inv: "sts_inv s n" and ok: "net_ok n" .
  have "\<exists>s' n'. run_job sts_component (JobDone Out) (s, n) = Some (s', n') \<and>
      state (ifs n' In) = IF_DONE_PENDING \<and> done_len (ifs n' In) = op_len (ifs n Out)"
    if "JobDone Out \<in> set (jobs (grp n))"
  proof -
    from pending_state(2) [OF ok that] net_ok_args [OF ok, of In] inv ok that show ?thesis
      by (auto simp: run_job_simps sts_defs finish_def interface_defs)
  qed
  with inv r show ?thesis by (auto simp: sts_inv_def)
qed

theorem stream_is_cut_at_the_mtu_witness:
  "\<exists>s n. run_moves sts_component [Env (SP_Send In 4 25), RunJob (JobOperation In)]
      (sts_start 10) = Some (s, n) \<and> op_len (ifs n Out) = 10"
proof -
  let ?r = "run_moves sts_component [Env (SP_Send In 4 25), RunJob (JobOperation In)] (sts_start 10)"
  have "case ?r of None \<Rightarrow> False | Some (s, n) \<Rightarrow>
      state (ifs n In) = IF_BUSY \<and> op_len (ifs n In) = 25 \<and> sts_output_mtu s = 10"
    by code_simp
  then obtain s n where run: "?r = Some (s, n)" and *: "state (ifs n In) = IF_BUSY"
      "op_len (ifs n In) = 25" "sts_output_mtu s = 10"
    by (auto split: option.splits)
  show ?thesis using stream_is_cut_at_the_mtu [OF run_moves_reach [OF run]] run * by auto
qed

end
