(* ===== verification/Chunk_Buffer.thy ===== *)
theory Chunk_Buffer
  imports Flow_Prelude
begin

text \<open>
  \<open>structure/ChunkBuffer2.h\<close>: a circular buffer of packets in an array of 4-byte blocks, each
  packet one block with its length followed by its bytes.  The array lives in the byte store;
  the cursor fields are the C struct.  \<open>cb_inv\<close> says which queue of packets the struct and the
  store represent; the operations refine the queue operations (append, drop the first), and a
  buffer sized by \<open>ChunkBuffer2_calc_blocks\<close> has room for a packet of the MTU whenever fewer
  than the requested number of packets are stored.
\<close>

section \<open>The buffer\<close>

record ChunkBuffer2 =
  cb_buffer :: ptr
  cb_size :: int
  cb_wrap :: int
  cb_start :: int
  cb_used :: int
  cb_mtu :: int
  cb_input_dest :: ptr
  cb_input_avail :: int
  cb_output_dest :: ptr
  cb_output_avail :: int

text \<open>Conversion to a C \<open>int\<close>, and the address of a block.\<close>

definition c_int :: "int \<Rightarrow> int" where
  "c_int v = signed_take_bit 31 v"

definition block_adr :: "ptr \<Rightarrow> int \<Rightarrow> ptr" where
  "block_adr b i = b + 4 * nat i"

definition ChunkBuffer2_end :: "ChunkBuffer2 \<Rightarrow> int" where
  "ChunkBuffer2_end buf =
     (if cb_used buf \<ge> cb_wrap buf - cb_start buf
      then cb_used buf - (cb_wrap buf - cb_start buf)
      else cb_start buf + cb_used buf)"

definition ChunkBuffer2_update_input :: "ChunkBuffer2 \<Rightarrow> ChunkBuffer2" where
  "ChunkBuffer2_update_input buf =
     (let endp = ChunkBuffer2_end buf in
      if cb_size buf - endp - 1 < cb_mtu buf
      then buf\<lparr>cb_input_dest := 0, cb_input_avail := -1\<rparr>
      else
        let free = (if cb_used buf \<ge> cb_wrap buf - cb_start buf then cb_start buf - endp
                    else cb_size buf - endp)
        in if free > 0
           then buf\<lparr>cb_input_dest := block_adr (cb_buffer buf) (endp + 1),
                    cb_input_avail := c_int ((free - 1) * 4)\<rparr>
           else buf\<lparr>cb_input_dest := 0, cb_input_avail := -1\<rparr>)"

definition ChunkBuffer2_update_output :: "ChunkBuffer2 \<Rightarrow> mem \<Rightarrow> ChunkBuffer2" where
  "ChunkBuffer2_update_output buf m =
     (if cb_used buf > 0
      then buf\<lparr>cb_output_dest := block_adr (cb_buffer buf) (cb_start buf + 1),
               cb_output_avail := load_int m (block_adr (cb_buffer buf) (cb_start buf))\<rparr>
      else buf\<lparr>cb_output_dest := 0, cb_output_avail := -1\<rparr>)"

definition ChunkBuffer2_calc_blocks :: "int \<Rightarrow> int \<Rightarrow> int" where
  "ChunkBuffer2_calc_blocks chunk_len num =
     (let chunk_data_blocks = c_int (bdivide_up chunk_len 4) in
      if chunk_data_blocks > INT_MAX - 1 then -1
      else
        let chunk_blocks = 1 + chunk_data_blocks in
        if num > INT_MAX - 1 then -1
        else
          let num_chunks = num + 1 in
          if chunk_blocks > INT_MAX div num_chunks then -1
          else chunk_blocks * num_chunks)"

definition ChunkBuffer2_Init :: "ptr \<Rightarrow> int \<Rightarrow> int \<Rightarrow> mem \<Rightarrow> ChunkBuffer2" where
  "ChunkBuffer2_Init buffer blocks m st =
     ChunkBuffer2_update_output (ChunkBuffer2_update_input
       \<lparr>cb_buffer = buffer, cb_size = blocks, cb_wrap = blocks, cb_start = 0, cb_used = 0,
        cb_mtu = c_int (bdivide_up m 4), cb_input_dest = 0, cb_input_avail = 0,
        cb_output_dest = 0, cb_output_avail = 0\<rparr>) st"

definition ChunkBuffer2_SubmitPacket :: "ChunkBuffer2 \<Rightarrow> mem \<Rightarrow> int \<Rightarrow> ChunkBuffer2 \<times> mem" where
  "ChunkBuffer2_SubmitPacket buf m len =
     (let endp = ChunkBuffer2_end buf;
          blocklen = bdivide_up len 4;
          m1 = store_int m (block_adr (cb_buffer buf) endp) len;
          buf1 = buf\<lparr>cb_used := cb_used buf + (1 + blocklen)\<rparr>;
          buf2 = (if cb_used buf1 \<le> cb_wrap buf1 - cb_start buf1 \<and>
                     cb_mtu buf1 > cb_size buf1 - (endp + 1 + blocklen) - 1
                  then buf1\<lparr>cb_wrap := endp + 1 + blocklen\<rparr> else buf1);
          buf3 = ChunkBuffer2_update_input buf2
      in (if cb_used buf3 = 1 + blocklen then ChunkBuffer2_update_output buf3 m1 else buf3, m1))"

definition ChunkBuffer2_ConsumePacket :: "ChunkBuffer2 \<Rightarrow> mem \<Rightarrow> ChunkBuffer2" where
  "ChunkBuffer2_ConsumePacket buf m =
     (let blocklen = bdivide_up (load_int m (block_adr (cb_buffer buf) (cb_start buf))) 4;
          data_wrapped = (cb_used buf \<ge> cb_wrap buf - cb_start buf);
          buf1 = buf\<lparr>cb_start := cb_start buf + (1 + blocklen),
                     cb_used := cb_used buf - (1 + blocklen)\<rparr>;
          buf2 = (if cb_start buf1 = cb_wrap buf1
                  then buf1\<lparr>cb_start := 0, cb_wrap := cb_size buf1\<rparr> else buf1);
          buf3 = (if data_wrapped then ChunkBuffer2_update_input buf2 else buf2)
      in ChunkBuffer2_update_output buf3 m)"

section \<open>The queue it represents\<close>

definition blk :: "bytes \<Rightarrow> int" where
  "blk p = bdivide_up (int (length p)) 4"

fun span :: "bytes list \<Rightarrow> int" where
  "span [] = 0"
| "span (p # ps) = 1 + blk p + span ps"

text \<open>The packets \<open>ps\<close> lie one after the other from block \<open>s\<close> on.\<close>

fun stored :: "mem \<Rightarrow> ptr \<Rightarrow> int \<Rightarrow> bytes list \<Rightarrow> bool" where
  "stored m b s [] = True"
| "stored m b s (p # ps) \<longleftrightarrow>
     load_int m (block_adr b s) = int (length p) \<and>
     mread m (block_adr b (s + 1)) (length p) = p \<and> stored m b (s + 1 + blk p) ps"

lemma blk_nonneg: "0 \<le> blk p"
  by (simp add: blk_def bdivide_up_4_nonneg)

lemma blk_bytes: "int (length p) \<le> 4 * blk p" "4 * blk p < int (length p) + 4"
  using bdivide_up_4_bounds [of "int (length p)"] by (simp_all add: blk_def)

lemma span_nonneg: "0 \<le> span ps"
  by (induction ps) (auto simp: blk_nonneg)

lemma span_append [simp]: "span (ps @ qs) = span ps + span qs"
  by (induction ps) auto

lemma span_pos: "ps \<noteq> [] \<Longrightarrow> 1 \<le> span ps"
proof (cases ps)
  case (Cons p qs)
  then show ?thesis using blk_nonneg [of p] span_nonneg [of qs] by simp
qed simp

lemma span_zero [simp]: "span ps = 0 \<longleftrightarrow> ps = []"
  using span_pos [of ps] by (cases "ps = []") auto

lemma span_last: "ps \<noteq> [] \<Longrightarrow> 1 + blk (last ps) \<le> span ps"
proof (induction ps)
  case (Cons p ps)
  then show ?case using blk_nonneg [of p] span_nonneg [of ps] by (cases "ps = []") auto
qed simp

lemma stored_append [simp]:
  "stored m b s (ps @ qs) \<longleftrightarrow> stored m b s ps \<and> stored m b (s + span ps) qs"
  by (induction ps arbitrary: s) (auto simp: add.assoc add.commute add.left_commute)

lemma load_int_cong: "(\<And>a. p \<le> a \<Longrightarrow> a < p + 4 \<Longrightarrow> m a = m' a) \<Longrightarrow> load_int m p = load_int m' p"
  using mread_cong [of p 4 m m'] by (simp add: load_int_def)

lemma stored_cong:
  assumes "0 \<le> s"
    and "\<And>a. block_adr b s \<le> a \<Longrightarrow> a < block_adr b (s + span ps) \<Longrightarrow> m a = m' a"
  shows "stored m b s ps \<longleftrightarrow> stored m' b s ps"
  using assms
proof (induction ps arbitrary: s)
  case (Cons p ps)
  have adr: "block_adr b (s + span (p # ps)) = block_adr b s + 4 + nat (4 * blk p) + nat (4 * span ps)"
    using Cons.prems(1) blk_nonneg [of p] span_nonneg [of ps]
    by (simp add: block_adr_def nat_add_distrib nat_mult_distrib)
  have "load_int m (block_adr b s) = load_int m' (block_adr b s)"
    by (rule load_int_cong) (use Cons.prems(2) adr in auto)
  moreover have "mread m (block_adr b (s + 1)) (length p) = mread m' (block_adr b (s + 1)) (length p)"
  proof (rule mread_cong)
    fix a
    assume "block_adr b (s + 1) \<le> a" "a < block_adr b (s + 1) + length p"
    moreover have "block_adr b (s + 1) = block_adr b s + 4"
      using Cons.prems(1) by (simp add: block_adr_def nat_add_distrib)
    ultimately show "m a = m' a" using Cons.prems(2) adr blk_bytes(1) [of p] by auto
  qed
  moreover have "stored m b (s + 1 + blk p) ps \<longleftrightarrow> stored m' b (s + 1 + blk p) ps"
  proof (rule Cons.IH)
    fix a
    assume "block_adr b (s + 1 + blk p) \<le> a" "a < block_adr b (s + 1 + blk p + span ps)"
    moreover have "block_adr b s \<le> block_adr b (s + 1 + blk p)"
      using Cons.prems(1) blk_nonneg [of p] by (simp add: block_adr_def nat_mono)
    moreover have "s + 1 + blk p + span ps = s + span (p # ps)" by simp
    ultimately show "m a = m' a" using Cons.prems(2) by (metis le_trans)
  qed (use Cons.prems(1) blk_nonneg [of p] in simp)
  ultimately show ?case by simp
qed simp

text \<open>\<open>A\<close> are the packets from the start to the wrap, \<open>B\<close> those after it, at block 0.  When
  nothing is wrapped there is room for a packet of the MTU after the end; when data is wrapped,
  there was such room where the last packet before the wrap begins.  These two make the branch
  \<open>it will never be possible to write a MTU long packet here\<close> unreachable.\<close>

definition wrapped :: "ChunkBuffer2 \<Rightarrow> bool" where
  "wrapped buf \<longleftrightarrow> cb_used buf \<ge> cb_wrap buf - cb_start buf"

definition cb_shape :: "ChunkBuffer2 \<Rightarrow> bytes list \<Rightarrow> bytes list \<Rightarrow> bool" where
  "cb_shape buf A B \<longleftrightarrow>
     0 \<le> cb_mtu buf \<and> 1 + cb_mtu buf \<le> cb_size buf \<and> cb_size buf \<le> 2 ^ 29 \<and>
     0 \<le> cb_start buf \<and> cb_used buf = span A + span B \<and>
     (if wrapped buf
      then A \<noteq> [] \<and> cb_start buf + span A = cb_wrap buf \<and> cb_wrap buf \<le> cb_size buf \<and>
        cb_wrap buf - (1 + blk (last A)) + cb_mtu buf + 1 \<le> cb_size buf \<and>
        cb_size buf < cb_wrap buf + cb_mtu buf + 1 \<and> span B \<le> cb_start buf
      else B = [] \<and> cb_wrap buf = cb_size buf \<and>
        cb_start buf + span A + cb_mtu buf + 1 \<le> cb_size buf)"

definition cb_free :: "ChunkBuffer2 \<Rightarrow> int" where
  "cb_free buf = (if wrapped buf then cb_start buf - ChunkBuffer2_end buf
                  else cb_size buf - ChunkBuffer2_end buf)"

definition input_ok :: "ChunkBuffer2 \<Rightarrow> bool" where
  "input_ok buf \<longleftrightarrow>
     (if cb_free buf > 0
      then cb_input_dest buf = block_adr (cb_buffer buf) (ChunkBuffer2_end buf + 1) \<and>
        cb_input_avail buf = (cb_free buf - 1) * 4
      else cb_input_dest buf = 0 \<and> cb_input_avail buf = -1)"

definition output_ok :: "ChunkBuffer2 \<Rightarrow> bytes list \<Rightarrow> bool" where
  "output_ok buf A \<longleftrightarrow>
     (case A of [] \<Rightarrow> cb_output_dest buf = 0 \<and> cb_output_avail buf = -1
      | p # _ \<Rightarrow> cb_output_dest buf = block_adr (cb_buffer buf) (cb_start buf + 1) \<and>
               cb_output_avail buf = int (length p))"

definition cb_data :: "ChunkBuffer2 \<Rightarrow> mem \<Rightarrow> bytes list \<Rightarrow> bytes list \<Rightarrow> bool" where
  "cb_data buf m A B \<longleftrightarrow>
     stored m (cb_buffer buf) (cb_start buf) A \<and> stored m (cb_buffer buf) 0 B"

definition cb_inv :: "ChunkBuffer2 \<Rightarrow> mem \<Rightarrow> bytes list \<Rightarrow> bool" where
  "cb_inv buf m Q \<longleftrightarrow> (\<exists>A B. Q = A @ B \<and> cb_shape buf A B \<and> cb_data buf m A B \<and>
     input_ok buf \<and> output_ok buf A)"

lemma shape_cong:
  "cb_size buf' = cb_size buf \<Longrightarrow> cb_wrap buf' = cb_wrap buf \<Longrightarrow> cb_start buf' = cb_start buf \<Longrightarrow>
   cb_used buf' = cb_used buf \<Longrightarrow> cb_mtu buf' = cb_mtu buf \<Longrightarrow> cb_shape buf' A B = cb_shape buf A B"
  unfolding cb_shape_def wrapped_def by simp

lemma shape_end:
  "cb_shape buf A B \<Longrightarrow> ChunkBuffer2_end buf = (if wrapped buf then span B else cb_start buf + span A)"
  by (auto simp: cb_shape_def ChunkBuffer2_end_def wrapped_def split: if_splits)

lemma shape_room:
  assumes "cb_shape buf A B"
  shows "ChunkBuffer2_end buf + cb_mtu buf + 1 \<le> cb_size buf" and "0 \<le> ChunkBuffer2_end buf"
    and "cb_free buf \<le> 2 ^ 29"
proof -
  have "wrapped buf \<Longrightarrow> 1 + blk (last A) \<le> span A"
    using assms by (intro span_last) (simp add: cb_shape_def)
  then show "ChunkBuffer2_end buf + cb_mtu buf + 1 \<le> cb_size buf" "0 \<le> ChunkBuffer2_end buf"
    "cb_free buf \<le> 2 ^ 29"
    using assms span_nonneg [of A] span_nonneg [of B] unfolding cb_free_def shape_end [OF assms]
    by (auto simp: cb_shape_def split: if_splits)
qed

lemma update_input_ok:
  assumes "cb_shape buf A B"
  shows "input_ok (ChunkBuffer2_update_input buf)" "wrapped (ChunkBuffer2_update_input buf) = wrapped buf"
    "cb_shape (ChunkBuffer2_update_input buf) A B"
    "cb_free (ChunkBuffer2_update_input buf) = cb_free buf"
    "ChunkBuffer2_end (ChunkBuffer2_update_input buf) = ChunkBuffer2_end buf"
proof -
  have *: "cb_buffer (ChunkBuffer2_update_input buf) = cb_buffer buf"
    "cb_size (ChunkBuffer2_update_input buf) = cb_size buf"
    "cb_wrap (ChunkBuffer2_update_input buf) = cb_wrap buf"
    "cb_start (ChunkBuffer2_update_input buf) = cb_start buf"
    "cb_used (ChunkBuffer2_update_input buf) = cb_used buf"
    "cb_mtu (ChunkBuffer2_update_input buf) = cb_mtu buf"
    by (auto simp: ChunkBuffer2_update_input_def Let_def)
  then show w: "wrapped (ChunkBuffer2_update_input buf) = wrapped buf"
    and e: "ChunkBuffer2_end (ChunkBuffer2_update_input buf) = ChunkBuffer2_end buf"
    by (simp_all add: wrapped_def ChunkBuffer2_end_def)
  from assms * show "cb_shape (ChunkBuffer2_update_input buf) A B"
    using shape_cong [of "ChunkBuffer2_update_input buf" buf] by blast
  from * w e show f: "cb_free (ChunkBuffer2_update_input buf) = cb_free buf"
    by (simp add: cb_free_def)
  have "c_int ((cb_free buf - 1) * 4) = (cb_free buf - 1) * 4" if "cb_free buf > 0"
    unfolding c_int_def using that shape_room(3) [OF assms]
    by (intro signed_take_bit_int_eq_self) auto
  then show "input_ok (ChunkBuffer2_update_input buf)"
    using shape_room(1) [OF assms] unfolding input_ok_def f e *(1)
    by (auto simp: ChunkBuffer2_update_input_def Let_def cb_free_def wrapped_def)
qed

lemma update_output_ok:
  assumes "cb_shape buf A B" and "cb_data buf m A B"
  shows "output_ok (ChunkBuffer2_update_output buf m) A"
    "cb_shape (ChunkBuffer2_update_output buf m) A B"
    "cb_data (ChunkBuffer2_update_output buf m) m A B"
    "input_ok (ChunkBuffer2_update_output buf m) = input_ok buf"
proof -
  have "A = [] \<Longrightarrow> B = [] \<and> cb_used buf = 0" using assms(1) by (auto simp: cb_shape_def split: if_splits)
  moreover have "A \<noteq> [] \<Longrightarrow> 0 < cb_used buf"
    using assms(1) span_pos [of A] span_nonneg [of B] by (simp add: cb_shape_def)
  ultimately show "output_ok (ChunkBuffer2_update_output buf m) A"
    using assms(2) by (cases A) (auto simp: output_ok_def ChunkBuffer2_update_output_def cb_data_def)
  have *: "cb_buffer (ChunkBuffer2_update_output buf m) = cb_buffer buf"
    "cb_size (ChunkBuffer2_update_output buf m) = cb_size buf"
    "cb_wrap (ChunkBuffer2_update_output buf m) = cb_wrap buf"
    "cb_start (ChunkBuffer2_update_output buf m) = cb_start buf"
    "cb_used (ChunkBuffer2_update_output buf m) = cb_used buf"
    "cb_mtu (ChunkBuffer2_update_output buf m) = cb_mtu buf"
    "cb_input_dest (ChunkBuffer2_update_output buf m) = cb_input_dest buf"
    "cb_input_avail (ChunkBuffer2_update_output buf m) = cb_input_avail buf"
    by (simp_all add: ChunkBuffer2_update_output_def)
  then have w: "wrapped (ChunkBuffer2_update_output buf m) = wrapped buf"
    and e: "ChunkBuffer2_end (ChunkBuffer2_update_output buf m) = ChunkBuffer2_end buf"
    by (simp_all add: wrapped_def ChunkBuffer2_end_def)
  from assms(1) * show "cb_shape (ChunkBuffer2_update_output buf m) A B"
    using shape_cong [of "ChunkBuffer2_update_output buf m" buf] by blast
  from * assms(2) show "cb_data (ChunkBuffer2_update_output buf m) m A B"
    by (simp add: cb_data_def)
  from * w e show "input_ok (ChunkBuffer2_update_output buf m) = input_ok buf"
    by (simp add: input_ok_def cb_free_def)
qed

lemma Init_inv:
  assumes "0 \<le> m" and "1 + bdivide_up m 4 \<le> blocks" and "blocks \<le> 2 ^ 29"
  shows "cb_inv (ChunkBuffer2_Init b blocks m st) st []"
proof -
  let ?b = "\<lparr>cb_buffer = b, cb_size = blocks, cb_wrap = blocks, cb_start = 0, cb_used = 0,
        cb_mtu = c_int (bdivide_up m 4), cb_input_dest = 0, cb_input_avail = 0,
        cb_output_dest = 0, cb_output_avail = 0\<rparr>"
  have nn: "0 \<le> bdivide_up m 4" by (rule bdivide_up_4_nonneg [OF assms(1)])
  then have "- (2 ^ 31) \<le> bdivide_up m 4" by (rule order_trans [rotated]) simp
  with assms have "c_int (bdivide_up m 4) = bdivide_up m 4"
    unfolding c_int_def by (intro signed_take_bit_int_eq_self) auto
  with assms nn have s: "cb_shape ?b [] []"
    by (auto simp: cb_shape_def wrapped_def)
  have d: "cb_data (ChunkBuffer2_update_input ?b) st [] []" by (simp add: cb_data_def)
  from update_input_ok [OF s] update_output_ok [OF update_input_ok(3) [OF s] d] show ?thesis
    unfolding cb_inv_def ChunkBuffer2_Init_def by auto
qed

section \<open>Submitting a packet\<close>

definition after_submit :: "ChunkBuffer2 \<Rightarrow> int \<Rightarrow> ChunkBuffer2" where
  "after_submit buf bl =
     (let endp = ChunkBuffer2_end buf; buf1 = buf\<lparr>cb_used := cb_used buf + (1 + bl)\<rparr>
      in if cb_used buf1 \<le> cb_wrap buf1 - cb_start buf1 \<and>
            cb_mtu buf1 > cb_size buf1 - (endp + 1 + bl) - 1
         then buf1\<lparr>cb_wrap := endp + 1 + bl\<rparr> else buf1)"

lemma after_submit_fields [simp]:
  "cb_buffer (after_submit buf bl) = cb_buffer buf" "cb_start (after_submit buf bl) = cb_start buf"
  "cb_used (after_submit buf bl) = cb_used buf + 1 + bl"
  "cb_output_dest (after_submit buf bl) = cb_output_dest buf"
  "cb_output_avail (after_submit buf bl) = cb_output_avail buf"
  by (simp_all add: after_submit_def Let_def)

lemma submit_shape:
  assumes "cb_shape buf A B" and "0 < cb_free buf" and "blk p \<le> cb_free buf - 1"
  shows "cb_shape (after_submit buf (blk p)) (if wrapped buf then A else A @ [p])
    (if wrapped buf then B @ [p] else [])"
proof (cases "wrapped buf")
  case True
  have "cb_shape (buf\<lparr>cb_used := cb_used buf + (1 + blk p)\<rparr>) A (B @ [p])"
    using assms True shape_end [OF assms(1)] blk_nonneg [of p]
    by (auto simp: cb_shape_def wrapped_def cb_free_def)
  moreover have "\<not> cb_used buf + (1 + blk p) \<le> cb_wrap buf - cb_start buf"
    using True blk_nonneg [of p] by (simp add: wrapped_def)
  ultimately show ?thesis using True by (simp add: after_submit_def Let_def)
next
  case False
  have e: "ChunkBuffer2_end buf = cb_start buf + span A"
    using shape_end [OF assms(1)] False by simp
  with assms False have u: "B = []" "cb_wrap buf = cb_size buf" "cb_used buf = span A"
    "cb_start buf + span A + cb_mtu buf + 1 \<le> cb_size buf" "0 \<le> cb_start buf" "0 \<le> cb_mtu buf"
    "1 + cb_mtu buf \<le> cb_size buf" "cb_size buf \<le> 2 ^ 29"
    "cb_start buf + span A + 1 + blk p \<le> cb_size buf"
    by (auto simp: cb_shape_def cb_free_def)
  show ?thesis
    using u False e blk_nonneg [of p] span_nonneg [of A]
    by (auto simp: after_submit_def Let_def cb_shape_def wrapped_def)
qed

lemma SubmitPacket_eq:
  "bdivide_up len 4 = bl \<Longrightarrow> ChunkBuffer2_SubmitPacket buf m len =
     (let m1 = store_int m (block_adr (cb_buffer buf) (ChunkBuffer2_end buf)) len;
          buf3 = ChunkBuffer2_update_input (after_submit buf bl)
      in (if cb_used buf3 = 1 + bl then ChunkBuffer2_update_output buf3 m1 else buf3, m1))"
  by (simp add: ChunkBuffer2_SubmitPacket_def after_submit_def Let_def)

lemma block_adr_mono: "i \<le> j \<Longrightarrow> block_adr b i \<le> block_adr b j"
  by (simp add: block_adr_def nat_mono)

lemma block_adr_Suc: "0 \<le> i \<Longrightarrow> block_adr b (i + 1) = block_adr b i + 4"
  by (simp add: block_adr_def nat_add_distrib)

lemma stored_store_int:
  assumes "0 \<le> s" and "0 \<le> i" and "i + 1 \<le> s \<or> s + span ps \<le> i"
  shows "stored (store_int m (block_adr b i) v) b s ps = stored m b s ps"
proof (rule stored_cong [OF assms(1)])
  fix a
  assume a: "block_adr b s \<le> a" "a < block_adr b (s + span ps)"
  from assms(3) have "block_adr b i + 4 \<le> a \<or> a < block_adr b i"
  proof
    assume "i + 1 \<le> s"
    then have "block_adr b i + 4 \<le> block_adr b s"
      using block_adr_mono [of "i + 1" s b] block_adr_Suc [OF assms(2), of b] by simp
    with a show ?thesis by simp
  next
    assume "s + span ps \<le> i"
    then have "block_adr b (s + span ps) \<le> block_adr b i" by (rule block_adr_mono)
    with a show ?thesis by simp
  qed
  then show "store_int m (block_adr b i) v a = m a"
    by (auto simp: store_int_def mem_simps)
qed

lemma update_input_fields [simp]:
  "cb_buffer (ChunkBuffer2_update_input buf) = cb_buffer buf"
  "cb_start (ChunkBuffer2_update_input buf) = cb_start buf"
  "cb_used (ChunkBuffer2_update_input buf) = cb_used buf"
  "cb_size (ChunkBuffer2_update_input buf) = cb_size buf"
  "cb_wrap (ChunkBuffer2_update_input buf) = cb_wrap buf"
  "cb_mtu (ChunkBuffer2_update_input buf) = cb_mtu buf"
  "cb_output_dest (ChunkBuffer2_update_input buf) = cb_output_dest buf"
  "cb_output_avail (ChunkBuffer2_update_input buf) = cb_output_avail buf"
  by (auto simp: ChunkBuffer2_update_input_def Let_def)

text \<open>The header goes where nothing is stored, in front of the packet's bytes.\<close>

lemma submit_data:
  assumes "cb_shape buf A B" and "cb_data buf m A B" and "0 < cb_free buf"
    and "0 \<le> len" and "len \<le> (cb_free buf - 1) * 4"
    and "p = mread m (block_adr (cb_buffer buf) (ChunkBuffer2_end buf + 1)) (nat len)"
  shows "cb_data (after_submit buf bl) (store_int m (block_adr (cb_buffer buf) (ChunkBuffer2_end buf)) len)
    (if wrapped buf then A else A @ [p]) (if wrapped buf then B @ [p] else [])"
proof -
  let ?e = "ChunkBuffer2_end buf"
  let ?m = "store_int m (block_adr (cb_buffer buf) ?e) len"
  have e: "0 \<le> ?e" using shape_room(2) [OF assms(1)] .
  have len: "len < 2 ^ 31" using assms(5) shape_room(3) [OF assms(1)] by simp
  have p: "stored ?m (cb_buffer buf) ?e [p]"
    using assms(4,6) len e by (simp add: load_store_int block_adr_Suc mem_simps)
  have old: "stored ?m (cb_buffer buf) (cb_start buf) A" "stored ?m (cb_buffer buf) 0 B"
  proof -
    have "0 \<le> cb_start buf" using assms(1) by (simp add: cb_shape_def)
    moreover have "?e + 1 \<le> cb_start buf \<or> cb_start buf + span A \<le> ?e" "0 + span B \<le> ?e"
      using assms(1,3) shape_end [OF assms(1)] span_nonneg [of A]
      by (auto simp: cb_shape_def cb_free_def split: if_splits)
    ultimately show "stored ?m (cb_buffer buf) (cb_start buf) A" "stored ?m (cb_buffer buf) 0 B"
      using assms(2) e stored_store_int [of "cb_start buf" ?e A] stored_store_int [of 0 ?e B]
      by (simp_all add: cb_data_def)
  qed
  from p old shape_end [OF assms(1)] show ?thesis by (auto simp: cb_data_def)
qed

lemma Submit_inv:
  assumes "cb_inv buf m Q" and "0 \<le> len" and "len \<le> cb_input_avail buf"
    and "ChunkBuffer2_SubmitPacket buf m len = (buf', m')"
  shows "cb_inv buf' m' (Q @ [mread m (cb_input_dest buf) (nat len)])"
proof -
  let ?p = "mread m (cb_input_dest buf) (nat len)"
  obtain A B where Q: "Q = A @ B" and sh: "cb_shape buf A B" and da: "cb_data buf m A B"
    and inp: "input_ok buf" and out: "output_ok buf A"
    using assms(1) by (auto simp: cb_inv_def)
  have free: "0 < cb_free buf" and len: "len \<le> (cb_free buf - 1) * 4"
    and dest: "cb_input_dest buf = block_adr (cb_buffer buf) (ChunkBuffer2_end buf + 1)"
    using inp assms(2,3) by (auto simp: input_ok_def split: if_splits)
  have bl: "bdivide_up len 4 = blk ?p" using assms(2) by (simp add: blk_def)
  have "blk ?p \<le> cb_free buf - 1"
    using len assms(2) blk_bytes(2) [of ?p] by simp
  note sh2 = submit_shape [OF sh free this]
  note da2 = submit_data [OF sh da free assms(2) len, of ?p "blk ?p"]
  let ?A = "if wrapped buf then A else A @ [?p]" and ?B = "if wrapped buf then B @ [?p] else []"
  let ?m = "store_int m (block_adr (cb_buffer buf) (ChunkBuffer2_end buf)) len"
  let ?b = "ChunkBuffer2_update_input (after_submit buf (blk ?p))"
  have AB: "Q @ [?p] = ?A @ ?B" using Q sh by (auto simp: cb_shape_def)
  from da2 dest have da3: "cb_data ?b ?m ?A ?B" by (simp add: cb_data_def)
  note in3 = update_input_ok [OF sh2]
  have head: "output_ok ?b ?A" if "cb_used buf \<noteq> 0"
    using that out sh by (cases A) (auto simp: output_ok_def cb_shape_def split: if_splits)
  have "buf' = (if cb_used buf = 0 then ChunkBuffer2_update_output ?b ?m else ?b)" "m' = ?m"
    using assms(4) by (auto simp: SubmitPacket_eq [OF bl] Let_def split: if_splits)
  then show ?thesis
    using AB in3(1,3) da3 head update_output_ok [OF in3(3) da3]
    by (cases "cb_used buf = 0") (auto simp only: cb_inv_def if_True if_False simp_thms)
qed

section \<open>Consuming the first packet\<close>

definition after_consume :: "ChunkBuffer2 \<Rightarrow> int \<Rightarrow> ChunkBuffer2" where
  "after_consume buf bl =
     (let buf1 = buf\<lparr>cb_start := cb_start buf + (1 + bl), cb_used := cb_used buf - (1 + bl)\<rparr>
      in if cb_start buf1 = cb_wrap buf1
         then buf1\<lparr>cb_start := 0, cb_wrap := cb_size buf1\<rparr> else buf1)"

lemma after_consume_buffer [simp]: "cb_buffer (after_consume buf bl) = cb_buffer buf"
  by (simp add: after_consume_def Let_def)

lemma consume_shape:
  assumes "cb_shape buf (p # A) B" and "cb_data buf m (p # A) B"
  shows "\<exists>A' B'. A' @ B' = A @ B \<and> cb_shape (after_consume buf (blk p)) A' B' \<and>
    cb_data (after_consume buf (blk p)) m A' B' \<and>
    (\<not> wrapped buf \<longrightarrow> \<not> wrapped (after_consume buf (blk p)) \<and>
       ChunkBuffer2_end (after_consume buf (blk p)) = ChunkBuffer2_end buf)"
proof (cases "wrapped buf \<and> A = []")
  case True
  then have "cb_shape (after_consume buf (blk p)) B [] \<and> cb_data (after_consume buf (blk p)) m B []"
    using assms blk_nonneg [of p] span_nonneg [of B]
    by (auto simp: cb_shape_def cb_data_def after_consume_def Let_def wrapped_def)
  with True show ?thesis by (intro exI [of _ B] exI [of _ "[]"]) simp
next
  case False
  have ne: "cb_start buf + (1 + blk p) \<noteq> cb_wrap buf"
  proof (cases "wrapped buf")
    case True
    with False have "1 \<le> span A" by (simp add: span_pos)
    with True assms(1) show ?thesis by (auto simp: cb_shape_def)
  next
    case F: False
    with assms(1) span_nonneg [of A] show ?thesis by (auto simp: cb_shape_def)
  qed
  then have eq: "after_consume buf (blk p) =
      buf\<lparr>cb_start := cb_start buf + (1 + blk p), cb_used := cb_used buf - (1 + blk p)\<rparr>"
    by (simp add: after_consume_def Let_def)
  have w: "wrapped (after_consume buf (blk p)) = wrapped buf"
    by (auto simp: eq wrapped_def)
  have "cb_shape (after_consume buf (blk p)) A B"
    using assms(1) False blk_nonneg [of p] w unfolding cb_shape_def
    by (auto simp: eq split: if_splits)
  moreover have "cb_data (after_consume buf (blk p)) m A B"
    using assms(2) by (simp add: cb_data_def eq add.assoc [symmetric])
  moreover have "\<not> wrapped buf \<Longrightarrow> ChunkBuffer2_end (after_consume buf (blk p)) = ChunkBuffer2_end buf"
    using w by (simp add: ChunkBuffer2_end_def wrapped_def eq)
  ultimately show ?thesis using w by blast
qed

lemma Consume_inv:
  assumes "cb_inv buf m (p # Q)"
  shows "cb_inv (ChunkBuffer2_ConsumePacket buf m) m Q"
proof -
  obtain A B where Q: "Q = A @ B" and sh: "cb_shape buf (p # A) B"
    and da: "cb_data buf m (p # A) B" and inp: "input_ok buf"
  proof -
    obtain A0 B0 where *: "p # Q = A0 @ B0" "cb_shape buf A0 B0" "cb_data buf m A0 B0" "input_ok buf"
      using assms by (auto simp: cb_inv_def)
    moreover have "A0 \<noteq> []" using * by (auto simp: cb_shape_def split: if_splits)
    ultimately show thesis using that by (cases A0) auto
  qed
  have bl: "bdivide_up (load_int m (block_adr (cb_buffer buf) (cb_start buf))) 4 = blk p"
    using da by (simp add: cb_data_def blk_def)
  let ?b = "after_consume buf (blk p)"
  obtain A' B' where AB: "A' @ B' = A @ B" and sh2: "cb_shape ?b A' B'" and da2: "cb_data ?b m A' B'"
    and same: "\<not> wrapped buf \<Longrightarrow> \<not> wrapped ?b \<and> ChunkBuffer2_end ?b = ChunkBuffer2_end buf"
    using consume_shape [OF sh da] by blast
  let ?c = "if wrapped buf then ChunkBuffer2_update_input ?b else ?b"
  have in3: "input_ok ?c" "cb_shape ?c A' B'"
  proof -
    show "cb_shape ?c A' B'" using sh2 update_input_ok(3) [OF sh2] by simp
    show "input_ok ?c"
    proof (cases "wrapped buf")
      case True
      then show ?thesis using update_input_ok(1) [OF sh2] by simp
    next
      case False
      moreover from False same have "cb_free ?b = cb_free buf"
        by (auto simp: cb_free_def after_consume_def Let_def)
      ultimately show ?thesis using inp same
        by (auto simp: input_ok_def after_consume_def Let_def)
    qed
  qed
  have da3: "cb_data ?c m A' B'" using da2 by (simp add: cb_data_def)
  have eq: "ChunkBuffer2_ConsumePacket buf m = ChunkBuffer2_update_output ?c m"
    by (simp add: ChunkBuffer2_ConsumePacket_def bl after_consume_def wrapped_def Let_def)
  show ?thesis
    using update_output_ok [OF in3(2) da3] in3(1) AB Q unfolding eq cb_inv_def by metis
qed

section \<open>Output and capacity\<close>

lemma output_head:
  assumes "cb_inv buf m Q"
  shows "case Q of [] \<Rightarrow> cb_output_dest buf = 0 \<and> cb_output_avail buf = -1
    | p # _ \<Rightarrow> cb_output_avail buf = int (length p) \<and>
        mread m (cb_output_dest buf) (nat (cb_output_avail buf)) = p"
proof -
  obtain A B where *: "Q = A @ B" "cb_shape buf A B" "cb_data buf m A B" "output_ok buf A"
    using assms by (auto simp: cb_inv_def)
  then show ?thesis
    by (cases A) (auto simp: output_ok_def cb_shape_def cb_data_def split: if_splits)
qed

lemma span_bound: "(\<And>p. p \<in> set ps \<Longrightarrow> blk p \<le> k) \<Longrightarrow> span ps \<le> int (length ps) * (1 + k)"
proof (induction ps)
  case (Cons p ps)
  then have "blk p \<le> k" and "span ps \<le> int (length ps) * (1 + k)" by simp_all
  then show ?case by (simp add: distrib_right)
qed simp

lemma capacity:
  assumes "cb_inv buf m Q" and "cb_size buf = (1 + cb_mtu buf) * (num + 1)"
    and "\<And>p. p \<in> set Q \<Longrightarrow> blk p \<le> cb_mtu buf" and "int (length Q) < num"
  shows "cb_mtu buf * 4 \<le> cb_input_avail buf"
proof -
  obtain A B where Q: "Q = A @ B" and sh: "cb_shape buf A B" and inp: "input_ok buf"
    using assms(1) by (auto simp: cb_inv_def)
  let ?c = "1 + cb_mtu buf"
  have c: "1 \<le> ?c" using sh by (simp add: cb_shape_def)
  have "span Q \<le> int (length Q) * ?c" by (rule span_bound [OF assms(3)])
  also have "\<dots> \<le> (num - 1) * ?c" using assms(4) c by (intro mult_right_mono) auto
  finally have "cb_used buf \<le> (num - 1) * ?c"
    using sh Q by (simp add: cb_shape_def)
  moreover have "cb_size buf = (num - 1) * ?c + 2 * ?c"
    using assms(2) by (simp add: algebra_simps)
  ultimately obtain x where used: "cb_used buf \<le> x" and size: "cb_size buf = x + 2 * ?c" by blast
  have "?c \<le> cb_free buf"
  proof (cases "wrapped buf")
    case True
    then have "cb_free buf = cb_wrap buf - cb_used buf"
      using sh shape_end [OF sh] by (auto simp: cb_free_def cb_shape_def)
    moreover have "cb_size buf < cb_wrap buf + ?c" using sh True by (simp add: cb_shape_def)
    ultimately show ?thesis using used size by (simp add: distrib_left)
  next
    case False
    then show ?thesis using sh shape_end [OF sh] by (auto simp: cb_free_def cb_shape_def)
  qed
  then show ?thesis using inp c by (auto simp: input_ok_def split: if_splits)
qed

text \<open>Writing a packet into the input area disturbs nothing that is stored.\<close>

lemma stored_mwrite:
  assumes "0 \<le> s" and "0 \<le> i"
    and "s + span ps \<le> i \<or> (\<exists>j. i \<le> j \<and> j \<le> s \<and> int (length bs) \<le> 4 * (j - i))"
  shows "stored (mwrite m (block_adr b i) bs) b s ps = stored m b s ps"
proof (rule stored_cong [OF assms(1)])
  fix a
  assume a: "block_adr b s \<le> a" "a < block_adr b (s + span ps)"
  from assms(3) have "block_adr b i + length bs \<le> a \<or> a < block_adr b i"
  proof
    assume "s + span ps \<le> i"
    then have "block_adr b (s + span ps) \<le> block_adr b i" by (rule block_adr_mono)
    with a show ?thesis by simp
  next
    assume "\<exists>j. i \<le> j \<and> j \<le> s \<and> int (length bs) \<le> 4 * (j - i)"
    then obtain j where j: "i \<le> j" "j \<le> s" "int (length bs) \<le> 4 * (j - i)" by blast
    then have "block_adr b i + length bs \<le> block_adr b j"
      using assms(2) by (simp add: block_adr_def)
    also have "\<dots> \<le> block_adr b s" using j(2) by (rule block_adr_mono)
    finally show ?thesis using a by simp
  qed
  then show "mwrite m (block_adr b i) bs a = m a" by (auto simp: mem_simps)
qed

lemma write_inv:
  assumes "cb_inv buf m Q" and "int (length p) \<le> cb_input_avail buf"
  shows "cb_inv buf (mwrite m (cb_input_dest buf) p) Q"
proof -
  obtain A B where Q: "Q = A @ B" and sh: "cb_shape buf A B" and da: "cb_data buf m A B"
    and inp: "input_ok buf" and out: "output_ok buf A"
    using assms(1) by (auto simp: cb_inv_def)
  let ?e = "ChunkBuffer2_end buf"
  have free: "0 < cb_free buf" and len: "int (length p) \<le> (cb_free buf - 1) * 4"
    and dest: "cb_input_dest buf = block_adr (cb_buffer buf) (?e + 1)"
    using inp assms(2) by (auto simp: input_ok_def split: if_splits)
  have e: "0 \<le> ?e" "0 \<le> cb_start buf"
    using shape_room(2) [OF sh] sh by (simp_all add: cb_shape_def)
  have "stored (mwrite m (block_adr (cb_buffer buf) (?e + 1)) p) (cb_buffer buf) (cb_start buf) A
      = stored m (cb_buffer buf) (cb_start buf) A"
  proof (rule stored_mwrite [OF e(2)], goal_cases)
    case 2
    show ?case
      using sh shape_end [OF sh] free len
      by (auto simp: cb_shape_def cb_free_def intro: exI [of _ "cb_start buf"] split: if_splits)
  qed (use e in simp)
  moreover have "stored (mwrite m (block_adr (cb_buffer buf) (?e + 1)) p) (cb_buffer buf) 0 B
      = stored m (cb_buffer buf) 0 B"
    by (rule stored_mwrite) (use e sh shape_end [OF sh] in \<open>auto simp: cb_shape_def split: if_splits\<close>)
  ultimately have "cb_data buf (mwrite m (cb_input_dest buf) p) A B"
    using da by (simp add: cb_data_def dest)
  with Q sh inp out show ?thesis by (auto simp: cb_inv_def)
qed

lemma inv_mem_cong:
  assumes "cb_inv buf m Q"
    and "\<And>a. cb_buffer buf \<le> a \<Longrightarrow> a < block_adr (cb_buffer buf) (cb_size buf) \<Longrightarrow>
      \<not> (cb_input_dest buf \<le> a \<and> int a < int (cb_input_dest buf) + cb_input_avail buf) \<Longrightarrow> m a = m' a"
  shows "cb_inv buf m' Q"
proof -
  obtain A B where Q: "Q = A @ B" and sh: "cb_shape buf A B" and da: "cb_data buf m A B"
    and inp: "input_ok buf" and out: "output_ok buf A"
    using assms(1) by (auto simp: cb_inv_def)
  let ?e = "ChunkBuffer2_end buf" and ?b = "cb_buffer buf" and ?s = "cb_start buf"
  have e: "0 \<le> ?e" "0 \<le> ?s" "0 \<le> span A" "0 \<le> span B"
    using shape_room(2) [OF sh] sh by (simp_all add: cb_shape_def span_nonneg)
  have sep: "m a = m' a" if "block_adr ?b i \<le> a" "a < block_adr ?b j" "0 \<le> i" "j \<le> cb_size buf"
    and "0 < cb_free buf \<Longrightarrow> j \<le> ?e \<or> ?e + cb_free buf \<le> i" for a i j
  proof (rule assms(2))
    show "?b \<le> a" using that(1) by (simp add: block_adr_def)
    show "a < block_adr ?b (cb_size buf)" using that(2) block_adr_mono [OF that(4), of ?b] by simp
    show "\<not> (cb_input_dest buf \<le> a \<and> int a < int (cb_input_dest buf) + cb_input_avail buf)"
    proof (cases "0 < cb_free buf")
      case True
      then have "cb_input_dest buf = block_adr ?b (?e + 1)" "cb_input_avail buf = (cb_free buf - 1) * 4"
        using inp by (auto simp: input_ok_def)
      with that(1,2,3,5) True e(1) show ?thesis by (auto simp: block_adr_def)
    next
      case False
      then show ?thesis using inp by (simp add: input_ok_def)
    qed
  qed
  have "stored m ?b ?s A = stored m' ?b ?s A"
    by (rule stored_cong [OF e(2)], rule sep [of ?s _ "?s + span A"])
      (use sh shape_end [OF sh] e in \<open>auto simp: cb_shape_def cb_free_def split: if_splits\<close>)
  moreover have "stored m ?b 0 B = stored m' ?b 0 B"
    by (rule stored_cong, simp, rule sep [of 0 _ "span B"])
      (use sh shape_end [OF sh] e in \<open>auto simp: cb_shape_def cb_free_def split: if_splits\<close>)
  ultimately have "cb_data buf m' A B" using da by (simp add: cb_data_def)
  with Q sh inp out show ?thesis by (auto simp: cb_inv_def)
qed

lemma consume_input:
  assumes "cb_inv buf m (p # Q)" and "0 \<le> cb_input_avail buf"
  shows "cb_input_dest (ChunkBuffer2_ConsumePacket buf m) = cb_input_dest buf"
    and "cb_input_avail buf \<le> cb_input_avail (ChunkBuffer2_ConsumePacket buf m)"
proof -
  obtain A0 B where *: "p # Q = A0 @ B" "cb_shape buf A0 B" "cb_data buf m A0 B" "input_ok buf"
    using assms by (auto simp: cb_inv_def)
  moreover have "A0 \<noteq> []" using * by (auto simp: cb_shape_def split: if_splits)
  ultimately obtain A where sh: "cb_shape buf (p # A) B" and da: "cb_data buf m (p # A) B"
    and inp: "input_ok buf" by (cases A0) auto
  have bl: "bdivide_up (load_int m (block_adr (cb_buffer buf) (cb_start buf))) 4 = blk p"
    using da by (simp add: cb_data_def blk_def)
  let ?b = "after_consume buf (blk p)"
  let ?c = "if wrapped buf then ChunkBuffer2_update_input ?b else ?b"
  have eq: "ChunkBuffer2_ConsumePacket buf m = ChunkBuffer2_update_output ?c m"
    by (simp add: ChunkBuffer2_ConsumePacket_def bl after_consume_def wrapped_def Let_def)
  obtain A' B' where sh2: "cb_shape ?b A' B'"
    using consume_shape [OF sh da] by blast
  have free: "0 < cb_free buf" "cb_input_dest buf = block_adr (cb_buffer buf) (ChunkBuffer2_end buf + 1)"
    "cb_input_avail buf = (cb_free buf - 1) * 4"
    using inp assms(2) by (auto simp: input_ok_def split: if_splits)
  have "cb_input_dest ?c = cb_input_dest buf \<and> cb_input_avail buf \<le> cb_input_avail ?c"
  proof (cases "wrapped buf")
    case True
    then have w: "cb_start buf + (1 + blk p) + span A = cb_wrap buf" "cb_wrap buf \<le> cb_size buf"
      "cb_used buf = (1 + blk p) + span A + span B" "span B \<le> cb_start buf"
      using sh by (auto simp: cb_shape_def)
    have "ChunkBuffer2_end ?b = ChunkBuffer2_end buf \<and> cb_free buf \<le> cb_free ?b"
      using w True shape_end [OF sh] free(1) span_nonneg [of A] span_nonneg [of B] blk_nonneg [of p]
      by (auto simp: cb_free_def after_consume_def Let_def wrapped_def ChunkBuffer2_end_def)
    with update_input_ok [OF sh2] free True show ?thesis
      by (auto simp: input_ok_def split: if_splits)
  next
    case False
    then show ?thesis by (simp add: after_consume_def Let_def)
  qed
  then show "cb_input_dest (ChunkBuffer2_ConsumePacket buf m) = cb_input_dest buf"
    and "cb_input_avail buf \<le> cb_input_avail (ChunkBuffer2_ConsumePacket buf m)"
    unfolding eq by (simp_all add: ChunkBuffer2_update_output_def)
qed

text \<open>The packet being read stays at the output while others are submitted.\<close>

lemma submit_output:
  assumes "cb_inv buf m Q" and "Q \<noteq> []" and "0 \<le> len"
    and "ChunkBuffer2_SubmitPacket buf m len = (buf', m')"
  shows "cb_output_dest buf' = cb_output_dest buf" "cb_output_avail buf' = cb_output_avail buf"
proof -
  obtain A B where "Q = A @ B" "cb_shape buf A B" using assms(1) by (auto simp: cb_inv_def)
  then have "cb_used buf = span Q" by (simp add: cb_shape_def)
  with span_pos [OF assms(2)] have "cb_used buf \<noteq> 0" by linarith
  with assms(4) show "cb_output_dest buf' = cb_output_dest buf" "cb_output_avail buf' = cb_output_avail buf"
    by (auto simp: SubmitPacket_eq [OF refl] Let_def split: if_splits)
qed

lemma submit_keeps:
  "ChunkBuffer2_SubmitPacket buf m len = (buf', m') \<Longrightarrow>
   cb_size buf' = cb_size buf \<and> cb_mtu buf' = cb_mtu buf \<and> cb_buffer buf' = cb_buffer buf"
  by (auto simp: ChunkBuffer2_SubmitPacket_def ChunkBuffer2_update_output_def Let_def split: if_splits)

lemma consume_keeps:
  "cb_size (ChunkBuffer2_ConsumePacket buf m) = cb_size buf"
  "cb_mtu (ChunkBuffer2_ConsumePacket buf m) = cb_mtu buf"
  "cb_buffer (ChunkBuffer2_ConsumePacket buf m) = cb_buffer buf"
  by (simp_all add: ChunkBuffer2_ConsumePacket_def ChunkBuffer2_update_output_def Let_def)

section \<open>Any use of the buffer\<close>

text \<open>A producer that writes a packet into the input area and submits it when it fits, and a
  consumer that reads the packet at the output and consumes it when there is one, in any
  order.  The result is the packets accepted, the packets delivered, and the final state.\<close>

datatype cb_op = Put bytes | Get

fun cb_run :: "cb_op list \<Rightarrow> ChunkBuffer2 \<times> mem \<Rightarrow> bytes list \<times> bytes list \<times> ChunkBuffer2 \<times> mem" where
  "cb_run [] (buf, m) = ([], [], buf, m)"
| "cb_run (Put p # ops) (buf, m) =
     (if int (length p) \<le> cb_input_avail buf
      then case cb_run ops (ChunkBuffer2_SubmitPacket buf (mwrite m (cb_input_dest buf) p)
             (int (length p))) of (acc, del, r) \<Rightarrow> (p # acc, del, r)
      else cb_run ops (buf, m))"
| "cb_run (Get # ops) (buf, m) =
     (if 0 \<le> cb_output_avail buf
      then case cb_run ops (ChunkBuffer2_ConsumePacket buf m, m) of (acc, del, r) \<Rightarrow>
        (acc, mread m (cb_output_dest buf) (nat (cb_output_avail buf)) # del, r)
      else cb_run ops (buf, m))"

lemma cb_run_inv:
  "cb_inv buf m Q \<Longrightarrow> cb_run ops (buf, m) = (acc, del, buf', m') \<Longrightarrow>
   \<exists>Q'. Q @ acc = del @ Q' \<and> cb_inv buf' m' Q' \<and> cb_size buf' = cb_size buf \<and>
     cb_mtu buf' = cb_mtu buf \<and> cb_buffer buf' = cb_buffer buf"
proof (induction ops arbitrary: buf m Q acc del)
  case (Cons op ops)
  show ?case
  proof (cases op)
    case (Put p)
    show ?thesis
    proof (cases "int (length p) \<le> cb_input_avail buf")
      case True
      obtain b1 m1 where sub: "ChunkBuffer2_SubmitPacket buf (mwrite m (cb_input_dest buf) p)
          (int (length p)) = (b1, m1)" by fastforce
      obtain acc1 where run: "cb_run ops (b1, m1) = (acc1, del, buf', m')" and acc: "acc = p # acc1"
        using Cons.prems(2) Put True sub by (auto split: prod.splits)
      from Submit_inv [OF write_inv [OF Cons.prems(1) True] _ True sub]
      have "cb_inv b1 m1 (Q @ [p])" by (simp add: mem_simps)
      from Cons.IH [OF this run] submit_keeps [OF sub] acc show ?thesis by auto
    qed (use Cons Put in auto)
  next
    case Get
    show ?thesis
    proof (cases "0 \<le> cb_output_avail buf")
      case True
      then obtain p Q1 where Q: "Q = p # Q1"
        and p: "mread m (cb_output_dest buf) (nat (cb_output_avail buf)) = p"
        using output_head [OF Cons.prems(1)] by (cases Q) auto
      obtain del1 where run: "cb_run ops (ChunkBuffer2_ConsumePacket buf m, m) = (acc, del1, buf', m')"
        and del: "del = p # del1"
        using Cons.prems(2) Get True p by (auto split: prod.splits)
      from Cons.IH [OF Consume_inv [OF Cons.prems(1) [unfolded Q]] run] del Q
      show ?thesis by (auto simp: consume_keeps)
    qed (use Cons Get in auto)
  qed
qed simp

lemma cb_run_accepted:
  "cb_run ops (buf, m) = (acc, del, r) \<Longrightarrow> p \<in> set acc \<Longrightarrow> Put p \<in> set ops"
proof (induction ops arbitrary: buf m acc del)
  case (Cons op ops)
  have step: "p \<in> set acc1 \<Longrightarrow> cb_run ops x = (acc1, del1, r) \<Longrightarrow> Put p \<in> set ops" for acc1 del1 x
    using Cons.IH by (cases x) auto
  show ?case
    using Cons.prems by (cases op) (auto split: if_splits prod.splits dest: step)
qed simp

lemma calc_blocks:
  assumes "0 \<le> chunk_len" and "chunk_len \<le> INT_MAX" and "0 \<le> num"
    and "ChunkBuffer2_calc_blocks chunk_len num \<noteq> -1"
  shows "ChunkBuffer2_calc_blocks chunk_len num = (1 + bdivide_up chunk_len 4) * (num + 1)"
    and "ChunkBuffer2_calc_blocks chunk_len num \<le> INT_MAX"
proof -
  have "0 \<le> bdivide_up chunk_len 4" "bdivide_up chunk_len 4 \<le> INT_MAX"
    using bdivide_up_4_bounds [OF assms(1)] bdivide_up_4_nonneg [OF assms(1)] assms(2)
    by (simp_all add: INT_MAX_def)
  then have c: "c_int (bdivide_up chunk_len 4) = bdivide_up chunk_len 4"
    unfolding c_int_def by (intro signed_take_bit_int_eq_self) (auto simp: INT_MAX_def)
  then show eq: "ChunkBuffer2_calc_blocks chunk_len num = (1 + bdivide_up chunk_len 4) * (num + 1)"
    using assms(4) by (auto simp: ChunkBuffer2_calc_blocks_def Let_def split: if_splits)
  have "1 + bdivide_up chunk_len 4 \<le> INT_MAX div (num + 1)"
    using assms(4) c by (auto simp: ChunkBuffer2_calc_blocks_def Let_def split: if_splits)
  then have "(1 + bdivide_up chunk_len 4) * (num + 1) \<le> (INT_MAX div (num + 1)) * (num + 1)"
    using assms(3) by (intro mult_right_mono) auto
  also have "\<dots> \<le> INT_MAX"
    using assms(3) minus_mod_eq_div_mult [of INT_MAX "num + 1"] pos_mod_sign [of "num + 1" INT_MAX] by linarith
  finally show "ChunkBuffer2_calc_blocks chunk_len num \<le> INT_MAX" unfolding eq .
qed

lemma blk_le: "int (length p) \<le> mtu \<Longrightarrow> blk p \<le> bdivide_up mtu 4"
  by (simp add: blk_def bdivide_up_4_mono)

section \<open>Properties\<close>

text \<open>C30: a \<open>ChunkBuffer2\<close> is a first-in first-out queue: whatever the interleaving of
  submitted and consumed packets, the packets delivered are the packets accepted, byte for
  byte and in order, but for those still stored; a packet is at the output exactly when one
  is stored, and it is the oldest.\<close>

theorem chunk_buffer_is_a_queue:
  assumes "0 \<le> mtu" and "1 + bdivide_up mtu 4 \<le> blocks" and "blocks \<le> 2 ^ 29"
    and "cb_run ops (ChunkBuffer2_Init b blocks mtu st, st) = (acc, del, buf, m)"
  shows "\<exists>Q. acc = del @ Q \<and> (0 \<le> cb_output_avail buf \<longleftrightarrow> Q \<noteq> []) \<and>
    (Q \<noteq> [] \<longrightarrow> mread m (cb_output_dest buf) (nat (cb_output_avail buf)) = hd Q)"
proof -
  obtain Q where "acc = del @ Q" and inv: "cb_inv buf m Q"
    using cb_run_inv [OF Init_inv [OF assms(1-3)] assms(4)] by auto
  with output_head [OF inv] show ?thesis by (cases Q) fastforce+
qed

theorem chunk_buffer_is_a_queue_witness:
  "\<exists>acc del buf m Q.
     cb_run [Put [1, 2, 3, 4, 5], Put [6], Get, Put [7, 8], Get, Put [9]]
       (ChunkBuffer2_Init 4 8 8 (\<lambda>_. 0), \<lambda>_. 0) = (acc, del, buf, m) \<and>
     acc = del @ Q \<and> del = [[1, 2, 3, 4, 5], [6]] \<and> Q \<noteq> [] \<and>
     mread m (cb_output_dest buf) (nat (cb_output_avail buf)) = hd Q"
proof -
  let ?r = "cb_run [Put [1, 2, 3, 4, 5], Put [6], Get, Put [7, 8], Get, Put [9]]
       (ChunkBuffer2_Init 4 8 8 (\<lambda>_. 0), \<lambda>_. 0)"
  have "case ?r of (acc, del, buf, m) \<Rightarrow>
      acc = [[1, 2, 3, 4, 5], [6], [7, 8], [9]] \<and> del = [[1, 2, 3, 4, 5], [6]]"
    by code_simp
  then obtain acc del buf m where run: "?r = (acc, del, buf, m)"
    and *: "acc = [[1, 2, 3, 4, 5], [6], [7, 8], [9]]" "del = [[1, 2, 3, 4, 5], [6]]"
    by (auto split: prod.splits)
  have "1 + bdivide_up 8 4 \<le> (8 :: int)" by code_simp
  from chunk_buffer_is_a_queue [OF _ this _ run] run * show ?thesis by fastforce
qed

text \<open>A buffer of the size \<open>ChunkBuffer2_calc_blocks\<close> gives for packets of up to \<open>mtu\<close>
  bytes holds what it promises: after any use, as long as fewer than \<open>num\<close> packets are stored
  the input area has room for a packet of \<open>mtu\<close> bytes, however the stored packets lie around
  the wrap and whatever their sizes.\<close>

theorem chunk_buffer_capacity:
  assumes "0 \<le> mtu" and "mtu \<le> INT_MAX" and "0 < num"
    and "ChunkBuffer2_calc_blocks mtu num = blocks" and "blocks \<noteq> -1" and "blocks \<le> 2 ^ 29"
    and "list_all (\<lambda>op. case op of Put p \<Rightarrow> int (length p) \<le> mtu | Get \<Rightarrow> True) ops"
    and "cb_run ops (ChunkBuffer2_Init b blocks mtu st, st) = (acc, del, buf, m)"
    and "int (length acc - length del) < num"
  shows "mtu \<le> cb_input_avail buf"
proof -
  have blocks: "blocks = (1 + bdivide_up mtu 4) * (num + 1)"
    using calc_blocks(1) [OF assms(1,2)] assms(3-5) by auto
  have c: "0 \<le> bdivide_up mtu 4" by (rule bdivide_up_4_nonneg [OF assms(1)])
  then have "(1 + bdivide_up mtu 4) * 1 \<le> blocks"
    unfolding blocks using assms(3) by (intro mult_left_mono) auto
  then have fits: "1 + bdivide_up mtu 4 \<le> blocks" by simp
  let ?b = "ChunkBuffer2_Init b blocks mtu st"
  have "c_int (bdivide_up mtu 4) = bdivide_up mtu 4"
    unfolding c_int_def using c fits assms(6) by (intro signed_take_bit_int_eq_self) auto
  then have init: "cb_size ?b = blocks" "cb_mtu ?b = bdivide_up mtu 4"
    by (simp_all add: ChunkBuffer2_Init_def ChunkBuffer2_update_output_def)
  obtain Q where acc: "acc = del @ Q" and inv: "cb_inv buf m Q"
    and keep: "cb_size buf = blocks" "cb_mtu buf = bdivide_up mtu 4"
    using cb_run_inv [OF Init_inv [OF assms(1) fits assms(6)] assms(8)] init by auto
  have "p \<in> set acc \<Longrightarrow> int (length p) \<le> mtu" for p
    using cb_run_accepted [OF assms(8), of p] assms(7) by (fastforce simp: list_all_iff)
  then have "blk p \<le> cb_mtu buf" if "p \<in> set Q" for p
    using that acc keep by (simp add: blk_le)
  moreover have "int (length Q) < num" using assms(9) acc by simp
  ultimately have "cb_mtu buf * 4 \<le> cb_input_avail buf"
    using capacity [OF inv, of num] keep blocks by simp
  with keep bdivide_up_4_bounds [OF assms(1)] show ?thesis by simp
qed

theorem chunk_buffer_capacity_witness:
  "\<exists>acc del buf m. cb_run [Put [1, 2, 3, 4, 5], Put [6], Put [7], Get]
       (ChunkBuffer2_Init 4 (ChunkBuffer2_calc_blocks 5 3) 5 (\<lambda>_. 0), \<lambda>_. 0) =
       (acc, del, buf, m) \<and> length acc - length del = 2 \<and> 5 \<le> cb_input_avail buf"
proof -
  let ?r = "cb_run [Put [1, 2, 3, 4, 5], Put [6], Put [7], Get]
       (ChunkBuffer2_Init 4 (ChunkBuffer2_calc_blocks 5 3) 5 (\<lambda>_. 0), \<lambda>_. 0)"
  have "case ?r of (acc, del, buf, m) \<Rightarrow> length acc - length del = 2" by code_simp
  then obtain acc del buf m where run: "?r = (acc, del, buf, m)" and *: "length acc - length del = 2"
    by (auto split: prod.splits)
  have "ChunkBuffer2_calc_blocks 5 3 = 12" by code_simp
  with chunk_buffer_capacity [OF _ _ _ refl _ _ _ run] run * show ?thesis
    by (simp add: INT_MAX_def)
qed

end
