(* ===== verification/Packet_Buffer.thy ===== *)
theory Packet_Buffer
  imports Flow_Contract Chunk_Buffer
begin

text \<open>
  \<open>flow/PacketBuffer.c\<close>: packets from a \<open>PacketRecvInterface\<close> wait in a \<open>ChunkBuffer2\<close> for a
  \<open>PacketPassInterface\<close>.  The state of the component is the C struct and the byte store; the
  provider of the input writes the packet into the memory it was given (\<open>on_api\<close>), anything
  outside the array of blocks may change at any time.
\<close>

record 'p PacketBuffer =
  pb_input :: 'p
  pb_input_mtu :: int
  pb_output :: 'p
  pb_buf :: ChunkBuffer2

definition PacketBuffer_input_handler_done ::
    "'p PacketBuffer \<Rightarrow> mem \<Rightarrow> int \<Rightarrow> ('p PacketBuffer \<times> mem) \<times> ('p, 'c, 'u) call list" where
  "PacketBuffer_input_handler_done o1 m in_len =
     (let was_empty = (cb_output_avail (pb_buf o1) < 0)
      in case ChunkBuffer2_SubmitPacket (pb_buf o1) m in_len of (buf, m1) \<Rightarrow>
        ((o1\<lparr>pb_buf := buf\<rparr>, m1),
         [Assert (0 \<le> in_len), Assert (in_len \<le> pb_input_mtu o1)] @
         (if cb_input_avail buf \<ge> pb_input_mtu o1 then [PR_Recv (pb_input o1) (cb_input_dest buf)]
          else []) @
         (if was_empty then [PP_Send (pb_output o1) (cb_output_dest buf) (cb_output_avail buf)]
          else [])))"

definition PacketBuffer_output_handler_done ::
    "'p PacketBuffer \<Rightarrow> mem \<Rightarrow> 'p PacketBuffer \<times> ('p, 'c, 'u) call list" where
  "PacketBuffer_output_handler_done o1 m =
     (let was_full = (cb_input_avail (pb_buf o1) < pb_input_mtu o1);
          buf = ChunkBuffer2_ConsumePacket (pb_buf o1) m
      in (o1\<lparr>pb_buf := buf\<rparr>,
          (if was_full \<and> cb_input_avail buf \<ge> pb_input_mtu o1
           then [PR_Recv (pb_input o1) (cb_input_dest buf)] else []) @
          (if cb_output_avail buf \<ge> 0
           then [PP_Send (pb_output o1) (cb_output_dest buf) (cb_output_avail buf)] else [])))"

text \<open>\<open>alloc\<close> is \<open>BAllocArray\<close> on the number of blocks; the result 0 of the code is \<open>None\<close>.\<close>

definition PacketBuffer_Init ::
    "'p \<Rightarrow> 'p \<Rightarrow> int \<Rightarrow> int \<Rightarrow> (int \<Rightarrow> ptr option) \<Rightarrow> mem \<Rightarrow>
     'p PacketBuffer option \<times> ('p, 'c, 'u) call list" where
  "PacketBuffer_Init inp out mtu_in num_packets alloc m =
     (let cs = [Assert_MTU_ge out mtu_in, Assert (0 < num_packets), PR_Receiver_Init inp,
                PP_Sender_Init out];
          num_blocks = ChunkBuffer2_calc_blocks mtu_in num_packets
      in if num_blocks < 0 then (None, cs)
         else case alloc num_blocks of
             None \<Rightarrow> (None, cs)
           | Some data \<Rightarrow>
               let buf = ChunkBuffer2_Init data num_blocks mtu_in m
               in (Some \<lparr>pb_input = inp, pb_input_mtu = mtu_in, pb_output = out, pb_buf = buf\<rparr>,
                   cs @ [PR_Recv inp (cb_input_dest buf)]))"

definition pb_component :: "(port PacketBuffer \<times> mem, port, unit, unit, mem) component" where
  "pb_component = \<lparr>
     provides = (\<lambda>p. False),
     on_operation = (\<lambda>p d l s. no_calls s),
     on_requestcancel = (\<lambda>p s. no_calls s),
     on_done = (\<lambda>p l (s, m).
        if p = In then PacketBuffer_input_handler_done s m l
        else case PacketBuffer_output_handler_done s m of (s', cs) \<Rightarrow> ((s', m), cs)),
     on_job = (\<lambda>c s. no_calls s),
     on_timer = (\<lambda>c s. no_calls s),
     on_api = (\<lambda>m' (s, m). no_calls (s, m')),
     api_ok = (\<lambda>m' (s, m) n.
        \<forall>a \<in> {cb_buffer (pb_buf s)..<block_adr (cb_buffer (pb_buf s)) (cb_size (pb_buf s))}.
        \<not> (state (ifs n In) \<noteq> IF_NONE \<and> op_data (ifs n In) \<le> a \<and>
           int a < int (op_data (ifs n In)) + mtu (ifs n In)) \<longrightarrow> m a = m' a)\<rparr>"

text \<open>The packets \<open>Q\<close> the buffer holds, and what follows for the interfaces.\<close>

definition pb_holds :: "int \<Rightarrow> port PacketBuffer \<times> mem \<Rightarrow> bytes list \<Rightarrow> bool" where
  "pb_holds num sm Q \<longleftrightarrow> (case sm of (s, m) \<Rightarrow>
     cb_inv (pb_buf s) m Q \<and> 0 \<le> pb_input_mtu s \<and>
     cb_mtu (pb_buf s) = bdivide_up (pb_input_mtu s) 4 \<and>
     cb_size (pb_buf s) = (1 + cb_mtu (pb_buf s)) * (num + 1) \<and>
     (\<forall>p \<in> set Q. int (length p) \<le> pb_input_mtu s))"

definition pb_ports :: "port PacketBuffer \<times> mem \<Rightarrow> (port, unit) net \<Rightarrow> bool" where
  "pb_ports sm n \<longleftrightarrow> (case sm of (s, m) \<Rightarrow>
     pb_input s = In \<and> pb_output s = Out \<and> pb_input_mtu s = mtu (ifs n In) \<and>
     if_kind (ifs n In) = PacketRecv \<and> if_kind (ifs n Out) = PacketPass \<and>
     has_user (ifs n In) \<and> has_user (ifs n Out) \<and> mtu (ifs n In) \<le> mtu (ifs n Out))"

definition pb_busy :: "port PacketBuffer \<times> mem \<Rightarrow> (port, unit) net \<Rightarrow> bool" where
  "pb_busy sm n \<longleftrightarrow> (case sm of (s, m) \<Rightarrow>
     (state (ifs n In) \<noteq> IF_NONE \<longleftrightarrow> pb_input_mtu s \<le> cb_input_avail (pb_buf s)) \<and>
     (state (ifs n In) \<noteq> IF_NONE \<longrightarrow> op_data (ifs n In) = cb_input_dest (pb_buf s)) \<and>
     (state (ifs n Out) \<noteq> IF_NONE \<longleftrightarrow> 0 \<le> cb_output_avail (pb_buf s)) \<and>
     (state (ifs n Out) \<noteq> IF_NONE \<longrightarrow> op_data (ifs n Out) = cb_output_dest (pb_buf s) \<and>
        op_len (ifs n Out) = cb_output_avail (pb_buf s)))"

definition pb_inv :: "int \<Rightarrow> port PacketBuffer \<times> mem \<Rightarrow> (port, unit) net \<Rightarrow> bool" where
  "pb_inv num sm n \<longleftrightarrow> (\<exists>Q. pb_holds num sm Q) \<and> pb_ports sm n \<and> pb_busy sm n"

lemma input_dest_pos: "cb_inv buf m Q \<Longrightarrow> 0 \<le> cb_input_avail buf \<Longrightarrow> 0 < cb_input_dest buf"
proof -
  assume "cb_inv buf m Q" and avail: "0 \<le> cb_input_avail buf"
  then obtain A B where sh: "cb_shape buf A B" and inp: "input_ok buf" by (auto simp: cb_inv_def)
  from inp avail have "cb_input_dest buf = block_adr (cb_buffer buf) (ChunkBuffer2_end buf + 1)"
    by (auto simp: input_ok_def split: if_splits)
  with shape_room(2) [OF sh] show ?thesis by (simp add: block_adr_def)
qed

lemma output_dest_pos: "cb_inv buf m Q \<Longrightarrow> 0 \<le> cb_output_avail buf \<Longrightarrow> 0 < cb_output_dest buf"
proof -
  assume "cb_inv buf m Q" and avail: "0 \<le> cb_output_avail buf"
  then obtain A B where "cb_shape buf A B" "output_ok buf A" by (auto simp: cb_inv_def)
  with avail show ?thesis
    by (cases A) (auto simp: output_ok_def cb_shape_def block_adr_def)
qed

text \<open>A delivered packet of \<open>l\<close> bytes joins the queue at the back, a sent one leaves the front.\<close>

lemma received_holds:
  assumes "pb_holds num (s, m) Q" and "0 \<le> l" and "l \<le> pb_input_mtu s"
    and "pb_input_mtu s \<le> cb_input_avail (pb_buf s)"
  shows "pb_holds num (fst (PacketBuffer_input_handler_done s m l))
    (Q @ [mread m (cb_input_dest (pb_buf s)) (nat l)])"
proof -
  obtain buf' m' where sub: "ChunkBuffer2_SubmitPacket (pb_buf s) m l = (buf', m')" by fastforce
  from assms have "cb_inv (pb_buf s) m Q" "l \<le> cb_input_avail (pb_buf s)"
    by (auto simp: pb_holds_def)
  from Submit_inv [OF this(1) assms(2) this(2) sub] submit_keeps [OF sub] assms sub show ?thesis
    by (auto simp: pb_holds_def PacketBuffer_input_handler_done_def Let_def)
qed

lemma sent_holds:
  "pb_holds num (s, m) (p # Q) \<Longrightarrow>
   pb_holds num (fst (PacketBuffer_output_handler_done s m :: _ \<times> (port, 'c, 'u) call list), m) Q"
  using Consume_inv [of "pb_buf s" m p Q]
  by (auto simp: pb_holds_def PacketBuffer_output_handler_done_def Let_def consume_keeps)

lemmas pb_defs = pb_component_def pb_ports_def pb_busy_def handled_def op_arg_def done_arg_def args_ok_def

lemma received_handled:
  assumes "pb_holds num (s, m) Q" and "pb_ports (s, m) n" and "pb_busy (s, m) n" and "net_ok n"
    and st: "state (ifs n In) = IF_DONE_PENDING"
  shows "handled (pb_inv num) (PacketBuffer_input_handler_done s m (done_len (ifs n In)) ::
      _ \<times> (port, unit, unit) call list) (go_none In n)"
proof -
  let ?l = "done_len (ifs n In)"
  obtain buf' m' where sub: "ChunkBuffer2_SubmitPacket (pb_buf s) m ?l = (buf', m')" by fastforce
  have l: "0 \<le> ?l" "?l \<le> pb_input_mtu s" and room: "pb_input_mtu s \<le> cb_input_avail (pb_buf s)"
    using net_ok_args [OF assms(4), of In] st assms(2,3) by (auto simp: args_ok_def pb_ports_def pb_busy_def)
  have new: "pb_holds num (s\<lparr>pb_buf := buf'\<rparr>, m') (Q @ [mread m (cb_input_dest (pb_buf s)) (nat ?l)])"
    using received_holds [OF assms(1) l room] sub
    by (simp add: PacketBuffer_input_handler_done_def Let_def)
  then have inv': "cb_inv buf' m' (Q @ [mread m (cb_input_dest (pb_buf s)) (nat ?l)])"
    and mtus: "\<forall>p \<in> set (Q @ [mread m (cb_input_dest (pb_buf s)) (nat ?l)]).
      int (length p) \<le> pb_input_mtu s" and nonneg: "0 \<le> pb_input_mtu s"
    by (auto simp: pb_holds_def)
  have inv: "cb_inv (pb_buf s) m Q" using assms(1) by (simp add: pb_holds_def)
  have same: "Q \<noteq> [] \<Longrightarrow> cb_output_dest buf' = cb_output_dest (pb_buf s) \<and>
      cb_output_avail buf' = cb_output_avail (pb_buf s)"
    using submit_output [OF inv _ l(1) sub] by simp
  have empty: "cb_output_avail (pb_buf s) < 0 \<longleftrightarrow> Q = []"
    using output_head [OF inv] by (cases Q) auto
  have head: "0 \<le> cb_output_avail buf'" "cb_output_avail buf' \<le> pb_input_mtu s"
    using output_head [OF inv'] mtus by (cases Q; auto)+
  from inv' input_dest_pos [OF inv'] output_dest_pos [OF inv' head(1)] new head same empty
    assms(2,3) st sub l nonneg show ?thesis
    by (cases "Q = []") (auto simp: pb_defs pb_inv_def PacketBuffer_input_handler_done_def Let_def
        interface_defs)
qed

lemma sent_handled:
  assumes "pb_holds num (s, m) Q" and "pb_ports (s, m) n" and "pb_busy (s, m) n" and "net_ok n"
    and st: "state (ifs n Out) = IF_DONE_PENDING"
  shows "handled (pb_inv num) (case PacketBuffer_output_handler_done s m of
      (s', cs :: (port, unit, unit) call list) \<Rightarrow> ((s', m), cs)) (go_none Out n)"
proof -
  let ?b = "ChunkBuffer2_ConsumePacket (pb_buf s) m"
  have inv: "cb_inv (pb_buf s) m Q" using assms(1) by (simp add: pb_holds_def)
  have "0 \<le> cb_output_avail (pb_buf s)" using st assms(3) by (auto simp: pb_busy_def)
  then obtain p Q' where Q: "Q = p # Q'" using output_head [OF inv] by (cases Q) auto
  note inv' = Consume_inv [OF inv [unfolded Q]] and inp = consume_input [OF inv [unfolded Q]]
  have new: "pb_holds num (s\<lparr>pb_buf := ?b\<rparr>, m) Q'"
    using sent_holds [of num s m p Q'] assms(1) Q
    by (simp add: PacketBuffer_output_handler_done_def Let_def)
  then have head: "0 \<le> cb_output_avail ?b \<Longrightarrow> cb_output_avail ?b \<le> pb_input_mtu s"
    and nonneg: "0 \<le> pb_input_mtu s"
    using output_head [OF inv'] by (cases Q'; auto simp: pb_holds_def)+
  from input_dest_pos [OF inv'] output_dest_pos [OF inv'] inp new head nonneg assms(2,3) st
  show ?thesis
    by (auto simp: pb_defs pb_inv_def PacketBuffer_output_handler_done_def Let_def interface_defs)
qed

interpretation pb: flow_contract pb_component "pb_inv num" for num
proof (unfold_locales, goal_cases)
  case (2 s n p)
  then show ?case by (cases p) (auto simp: pb_inv_def pb_defs)
next
  case (4 s n p)
  then show ?case by (simp add: pb_inv_def pb_ports_def pb_busy_def)
next
  case (5 s n p)
  then show ?case
    using received_handled [of num "fst s" "snd s" _ n] sent_handled [of num "fst s" "snd s" _ n]
    by (cases s; cases p) (auto simp: pb_inv_def pb_component_def done_arg_def pb_ports_def)
next
  case (7 s n c)
  then show ?case by (simp add: handled_def pb_component_def pb_inv_def pb_ports_def pb_busy_def)
next
  case (8 s n c)
  then show ?case by (simp add: handled_def pb_component_def pb_inv_def pb_ports_def pb_busy_def)
next
  case (9 s n k)
  then show ?case
    by (cases k) (auto simp: pb_inv_def pb_component_def pb_ports_def pb_busy_def interface_defs
        split: prod.splits)
next
  case (10 s n m')
  obtain b m where s: "s = (b, m)" by (cases s)
  with 10 obtain Q where Q: "pb_holds num (b, m) Q" by (auto simp: pb_inv_def)
  have "cb_inv (pb_buf b) m' Q"
  proof (rule inv_mem_cong)
    show "cb_inv (pb_buf b) m Q" using Q by (simp add: pb_holds_def)
  next
    fix a
    assume "cb_buffer (pb_buf b) \<le> a" "a < block_adr (cb_buffer (pb_buf b)) (cb_size (pb_buf b))"
      "\<not> (cb_input_dest (pb_buf b) \<le> a \<and>
         int a < int (cb_input_dest (pb_buf b)) + cb_input_avail (pb_buf b))"
    with 10 s show "m a = m' a"
      by (auto simp: pb_component_def pb_inv_def pb_ports_def pb_busy_def)
  qed
  with Q have "pb_holds num (b, m') Q" by (simp add: pb_holds_def)
  with 10 s show ?case
    by (auto simp: finish_def pb_component_def pb_inv_def pb_ports_def pb_busy_def)
qed (auto simp: pb_component_def)

section \<open>Properties\<close>

definition pb_start ::
    "int \<Rightarrow> int \<Rightarrow> int \<Rightarrow> (int \<Rightarrow> ptr option) \<Rightarrow> mem \<Rightarrow>
     ((port PacketBuffer \<times> mem) \<times> (port, unit) net) option" where
  "pb_start m m' num alloc st =
     (case PacketBuffer_Init In Out m num alloc st of
        (None, cs) \<Rightarrow> None
      | (Some s, cs :: (port, unit, unit) call list) \<Rightarrow>
          Some ((s, st), started ([PR_Init In m, PP_Init Out m'] @ cs)))"

lemma pb_start_inv:
  assumes "pb_start m m' num alloc st = Some x" and "0 \<le> m" and "m \<le> m'" and "m \<le> INT_MAX"
    and "0 < num" and "ChunkBuffer2_calc_blocks m num \<le> 2 ^ 29"
  shows "case_prod (pb_inv num) x" and "net_ok (snd x)" and "pb_holds num (fst x) []"
proof -
  let ?n = "ChunkBuffer2_calc_blocks m num"
  obtain data where blocks: "0 \<le> ?n"
    and x: "x = ((\<lparr>pb_input = In, pb_input_mtu = m, pb_output = Out,
        pb_buf = ChunkBuffer2_Init data ?n m st\<rparr>, st),
      started ([PR_Init In m, PP_Init Out m', Assert_MTU_ge Out m, Assert (0 < num), PR_Receiver_Init In,
        PP_Sender_Init Out,
        PR_Recv In (cb_input_dest (ChunkBuffer2_Init data ?n m st)) :: (port, unit, unit) call]))"
    using assms(1)
    by (auto simp: pb_start_def PacketBuffer_Init_def Let_def split: if_splits option.splits)
  let ?b = "ChunkBuffer2_Init data ?n m st"
  have size: "?n = (1 + bdivide_up m 4) * (num + 1)"
    using calc_blocks(1) [OF assms(2,4)] assms(5) blocks by auto
  have c: "0 \<le> bdivide_up m 4" by (rule bdivide_up_4_nonneg [OF assms(2)])
  then have "(1 + bdivide_up m 4) * 1 \<le> ?n"
    unfolding size using assms(5) by (intro mult_left_mono) auto
  then have fits: "1 + bdivide_up m 4 \<le> ?n" by simp
  from Init_inv [OF assms(2) fits assms(6)] have inv: "cb_inv ?b st []" .
  have "c_int (bdivide_up m 4) = bdivide_up m 4"
    unfolding c_int_def using c fits assms(6) by (intro signed_take_bit_int_eq_self) auto
  then have init: "cb_size ?b = ?n" "cb_mtu ?b = bdivide_up m 4"
    by (simp_all add: ChunkBuffer2_Init_def ChunkBuffer2_update_output_def)
  then show holds: "pb_holds num (fst x) []"
    using x inv size assms(2) by (simp add: pb_holds_def)
  have "cb_mtu ?b * 4 \<le> cb_input_avail ?b"
    by (rule capacity [OF inv]) (use init size assms(5) in auto)
  then have room: "m \<le> cb_input_avail ?b"
    using init bdivide_up_4_bounds [OF assms(2)] by simp
  have empty: "cb_output_avail ?b = -1" using output_head [OF inv] by simp
  have pos: "0 < cb_input_dest ?b" using input_dest_pos [OF inv] room assms(2) by simp
  show "net_ok (snd x)" using pos by (simp add: x started_def)
  have "pb_ports (fst x) (snd x)" "pb_busy (fst x) (snd x)"
    using pos room empty assms(2,3)
    by (auto simp: x started_def pb_ports_def pb_busy_def PacketRecvInterface_Receiver_Recv_def)
  with holds show "case_prod (pb_inv num) x" by (auto simp: pb_inv_def case_prod_unfold)
qed

lemma sent_leaves:
  assumes "pb_holds num (s, st') Q" "pb_ports (s, st') n" "pb_busy (s, st') n" "net_ok n" "state (ifs n Out) \<noteq> IF_NONE \<longleftrightarrow> Q \<noteq> []"
    "JobDone Out \<in> set (jobs (grp n))"
  shows "\<exists>y n'. run_job pb_component (JobDone Out) ((s, st'), n) = Some (y, n') \<and> pb_holds num y (tl Q)"
proof -
  note st = pending_state(2) [OF assms(4,6)]
  with assms(5) obtain p Q' where "Q = p # Q'" by (cases Q) auto
  with assms(1) sent_holds [of num s st' p Q'] have
    "pb_holds num (fst (PacketBuffer_output_handler_done s st' :: _ \<times> (port, unit, unit) call list), st') (tl Q)" by simp
  then show ?thesis
    using sent_handled [OF assms(1-4) st] assms(2,4,6)
    by (auto simp: run_job_simps pb_component_def handled_def finish_def pb_ports_def done_arg_def
        split: option.splits prod.splits)
qed

text \<open>C31: a \<open>PacketBuffer\<close> of \<open>num\<close> packets is a queue between its interfaces.  In every
  reachable state no assertion has failed; it holds some packets \<open>Q\<close> and, when \<open>Q\<close> is not
  empty, is sending the oldest; it is receiving whenever it holds fewer than \<open>num\<close> packets, so
  it is never idle on both sides; a received packet joins \<open>Q\<close> at the back with the bytes that
  were written for it, and a completed send removes the front.\<close>

theorem packet_buffer_is_a_bounded_queue:
  assumes "pb_start m m' num alloc st = Some x" and "0 \<le> m" and "m \<le> m'" and "m \<le> INT_MAX"
    and "0 < num" and "ChunkBuffer2_calc_blocks m num \<le> 2 ^ 29"
    and "reach_from pb_component x r"
  shows "\<exists>s st' n Q. r = Some ((s, st'), n) \<and> pb_holds num (s, st') Q \<and>
    (state (ifs n Out) \<noteq> IF_NONE \<longleftrightarrow> Q \<noteq> []) \<and>
    (Q \<noteq> [] \<longrightarrow> mread st' (op_data (ifs n Out)) (nat (op_len (ifs n Out))) = hd Q) \<and>
    (int (length Q) < num \<longrightarrow> state (ifs n In) \<noteq> IF_NONE) \<and>
    (JobDone In \<in> set (jobs (grp n)) \<longrightarrow> (\<exists>y n'. run_job pb_component (JobDone In) ((s, st'), n) = Some (y, n') \<and>
       pb_holds num y (Q @ [mread st' (op_data (ifs n In)) (nat (done_len (ifs n In)))]))) \<and>
    (JobDone Out \<in> set (jobs (grp n)) \<longrightarrow> (\<exists>y n'. run_job pb_component (JobDone Out) ((s, st'), n) = Some (y, n') \<and>
       pb_holds num y (tl Q)))"
proof -
  from pb.reached [OF assms(7) pb_start_inv(1,2) [OF assms(1-6)]] obtain s st' n
    where r: "r = Some ((s, st'), n)" and inv: "pb_inv num (s, st') n" and ok: "net_ok n" by auto
  then obtain Q where Q: "pb_holds num (s, st') Q" and ports: "pb_ports (s, st') n"
    and busy: "pb_busy (s, st') n" by (auto simp: pb_inv_def)
  from Q have cb: "cb_inv (pb_buf s) st' Q" by (simp add: pb_holds_def)
  have out: "state (ifs n Out) \<noteq> IF_NONE \<longleftrightarrow> Q \<noteq> []"
    "Q \<noteq> [] \<longrightarrow> mread st' (op_data (ifs n Out)) (nat (op_len (ifs n Out))) = hd Q"
    using output_head [OF cb] busy by (cases Q; auto simp: pb_busy_def)+
  have recv: "int (length Q) < num \<longrightarrow> state (ifs n In) \<noteq> IF_NONE"
  proof
    assume "int (length Q) < num"
    then have "cb_mtu (pb_buf s) * 4 \<le> cb_input_avail (pb_buf s)"
      by (intro capacity [OF cb]) (use Q in \<open>auto simp: pb_holds_def blk_le\<close>)
    with Q bdivide_up_4_bounds [of "pb_input_mtu s"] busy show "state (ifs n In) \<noteq> IF_NONE"
      by (auto simp: pb_holds_def pb_busy_def)
  qed
  have ins: "\<exists>y n'. run_job pb_component (JobDone In) ((s, st'), n) = Some (y, n') \<and>
       pb_holds num y (Q @ [mread st' (op_data (ifs n In)) (nat (done_len (ifs n In)))])"
    if j: "JobDone In \<in> set (jobs (grp n))"
  proof -
    note st = pending_state(2) [OF ok j]
    have "pb_holds num (fst (PacketBuffer_input_handler_done s st' (done_len (ifs n In)) ::
        _ \<times> (port, unit, unit) call list))
        (Q @ [mread st' (op_data (ifs n In)) (nat (done_len (ifs n In)))])"
      using received_holds [OF Q, of "done_len (ifs n In)"] st net_ok_args [OF ok, of In] ports busy
      by (auto simp: args_ok_def pb_ports_def pb_busy_def)
    then show ?thesis
      using received_handled [OF Q ports busy ok st] ports j ok
      by (auto simp: run_job_simps pb_component_def handled_def finish_def pb_ports_def done_arg_def
          split: option.splits)
  qed
  note outs = sent_leaves [OF Q ports busy ok out(1)]
  show ?thesis using r Q out recv ins outs by blast
qed

theorem packet_buffer_is_a_bounded_queue_witness:
  "\<exists>x s st' n Q. pb_start 8 20 2 (\<lambda>_. Some 4) (\<lambda>a. of_nat a) = Some x \<and>
     run_moves pb_component [RunJob (JobOperation In), Env (PR_Done In 3), RunJob (JobDone In)] x =
       Some ((s, st'), n) \<and> pb_holds 2 (s, st') Q \<and> Q \<noteq> [] \<and>
     mread st' (op_data (ifs n Out)) (nat (op_len (ifs n Out))) = hd Q"
proof -
  let ?st = "pb_start 8 20 2 (\<lambda>_. Some 4) (\<lambda>a. of_nat a)"
  let ?vs = "[RunJob (JobOperation In), Env (PR_Done In 3), RunJob (JobDone In)]"
  have "case ?st of None \<Rightarrow> False | Some x \<Rightarrow> (case run_moves pb_component ?vs x of
      None \<Rightarrow> False | Some (y, n) \<Rightarrow> state (ifs n Out) \<noteq> IF_NONE)"
    by code_simp
  then obtain x y n where st: "?st = Some x" and run: "run_moves pb_component ?vs x = Some (y, n)"
    and *: "state (ifs n Out) \<noteq> IF_NONE"
    by (auto simp del: run_moves.simps split: option.splits)
  have "ChunkBuffer2_calc_blocks 8 2 = 9" by code_simp
  then have "ChunkBuffer2_calc_blocks 8 2 \<le> 2 ^ 29" by simp
  have m: "(8::int) \<le> INT_MAX" by (simp add: INT_MAX_def)
  from packet_buffer_is_a_bounded_queue [OF st _ _ m _ \<open>ChunkBuffer2_calc_blocks 8 2 \<le> 2 ^ 29\<close>
      run_moves_reach [OF run]]
  obtain s st' Q where "y = (s, st')" "pb_holds 2 (s, st') Q" "state (ifs n Out) \<noteq> IF_NONE \<longleftrightarrow> Q \<noteq> []"
    "Q \<noteq> [] \<longrightarrow> mread st' (op_data (ifs n Out)) (nat (op_len (ifs n Out))) = hd Q"
    by auto
  with st run * show ?thesis by blast
qed

end
