(* ===== verification/Packet_Proto.thy ===== *)
theory Packet_Proto
  imports Flow_Contract
begin

text \<open>
  PacketProto, packets over a stream: \<open>flow/PacketProtoEncoder.c\<close>, \<open>flow/PacketProtoDecoder.c\<close>
  and \<open>protocol/packetproto.h\<close>.  A packet is its 16-bit little-endian length followed by its
  bytes.  Both components carry the byte store in their state.  The decoder is shown to
  refine the parser of a byte list, \<open>parse_packet\<close>, for every way the stream is cut.
\<close>

section \<open>The format\<close>

definition packetproto_header_size :: nat where "packetproto_header_size = 2"

definition PACKETPROTO_ENCLEN :: "int \<Rightarrow> int" where
  "PACKETPROTO_ENCLEN len = int packetproto_header_size + len"

definition PACKETPROTO_MAXPAYLOAD :: int where "PACKETPROTO_MAXPAYLOAD = UINT16_MAX"

lemma enclen [simp]: "PACKETPROTO_ENCLEN len = 2 + len"
  by (simp add: PACKETPROTO_ENCLEN_def packetproto_header_size_def)

section \<open>PacketProtoEncoder\<close>

record 'p PacketProtoEncoder =
  ppe_input :: 'p
  ppe_output :: 'p
  ppe_output_packet :: ptr

definition PacketProtoEncoder_output_handler_recv ::
    "'p PacketProtoEncoder \<Rightarrow> ptr \<Rightarrow> 'p PacketProtoEncoder \<times> ('p, 'c, 'u) call list" where
  "PacketProtoEncoder_output_handler_recv enc data =
     (enc\<lparr>ppe_output_packet := data\<rparr>,
      [Assert (ppe_output_packet enc = 0), Assert (data \<noteq> 0),
       PR_Recv (ppe_input enc) (data + packetproto_header_size)])"

definition PacketProtoEncoder_input_handler_done ::
    "'p PacketProtoEncoder \<Rightarrow> mem \<Rightarrow> int \<Rightarrow> ('p PacketProtoEncoder \<times> mem) \<times> ('p, 'c, 'u) call list" where
  "PacketProtoEncoder_input_handler_done enc m in_len =
     ((enc\<lparr>ppe_output_packet := 0\<rparr>, mwrite m (ppe_output_packet enc) (le16_bytes (word_of_int in_len))),
      [Assert (ppe_output_packet enc \<noteq> 0), PR_Done (ppe_output enc) (PACKETPROTO_ENCLEN in_len)])"

definition PacketProtoEncoder_Init ::
    "'p \<Rightarrow> 'p \<Rightarrow> int \<Rightarrow> 'p PacketProtoEncoder \<times> ('p, 'c, 'u) call list" where
  "PacketProtoEncoder_Init inp out mtu_in =
     (\<lparr>ppe_input = inp, ppe_output = out, ppe_output_packet = 0\<rparr>,
      [Assert_MTU_le inp PACKETPROTO_MAXPAYLOAD, PR_Receiver_Init inp,
       PR_Init out (PACKETPROTO_ENCLEN mtu_in)])"

definition PacketProtoEncoder_Free :: "'p PacketProtoEncoder \<Rightarrow> ('p, 'c, 'u) call list" where
  "PacketProtoEncoder_Free enc = [PR_Free (ppe_output enc)]"

definition PacketProtoEncoder_GetOutput :: "'p PacketProtoEncoder \<Rightarrow> 'p" where
  "PacketProtoEncoder_GetOutput enc = ppe_output enc"

text \<open>The environment may write the whole memory (\<open>on_api\<close>).\<close>

definition ppe_component :: "(port PacketProtoEncoder \<times> mem, port, unit, unit, mem) component" where
  "ppe_component = \<lparr>
     provides = (\<lambda>p. p = Out),
     on_operation = (\<lambda>p d l (s, m).
        case PacketProtoEncoder_output_handler_recv s d of (s', cs) \<Rightarrow> ((s', m), cs)),
     on_requestcancel = (\<lambda>p s. no_calls s),
     on_done = (\<lambda>p l (s, m). PacketProtoEncoder_input_handler_done s m l),
     on_job = (\<lambda>c s. no_calls s),
     on_timer = (\<lambda>c s. no_calls s),
     on_api = (\<lambda>m' (s, m). no_calls (s, m')),
     api_ok = (\<lambda>_ _ _. True)\<rparr>"

definition ppe_inv :: "port PacketProtoEncoder \<times> mem \<Rightarrow> (port, unit) net \<Rightarrow> bool" where
  "ppe_inv sm n \<longleftrightarrow> (case sm of (s, m) \<Rightarrow>
     ppe_input s = In \<and> ppe_output s = Out \<and>
     if_kind (ifs n In) = PacketRecv \<and> if_kind (ifs n Out) = PacketRecv \<and>
     has_user (ifs n In) \<and> has_user (ifs n Out) \<and> 0 \<le> mtu (ifs n In) \<and>
     mtu (ifs n In) \<le> PACKETPROTO_MAXPAYLOAD \<and>
     mtu (ifs n Out) = 2 + mtu (ifs n In) \<and>
     (state (ifs n Out) = IF_BUSY \<longleftrightarrow> state (ifs n In) \<noteq> IF_NONE) \<and>
     (ppe_output_packet s \<noteq> 0 \<longleftrightarrow> state (ifs n Out) = IF_BUSY) \<and>
     (state (ifs n Out) = IF_BUSY \<longrightarrow> ppe_output_packet s = op_data (ifs n Out) \<and>
        op_data (ifs n In) = op_data (ifs n Out) + 2))"

lemmas ppe_defs = ppe_component_def ppe_inv_def handled_def op_arg_def done_arg_def args_ok_def
  PacketProtoEncoder_output_handler_recv_def PacketProtoEncoder_input_handler_done_def
  packetproto_header_size_def

interpretation ppe: flow_contract ppe_component ppe_inv
proof (unfold_locales, goal_cases)
  case (1 s n p)
  with net_ok_args [of n Out] show ?case
    by (cases s; cases p) (auto simp: ppe_defs interface_defs)
next
  case (2 s n p)
  then show ?case by (cases p) (auto simp: ppe_defs)
next
  case (5 s n p)
  with net_ok_args [of n In] show ?case by (cases s; cases p) (auto simp: ppe_defs interface_defs)
next
  case (6 s n p)
  then show ?case by (cases p) (auto simp: ppe_defs)
next
  case (9 s n k)
  then show ?case by (cases k) (auto simp: ppe_defs interface_defs Let_def)
next
  case (10 s n e)
  then show ?case by (cases s) (auto simp: ppe_defs finish_def)
qed (auto simp: ppe_defs)

section \<open>PacketProtoDecoder\<close>

record 'p PacketProtoDecoder =
  ppd_input :: 'p
  ppd_output :: 'p
  ppd_output_mtu :: int
  ppd_buf_size :: int
  ppd_buf_start :: int
  ppd_buf_used :: int
  ppd_buf :: ptr

datatype proto_error = ProtoError

definition PacketProtoDecoder_recv ::
    "'p PacketProtoDecoder \<Rightarrow> ('p, 'c, 'u) call" where
  "PacketProtoDecoder_recv enc =
     SR_Recv (ppd_input enc) (ppd_buf enc + nat (ppd_buf_start enc + ppd_buf_used enc))
       (ppd_buf_size enc - (ppd_buf_start enc + ppd_buf_used enc))"

definition PacketProtoDecoder_process_data ::
    "'p PacketProtoDecoder \<Rightarrow> mem \<Rightarrow>
     ('p PacketProtoDecoder \<times> mem) \<times> ('p, 'c, proto_error) call list" where
  "PacketProtoDecoder_process_data enc m =
     (let data = ppd_buf enc + nat (ppd_buf_start enc);
          left = ppd_buf_used enc;
          data_len = uint (le16_of (mread m data packetproto_header_size));
          wait = (let (enc1, m1) =
                    (if ppd_buf_start enc + ppd_buf_used enc = ppd_buf_size enc
                     then (enc\<lparr>ppd_buf_start := 0\<rparr>,
                           memcpy m (ppd_buf enc) data (nat (ppd_buf_used enc)))
                     else (enc, m))
                  in ((enc1, m1), [PacketProtoDecoder_recv enc1]));
          err = (let enc1 = enc\<lparr>ppd_buf_start := 0, ppd_buf_used := 0\<rparr>
                 in ((enc1, m), [PacketProtoDecoder_recv enc1, UserCall ProtoError]))
      in if left < int packetproto_header_size then wait
         else if data_len > ppd_output_mtu enc then err
         else if left - int packetproto_header_size < data_len then wait
         else ((enc\<lparr>ppd_buf_start := ppd_buf_start enc + (int packetproto_header_size + data_len),
                    ppd_buf_used := ppd_buf_used enc - (int packetproto_header_size + data_len)\<rparr>, m),
               [PP_Send (ppd_output enc) (data + packetproto_header_size) data_len]))"

definition PacketProtoDecoder_input_handler_done ::
    "'p PacketProtoDecoder \<Rightarrow> mem \<Rightarrow> int \<Rightarrow>
     ('p PacketProtoDecoder \<times> mem) \<times> ('p, 'c, proto_error) call list" where
  "PacketProtoDecoder_input_handler_done enc m data_len =
     (case PacketProtoDecoder_process_data (enc\<lparr>ppd_buf_used := ppd_buf_used enc + data_len\<rparr>) m of
        (r, cs) \<Rightarrow> (r, [Assert (0 < data_len),
          Assert (data_len \<le> ppd_buf_size enc - (ppd_buf_start enc + ppd_buf_used enc))] @ cs))"

definition PacketProtoDecoder_output_handler_done ::
    "'p PacketProtoDecoder \<Rightarrow> mem \<Rightarrow>
     ('p PacketProtoDecoder \<times> mem) \<times> ('p, 'c, proto_error) call list" where
  "PacketProtoDecoder_output_handler_done enc m = PacketProtoDecoder_process_data enc m"

definition PacketProtoDecoder_Init ::
    "'p \<Rightarrow> 'p \<Rightarrow> int \<Rightarrow> (int \<Rightarrow> ptr option) \<Rightarrow>
     'p PacketProtoDecoder option \<times> ('p, 'c, 'u) call list" where
  "PacketProtoDecoder_Init inp out mtu_out alloc =
     (let cs = [SR_Receiver_Init inp, PP_Sender_Init out];
          output_mtu = bmin_int mtu_out PACKETPROTO_MAXPAYLOAD;
          buf_size = PACKETPROTO_ENCLEN output_mtu
      in case alloc buf_size of
           None \<Rightarrow> (None, cs)
         | Some b \<Rightarrow>
             (Some \<lparr>ppd_input = inp, ppd_output = out, ppd_output_mtu = output_mtu,
               ppd_buf_size = buf_size, ppd_buf_start = 0, ppd_buf_used = 0, ppd_buf = b\<rparr>,
              cs @ [SR_Recv inp b buf_size]))"

definition PacketProtoDecoder_Reset :: "'p PacketProtoDecoder \<Rightarrow> 'p PacketProtoDecoder" where
  "PacketProtoDecoder_Reset enc =
     enc\<lparr>ppd_buf_start := ppd_buf_start enc + ppd_buf_used enc, ppd_buf_used := 0\<rparr>"

section \<open>The decoder refines a parser\<close>

datatype parse = NeedMore | TooLarge | Packet bytes bytes

definition parse_packet :: "int \<Rightarrow> bytes \<Rightarrow> parse" where
  "parse_packet lim u =
     (if length u < 2 then NeedMore
      else let l = uint (le16_of u)
           in if l > lim then TooLarge
              else if int (length u) - 2 < l then NeedMore
              else Packet (take (nat l) (drop 2 u)) (drop (2 + nat l) u))"

definition encode_packet :: "bytes \<Rightarrow> bytes" where
  "encode_packet p = le16_bytes (word_of_nat (length p)) @ p"

definition ppd_content :: "'p PacketProtoDecoder \<Rightarrow> mem \<Rightarrow> bytes" where
  "ppd_content enc m = mread m (ppd_buf enc + nat (ppd_buf_start enc)) (nat (ppd_buf_used enc))"

definition ppd_wf :: "'p PacketProtoDecoder \<Rightarrow> bool" where
  "ppd_wf enc \<longleftrightarrow> 0 \<le> ppd_output_mtu enc \<and> ppd_output_mtu enc \<le> PACKETPROTO_MAXPAYLOAD \<and>
     ppd_buf_size enc = 2 + ppd_output_mtu enc \<and> 0 \<le> ppd_buf_start enc \<and> 0 \<le> ppd_buf_used enc \<and>
     ppd_buf_start enc + ppd_buf_used enc \<le> ppd_buf_size enc \<and> ppd_buf enc \<noteq> 0"

definition ppd_same :: "'p PacketProtoDecoder \<Rightarrow> 'p PacketProtoDecoder \<Rightarrow> bool" where
  "ppd_same e f \<longleftrightarrow> ppd_input e = ppd_input f \<and> ppd_output e = ppd_output f \<and>
     ppd_output_mtu e = ppd_output_mtu f \<and> ppd_buf e = ppd_buf f \<and> ppd_buf_size e = ppd_buf_size f"

lemma parse_content:
  assumes "0 \<le> ppd_buf_used enc"
  shows "parse_packet lim (ppd_content enc m) =
     (let d = ppd_buf enc + nat (ppd_buf_start enc); l = uint (le16_of (mread m d 2))
      in if ppd_buf_used enc < 2 then NeedMore
         else if l > lim then TooLarge
         else if ppd_buf_used enc - 2 < l then NeedMore
         else Packet (mread m (d + 2) (nat l))
           (mread m (d + 2 + nat l) (nat (ppd_buf_used enc - 2 - l))))"
proof -
  let ?d = "ppd_buf enc + nat (ppd_buf_start enc)" and ?u = "ppd_buf_used enc"
  let ?l = "uint (le16_of (mread m ?d 2))"
  show ?thesis
  proof (cases "?u < 2")
    case True
    then show ?thesis using assms by (simp add: parse_packet_def ppd_content_def Let_def nat_less_iff)
  next
    case False
    then have le: "le16_of (mread m ?d (nat ?u)) = le16_of (mread m ?d 2)"
      by (simp add: le16_of_def)
    obtain U L where U: "?u = int U" and L: "?l = int L"
      using assms by (metis nonneg_int_cases uint_ge_0)
    have take: "take (nat ?l) (drop 2 (mread m ?d (nat ?u))) = mread m (?d + 2) (nat ?l)"
      and drop: "drop (2 + nat ?l) (mread m ?d (nat ?u)) =
        mread m (?d + 2 + nat ?l) (nat (?u - 2 - ?l))" if "\<not> ?u - 2 < ?l"
    proof -
      from that U L have "2 + L \<le> U" and "L \<le> U - 2" by simp_all
      moreover from this have "nat (?u - 2 - ?l) = U - 2 - L" unfolding U L by simp
      ultimately show "take (nat ?l) (drop 2 (mread m ?d (nat ?u))) = mread m (?d + 2) (nat ?l)"
        and "drop (2 + nat ?l) (mread m ?d (nat ?u)) = mread m (?d + 2 + nat ?l) (nat (?u - 2 - ?l))"
        unfolding L by (simp_all add: U take_mread drop_mread min_def add.assoc)
    qed
    from False take drop show ?thesis
      by (simp add: parse_packet_def ppd_content_def Let_def nat_less_iff le)
  qed
qed

lemma process_data_spec:
  assumes "ppd_wf enc"
  shows "case parse_packet (ppd_output_mtu enc) (ppd_content enc m) of
      NeedMore \<Rightarrow> \<exists>e m'. PacketProtoDecoder_process_data enc m =
          ((e, m'), [PacketProtoDecoder_recv e :: ('p, 'c, proto_error) call]) \<and>
        ppd_wf e \<and> ppd_same e enc \<and> ppd_content e m' = ppd_content enc m \<and>
        ppd_buf_start e + ppd_buf_used e < ppd_buf_size e
    | TooLarge \<Rightarrow> \<exists>e. PacketProtoDecoder_process_data enc m =
          ((e, m), [PacketProtoDecoder_recv e, UserCall ProtoError :: ('p, 'c, proto_error) call]) \<and>
        ppd_wf e \<and> ppd_same e enc \<and> ppd_content e m = [] \<and>
        ppd_buf_start e + ppd_buf_used e < ppd_buf_size e
    | Packet p rest \<Rightarrow> \<exists>e d. PacketProtoDecoder_process_data enc m =
          ((e, m), [PP_Send (ppd_output enc) d (int (length p)) :: ('p, 'c, proto_error) call]) \<and> d \<noteq> 0 \<and>
        ppd_wf e \<and> ppd_same e enc \<and> ppd_content e m = rest \<and>
        mread m d (length p) = p \<and> int (length p) \<le> ppd_output_mtu enc \<and>
        ppd_buf enc \<le> d \<and> int d + int (length p) \<le> int (ppd_buf enc) + ppd_buf_size enc"
proof -
  let ?d = "ppd_buf enc + nat (ppd_buf_start enc)" and ?u = "ppd_buf_used enc"
  let ?l = "uint (le16_of (mread m ?d 2))"
  note wf = assms [unfolded ppd_wf_def]
  have pd: "(PacketProtoDecoder_process_data enc m :: _ \<times> ('p, 'c, proto_error) call list) =
      (if ?u < 2 then
         (if ppd_buf_start enc + ?u = ppd_buf_size enc
          then ((enc\<lparr>ppd_buf_start := 0\<rparr>, memcpy m (ppd_buf enc) ?d (nat ?u)),
                [PacketProtoDecoder_recv (enc\<lparr>ppd_buf_start := 0\<rparr>)])
          else ((enc, m), [PacketProtoDecoder_recv enc]))
       else if ?l > ppd_output_mtu enc then
         ((enc\<lparr>ppd_buf_start := 0, ppd_buf_used := 0\<rparr>, m),
          [PacketProtoDecoder_recv (enc\<lparr>ppd_buf_start := 0, ppd_buf_used := 0\<rparr>), UserCall ProtoError])
       else if ?u - 2 < ?l then
         (if ppd_buf_start enc + ?u = ppd_buf_size enc
          then ((enc\<lparr>ppd_buf_start := 0\<rparr>, memcpy m (ppd_buf enc) ?d (nat ?u)),
                [PacketProtoDecoder_recv (enc\<lparr>ppd_buf_start := 0\<rparr>)])
          else ((enc, m), [PacketProtoDecoder_recv enc]))
       else ((enc\<lparr>ppd_buf_start := ppd_buf_start enc + (2 + ?l), ppd_buf_used := ?u - (2 + ?l)\<rparr>, m),
             [PP_Send (ppd_output enc) (?d + 2) ?l]))"
    by (simp add: PacketProtoDecoder_process_data_def packetproto_header_size_def Let_def)
  have wait: "\<exists>e m'. (if ppd_buf_start enc + ?u = ppd_buf_size enc
          then ((enc\<lparr>ppd_buf_start := 0\<rparr>, memcpy m (ppd_buf enc) ?d (nat ?u)),
                [PacketProtoDecoder_recv (enc\<lparr>ppd_buf_start := 0\<rparr>)])
          else ((enc, m), [PacketProtoDecoder_recv enc]))
        = ((e, m'), [PacketProtoDecoder_recv e :: ('p, 'c, proto_error) call]) \<and>
        ppd_wf e \<and> ppd_same e enc \<and> ppd_content e m' = ppd_content enc m \<and>
        ppd_buf_start e + ppd_buf_used e < ppd_buf_size e" if "?u < 2 + ppd_output_mtu enc"
    using that wf by (auto simp: ppd_wf_def ppd_same_def ppd_content_def mem_simps)
  have nonneg: "0 \<le> ?l" by simp
  show ?thesis
    unfolding parse_content [OF conjunct1 [OF conjunct2 [OF conjunct2 [OF conjunct2 [OF conjunct2 [OF wf]]]]]] pd
    using wait wf nonneg
    by (auto simp: Let_def ppd_wf_def ppd_same_def ppd_content_def nat_add_distrib nat_diff_distrib
        algebra_simps)
qed

section \<open>The decoder in the net\<close>

definition ppd_component ::
    "(port PacketProtoDecoder \<times> mem, port, unit, proto_error, mem option) component" where
  "ppd_component = \<lparr>
     provides = (\<lambda>p. False),
     on_operation = (\<lambda>p d l s. no_calls s),
     on_requestcancel = (\<lambda>p s. no_calls s),
     on_done = (\<lambda>p l (s, m).
        if p = In then PacketProtoDecoder_input_handler_done s m l
        else PacketProtoDecoder_output_handler_done s m),
     on_job = (\<lambda>c s. no_calls s),
     on_timer = (\<lambda>c s. no_calls s),
     on_api = (\<lambda>e (s, m). case e of
         None \<Rightarrow> no_calls (PacketProtoDecoder_Reset s, m)
       | Some m' \<Rightarrow> no_calls (s, m')),
     api_ok = (\<lambda>_ _ _. True)\<rparr>"

text \<open>The API is \<open>PacketProtoDecoder_Reset\<close> (\<open>None\<close>), possible at any time, and any change of
  memory: the assertions do not depend on the bytes received.\<close>

definition ppd_inv :: "port PacketProtoDecoder \<times> mem \<Rightarrow> (port, unit) net \<Rightarrow> bool" where
  "ppd_inv sm n \<longleftrightarrow> (case sm of (s, m) \<Rightarrow>
     ppd_wf s \<and> ppd_input s = In \<and> ppd_output s = Out \<and>
     if_kind (ifs n In) = StreamRecv \<and> if_kind (ifs n Out) = PacketPass \<and>
     has_user (ifs n In) \<and> has_user (ifs n Out) \<and> ppd_output_mtu s \<le> mtu (ifs n Out) \<and>
     (state (ifs n In) = IF_NONE \<longleftrightarrow> state (ifs n Out) \<noteq> IF_NONE) \<and>
     (state (ifs n In) \<noteq> IF_NONE \<longrightarrow>
        op_data (ifs n In) = ppd_buf s + nat (ppd_buf_start s + ppd_buf_used s) \<and>
        op_len (ifs n In) = ppd_buf_size s - (ppd_buf_start s + ppd_buf_used s)) \<and>
     (state (ifs n Out) \<noteq> IF_NONE \<longrightarrow> ppd_buf s \<le> op_data (ifs n Out) \<and>
        int (op_data (ifs n Out)) + op_len (ifs n Out) \<le> int (ppd_buf s) + ppd_buf_size s))"

lemma process_handled:
  assumes "ppd_wf s" and "ppd_input s = In" and "ppd_output s = Out"
    and "if_kind (ifs n In) = StreamRecv" and "if_kind (ifs n Out) = PacketPass"
    and "has_user (ifs n In)" and "has_user (ifs n Out)" and "ppd_output_mtu s \<le> mtu (ifs n Out)"
    and "state (ifs n In) = IF_NONE" and "state (ifs n Out) = IF_NONE"
  shows "handled ppd_inv (PacketProtoDecoder_process_data s m) n"
proof (cases "parse_packet (ppd_output_mtu s) (ppd_content s m)")
  case NeedMore
  with process_data_spec [where 'c = unit, OF assms(1), of m] assms show ?thesis
    by (auto simp: handled_def ppd_inv_def PacketProtoDecoder_recv_def interface_defs ppd_same_def
        ppd_wf_def)
next
  case TooLarge
  with process_data_spec [where 'c = unit, OF assms(1), of m] assms show ?thesis
    by (auto simp: handled_def ppd_inv_def PacketProtoDecoder_recv_def interface_defs ppd_same_def
        ppd_wf_def)
next
  case (Packet p rest)
  with process_data_spec [where 'c = unit, OF assms(1), of m] assms show ?thesis
    by (auto simp: handled_def ppd_inv_def interface_defs ppd_same_def)
qed

lemma ppd_input_handled:
  assumes "ppd_inv (s, m) n" and "net_ok n" and "state (ifs n In) = IF_DONE_PENDING"
  shows "handled ppd_inv (PacketProtoDecoder_input_handler_done s m (done_len (ifs n In))) (go_none In n)"
proof -
  let ?l = "done_len (ifs n In)" and ?s = "s\<lparr>ppd_buf_used := ppd_buf_used s + done_len (ifs n In)\<rparr>"
  have l: "0 < ?l" "?l \<le> ppd_buf_size s - (ppd_buf_start s + ppd_buf_used s)"
    using assms net_ok_args [OF assms(2), of In] by (auto simp: args_ok_def ppd_inv_def)
  obtain r cs where pd: "PacketProtoDecoder_process_data ?s m = (r, cs :: (port, unit, proto_error) call list)"
    by fastforce
  have "handled ppd_inv (PacketProtoDecoder_process_data ?s m :: _ \<times> (port, unit, proto_error) call list)
      (go_none In n)"
    by (rule process_handled) (use assms l in \<open>auto simp: ppd_inv_def ppd_wf_def\<close>)
  with l show ?thesis
    by (simp add: PacketProtoDecoder_input_handler_done_def pd handled_def split: option.splits)
qed

interpretation ppd: flow_contract ppd_component ppd_inv
proof (unfold_locales, goal_cases)
  case (2 s n p)
  then show ?case by (cases p) (auto simp: ppd_inv_def)
next
  case (4 s n p)
  then show ?case by (simp add: ppd_inv_def)
next
  case (5 s n p)
  obtain b m where s: "s = (b, m)" by (cases s)
  show ?case
  proof (cases p)
    case In
    with 5 s ppd_input_handled [of b m n] show ?thesis
      by (simp add: ppd_component_def done_arg_def ppd_inv_def)
  next
    case Out
    with 5 s have "handled ppd_inv (PacketProtoDecoder_process_data b m ::
        _ \<times> (port, unit, proto_error) call list) (go_none Out n)"
      by (intro process_handled) (auto simp: ppd_inv_def)
    with Out s show ?thesis
      by (simp add: ppd_component_def PacketProtoDecoder_output_handler_done_def)
  qed
next
  case (7 s n c)
  then show ?case by (simp add: handled_def ppd_component_def ppd_inv_def)
next
  case (8 s n c)
  then show ?case by (simp add: handled_def ppd_component_def ppd_inv_def)
next
  case (9 s n k)
  then show ?case
    by (cases k) (auto simp: ppd_inv_def ppd_component_def interface_defs split: prod.splits)
next
  case (10 s n e)
  then show ?case
    by (cases s; cases e) (auto simp: ppd_inv_def ppd_component_def finish_def ppd_wf_def
        PacketProtoDecoder_Reset_def)
qed (auto simp: ppd_component_def)

section \<open>Decoding a stream\<close>

text \<open>A decoder driven by a stream that delivers bytes into the area asked for and by an output
  that finishes its packets: the packets handed to the output, the bytes accepted, the number
  of errors reported, and the final state.  Events that do not fit are skipped.\<close>

datatype ppd_event = Received bytes | Sent

fun recv_window :: "('p, 'c, 'u) call list \<Rightarrow> (ptr \<times> int) option" where
  "recv_window (SR_Recv p d l # cs) = Some (d, l)"
| "recv_window (c # cs) = recv_window cs"
| "recv_window [] = None"

fun sent_packets :: "mem \<Rightarrow> ('p, 'c, 'u) call list \<Rightarrow> bytes list" where
  "sent_packets m (PP_Send p d l # cs) = mread m d (nat l) # sent_packets m cs"
| "sent_packets m (c # cs) = sent_packets m cs"
| "sent_packets m [] = []"

fun errors :: "('p, 'c, proto_error) call list \<Rightarrow> nat" where
  "errors (UserCall ProtoError # cs) = Suc (errors cs)"
| "errors (c # cs) = errors cs"
| "errors [] = 0"

type_synonym 'p ppd_state =
  "('p PacketProtoDecoder \<times> mem) \<times> ('p, unit, proto_error) call list"

fun ppd_run :: "ppd_event list \<Rightarrow> 'p ppd_state \<Rightarrow> bytes list \<times> bytes \<times> nat \<times> 'p ppd_state" where
  "ppd_run [] x = ([], [], 0, x)"
| "ppd_run (Received bs # es) ((s, m), cs) =
     (case recv_window cs of
        Some (d, l) \<Rightarrow>
          if bs \<noteq> [] \<and> int (length bs) \<le> l
          then let y = PacketProtoDecoder_input_handler_done s (mwrite m d bs) (int (length bs))
               in case ppd_run es y of (ps, acc, err, z) \<Rightarrow>
                 (sent_packets (snd (fst y)) (snd y) @ ps, bs @ acc, errors (snd y) + err, z)
          else ppd_run es ((s, m), cs)
      | None \<Rightarrow> ppd_run es ((s, m), cs))"
| "ppd_run (Sent # es) ((s, m), cs) =
     (if recv_window cs = None
      then let y = PacketProtoDecoder_output_handler_done s m
           in case ppd_run es y of (ps, acc, err, z) \<Rightarrow>
             (sent_packets (snd (fst y)) (snd y) @ ps, acc, errors (snd y) + err, z)
      else ppd_run es ((s, m), cs))"

definition encode_all :: "bytes list \<Rightarrow> bytes" where
  "encode_all ps = concat (map encode_packet ps)"

lemma encode_all_simps [simp]:
  "encode_all [] = []" "encode_all (p # ps) = encode_packet p @ encode_all ps"
  by (simp_all add: encode_all_def)

lemma uint_word_16: "n \<le> 65535 \<Longrightarrow> uint (word_of_nat n :: 16 word) = int n"
  using unat_word_of_nat_16 [of n] by (metis uint_nat)

text \<open>A part of an encoded stream parses to its first packet as soon as that is complete.\<close>

lemma parse_encoded:
  assumes "u @ v = encode_all qs" and "\<And>q. q \<in> set qs \<Longrightarrow> int (length q) \<le> lim" and "lim \<le> 65535"
  shows "case parse_packet lim u of
      NeedMore \<Rightarrow> v = [] \<longrightarrow> qs = []
    | TooLarge \<Rightarrow> False
    | Packet p rest \<Rightarrow> \<exists>qs'. qs = p # qs' \<and> rest @ v = encode_all qs'"
proof (cases qs)
  case Nil
  with assms(1) show ?thesis by (simp add: parse_packet_def)
next
  case (Cons q qs')
  let ?h = "le16_bytes (word_of_nat (length q))"
  have uv: "u @ v = ?h @ q @ encode_all qs'"
    using assms(1) Cons by (simp add: encode_packet_def)
  have q: "int (length q) \<le> lim" using assms(2) Cons by simp
  show ?thesis
  proof (cases "length u < 2")
    case True
    have "length (u @ v) = 2 + length q + length (encode_all qs')" by (simp add: uv)
    with True show ?thesis by (auto simp: parse_packet_def)
  next
    case False
    have "take 2 u = take 2 (u @ v)" using False by simp
    also have "\<dots> = ?h" by (simp add: uv)
    finally have t: "take 2 u = ?h" .
    have "le16_of u = word_of_nat (length q)"
      using t by (metis le16_of_take le16_roundtrip)
    then have l: "uint (le16_of u) = int (length q)"
      using q assms(3) by (simp add: uint_word_16)
    have u: "u = ?h @ drop 2 u" using t by (metis append_take_drop_id)
    with uv have d: "drop 2 u @ v = q @ encode_all qs'" by (metis append.assoc same_append_eq)
    show ?thesis
    proof (cases "length (drop 2 u) < length q")
      case True
      then have "v \<noteq> []" using d by (metis append_Nil2 length_append linorder_not_less le_add1)
      with False True l q show ?thesis
        by (auto simp: parse_packet_def Let_def)
    next
      case le: False
      then have "take (length q) (drop 2 u) = q" "drop (length q) (drop 2 u) @ v = encode_all qs'"
        using arg_cong [OF d, of "take (length q)"] arg_cong [OF d, of "drop (length q)"]
        by simp_all
      with False le l q Cons show ?thesis
        by (auto simp: parse_packet_def Let_def add.commute)
    qed
  qed
qed

definition ppd_mode :: "'p ppd_state \<Rightarrow> bool" where
  "ppd_mode x \<longleftrightarrow> (case x of ((s, m), cs) \<Rightarrow> ppd_wf s \<and>
     (case recv_window cs of
        None \<Rightarrow> True
      | Some (d, l) \<Rightarrow> d = ppd_buf s + nat (ppd_buf_start s + ppd_buf_used s) \<and>
          l = ppd_buf_size s - (ppd_buf_start s + ppd_buf_used s) \<and>
          parse_packet (ppd_output_mtu s) (ppd_content s m) = NeedMore))"

text \<open>One pass of \<open>process_data\<close> on a stream of encoded packets.\<close>

lemma process_step:
  assumes "ppd_wf s" and "ppd_content s m @ acc = encode_all qs"
    and "\<And>q. q \<in> set qs \<Longrightarrow> int (length q) \<le> ppd_output_mtu s"
  obtains s' m' cs qs' where
    "(PacketProtoDecoder_process_data s m :: 'p ppd_state) = ((s', m'), cs)"
    and "errors cs = 0" and "ppd_mode ((s', m'), cs)" and "ppd_output_mtu s' = ppd_output_mtu s"
    and "qs = sent_packets m' cs @ qs'" and "ppd_content s' m' @ acc = encode_all qs'"
proof -
  have lim: "ppd_output_mtu s \<le> 65535"
    using assms(1) by (simp add: ppd_wf_def PACKETPROTO_MAXPAYLOAD_def UINT16_MAX_def)
  note spec = process_data_spec [where 'c = unit, OF assms(1), of m]
    and parse = parse_encoded [OF assms(2,3) lim]
  show thesis
  proof (cases "parse_packet (ppd_output_mtu s) (ppd_content s m)")
    case NeedMore
    with spec obtain e m' where
      "(PacketProtoDecoder_process_data s m :: 'p ppd_state) = ((e, m'), [PacketProtoDecoder_recv e])"
      "ppd_wf e" "ppd_same e s" "ppd_content e m' = ppd_content s m"
      by auto
    with NeedMore assms(2) show thesis
      by (intro that [of e m' "[PacketProtoDecoder_recv e]" qs])
        (auto simp: ppd_mode_def PacketProtoDecoder_recv_def ppd_same_def)
  next
    case TooLarge
    with parse show thesis by simp
  next
    case (Packet p rest)
    with spec obtain e d where
      "(PacketProtoDecoder_process_data s m :: 'p ppd_state) =
         ((e, m), [PP_Send (ppd_output s) d (int (length p))])"
      "ppd_wf e" "ppd_same e s" "ppd_content e m = rest" "mread m d (length p) = p"
      by auto
    with Packet parse show thesis
      by (auto simp: ppd_mode_def ppd_same_def intro: that)
  qed
qed

lemma received_content:
  assumes "ppd_wf s" and "d = ppd_buf s + nat (ppd_buf_start s + ppd_buf_used s)"
  shows "ppd_content (s\<lparr>ppd_buf_used := ppd_buf_used s + int (length bs)\<rparr>) (mwrite m d bs) =
    ppd_content s m @ bs"
proof -
  have d: "d = ppd_buf s + nat (ppd_buf_start s) + nat (ppd_buf_used s)"
    using assms by (simp add: ppd_wf_def nat_add_distrib)
  have "nat (ppd_buf_used s + int (length bs)) = nat (ppd_buf_used s) + length bs"
    using assms(1) by (simp add: ppd_wf_def nat_add_distrib)
  then show ?thesis
    by (simp add: ppd_content_def mread_append d mem_simps)
qed

lemma ppd_mode_wf: "ppd_mode ((s, m), cs) \<Longrightarrow> ppd_wf s \<and> ppd_output_mtu s \<le> 65535"
  by (simp add: ppd_mode_def ppd_wf_def PACKETPROTO_MAXPAYLOAD_def UINT16_MAX_def)

lemma ppd_run_decodes:
  assumes "ppd_run es x = (ps, acc, err, y)" and "ppd_mode x"
    and "ppd_content (fst (fst x)) (snd (fst x)) @ acc = encode_all qs"
    and "\<And>q. q \<in> set qs \<Longrightarrow> int (length q) \<le> ppd_output_mtu (fst (fst x))"
  shows "err = 0 \<and> (\<exists>rest. qs = ps @ rest \<and> (recv_window (snd y) \<noteq> None \<longrightarrow> rest = []))"
  using assms
proof (induction es arbitrary: x ps acc err qs)
  case Nil
  obtain s m cs where x: "x = ((s, m), cs)" by (metis prod.collapse)
  have lim: "ppd_output_mtu s \<le> 65535"
    using ppd_mode_wf [OF Nil.prems(2) [unfolded x]] by simp
  have "recv_window cs \<noteq> None \<Longrightarrow> qs = []"
    using Nil x parse_encoded [of "ppd_content s m" "[]" qs, OF _ _ lim]
    by (auto simp: ppd_mode_def split: option.splits)
  with Nil x show ?case by auto
next
  case (Cons e es)
  obtain s m cs where x: "x = ((s, m), cs)" by (metis prod.collapse)
  show ?case
  proof (cases e)
    case (Received bs)
    show ?thesis
    proof (cases "\<exists>d l. recv_window cs = Some (d, l) \<and> bs \<noteq> [] \<and> int (length bs) \<le> l")
      case True
      then obtain d l where w: "recv_window cs = Some (d, l)" "bs \<noteq> []" "int (length bs) \<le> l" by blast
      let ?s = "s\<lparr>ppd_buf_used := ppd_buf_used s + int (length bs)\<rparr>" and ?m = "mwrite m d bs"
      from Cons.prems(2) x w have d: "d = ppd_buf s + nat (ppd_buf_start s + ppd_buf_used s)"
        and l: "l = ppd_buf_size s - (ppd_buf_start s + ppd_buf_used s)" and wf: "ppd_wf s"
        by (auto simp: ppd_mode_def)
      let ?y = "PacketProtoDecoder_input_handler_done s ?m (int (length bs)) :: 'a ppd_state"
      obtain ps1 acc1 err1 where run: "ppd_run es ?y = (ps1, acc1, err1, y)" and acc: "acc = bs @ acc1"
        and ps: "ps = sent_packets (snd (fst ?y)) (snd ?y) @ ps1" and err: "err = errors (snd ?y) + err1"
        using Cons.prems(1) Received w x by (auto simp: Let_def split: prod.splits)
      have wf1: "ppd_wf ?s" using wf w(3) l by (simp add: ppd_wf_def)
      have "ppd_content ?s ?m @ acc1 = encode_all qs"
        using Cons.prems(3) acc received_content [OF wf d] by (simp add: x)
      moreover have "\<And>q. q \<in> set qs \<Longrightarrow> int (length q) \<le> ppd_output_mtu ?s"
        using Cons.prems(4) by (simp add: x)
      ultimately obtain s' m' cs' qs' where
        pd: "(PacketProtoDecoder_process_data ?s ?m :: 'a ppd_state) = ((s', m'), cs')"
        and "errors cs' = 0" and mode: "ppd_mode ((s', m'), cs')" and lim: "ppd_output_mtu s' = ppd_output_mtu ?s"
        and qs: "qs = sent_packets m' cs' @ qs'" and rest: "ppd_content s' m' @ acc1 = encode_all qs'"
        by (rule process_step [OF wf1])
      then have "err = err1" "ps = sent_packets m' cs' @ ps1"
        using ps err by (simp_all add: PacketProtoDecoder_input_handler_done_def)
      moreover have "err1 = 0 \<and> (\<exists>rest. qs' = ps1 @ rest \<and> (recv_window (snd y) \<noteq> None \<longrightarrow> rest = []))"
        by (rule Cons.IH [OF run])
          (use mode rest lim qs Cons.prems(4) in \<open>auto simp: x pd PacketProtoDecoder_input_handler_done_def
            ppd_mode_def\<close>)
      ultimately show ?thesis using qs by auto
    qed (use Cons Received x in \<open>auto split: option.splits\<close>)
  next
    case Sent
    show ?thesis
    proof (cases "recv_window cs = None")
      case True
      have wf: "ppd_wf s" using ppd_mode_wf [OF Cons.prems(2) [unfolded x]] by simp
      let ?y = "PacketProtoDecoder_process_data s m :: 'a ppd_state"
      obtain ps1 err1 where run: "ppd_run es ?y = (ps1, acc, err1, y)"
        and ps: "ps = sent_packets (snd (fst ?y)) (snd ?y) @ ps1" and err: "err = errors (snd ?y) + err1"
        using Cons.prems(1) Sent True x
        by (auto simp: Let_def PacketProtoDecoder_output_handler_done_def split: prod.splits)
      obtain s' m' cs' qs' where
        pd: "(PacketProtoDecoder_process_data s m :: 'a ppd_state) = ((s', m'), cs')"
        and "errors cs' = 0" and mode: "ppd_mode ((s', m'), cs')" and lim: "ppd_output_mtu s' = ppd_output_mtu s"
        and qs: "qs = sent_packets m' cs' @ qs'" and rest: "ppd_content s' m' @ acc = encode_all qs'"
        by (rule process_step [OF wf, of m acc qs]) (use Cons.prems(3,4) in \<open>auto simp: x\<close>)
      then have "err = err1" "ps = sent_packets m' cs' @ ps1"
        using ps err by simp_all
      moreover have "err1 = 0 \<and> (\<exists>rest. qs' = ps1 @ rest \<and> (recv_window (snd y) \<noteq> None \<longrightarrow> rest = []))"
        by (rule Cons.IH [OF run]) (use mode rest lim qs Cons.prems(4) in \<open>auto simp: x pd\<close>)
      ultimately show ?thesis using qs by auto
    qed (use Cons Sent x in auto)
  qed
qed

section \<open>Properties\<close>

lemma bmin_int_min: "bmin_int a b = min a b"
  by (simp add: bmin_int_def min_def)

lemma decoder_init:
  assumes "PacketProtoDecoder_Init inp out mtu_out alloc = (Some s, cs :: ('p, unit, proto_error) call list)"
    and "0 \<le> mtu_out" and "alloc (2 + min mtu_out 65535) \<noteq> Some 0"
  shows "ppd_mode ((s, m), cs) \<and> ppd_content s m = [] \<and> ppd_output_mtu s = min mtu_out 65535 \<and>
    ppd_input s = inp \<and> ppd_output s = out \<and> ppd_buf_start s = 0 \<and> ppd_buf_used s = 0"
proof -
  obtain k where k: "k = min mtu_out 65535" "0 \<le> k" "k \<le> 65535" using assms(2) by simp
  with assms(1,3) obtain b where b: "b \<noteq> 0" and s: "s = \<lparr>ppd_input = inp, ppd_output = out,
      ppd_output_mtu = k, ppd_buf_size = 2 + k, ppd_buf_start = 0, ppd_buf_used = 0, ppd_buf = b\<rparr>"
    and cs: "cs = [SR_Receiver_Init inp, PP_Sender_Init out, SR_Recv inp b (2 + k)]"
    by (auto simp: PacketProtoDecoder_Init_def bmin_int_min PACKETPROTO_MAXPAYLOAD_def
        UINT16_MAX_def Let_def split: option.splits)
  have "ppd_wf s" using k(2,3) b by (simp add: s ppd_wf_def PACKETPROTO_MAXPAYLOAD_def UINT16_MAX_def)
  then show ?thesis
    unfolding k(1) [symmetric] by (simp add: s cs ppd_mode_def ppd_content_def parse_packet_def)
qed

text \<open>C32: packets survive the trip through PacketProto.  A decoder that is fed the encodings of
  the packets \<open>qs\<close>, cut into pieces in any way and interleaved with its output's completions in
  any way, reports no error, hands its output a prefix of \<open>qs\<close> in order and byte for byte, and
  has handed over all of them whenever it is waiting for more of the stream.\<close>

theorem packets_survive_the_stream:
  assumes "PacketProtoDecoder_Init inp out mtu_out alloc = (Some s, cs)"
    and "0 \<le> mtu_out" and "alloc (2 + min mtu_out 65535) \<noteq> Some 0"
    and "ppd_run es ((s, m), cs) = (ps, acc, err, y)" and "acc = encode_all qs"
    and "list_all (\<lambda>q. int (length q) \<le> min mtu_out 65535) qs"
  shows "err = 0 \<and> (\<exists>rest. qs = ps @ rest \<and> (recv_window (snd y) \<noteq> None \<longrightarrow> rest = []))"
proof (rule ppd_run_decodes [OF assms(4)])
  show "ppd_mode ((s, m), cs)" using decoder_init [OF assms(1-3), of m] by simp
  show "ppd_content (fst (fst ((s, m), cs))) (snd (fst ((s, m), cs))) @ acc = encode_all qs"
    using decoder_init [OF assms(1-3), of m] assms(5) by simp
  show "\<And>q. q \<in> set qs \<Longrightarrow> int (length q) \<le> ppd_output_mtu (fst (fst ((s, m), cs)))"
    using decoder_init [OF assms(1-3), of m] assms(6) by (simp add: list_all_iff)
qed

theorem packets_survive_the_stream_witness:
  "\<exists>s cs ps err y. PacketProtoDecoder_Init In Out 3 (\<lambda>_. Some 2) = (Some s, cs) \<and>
     ppd_run [Received [2], Received [0, 7, 8, 0], Sent, Received [0], Sent, Received [1, 0, 9], Sent]
       ((s, \<lambda>_. 0), cs) = (ps, encode_all [[7, 8], [], [9]], err, y) \<and>
     err = 0 \<and> ps = [[7, 8], [], [9]]"
proof -
  let ?i = "PacketProtoDecoder_Init In Out 3 (\<lambda>_. Some 2) :: _ \<times> (port, unit, proto_error) call list"
  let ?es = "[Received [2], Received [0, 7, 8, 0], Sent, Received [0], Sent, Received [1, 0, 9], Sent]"
  obtain s cs where i: "?i = (Some s, cs)"
    by (simp add: PacketProtoDecoder_Init_def Let_def)
  obtain ps acc err y where run: "ppd_run ?es ((s, \<lambda>_. 0), cs) = (ps, acc, err, y)"
    by (metis prod_cases4)
  have "case ?i of (None, _) \<Rightarrow> False | (Some s, cs) \<Rightarrow>
      (case ppd_run ?es ((s, \<lambda>_. 0), cs) of (ps, acc, err, y) \<Rightarrow>
         acc = encode_all [[7, 8], [], [9]] \<and> recv_window (snd y) \<noteq> None)"
    by code_simp
  then have acc: "acc = encode_all [[7, 8], [], [9]]" and w: "recv_window (snd y) \<noteq> None"
    unfolding i prod.case option.case run by blast+
  have lim: "list_all (\<lambda>q. int (length q) \<le> min 3 65535) [[7, 8], [], [9 :: byte]]" by simp
  have alloc: "(\<lambda>_. Some 2) (2 + min 3 65535 :: int) \<noteq> Some (0 :: nat)" by simp
  have "(0 :: int) \<le> 3" by simp
  from packets_survive_the_stream [OF i this alloc run acc lim]
  obtain rest where "err = 0" "[[7, 8], [], [9]] = ps @ rest" "recv_window (snd y) \<noteq> None \<longrightarrow> rest = []"
    by blast
  with w have "err = 0" "ps = [[7, 8], [], [9]]" by simp_all
  with i run acc show ?thesis by metis
qed

definition ppe_start :: "int \<Rightarrow> mem \<Rightarrow> (port PacketProtoEncoder \<times> mem) \<times> (port, unit) net" where
  "ppe_start m st =
     (case PacketProtoEncoder_Init In Out m of (s, cs :: (port, unit, unit) call list) \<Rightarrow>
        ((s, st), started ([PR_Init In m] @ cs @ [PR_Receiver_Init Out])))"

lemma ppe_start_inv:
  "0 \<le> m \<Longrightarrow> m \<le> PACKETPROTO_MAXPAYLOAD \<Longrightarrow> case_prod ppe_inv (ppe_start m st)"
  "net_ok (snd (ppe_start m st))"
  by (simp_all add: ppe_start_def started_def PacketProtoEncoder_Init_def ppe_inv_def)

text \<open>In any environment the encoder violates no assertion, and when its input has
  delivered a packet \<open>p\<close> behind the place of the header, the output packet it completes is
  exactly the encoding of \<open>p\<close>.\<close>

theorem encoder_encodes:
  assumes "reach_from ppe_component (ppe_start mtu0 st) r" and "0 \<le> mtu0"
    and "mtu0 \<le> PACKETPROTO_MAXPAYLOAD"
  shows "\<exists>s m n. r = Some ((s, m), n) \<and>
    (JobDone In \<in> set (jobs (grp n)) \<longrightarrow>
       (\<exists>s' m' n'. run_job ppe_component (JobDone In) ((s, m), n) = Some ((s', m'), n') \<and>
          state (ifs n' Out) = IF_DONE_PENDING \<and>
          mread m' (op_data (ifs n Out)) (nat (done_len (ifs n' Out))) =
            encode_packet (mread m (op_data (ifs n In)) (nat (done_len (ifs n In))))))"
proof -
  from ppe.reached [OF assms(1) ppe_start_inv(1) [OF assms(2,3)] ppe_start_inv(2)] obtain s m n
    where r: "r = Some ((s, m), n)" and inv: "ppe_inv (s, m) n" and ok: "net_ok n" by auto
  have "\<exists>s' m' n'. run_job ppe_component (JobDone In) ((s, m), n) = Some ((s', m'), n') \<and>
          state (ifs n' Out) = IF_DONE_PENDING \<and>
          mread m' (op_data (ifs n Out)) (nat (done_len (ifs n' Out))) =
            encode_packet (mread m (op_data (ifs n In)) (nat (done_len (ifs n In))))"
    if j: "JobDone In \<in> set (jobs (grp n))"
  proof -
    let ?l = "done_len (ifs n In)" and ?d = "op_data (ifs n Out)"
    note st = pending_state(2) [OF ok j]
    with net_ok_args [OF ok, of In] inv have l: "0 \<le> ?l" "?l \<le> mtu (ifs n In)"
      by (auto simp: args_ok_def ppe_inv_def)
    have "nat (2 + ?l) = 2 + nat ?l" using l by (simp add: nat_add_distrib)
    moreover have "word_of_int ?l = (word_of_nat (nat ?l) :: 16 word)" using l by simp
    ultimately have "mread (mwrite m ?d (le16_bytes (word_of_int ?l))) ?d (nat (2 + ?l)) =
        encode_packet (mread m (?d + 2) (nat ?l))"
      using mread_append [of "mwrite m ?d (le16_bytes (word_of_int ?l))" ?d 2 "nat ?l"]
      by (simp add: encode_packet_def mem_simps)
    with inv ok j st l show ?thesis
      by (auto simp: run_job_simps ppe_defs finish_def interface_defs)
  qed
  with r show ?thesis by blast
qed

theorem encoder_encodes_witness:
  "\<exists>s m n. run_moves ppe_component [Env (PR_Recv Out 4), RunJob (JobOperation Out),
       RunJob (JobOperation In), Env (PR_Done In 2)] (ppe_start 3 (\<lambda>a. of_nat a)) = Some ((s, m), n) \<and>
     (\<exists>s' m' n'. run_job ppe_component (JobDone In) ((s, m), n) = Some ((s', m'), n') \<and>
        mread m' 4 (nat (done_len (ifs n' Out))) = encode_packet [6, 7])"
proof -
  let ?vs = "[Env (PR_Recv Out 4), RunJob (JobOperation Out), RunJob (JobOperation In),
      Env (PR_Done In 2)]"
  let ?r = "run_moves ppe_component ?vs (ppe_start 3 (\<lambda>a. of_nat a))"
  have "case ?r of None \<Rightarrow> False | Some ((s, m), n) \<Rightarrow> JobDone In \<in> set (jobs (grp n)) \<and>
      op_data (ifs n Out) = 4 \<and> mread m (op_data (ifs n In)) (nat (done_len (ifs n In))) = [6, 7]"
    by code_simp
  then obtain s m n where run: "?r = Some ((s, m), n)" and *: "JobDone In \<in> set (jobs (grp n))"
      "op_data (ifs n Out) = 4" "mread m (op_data (ifs n In)) (nat (done_len (ifs n In))) = [6, 7]"
    by (auto simp del: run_moves.simps split: option.splits)
  have "(3::int) \<le> PACKETPROTO_MAXPAYLOAD" by (simp add: PACKETPROTO_MAXPAYLOAD_def UINT16_MAX_def)
  from encoder_encodes [OF run_moves_reach [OF run] _ this] * run show ?thesis by auto
qed

definition ppd_start ::
    "int \<Rightarrow> ptr \<Rightarrow> mem \<Rightarrow> (port PacketProtoDecoder \<times> mem) \<times> (port, unit) net" where
  "ppd_start m b st =
     (case PacketProtoDecoder_Init In Out m (\<lambda>_. Some b) of
        (s, cs :: (port, unit, proto_error) call list) \<Rightarrow>
          ((the s, st), started ([SR_Init In, PP_Init Out m] @ cs)))"

lemma ppd_start_inv:
  assumes "0 \<le> m" and "b \<noteq> 0"
  shows "case_prod ppd_inv (ppd_start m b st)" and "net_ok (snd (ppd_start m b st))"
proof -
  have st: "ppd_start m b st =
      ((\<lparr>ppd_input = In, ppd_output = Out, ppd_output_mtu = min m 65535, ppd_buf_size = 2 + min m 65535,
         ppd_buf_start = 0, ppd_buf_used = 0, ppd_buf = b\<rparr>, st),
       started [SR_Init In, PP_Init Out m, SR_Receiver_Init In, PP_Sender_Init Out,
         SR_Recv In b (2 + min m 65535) :: (port, unit, unit) call])"
    by (simp add: ppd_start_def started_def PacketProtoDecoder_Init_def bmin_int_min
        PACKETPROTO_MAXPAYLOAD_def UINT16_MAX_def Let_def)
  show "net_ok (snd (ppd_start m b st))"
    unfolding st using assms by (simp add: started_def)
  show "case_prod ppd_inv (ppd_start m b st)"
    unfolding st using assms
    by (simp add: started_def ppd_inv_def ppd_wf_def PACKETPROTO_MAXPAYLOAD_def UINT16_MAX_def
        StreamRecvInterface_Receiver_Recv_def)
qed

text \<open>C33: whatever bytes the peer sends and however often the user resets the decoder, no
  assertion fails, the decoder waits for the stream or for its output and never for neither,
  and the memory it gives away lies inside its buffer: the area offered to the stream reaches
  exactly to the end of the buffer, and a packet handed to the output lies within it.\<close>

theorem decoder_stays_in_its_buffer:
  assumes "reach_from ppd_component (ppd_start mtu0 b st) r" and "0 \<le> mtu0" and "b \<noteq> 0"
  shows "\<exists>s m n. r = Some ((s, m), n) \<and>
    (state (ifs n In) = IF_NONE \<longleftrightarrow> state (ifs n Out) \<noteq> IF_NONE) \<and>
    (state (ifs n In) \<noteq> IF_NONE \<longrightarrow> ppd_buf s \<le> op_data (ifs n In) \<and>
       int (op_data (ifs n In)) + op_len (ifs n In) = int (ppd_buf s) + ppd_buf_size s) \<and>
    (state (ifs n Out) \<noteq> IF_NONE \<longrightarrow> ppd_buf s \<le> op_data (ifs n Out) \<and>
       int (op_data (ifs n Out)) + op_len (ifs n Out) \<le> int (ppd_buf s) + ppd_buf_size s)"
  by (rule ppd.reached [OF assms(1) ppd_start_inv [OF assms(2,3)]])
    (auto simp: ppd_inv_def ppd_wf_def)

theorem decoder_stays_in_its_buffer_witness:
  "\<exists>s m n. run_moves ppd_component [RunJob (JobOperation In), Env (SR_Done In 3), Api None]
      (ppd_start 3 2 (\<lambda>_. 200)) = Some ((s, m), n) \<and>
     (state (ifs n In) \<noteq> IF_NONE \<longrightarrow>
        int (op_data (ifs n In)) + op_len (ifs n In) = int (ppd_buf s) + ppd_buf_size s)"
proof -
  let ?r = "run_moves ppd_component [RunJob (JobOperation In), Env (SR_Done In 3), Api None]
      (ppd_start 3 2 (\<lambda>_. 200))"
  have "?r \<noteq> None" by code_simp
  then obtain s m n where run: "?r = Some ((s, m), n)"
    by (cases ?r) (auto simp del: run_moves.simps)
  from decoder_stays_in_its_buffer [OF run_moves_reach [OF run]] run show ?thesis by auto
qed

end
