(* ===== verification/Flow_Queues.thy ===== *)
theory Flow_Queues
  imports Flow_Contract
begin

text \<open>
  The queues by which many flows share one output: what the FIFO, priority and fair queues
  have in common, and \<open>flow/PacketPassFifoQueue.c\<close>.  Flows are numbered by their addresses,
  every number a flow that exists.  The waiting flows are a list: the linked list of the FIFO
  queue, the in-order sequence of the AVL tree of the other two (\<open>structure/SAvl\<close>), whose
  insertion goes by the code's comparison function.  Whether the schedule job is set is kept
  as a field of the queue that owns the job.
\<close>

section \<open>Common parts\<close>

datatype qport = FlowIn nat | QOut

datatype queue_event = Busy nat

text \<open>The user may at any time free a flow that is not being sent and initialise a new one at
  its address (\<open>Renew\<close>, with the MTU of the output and the priority of the new flow), and set the busy handler of, or request a cancel for, the flow being
  sent.\<close>

datatype queue_api = Renew nat int int | SetBusyHandler nat bool | CancelFlow nat

type_synonym queue_call = "(qport, unit, queue_event) call"

text \<open>Insertion into a search tree, on its in-order sequence; \<open>None\<close> when an equal entry is
  there.\<close>

fun savl_insert :: "('f \<Rightarrow> 'f \<Rightarrow> int) \<Rightarrow> 'f \<Rightarrow> 'f list \<Rightarrow> 'f list option" where
  "savl_insert cmp x [] = Some [x]"
| "savl_insert cmp x (y # ys) =
     (if cmp x y < 0 then Some (x # y # ys)
      else if cmp x y = 0 then None
      else map_option (Cons y) (savl_insert cmp x ys))"

lemma savl_insert_set:
  "savl_insert cmp x ys = Some zs \<Longrightarrow> set zs = insert x (set ys) \<and> length zs = Suc (length ys)"
  by (induction ys arbitrary: zs) (auto split: if_splits)

lemma savl_insert_distinct:
  "savl_insert cmp x ys = Some zs \<Longrightarrow> x \<notin> set ys \<Longrightarrow> distinct ys \<Longrightarrow> distinct zs"
proof (induction ys arbitrary: zs)
  case (Cons y ys)
  then show ?case using savl_insert_set [of cmp x ys] by (fastforce split: if_splits)
qed simp

lemma savl_insert_total:
  "(\<And>y. y \<in> set ys \<Longrightarrow> cmp x y \<noteq> 0) \<Longrightarrow> \<exists>zs. savl_insert cmp x ys = Some zs"
  by (induction ys) (auto 4 3)

text \<open>With a linear comparison insertion keeps the sequence sorted.\<close>

lemma savl_insert_sorted:
  assumes "\<And>a b c. le a b \<Longrightarrow> le b c \<Longrightarrow> le a c"
    and "\<And>a b. cmp a b < 0 \<Longrightarrow> le a b" and "\<And>a b. 0 < cmp a b \<Longrightarrow> le b a"
  shows "sorted_wrt le ys \<Longrightarrow> savl_insert cmp x ys = Some zs \<Longrightarrow> sorted_wrt le zs"
proof (induction ys arbitrary: zs)
  case (Cons y ys)
  show ?case
  proof (cases "cmp x y < 0")
    case True
    have "le x y" using assms(2) [OF True] .
    moreover have "le x u" if "le y u" for u using assms(1) [OF \<open>le x y\<close> that] .
    ultimately show ?thesis using True Cons.prems by auto
  next
    case False
    with Cons.prems obtain us where us: "savl_insert cmp x ys = Some us" "zs = y # us" "0 < cmp x y"
      by (auto split: if_splits)
    with Cons savl_insert_set [OF us(1)] assms(3) [OF us(3)] show ?thesis by auto
  qed
qed auto

text \<open>The order of the trees: by a key, ties by address.\<close>

definition before :: "(nat \<Rightarrow> int) \<Rightarrow> nat \<Rightarrow> nat \<Rightarrow> bool" where
  "before p f g \<longleftrightarrow> p f < p g \<or> p f = p g \<and> f < g"

lemma before_trans: "before p a b \<Longrightarrow> before p b c \<Longrightarrow> before p a c"
  by (auto simp: before_def)

lemma before_distinct: "sorted_wrt (before p) w \<Longrightarrow> distinct w"
  by (induction w) (auto simp: before_def)

lemma before_remove:
  assumes "sorted_wrt (before p) w" and "\<And>g. g \<noteq> f \<Longrightarrow> p' g = p g"
  shows "sorted_wrt (before p') (remove1 f w)"
proof -
  have "sorted_wrt (before p) (filter ((\<noteq>) f) w)"
    using assms(1) by (simp add: sorted_wrt_filter)
  then have "sorted_wrt (before p') (filter ((\<noteq>) f) w)"
    by (rule sorted_wrt_mono_rel [rotated]) (auto simp: before_def assms(2))
  then show ?thesis
    using before_distinct [OF assms(1)] by (simp add: distinct_remove1_removeAll removeAll_filter_not_eq)
qed

lemma ordered_insert:
  assumes "\<And>a b. cmp a b < 0 \<longleftrightarrow> before p a b" and "\<And>a b. 0 < cmp a b \<longleftrightarrow> before p b a"
    and "f \<notin> set w" and "sorted_wrt (before p) w"
  obtains w' where "savl_insert cmp f w = Some w'" and "set w' = insert f (set w)"
    and "sorted_wrt (before p) w'"
proof -
  have "cmp f y \<noteq> 0" if "y \<in> set w" for y
    using assms(1-3) that by (metis before_def linorder_neqE order_less_irrefl)
  then obtain w' where w': "savl_insert cmp f w = Some w'"
    using savl_insert_total [of w cmp f] by auto
  moreover have "sorted_wrt (before p) w'"
    by (rule savl_insert_sorted [OF _ _ _ assms(4) w']) (auto intro: before_trans simp: assms(1,2))
  ultimately show ?thesis using savl_insert_set [OF w'] that by blast
qed

section \<open>The invariant of a queue\<close>

text \<open>Shared by the three queues: \<open>w\<close> the waiting flows, \<open>s\<close> the flow being sent, \<open>j\<close> whether the
  schedule job is set, and the fields of the flows.  \<open>flow_ok\<close> relates one flow to its
  interface; \<open>queue_core\<close> is what holds in the middle of a handler, \<open>queue_ok\<close> between handlers:
  when flows wait, the output is at work or about to be given work.\<close>

definition flow_ok ::
    "int \<Rightarrow> nat list \<Rightarrow> nat option \<Rightarrow> (nat \<Rightarrow> bool) \<Rightarrow> (nat \<Rightarrow> ptr) \<Rightarrow> (nat \<Rightarrow> int) \<Rightarrow> nat \<Rightarrow> flow_if \<Rightarrow> bool" where
  "flow_ok m w s iw data len f i \<longleftrightarrow>
     if_kind i = PacketPass \<and> mtu i = m \<and> \<not> has_requestcancel i \<and>
     (state i \<noteq> IF_NONE \<longrightarrow> has_user i) \<and> (iw f \<longleftrightarrow> f \<in> set w) \<and> (state i = IF_BUSY \<longleftrightarrow> f \<in> set w \<or> s = Some f) \<and>
     (f \<in> set w \<or> s = Some f \<longrightarrow> data f = op_data i \<and> len f = op_len i)"

definition out_ok :: "nat list \<Rightarrow> nat option \<Rightarrow> (nat \<Rightarrow> flow_if) \<Rightarrow> flow_if \<Rightarrow> bool" where
  "out_ok w s I i \<longleftrightarrow> if_kind i = PacketPass \<and> has_user i \<and> 0 \<le> mtu i \<and>
     (case s of None \<Rightarrow> state i = IF_NONE
      | Some f \<Rightarrow> state i \<noteq> IF_NONE \<and> f \<notin> set w \<and> op_data i = op_data (I f) \<and> op_len i = op_len (I f))"

definition queue_core ::
    "nat list \<Rightarrow> nat option \<Rightarrow> bool \<Rightarrow> (nat \<Rightarrow> bool) \<Rightarrow> (nat \<Rightarrow> ptr) \<Rightarrow> (nat \<Rightarrow> int) \<Rightarrow>
     (qport, unit) net \<Rightarrow> bool" where
  "queue_core w s j iw data len n \<longleftrightarrow>
     (\<forall>f. flow_ok (mtu (ifs n QOut)) w s iw data len f (ifs n (FlowIn f))) \<and>
     out_ok w s (\<lambda>f. ifs n (FlowIn f)) (ifs n QOut) \<and> distinct w \<and>
     (j \<longleftrightarrow> OwnJob () \<in> set (jobs (grp n))) \<and> (s \<noteq> None \<longrightarrow> \<not> j)"

definition queue_ok ::
    "nat list \<Rightarrow> nat option \<Rightarrow> bool \<Rightarrow> (nat \<Rightarrow> bool) \<Rightarrow> (nat \<Rightarrow> ptr) \<Rightarrow> (nat \<Rightarrow> int) \<Rightarrow>
     (qport, unit) net \<Rightarrow> bool" where
  "queue_ok w s j iw data len n \<longleftrightarrow> queue_core w s j iw data len n \<and> (w \<noteq> [] \<longrightarrow> s \<noteq> None \<or> j)"

lemma core_flow: "queue_core w s j iw data len n \<Longrightarrow>
    flow_ok (mtu (ifs n QOut)) w s iw data len f (ifs n (FlowIn f))"
  by (simp add: queue_core_def)

lemma core_out: "queue_core w s j iw data len n \<Longrightarrow>
    out_ok w s (\<lambda>f. ifs n (FlowIn f)) (ifs n QOut)"
  by (simp add: queue_core_def)

text \<open>Changing the arguments away from one flow, and replacing one interface.\<close>

lemma core_intro:
  assumes "queue_core w s j iw data len n"
    and "\<And>g. g \<noteq> f \<Longrightarrow> ifs n' (FlowIn g) = ifs n (FlowIn g) \<and> (g \<in> set w' \<longleftrightarrow> g \<in> set w) \<and>
      (s' = Some g \<longleftrightarrow> s = Some g) \<and> iw' g = iw g \<and> data' g = data g \<and> len' g = len g"
    and "mtu (ifs n' QOut) = mtu (ifs n QOut)"
    and "flow_ok (mtu (ifs n QOut)) w' s' iw' data' len' f (ifs n' (FlowIn f))"
    and "out_ok w' s' (\<lambda>f. ifs n' (FlowIn f)) (ifs n' QOut)" and "distinct w'"
    and "j' \<longleftrightarrow> OwnJob () \<in> set (jobs (grp n'))" and "s' \<noteq> None \<longrightarrow> \<not> j'"
  shows "queue_core w' s' j' iw' data' len' n'"
proof -
  have "flow_ok (mtu (ifs n' QOut)) w' s' iw' data' len' g (ifs n' (FlowIn g))" for g
  proof (cases "g = f")
    case False
    with assms(2) [of g] assms(3) core_flow [OF assms(1), of g] show ?thesis
      by (simp add: flow_ok_def)
  qed (use assms(3,4) in simp)
  with assms(5-) show ?thesis by (simp add: queue_core_def)
qed

lemma core_job: "queue_core w s j iw data len n \<Longrightarrow> j \<longleftrightarrow> OwnJob () \<in> set (jobs (grp n))"
  and core_idle: "queue_core w s j iw data len n \<Longrightarrow> s \<noteq> None \<longrightarrow> \<not> j"
  and core_distinct: "queue_core w s j iw data len n \<Longrightarrow> distinct w"
  unfolding queue_core_def by blast+

lemmas core_parts = core_out core_distinct core_job core_idle

lemma core_enqueue:
  assumes "queue_core w s j iw data len n" and "net_ok n"
    and "state (ifs n (FlowIn f)) = IF_OPERATION_PENDING"
    and "set w' = insert f (set w)" and "distinct w'"
  shows "queue_core w' s j (iw(f := True)) (data(f := op_data (ifs n (FlowIn f))))
      (len(f := op_len (ifs n (FlowIn f)))) (go_busy (FlowIn f) n)" and "f \<notin> set w" and "s \<noteq> Some f"
proof -
  note i = core_flow [OF assms(1), of f]
  with assms(3) show busy: "f \<notin> set w" "s \<noteq> Some f" by (auto simp: flow_ok_def)
  show "queue_core w' s j (iw(f := True)) (data(f := op_data (ifs n (FlowIn f))))
      (len(f := op_len (ifs n (FlowIn f)))) (go_busy (FlowIn f) n)"
  proof (rule core_intro [OF assms(1), where f = f])
    show "flow_ok (mtu (ifs n QOut)) w' s (iw(f := True)) (data(f := op_data (ifs n (FlowIn f))))
       (len(f := op_len (ifs n (FlowIn f)))) f (ifs (go_busy (FlowIn f) n) (FlowIn f))"
      using i assms(3,4) by (simp add: flow_ok_def)
    show "out_ok w' s (\<lambda>g. ifs (go_busy (FlowIn f) n) (FlowIn g)) (ifs (go_busy (FlowIn f) n) QOut)"
      using core_out [OF assms(1)] busy assms(4) by (auto simp: out_ok_def split: option.splits)
  qed (use assms core_parts(3,4) [OF assms(1)] in auto)
qed

text \<open>Giving the output the packet of a waiting flow.\<close>

lemma core_schedule:
  assumes "queue_core w None False iw data len n" and "net_ok n" and "f \<in> set w"
    and "set w' = set w - {f}" and "distinct w'"
  shows "call_ok (PP_Send QOut (data f) (len f)) n" and "queue_core w' (Some f) False (iw(f := False)) data len
      (PacketPassInterface_Sender_Send QOut (data f) (len f) n)"
proof -
  note i = core_flow [OF assms(1), of f] and o = core_out [OF assms(1)]
  with assms(3) net_ok_args [OF assms(2), of "FlowIn f"]
  show "call_ok (PP_Send QOut (data f) (len f)) n"
    by (auto simp: args_ok_def flow_ok_def out_ok_def)
  show "queue_core w' (Some f) False (iw(f := False)) data len
      (PacketPassInterface_Sender_Send QOut (data f) (len f) n)"
  proof (rule core_intro [OF assms(1), where f = f])
    show "flow_ok (mtu (ifs n QOut)) w' (Some f) (iw(f := False)) data len f
        (ifs (PacketPassInterface_Sender_Send QOut (data f) (len f) n) (FlowIn f))"
      using i assms(3,4) by (simp add: flow_ok_def interface_defs)
    show "out_ok w' (Some f) (\<lambda>fa. ifs (PacketPassInterface_Sender_Send QOut (data f) (len f) n) (FlowIn fa))
        (ifs (PacketPassInterface_Sender_Send QOut (data f) (len f) n) QOut)"
      using i o assms(3,4) by (simp add: flow_ok_def out_ok_def interface_defs)
  qed (use assms core_parts(3) [OF assms(1)] in \<open>auto simp: interface_defs\<close>)
qed

lemma core_sent:
  assumes "queue_core w (Some f) j iw data len n" and "net_ok n"
    and "state (ifs n QOut) = IF_DONE_PENDING"
  shows "call_ok (PP_Done (FlowIn f)) (set_job (OwnJob ()) (go_none QOut n))" and "\<not> j" and "\<not> iw f"
    and "queue_core w None True iw data len
      (PacketPassInterface_Done (FlowIn f) (set_job (OwnJob ()) (go_none QOut n)))"
proof -
  note i = core_flow [OF assms(1), of f] and o = core_out [OF assms(1)]
  from i show "call_ok (PP_Done (FlowIn f)) (set_job (OwnJob ()) (go_none QOut n))"
    by (simp add: flow_ok_def)
  from i o show "\<not> iw f" by (simp add: flow_ok_def out_ok_def)
  from core_idle [OF assms(1)] show "\<not> j" by simp
  show "queue_core w None True iw data len
      (PacketPassInterface_Done (FlowIn f) (set_job (OwnJob ()) (go_none QOut n)))"
    by (rule core_intro [OF assms(1), where f = f])
      (use i o assms(2) core_parts(2) [OF assms(1)] in \<open>auto simp: interface_defs flow_ok_def out_ok_def\<close>)
qed

lemma core_job_run:
  "queue_core w s True iw data len n \<Longrightarrow> net_ok n \<Longrightarrow>
   s = None \<and> queue_core w s False iw data len (unset_job (OwnJob ()) n)"
  by (auto simp: queue_core_def)

text \<open>The moves that concern the interfaces alone.\<close>

lemma core_ok_intro:
  assumes "queue_ok w s j iw data len n"
    and "\<And>g. flow_ok (mtu (ifs n QOut)) w s iw data len g (ifs n (FlowIn g)) \<Longrightarrow>
      flow_ok (mtu (ifs n' QOut)) w s iw data len g (ifs n' (FlowIn g))"
    and "out_ok w s (\<lambda>f. ifs n (FlowIn f)) (ifs n QOut) \<Longrightarrow> out_ok w s (\<lambda>f. ifs n' (FlowIn f)) (ifs n' QOut)"
    and "OwnJob () \<in> set (jobs (grp n')) \<longleftrightarrow> OwnJob () \<in> set (jobs (grp n))"
  shows "queue_ok w s j iw data len n'"
  using assms unfolding queue_ok_def queue_core_def by blast

lemma ok_busy:
  "queue_ok w s j iw data len n \<Longrightarrow> net_ok n \<Longrightarrow> state (ifs n QOut) = IF_OPERATION_PENDING \<Longrightarrow>
   queue_ok w s j iw data len (go_busy QOut n)"
  by (erule core_ok_intro) (auto simp: out_ok_def split: option.splits)

lemma ok_none:
  "queue_ok w s j iw data len n \<Longrightarrow> net_ok n \<Longrightarrow> state (ifs n (FlowIn f)) = IF_DONE_PENDING \<Longrightarrow>
   queue_ok w s j iw data len (go_none (FlowIn f) n)"
  by (erule core_ok_intro) (auto simp: flow_ok_def out_ok_def split: option.splits)

lemma ok_cancel:
  "queue_ok w s j iw data len n \<Longrightarrow> net_ok n \<Longrightarrow>
   queue_ok w s j iw data len (unset_job (JobRequestCancel p) n)"
  by (erule core_ok_intro) auto

lemma ok_env:
  assumes "queue_ok w s j iw data len n" and "net_ok n"
    and "env_may (\<lambda>p. p \<noteq> QOut) (c :: (qport, unit, 'u) call)" and "call_ok c n"
  shows "queue_ok w s j iw data len (do_call c n)"
proof -
  have core: "queue_core w s j iw data len n" using assms(1) by (simp add: queue_ok_def)
  have kind: "if_kind (ifs n p) = PacketPass" for p
    using core_flow [OF core] core_out [OF core] by (cases p) (auto simp: flow_ok_def out_ok_def)
  have rc: "\<not> has_requestcancel (ifs n (FlowIn f))" for f
    using core_flow [OF core, of f] by (simp add: flow_ok_def)
  from assms(3,4) show ?thesis
  proof (cases c)
    case (PP_Send p d l)
    with assms(3) obtain f where p: "p = FlowIn f" by (cases p) auto
    have idle: "f \<notin> set w" "s \<noteq> Some f"
      using core_flow [OF core, of f] assms(4) PP_Send p by (auto simp: flow_ok_def)
    have "queue_ok w s j iw data len (PacketPassInterface_Sender_Send (FlowIn f) d l n)"
      by (rule core_ok_intro [OF assms(1)])
        (use idle assms(2,4) PP_Send p in \<open>auto simp: interface_defs flow_ok_def out_ok_def split: option.splits\<close>)
    with PP_Send p show ?thesis by simp
  next
    case (PP_Done p)
    with assms(3) have p: "p = QOut" by simp
    have "queue_ok w s j iw data len (PacketPassInterface_Done QOut n)"
      by (rule core_ok_intro [OF assms(1)])
        (use PP_Done p assms in \<open>auto simp: interface_defs flow_ok_def out_ok_def split: option.splits\<close>)
    with PP_Done p show ?thesis by simp
  next
    case (PP_RequestCancel p)
    with assms(3,4) rc show ?thesis by (cases p) auto
  qed (use kind in auto)
qed

text \<open>Freeing a flow that is not being sent and initialising a new one.\<close>

definition renew :: "nat \<Rightarrow> int \<Rightarrow> (qport, 'c) net \<Rightarrow> (qport, 'c) net" where
  "renew f m n = PacketPassInterface_Sender_Init (FlowIn f)
     (PacketPassInterface_Init (FlowIn f) m (PacketPassInterface_Free (FlowIn f) n))"

lemma renew_simps [simp]:
  "ifs (renew f m n) = (ifs n)(FlowIn f := (ifs n (FlowIn f))\<lparr>if_kind := PacketPass, mtu := m,
     has_requestcancel := False, has_user := True, state := IF_NONE\<rparr>)"
  "net_ok n \<Longrightarrow> net_ok (renew f m n)"
  "net_ok n \<Longrightarrow> OwnJob c \<in> set (jobs (grp (renew f m n))) \<longleftrightarrow> OwnJob c \<in> set (jobs (grp n))"
  by (simp_all add: renew_def)
    (auto simp: interface_defs free_job_def BPending_defs net_ok_def group_inv_def)

lemma ok_renew:
  assumes "queue_ok w s j iw data len n" and "net_ok n" and "s \<noteq> Some f"
    and "set w' = set w - {f}" and "distinct w'"
  shows "queue_ok w' s j (iw(f := False)) data len (renew f (mtu (ifs n QOut)) n)"
proof -
  have core: "queue_core w s j iw data len n" and "w \<noteq> [] \<longrightarrow> s \<noteq> None \<or> j"
    using assms(1) by (simp_all add: queue_ok_def)
  moreover have "w = [] \<Longrightarrow> w' = []" using assms(4) by simp
  moreover have "queue_core w' s j (iw(f := False)) data len (renew f (mtu (ifs n QOut)) n)"
    by (rule core_intro [OF core, where f = f])
      (use assms core_parts [OF core] in \<open>auto simp: flow_ok_def out_ok_def split: option.splits\<close>)
  ultimately show ?thesis by (auto simp: queue_ok_def)
qed

section \<open>The interface of a shared output\<close>

text \<open>What the contract needs of a queue: its view (the six values of \<open>queue_core\<close>) and how its
  handlers change the view, under an invariant \<open>fine\<close> of its own that may depend on whether
  the output supports cancel and on which flows have a user.  \<open>harmless\<close> calls are satisfied assertions and user handlers;
  \<open>scheduled\<close> is the choice of some waiting flow, \<open>enqueued\<close> its insertion at any place.\<close>

record queue_view =
  v_waiting :: "nat list"
  v_sending :: "nat option"
  v_job :: bool
  v_is_waiting :: "nat \<Rightarrow> bool"
  v_data :: "nat \<Rightarrow> ptr"
  v_len :: "nat \<Rightarrow> int"

abbreviation view_core :: "queue_view \<Rightarrow> (qport, unit) net \<Rightarrow> bool" where
  "view_core v \<equiv> queue_core (v_waiting v) (v_sending v) (v_job v) (v_is_waiting v) (v_data v) (v_len v)"

abbreviation view_inv :: "queue_view \<Rightarrow> (qport, unit) net \<Rightarrow> bool" where
  "view_inv v \<equiv> queue_ok (v_waiting v) (v_sending v) (v_job v) (v_is_waiting v) (v_data v) (v_len v)"

definition view_ok :: "queue_view \<Rightarrow> bool" where
  "view_ok v \<longleftrightarrow> distinct (v_waiting v) \<and> (\<forall>f. v_is_waiting v f \<longleftrightarrow> f \<in> set (v_waiting v)) \<and>
     (\<forall>f. v_sending v = Some f \<longrightarrow> f \<notin> set (v_waiting v) \<and> \<not> v_job v)"

fun harmless :: "queue_call \<Rightarrow> bool" where
  "harmless (Assert b) = b"
| "harmless (UserCall u) = True"
| "harmless _ = False"

definition scheduled :: "queue_view \<Rightarrow> queue_view \<Rightarrow> queue_call list \<Rightarrow> bool" where
  "scheduled v v' cs \<longleftrightarrow> (\<exists>f w' as. f \<in> set (v_waiting v) \<and> set w' = set (v_waiting v) - {f} \<and> distinct w' \<and>
     v' = v\<lparr>v_waiting := w', v_sending := Some f, v_is_waiting := (v_is_waiting v)(f := False)\<rparr> \<and>
     cs = as @ [PP_Send QOut (v_data v f) (v_len v f)] \<and> list_all harmless as)"

definition enqueued :: "nat \<Rightarrow> ptr \<Rightarrow> int \<Rightarrow> queue_view \<Rightarrow> queue_view \<Rightarrow> bool" where
  "enqueued f d l v v' \<longleftrightarrow> (\<exists>w'. set w' = insert f (set (v_waiting v)) \<and> distinct w' \<and>
     v' = v\<lparr>v_waiting := w', v_is_waiting := (v_is_waiting v)(f := True), v_data := (v_data v)(f := d),
       v_len := (v_len v)(f := l)\<rparr>)"

definition renewed_view :: "nat \<Rightarrow> queue_view \<Rightarrow> queue_view \<Rightarrow> bool" where
  "renewed_view f v v' \<longleftrightarrow> v_sending v \<noteq> Some f \<and> (\<exists>w'. set w' = set (v_waiting v) - {f} \<and> distinct w' \<and>
     v' = v\<lparr>v_waiting := w', v_is_waiting := (v_is_waiting v)(f := False)\<rparr>)"

lemma scheduled_Cons: "harmless c \<Longrightarrow> scheduled v v' cs \<Longrightarrow> scheduled v v' (c # cs)"
  unfolding scheduled_def by (metis append_Cons list.pred_inject(2))

lemma view_ok_core: "view_core v n \<Longrightarrow> view_ok v"
  using core_flow [of "v_waiting v" "v_sending v" "v_job v" "v_is_waiting v" "v_data v" "v_len v" n]
    core_parts [of "v_waiting v" "v_sending v" "v_job v" "v_is_waiting v" "v_data v" "v_len v" n]
  by (auto simp: view_ok_def flow_ok_def out_ok_def)

lemma exec_harmless: "list_all harmless cs \<Longrightarrow> exec_calls (cs @ ds) n = exec_calls ds n"
proof (induction cs)
  case (Cons c cs)
  then show ?case by (cases c) auto
qed simp

lemma harmless_plain: "list_all harmless cs \<Longrightarrow> list_all plain_call cs"
  by (erule list.pred_mono_strong) (auto elim!: harmless.elims(2))

definition users :: "(qport, unit) net \<Rightarrow> nat \<Rightarrow> bool" where
  "users n f \<longleftrightarrow> has_user (ifs n (FlowIn f))"

lemma users_simps [simp]:
  "users (go_busy p n) = users n" "users (go_none p n) = users n"
  "users (set_job k n) = users n" "users (unset_job k n) = users n"
  "users (PacketPassInterface_Sender_Send p d l n) = users n"
  "users (PacketPassInterface_Sender_RequestCancel p n) = users n"
  "users (PacketPassInterface_Done p n) = users n"
  "users (n\<lparr>timer_running := t\<rparr>) = users n"
  "users (renew f m n) = (users n)(f := True)"
  by (auto simp: users_def fun_eq_iff interface_defs Let_def)

locale shared_output =
  fixes C :: "('q, qport, unit, queue_event, queue_api) component" and view :: "'q \<Rightarrow> queue_view"
    and fine :: "'q \<Rightarrow> bool \<Rightarrow> (nat \<Rightarrow> bool) \<Rightarrow> bool"
  assumes provides: "provides C p \<longleftrightarrow> p \<noteq> QOut"
    and no_timer: "on_timer C c q = (q, [])"
    and input: "fine q can us \<Longrightarrow> us f \<Longrightarrow> view_ok (view q) \<Longrightarrow> f \<notin> set (v_waiting (view q)) \<Longrightarrow>
      v_sending (view q) \<noteq> Some f \<Longrightarrow> on_operation C (FlowIn f) d l q = (q', cs) \<Longrightarrow>
      fine q' can us \<and> (\<exists>v1. enqueued f d l (view q) v1 \<and>
        (if v_sending v1 = None \<and> \<not> v_job v1 then scheduled v1 (view q') cs
         else view q' = v1 \<and> list_all harmless cs))"
    and sent: "fine q can us \<Longrightarrow> view_ok (view q) \<Longrightarrow> v_sending (view q) = Some f \<Longrightarrow>
      on_done C QOut l q = (q', cs) \<Longrightarrow>
      fine q' can us \<and> view q' = (view q)\<lparr>v_sending := None, v_job := True\<rparr> \<and>
      (\<exists>as bs. cs = as @ [Job_Set (), PP_Done (FlowIn f)] @ bs \<and> list_all harmless as \<and> list_all harmless bs)"
    and job: "fine q can us \<Longrightarrow> view_ok (view q) \<Longrightarrow> v_sending (view q) = None \<Longrightarrow> v_job (view q) \<Longrightarrow>
      on_job C () q = (q', cs) \<Longrightarrow>
      fine q' can us \<and> (if v_waiting (view q) = [] then view q' = (view q)\<lparr>v_job := False\<rparr> \<and> list_all harmless cs
        else scheduled ((view q)\<lparr>v_job := False\<rparr>) (view q') cs)"
    and api: "fine q (has_requestcancel (ifs n QOut)) us \<Longrightarrow> view_ok (view q) \<Longrightarrow> api_ok C e q n \<Longrightarrow>
      on_api C e q = (q', cs) \<Longrightarrow>
      ((\<exists>f as bs. fine q' (has_requestcancel (ifs n QOut)) (us(f := True)) \<and>
          renewed_view f (view q) (view q') \<and> list_all harmless as \<and> list_all harmless bs \<and>
          cs = as @ [PP_Free (FlowIn f)] @ bs @ [PP_Init (FlowIn f) (mtu (ifs n QOut)), PP_Sender_Init (FlowIn f)]) \<or>
       fine q' (has_requestcancel (ifs n QOut)) us \<and> view q' = view q \<and> (\<exists>as bs. cs = as @ bs \<and> list_all harmless as \<and>
         (bs = [] \<or> bs = [PP_RequestCancel QOut] \<and> v_sending (view q) \<noteq> None \<and>
            has_requestcancel (ifs n QOut))))"
begin

definition queue_inv :: "'q \<Rightarrow> (qport, unit) net \<Rightarrow> bool" where
  "queue_inv q n \<longleftrightarrow> fine q (has_requestcancel (ifs n QOut)) (users n) \<and> view_inv (view q) n"

lemma scheduled_handled:
  assumes "scheduled v (view (fst r)) (snd r)" and "view_core v n" and "v_sending v = None"
    and "\<not> v_job v" and "net_ok n" and "fine (fst r) (has_requestcancel (ifs n QOut)) (users n)"
  shows "handled queue_inv r n"
proof -
  from assms(1) obtain f w' as where f: "f \<in> set (v_waiting v)" "set w' = set (v_waiting v) - {f}" "distinct w'"
    and v': "view (fst r) = v\<lparr>v_waiting := w', v_sending := Some f, v_is_waiting := (v_is_waiting v)(f := False)\<rparr>"
    and cs: "snd r = as @ [PP_Send QOut (v_data v f) (v_len v f)]" "list_all harmless as"
    by (auto simp: scheduled_def)
  let ?n = "PacketPassInterface_Sender_Send QOut (v_data v f) (v_len v f) n"
  from assms(2-4) have "queue_core (v_waiting v) None False (v_is_waiting v) (v_data v) (v_len v) n" by simp
  from core_schedule [OF this assms(5) f]
  have "call_ok (PP_Send QOut (v_data v f) (v_len v f) :: queue_call) n"
    and "queue_core w' (Some f) False ((v_is_waiting v)(f := False)) (v_data v) (v_len v) ?n" by simp_all
  moreover have "has_requestcancel (ifs ?n QOut) = has_requestcancel (ifs n QOut)" by (simp add: interface_defs)
  ultimately show ?thesis
    using cs v' assms(4,6) harmless_plain [OF cs(2)]
    by (simp add: handled_def exec_harmless queue_inv_def queue_ok_def)
qed

lemma step_input:
  assumes "queue_inv q n" and "net_ok n" and "state (ifs n (FlowIn f)) = IF_OPERATION_PENDING"
  shows "handled queue_inv (on_operation C (FlowIn f) (op_data (ifs n (FlowIn f)))
    (op_arg (ifs n (FlowIn f))) q) (go_busy (FlowIn f) n)"
proof -
  have core: "view_core (view q) n" and fine: "fine q (has_requestcancel (ifs n QOut)) (users n)"
    and work: "v_waiting (view q) \<noteq> [] \<longrightarrow> v_sending (view q) \<noteq> None \<or> v_job (view q)"
    using assms(1) by (simp_all add: queue_inv_def queue_ok_def)
  have new: "f \<notin> set (v_waiting (view q))" "v_sending (view q) \<noteq> Some f" "if_kind (ifs n (FlowIn f)) = PacketPass"
    and user: "users n f"
    using core_flow [OF core, of f] assms(3) by (auto simp: flow_ok_def users_def)
  let ?r = "on_operation C (FlowIn f) (op_data (ifs n (FlowIn f))) (op_arg (ifs n (FlowIn f))) q"
  from input [OF fine user view_ok_core [OF core] new(1,2), of _ _ "fst ?r" "snd ?r"] obtain v1 where
    fine': "fine (fst ?r) (has_requestcancel (ifs n QOut)) (users n)"
    and v1: "enqueued f (op_data (ifs n (FlowIn f))) (op_len (ifs n (FlowIn f))) (view q) v1"
    and r: "if v_sending v1 = None \<and> \<not> v_job v1 then scheduled v1 (view (fst ?r)) (snd ?r)
         else view (fst ?r) = v1 \<and> list_all harmless (snd ?r)"
    using new(3) by (auto simp: op_arg_def)
  from v1 obtain w' where w': "set w' = insert f (set (v_waiting (view q)))" "distinct w'"
    and v: "v1 = (view q)\<lparr>v_waiting := w', v_is_waiting := (v_is_waiting (view q))(f := True),
      v_data := (v_data (view q))(f := op_data (ifs n (FlowIn f))),
      v_len := (v_len (view q))(f := op_len (ifs n (FlowIn f)))\<rparr>"
    by (auto simp: enqueued_def)
  from core_enqueue(1) [OF core assms(2,3) w'] have v1_core: "view_core v1 (go_busy (FlowIn f) n)" by (simp add: v)
  show ?thesis
  proof (cases "v_sending v1 = None \<and> \<not> v_job v1")
    case True
    with r v1_core fine' assms show ?thesis by (intro scheduled_handled [of v1]) simp_all
  next
    case False
    with r v1_core fine' harmless_plain [of "snd ?r"] exec_harmless [of "snd ?r" "[]"] show ?thesis
      by (auto simp: handled_def queue_inv_def queue_ok_def)
  qed
qed

lemma step_sent:
  assumes "queue_inv q n" and "net_ok n" and "state (ifs n QOut) = IF_DONE_PENDING"
  shows "handled queue_inv (on_done C QOut l q) (go_none QOut n)"
proof -
  have core: "view_core (view q) n" and fine: "fine q (has_requestcancel (ifs n QOut)) (users n)"
    using assms(1) by (simp_all add: queue_inv_def queue_ok_def)
  obtain f where s: "v_sending (view q) = Some f"
    using core_out [OF core] assms(3) by (auto simp: out_ok_def split: option.splits)
  let ?r = "on_done C QOut l q"
  from sent [OF fine view_ok_core [OF core] s, of l "fst ?r" "snd ?r"] obtain as bs where
    r: "fine (fst ?r) (has_requestcancel (ifs n QOut)) (users n)" "view (fst ?r) = (view q)\<lparr>v_sending := None, v_job := True\<rparr>"
      "snd ?r = as @ [Job_Set (), PP_Done (FlowIn f)] @ bs" "list_all harmless as" "list_all harmless bs"
    by auto
  from core_sent [OF core [unfolded s] assms(2,3)] r
    harmless_plain [OF r(4)] harmless_plain [OF r(5)] exec_harmless [OF r(5), of "[]"]
  show ?thesis
    by (simp add: handled_def exec_harmless queue_inv_def queue_ok_def)
      (simp add: interface_defs)
qed

lemma step_job:
  assumes "queue_inv q n" and "net_ok n" and "OwnJob c \<in> set (jobs (grp n))"
  shows "handled queue_inv (on_job C c q) (unset_job (OwnJob c) n)"
proof -
  have core: "view_core (view q) n" and fine: "fine q (has_requestcancel (ifs n QOut)) (users n)"
    using assms(1) by (simp_all add: queue_inv_def queue_ok_def)
  have j: "v_job (view q)" using core_job [OF core] assms(3) by (cases c) simp
  with core core_job_run [OF _ assms(2), of "v_waiting (view q)" "v_sending (view q)"]
  have s: "v_sending (view q) = None" and run: "view_core ((view q)\<lparr>v_job := False\<rparr>) (unset_job (OwnJob ()) n)"
    by auto
  let ?r = "on_job C () q"
  note r = job [OF fine view_ok_core [OF core] s j, of "fst ?r" "snd ?r"]
  show ?thesis
  proof (cases "v_waiting (view q) = []")
    case True
    with r s run harmless_plain [of "snd ?r"] exec_harmless [of "snd ?r" "[]"] show ?thesis
      by (cases c) (auto simp: handled_def queue_inv_def queue_ok_def)
  next
    case False
    with r s run assms(2) have "handled queue_inv ?r (unset_job (OwnJob ()) n)"
      by (intro scheduled_handled [of "(view q)\<lparr>v_job := False\<rparr>"]) simp_all
    then show ?thesis by (cases c) simp
  qed
qed

lemma step_api:
  assumes "queue_inv q n" and "net_ok n" and "api_ok C e q n"
  shows "good queue_inv (finish (on_api C e q) n)"
proof -
  have core: "view_core (view q) n" and fine: "fine q (has_requestcancel (ifs n QOut)) (users n)"
    using assms(1) by (simp_all add: queue_inv_def queue_ok_def)
  let ?r = "on_api C e q"
  have r: "(\<exists>f as bs. fine (fst ?r) (has_requestcancel (ifs n QOut)) ((users n)(f := True)) \<and>
          renewed_view f (view q) (view (fst ?r)) \<and> list_all harmless as \<and> list_all harmless bs \<and>
          snd ?r = as @ [PP_Free (FlowIn f)] @ bs @ [PP_Init (FlowIn f) (mtu (ifs n QOut)), PP_Sender_Init (FlowIn f)]) \<or>
       fine (fst ?r) (has_requestcancel (ifs n QOut)) (users n) \<and>
       view (fst ?r) = view q \<and> (\<exists>as bs. snd ?r = as @ bs \<and> list_all harmless as \<and>
         (bs = [] \<or> bs = [PP_RequestCancel QOut] \<and> v_sending (view q) \<noteq> None \<and> has_requestcancel (ifs n QOut)))"
    using api [OF fine view_ok_core [OF core] assms(3), of "fst ?r" "snd ?r"] by auto
  from r show ?thesis
  proof (elim disjE exE conjE)
    fix f as bs
    assume fine': "fine (fst ?r) (has_requestcancel (ifs n QOut)) ((users n)(f := True))" and "renewed_view f (view q) (view (fst ?r))" and h: "list_all harmless as" "list_all harmless bs"
      and cs: "snd ?r = as @ [PP_Free (FlowIn f)] @ bs @
        [PP_Init (FlowIn f) (mtu (ifs n QOut)), PP_Sender_Init (FlowIn f)]"
    then obtain w' where f: "v_sending (view q) \<noteq> Some f" "set w' = set (v_waiting (view q)) - {f}" "distinct w'"
      and v: "view (fst ?r) = (view q)\<lparr>v_waiting := w', v_is_waiting := (v_is_waiting (view q))(f := False)\<rparr>"
      by (auto simp: renewed_view_def)
    have "view_inv (view (fst ?r)) (renew f (mtu (ifs n QOut)) n)"
      using ok_renew [OF _ assms(2) f] assms(1) by (simp add: v queue_inv_def)
    moreover have "exec_calls (snd ?r) n = Some (renew f (mtu (ifs n QOut)) n)"
    proof -
      have "0 \<le> mtu (ifs n QOut)" using core_out [OF core] by (simp add: out_ok_def)
      with h show ?thesis by (simp add: cs exec_harmless renew_def)
    qed
    ultimately show ?thesis using fine' assms(2) by (simp add: finish_def queue_inv_def)
  next
    fix as bs
    assume fine': "fine (fst ?r) (has_requestcancel (ifs n QOut)) (users n)" and v: "view (fst ?r) = view q" and cs: "snd ?r = as @ bs" "list_all harmless as" and "bs = []"
    with exec_harmless [OF cs(2), of "[]"] fine' assms show ?thesis by (simp add: finish_def queue_inv_def)
  next
    fix as bs
    assume fine': "fine (fst ?r) (has_requestcancel (ifs n QOut)) (users n)" and v: "view (fst ?r) = view q" and cs: "snd ?r = as @ bs" "list_all harmless as"
      "bs = [PP_RequestCancel QOut]" "v_sending (view q) \<noteq> None" "has_requestcancel (ifs n QOut)"
    have "call_ok (PP_RequestCancel QOut :: queue_call) n"
      using core_out [OF core] cs(4,5) by (auto simp: out_ok_def split: option.splits)
    moreover have "view_inv (view q) (PacketPassInterface_Sender_RequestCancel QOut n)"
      by (rule core_ok_intro [of _ _ _ _ _ _ n])
        (use assms(1,2) in \<open>auto simp: queue_inv_def interface_defs Let_def out_ok_def split: option.splits\<close>)
    moreover have "has_requestcancel (ifs (PacketPassInterface_Sender_RequestCancel QOut n) QOut)"
      using cs(5) by (simp add: interface_defs Let_def)
    moreover have "net_ok (PacketPassInterface_Sender_RequestCancel QOut n)"
      using do_call_net_ok [of n "PP_RequestCancel QOut"] calculation(1) assms(2) by simp
    ultimately show ?thesis
      using v cs fine' by (simp add: finish_def exec_harmless queue_inv_def)
  qed
qed

lemma env_cancel_kept:
  "env_may (provides C) (k :: (qport, unit, 'u) call) \<Longrightarrow>
   has_requestcancel (ifs (do_call k n) p) = has_requestcancel (ifs n p)"
  by (cases k) (auto simp: interface_defs Let_def)

lemma env_users_kept: "env_may (provides C) (k :: (qport, unit, 'u) call) \<Longrightarrow> users (do_call k n) = users n"
  by (cases k) (auto simp: interface_defs Let_def users_def fun_eq_iff)

end

lemma finish_state: "finish r n = Some (q', n') \<Longrightarrow> q' = fst r"
  by (auto simp: finish_def)

sublocale shared_output \<subseteq> flow_contract C queue_inv
proof (unfold_locales, goal_cases)
  case (1 q n p)
  then obtain f where "p = FlowIn f" by (cases p) (auto simp: provides)
  with 1 show ?case by (simp add: step_input)
next
  case (2 q n p)
  then have "p = QOut" by (simp add: provides)
  with 2 show ?case by (simp add: queue_inv_def ok_busy)
next
  case (3 q n p)
  then obtain f where f: "p = FlowIn f" by (cases p) (auto simp: provides)
  have "view_core (view q) n" using 3(1) by (simp add: queue_inv_def queue_ok_def)
  from core_flow [OF this, of f] 3 f show ?case by (simp add: flow_ok_def)
next
  case (4 q n p)
  then show ?case by (simp add: queue_inv_def ok_cancel)
next
  case (5 q n p)
  then have "p = QOut" by (simp add: provides)
  with 5 show ?case by (simp add: step_sent)
next
  case (6 q n p)
  then obtain f where "p = FlowIn f" by (cases p) (auto simp: provides)
  with 6 show ?case by (simp add: queue_inv_def ok_none)
next
  case (7 q n c)
  then show ?case by (rule step_job)
next
  case (8 q n c)
  have "view_inv (view q) (n\<lparr>timer_running := (timer_running n)(c := False)\<rparr>)"
    by (rule core_ok_intro [where n = n]) (use 8 in \<open>simp_all add: queue_inv_def\<close>)
  with 8 show ?case by (simp add: handled_def no_timer queue_inv_def)
next
  case (9 q n k)
  have "provides C = (\<lambda>p. p \<noteq> QOut)" using provides by blast
  with 9 ok_env [of _ _ _ _ _ _ n k] show ?case by (simp add: queue_inv_def env_cancel_kept env_users_kept)
next
  case (10 q n e)
  then show ?case by (rule step_api)
qed

text \<open>What a job does to the queue, and the situation it finds.\<close>

context shared_output
begin

lemma job_effect:
  assumes "queue_inv q n" and "net_ok n" and "j \<in> set (jobs (grp n))"
  obtains q' n' where "run_job C j (q, n) = Some (q', n')" and "view_ok (view q)"
    and "case j of
        JobOperation (FlowIn f) \<Rightarrow> f \<notin> set (v_waiting (view q)) \<and> v_sending (view q) \<noteq> Some f \<and>
          q' = fst (on_operation C (FlowIn f) (op_data (ifs n (FlowIn f))) (op_len (ifs n (FlowIn f))) q)
      | JobDone QOut \<Rightarrow> (\<exists>f. v_sending (view q) = Some f) \<and> q' = fst (on_done C QOut 0 q)
      | OwnJob c \<Rightarrow> v_sending (view q) = None \<and> v_job (view q) \<and> q' = fst (on_job C () q)
      | _ \<Rightarrow> q' = q"
proof -
  have core: "view_core (view q) n" using assms(1) by (simp add: queue_inv_def queue_ok_def)
  have kind: "if_kind (ifs n p) = PacketPass" for p
    using core_flow [OF core] core_out [OF core] by (cases p) (auto simp: flow_ok_def out_ok_def)
  have rc: "\<not> has_requestcancel (ifs n (FlowIn f))" for f
    using core_flow [OF core, of f] by (simp add: flow_ok_def)
  from run_job_good [OF assms] obtain q' n' where run: "run_job C j (q, n) = Some (q', n')"
    by (auto simp: good_def split: option.splits)
  note state = pending_state [OF assms(2)]
  have "case j of
        JobOperation (FlowIn f) \<Rightarrow> f \<notin> set (v_waiting (view q)) \<and> v_sending (view q) \<noteq> Some f \<and>
          q' = fst (on_operation C (FlowIn f) (op_data (ifs n (FlowIn f))) (op_len (ifs n (FlowIn f))) q)
      | JobDone QOut \<Rightarrow> (\<exists>f. v_sending (view q) = Some f) \<and> q' = fst (on_done C QOut 0 q)
      | OwnJob c \<Rightarrow> v_sending (view q) = None \<and> v_job (view q) \<and> q' = fst (on_job C () q)
      | _ \<Rightarrow> q' = q"
  proof (cases j)
    case (JobOperation p)
    show ?thesis
    proof (cases p)
      case (FlowIn f)
      have "run_job C j (q, n) = finish (on_operation C p (op_data (ifs n p)) (op_arg (ifs n p)) q) (go_busy p n)"
        using run_operation [OF assms(2), of p C q] assms(3) JobOperation FlowIn by (simp add: provides)
      with run have "q' = fst (on_operation C p (op_data (ifs n p)) (op_len (ifs n p)) q)"
        using finish_state kind [of p] by (metis op_arg_def if_kind.distinct(1))
      moreover have "f \<notin> set (v_waiting (view q))" "v_sending (view q) \<noteq> Some f"
        using state(1) [of p] core_flow [OF core, of f] assms(3) JobOperation FlowIn by (auto simp: flow_ok_def)
      ultimately show ?thesis by (simp add: JobOperation FlowIn)
    next
      case QOut
      with run JobOperation assms(3) run_operation [OF assms(2), of QOut C q] show ?thesis by (simp add: provides)
    qed
  next
    case (JobRequestCancel p)
    with run assms(3) run_cancel [OF assms(2), of p C q] rc assms(2) show ?thesis
      by (cases p) (auto simp: provides net_ok_def iface_ok_def)
  next
    case (JobDone p)
    show ?thesis
    proof (cases p)
      case (FlowIn f)
      with run JobDone assms(3) run_done [OF assms(2), of p C q] show ?thesis by (simp add: provides)
    next
      case QOut
      have "run_job C j (q, n) = finish (on_done C p (done_arg (ifs n p)) q) (go_none p n)"
        using run_done [OF assms(2), of p C q] assms(3) JobDone QOut by (simp add: provides)
      with run have "q' = fst (on_done C p 0 q)"
        using finish_state kind [of p] by (metis done_arg_def)
      moreover have "\<exists>f. v_sending (view q) = Some f"
        using state(2) [of p] core_out [OF core] assms(3) JobDone QOut by (auto simp: out_ok_def split: option.splits)
      ultimately show ?thesis by (simp add: JobDone QOut)
    qed
  next
    case (OwnJob c)
    with run assms(3) core_job [OF core] core_idle [OF core] show ?thesis
      by (cases c) (auto simp: run_own dest: finish_state)
  qed
  with run view_ok_core [OF core] that show ?thesis by blast
qed

lemma done_effect:
  assumes "queue_inv q n" and "net_ok n" and "JobDone QOut \<in> set (jobs (grp n))"
  obtains f q' n' where "run_job C (JobDone QOut) (q, n) = Some (q', n')" and "view_ok (view q)"
    and "v_sending (view q) = Some f" and "q' = fst (on_done C QOut 0 q)"
  by (rule job_effect [OF assms]) (use that in auto)

lemma own_effect:
  assumes "queue_inv q n" and "net_ok n" and "OwnJob () \<in> set (jobs (grp n))"
  obtains q' n' where "run_job C (OwnJob ()) (q, n) = Some (q', n')" and "view_ok (view q)"
    and "v_sending (view q) = None" and "q' = fst (on_job C () q)"
  by (rule job_effect [OF assms]) (use that in auto)

end

section \<open>PacketPassFifoQueue\<close>

record PacketPassFifoQueue =
  pfq_waiting :: "nat list"
  pfq_sending_flow :: "nat option"
  pfq_schedule_job :: bool
  pfq_freeing :: bool
  pfq_is_waiting :: "nat \<Rightarrow> bool"
  pfq_waiting_data :: "nat \<Rightarrow> ptr"
  pfq_waiting_len :: "nat \<Rightarrow> int"
  pfq_handler_busy :: "nat \<Rightarrow> bool"

definition PacketPassFifoQueue_schedule ::
    "PacketPassFifoQueue \<Rightarrow> PacketPassFifoQueue \<times> queue_call list" where
  "PacketPassFifoQueue_schedule q =
     (let asserts = [Assert (\<not> pfq_freeing q), Assert (pfq_sending_flow q = None),
                     Assert (\<not> List.null (pfq_waiting q)), Assert (\<not> pfq_schedule_job q)]
      in case pfq_waiting q of
           [] \<Rightarrow> (q, asserts)
         | flow # rest \<Rightarrow>
             (q\<lparr>pfq_waiting := rest, pfq_is_waiting := (pfq_is_waiting q)(flow := False),
                pfq_sending_flow := Some flow\<rparr>,
              asserts @ [Assert (pfq_is_waiting q flow),
                PP_Send QOut (pfq_waiting_data q flow) (pfq_waiting_len q flow)]))"

definition PacketPassFifoQueue_schedule_job_handler ::
    "PacketPassFifoQueue \<Rightarrow> PacketPassFifoQueue \<times> queue_call list" where
  "PacketPassFifoQueue_schedule_job_handler q0 =
     (let q = q0\<lparr>pfq_schedule_job := False\<rparr>;
          asserts = [Assert (\<not> pfq_freeing q), Assert (pfq_sending_flow q = None)]
      in if \<not> List.null (pfq_waiting q)
         then (case PacketPassFifoQueue_schedule q of (q1, cs) \<Rightarrow> (q1, asserts @ cs))
         else (q, asserts))"

definition PacketPassFifoQueue_input_handler_send ::
    "PacketPassFifoQueue \<Rightarrow> nat \<Rightarrow> ptr \<Rightarrow> int \<Rightarrow>
     PacketPassFifoQueue \<times> queue_call list" where
  "PacketPassFifoQueue_input_handler_send q flow data data_len =
     (let asserts = [Assert (\<not> pfq_is_waiting q flow), Assert (pfq_sending_flow q \<noteq> Some flow),
                     Assert (\<not> pfq_freeing q)];
          q1 = q\<lparr>pfq_waiting_data := (pfq_waiting_data q)(flow := data),
                 pfq_waiting_len := (pfq_waiting_len q)(flow := data_len),
                 pfq_waiting := pfq_waiting q @ [flow],
                 pfq_is_waiting := (pfq_is_waiting q)(flow := True)\<rparr>
      in if pfq_sending_flow q1 = None \<and> \<not> pfq_schedule_job q1
         then (case PacketPassFifoQueue_schedule q1 of (q2, cs) \<Rightarrow> (q2, asserts @ cs))
         else (q1, asserts))"

definition PacketPassFifoQueue_output_handler_done ::
    "PacketPassFifoQueue \<Rightarrow> PacketPassFifoQueue \<times> queue_call list" where
  "PacketPassFifoQueue_output_handler_done q =
     (let asserts = [Assert (pfq_sending_flow q \<noteq> None), Assert (\<not> pfq_schedule_job q),
                     Assert (\<not> pfq_freeing q)]
      in case pfq_sending_flow q of
           None \<Rightarrow> (q, asserts)
         | Some flow \<Rightarrow>
             (let q1 = q\<lparr>pfq_sending_flow := None, pfq_schedule_job := True\<rparr>;
                  cs = asserts @ [Assert (\<not> pfq_is_waiting q flow), Job_Set (), PP_Done (FlowIn flow)]
              in if pfq_handler_busy q1 flow
                 then (q1\<lparr>pfq_handler_busy := (pfq_handler_busy q1)(flow := False)\<rparr>,
                       cs @ [UserCall (Busy flow)])
                 else (q1, cs)))"

definition PacketPassFifoQueue_Init ::
    "PacketPassFifoQueue \<times> queue_call list" where
  "PacketPassFifoQueue_Init =
     (\<lparr>pfq_waiting = [], pfq_sending_flow = None, pfq_schedule_job = False, pfq_freeing = False,
       pfq_is_waiting = (\<lambda>_. False), pfq_waiting_data = (\<lambda>_. 0), pfq_waiting_len = (\<lambda>_. 0),
       pfq_handler_busy = (\<lambda>_. False)\<rparr>,
      [PP_Sender_Init QOut, Job_Init ()])"

definition PacketPassFifoQueue_Free :: "PacketPassFifoQueue \<Rightarrow> queue_call list" where
  "PacketPassFifoQueue_Free q =
     [Assert (List.null (pfq_waiting q)), Assert (pfq_sending_flow q = None), Job_Free ()]"

definition PacketPassFifoQueue_PrepareFree :: "PacketPassFifoQueue \<Rightarrow> PacketPassFifoQueue" where
  "PacketPassFifoQueue_PrepareFree q = q\<lparr>pfq_freeing := True\<rparr>"

definition PacketPassFifoQueueFlow_Init ::
    "PacketPassFifoQueue \<Rightarrow> nat \<Rightarrow> int \<Rightarrow> PacketPassFifoQueue \<times> queue_call list" where
  "PacketPassFifoQueueFlow_Init q flow mtu_out =
     (q\<lparr>pfq_is_waiting := (pfq_is_waiting q)(flow := False),
        pfq_handler_busy := (pfq_handler_busy q)(flow := False)\<rparr>,
      [Assert (\<not> pfq_freeing q), PP_Init (FlowIn flow) mtu_out])"

definition PacketPassFifoQueueFlow_Free ::
    "PacketPassFifoQueue \<Rightarrow> nat \<Rightarrow> PacketPassFifoQueue \<times> queue_call list" where
  "PacketPassFifoQueueFlow_Free q flow =
     (let q1 = (if pfq_sending_flow q = Some flow then q\<lparr>pfq_sending_flow := None\<rparr> else q);
          q2 = (if pfq_is_waiting q1 flow then q1\<lparr>pfq_waiting := remove1 flow (pfq_waiting q1)\<rparr> else q1)
      in (q2, [Assert (pfq_freeing q \<or> pfq_sending_flow q \<noteq> Some flow), PP_Free (FlowIn flow)]))"

definition PacketPassFifoQueueFlow_AssertFree ::
    "PacketPassFifoQueue \<Rightarrow> nat \<Rightarrow> queue_call list" where
  "PacketPassFifoQueueFlow_AssertFree q flow =
     [Assert (pfq_freeing q \<or> pfq_sending_flow q \<noteq> Some flow)]"

definition PacketPassFifoQueueFlow_IsBusy :: "PacketPassFifoQueue \<Rightarrow> nat \<Rightarrow> bool" where
  "PacketPassFifoQueueFlow_IsBusy q flow \<longleftrightarrow> pfq_sending_flow q = Some flow"

definition PacketPassFifoQueueFlow_SetBusyHandler ::
    "PacketPassFifoQueue \<Rightarrow> nat \<Rightarrow> bool \<Rightarrow> PacketPassFifoQueue \<times> queue_call list" where
  "PacketPassFifoQueueFlow_SetBusyHandler q flow h =
     (q\<lparr>pfq_handler_busy := (pfq_handler_busy q)(flow := h)\<rparr>,
      [Assert (\<not> pfq_freeing q), Assert (pfq_sending_flow q = Some flow)])"

text \<open>\<open>Renew\<close> frees a flow and initialises a new one, which gets a user (\<open>renew\<close> on the net).\<close>

definition renewed ::
    "'s \<times> queue_call list \<Rightarrow> ('s \<Rightarrow> 's \<times> queue_call list) \<Rightarrow> nat \<Rightarrow>
     's \<times> queue_call list" where
  "renewed r init flow =
     (case init (fst r) of (s, cs) \<Rightarrow> (s, snd r @ cs @ [PP_Sender_Init (FlowIn flow)]))"

definition pfq_component ::
    "(PacketPassFifoQueue, qport, unit, queue_event, queue_api) component" where
  "pfq_component = \<lparr>
     provides = (\<lambda>p. p \<noteq> QOut),
     on_operation = (\<lambda>p d l q. case p of FlowIn flow \<Rightarrow> PacketPassFifoQueue_input_handler_send q flow d l
        | QOut \<Rightarrow> no_calls q),
     on_requestcancel = (\<lambda>p q. no_calls q),
     on_done = (\<lambda>p l q. PacketPassFifoQueue_output_handler_done q),
     on_job = (\<lambda>c q. PacketPassFifoQueue_schedule_job_handler q),
     on_timer = (\<lambda>c q. no_calls q),
     on_api = (\<lambda>e q. case e of
         Renew flow m _ \<Rightarrow> renewed (PacketPassFifoQueueFlow_Free q flow)
           (\<lambda>q. PacketPassFifoQueueFlow_Init q flow m) flow
       | SetBusyHandler flow h \<Rightarrow> PacketPassFifoQueueFlow_SetBusyHandler q flow h
       | CancelFlow flow \<Rightarrow> no_calls q),
     api_ok = (\<lambda>e q n. case e of
         Renew flow m _ \<Rightarrow> pfq_sending_flow q \<noteq> Some flow \<and> m = mtu (ifs n QOut)
       | SetBusyHandler flow h \<Rightarrow> pfq_sending_flow q = Some flow
       | CancelFlow flow \<Rightarrow> False)\<rparr>"

definition pfq_view :: "PacketPassFifoQueue \<Rightarrow> queue_view" where
  "pfq_view q = \<lparr>v_waiting = pfq_waiting q, v_sending = pfq_sending_flow q, v_job = pfq_schedule_job q,
     v_is_waiting = pfq_is_waiting q, v_data = pfq_waiting_data q, v_len = pfq_waiting_len q\<rparr>"

lemmas pfq_defs =
  pfq_component_def pfq_view_def PacketPassFifoQueue_schedule_def
  PacketPassFifoQueue_schedule_job_handler_def PacketPassFifoQueue_input_handler_send_def
  PacketPassFifoQueue_output_handler_done_def PacketPassFifoQueueFlow_Init_def
  PacketPassFifoQueueFlow_Free_def PacketPassFifoQueueFlow_SetBusyHandler_def renewed_def

lemma pfq_schedules:
  assumes "view_ok (pfq_view q)" and "\<not> pfq_freeing q" and "pfq_waiting q \<noteq> []"
    and "pfq_sending_flow q = None" and "\<not> pfq_schedule_job q"
  shows "scheduled (pfq_view q) (pfq_view (fst (PacketPassFifoQueue_schedule q))) (snd (PacketPassFifoQueue_schedule q))"
    and "\<not> pfq_freeing (fst (PacketPassFifoQueue_schedule q))"
proof -
  obtain g rest where w: "pfq_waiting q = g # rest" using assms(3) by (cases "pfq_waiting q") auto
  then have "pfq_is_waiting q g" "distinct (g # rest)"
    using assms(1) by (auto simp: view_ok_def pfq_view_def)
  with assms w show "scheduled (pfq_view q) (pfq_view (fst (PacketPassFifoQueue_schedule q)))
      (snd (PacketPassFifoQueue_schedule q))"
    unfolding scheduled_def
    by (intro exI [of _ g] exI [of _ rest] exI [of _ "replicate 5 (Assert True)"])
      (simp add: pfq_view_def PacketPassFifoQueue_schedule_def numeral_eq_Suc)
  from assms w show "\<not> pfq_freeing (fst (PacketPassFifoQueue_schedule q))"
    by (simp add: PacketPassFifoQueue_schedule_def)
qed

interpretation pfq: shared_output pfq_component pfq_view "\<lambda>q can us. \<not> pfq_freeing q"
proof (unfold_locales, goal_cases)
  case (1 p)
  then show ?case by (simp add: pfq_defs)
next
  case (2 c q)
  then show ?case by (simp add: pfq_defs)
next
  case (3 q can us f d l q' cs)
  let ?q = "q\<lparr>pfq_waiting_data := (pfq_waiting_data q)(f := d), pfq_waiting_len := (pfq_waiting_len q)(f := l),
    pfq_waiting := pfq_waiting q @ [f], pfq_is_waiting := (pfq_is_waiting q)(f := True)\<rparr>"
  have new: "f \<notin> set (pfq_waiting q)" "\<not> pfq_is_waiting q f" "pfq_sending_flow q \<noteq> Some f"
    using 3(3-5) by (auto simp: pfq_view_def view_ok_def)
  have enq: "enqueued f d l (pfq_view q) (pfq_view ?q)"
    using 3(3) new by (auto simp: enqueued_def pfq_view_def view_ok_def)
  have q': "(q', cs) = (if pfq_sending_flow q = None \<and> \<not> pfq_schedule_job q
      then (fst (PacketPassFifoQueue_schedule ?q),
        Assert True # Assert True # Assert True # snd (PacketPassFifoQueue_schedule ?q))
      else (?q, [Assert True, Assert True, Assert True]))"
    unfolding 3(6) [symmetric] using 3(1) new
    by (simp add: pfq_component_def PacketPassFifoQueue_input_handler_send_def Let_def case_prod_unfold)
  show ?case
  proof (cases "pfq_sending_flow q = None \<and> \<not> pfq_schedule_job q")
    case True
    then have "view_ok (pfq_view ?q)" using 3(3) new by (auto simp: view_ok_def pfq_view_def)
    from pfq_schedules [OF this] True 3(1) q' show ?thesis
      by (intro conjI exI [of _ "pfq_view ?q"] enq) (simp_all add: pfq_view_def scheduled_Cons)
  next
    case False
    with q' 3(1) show ?thesis
      by (intro conjI exI [of _ "pfq_view ?q"] enq) (auto simp: pfq_view_def)
  qed
next
  case (4 q can us f l q' cs)
  have iw: "\<not> pfq_is_waiting q f" "\<not> pfq_schedule_job q"
    using 4(2,3) by (auto simp: pfq_view_def view_ok_def)
  let ?us = "if pfq_handler_busy q f then [UserCall (Busy f)] else []"
  have "cs = [Assert True, Assert True, Assert True, Assert True] @ [Job_Set (), PP_Done (FlowIn f)] @ ?us"
    and "pfq_view q' = (pfq_view q)\<lparr>v_sending := None, v_job := True\<rparr>" and "\<not> pfq_freeing q'"
    using 4 iw by (auto simp: pfq_defs Let_def split: if_splits)
  moreover have "list_all harmless ?us" by simp
  ultimately show ?case
    by (intro conjI exI [of _ "[Assert True, Assert True, Assert True, Assert True]"] exI [of _ ?us]) simp_all
next
  case (5 q can us q' cs)
  show ?case
  proof (cases "pfq_waiting q")
    case Nil
    with 5 show ?thesis by (auto simp: pfq_defs Let_def)
  next
    case (Cons g rest)
    let ?q = "q\<lparr>pfq_schedule_job := False\<rparr>"
    have "(q', cs) = (fst (PacketPassFifoQueue_schedule ?q),
        Assert True # Assert True # snd (PacketPassFifoQueue_schedule ?q))"
      unfolding 5(5) [symmetric] using 5(1-4) Cons
      by (simp add: pfq_component_def PacketPassFifoQueue_schedule_job_handler_def Let_def
          case_prod_unfold pfq_view_def)
    moreover have "view_ok (pfq_view ?q)" using 5(2) by (auto simp: view_ok_def pfq_view_def)
    ultimately show ?thesis using pfq_schedules [of ?q] 5 Cons by (simp add: pfq_view_def scheduled_Cons)
  qed
next
  case (6 q n us e q' cs)
  show ?case
  proof (cases e)
    case (Renew f m pri)
    have s: "pfq_sending_flow q \<noteq> Some f" and m: "m = mtu (ifs n QOut)"
      using 6(3) Renew by (simp_all add: pfq_component_def)
    have q': "(q', cs) = (q\<lparr>pfq_waiting := (if pfq_is_waiting q f then remove1 f (pfq_waiting q) else pfq_waiting q),
          pfq_is_waiting := (pfq_is_waiting q)(f := False), pfq_handler_busy := (pfq_handler_busy q)(f := False)\<rparr>,
        [Assert True] @ [PP_Free (FlowIn f)] @ [Assert True] @
        [PP_Init (FlowIn f) (mtu (ifs n QOut)), PP_Sender_Init (FlowIn f)])"
      unfolding 6(4) [symmetric] using 6(1) Renew s m by (simp add: pfq_defs Let_def)
    then have "renewed_view f (pfq_view q) (pfq_view q')"
      unfolding renewed_view_def
      by (intro conjI exI [of _ "remove1 f (pfq_waiting q)"])
        (use 6(2) s in \<open>auto simp: pfq_view_def view_ok_def remove1_idem\<close>)
    moreover note q' 6(1)
    moreover have "list_all harmless [Assert True]" by simp
    ultimately show ?thesis by (auto intro!: exI [of _ f] exI [of _ "[Assert True]"])
  next
    case (SetBusyHandler f h)
    have "cs = [Assert True, Assert True] @ []" and "pfq_view q' = pfq_view q" and "\<not> pfq_freeing q'"
      using 6 SetBusyHandler by (auto simp: pfq_defs)
    moreover have "list_all harmless [Assert True, Assert True]" by simp
    ultimately show ?thesis by blast
  next
    case (CancelFlow f)
    with 6 show ?thesis by (simp add: pfq_defs)
  qed
qed

text \<open>The flows in the order they will be served.\<close>

definition pfq_line :: "PacketPassFifoQueue \<Rightarrow> nat list" where
  "pfq_line q = (case pfq_sending_flow q of None \<Rightarrow> [] | Some f \<Rightarrow> [f]) @ pfq_waiting q"

text \<open>Start-up: every flow initialised with the MTU of the output and connected to a user.\<close>

definition shared_net :: "int \<Rightarrow> bool \<Rightarrow> (qport, unit) net" where
  "shared_net m can = idle_net (\<lambda>_. PacketPass) (\<lambda>_. m) (\<lambda>p. p = QOut \<and> can)"

definition pfq_start :: "int \<Rightarrow> PacketPassFifoQueue \<times> (qport, unit) net" where
  "pfq_start m = (fst PacketPassFifoQueue_Init, shared_net m False)"

lemma shared_net_inv:
  "0 \<le> m \<Longrightarrow> queue_ok [] None False (\<lambda>_. False) d l (shared_net m can)"
  by (simp add: queue_ok_def queue_core_def flow_ok_def out_ok_def shared_net_def)

lemma shared_net_ok [simp]: "net_ok (shared_net m can)"
  by (simp add: shared_net_def)

lemma pfq_start_inv: "0 \<le> m \<Longrightarrow> case_prod pfq.queue_inv (pfq_start m)"
  using shared_net_inv [of m "\<lambda>_. 0" "\<lambda>_. 0" False]
  by (simp add: pfq_start_def pfq.queue_inv_def PacketPassFifoQueue_Init_def pfq_view_def)

lemma pfq_line_steps:
  assumes "view_ok (pfq_view q)"
  shows "pfq_line (fst (PacketPassFifoQueue_schedule q)) = pfq_line q \<or> pfq_sending_flow q \<noteq> None"
    and "pfq_sending_flow q \<noteq> Some f \<Longrightarrow> pfq_line (fst (on_operation pfq_component (FlowIn f) d l q)) = pfq_line q @ [f]"
    and "pfq_sending_flow q = Some f \<Longrightarrow> pfq_line (fst (on_done pfq_component p l q)) = tl (pfq_line q)"
    and "pfq_sending_flow q = None \<Longrightarrow> pfq_line (fst (on_job pfq_component c q)) = pfq_line q"
  using assms by (auto simp: pfq_line_def pfq_defs Let_def case_prod_unfold view_ok_def split: list.splits option.splits)

text \<open>C34: in a FIFO queue whose flows are used in any way the interfaces allow no assertion
  fails; exactly the flows with an unfinished operation are in line, the head of the line is
  being sent (its own packet) or the schedule job is set, an arriving packet goes to the end
  of the line, the completion of the output removes the head, and no other job changes it.\<close>

theorem fifo_queue_serves_in_order:
  assumes "reach_from pfq_component (pfq_start m) r" and "0 \<le> m"
  shows "\<exists>q n. r = Some (q, n) \<and> distinct (pfq_line q) \<and>
    (\<forall>f. f \<in> set (pfq_line q) \<longleftrightarrow> state (ifs n (FlowIn f)) = IF_BUSY) \<and>
    (\<forall>f fs. pfq_line q = f # fs \<longrightarrow> OwnJob () \<in> set (jobs (grp n)) \<or>
       state (ifs n QOut) \<noteq> IF_NONE \<and> op_data (ifs n QOut) = op_data (ifs n (FlowIn f)) \<and>
       op_len (ifs n QOut) = op_len (ifs n (FlowIn f))) \<and>
    (\<forall>j \<in> set (jobs (grp n)). \<exists>q' n'. run_job pfq_component j (q, n) = Some (q', n') \<and>
       pfq_line q' = (case j of JobOperation (FlowIn f) \<Rightarrow> pfq_line q @ [f]
         | JobDone QOut \<Rightarrow> tl (pfq_line q) | _ \<Rightarrow> pfq_line q))"
proof -
  obtain q n where r: "r = Some (q, n)" and inv: "pfq.queue_inv q n" and ok: "net_ok n"
    by (rule pfq.reached [OF assms(1)]) (use assms(2) in \<open>simp_all add: pfq_start_inv\<close>, simp add: pfq_start_def)
  have core: "view_core (pfq_view q) n" and work: "pfq_waiting q \<noteq> [] \<longrightarrow> pfq_sending_flow q \<noteq> None \<or> pfq_schedule_job q"
    using inv by (simp_all add: pfq.queue_inv_def queue_ok_def pfq_view_def)
  note view = view_ok_core [OF core]
  have busy: "f \<in> set (pfq_line q) \<longleftrightarrow> state (ifs n (FlowIn f)) = IF_BUSY" for f
    using core_flow [OF core, of f] by (auto simp: flow_ok_def pfq_view_def pfq_line_def split: option.splits)
  have "distinct (pfq_line q)"
    using view by (auto simp: view_ok_def pfq_view_def pfq_line_def split: option.splits)
  moreover have "pfq_line q = f # fs \<Longrightarrow> OwnJob () \<in> set (jobs (grp n)) \<or>
       state (ifs n QOut) \<noteq> IF_NONE \<and> op_data (ifs n QOut) = op_data (ifs n (FlowIn f)) \<and>
       op_len (ifs n QOut) = op_len (ifs n (FlowIn f))" for f fs
    using core_out [OF core] core_job [OF core] work
    by (auto simp: out_ok_def pfq_view_def pfq_line_def split: option.splits)
  moreover have "\<exists>q' n'. run_job pfq_component j (q, n) = Some (q', n') \<and>
       pfq_line q' = (case j of JobOperation (FlowIn f) \<Rightarrow> pfq_line q @ [f]
         | JobDone QOut \<Rightarrow> tl (pfq_line q) | _ \<Rightarrow> pfq_line q)" if j: "j \<in> set (jobs (grp n))" for j
  proof -
    obtain q' n' where run: "run_job pfq_component j (q, n) = Some (q', n')" and
      "case j of
        JobOperation (FlowIn f) \<Rightarrow> f \<notin> set (v_waiting (pfq_view q)) \<and> v_sending (pfq_view q) \<noteq> Some f \<and>
          q' = fst (on_operation pfq_component (FlowIn f) (op_data (ifs n (FlowIn f))) (op_len (ifs n (FlowIn f))) q)
      | JobDone QOut \<Rightarrow> (\<exists>f. v_sending (pfq_view q) = Some f) \<and> q' = fst (on_done pfq_component QOut 0 q)
      | OwnJob c \<Rightarrow> v_sending (pfq_view q) = None \<and> v_job (pfq_view q) \<and> q' = fst (on_job pfq_component () q)
      | _ \<Rightarrow> q' = q"
      by (rule pfq.job_effect [OF inv ok j])
    then show ?thesis using pfq_line_steps(2-4) [OF view]
      by (auto simp: pfq_view_def split: job.splits qport.splits)
  qed
  ultimately show ?thesis using r busy by blast
qed

theorem fifo_queue_serves_in_order_witness:
  "\<exists>q n. run_moves pfq_component [Env (PP_Send (FlowIn 1) 5 3), RunJob (JobOperation (FlowIn 1)),
       Env (PP_Send (FlowIn 2) 7 4), RunJob (JobOperation (FlowIn 2))] (pfq_start 8) = Some (q, n) \<and>
     pfq_line q = [1, 2] \<and> state (ifs n (FlowIn 2)) = IF_BUSY"
proof -
  let ?vs = "[Env (PP_Send (FlowIn 1) 5 3), RunJob (JobOperation (FlowIn 1)),
       Env (PP_Send (FlowIn 2) 7 4), RunJob (JobOperation (FlowIn 2))]"
  have "case run_moves pfq_component ?vs (pfq_start 8) of None \<Rightarrow> False | Some (q, n) \<Rightarrow> pfq_line q = [1, 2]"
    by code_simp
  then obtain q n where run: "run_moves pfq_component ?vs (pfq_start 8) = Some (q, n)"
    and line: "pfq_line q = [1, 2]"
    by (auto simp del: run_moves.simps split: option.splits)
  have "state (ifs n (FlowIn 2)) = IF_BUSY"
    using fifo_queue_serves_in_order [OF run_moves_reach [OF run]] line by auto
  with run line show ?thesis by blast
qed

end
