(* ===== verification/Priority_Queue.thy ===== *)
theory Priority_Queue
  imports Flow_Queues
begin

text \<open>
  \<open>flow/PacketPassPriorityQueue.c\<close>: the waiting flows are kept in order of priority, ties by
  address, and the first is sent.
\<close>

section \<open>PacketPassPriorityQueue\<close>

record PacketPassPriorityQueue =
  ppq_queued :: "nat list"
  ppq_sending_flow :: "nat option"
  ppq_schedule_job :: bool
  ppq_use_cancel :: bool
  ppq_freeing :: bool
  ppq_priority :: "nat \<Rightarrow> int"
  ppq_is_queued :: "nat \<Rightarrow> bool"
  ppq_queued_data :: "nat \<Rightarrow> ptr"
  ppq_queued_len :: "nat \<Rightarrow> int"
  ppq_handler_busy :: "nat \<Rightarrow> bool"

definition PacketPassPriorityQueue_compare_flows :: "(nat \<Rightarrow> int) \<Rightarrow> nat \<Rightarrow> nat \<Rightarrow> int" where
  "PacketPassPriorityQueue_compare_flows priority f1 f2 =
     (let cmp = B_COMPARE (priority f1) (priority f2)
      in if cmp \<noteq> 0 then cmp else B_COMPARE (int f1) (int f2))"

definition PacketPassPriorityQueue_schedule ::
    "PacketPassPriorityQueue \<Rightarrow> PacketPassPriorityQueue \<times> queue_call list" where
  "PacketPassPriorityQueue_schedule q =
     (let asserts = [Assert (ppq_sending_flow q = None), Assert (\<not> ppq_freeing q),
                     Assert (\<not> List.null (ppq_queued q))]
      in case ppq_queued q of
           [] \<Rightarrow> (q, asserts)
         | qflow # rest \<Rightarrow>
             (q\<lparr>ppq_queued := rest, ppq_is_queued := (ppq_is_queued q)(qflow := False),
                ppq_sending_flow := Some qflow\<rparr>,
              asserts @ [Assert (ppq_is_queued q qflow),
                PP_Send QOut (ppq_queued_data q qflow) (ppq_queued_len q qflow)]))"

definition PacketPassPriorityQueue_schedule_job_handler ::
    "PacketPassPriorityQueue \<Rightarrow> PacketPassPriorityQueue \<times> queue_call list" where
  "PacketPassPriorityQueue_schedule_job_handler q0 =
     (let q = q0\<lparr>ppq_schedule_job := False\<rparr>;
          asserts = [Assert (ppq_sending_flow q = None), Assert (\<not> ppq_freeing q)]
      in if \<not> List.null (ppq_queued q)
         then (case PacketPassPriorityQueue_schedule q of (q1, cs) \<Rightarrow> (q1, asserts @ cs))
         else (q, asserts))"

definition PacketPassPriorityQueue_input_handler_send ::
    "PacketPassPriorityQueue \<Rightarrow> nat \<Rightarrow> ptr \<Rightarrow> int \<Rightarrow> PacketPassPriorityQueue \<times> queue_call list" where
  "PacketPassPriorityQueue_input_handler_send q flow data data_len =
     (let res = savl_insert (PacketPassPriorityQueue_compare_flows (ppq_priority q)) flow (ppq_queued q);
          asserts = [Assert (ppq_sending_flow q \<noteq> Some flow), Assert (\<not> ppq_is_queued q flow),
                     Assert (\<not> ppq_freeing q), Assert (res \<noteq> None)];
          q1 = q\<lparr>ppq_queued_data := (ppq_queued_data q)(flow := data),
                 ppq_queued_len := (ppq_queued_len q)(flow := data_len),
                 ppq_queued := (case res of None \<Rightarrow> ppq_queued q | Some t \<Rightarrow> t),
                 ppq_is_queued := (ppq_is_queued q)(flow := True)\<rparr>
      in if ppq_sending_flow q1 = None \<and> \<not> ppq_schedule_job q1
         then (case PacketPassPriorityQueue_schedule q1 of (q2, cs) \<Rightarrow> (q2, asserts @ cs))
         else (q1, asserts))"

definition PacketPassPriorityQueue_output_handler_done ::
    "PacketPassPriorityQueue \<Rightarrow> PacketPassPriorityQueue \<times> queue_call list" where
  "PacketPassPriorityQueue_output_handler_done q =
     (let asserts = [Assert (ppq_sending_flow q \<noteq> None), Assert (\<not> ppq_schedule_job q),
                     Assert (\<not> ppq_freeing q)]
      in case ppq_sending_flow q of
           None \<Rightarrow> (q, asserts)
         | Some flow \<Rightarrow>
             (let q1 = q\<lparr>ppq_sending_flow := None, ppq_schedule_job := True\<rparr>;
                  cs = asserts @ [Assert (\<not> ppq_is_queued q flow), Job_Set (), PP_Done (FlowIn flow)]
              in if ppq_handler_busy q1 flow
                 then (q1\<lparr>ppq_handler_busy := (ppq_handler_busy q1)(flow := False)\<rparr>,
                       cs @ [UserCall (Busy flow)])
                 else (q1, cs)))"

definition PacketPassPriorityQueue_Init ::
    "bool \<Rightarrow> bool \<Rightarrow> PacketPassPriorityQueue \<times> queue_call list" where
  "PacketPassPriorityQueue_Init output_has_cancel use_cancel =
     (\<lparr>ppq_queued = [], ppq_sending_flow = None, ppq_schedule_job = False,
       ppq_use_cancel = use_cancel, ppq_freeing = False, ppq_priority = (\<lambda>_. 0),
       ppq_is_queued = (\<lambda>_. False), ppq_queued_data = (\<lambda>_. 0), ppq_queued_len = (\<lambda>_. 0),
       ppq_handler_busy = (\<lambda>_. False)\<rparr>,
      [Assert (\<not> use_cancel \<or> output_has_cancel), PP_Sender_Init QOut, Job_Init ()])"

definition PacketPassPriorityQueue_Free :: "PacketPassPriorityQueue \<Rightarrow> queue_call list" where
  "PacketPassPriorityQueue_Free q =
     [Assert (List.null (ppq_queued q)), Assert (ppq_sending_flow q = None), Job_Free ()]"

definition PacketPassPriorityQueue_PrepareFree :: "PacketPassPriorityQueue \<Rightarrow> PacketPassPriorityQueue" where
  "PacketPassPriorityQueue_PrepareFree q = q\<lparr>ppq_freeing := True\<rparr>"

definition PacketPassPriorityQueue_GetMTU :: "(qport, unit) net \<Rightarrow> int" where
  "PacketPassPriorityQueue_GetMTU n = PacketPassInterface_GetMTU QOut n"

definition PacketPassPriorityQueueFlow_Init ::
    "PacketPassPriorityQueue \<Rightarrow> nat \<Rightarrow> int \<Rightarrow> int \<Rightarrow> PacketPassPriorityQueue \<times> queue_call list" where
  "PacketPassPriorityQueueFlow_Init q flow mtu_out priority =
     (q\<lparr>ppq_priority := (ppq_priority q)(flow := priority),
        ppq_handler_busy := (ppq_handler_busy q)(flow := False),
        ppq_is_queued := (ppq_is_queued q)(flow := False)\<rparr>,
      [Assert (\<not> ppq_freeing q), PP_Init (FlowIn flow) mtu_out])"

definition PacketPassPriorityQueueFlow_Free ::
    "PacketPassPriorityQueue \<Rightarrow> nat \<Rightarrow> PacketPassPriorityQueue \<times> queue_call list" where
  "PacketPassPriorityQueueFlow_Free q flow =
     (let q1 = (if ppq_sending_flow q = Some flow then q\<lparr>ppq_sending_flow := None\<rparr> else q);
          q2 = (if ppq_is_queued q1 flow then q1\<lparr>ppq_queued := remove1 flow (ppq_queued q1)\<rparr> else q1)
      in (q2, [Assert (ppq_freeing q \<or> ppq_sending_flow q \<noteq> Some flow), PP_Free (FlowIn flow)]))"

definition PacketPassPriorityQueueFlow_AssertFree ::
    "PacketPassPriorityQueue \<Rightarrow> nat \<Rightarrow> queue_call list" where
  "PacketPassPriorityQueueFlow_AssertFree q flow =
     [Assert (ppq_freeing q \<or> ppq_sending_flow q \<noteq> Some flow)]"

definition PacketPassPriorityQueueFlow_IsBusy :: "PacketPassPriorityQueue \<Rightarrow> nat \<Rightarrow> bool" where
  "PacketPassPriorityQueueFlow_IsBusy q flow \<longleftrightarrow> ppq_sending_flow q = Some flow"

definition PacketPassPriorityQueueFlow_RequestCancel ::
    "PacketPassPriorityQueue \<Rightarrow> nat \<Rightarrow> PacketPassPriorityQueue \<times> queue_call list" where
  "PacketPassPriorityQueueFlow_RequestCancel q flow =
     (q, [Assert (ppq_sending_flow q = Some flow), Assert (ppq_use_cancel q), Assert (\<not> ppq_freeing q),
          Assert (\<not> ppq_schedule_job q), PP_RequestCancel QOut])"

definition PacketPassPriorityQueueFlow_SetBusyHandler ::
    "PacketPassPriorityQueue \<Rightarrow> nat \<Rightarrow> bool \<Rightarrow> PacketPassPriorityQueue \<times> queue_call list" where
  "PacketPassPriorityQueueFlow_SetBusyHandler q flow h =
     (q\<lparr>ppq_handler_busy := (ppq_handler_busy q)(flow := h)\<rparr>,
      [Assert (ppq_sending_flow q = Some flow), Assert (\<not> ppq_freeing q)])"

definition ppq_component ::
    "(PacketPassPriorityQueue, qport, unit, queue_event, queue_api) component" where
  "ppq_component = \<lparr>
     provides = (\<lambda>p. p \<noteq> QOut),
     on_operation = (\<lambda>p d l q. case p of FlowIn flow \<Rightarrow> PacketPassPriorityQueue_input_handler_send q flow d l
        | QOut \<Rightarrow> no_calls q),
     on_requestcancel = (\<lambda>p q. no_calls q),
     on_done = (\<lambda>p l q. PacketPassPriorityQueue_output_handler_done q),
     on_job = (\<lambda>c q. PacketPassPriorityQueue_schedule_job_handler q),
     on_timer = (\<lambda>c q. no_calls q),
     on_api = (\<lambda>e q. case e of
         Renew flow m pri \<Rightarrow> renewed (PacketPassPriorityQueueFlow_Free q flow)
           (\<lambda>q. PacketPassPriorityQueueFlow_Init q flow m pri) flow
       | SetBusyHandler flow h \<Rightarrow> PacketPassPriorityQueueFlow_SetBusyHandler q flow h
       | CancelFlow flow \<Rightarrow> PacketPassPriorityQueueFlow_RequestCancel q flow),
     api_ok = (\<lambda>e q n. case e of
         Renew flow m pri \<Rightarrow> ppq_sending_flow q \<noteq> Some flow \<and> m = mtu (ifs n QOut)
       | SetBusyHandler flow h \<Rightarrow> ppq_sending_flow q = Some flow
       | CancelFlow flow \<Rightarrow> ppq_sending_flow q = Some flow \<and> ppq_use_cancel q)\<rparr>"

section \<open>The order of the waiting flows\<close>

lemma compare_flows_before [simp]:
  "PacketPassPriorityQueue_compare_flows p f g < 0 \<longleftrightarrow> before p f g"
  "0 < PacketPassPriorityQueue_compare_flows p f g \<longleftrightarrow> before p g f"
  "PacketPassPriorityQueue_compare_flows p f g = 0 \<longleftrightarrow> f = g"
  by (auto simp: PacketPassPriorityQueue_compare_flows_def B_COMPARE_def before_def)

definition ppq_view :: "PacketPassPriorityQueue \<Rightarrow> queue_view" where
  "ppq_view q = \<lparr>v_waiting = ppq_queued q, v_sending = ppq_sending_flow q, v_job = ppq_schedule_job q,
     v_is_waiting = ppq_is_queued q, v_data = ppq_queued_data q, v_len = ppq_queued_len q\<rparr>"

definition ppq_fine :: "PacketPassPriorityQueue \<Rightarrow> bool \<Rightarrow> bool" where
  "ppq_fine q can \<longleftrightarrow> \<not> ppq_freeing q \<and> (ppq_use_cancel q \<longrightarrow> can) \<and>
     sorted_wrt (before (ppq_priority q)) (ppq_queued q)"

lemmas ppq_defs =
  ppq_component_def ppq_view_def ppq_fine_def PacketPassPriorityQueue_schedule_def
  PacketPassPriorityQueue_schedule_job_handler_def PacketPassPriorityQueue_input_handler_send_def
  PacketPassPriorityQueue_output_handler_done_def PacketPassPriorityQueueFlow_Init_def
  PacketPassPriorityQueueFlow_Free_def PacketPassPriorityQueueFlow_SetBusyHandler_def
  PacketPassPriorityQueueFlow_RequestCancel_def renewed_def

lemma ppq_schedules:
  assumes "view_ok (ppq_view q)" and "ppq_fine q can" and "ppq_queued q \<noteq> []"
    and "ppq_sending_flow q = None"
  shows "scheduled (ppq_view q) (ppq_view (fst (PacketPassPriorityQueue_schedule q))) (snd (PacketPassPriorityQueue_schedule q))"
    and "ppq_fine (fst (PacketPassPriorityQueue_schedule q)) can"
proof -
  obtain g rest where w: "ppq_queued q = g # rest" using assms(3) by (cases "ppq_queued q") auto
  then have "ppq_is_queued q g" "distinct (g # rest)"
    using assms(1) by (auto simp: view_ok_def ppq_view_def)
  with assms w show "scheduled (ppq_view q) (ppq_view (fst (PacketPassPriorityQueue_schedule q)))
      (snd (PacketPassPriorityQueue_schedule q))"
    unfolding scheduled_def
    by (intro exI [of _ g] exI [of _ rest] exI [of _ "replicate 4 (Assert True)"])
      (simp add: ppq_view_def ppq_fine_def PacketPassPriorityQueue_schedule_def numeral_eq_Suc)
  from assms w show "ppq_fine (fst (PacketPassPriorityQueue_schedule q)) can"
    by (simp add: PacketPassPriorityQueue_schedule_def ppq_fine_def)
qed

interpretation ppq: shared_output ppq_component ppq_view "\<lambda>q can us. ppq_fine q can"
proof (unfold_locales, goal_cases)
  case (1 p)
  then show ?case by (simp add: ppq_defs)
next
  case (2 c q)
  then show ?case by (simp add: ppq_defs)
next
  case (3 q can us f d l q' cs)
  have new: "f \<notin> set (ppq_queued q)" "\<not> ppq_is_queued q f" "ppq_sending_flow q \<noteq> Some f"
    using 3(3-5) by (auto simp: ppq_view_def view_ok_def)
  have "sorted_wrt (before (ppq_priority q)) (ppq_queued q)" using 3(1) by (simp add: ppq_fine_def)
  from ordered_insert [OF compare_flows_before(1,2) new(1) this] obtain w' where
    ins: "savl_insert (PacketPassPriorityQueue_compare_flows (ppq_priority q)) f (ppq_queued q) = Some w'"
    and w': "set w' = insert f (set (ppq_queued q))" "sorted_wrt (before (ppq_priority q)) w'" .
  let ?q = "q\<lparr>ppq_queued_data := (ppq_queued_data q)(f := d), ppq_queued_len := (ppq_queued_len q)(f := l),
    ppq_queued := w', ppq_is_queued := (ppq_is_queued q)(f := True)\<rparr>"
  have enq: "enqueued f d l (ppq_view q) (ppq_view ?q)"
    using w' before_distinct [OF w'(2)] by (auto simp: enqueued_def ppq_view_def)
  have fine: "ppq_fine ?q can" using 3(1) w'(2) by (simp add: ppq_fine_def)
  let ?as = "replicate 4 (Assert True)"
  have q': "(q', cs) = (if ppq_sending_flow q = None \<and> \<not> ppq_schedule_job q
      then (fst (PacketPassPriorityQueue_schedule ?q), ?as @ snd (PacketPassPriorityQueue_schedule ?q))
      else (?q, ?as))"
    unfolding 3(6) [symmetric] using 3(1) new ins
    by (simp add: ppq_component_def PacketPassPriorityQueue_input_handler_send_def Let_def case_prod_unfold
        ppq_fine_def numeral_eq_Suc)
  show ?case
  proof (cases "ppq_sending_flow q = None \<and> \<not> ppq_schedule_job q")
    case True
    then have "view_ok (ppq_view ?q)" using 3(3) new before_distinct [OF w'(2)] w'(1)
      by (auto simp: view_ok_def ppq_view_def)
    moreover have "w' \<noteq> []" using w'(1) by auto
    ultimately show ?thesis using ppq_schedules [OF _ fine] True q'
      by (intro conjI exI [of _ "ppq_view ?q"] enq) (simp_all add: ppq_view_def scheduled_Cons numeral_eq_Suc)
  next
    case False
    with q' fine show ?thesis
      by (intro conjI exI [of _ "ppq_view ?q"] enq) (auto simp: ppq_view_def numeral_eq_Suc)
  qed
next
  case (4 q can us f l q' cs)
  have iw: "\<not> ppq_is_queued q f" "\<not> ppq_schedule_job q"
    using 4(2,3) by (auto simp: ppq_view_def view_ok_def)
  let ?us = "if ppq_handler_busy q f then [UserCall (Busy f)] else []"
  have "cs = [Assert True, Assert True, Assert True, Assert True] @ [Job_Set (), PP_Done (FlowIn f)] @ ?us"
    and "ppq_view q' = (ppq_view q)\<lparr>v_sending := None, v_job := True\<rparr>" and "ppq_fine q' can"
    using 4 iw by (auto simp: ppq_defs Let_def split: if_splits)
  moreover have "list_all harmless ?us" by simp
  ultimately show ?case
    by (intro conjI exI [of _ "[Assert True, Assert True, Assert True, Assert True]"] exI [of _ ?us]) simp_all
next
  case (5 q can us q' cs)
  show ?case
  proof (cases "ppq_queued q")
    case Nil
    with 5 show ?thesis by (auto simp: ppq_defs Let_def)
  next
    case (Cons g rest)
    let ?q = "q\<lparr>ppq_schedule_job := False\<rparr>"
    have "(q', cs) = (fst (PacketPassPriorityQueue_schedule ?q),
        Assert True # Assert True # snd (PacketPassPriorityQueue_schedule ?q))"
      unfolding 5(5) [symmetric] using 5(1-4) Cons
      by (simp add: ppq_component_def PacketPassPriorityQueue_schedule_job_handler_def Let_def
          case_prod_unfold ppq_view_def ppq_fine_def)
    moreover have "view_ok (ppq_view ?q)" using 5(2) by (auto simp: view_ok_def ppq_view_def)
    moreover have "ppq_fine ?q can" using 5(1) by (simp add: ppq_fine_def)
    ultimately show ?thesis using ppq_schedules [of ?q] 5 Cons by (simp add: ppq_view_def scheduled_Cons)
  qed
next
  case (6 q n us e q' cs)
  show ?case
  proof (cases e)
    case (Renew f m pri)
    have s: "ppq_sending_flow q \<noteq> Some f" and m: "m = mtu (ifs n QOut)"
      using 6(3) Renew by (simp_all add: ppq_component_def)
    have q': "(q', cs) = (q\<lparr>ppq_queued := (if ppq_is_queued q f then remove1 f (ppq_queued q) else ppq_queued q),
          ppq_priority := (ppq_priority q)(f := pri), ppq_handler_busy := (ppq_handler_busy q)(f := False),
          ppq_is_queued := (ppq_is_queued q)(f := False)\<rparr>,
        [Assert True] @ [PP_Free (FlowIn f)] @ [Assert True] @
        [PP_Init (FlowIn f) (mtu (ifs n QOut)), PP_Sender_Init (FlowIn f)])"
      unfolding 6(4) [symmetric] using 6(1) Renew s m by (simp add: ppq_defs Let_def)
    have w: "distinct (ppq_queued q)" "ppq_is_queued q g \<longleftrightarrow> g \<in> set (ppq_queued q)" for g
      using 6(2) by (simp_all add: ppq_view_def view_ok_def)
    have "renewed_view f (ppq_view q) (ppq_view q')"
      unfolding renewed_view_def
      by (intro conjI exI [of _ "remove1 f (ppq_queued q)"])
        (use q' w s in \<open>auto simp: ppq_view_def remove1_idem\<close>)
    moreover have "sorted_wrt (before ((ppq_priority q)(f := pri))) (remove1 f (ppq_queued q))"
      by (rule before_remove) (use 6(1) in \<open>simp_all add: ppq_fine_def\<close>)
    then have "ppq_fine q' (has_requestcancel (ifs n QOut))"
      using q' 6(1) w by (auto simp: ppq_fine_def remove1_idem)
    moreover note q'
    moreover have "list_all harmless [Assert True]" by simp
    ultimately show ?thesis by (auto intro!: exI [of _ f] exI [of _ "[Assert True]"])
  next
    case (SetBusyHandler f h)
    have "cs = [Assert True, Assert True] @ []" and "ppq_view q' = ppq_view q"
      and "ppq_fine q' (has_requestcancel (ifs n QOut))"
      using 6 SetBusyHandler by (auto simp: ppq_defs)
    moreover have "list_all harmless [Assert True, Assert True]" by simp
    ultimately show ?thesis by blast
  next
    case (CancelFlow f)
    have j: "\<not> ppq_schedule_job q" using 6(2,3) CancelFlow by (auto simp: view_ok_def ppq_defs)
    have "cs = [Assert True, Assert True, Assert True, Assert True] @ [PP_RequestCancel QOut]"
      and "ppq_view q' = ppq_view q" and "ppq_fine q' (has_requestcancel (ifs n QOut))"
      and "v_sending (ppq_view q) \<noteq> None" and "has_requestcancel (ifs n QOut)"
      using 6 CancelFlow j by (auto simp: ppq_defs)
    moreover have "list_all harmless [Assert True, Assert True, Assert True, Assert True]" by simp
    ultimately show ?thesis by blast
  qed
qed

section \<open>Property\<close>

definition ppq_start :: "int \<Rightarrow> bool \<Rightarrow> PacketPassPriorityQueue \<times> (qport, unit) net" where
  "ppq_start m use_cancel =
     (fst (PacketPassPriorityQueue_Init use_cancel use_cancel), shared_net m use_cancel)"

lemma ppq_start_inv: "0 \<le> m \<Longrightarrow> case_prod ppq.queue_inv (ppq_start m c)"
  using shared_net_inv [of m "\<lambda>_. 0" "\<lambda>_. 0" c]
  by (simp add: ppq_start_def ppq.queue_inv_def PacketPassPriorityQueue_Init_def ppq_view_def)
    (simp add: ppq_fine_def shared_net_def)

text \<open>In a priority queue whose flows are used, cancelled, freed and created in any way the
  interfaces allow, no assertion fails; exactly the flows with an unfinished operation are
  queued or being sent, the output is never left idle while flows wait (unless the schedule
  job is set), and whenever the schedule job gives the output a packet, its flow goes before
  every flow still waiting, by priority and then by address.\<close>

theorem priority_queue_sends_the_first:
  assumes "reach_from ppq_component (ppq_start m use_cancel) r" and "0 \<le> m"
  shows "\<exists>q n. r = Some (q, n) \<and>
    (\<forall>f. f \<in> set (ppq_queued q) \<or> ppq_sending_flow q = Some f \<longleftrightarrow> state (ifs n (FlowIn f)) = IF_BUSY) \<and>
    (ppq_queued q \<noteq> [] \<longrightarrow> OwnJob () \<in> set (jobs (grp n)) \<or> state (ifs n QOut) \<noteq> IF_NONE) \<and>
    (OwnJob () \<in> set (jobs (grp n)) \<and> ppq_queued q \<noteq> [] \<longrightarrow>
       (\<exists>q' n' f. run_job ppq_component (OwnJob ()) (q, n) = Some (q', n') \<and> ppq_sending_flow q' = Some f \<and>
          f \<in> set (ppq_queued q) \<and> set (ppq_queued q') = set (ppq_queued q) - {f} \<and>
          (\<forall>g \<in> set (ppq_queued q'). ppq_priority q f < ppq_priority q g \<or>
             ppq_priority q f = ppq_priority q g \<and> f < g) \<and>
          op_data (ifs n' QOut) = op_data (ifs n' (FlowIn f)) \<and> op_len (ifs n' QOut) = op_len (ifs n' (FlowIn f))))"
proof -
  obtain q n where r: "r = Some (q, n)" and inv: "ppq.queue_inv q n" and ok: "net_ok n"
    by (rule ppq.reached [OF assms(1)]) (use assms(2) in \<open>simp_all add: ppq_start_inv\<close>, simp add: ppq_start_def)
  have core: "view_core (ppq_view q) n" and fine: "ppq_fine q (has_requestcancel (ifs n QOut))"
    and work: "ppq_queued q \<noteq> [] \<longrightarrow> ppq_sending_flow q \<noteq> None \<or> ppq_schedule_job q"
    using inv by (simp_all add: ppq.queue_inv_def queue_ok_def ppq_view_def)
  note view = view_ok_core [OF core]
  have "f \<in> set (ppq_queued q) \<or> ppq_sending_flow q = Some f \<longleftrightarrow> state (ifs n (FlowIn f)) = IF_BUSY" for f
    using core_flow [OF core, of f] by (auto simp: flow_ok_def ppq_view_def)
  moreover have "ppq_queued q \<noteq> [] \<longrightarrow> OwnJob () \<in> set (jobs (grp n)) \<or> state (ifs n QOut) \<noteq> IF_NONE"
    using core_out [OF core] core_job [OF core] work by (auto simp: out_ok_def ppq_view_def)
  moreover have "\<exists>q' n' f. run_job ppq_component (OwnJob ()) (q, n) = Some (q', n') \<and> ppq_sending_flow q' = Some f \<and>
          f \<in> set (ppq_queued q) \<and> set (ppq_queued q') = set (ppq_queued q) - {f} \<and>
          (\<forall>g \<in> set (ppq_queued q'). ppq_priority q f < ppq_priority q g \<or>
             ppq_priority q f = ppq_priority q g \<and> f < g) \<and>
          op_data (ifs n' QOut) = op_data (ifs n' (FlowIn f)) \<and> op_len (ifs n' QOut) = op_len (ifs n' (FlowIn f))"
    if j: "OwnJob () \<in> set (jobs (grp n))" and "ppq_queued q \<noteq> []"
  proof -
    obtain f rest where w: "ppq_queued q = f # rest" using \<open>ppq_queued q \<noteq> []\<close> by (cases "ppq_queued q") auto
    obtain q' n' where run: "run_job ppq_component (OwnJob ()) (q, n) = Some (q', n')"
      and idle: "ppq_sending_flow q = None" and q': "q' = fst (on_job ppq_component () q)"
      by (rule ppq.own_effect [OF inv ok j]) (simp add: ppq_view_def)
    have q'': "ppq_sending_flow q' = Some f" "ppq_queued q' = rest"
      using idle w by (simp_all add: q' ppq_defs Let_def)
    have "ppq.queue_inv q' n'" using ppq.run_job_good [OF inv ok j] run by simp
    then have "op_data (ifs n' QOut) = op_data (ifs n' (FlowIn f)) \<and> op_len (ifs n' QOut) = op_len (ifs n' (FlowIn f))"
      using core_out [of _ _ _ _ _ _ n'] q''(1)
      by (fastforce simp: ppq.queue_inv_def queue_ok_def ppq_view_def out_ok_def)
    moreover have "\<forall>g \<in> set rest. before (ppq_priority q) f g" and "f \<notin> set rest"
      using fine view w by (auto simp: ppq_fine_def view_ok_def ppq_view_def)
    ultimately show ?thesis using run q'' w by (auto simp: before_def)
  qed
  ultimately show ?thesis using r by blast
qed

theorem priority_queue_sends_the_first_witness:
  "\<exists>q n. run_moves ppq_component [Api (Renew 4 8 5), Env (PP_Send (FlowIn 2) 7 4), RunJob (JobOperation (FlowIn 2)),
       Env (PP_Send (FlowIn 4) 5 3), RunJob (JobOperation (FlowIn 4)),
       Env (PP_Send (FlowIn 3) 9 2), RunJob (JobOperation (FlowIn 3)),
       RunJob (JobOperation QOut), Env (PP_Done QOut), RunJob (JobDone QOut)] (ppq_start 8 True) = Some (q, n) \<and>
     set (ppq_queued q) = {3, 4} \<and> OwnJob () \<in> set (jobs (grp n)) \<and>
     (\<exists>q' n'. run_job ppq_component (OwnJob ()) (q, n) = Some (q', n') \<and> ppq_sending_flow q' = Some 3)"
proof -
  let ?vs = "[Api (Renew 4 8 5), Env (PP_Send (FlowIn 2) 7 4), RunJob (JobOperation (FlowIn 2)),
       Env (PP_Send (FlowIn 4) 5 3), RunJob (JobOperation (FlowIn 4)),
       Env (PP_Send (FlowIn 3) 9 2), RunJob (JobOperation (FlowIn 3)),
       RunJob (JobOperation QOut), Env (PP_Done QOut), RunJob (JobDone QOut)]"
  have "case run_moves ppq_component ?vs (ppq_start 8 True) of None \<Rightarrow> False
      | Some (q, n) \<Rightarrow> ppq_queued q = [3, 4] \<and> OwnJob () \<in> set (jobs (grp n)) \<and>
          ppq_priority q 4 = 5 \<and> ppq_priority q 3 = 0"
    by code_simp
  then obtain q n where run: "run_moves ppq_component ?vs (ppq_start 8 True) = Some (q, n)"
    and q: "ppq_queued q = [3, 4]" "OwnJob () \<in> set (jobs (grp n))" "ppq_priority q 4 = 5" "ppq_priority q 3 = 0"
    by (auto simp del: run_moves.simps split: option.splits)
  obtain q' n' f where run': "run_job ppq_component (OwnJob ()) (q, n) = Some (q', n')" "ppq_sending_flow q' = Some f"
    and f: "f \<in> {3, 4}" "set (ppq_queued q') = {3, 4} - {f}"
    and first: "\<forall>g \<in> set (ppq_queued q'). ppq_priority q f < ppq_priority q g \<or> ppq_priority q f = ppq_priority q g \<and> f < g"
    using priority_queue_sends_the_first [OF run_moves_reach [OF run]] q(1,2) by fastforce
  have "f = 3"
  proof (rule ccontr)
    assume "f \<noteq> 3"
    with f have "f = 4" and "3 \<in> set (ppq_queued q')" by simp_all
    with bspec [OF first, of 3] q(3,4) show False by simp
  qed
  with run run' q(1,2) show ?thesis by (auto simp del: run_moves.simps)
qed

end
