(* ===== verification/Fair_Queue.thy ===== *)
theory Fair_Queue
  imports Flow_Queues
begin

text \<open>
  \<open>flow/PacketPassFairQueue.c\<close>: every flow has a virtual time, the 64-bit sum of what it has
  sent; the waiting flow with the least time goes first.  When a time would overflow, the loop
  over all flows subtracts the time of the first waiting flow.
\<close>

section \<open>PacketPassFairQueue\<close>

record PacketPassFairQueue =
  pfa_use_cancel :: bool
  pfa_packet_weight :: int
  pfa_sending_flow :: "nat option"
  pfa_sending_len :: int
  pfa_previous_flow :: "nat option"
  pfa_queued :: "nat list"
  pfa_flows_list :: "nat list"
  pfa_freeing :: bool
  pfa_schedule_job :: bool
  pfa_time :: "nat \<Rightarrow> 64 word"
  pfa_is_queued :: "nat \<Rightarrow> bool"
  pfa_queued_data :: "nat \<Rightarrow> ptr"
  pfa_queued_len :: "nat \<Rightarrow> int"
  pfa_handler_busy :: "nat \<Rightarrow> bool"

definition FAIRQUEUE_MAX_TIME :: "64 word" where
  "FAIRQUEUE_MAX_TIME = - 1"

definition PacketPassFairQueue_compare_flows :: "(nat \<Rightarrow> 64 word) \<Rightarrow> nat \<Rightarrow> nat \<Rightarrow> int" where
  "PacketPassFairQueue_compare_flows time f1 f2 =
     (let cmp = B_COMPARE (uint (time f1)) (uint (time f2))
      in if cmp \<noteq> 0 then cmp else B_COMPARE (int f1) (int f2))"

definition PacketPassFairQueue_get_current_time ::
    "PacketPassFairQueue \<Rightarrow> 64 word \<times> queue_call list" where
  "PacketPassFairQueue_get_current_time q =
     (case pfa_sending_flow q of
        Some f \<Rightarrow> (pfa_time q f, [])
      | None \<Rightarrow>
          (let (time, have1, cs) = (case pfa_queued q of
                 [] \<Rightarrow> (0, False, [])
               | first_flow # _ \<Rightarrow> (pfa_time q first_flow, True, [Assert (pfa_is_queued q first_flow)]));
               (time, have1) = (case pfa_previous_flow q of
                 None \<Rightarrow> (time, have1)
               | Some p \<Rightarrow> if \<not> have1 \<or> pfa_time q p < time then (pfa_time q p, True) else (time, have1))
           in (if have1 then time else 0, cs)))"

text \<open>The loop over all flows that subtracts \<open>subtract\<close>, for the flow that just finished
  without a lower bound.\<close>

fun subtract_time ::
    "64 word \<Rightarrow> nat \<Rightarrow> (nat \<Rightarrow> bool) \<Rightarrow> nat list \<Rightarrow> (nat \<Rightarrow> 64 word) \<Rightarrow> (nat \<Rightarrow> 64 word) \<times> queue_call list" where
  "subtract_time subtract flow is_queued [] time = (time, [])"
| "subtract_time subtract flow is_queued (someflow # rest) time =
     (let (time1, cs) = (if time someflow < subtract \<and> someflow \<noteq> flow
            then (time(someflow := 0), [Assert (\<not> is_queued someflow)])
            else (time(someflow := time someflow - subtract), []))
      in case subtract_time subtract flow is_queued rest time1 of (time2, cs2) \<Rightarrow> (time2, cs @ cs2))"

definition PacketPassFairQueue_increment_sent_flow ::
    "PacketPassFairQueue \<Rightarrow> nat \<Rightarrow> 64 word \<Rightarrow> PacketPassFairQueue \<times> queue_call list" where
  "PacketPassFairQueue_increment_sent_flow q flow amount =
     (let asserts = [Assert (amount \<le> FAIRQUEUE_MAX_TIME), Assert (\<not> pfa_is_queued q flow),
                     Assert (pfa_sending_flow q = None)];
          (time, cs) =
            (if FAIRQUEUE_MAX_TIME - pfa_time q flow < amount
             then (let (subtract, as) = (case pfa_queued q of
                          [] \<Rightarrow> (pfa_time q flow, [])
                        | first_flow # _ \<Rightarrow> (pfa_time q first_flow, [Assert (pfa_is_queued q first_flow)]))
                   in case subtract_time subtract flow (pfa_is_queued q) (pfa_flows_list q) (pfa_time q) of
                        (t, bs) \<Rightarrow> (t, as @ bs))
             else (pfa_time q, []))
      in (q\<lparr>pfa_time := time(flow := time flow + amount)\<rparr>, asserts @ cs))"

definition PacketPassFairQueue_schedule :: "PacketPassFairQueue \<Rightarrow> PacketPassFairQueue \<times> queue_call list" where
  "PacketPassFairQueue_schedule q =
     (let asserts = [Assert (pfa_sending_flow q = None), Assert (pfa_previous_flow q = None),
                     Assert (\<not> pfa_freeing q), Assert (\<not> List.null (pfa_queued q))]
      in case pfa_queued q of
           [] \<Rightarrow> (q, asserts)
         | qflow # rest \<Rightarrow>
             (q\<lparr>pfa_queued := rest, pfa_is_queued := (pfa_is_queued q)(qflow := False),
                pfa_sending_flow := Some qflow, pfa_sending_len := pfa_queued_len q qflow\<rparr>,
              asserts @ [Assert (pfa_is_queued q qflow),
                PP_Send QOut (pfa_queued_data q qflow) (pfa_queued_len q qflow)]))"

definition PacketPassFairQueue_schedule_job_handler ::
    "PacketPassFairQueue \<Rightarrow> PacketPassFairQueue \<times> queue_call list" where
  "PacketPassFairQueue_schedule_job_handler q0 =
     (let q = q0\<lparr>pfa_schedule_job := False\<rparr>;
          asserts = [Assert (pfa_sending_flow q = None), Assert (\<not> pfa_freeing q)];
          q1 = q\<lparr>pfa_previous_flow := None\<rparr>
      in if \<not> List.null (pfa_queued q1)
         then (case PacketPassFairQueue_schedule q1 of (q2, cs) \<Rightarrow> (q2, asserts @ cs))
         else (q1, asserts))"

definition PacketPassFairQueue_input_handler_send ::
    "PacketPassFairQueue \<Rightarrow> nat \<Rightarrow> ptr \<Rightarrow> int \<Rightarrow> PacketPassFairQueue \<times> queue_call list" where
  "PacketPassFairQueue_input_handler_send q flow data data_len =
     (let asserts = [Assert (pfa_sending_flow q \<noteq> Some flow), Assert (\<not> pfa_is_queued q flow),
                     Assert (\<not> pfa_freeing q)];
          (q1, cs1) = (if pfa_previous_flow q = Some flow
             then (q\<lparr>pfa_previous_flow := None\<rparr>, [])
             else (case PacketPassFairQueue_get_current_time q of (now, cs) \<Rightarrow>
                     (q\<lparr>pfa_time := (pfa_time q)(flow := max (pfa_time q flow) now)\<rparr>, cs)));
          res = savl_insert (PacketPassFairQueue_compare_flows (pfa_time q1)) flow (pfa_queued q1);
          q2 = q1\<lparr>pfa_queued_data := (pfa_queued_data q1)(flow := data),
                  pfa_queued_len := (pfa_queued_len q1)(flow := data_len),
                  pfa_queued := (case res of None \<Rightarrow> pfa_queued q1 | Some t \<Rightarrow> t),
                  pfa_is_queued := (pfa_is_queued q1)(flow := True)\<rparr>;
          cs = asserts @ cs1 @ [Assert (res \<noteq> None)]
      in if pfa_sending_flow q2 = None \<and> \<not> pfa_schedule_job q2
         then (case PacketPassFairQueue_schedule q2 of (q3, cs3) \<Rightarrow> (q3, cs @ cs3))
         else (q2, cs))"

definition PacketPassFairQueue_output_handler_done ::
    "PacketPassFairQueue \<Rightarrow> PacketPassFairQueue \<times> queue_call list" where
  "PacketPassFairQueue_output_handler_done q =
     (let asserts = [Assert (pfa_sending_flow q \<noteq> None), Assert (pfa_previous_flow q = None),
                     Assert (\<not> pfa_schedule_job q), Assert (\<not> pfa_freeing q)]
      in case pfa_sending_flow q of
           None \<Rightarrow> (q, asserts)
         | Some flow \<Rightarrow>
             (let (q1, cs1) = PacketPassFairQueue_increment_sent_flow
                    (q\<lparr>pfa_sending_flow := None, pfa_previous_flow := Some flow\<rparr>) flow
                    (word_of_int (pfa_packet_weight q) + word_of_int (pfa_sending_len q));
                  q2 = q1\<lparr>pfa_schedule_job := True\<rparr>;
                  cs = asserts @ [Assert (\<not> pfa_is_queued q flow)] @ cs1 @ [Job_Set (), PP_Done (FlowIn flow)]
              in if pfa_handler_busy q2 flow
                 then (q2\<lparr>pfa_handler_busy := (pfa_handler_busy q2)(flow := False)\<rparr>,
                       cs @ [UserCall (Busy flow)])
                 else (q2, cs)))"

definition PacketPassFairQueue_Init ::
    "int \<Rightarrow> bool \<Rightarrow> bool \<Rightarrow> int \<Rightarrow> (PacketPassFairQueue \<times> queue_call list) option" where
  "PacketPassFairQueue_Init output_mtu output_has_cancel use_cancel packet_weight =
     (if \<not> (word_of_int output_mtu \<le> FAIRQUEUE_MAX_TIME \<and>
            word_of_int packet_weight \<le> FAIRQUEUE_MAX_TIME - word_of_int output_mtu)
      then None
      else Some
        (\<lparr>pfa_use_cancel = use_cancel, pfa_packet_weight = packet_weight, pfa_sending_flow = None,
          pfa_sending_len = 0, pfa_previous_flow = None, pfa_queued = [], pfa_flows_list = [],
          pfa_freeing = False, pfa_schedule_job = False, pfa_time = (\<lambda>_. 0),
          pfa_is_queued = (\<lambda>_. False), pfa_queued_data = (\<lambda>_. 0), pfa_queued_len = (\<lambda>_. 0),
          pfa_handler_busy = (\<lambda>_. False)\<rparr>,
         [Assert (0 < packet_weight), Assert (\<not> use_cancel \<or> output_has_cancel), PP_Sender_Init QOut,
          Job_Init ()]))"

definition PacketPassFairQueue_Free :: "PacketPassFairQueue \<Rightarrow> queue_call list" where
  "PacketPassFairQueue_Free q =
     [Assert (List.null (pfa_flows_list q)), Assert (List.null (pfa_queued q)),
      Assert (pfa_previous_flow q = None), Assert (pfa_sending_flow q = None), Job_Free ()]"

definition PacketPassFairQueue_PrepareFree :: "PacketPassFairQueue \<Rightarrow> PacketPassFairQueue" where
  "PacketPassFairQueue_PrepareFree q = q\<lparr>pfa_freeing := True\<rparr>"

definition PacketPassFairQueue_GetMTU :: "(qport, unit) net \<Rightarrow> int" where
  "PacketPassFairQueue_GetMTU n = PacketPassInterface_GetMTU QOut n"

definition PacketPassFairQueueFlow_Init ::
    "PacketPassFairQueue \<Rightarrow> nat \<Rightarrow> int \<Rightarrow> PacketPassFairQueue \<times> queue_call list" where
  "PacketPassFairQueueFlow_Init q flow mtu_out =
     (q\<lparr>pfa_handler_busy := (pfa_handler_busy q)(flow := False),
        pfa_time := (pfa_time q)(flow := 0),
        pfa_flows_list := pfa_flows_list q @ [flow],
        pfa_is_queued := (pfa_is_queued q)(flow := False)\<rparr>,
      [Assert (\<not> pfa_freeing q), PP_Init (FlowIn flow) mtu_out])"

definition PacketPassFairQueueFlow_Free ::
    "PacketPassFairQueue \<Rightarrow> nat \<Rightarrow> PacketPassFairQueue \<times> queue_call list" where
  "PacketPassFairQueueFlow_Free q flow =
     (let q1 = (if pfa_sending_flow q = Some flow then q\<lparr>pfa_sending_flow := None\<rparr> else q);
          q2 = (if pfa_previous_flow q1 = Some flow then q1\<lparr>pfa_previous_flow := None\<rparr> else q1);
          q3 = (if pfa_is_queued q2 flow then q2\<lparr>pfa_queued := remove1 flow (pfa_queued q2)\<rparr> else q2);
          q4 = q3\<lparr>pfa_flows_list := remove1 flow (pfa_flows_list q3)\<rparr>
      in (q4, [Assert (pfa_freeing q \<or> pfa_sending_flow q \<noteq> Some flow), PP_Free (FlowIn flow)]))"

definition PacketPassFairQueueFlow_AssertFree ::
    "PacketPassFairQueue \<Rightarrow> nat \<Rightarrow> queue_call list" where
  "PacketPassFairQueueFlow_AssertFree q flow =
     [Assert (pfa_freeing q \<or> pfa_sending_flow q \<noteq> Some flow)]"

definition PacketPassFairQueueFlow_IsBusy :: "PacketPassFairQueue \<Rightarrow> nat \<Rightarrow> bool" where
  "PacketPassFairQueueFlow_IsBusy q flow \<longleftrightarrow> pfa_sending_flow q = Some flow"

definition PacketPassFairQueueFlow_RequestCancel ::
    "PacketPassFairQueue \<Rightarrow> nat \<Rightarrow> PacketPassFairQueue \<times> queue_call list" where
  "PacketPassFairQueueFlow_RequestCancel q flow =
     (q, [Assert (pfa_sending_flow q = Some flow), Assert (pfa_use_cancel q), Assert (\<not> pfa_freeing q),
          Assert (\<not> pfa_schedule_job q), PP_RequestCancel QOut])"

definition PacketPassFairQueueFlow_SetBusyHandler ::
    "PacketPassFairQueue \<Rightarrow> nat \<Rightarrow> bool \<Rightarrow> PacketPassFairQueue \<times> queue_call list" where
  "PacketPassFairQueueFlow_SetBusyHandler q flow h =
     (q\<lparr>pfa_handler_busy := (pfa_handler_busy q)(flow := h)\<rparr>,
      [Assert (pfa_sending_flow q = Some flow), Assert (\<not> pfa_freeing q)])"

definition pfa_component ::
    "(PacketPassFairQueue, qport, unit, queue_event, queue_api) component" where
  "pfa_component = \<lparr>
     provides = (\<lambda>p. p \<noteq> QOut),
     on_operation = (\<lambda>p d l q. case p of FlowIn flow \<Rightarrow> PacketPassFairQueue_input_handler_send q flow d l
        | QOut \<Rightarrow> no_calls q),
     on_requestcancel = (\<lambda>p q. no_calls q),
     on_done = (\<lambda>p l q. PacketPassFairQueue_output_handler_done q),
     on_job = (\<lambda>c q. PacketPassFairQueue_schedule_job_handler q),
     on_timer = (\<lambda>c q. no_calls q),
     on_api = (\<lambda>e q. case e of
         Renew flow m pri \<Rightarrow> renewed (PacketPassFairQueueFlow_Free q flow)
           (\<lambda>q. PacketPassFairQueueFlow_Init q flow m) flow
       | SetBusyHandler flow h \<Rightarrow> PacketPassFairQueueFlow_SetBusyHandler q flow h
       | CancelFlow flow \<Rightarrow> PacketPassFairQueueFlow_RequestCancel q flow),
     api_ok = (\<lambda>e q n. case e of
         Renew flow m pri \<Rightarrow> flow \<in> set (pfa_flows_list q) \<and> pfa_sending_flow q \<noteq> Some flow \<and>
           m = mtu (ifs n QOut)
       | SetBusyHandler flow h \<Rightarrow> pfa_sending_flow q = Some flow
       | CancelFlow flow \<Rightarrow> pfa_sending_flow q = Some flow \<and> pfa_use_cancel q)\<rparr>"

section \<open>Times\<close>

abbreviation time_of :: "PacketPassFairQueue \<Rightarrow> nat \<Rightarrow> int" where
  "time_of q \<equiv> \<lambda>f. uint (pfa_time q f)"

lemma fair_compare_before [simp]:
  "PacketPassFairQueue_compare_flows t f g < 0 \<longleftrightarrow> before (\<lambda>f. uint (t f)) f g"
  "0 < PacketPassFairQueue_compare_flows t f g \<longleftrightarrow> before (\<lambda>f. uint (t f)) g f"
  by (auto simp: PacketPassFairQueue_compare_flows_def B_COMPARE_def before_def word_uint_eq_iff)

text \<open>The loop subtracts what there is from every flow but the finished one, whose word may
  wrap, and its assertion holds when the queued flows have at least the subtracted time.\<close>

lemma subtract_time_Cons:
  "subtract_time s flow is_queued (f # fs) t =
     (if t f < s \<and> f \<noteq> flow
      then (fst (subtract_time s flow is_queued fs (t(f := 0))),
            Assert (\<not> is_queued f) # snd (subtract_time s flow is_queued fs (t(f := 0))))
      else subtract_time s flow is_queued fs (t(f := t f - s)))"
  by (simp add: case_prod_unfold)

declare subtract_time.simps(2) [simp del] subtract_time_Cons [simp]

lemma subtract_time_eq:
  "distinct fs \<Longrightarrow> fst (subtract_time s flow is_queued fs t) =
     (\<lambda>g. if g \<notin> set fs then t g else if t g < s \<and> g \<noteq> flow then 0 else t g - s)"
proof (induction fs arbitrary: t)
  case (Cons f fs)
  then show ?case
    by (cases "t f < s \<and> f \<noteq> flow") (auto simp only: subtract_time_Cons fst_conv fun_eq_iff if_True if_False
      Cons.IH distinct.simps list.set fun_upd_apply split: if_splits)
qed simp

lemma subtract_time_harmless:
  "distinct fs \<Longrightarrow> (\<And>g. is_queued g \<Longrightarrow> g \<in> set fs \<Longrightarrow> g \<noteq> flow \<Longrightarrow> s \<le> t g) \<Longrightarrow>
   list_all harmless (snd (subtract_time s flow is_queued fs t))"
proof (induction fs arbitrary: t)
  case (Cons f fs)
  have "s \<le> (t(f := x)) g" if "is_queued g" "g \<in> set fs" "g \<noteq> flow" for x g
    using Cons.prems that by auto
  with Cons.IH Cons.prems(1) have "list_all harmless (snd (subtract_time s flow is_queued fs (t(f := x))))" for x
    by simp
  moreover have "\<not> is_queued f" if "t f < s" "f \<noteq> flow"
    using Cons.prems(2) [of f] that by (auto simp: not_less [symmetric])
  ultimately show ?case by (simp add: subtract_time_Cons)
qed simp

lemma uint_below: "uint (x :: 64 word) < 2 ^ 64" "0 \<le> uint x"
  using uint_lt2p [of x] by simp_all

lemma exact_sum:
  "0 \<le> uint t - uint s + uint a \<Longrightarrow> uint t - uint s + uint a < 2 ^ 64 \<Longrightarrow>
   uint (t - s + a) = uint t - uint s + uint (a :: 64 word)"
  by (simp add: uint_word_ariths mod_simps del: One_nat_def)

lemma exact_diff: "s \<le> t \<Longrightarrow> uint (t - s) = uint t - uint (s :: 64 word)"
  by (simp add: uint_minus_simple_iff word_le_def uint_sub_lem)

lemma time_overflows:
  "FAIRQUEUE_MAX_TIME - t < a \<longleftrightarrow> 2 ^ 64 \<le> uint t + uint a"
proof -
  have "uint (FAIRQUEUE_MAX_TIME - t) = 2 ^ 64 - 1 - uint t"
    using exact_diff [of t "FAIRQUEUE_MAX_TIME"] by (simp add: FAIRQUEUE_MAX_TIME_def unsigned_minus_1_eq_mask mask_eq_exp_minus_1)
  then show ?thesis by (auto simp: word_less_def)
qed

lemma max_time_top [simp]: "a \<le> FAIRQUEUE_MAX_TIME"
  by (simp add: FAIRQUEUE_MAX_TIME_def)

text \<open>What \<open>increment_sent_flow\<close> subtracts when the time of the flow would overflow.\<close>

definition overflow_base :: "PacketPassFairQueue \<Rightarrow> nat \<Rightarrow> 64 word" where
  "overflow_base q flow = (case pfa_queued q of [] \<Rightarrow> pfa_time q flow | g # _ \<Rightarrow> pfa_time q g)"

lemma increment_overflow:
  assumes "FAIRQUEUE_MAX_TIME - pfa_time q flow < amount"
  shows "PacketPassFairQueue_increment_sent_flow q flow amount =
    (let t = subtract_time (overflow_base q flow) flow (pfa_is_queued q) (pfa_flows_list q) (pfa_time q)
     in (q\<lparr>pfa_time := (fst t)(flow := fst t flow + amount)\<rparr>,
         [Assert (amount \<le> FAIRQUEUE_MAX_TIME), Assert (\<not> pfa_is_queued q flow),
          Assert (pfa_sending_flow q = None)] @
         (case pfa_queued q of [] \<Rightarrow> [] | g # _ \<Rightarrow> [Assert (pfa_is_queued q g)]) @ snd t))"
  unfolding PacketPassFairQueue_increment_sent_flow_def overflow_base_def Let_def
  by (cases "pfa_queued q") (simp_all only: assms if_True list.case case_prod_unfold fst_conv snd_conv append_Nil)

text \<open>What a charge of \<open>amount\<close> to \<open>flow\<close> takes off every time: nothing, unless the sum does not fit 64 bits.\<close>

definition charge_base :: "PacketPassFairQueue \<Rightarrow> nat \<Rightarrow> int \<Rightarrow> int" where
  "charge_base q flow amount =
     (if time_of q flow + amount < 2 ^ 64 then 0
      else case pfa_queued q of [] \<Rightarrow> time_of q flow | g # _ \<Rightarrow> time_of q g)"

lemma increment_exact:
  fixes q flow amount
  defines "r \<equiv> PacketPassFairQueue_increment_sent_flow q flow amount" and "base \<equiv> charge_base q flow (uint amount)"
  assumes flows: "distinct (pfa_flows_list q)" "flow \<in> set (pfa_flows_list q)"
      "set (pfa_queued q) \<subseteq> set (pfa_flows_list q)" "flow \<notin> set (pfa_queued q)"
    and iq: "\<And>g. pfa_is_queued q g \<longleftrightarrow> g \<in> set (pfa_queued q)"
    and sorted: "sorted_wrt (before (time_of q)) (pfa_queued q)"
    and least: "\<And>g. g \<in> set (pfa_queued q) \<Longrightarrow> time_of q flow \<le> time_of q g"
    and idle: "pfa_sending_flow q = None"
  obtains time where "fst r = q\<lparr>pfa_time := time\<rparr>" and "list_all harmless (snd r)"
    and "uint (time flow) = time_of q flow + uint amount - base"
    and "\<And>g. g \<in> set (pfa_flows_list q) \<Longrightarrow> g \<noteq> flow \<Longrightarrow> uint (time g) = max 0 (time_of q g - base)"
    and "\<And>g. g \<in> set (pfa_queued q) \<Longrightarrow> base \<le> time_of q g"
proof (cases "FAIRQUEUE_MAX_TIME - pfa_time q flow < amount")
  case False
  with idle flows iq have r: "fst r = q\<lparr>pfa_time := (pfa_time q)(flow := pfa_time q flow + amount)\<rparr>"
    and h: "list_all harmless (snd r)"
    by (simp_all add: r_def PacketPassFairQueue_increment_sent_flow_def)
  have lt: "time_of q flow + uint amount < 2 ^ 64"
    using False by (simp only: time_overflows not_le)
  then have "base = 0" by (simp add: base_def charge_base_def)
  moreover have "uint (pfa_time q flow + amount) = time_of q flow + uint amount"
    using lt exact_sum [of "pfa_time q flow" 0 amount] by simp
  ultimately show ?thesis by (intro that [OF r h]) auto
next
  case True
  define s where "s = overflow_base q flow"
  define t where "t = subtract_time s flow (pfa_is_queued q) (pfa_flows_list q) (pfa_time q)"
  have le: "2 ^ 64 \<le> time_of q flow + uint amount" using True by (simp only: time_overflows)
  then have base: "base = uint s"
    by (simp add: base_def charge_base_def s_def overflow_base_def split: list.split)
  have s_le: "s \<le> pfa_time q g" if g: "g \<in> set (pfa_queued q)" for g
  proof (cases "pfa_queued q")
    case (Cons a l)
    with sorted g have "g = a \<or> before (time_of q) a g" by auto
    with Cons show ?thesis by (auto simp: s_def overflow_base_def before_def word_le_def)
  qed (use g in simp)
  have s_ge: "pfa_time q flow \<le> s"
    by (cases "pfa_queued q") (simp_all add: s_def overflow_base_def word_le_def least)
  have r: "fst r = q\<lparr>pfa_time := (fst t)(flow := fst t flow + amount)\<rparr>"
    by (simp add: r_def increment_overflow [OF True] s_def t_def Let_def)
  have "list_all harmless (snd t)"
    unfolding t_def using subtract_time_harmless [OF flows(1)] s_le iq by blast
  then have "list_all harmless (snd r)"
    using idle flows(4) iq
    by (cases "pfa_queued q") (simp_all add: r_def increment_overflow [OF True] s_def [symmetric] t_def [symmetric] Let_def)
  moreover have "uint (fst t flow + amount) = time_of q flow + uint amount - base"
  proof -
    have "fst t flow = pfa_time q flow - s" using flows(1,2) by (simp add: t_def subtract_time_eq)
    then show ?thesis
      using s_ge le exact_sum [of "pfa_time q flow" s amount] uint_below [of s] uint_below [of amount]
      by (simp add: word_le_def base)
  qed
  moreover have "uint (fst t g) = max 0 (time_of q g - base)" if "g \<in> set (pfa_flows_list q)" "g \<noteq> flow" for g
    using that flows(1) exact_diff [of s "pfa_time q g"]
    by (cases "s \<le> pfa_time q g") (auto simp: t_def subtract_time_eq base word_le_def word_less_def not_le)
  moreover have "base \<le> time_of q g" if "g \<in> set (pfa_queued q)" for g
    using s_le [OF that] by (simp add: base word_le_def)
  ultimately show ?thesis by (intro that [OF r]) auto
qed

section \<open>The contract\<close>

definition pfa_view :: "PacketPassFairQueue \<Rightarrow> queue_view" where
  "pfa_view q = \<lparr>v_waiting = pfa_queued q, v_sending = pfa_sending_flow q, v_job = pfa_schedule_job q,
     v_is_waiting = pfa_is_queued q, v_data = pfa_queued_data q, v_len = pfa_queued_len q\<rparr>"

text \<open>The flows of the list are those with a user; the waiting flows are sorted by time, the
  flow being sent has at most the time of every waiting flow, and the length kept for it is that of its packet.\<close>

definition pfa_fine :: "PacketPassFairQueue \<Rightarrow> bool \<Rightarrow> (nat \<Rightarrow> bool) \<Rightarrow> bool" where
  "pfa_fine q can us \<longleftrightarrow> \<not> pfa_freeing q \<and> (pfa_use_cancel q \<longrightarrow> can) \<and>
     sorted_wrt (before (time_of q)) (pfa_queued q) \<and>
     (\<forall>f g. pfa_sending_flow q = Some f \<longrightarrow> g \<in> set (pfa_queued q) \<longrightarrow> time_of q f \<le> time_of q g) \<and>
     (pfa_previous_flow q \<noteq> None \<longrightarrow> pfa_schedule_job q) \<and>
     distinct (pfa_flows_list q) \<and> (\<forall>f. us f \<longleftrightarrow> f \<in> set (pfa_flows_list q)) \<and>
     set (pfa_queued q) \<subseteq> set (pfa_flows_list q) \<and>
     (\<forall>f. pfa_sending_flow q = Some f \<longrightarrow> f \<in> set (pfa_flows_list q) \<and> pfa_sending_len q = pfa_queued_len q f)"

lemma pfa_schedules:
  assumes "view_ok (pfa_view q)" and "pfa_fine q can us" and "pfa_queued q \<noteq> []"
    and "pfa_sending_flow q = None" and "pfa_previous_flow q = None"
  shows "scheduled (pfa_view q) (pfa_view (fst (PacketPassFairQueue_schedule q))) (snd (PacketPassFairQueue_schedule q))"
    and "pfa_fine (fst (PacketPassFairQueue_schedule q)) can us"
proof -
  obtain g rest where w: "pfa_queued q = g # rest" using assms(3) by (cases "pfa_queued q") auto
  then have "pfa_is_queued q g" "distinct (g # rest)"
    using assms(1) by (auto simp: view_ok_def pfa_view_def)
  with assms w show "scheduled (pfa_view q) (pfa_view (fst (PacketPassFairQueue_schedule q)))
      (snd (PacketPassFairQueue_schedule q))"
    unfolding scheduled_def
    by (intro exI [of _ g] exI [of _ rest] exI [of _ "replicate 5 (Assert True)"])
      (simp add: pfa_view_def pfa_fine_def PacketPassFairQueue_schedule_def numeral_eq_Suc)
  from assms w show "pfa_fine (fst (PacketPassFairQueue_schedule q)) can us"
    by (auto simp: PacketPassFairQueue_schedule_def pfa_fine_def before_def)
qed

text \<open>The first step of \<open>input_handler_send\<close>: a flow other than the previous one is raised to the
  current time.\<close>

definition raised :: "PacketPassFairQueue \<Rightarrow> nat \<Rightarrow> PacketPassFairQueue \<times> queue_call list" where
  "raised q flow = (if pfa_previous_flow q = Some flow then (q\<lparr>pfa_previous_flow := None\<rparr>, [])
     else (q\<lparr>pfa_time := (pfa_time q)(flow := max (pfa_time q flow) (fst (PacketPassFairQueue_get_current_time q)))\<rparr>,
           snd (PacketPassFairQueue_get_current_time q)))"

lemma raised_facts:
  assumes "view_ok (pfa_view q)" and "pfa_fine q can us"
  shows "list_all harmless (snd (raised q f))" and "pfa_view (fst (raised q f)) = pfa_view q"
    and "g \<noteq> f \<Longrightarrow> pfa_time (fst (raised q f)) g = pfa_time q g"
    and "pfa_sending_flow q = Some s \<Longrightarrow> f \<noteq> s \<Longrightarrow> pfa_time q s \<le> pfa_time (fst (raised q f)) f"
    and "pfa_previous_flow (fst (raised q f)) \<noteq> None \<Longrightarrow> pfa_schedule_job q"
    and "pfa_flows_list (fst (raised q f)) = pfa_flows_list q" "pfa_freeing (fst (raised q f)) = pfa_freeing q"
      "pfa_use_cancel (fst (raised q f)) = pfa_use_cancel q" "pfa_sending_len (fst (raised q f)) = pfa_sending_len q"
proof -
  have "g # gs = pfa_queued q \<Longrightarrow> pfa_is_queued q g" for g gs
    using assms(1) by (auto simp: view_ok_def pfa_view_def dest: sym)
  then show "list_all harmless (snd (raised q f))"
    by (auto simp: raised_def PacketPassFairQueue_get_current_time_def Let_def case_prod_unfold
        split: option.splits list.splits)
  show "pfa_sending_flow q = Some s \<Longrightarrow> f \<noteq> s \<Longrightarrow> pfa_time q s \<le> pfa_time (fst (raised q f)) f"
    using assms by (auto simp: raised_def PacketPassFairQueue_get_current_time_def pfa_fine_def view_ok_def
        pfa_view_def)
  show "pfa_previous_flow (fst (raised q f)) \<noteq> None \<Longrightarrow> pfa_schedule_job q"
    using assms(2) by (auto simp: raised_def pfa_fine_def split: if_splits)
qed (simp_all add: raised_def pfa_view_def)

lemma input_eq:
  "PacketPassFairQueue_input_handler_send q f d l =
     (let q1 = fst (raised q f);
          res = savl_insert (PacketPassFairQueue_compare_flows (pfa_time q1)) f (pfa_queued q1);
          q2 = q1\<lparr>pfa_queued_data := (pfa_queued_data q1)(f := d), pfa_queued_len := (pfa_queued_len q1)(f := l),
                  pfa_queued := (case res of None \<Rightarrow> pfa_queued q1 | Some t \<Rightarrow> t),
                  pfa_is_queued := (pfa_is_queued q1)(f := True)\<rparr>;
          cs = [Assert (pfa_sending_flow q \<noteq> Some f), Assert (\<not> pfa_is_queued q f), Assert (\<not> pfa_freeing q)] @
            snd (raised q f) @ [Assert (res \<noteq> None)]
      in if pfa_sending_flow q2 = None \<and> \<not> pfa_schedule_job q2
         then (fst (PacketPassFairQueue_schedule q2), cs @ snd (PacketPassFairQueue_schedule q2)) else (q2, cs))"
  unfolding PacketPassFairQueue_input_handler_send_def raised_def Let_def
  by (cases "pfa_previous_flow q = Some f") (simp_all only: if_True if_False case_prod_unfold fst_conv snd_conv)

lemma scheduled_append: "list_all harmless as \<Longrightarrow> scheduled v v' cs \<Longrightarrow> scheduled v v' (as @ cs)"
  by (induction as) (auto simp: scheduled_Cons)

abbreviation weight_of :: "PacketPassFairQueue \<Rightarrow> 64 word" where
  "weight_of q \<equiv> word_of_int (pfa_packet_weight q) + word_of_int (pfa_sending_len q)"

text \<open>The end of a send charges the flow, and moves the times of all others by the same base.\<close>

lemma done_exact:
  assumes "view_ok (pfa_view q)" and "pfa_fine q can us" and s: "pfa_sending_flow q = Some f"
    and base_def: "base = charge_base q f (uint (weight_of q))"
  obtains time as where
    "PacketPassFairQueue_output_handler_done q =
      (q\<lparr>pfa_sending_flow := None, pfa_previous_flow := Some f, pfa_time := time, pfa_schedule_job := True,
         pfa_handler_busy := (pfa_handler_busy q)(f := False)\<rparr>,
       as @ [Job_Set (), PP_Done (FlowIn f)] @ (if pfa_handler_busy q f then [UserCall (Busy f)] else []))"
    and "list_all harmless as"
    and "uint (time f) = time_of q f + uint (weight_of q) - base"
    and "\<And>g. g \<in> set (pfa_flows_list q) \<Longrightarrow> g \<noteq> f \<Longrightarrow> uint (time g) = max 0 (time_of q g - base)"
    and "\<And>g. g \<in> set (pfa_queued q) \<Longrightarrow> base \<le> time_of q g"
    and "\<And>g. g \<in> set (pfa_queued q) \<Longrightarrow> uint (time g) = time_of q g - base"
proof -
  have iw: "\<not> pfa_is_queued q f" "\<not> pfa_schedule_job q" "f \<notin> set (pfa_queued q)"
    "\<And>g. pfa_is_queued q g \<longleftrightarrow> g \<in> set (pfa_queued q)"
    using assms(1) s by (simp_all add: pfa_view_def view_ok_def)
  have p: "pfa_previous_flow q = None" using assms(2) iw(2) by (cases "pfa_previous_flow q") (simp_all add: pfa_fine_def)
  have free: "\<not> pfa_freeing q" and flows: "distinct (pfa_flows_list q)" "f \<in> set (pfa_flows_list q)"
      "set (pfa_queued q) \<subseteq> set (pfa_flows_list q)"
    and sorted: "sorted_wrt (before (time_of q)) (pfa_queued q)"
    and least: "\<And>g. g \<in> set (pfa_queued q) \<Longrightarrow> time_of q f \<le> time_of q g"
    using assms(2) s by (simp_all add: pfa_fine_def)
  let ?q = "q\<lparr>pfa_sending_flow := None, pfa_previous_flow := Some f\<rparr>"
  define r where "r = PacketPassFairQueue_increment_sent_flow ?q f (weight_of q)"
  have base: "charge_base ?q f (uint (weight_of q)) = base"
    by (simp add: base_def charge_base_def split: list.split)
  obtain time where r': "fst r = ?q\<lparr>pfa_time := time\<rparr>" and h: "list_all harmless (snd r)"
    and t: "uint (time f) = time_of q f + uint (weight_of q) - base"
      "\<And>g. g \<in> set (pfa_flows_list q) \<Longrightarrow> g \<noteq> f \<Longrightarrow> uint (time g) = max 0 (time_of q g - base)"
      "\<And>g. g \<in> set (pfa_queued q) \<Longrightarrow> base \<le> time_of q g"
  proof (rule increment_exact [of ?q f "weight_of q", folded r_def, unfolded base])
    fix time
    assume "fst r = ?q\<lparr>pfa_time := time\<rparr>" "list_all harmless (snd r)"
      "uint (time f) = time_of ?q f + uint (weight_of q) - base"
      "\<And>g. g \<in> set (pfa_flows_list ?q) \<Longrightarrow> g \<noteq> f \<Longrightarrow> uint (time g) = max 0 (time_of ?q g - base)"
      "\<And>g. g \<in> set (pfa_queued ?q) \<Longrightarrow> base \<le> time_of ?q g"
    then show thesis by (intro that [of time]) simp_all
  qed (simp_all add: flows sorted least iw)
  let ?as = "[Assert True, Assert True, Assert True, Assert True, Assert True] @ snd r"
  have "PacketPassFairQueue_output_handler_done q =
      (q\<lparr>pfa_sending_flow := None, pfa_previous_flow := Some f, pfa_time := time, pfa_schedule_job := True,
         pfa_handler_busy := (pfa_handler_busy q)(f := False)\<rparr>,
       ?as @ [Job_Set (), PP_Done (FlowIn f)] @ (if pfa_handler_busy q f then [UserCall (Busy f)] else []))"
    unfolding PacketPassFairQueue_output_handler_done_def Let_def case_prod_unfold r_def [symmetric]
    by (cases "pfa_handler_busy q f") (simp_all add: s p iw free r_def [symmetric] r' fun_upd_idem)
  moreover have "list_all harmless ?as" using h by simp
  moreover have "uint (time g) = time_of q g - base" if g: "g \<in> set (pfa_queued q)" for g
    using t(2) [of g] t(3) [OF g] g flows(3) iw(3) by auto
  ultimately show ?thesis using that [of time ?as] t by simp
qed

interpretation pfa: shared_output pfa_component pfa_view pfa_fine
proof (unfold_locales, goal_cases)
  case (1 p)
  then show ?case by (simp add: pfa_component_def)
next
  case (2 c q)
  then show ?case by (simp add: pfa_component_def)
next
  case (3 q can us f d l q' cs)
  have new: "f \<notin> set (pfa_queued q)" "\<not> pfa_is_queued q f" "pfa_sending_flow q \<noteq> Some f"
    and free: "\<not> pfa_freeing q"
    using 3(1,3-5) by (auto simp: pfa_view_def view_ok_def pfa_fine_def)
  note R = raised_facts [OF 3(3,1), where f = f]
  define q1 where "q1 = fst (raised q f)"
  have q1: "pfa_queued q1 = pfa_queued q" "pfa_sending_flow q1 = pfa_sending_flow q"
    "pfa_schedule_job q1 = pfa_schedule_job q" "pfa_is_queued q1 = pfa_is_queued q"
    "pfa_queued_data q1 = pfa_queued_data q" "pfa_queued_len q1 = pfa_queued_len q"
    using R(2) by (simp_all add: q1_def pfa_view_def)
  have "sorted_wrt (before (time_of q1)) (pfa_queued q)"
  proof (rule sorted_wrt_mono_rel)
    show "sorted_wrt (before (time_of q)) (pfa_queued q)" using 3(1) by (simp add: pfa_fine_def)
    fix x y
    assume "x \<in> set (pfa_queued q)" "y \<in> set (pfa_queued q)" "before (time_of q) x y"
    moreover from this new(1) have "x \<noteq> f" "y \<noteq> f" by auto
    ultimately show "before (time_of q1) x y" using R(3) by (simp add: before_def q1_def)
  qed
  from ordered_insert [OF fair_compare_before(1,2) new(1) this] obtain w' where
    ins: "savl_insert (PacketPassFairQueue_compare_flows (pfa_time q1)) f (pfa_queued q) = Some w'"
    and w': "set w' = insert f (set (pfa_queued q))" "sorted_wrt (before (time_of q1)) w'" .
  let ?q = "q1\<lparr>pfa_queued_data := (pfa_queued_data q)(f := d), pfa_queued_len := (pfa_queued_len q)(f := l),
    pfa_queued := w', pfa_is_queued := (pfa_is_queued q)(f := True)\<rparr>"
  have enq: "enqueued f d l (pfa_view q) (pfa_view ?q)"
    using w' before_distinct [OF w'(2)] q1 by (auto simp: enqueued_def pfa_view_def)
  have least: "time_of q1 s \<le> time_of q1 g" if "pfa_sending_flow q = Some s" "g \<in> set w'" for s g
    using that R(3,4) new 3(1) w'(1) by (cases "g = f") (auto simp: q1_def pfa_fine_def word_le_def)
  have fine: "pfa_fine ?q can us"
    using 3(1,2) R(5-9) w' q1 least new(3) by (auto simp: pfa_fine_def q1_def)
  define as where "as = [Assert True, Assert True, Assert True] @ snd (raised q f) @ [Assert True]"
  have as: "list_all harmless as" using R(1) by (simp add: as_def)
  have q': "(q', cs) = (if pfa_sending_flow q = None \<and> \<not> pfa_schedule_job q
      then (fst (PacketPassFairQueue_schedule ?q), as @ snd (PacketPassFairQueue_schedule ?q)) else (?q, as))"
    unfolding 3(6) [symmetric] using free new ins
    by (simp add: pfa_component_def input_eq Let_def q1_def [symmetric] q1 as_def)
  show ?case
  proof (cases "pfa_sending_flow q = None \<and> \<not> pfa_schedule_job q")
    case True
    then have "view_ok (pfa_view ?q)" using 3(3) new before_distinct [OF w'(2)] w'(1) q1
      by (auto simp: view_ok_def pfa_view_def)
    moreover have "w' \<noteq> []" using w'(1) by auto
    moreover have "pfa_previous_flow q1 = None" using R(5) True by (cases "pfa_previous_flow q1") (auto simp: q1_def)
    ultimately show ?thesis using pfa_schedules [OF _ fine] True q' q1
      by (intro conjI exI [of _ "pfa_view ?q"] enq) (simp_all add: pfa_view_def scheduled_append [OF as])
  next
    case False
    with q' fine as q1 show ?thesis
      by (intro conjI exI [of _ "pfa_view ?q"] enq) (auto simp: pfa_view_def)
  qed
next
  case (4 q can us f l q' cs)
  have s: "pfa_sending_flow q = Some f" using 4(3) by (simp add: pfa_view_def)
  define base where "base = charge_base q f (uint (weight_of q))"
  obtain time as where
    r: "PacketPassFairQueue_output_handler_done q =
      (q\<lparr>pfa_sending_flow := None, pfa_previous_flow := Some f, pfa_time := time, pfa_schedule_job := True,
         pfa_handler_busy := (pfa_handler_busy q)(f := False)\<rparr>,
       as @ [Job_Set (), PP_Done (FlowIn f)] @ (if pfa_handler_busy q f then [UserCall (Busy f)] else []))"
    and as: "list_all harmless as"
    and t: "\<And>g. g \<in> set (pfa_queued q) \<Longrightarrow> uint (time g) = time_of q g - base"
    by (rule done_exact [OF 4(2,1) s base_def], rule that)
  let ?us = "if pfa_handler_busy q f then [UserCall (Busy f)] else []"
  have q': "q' = q\<lparr>pfa_sending_flow := None, pfa_previous_flow := Some f, pfa_time := time, pfa_schedule_job := True,
         pfa_handler_busy := (pfa_handler_busy q)(f := False)\<rparr>"
    and cs: "cs = as @ [Job_Set (), PP_Done (FlowIn f)] @ ?us"
    using 4(4) by (simp_all add: pfa_component_def r)
  have "sorted_wrt (before (\<lambda>g. uint (time g))) (pfa_queued q)"
  proof (rule sorted_wrt_mono_rel)
    show "sorted_wrt (before (time_of q)) (pfa_queued q)" using 4(1) by (simp add: pfa_fine_def)
  qed (simp add: before_def t)
  then have "pfa_fine q' can us" using 4(1) by (simp add: q' pfa_fine_def)
  moreover have "pfa_view q' = (pfa_view q)\<lparr>v_sending := None, v_job := True\<rparr>"
    by (simp add: q' pfa_view_def)
  moreover have "list_all harmless ?us" by simp
  ultimately show ?case using cs as by blast
next
  case (5 q can us q' cs)
  show ?case
  proof (cases "pfa_queued q")
    case Nil
    have "(q', cs) = (q\<lparr>pfa_schedule_job := False, pfa_previous_flow := None\<rparr>, [Assert True, Assert True])"
      unfolding 5(5) [symmetric] using 5(1-4) Nil
      by (simp add: pfa_component_def PacketPassFairQueue_schedule_job_handler_def Let_def pfa_view_def pfa_fine_def)
    with 5(1) Nil show ?thesis by (simp add: pfa_view_def pfa_fine_def)
  next
    case (Cons g rest)
    let ?q = "q\<lparr>pfa_schedule_job := False, pfa_previous_flow := None\<rparr>"
    have "(q', cs) = (fst (PacketPassFairQueue_schedule ?q),
        Assert True # Assert True # snd (PacketPassFairQueue_schedule ?q))"
      unfolding 5(5) [symmetric] using 5(1-4) Cons
      by (simp add: pfa_component_def PacketPassFairQueue_schedule_job_handler_def Let_def
          case_prod_unfold pfa_view_def pfa_fine_def)
    moreover have "view_ok (pfa_view ?q)" using 5(2) by (auto simp: view_ok_def pfa_view_def)
    moreover have "pfa_fine ?q can us" using 5(1) by (auto simp: pfa_fine_def)
    ultimately show ?thesis using pfa_schedules [of ?q] 5 Cons by (simp add: pfa_view_def scheduled_Cons)
  qed
next
  case (6 q n us e q' cs)
  show ?case
  proof (cases e)
    case (Renew f m pri)
    have s: "pfa_sending_flow q \<noteq> Some f" and m: "m = mtu (ifs n QOut)" and f: "f \<in> set (pfa_flows_list q)"
      using 6(3) Renew by (simp_all add: pfa_component_def)
    have w: "distinct (pfa_queued q)" "pfa_is_queued q g \<longleftrightarrow> g \<in> set (pfa_queued q)" for g
      using 6(2) by (simp_all add: pfa_view_def view_ok_def)
    have q': "(q', cs) = (q\<lparr>pfa_previous_flow := (if pfa_previous_flow q = Some f then None else pfa_previous_flow q),
          pfa_queued := (if pfa_is_queued q f then remove1 f (pfa_queued q) else pfa_queued q),
          pfa_handler_busy := (pfa_handler_busy q)(f := False), pfa_time := (pfa_time q)(f := 0),
          pfa_flows_list := remove1 f (pfa_flows_list q) @ [f],
          pfa_is_queued := (pfa_is_queued q)(f := False)\<rparr>,
        [Assert True] @ [PP_Free (FlowIn f)] @ [Assert True] @
        [PP_Init (FlowIn f) (mtu (ifs n QOut)), PP_Sender_Init (FlowIn f)])"
      unfolding 6(4) [symmetric] using 6(1) Renew s m
      by (simp add: pfa_component_def renewed_def PacketPassFairQueueFlow_Free_def PacketPassFairQueueFlow_Init_def
          Let_def pfa_fine_def)
    have "renewed_view f (pfa_view q) (pfa_view q')"
      unfolding renewed_view_def
      by (intro conjI exI [of _ "remove1 f (pfa_queued q)"])
        (use q' w s in \<open>auto simp: pfa_view_def remove1_idem\<close>)
    moreover have "sorted_wrt (before (\<lambda>g. uint (((pfa_time q)(f := 0)) g))) (remove1 f (pfa_queued q))"
      by (rule before_remove) (use 6(1) in \<open>simp_all add: pfa_fine_def\<close>)
    then have "pfa_fine q' (has_requestcancel (ifs n QOut)) (us(f := True))"
      using q' 6(1) w s f by (auto simp: pfa_fine_def remove1_idem)
    moreover note q'
    moreover have "list_all harmless [Assert True]" by simp
    ultimately show ?thesis by (intro disjI1 exI [of _ f] exI [of _ "[Assert True]"]) simp
  next
    case (SetBusyHandler f h)
    have "cs = [Assert True, Assert True] @ []" and "pfa_view q' = pfa_view q"
      and "pfa_fine q' (has_requestcancel (ifs n QOut)) us"
      using 6 SetBusyHandler
      by (auto simp: pfa_component_def PacketPassFairQueueFlow_SetBusyHandler_def pfa_view_def pfa_fine_def)
    moreover have "list_all harmless [Assert True, Assert True]" by simp
    ultimately show ?thesis by blast
  next
    case (CancelFlow f)
    have j: "\<not> pfa_schedule_job q" using 6(2,3) CancelFlow by (auto simp: view_ok_def pfa_view_def pfa_component_def)
    have "cs = [Assert True, Assert True, Assert True, Assert True] @ [PP_RequestCancel QOut]"
      and "pfa_view q' = pfa_view q" and "pfa_fine q' (has_requestcancel (ifs n QOut)) us"
      and "v_sending (pfa_view q) \<noteq> None" and "has_requestcancel (ifs n QOut)"
      using 6 CancelFlow j
      by (auto simp: pfa_component_def PacketPassFairQueueFlow_RequestCancel_def pfa_view_def pfa_fine_def)
    moreover have "list_all harmless [Assert True, Assert True, Assert True, Assert True]" by simp
    ultimately show ?thesis by blast
  qed
qed

section \<open>Properties\<close>

text \<open>Start-up with the flows \<open>fs\<close>, connected to users; no other flow exists.\<close>

definition pfa_start :: "nat list \<Rightarrow> int \<Rightarrow> bool \<Rightarrow> int \<Rightarrow> (PacketPassFairQueue \<times> (qport, unit) net) option" where
  "pfa_start fs m use_cancel weight = map_option (\<lambda>(q, cs).
     (foldl (\<lambda>q f. fst (PacketPassFairQueueFlow_Init q f m)) q fs,
      (shared_net m use_cancel)\<lparr>ifs := \<lambda>p. (ifs (shared_net m use_cancel) p)\<lparr>has_user := p = QOut \<or> p \<in> FlowIn ` set fs\<rparr>\<rparr>))
     (PacketPassFairQueue_Init m use_cancel use_cancel weight)"

lemma pfa_start_flows:
  "foldl (\<lambda>q f. fst (PacketPassFairQueueFlow_Init q f m)) q fs =
     q\<lparr>pfa_handler_busy := (\<lambda>f. if f \<in> set fs then False else pfa_handler_busy q f),
       pfa_time := (\<lambda>f. if f \<in> set fs then 0 else pfa_time q f),
       pfa_flows_list := pfa_flows_list q @ fs,
       pfa_is_queued := (\<lambda>f. if f \<in> set fs then False else pfa_is_queued q f)\<rparr>"
proof (induction fs arbitrary: q)
  case (Cons f fs)
  show ?case
    by (simp add: Cons.IH) (auto simp: PacketPassFairQueueFlow_Init_def fun_eq_iff)
qed simp

lemma pfa_start_inv:
  assumes "pfa_start fs m c w = Some x" and "distinct fs" and "0 \<le> m"
  shows "case_prod pfa.queue_inv x" and "net_ok (snd x)"
proof -
  obtain q cs where init: "PacketPassFairQueue_Init m c c w = Some (q, cs)"
    and x: "x = (foldl (\<lambda>q f. fst (PacketPassFairQueueFlow_Init q f m)) q fs,
      (shared_net m c)\<lparr>ifs := \<lambda>p. (ifs (shared_net m c) p)\<lparr>has_user := p = QOut \<or> p \<in> FlowIn ` set fs\<rparr>\<rparr>)"
    using assms(1) by (auto simp: pfa_start_def)
  have q: "q = \<lparr>pfa_use_cancel = c, pfa_packet_weight = w, pfa_sending_flow = None,
          pfa_sending_len = 0, pfa_previous_flow = None, pfa_queued = [], pfa_flows_list = [],
          pfa_freeing = False, pfa_schedule_job = False, pfa_time = (\<lambda>_. 0),
          pfa_is_queued = (\<lambda>_. False), pfa_queued_data = (\<lambda>_. 0), pfa_queued_len = (\<lambda>_. 0),
          pfa_handler_busy = (\<lambda>_. False)\<rparr>"
    using init by (simp add: PacketPassFairQueue_Init_def split: if_splits)
  show "case_prod pfa.queue_inv x"
    using assms(2,3) unfolding x pfa_start_flows q
    by (simp add: pfa.queue_inv_def pfa_view_def queue_ok_def queue_core_def flow_ok_def out_ok_def shared_net_def)
      (auto simp: pfa_fine_def users_def shared_net_def)
  show "net_ok (snd x)"
    by (simp add: x shared_net_def idle_net_def net_ok_def iface_ok_def args_ok_def group_inv_def)
qed

lemma pfa_reached:
  assumes "pfa_start fs m c w = Some x" and "distinct fs" and "0 \<le> m" and "reach_from pfa_component x r"
  obtains q n where "r = Some (q, n)" and "pfa.queue_inv q n" and "net_ok n"
  using pfa.reached [OF assms(4)] pfa_start_inv [OF assms(1-3)] by blast

lemma pfa_weight_kept:
  assumes "pfa_start fs m c w = Some x" and "reach_from pfa_component x (Some (q, n))"
  shows "pfa_packet_weight q = w"
proof -
  have schedule: "pfa_packet_weight (fst (PacketPassFairQueue_schedule q)) = pfa_packet_weight q" for q
    by (simp add: PacketPassFairQueue_schedule_def Let_def split: list.split)
  have "pfa_packet_weight q = pfa_packet_weight (fst x)"
  proof (rule reach_keeps [OF _ _ _ _ _ _ assms(2) refl])
    show "pfa_packet_weight (fst (on_operation pfa_component p d l q)) = pfa_packet_weight q" for p d l q
      by (cases p) (simp_all add: pfa_component_def input_eq raised_def Let_def schedule)
    show "pfa_packet_weight (fst (on_done pfa_component p l q)) = pfa_packet_weight q" for p l q
      by (simp add: pfa_component_def PacketPassFairQueue_output_handler_done_def
        PacketPassFairQueue_increment_sent_flow_def Let_def case_prod_unfold split: option.split)
    show "pfa_packet_weight (fst (on_job pfa_component k q)) = pfa_packet_weight q" for k q
      by (simp add: pfa_component_def PacketPassFairQueue_schedule_job_handler_def Let_def case_prod_unfold schedule)
    show "pfa_packet_weight (fst (on_api pfa_component e q)) = pfa_packet_weight q" for e q
      by (cases e) (simp_all add: pfa_component_def renewed_def PacketPassFairQueueFlow_Free_def PacketPassFairQueueFlow_Init_def
        PacketPassFairQueueFlow_SetBusyHandler_def PacketPassFairQueueFlow_RequestCancel_def Let_def case_prod_unfold)
  qed (simp_all add: pfa_component_def)
  with assms(1) show ?thesis
    by (auto simp: pfa_start_def PacketPassFairQueue_Init_def pfa_start_flows split: if_splits)
qed

text \<open>C35: in a fair queue used in any way the interfaces allow no assertion fails, and when the
  output finishes a packet, the flow that sent it is charged the length of that packet, which is the one the flow gave,
  and the weight of the queue.  The 64-bit times are the true sums: nothing else changes, unless the sum does not fit;
  then the time of the first waiting flow, or without one that of the sender, is taken off all times, where idle flows
  stop at 0 and no waiting flow loses more than it has.\<close>

theorem fair_queue_charges_exactly:
  assumes "pfa_start fs m use_cancel weight = Some x" and "distinct fs" and "0 \<le> m"
    and "reach_from pfa_component x r"
  shows "\<exists>q n. r = Some (q, n) \<and> (JobDone QOut \<in> set (jobs (grp n)) \<longrightarrow>
    (\<exists>f q' n'. run_job pfa_component (JobDone QOut) (q, n) = Some (q', n') \<and>
       pfa_sending_flow q = Some f \<and> pfa_queued q' = pfa_queued q \<and>
       op_len (ifs n QOut) = op_len (ifs n (FlowIn f)) \<and>
       (let amount = (weight + op_len (ifs n QOut)) mod 2 ^ 64;
            base = (if uint (pfa_time q f) + amount < 2 ^ 64 then 0
                    else case pfa_queued q of [] \<Rightarrow> uint (pfa_time q f) | g # _ \<Rightarrow> uint (pfa_time q g))
        in uint (pfa_time q' f) = uint (pfa_time q f) + amount - base \<and>
           (\<forall>g \<in> set (pfa_flows_list q) - {f}. uint (pfa_time q' g) = max 0 (uint (pfa_time q g) - base)) \<and>
           (\<forall>g \<in> set (pfa_queued q). g \<in> set (pfa_flows_list q) - {f} \<and> base \<le> uint (pfa_time q g)))))"
proof -
  obtain q n where r: "r = Some (q, n)" and inv: "pfa.queue_inv q n" and ok: "net_ok n"
    by (rule pfa_reached [OF assms])
  have w: "pfa_packet_weight q = weight"
    using pfa_weight_kept assms(1,4) r by blast
  have fine: "pfa_fine q (has_requestcancel (ifs n QOut)) (users n)" and core: "view_core (pfa_view q) n"
    using inv by (simp_all add: pfa.queue_inv_def queue_ok_def)
  have "\<exists>f q' n'. run_job pfa_component (JobDone QOut) (q, n) = Some (q', n') \<and>
       pfa_sending_flow q = Some f \<and> pfa_queued q' = pfa_queued q \<and>
       op_len (ifs n QOut) = op_len (ifs n (FlowIn f)) \<and>
       (let amount = (weight + op_len (ifs n QOut)) mod 2 ^ 64;
            base = (if uint (pfa_time q f) + amount < 2 ^ 64 then 0
                    else case pfa_queued q of [] \<Rightarrow> uint (pfa_time q f) | g # _ \<Rightarrow> uint (pfa_time q g))
        in uint (pfa_time q' f) = uint (pfa_time q f) + amount - base \<and>
           (\<forall>g \<in> set (pfa_flows_list q) - {f}. uint (pfa_time q' g) = max 0 (uint (pfa_time q g) - base)) \<and>
           (\<forall>g \<in> set (pfa_queued q). g \<in> set (pfa_flows_list q) - {f} \<and> base \<le> uint (pfa_time q g)))"
    if j: "JobDone QOut \<in> set (jobs (grp n))"
  proof -
    obtain q' n' f where run: "run_job pfa_component (JobDone QOut) (q, n) = Some (q', n')"
      and view: "view_ok (pfa_view q)" and s: "pfa_sending_flow q = Some f"
      and q': "q' = fst (PacketPassFairQueue_output_handler_done q)"
      by (rule pfa.done_effect [OF inv ok j]) (simp add: pfa_view_def pfa_component_def)
    have len: "op_len (ifs n QOut) = op_len (ifs n (FlowIn f))" "pfa_sending_len q = op_len (ifs n QOut)"
    proof -
      show out: "op_len (ifs n QOut) = op_len (ifs n (FlowIn f))"
        using core_out [OF core] s by (simp add: out_ok_def pfa_view_def)
      have "pfa_queued_len q f = op_len (ifs n (FlowIn f))"
        using core_flow [OF core, of f] s by (simp add: flow_ok_def pfa_view_def)
      moreover have "pfa_sending_len q = pfa_queued_len q f"
        using fine s by (simp add: pfa_fine_def)
      ultimately show "pfa_sending_len q = op_len (ifs n QOut)" by (simp only: out)
    qed
    have amount: "uint (weight_of q) = (weight + op_len (ifs n QOut)) mod 2 ^ 64"
      by (simp only: w len(2) wi_hom_add uint_word_of_int) simp
    define base where "base = charge_base q f (uint (weight_of q))"
    obtain time as where o: "PacketPassFairQueue_output_handler_done q =
        (q\<lparr>pfa_sending_flow := None, pfa_previous_flow := Some f, pfa_time := time, pfa_schedule_job := True,
         pfa_handler_busy := (pfa_handler_busy q)(f := False)\<rparr>,
       as @ [Job_Set (), PP_Done (FlowIn f)] @ (if pfa_handler_busy q f then [UserCall (Busy f)] else []))"
      and t: "uint (time f) = time_of q f + uint (weight_of q) - base"
        "\<forall>g \<in> set (pfa_flows_list q) - {f}. uint (time g) = max 0 (time_of q g - base)"
        "\<forall>g \<in> set (pfa_queued q). base \<le> time_of q g"
    proof (rule done_exact [OF view fine s base_def], goal_cases)
      case (1 time as)
      show ?case by (rule 1(1) [OF 1(2,4)]) (use 1(5,6) in blast)+
    qed
    from o have eq: "pfa_queued q' = pfa_queued q" "pfa_time q' = time"
      by (simp_all add: q')
    have "set (pfa_queued q) \<subseteq> set (pfa_flows_list q) - {f}"
      using fine view s by (auto simp: pfa_fine_def view_ok_def pfa_view_def)
    with t have "let amount = (weight + op_len (ifs n QOut)) mod 2 ^ 64;
            base = (if uint (pfa_time q f) + amount < 2 ^ 64 then 0
                    else case pfa_queued q of [] \<Rightarrow> uint (pfa_time q f) | g # _ \<Rightarrow> uint (pfa_time q g))
        in uint (pfa_time q' f) = uint (pfa_time q f) + amount - base \<and>
           (\<forall>g \<in> set (pfa_flows_list q) - {f}. uint (pfa_time q' g) = max 0 (uint (pfa_time q g) - base)) \<and>
           (\<forall>g \<in> set (pfa_queued q). g \<in> set (pfa_flows_list q) - {f} \<and> base \<le> uint (pfa_time q g))"
      unfolding amount [symmetric] charge_base_def [symmetric] base_def [symmetric] Let_def eq(2) by auto
    with run s eq(1) len(1) show ?thesis
      by blast
  qed
  with r show ?thesis by blast
qed

theorem fair_queue_charges_exactly_witness:
  "\<exists>x q n q' n'. pfa_start [2, 3] 8 False 1 = Some x \<and> run_moves pfa_component
     [Env (PP_Send (FlowIn 2) 5 8), RunJob (JobOperation (FlowIn 2)), RunJob (JobOperation QOut),
      Env (PP_Done QOut)] x = Some (q, n) \<and>
     run_job pfa_component (JobDone QOut) (q, n) = Some (q', n') \<and> uint (pfa_time q' 2) = 9 \<and> uint (pfa_time q' 3) = 0"
proof -
  let ?vs = "[Env (PP_Send (FlowIn 2) 5 8), RunJob (JobOperation (FlowIn 2)), RunJob (JobOperation QOut),
      Env (PP_Done QOut)]"
  have "case pfa_start [2, 3] 8 False 1 of None \<Rightarrow> False | Some x \<Rightarrow> (case run_moves pfa_component ?vs x of
      None \<Rightarrow> False | Some (q, n) \<Rightarrow> JobDone QOut \<in> set (jobs (grp n)) \<and> pfa_sending_flow q = Some 2 \<and>
        pfa_time q 2 = 0 \<and> pfa_time q 3 = 0 \<and> op_len (ifs n QOut) = 8 \<and> pfa_flows_list q = [2, 3])"
    by code_simp
  then obtain x q n where st: "pfa_start [2, 3] 8 False 1 = Some x" and run: "run_moves pfa_component ?vs x = Some (q, n)"
    and j: "JobDone QOut \<in> set (jobs (grp n))" and s: "pfa_sending_flow q = Some 2"
    and q: "pfa_time q 2 = 0" "pfa_time q 3 = 0" "op_len (ifs n QOut) = 8" "pfa_flows_list q = [2, 3]"
    by (auto simp del: run_moves.simps split: option.splits)
  have "\<exists>q' n'. run_job pfa_component (JobDone QOut) (q, n) = Some (q', n') \<and> uint (pfa_time q' 2) = 9 \<and> uint (pfa_time q' 3) = 0"
    using fair_queue_charges_exactly [OF st _ _ run_moves_reach [OF run]] j s q by (auto simp: Let_def)
  with st run show ?thesis by metis
qed

text \<open>The output is never left idle while flows wait (unless the schedule job is set), and
  the schedule job gives it the packet of a waiting flow with the least time.\<close>

theorem fair_queue_sends_the_least:
  assumes "pfa_start fs m use_cancel weight = Some x" and "distinct fs" and "0 \<le> m"
    and "reach_from pfa_component x r"
  shows "\<exists>q n. r = Some (q, n) \<and>
    (\<forall>f. f \<in> set (pfa_queued q) \<or> pfa_sending_flow q = Some f \<longleftrightarrow> state (ifs n (FlowIn f)) = IF_BUSY) \<and>
    (pfa_queued q \<noteq> [] \<longrightarrow> OwnJob () \<in> set (jobs (grp n)) \<or> state (ifs n QOut) \<noteq> IF_NONE) \<and>
    (OwnJob () \<in> set (jobs (grp n)) \<and> pfa_queued q \<noteq> [] \<longrightarrow>
       (\<exists>q' n' f. run_job pfa_component (OwnJob ()) (q, n) = Some (q', n') \<and> pfa_sending_flow q' = Some f \<and>
          f \<in> set (pfa_queued q) \<and> set (pfa_queued q') = set (pfa_queued q) - {f} \<and>
          (\<forall>g \<in> set (pfa_queued q). pfa_time q f \<le> pfa_time q g) \<and>
          op_data (ifs n' QOut) = op_data (ifs n' (FlowIn f)) \<and> op_len (ifs n' QOut) = op_len (ifs n' (FlowIn f))))"
proof -
  obtain q n where r: "r = Some (q, n)" and inv: "pfa.queue_inv q n" and ok: "net_ok n"
    by (rule pfa_reached [OF assms])
  have core: "view_core (pfa_view q) n" and fine: "pfa_fine q (has_requestcancel (ifs n QOut)) (users n)"
    and work: "pfa_queued q \<noteq> [] \<longrightarrow> pfa_sending_flow q \<noteq> None \<or> pfa_schedule_job q"
    using inv by (simp_all add: pfa.queue_inv_def queue_ok_def pfa_view_def)
  note view = view_ok_core [OF core]
  have "f \<in> set (pfa_queued q) \<or> pfa_sending_flow q = Some f \<longleftrightarrow> state (ifs n (FlowIn f)) = IF_BUSY" for f
    using core_flow [OF core, of f] by (auto simp: flow_ok_def pfa_view_def)
  moreover have "pfa_queued q \<noteq> [] \<longrightarrow> OwnJob () \<in> set (jobs (grp n)) \<or> state (ifs n QOut) \<noteq> IF_NONE"
    using core_out [OF core] core_job [OF core] work by (auto simp: out_ok_def pfa_view_def)
  moreover have "\<exists>q' n' f. run_job pfa_component (OwnJob ()) (q, n) = Some (q', n') \<and> pfa_sending_flow q' = Some f \<and>
          f \<in> set (pfa_queued q) \<and> set (pfa_queued q') = set (pfa_queued q) - {f} \<and>
          (\<forall>g \<in> set (pfa_queued q). pfa_time q f \<le> pfa_time q g) \<and>
          op_data (ifs n' QOut) = op_data (ifs n' (FlowIn f)) \<and> op_len (ifs n' QOut) = op_len (ifs n' (FlowIn f))"
    if j: "OwnJob () \<in> set (jobs (grp n))" and "pfa_queued q \<noteq> []"
  proof -
    obtain f rest where w: "pfa_queued q = f # rest" using \<open>pfa_queued q \<noteq> []\<close> by (cases "pfa_queued q") auto
    obtain q' n' where run: "run_job pfa_component (OwnJob ()) (q, n) = Some (q', n')"
      and q': "q' = fst (PacketPassFairQueue_schedule_job_handler q)"
      by (rule pfa.own_effect [OF inv ok j]) (simp add: pfa_component_def)
    have q'': "pfa_sending_flow q' = Some f" "pfa_queued q' = rest"
      using w by (simp_all add: q' PacketPassFairQueue_schedule_job_handler_def PacketPassFairQueue_schedule_def Let_def)
    have "pfa.queue_inv q' n'" using pfa.run_job_good [OF inv ok j] run by simp
    then have "op_data (ifs n' QOut) = op_data (ifs n' (FlowIn f)) \<and> op_len (ifs n' QOut) = op_len (ifs n' (FlowIn f))"
      using core_out [of _ _ _ _ _ _ n'] q''(1)
      by (fastforce simp: pfa.queue_inv_def queue_ok_def pfa_view_def out_ok_def)
    moreover have "\<forall>g \<in> set rest. before (time_of q) f g" and "f \<notin> set rest"
      using fine view w by (auto simp: pfa_fine_def view_ok_def pfa_view_def)
    ultimately show ?thesis using run q'' w by (auto simp: before_def word_le_def)
  qed
  ultimately show ?thesis using r by blast
qed

theorem fair_queue_sends_the_least_witness:
  "\<exists>x q n q' n'. pfa_start [2, 3, 4] 8 False 1 = Some x \<and> run_moves pfa_component
     [Env (PP_Send (FlowIn 2) 5 8), RunJob (JobOperation (FlowIn 2)), Env (PP_Send (FlowIn 3) 5 1),
      RunJob (JobOperation (FlowIn 3)), RunJob (JobOperation QOut), Env (PP_Done QOut),
      RunJob (JobDone QOut)] x = Some (q, n) \<and> pfa_queued q = [3] \<and>
     run_job pfa_component (OwnJob ()) (q, n) = Some (q', n') \<and> pfa_sending_flow q' = Some 3"
proof -
  let ?vs = "[Env (PP_Send (FlowIn 2) 5 8), RunJob (JobOperation (FlowIn 2)), Env (PP_Send (FlowIn 3) 5 1),
      RunJob (JobOperation (FlowIn 3)), RunJob (JobOperation QOut), Env (PP_Done QOut), RunJob (JobDone QOut)]"
  have "case pfa_start [2, 3, 4] 8 False 1 of None \<Rightarrow> False | Some x \<Rightarrow> (case run_moves pfa_component ?vs x of
      None \<Rightarrow> False | Some (q, n) \<Rightarrow> OwnJob () \<in> set (jobs (grp n)) \<and> pfa_queued q = [3])"
    by code_simp
  then obtain x q n where st: "pfa_start [2, 3, 4] 8 False 1 = Some x" and run: "run_moves pfa_component ?vs x = Some (q, n)"
    and j: "OwnJob () \<in> set (jobs (grp n))" and w: "pfa_queued q = [3]"
    by (auto simp del: run_moves.simps split: option.splits)
  obtain q' n' f where "run_job pfa_component (OwnJob ()) (q, n) = Some (q', n')" "pfa_sending_flow q' = Some f"
    "f \<in> set (pfa_queued q)"
    using fair_queue_sends_the_least [OF st _ _ run_moves_reach [OF run]] j w by auto
  with st run w show ?thesis by auto
qed

text \<open>The current time: the least time of the flows that are waiting, being sent or were just sent.\<close>

definition served :: "PacketPassFairQueue \<Rightarrow> nat set" where
  "served q = set (pfa_queued q) \<union> set_option (pfa_sending_flow q) \<union> set_option (pfa_previous_flow q)"

lemma current_time_least:
  assumes "view_ok (pfa_view q)" and "pfa_fine q can us"
  shows "fst (PacketPassFairQueue_get_current_time q) = (if served q = {} then 0 else Min (pfa_time q ` served q))"
proof (cases "pfa_sending_flow q")
  case (Some s)
  then have "pfa_previous_flow q = None"
    using assms by (auto simp: pfa_fine_def view_ok_def pfa_view_def)
  then have "Min (pfa_time q ` served q) = pfa_time q s"
    using assms(2) Some by (intro Min_eqI) (auto simp: served_def pfa_fine_def word_le_def)
  with Some show ?thesis by (simp add: PacketPassFairQueue_get_current_time_def served_def)
next
  case None
  have "\<forall>g\<in>set w. pfa_time q a \<le> pfa_time q g" if "pfa_queued q = a # w" for a w
    using assms(2) that by (auto simp: pfa_fine_def before_def word_le_def)
  then show ?thesis
    using None by (cases "pfa_queued q"; cases "pfa_previous_flow q")
      (auto simp: PacketPassFairQueue_get_current_time_def served_def Let_def min_def not_less intro!: Min_eqI [symmetric]
        dest: order_trans)
qed

lemma raised_time:
  assumes "view_ok (pfa_view q)" and "pfa_fine q can us"
  shows "pfa_time (fst (raised q f)) =
    (pfa_time q)(f := max (pfa_time q f) (if served q = {} then 0 else Min (pfa_time q ` served q)))"
proof (cases "pfa_previous_flow q = Some f")
  case True
  then have "f \<in> served q" by (simp add: served_def)
  moreover have "finite (served q)" by (simp add: served_def)
  ultimately have "max (pfa_time q f) (Min (pfa_time q ` served q)) = pfa_time q f" by (intro max_absorb1) simp
  with True \<open>f \<in> served q\<close> show ?thesis by (auto simp: raised_def)
next
  case False
  then show ?thesis using current_time_least [OF assms] by (simp add: raised_def)
qed

text \<open>C36: a flow that starts to wait joins at the current time: its time is raised to the least time of
  the flows that are served at the moment, if it is not above that already, and no other time changes; it then
  waits or is sent with the others.  The current time only exists while the queue is served: a flow that
  comes to an idle queue keeps the time it has, which is 0 for a new flow, however much others have sent before.\<close>

theorem fair_queue_joins_at_the_current_time:
  assumes "pfa_start fs m use_cancel weight = Some x" and "distinct fs" and "0 \<le> m"
    and "reach_from pfa_component x r"
  shows "\<exists>q n. r = Some (q, n) \<and> (\<forall>f. JobOperation (FlowIn f) \<in> set (jobs (grp n)) \<longrightarrow>
    (\<exists>q' n'. run_job pfa_component (JobOperation (FlowIn f)) (q, n) = Some (q', n') \<and>
       pfa_time q' = (pfa_time q)(f := max (pfa_time q f) (if served q = {} then 0 else Min (pfa_time q ` served q))) \<and>
       f \<notin> set (pfa_queued q) \<union> set_option (pfa_sending_flow q) \<and>
       set (pfa_queued q') \<union> set_option (pfa_sending_flow q') =
         insert f (set (pfa_queued q) \<union> set_option (pfa_sending_flow q))))"
proof -
  obtain q n where r: "r = Some (q, n)" and inv: "pfa.queue_inv q n" and ok: "net_ok n"
    by (rule pfa_reached [OF assms])
  have fine: "pfa_fine q (has_requestcancel (ifs n QOut)) (users n)" and core: "view_core (pfa_view q) n"
    using inv by (simp_all add: pfa.queue_inv_def queue_ok_def)
  have "\<exists>q' n'. run_job pfa_component (JobOperation (FlowIn f)) (q, n) = Some (q', n') \<and>
       pfa_time q' = (pfa_time q)(f := max (pfa_time q f) (if served q = {} then 0 else Min (pfa_time q ` served q))) \<and>
       f \<notin> set (pfa_queued q) \<union> set_option (pfa_sending_flow q) \<and>
       set (pfa_queued q') \<union> set_option (pfa_sending_flow q') =
         insert f (set (pfa_queued q) \<union> set_option (pfa_sending_flow q))"
    if j: "JobOperation (FlowIn f) \<in> set (jobs (grp n))" for f
  proof -
    let ?op = "PacketPassFairQueue_input_handler_send q f (op_data (ifs n (FlowIn f))) (op_len (ifs n (FlowIn f)))"
    obtain q' n' where run: "run_job pfa_component (JobOperation (FlowIn f)) (q, n) = Some (q', n')"
      and view: "view_ok (pfa_view q)" and f: "f \<notin> set (pfa_queued q)" "pfa_sending_flow q \<noteq> Some f"
      and q': "q' = fst ?op"
      by (rule pfa.job_effect [OF inv ok j]) (auto simp: pfa_view_def pfa_component_def)
    have "pfa_time (fst (PacketPassFairQueue_schedule q0)) = pfa_time q0" for q0
      by (simp add: PacketPassFairQueue_schedule_def Let_def split: list.split)
    then have time: "pfa_time q' = pfa_time (fst (raised q f))"
      by (simp add: q' input_eq Let_def)
    have "users n f"
      using pending_state(1) [OF ok, of "FlowIn f"] j core_flow [OF core, of f] by (auto simp: flow_ok_def users_def)
    moreover have "on_operation pfa_component (FlowIn f) (op_data (ifs n (FlowIn f))) (op_len (ifs n (FlowIn f))) q = (q', snd ?op)"
      by (simp add: pfa_component_def q')
    moreover have "f \<notin> set (v_waiting (pfa_view q))" "v_sending (pfa_view q) \<noteq> Some f"
      using f by (simp_all add: pfa_view_def)
    ultimately obtain v1 where
      v1: "enqueued f (op_data (ifs n (FlowIn f))) (op_len (ifs n (FlowIn f))) (pfa_view q) v1"
      and cs: "if v_sending v1 = None \<and> \<not> v_job v1 then scheduled v1 (pfa_view q') (snd ?op)
        else pfa_view q' = v1 \<and> list_all harmless (snd ?op)"
      using pfa.input [OF fine _ view] by metis
    obtain w' where "set w' = insert f (set (pfa_queued q))" "v_waiting v1 = w'" "v_sending v1 = pfa_sending_flow q"
      using v1 unfolding enqueued_def by (elim exE conjE) (simp add: pfa_view_def)
    moreover have "set (pfa_queued q') \<union> set_option (pfa_sending_flow q') = set (v_waiting v1) \<union> set_option (v_sending v1)"
    proof (cases "v_sending v1 = None \<and> \<not> v_job v1")
      case True
      with cs obtain g w where "g \<in> set (v_waiting v1)" "set w = set (v_waiting v1) - {g}"
        "v_waiting (pfa_view q') = w" "v_sending (pfa_view q') = Some g"
        unfolding scheduled_def by force
      with True show ?thesis by (auto simp: pfa_view_def)
    next
      case False
      with cs show ?thesis by (auto simp: pfa_view_def)
    qed
    ultimately show ?thesis
      using run f raised_time [OF view fine, of f] by (simp add: time del: fun_upd_apply)
  qed
  with r show ?thesis by blast
qed

theorem fair_queue_joins_at_the_current_time_witness:
  "\<exists>x q n q' n'. pfa_start [2, 3] 8 False 1 = Some x \<and> run_moves pfa_component
     [Env (PP_Send (FlowIn 2) 5 8), RunJob (JobOperation (FlowIn 2)), RunJob (JobOperation QOut),
      Env (PP_Done QOut), RunJob (JobDone QOut), Env (PP_Send (FlowIn 3) 5 1)] x = Some (q, n) \<and>
     pfa_time q 3 = 0 \<and> run_job pfa_component (JobOperation (FlowIn 3)) (q, n) = Some (q', n') \<and> pfa_time q' 3 = 9"
proof -
  let ?vs = "[Env (PP_Send (FlowIn 2) 5 8), RunJob (JobOperation (FlowIn 2)), RunJob (JobOperation QOut),
      Env (PP_Done QOut), RunJob (JobDone QOut), Env (PP_Send (FlowIn 3) 5 1)]"
  have "case pfa_start [2, 3] 8 False 1 of None \<Rightarrow> False | Some x \<Rightarrow> (case run_moves pfa_component ?vs x of
      None \<Rightarrow> False | Some (q, n) \<Rightarrow> JobOperation (FlowIn 3) \<in> set (jobs (grp n)) \<and> pfa_queued q = [] \<and>
        pfa_sending_flow q = None \<and> pfa_previous_flow q = Some 2 \<and> pfa_time q 2 = 9 \<and> pfa_time q 3 = 0)"
    by code_simp
  then obtain x q n where st: "pfa_start [2, 3] 8 False 1 = Some x" and run: "run_moves pfa_component ?vs x = Some (q, n)"
    and j: "JobOperation (FlowIn 3) \<in> set (jobs (grp n))"
    and q: "served q = {2}" "pfa_time q 2 = 9" "pfa_time q 3 = 0"
    by (auto simp: served_def simp del: run_moves.simps split: option.splits)
  obtain q' n' where "run_job pfa_component (JobOperation (FlowIn 3)) (q, n) = Some (q', n')" "pfa_time q' 3 = 9"
    using fair_queue_joins_at_the_current_time [OF st _ _ run_moves_reach [OF run]] j q by auto
  with st run q(3) show ?thesis by metis
qed

text \<open>An example of what that means.  Flow 2 sends 8 bytes alone and the
  output becomes idle; flow 3 then starts at time 0, and is given the output again and again
  while flow 2 waits, here for the second time.\<close>

lemma fair_queue_forgets_when_idle:
  "\<exists>x q n. pfa_start [2, 3] 8 False 1 = Some x \<and> run_moves pfa_component
     [Env (PP_Send (FlowIn 2) 5 8), RunJob (JobOperation (FlowIn 2)), RunJob (JobOperation QOut),
      Env (PP_Done QOut), RunJob (JobDone QOut), RunJob (JobDone (FlowIn 2)), RunJob (OwnJob ()),
      Env (PP_Send (FlowIn 3) 5 1), RunJob (JobOperation (FlowIn 3)),
      Env (PP_Send (FlowIn 2) 5 1), RunJob (JobOperation (FlowIn 2)),
      RunJob (JobOperation QOut), Env (PP_Done QOut), RunJob (JobDone QOut), RunJob (JobDone (FlowIn 3)),
      Env (PP_Send (FlowIn 3) 5 1), RunJob (JobOperation (FlowIn 3)), RunJob (OwnJob ())] x = Some (q, n) \<and>
     pfa_queued q = [2] \<and> pfa_sending_flow q = Some 3 \<and> pfa_time q 2 = 9 \<and> pfa_time q 3 = 2"
proof -
  let ?vs = "[Env (PP_Send (FlowIn 2) 5 8), RunJob (JobOperation (FlowIn 2)), RunJob (JobOperation QOut),
      Env (PP_Done QOut), RunJob (JobDone QOut), RunJob (JobDone (FlowIn 2)), RunJob (OwnJob ()),
      Env (PP_Send (FlowIn 3) 5 1), RunJob (JobOperation (FlowIn 3)),
      Env (PP_Send (FlowIn 2) 5 1), RunJob (JobOperation (FlowIn 2)),
      RunJob (JobOperation QOut), Env (PP_Done QOut), RunJob (JobDone QOut), RunJob (JobDone (FlowIn 3)),
      Env (PP_Send (FlowIn 3) 5 1), RunJob (JobOperation (FlowIn 3)), RunJob (OwnJob ())]"
  have "case pfa_start [2, 3] 8 False 1 of None \<Rightarrow> False | Some x \<Rightarrow>
    (case run_moves pfa_component ?vs x of None \<Rightarrow> False
     | Some (q, n) \<Rightarrow> pfa_queued q = [2] \<and> pfa_sending_flow q = Some 3 \<and> pfa_time q 2 = 9 \<and> pfa_time q 3 = 2)"
    by code_simp
  then show ?thesis by (auto simp del: run_moves.simps split: option.splits)
qed

end
