(* ===== verification/Number_Parsing.thy ===== *)
theory Number_Parsing
  imports Flow_Prelude
begin

text \<open>
  Numeric strings: \<open>misc/memref.h\<close> and \<open>misc/parse_number.h\<close>.  A \<open>MemRef\<close> is the string it
  refers to; a \<open>char\<close> has its code as on the ARM targets, where \<open>char\<close> is unsigned.
\<close>

section \<open>\<open>misc/memref.h\<close>\<close>

type_synonym MemRef = string

definition MemRef_At :: "MemRef \<Rightarrow> nat \<Rightarrow> char" where
  "MemRef_At o1 pos = o1 ! pos"

definition MemRef_SubFrom :: "MemRef \<Rightarrow> nat \<Rightarrow> MemRef" where
  "MemRef_SubFrom o1 offset = drop offset o1"

definition MemRef_SubTo :: "MemRef \<Rightarrow> nat \<Rightarrow> MemRef" where
  "MemRef_SubTo o1 len = take len o1"

definition MemRef_Sub :: "MemRef \<Rightarrow> nat \<Rightarrow> nat \<Rightarrow> MemRef" where
  "MemRef_Sub o1 offset len = take len (drop offset o1)"

text \<open>\<open>memcmp\<close> of two areas of the same length.\<close>

fun memcmp :: "int list \<Rightarrow> int list \<Rightarrow> int" where
  "memcmp (a # as) (b # bs) = (if a = b then memcmp as bs else a - b)"
| "memcmp _ _ = 0"

definition MemRef_Equal :: "MemRef \<Rightarrow> MemRef \<Rightarrow> bool" where
  "MemRef_Equal o1 other \<longleftrightarrow> length o1 = length other \<and> memcmp (map of_char o1) (map of_char other) = 0"

fun find_from :: "char \<Rightarrow> string \<Rightarrow> nat \<Rightarrow> nat option" where
  "find_from ch [] i = None"
| "find_from ch (c # cs) i = (if c = ch then Some i else find_from ch cs (i + 1))"

definition MemRef_FindChar :: "MemRef \<Rightarrow> char \<Rightarrow> nat option" where
  "MemRef_FindChar o1 ch = find_from ch o1 0"

section \<open>\<open>misc/parse_number.h\<close>\<close>

definition decode_decimal_digit :: "char \<Rightarrow> int" where
  "decode_decimal_digit c = (case map_of (zip ''0123456789'' [0 .. 9]) c of Some digit \<Rightarrow> digit | None \<Rightarrow> - 1)"

definition decode_hex_digit :: "char \<Rightarrow> int" where
  "decode_hex_digit c =
     (case map_of (zip ''0123456789ABCDEFabcdef'' ([0 .. 15] @ [10 .. 15])) c of Some digit \<Rightarrow> digit | None \<Rightarrow> - 1)"

fun parse__no_overflow :: "string \<Rightarrow> 64 word \<Rightarrow> (64 word) option" where
  "parse__no_overflow [] n = Some n"
| "parse__no_overflow (c # str) n =
     (if of_char c < (48 :: int) \<or> (57 :: int) < of_char c then None
      else parse__no_overflow str (10 * n + word_of_int (of_char c - 48)))"

definition parse_number__uintmax_max_str :: string where
  "parse_number__uintmax_max_str = ''18446744073709551615''"

definition parse_unsigned_integer :: "MemRef \<Rightarrow> (64 word) option" where
  "parse_unsigned_integer str0 =
     (if length str0 = 0 then None
      else
        let str = dropWhile (\<lambda>c. c = CHR ''0'') str0
        in if 20 < length str \<or>
              length str = 20 \<and> 0 < memcmp (map of_char str) (map of_char parse_number__uintmax_max_str)
           then None
           else parse__no_overflow str 0)"

fun parse_hex_loop :: "string \<Rightarrow> 64 word \<Rightarrow> (64 word) option" where
  "parse_hex_loop [] n = Some n"
| "parse_hex_loop (c # str) n =
     (let digit = decode_hex_digit c
      in if digit < 0 then None
         else if - 1 div 16 < n then None
         else
           let n1 = n * 16
           in if - 1 - n1 < word_of_int digit then None
              else parse_hex_loop str (n1 + word_of_int digit))"

definition parse_unsigned_hex_integer :: "MemRef \<Rightarrow> (64 word) option" where
  "parse_unsigned_hex_integer str = (if length str = 0 then None else parse_hex_loop str 0)"

definition parse_signmag_integer :: "MemRef \<Rightarrow> (int \<times> 64 word) option" where
  "parse_signmag_integer str =
     (let (sign, str1) = (if 0 < length str \<and> (str ! 0 = CHR ''+'' \<or> str ! 0 = CHR ''-'')
            then (1 - 2 * of_bool (str ! 0 = CHR ''-''), drop 1 str) else (1, str))
      in map_option (\<lambda>mag. (sign, mag)) (parse_unsigned_integer str1))"

lemma div_10_less: "x div 10 \<noteq> (0 :: 64 word) \<Longrightarrow> unat (x div 10) < unat x"
  by (cases "x = 0") (auto simp: unat_div intro: div_less_dividend simp: unat_gt_0)

function (sequential) compute_decimal_repr_size :: "64 word \<Rightarrow> int" where
  "compute_decimal_repr_size x =
     (let x1 = x div 10 in if x1 > 0 then 1 + compute_decimal_repr_size x1 else 1)"
  by pat_completeness auto
termination
  by (relation "measure unat") (auto simp: word_gt_0 div_10_less)

function (sequential) generate_decimal_repr :: "64 word \<Rightarrow> string \<Rightarrow> nat \<Rightarrow> string" where
  "generate_decimal_repr x out pos =
     (let pos1 = pos - 1;
          out1 = out[pos1 := char_of (48 + unat (x mod 10))];
          x1 = x div 10
      in if x1 > 0 then generate_decimal_repr x1 out1 pos1 else out1)"
  by pat_completeness auto
termination
  by (relation "measure (\<lambda>(x, _, _). unat x)") (auto simp: word_gt_0 div_10_less)

text \<open>The string ends with the character 0 of C.\<close>

definition generate_decimal_repr_string :: "64 word \<Rightarrow> string \<Rightarrow> int \<times> string" where
  "generate_decimal_repr_string x out =
     (let repr_size = compute_decimal_repr_size x;
          out1 = generate_decimal_repr x out (nat repr_size)
      in (repr_size, out1[nat repr_size := CHR 0x00]))"

declare compute_decimal_repr_size.simps [simp del] generate_decimal_repr.simps [simp del]

section \<open>Decimal values\<close>

definition is_digit :: "char \<Rightarrow> bool" where
  "is_digit c \<longleftrightarrow> 48 \<le> (of_char c :: int) \<and> (of_char c :: int) \<le> 57"

definition digit_val :: "char \<Rightarrow> nat" where
  "digit_val c = of_char c - 48"

fun decimal :: "string \<Rightarrow> nat" where
  "decimal [] = 0"
| "decimal (c # cs) = digit_val c * 10 ^ length cs + decimal cs"

lemma of_char_nat_int: "(of_char c :: int) = int (of_char c)"
  by (metis of_nat_of_char)

lemma is_digit_nat: "is_digit c \<longleftrightarrow> 48 \<le> (of_char c :: nat) \<and> (of_char c :: nat) \<le> 57"
  unfolding is_digit_def by (subst (1 2) of_char_nat_int) linarith

lemma digit_code: "is_digit c \<Longrightarrow> (of_char c :: int) = int (digit_val c) + 48"
  by (subst of_char_nat_int) (auto simp: is_digit_nat digit_val_def)

lemma digit_val_bound: "is_digit c \<Longrightarrow> digit_val c < 10"
  by (auto simp: is_digit_nat digit_val_def)

lemma digit_val_inj: "is_digit c \<Longrightarrow> is_digit d \<Longrightarrow> digit_val c = digit_val d \<Longrightarrow> c = d"
  using digit_code [of c] digit_code [of d] by (metis of_char_eq_iff)

lemma decimal_bound: "list_all is_digit s \<Longrightarrow> decimal s < 10 ^ length s"
proof (induction s)
  case (Cons c s)
  then have "digit_val c \<le> 9" and "decimal s < 10 ^ length s" using digit_val_bound [of c] by auto
  then have "digit_val c * 10 ^ length s + decimal s < 9 * 10 ^ length s + 10 ^ length s"
    by (intro add_le_less_mono mult_right_mono) simp_all
  then show ?case by simp
qed simp

lemma decimal_append: "decimal (s @ u) = decimal s * 10 ^ length u + decimal u"
  by (induction s) (auto simp: power_add algebra_simps)

lemma parse_no_overflow_value:
  "parse__no_overflow s n = (if list_all is_digit s then Some (n * 10 ^ length s + word_of_nat (decimal s)) else None)"
proof (induction s arbitrary: n)
  case (Cons c s)
  have "is_digit c \<Longrightarrow> word_of_int (of_char c - 48) = (word_of_nat (digit_val c) :: 64 word)"
    by (simp add: digit_code)
  then show ?case using Cons.IH [of "10 * n + word_of_int (of_char c - 48)"]
    by (auto simp: is_digit_def algebra_simps)
qed simp

text \<open>Digit strings of one length compare as their values.\<close>

lemma memcmp_decimal:
  "length s = length u \<Longrightarrow> list_all is_digit s \<Longrightarrow> list_all is_digit u \<Longrightarrow>
   0 < memcmp (map of_char s) (map of_char u) \<longleftrightarrow> decimal u < decimal s"
proof (induction s u rule: list_induct2)
  case (Cons c s d u)
  have b: "decimal s < 10 ^ length u" "decimal u < 10 ^ length u"
    using Cons decimal_bound [of s] decimal_bound [of u] by simp_all
  have step: "x < y \<Longrightarrow> x * 10 ^ length u + 10 ^ length u \<le> y * 10 ^ length u" for x y :: nat
    by (metis Suc_leI add.commute mult_Suc mult_le_mono1)
  have val: "(of_char c :: int) = int (digit_val c) + 48" "(of_char d :: int) = int (digit_val d) + 48"
    using Cons.prems by (simp_all add: digit_code)
  show ?case
  proof (cases "c = d")
    case True
    with Cons show ?thesis by simp
  next
    case False
    with Cons.prems have "digit_val c < digit_val d \<or> digit_val d < digit_val c"
      using digit_val_inj [of c d] by (metis list.pred_inject(2) linorder_neqE_nat)
    then show ?thesis using False val b step [of "digit_val c" "digit_val d"] step [of "digit_val d" "digit_val c"]
        Cons.hyps by auto
  qed
qed simp

lemma zeros_dropped:
  "list_all is_digit (dropWhile (\<lambda>c. c = CHR ''0'') s) \<longleftrightarrow> list_all is_digit s"
  "decimal (dropWhile (\<lambda>c. c = CHR ''0'') s) = decimal s"
  by (induction s) (auto simp: is_digit_nat digit_val_def)

lemma hd_dropped:
  assumes "dropWhile (\<lambda>c. c = CHR ''0'') s = c # cs" and "list_all is_digit s"
  shows "10 ^ length cs \<le> decimal s"
proof -
  have "c \<noteq> CHR ''0''" using assms(1) hd_dropWhile [of "\<lambda>c. c = CHR ''0''" s] by auto
  moreover have "is_digit c" using assms zeros_dropped(1) [of s] by simp
  moreover have "is_digit (CHR ''0'')" "digit_val (CHR ''0'') = 0" by (simp_all add: is_digit_nat digit_val_def)
  ultimately have "0 < digit_val c" using digit_val_inj [of c "CHR ''0''"] by (auto simp: neq0_conv [symmetric] simp del: neq0_conv)
  then have "1 * 10 ^ length cs \<le> decimal (c # cs)" by (simp add: trans_le_add1)
  with assms(1) zeros_dropped(2) [of s] show ?thesis by simp
qed

lemma max_decimal: "decimal parse_number__uintmax_max_str = 2 ^ 64 - 1"
  "list_all is_digit parse_number__uintmax_max_str" "length parse_number__uintmax_max_str = 20"
  by (simp_all add: parse_number__uintmax_max_str_def digit_val_def is_digit_nat)

lemma parse_unsigned_spec:
  "parse_unsigned_integer s =
     (if s \<noteq> [] \<and> list_all is_digit s \<and> decimal s < 2 ^ 64 then Some (word_of_nat (decimal s)) else None)"
proof -
  define u where "u = dropWhile (\<lambda>c. c = CHR ''0'') s"
  have u: "list_all is_digit u \<longleftrightarrow> list_all is_digit s" "decimal u = decimal s"
    by (simp_all add: u_def zeros_dropped)
  have max: "decimal parse_number__uintmax_max_str = 18446744073709551615" using max_decimal(1) by simp
  show ?thesis
  proof (cases "list_all is_digit s")
    case True
    consider "20 < length u" | "length u = 20" | "length u < 20" by arith
    then have "20 < length u \<or> length u = 20 \<and> 0 < memcmp (map of_char u) (map of_char parse_number__uintmax_max_str)
        \<longleftrightarrow> 2 ^ 64 \<le> decimal s"
    proof cases
      case 1
      then obtain c cs where cs: "u = c # cs" "20 \<le> length cs" by (cases u) auto
      have "(10 :: nat) ^ 20 \<le> 10 ^ length cs" using cs(2) by (intro power_increasing) simp_all
      moreover have "10 ^ length cs \<le> decimal s" using hd_dropped [of s c cs] cs(1) True by (simp add: u_def)
      ultimately show ?thesis using 1 by simp
    next
      case 2
      with memcmp_decimal [of u parse_number__uintmax_max_str] True u max_decimal(2,3) max
      show ?thesis by auto
    next
      case 3
      have "decimal u < 10 ^ length u" using decimal_bound True u(1) by blast
      also have "\<dots> \<le> (10 :: nat) ^ 19" using 3 by (intro power_increasing) simp_all
      finally show ?thesis using 3 u(2) by simp
    qed
    then show ?thesis
      using True u parse_no_overflow_value [of u 0]
      unfolding parse_unsigned_integer_def Let_def u_def [symmetric] by auto
  next
    case False
    then show ?thesis
      using u parse_no_overflow_value [of u 0] unfolding parse_unsigned_integer_def Let_def u_def [symmetric] by auto
  qed
qed

fun hexadecimal :: "string \<Rightarrow> nat \<Rightarrow> nat" where
  "hexadecimal [] n = n"
| "hexadecimal (c # cs) n = hexadecimal cs (16 * n + nat (decode_hex_digit c))"

lemma hexadecimal_ge: "n \<le> hexadecimal s n"
  by (induction s n rule: hexadecimal.induct) (auto intro: order_trans [rotated])

lemma decode_hex_bound: "- 1 \<le> decode_hex_digit c \<and> decode_hex_digit c < 16"
  by (auto simp: decode_hex_digit_def split: option.split dest!: map_of_SomeD set_zip_rightD)

lemma parse_hex_spec:
  "parse_hex_loop s n = (if list_all (\<lambda>c. 0 \<le> decode_hex_digit c) s \<and> hexadecimal s (unat n) < 2 ^ 64
     then Some (word_of_nat (hexadecimal s (unat n))) else None)"
proof (induction s arbitrary: n)
  case (Cons c s)
  let ?d = "decode_hex_digit c"
  show ?case
  proof (cases "0 \<le> ?d")
    case True
    define k where "k = nat ?d"
    have k: "?d = int k" "k < 16" using True decode_hex_bound [of c] by (simp_all add: k_def)
    have top: "unat (- 1 :: 64 word) = 2 ^ 64 - 1" by (simp add: unsigned_minus_1_eq_mask mask_eq_exp_minus_1)
    have big: "- 1 div 16 < n \<longleftrightarrow> 2 ^ 64 \<le> 16 * unat n"
      by (simp add: word_less_nat_alt unat_div top) linarith
    show ?thesis
    proof (cases "2 ^ 64 \<le> 16 * unat n")
      case True
      moreover have "16 * unat n \<le> hexadecimal s (16 * unat n + k)" using hexadecimal_ge [of "16 * unat n + k" s] by simp
      ultimately show ?thesis using big k by (simp add: k_def [symmetric])
    next
      case False
      then have mul: "unat (n * 16) = 16 * unat n" by (simp add: unat_word_ariths mult.commute)
      have kw: "unat (word_of_int ?d :: 64 word) = k" using k by (simp add: unat_of_nat take_bit_nat_eq_self)
      have sub: "unat (- 1 - n * 16) = 2 ^ 64 - 1 - 16 * unat n"
        by (subst unat_sub) (simp_all add: mul top)
      have "- 1 - n * 16 < word_of_int ?d \<longleftrightarrow> 2 ^ 64 \<le> 16 * unat n + k"
        using False by (simp add: word_less_nat_alt sub kw) linarith
      moreover have "16 * unat n + k \<le> hexadecimal s (16 * unat n + k)" by (rule hexadecimal_ge)
      moreover have "16 * unat n + k < 2 ^ 64 \<Longrightarrow> unat (n * 16 + word_of_int ?d) = 16 * unat n + k"
        using kw mul by (simp add: unat_word_ariths)
      ultimately show ?thesis using big False k Cons.IH [of "n * 16 + word_of_int ?d"]
        by (auto simp: Let_def k_def [symmetric])
    qed
  qed simp
next
  case (Nil n)
  then show ?case using unsigned_less [of n, where 'a = nat] by simp
qed

text \<open>The parsers accept exactly the nonempty digit strings, with any number of leading
  zeros, whose value fits 64 bits, and return that value: the comparison with the decimal
  digits of \<open>UINTMAX_MAX\<close> and the two overflow tests of the hexadecimal parser are exact.\<close>

theorem numbers_are_parsed_exactly:
  "parse_unsigned_integer s =
     (if s \<noteq> [] \<and> list_all is_digit s \<and> decimal s < 2 ^ 64 then Some (word_of_nat (decimal s)) else None) \<and>
   parse_unsigned_hex_integer s =
     (if s \<noteq> [] \<and> list_all (\<lambda>c. 0 \<le> decode_hex_digit c) s \<and> hexadecimal s 0 < 2 ^ 64
      then Some (word_of_nat (hexadecimal s 0)) else None)"
  by (auto simp: parse_unsigned_spec parse_unsigned_hex_integer_def parse_hex_spec)

section \<open>Decimal output\<close>

text \<open>What \<open>%d\<close> prints for a natural number.\<close>

fun dec_str :: "nat \<Rightarrow> string" where
  "dec_str n = (if n < 10 then [char_of (48 + n)] else dec_str (n div 10) @ [char_of (48 + n mod 10)])"

declare dec_str.simps [simp del]

lemma digit_char: "k < 10 \<Longrightarrow> is_digit (char_of (48 + k)) \<and> digit_val (char_of (48 + k)) = k"
  by (simp add: is_digit_nat digit_val_def)

lemma dec_str_decimal: "list_all is_digit (dec_str n) \<and> decimal (dec_str n) = n \<and> dec_str n \<noteq> []"
proof (induction n rule: dec_str.induct)
  case (1 n)
  show ?case
  proof (cases "n < 10")
    case True
    then show ?thesis by (simp add: dec_str.simps [of n] digit_char)
  next
    case False
    with 1 digit_char [of "n mod 10"] show ?thesis
      by (simp add: dec_str.simps [of n] decimal_append)
  qed
qed

lemma dec_str_length: "n < 10 ^ k \<Longrightarrow> 0 < k \<Longrightarrow> length (dec_str n) \<le> k"
proof (induction n arbitrary: k rule: dec_str.induct)
  case (1 n)
  show ?case
  proof (cases "n < 10")
    case True
    with 1 show ?thesis by (simp add: dec_str.simps [of n])
  next
    case False
    with 1(2) have "1 < k" by (cases k) (auto intro: Nat.gr0I)
    moreover from this 1(2) have "n div 10 < 10 ^ (k - 1)" by (cases k) (auto simp: div_less_iff_less_mult mult.commute)
    ultimately have "length (dec_str (n div 10)) \<le> k - 1" using 1(1) False by simp
    with \<open>1 < k\<close> False show ?thesis by (simp add: dec_str.simps [of n])
  qed
qed

lemma unat_div_10: "unat (x div 10 :: 64 word) = unat x div 10" "unat (x mod 10 :: 64 word) = unat x mod 10"
  by (simp_all add: unat_div unat_mod)

lemma positive_div_10: "0 < (x div 10 :: 64 word) \<longleftrightarrow> 10 \<le> unat x"
  by (simp add: word_less_nat_alt unat_div_10) linarith

lemma compute_size: "compute_decimal_repr_size x = int (length (dec_str (unat x)))"
proof (induction x rule: compute_decimal_repr_size.induct)
  case (1 x)
  show ?case
  proof (cases "10 \<le> unat x")
    case True
    with 1 show ?thesis
      by (simp add: compute_decimal_repr_size.simps [of x] positive_div_10 Let_def dec_str.simps [of "unat x"] unat_div_10)
  next
    case False
    then show ?thesis
      by (simp add: compute_decimal_repr_size.simps [of x] positive_div_10 Let_def dec_str.simps [of "unat x"])
  qed
qed

lemma generate_repr:
  "length (dec_str (unat x)) \<le> pos \<Longrightarrow> pos \<le> length out \<Longrightarrow> generate_decimal_repr x out pos =
     take (pos - length (dec_str (unat x))) out @ dec_str (unat x) @ drop pos out"
proof (induction x out pos rule: generate_decimal_repr.induct)
  case (1 x out pos)
  let ?c = "char_of (48 + unat (x mod 10))"
  have pos: "0 < pos" using 1(2) dec_str_decimal [of "unat x"] by (cases pos) auto
  then have upd: "out[pos - 1 := ?c] = take (pos - 1) out @ ?c # drop pos out"
    using 1(3) by (simp add: upd_conv_take_nth_drop)
  show ?case
  proof (cases "10 \<le> unat x")
    case True
    then have split: "dec_str (unat x) = dec_str (unat (x div 10)) @ [?c]"
      by (simp add: dec_str.simps [of "unat x"] unat_div_10)
    with True 1(1) [of "pos - 1" "out[pos - 1 := ?c]" "x div 10"] 1(2,3) pos
    have "generate_decimal_repr (x div 10) (out[pos - 1 := ?c]) (pos - 1) =
      take (pos - 1 - length (dec_str (unat (x div 10)))) (out[pos - 1 := ?c]) @ dec_str (unat (x div 10)) @
      drop (pos - 1) (out[pos - 1 := ?c])"
      by (simp add: positive_div_10)
    also have "drop (pos - 1) (out[pos - 1 := ?c]) = ?c # drop pos out"
      unfolding upd using pos 1(3) by simp
    also have "take (pos - 1 - length (dec_str (unat (x div 10)))) (out[pos - 1 := ?c]) =
        take (pos - length (dec_str (unat x))) out"
      using split by simp
    finally show ?thesis using True split
      by (simp add: generate_decimal_repr.simps [of x] Let_def positive_div_10)
  next
    case False
    then have "dec_str (unat x) = [?c]" by (simp add: dec_str.simps [of "unat x"] unat_div_10)
    with False show ?thesis
      by (simp add: generate_decimal_repr.simps [of x] Let_def positive_div_10 upd [unfolded One_nat_def])
  qed
qed

text \<open>The decimal representation generated for a 64-bit number takes at most 20
  characters, is written with its terminating character inside a buffer of one more, and
  parses back to the number.\<close>

theorem decimal_roundtrip:
  assumes "generate_decimal_repr_string x out = (len, out')" and "length out = 21"
  shows "1 \<le> len \<and> len \<le> 20 \<and> length out' = 21 \<and> out' ! nat len = CHR 0x00 \<and>
    parse_unsigned_integer (take (nat len) out') = Some x"
proof -
  let ?s = "dec_str (unat x)"
  have "unat x < 10 ^ 20" using unsigned_less [of x, where 'a = nat] by simp
  then have short: "length ?s \<le> 20" using dec_str_length [of "unat x" 20] by simp
  have len: "len = int (length ?s)"
    and out': "out' = (?s @ drop (length ?s) out)[length ?s := CHR 0x00]"
    using assms(1,2) short generate_repr [of x "length ?s" out]
    by (auto simp: generate_decimal_repr_string_def compute_size Let_def)
  have "take (length ?s) out' = ?s" by (simp add: out' list_update_append)
  moreover have "parse_unsigned_integer ?s = Some x"
    using dec_str_decimal [of "unat x"] unsigned_less [of x, where 'a = nat] by (simp add: parse_unsigned_spec)
  moreover have "1 \<le> length ?s" using dec_str_decimal [of "unat x"] by (cases ?s) auto
  ultimately show ?thesis using short assms(2) by (auto simp: len out' nth_list_update)
qed

theorem decimal_roundtrip_witness:
  "generate_decimal_repr_string 407 (replicate 21 (CHR ''x'')) =
     (3, ''407'' @ [CHR 0x00] @ replicate 17 (CHR ''x'')) \<and> parse_unsigned_integer ''407'' = Some 407"
proof -
  have g: "generate_decimal_repr_string 407 (replicate 21 (CHR ''x'')) =
     (3, ''407'' @ [CHR 0x00] @ replicate 17 (CHR ''x''))" by code_simp
  with decimal_roundtrip [OF g] show ?thesis by simp
qed

end
