(* ===== verification/Byte_Order.thy ===== *)
theory Byte_Order
  imports Flow_Prelude
begin

text \<open>
  Byte order and sizes: \<open>misc/byteorder.h\<close> (the build is little-endian), \<open>misc/read_write_int.h\<close>
  on the byte store, and the overflow-checked sizes of \<open>misc/bsize.h\<close>.
\<close>

section \<open>\<open>misc/byteorder.h\<close>\<close>

definition le64_bytes :: "64 word \<Rightarrow> bytes" where
  "le64_bytes w = map (\<lambda>i. ucast (drop_bit (8 * i) w)) [0, 1, 2, 3, 4, 5, 6, 7]"

definition le64_of :: "bytes \<Rightarrow> 64 word" where
  "le64_of bs = ucast (bs ! 0) OR push_bit 8 (ucast (bs ! 1)) OR push_bit 16 (ucast (bs ! 2)) OR
     push_bit 24 (ucast (bs ! 3)) OR push_bit 32 (ucast (bs ! 4)) OR push_bit 40 (ucast (bs ! 5)) OR
     push_bit 48 (ucast (bs ! 6)) OR push_bit 56 (ucast (bs ! 7))"

text \<open>A word in memory is its little-endian bytes; the C code copies them in reverse order.\<close>

definition badvpn_reverse16 :: "16 word \<Rightarrow> 16 word" where
  "badvpn_reverse16 x = (let b = le16_bytes x in le16_of [b ! 1, b ! 0])"

definition badvpn_reverse32 :: "32 word \<Rightarrow> 32 word" where
  "badvpn_reverse32 x = (let b = le32_bytes x in le32_of [b ! 3, b ! 2, b ! 1, b ! 0])"

definition badvpn_reverse64 :: "64 word \<Rightarrow> 64 word" where
  "badvpn_reverse64 x =
     (let b = le64_bytes x in le64_of [b ! 7, b ! 6, b ! 5, b ! 4, b ! 3, b ! 2, b ! 1, b ! 0])"

definition hton8 :: "8 word \<Rightarrow> 8 word" where "hton8 x = x"
definition htol8 :: "8 word \<Rightarrow> 8 word" where "htol8 x = x"
definition hton16 :: "16 word \<Rightarrow> 16 word" where "hton16 x = badvpn_reverse16 x"
definition hton32 :: "32 word \<Rightarrow> 32 word" where "hton32 x = badvpn_reverse32 x"
definition hton64 :: "64 word \<Rightarrow> 64 word" where "hton64 x = badvpn_reverse64 x"
definition htol16 :: "16 word \<Rightarrow> 16 word" where "htol16 x = x"
definition htol32 :: "32 word \<Rightarrow> 32 word" where "htol32 x = x"
definition htol64 :: "64 word \<Rightarrow> 64 word" where "htol64 x = x"
definition ntoh8 :: "8 word \<Rightarrow> 8 word" where "ntoh8 x = hton8 x"
definition ntoh16 :: "16 word \<Rightarrow> 16 word" where "ntoh16 x = hton16 x"
definition ntoh32 :: "32 word \<Rightarrow> 32 word" where "ntoh32 x = hton32 x"
definition ntoh64 :: "64 word \<Rightarrow> 64 word" where "ntoh64 x = hton64 x"
definition ltoh8 :: "8 word \<Rightarrow> 8 word" where "ltoh8 x = htol8 x"
definition ltoh16 :: "16 word \<Rightarrow> 16 word" where "ltoh16 x = htol16 x"
definition ltoh32 :: "32 word \<Rightarrow> 32 word" where "ltoh32 x = htol32 x"
definition ltoh64 :: "64 word \<Rightarrow> 64 word" where "ltoh64 x = htol64 x"

lemmas byteorder_defs = hton8_def htol8_def hton16_def hton32_def hton64_def htol16_def htol32_def
  htol64_def ntoh8_def ntoh16_def ntoh32_def ntoh64_def ltoh8_def ltoh16_def ltoh32_def ltoh64_def
  badvpn_reverse16_def badvpn_reverse32_def badvpn_reverse64_def Let_def

section \<open>\<open>misc/read_write_int.h\<close>\<close>

definition badvpn_read_le8 :: "mem \<Rightarrow> ptr \<Rightarrow> 8 word" where
  "badvpn_read_le8 m p = push_bit 0 (m p)"

definition badvpn_read_le16 :: "mem \<Rightarrow> ptr \<Rightarrow> 16 word" where
  "badvpn_read_le16 m p = push_bit 8 (ucast (m (p + 1))) OR push_bit 0 (ucast (m p))"

definition badvpn_read_le32 :: "mem \<Rightarrow> ptr \<Rightarrow> 32 word" where
  "badvpn_read_le32 m p = push_bit 24 (ucast (m (p + 3))) OR push_bit 16 (ucast (m (p + 2))) OR
     push_bit 8 (ucast (m (p + 1))) OR push_bit 0 (ucast (m p))"

definition badvpn_read_le64 :: "mem \<Rightarrow> ptr \<Rightarrow> 64 word" where
  "badvpn_read_le64 m p = push_bit 56 (ucast (m (p + 7))) OR push_bit 48 (ucast (m (p + 6))) OR
     push_bit 40 (ucast (m (p + 5))) OR push_bit 32 (ucast (m (p + 4))) OR
     push_bit 24 (ucast (m (p + 3))) OR push_bit 16 (ucast (m (p + 2))) OR
     push_bit 8 (ucast (m (p + 1))) OR push_bit 0 (ucast (m p))"

definition badvpn_read_be8 :: "mem \<Rightarrow> ptr \<Rightarrow> 8 word" where
  "badvpn_read_be8 m p = push_bit 0 (m p)"

definition badvpn_read_be16 :: "mem \<Rightarrow> ptr \<Rightarrow> 16 word" where
  "badvpn_read_be16 m p = push_bit 8 (ucast (m p)) OR push_bit 0 (ucast (m (p + 1)))"

definition badvpn_read_be32 :: "mem \<Rightarrow> ptr \<Rightarrow> 32 word" where
  "badvpn_read_be32 m p = push_bit 24 (ucast (m p)) OR push_bit 16 (ucast (m (p + 1))) OR
     push_bit 8 (ucast (m (p + 2))) OR push_bit 0 (ucast (m (p + 3)))"

definition badvpn_read_be64 :: "mem \<Rightarrow> ptr \<Rightarrow> 64 word" where
  "badvpn_read_be64 m p = push_bit 56 (ucast (m p)) OR push_bit 48 (ucast (m (p + 1))) OR
     push_bit 40 (ucast (m (p + 2))) OR push_bit 32 (ucast (m (p + 3))) OR
     push_bit 24 (ucast (m (p + 4))) OR push_bit 16 (ucast (m (p + 5))) OR
     push_bit 8 (ucast (m (p + 6))) OR push_bit 0 (ucast (m (p + 7)))"

definition badvpn_write_le8 :: "8 word \<Rightarrow> mem \<Rightarrow> ptr \<Rightarrow> mem" where
  "badvpn_write_le8 x m p = m(p := drop_bit 0 x)"

definition badvpn_write_le16 :: "16 word \<Rightarrow> mem \<Rightarrow> ptr \<Rightarrow> mem" where
  "badvpn_write_le16 x m p = m(p + 1 := ucast (drop_bit 8 x), p := ucast (drop_bit 0 x))"

definition badvpn_write_le32 :: "32 word \<Rightarrow> mem \<Rightarrow> ptr \<Rightarrow> mem" where
  "badvpn_write_le32 x m p = m(p + 3 := ucast (drop_bit 24 x), p + 2 := ucast (drop_bit 16 x),
     p + 1 := ucast (drop_bit 8 x), p := ucast (drop_bit 0 x))"

definition badvpn_write_le64 :: "64 word \<Rightarrow> mem \<Rightarrow> ptr \<Rightarrow> mem" where
  "badvpn_write_le64 x m p = m(p + 7 := ucast (drop_bit 56 x), p + 6 := ucast (drop_bit 48 x),
     p + 5 := ucast (drop_bit 40 x), p + 4 := ucast (drop_bit 32 x),
     p + 3 := ucast (drop_bit 24 x), p + 2 := ucast (drop_bit 16 x),
     p + 1 := ucast (drop_bit 8 x), p := ucast (drop_bit 0 x))"

definition badvpn_write_be8 :: "8 word \<Rightarrow> mem \<Rightarrow> ptr \<Rightarrow> mem" where
  "badvpn_write_be8 x m p = m(p := drop_bit 0 x)"

definition badvpn_write_be16 :: "16 word \<Rightarrow> mem \<Rightarrow> ptr \<Rightarrow> mem" where
  "badvpn_write_be16 x m p = m(p := ucast (drop_bit 8 x), p + 1 := ucast (drop_bit 0 x))"

definition badvpn_write_be32 :: "32 word \<Rightarrow> mem \<Rightarrow> ptr \<Rightarrow> mem" where
  "badvpn_write_be32 x m p = m(p := ucast (drop_bit 24 x), p + 1 := ucast (drop_bit 16 x),
     p + 2 := ucast (drop_bit 8 x), p + 3 := ucast (drop_bit 0 x))"

definition badvpn_write_be64 :: "64 word \<Rightarrow> mem \<Rightarrow> ptr \<Rightarrow> mem" where
  "badvpn_write_be64 x m p = m(p := ucast (drop_bit 56 x), p + 1 := ucast (drop_bit 48 x),
     p + 2 := ucast (drop_bit 40 x), p + 3 := ucast (drop_bit 32 x),
     p + 4 := ucast (drop_bit 24 x), p + 5 := ucast (drop_bit 16 x),
     p + 6 := ucast (drop_bit 8 x), p + 7 := ucast (drop_bit 0 x))"

lemmas read_write_defs = badvpn_read_le8_def badvpn_read_le16_def badvpn_read_le32_def
  badvpn_read_le64_def badvpn_read_be8_def badvpn_read_be16_def badvpn_read_be32_def
  badvpn_read_be64_def badvpn_write_le8_def badvpn_write_le16_def badvpn_write_le32_def
  badvpn_write_le64_def badvpn_write_be8_def badvpn_write_be16_def badvpn_write_be32_def
  badvpn_write_be64_def

text \<open>Splitting a bit index by byte.\<close>

lemma byte_index:
  fixes n :: nat
  assumes "n < 64"
  obtains k i where "n = 8 * k + i" and "i < 8" and "k < 8"
  using that [of "n div 8" "n mod 8"] assms by (auto simp: less_mult_imp_div_less)

lemma byte_bit:
  "bit (ucast (drop_bit (8 * k) w) :: 8 word) i \<longleftrightarrow> i < 8 \<and> bit w (8 * k + i)"
  by (auto simp: bit_simps)

lemma reverse_bytes:
  "le16_bytes (badvpn_reverse16 x) = rev (le16_bytes x)"
  "le32_bytes (badvpn_reverse32 y) = rev (le32_bytes y)"
  by (auto simp: badvpn_reverse16_def badvpn_reverse32_def le16_bytes_def le16_of_def le32_bytes_def
      le32_of_def Let_def bit_simps intro!: bit_word_eqI)

lemma le16_bytes_inj: "le16_bytes x = le16_bytes y \<Longrightarrow> x = y"
  using le16_roundtrip by metis

lemma le32_bytes_inj: "le32_bytes x = le32_bytes y \<Longrightarrow> x = y"
  using le32_roundtrip by metis

lemma reverse_reverse [simp]:
  "badvpn_reverse16 (badvpn_reverse16 x) = x" "badvpn_reverse32 (badvpn_reverse32 y) = y"
  by (rule le16_bytes_inj, simp add: reverse_bytes) (rule le32_bytes_inj, simp add: reverse_bytes)

lemma byte_high: "8 \<le> j \<Longrightarrow> \<not> bit (b :: byte) j"
  using bit_imp_le_length [of b j] by auto

lemma le64_of_bit:
  assumes "i < 8"
  shows "bit (le64_of bs) i \<longleftrightarrow> bit (bs ! 0) i" "bit (le64_of bs) (8 + i) \<longleftrightarrow> bit (bs ! 1) i"
    "bit (le64_of bs) (16 + i) \<longleftrightarrow> bit (bs ! 2) i" "bit (le64_of bs) (24 + i) \<longleftrightarrow> bit (bs ! 3) i"
    "bit (le64_of bs) (32 + i) \<longleftrightarrow> bit (bs ! 4) i" "bit (le64_of bs) (40 + i) \<longleftrightarrow> bit (bs ! 5) i"
    "bit (le64_of bs) (48 + i) \<longleftrightarrow> bit (bs ! 6) i" "bit (le64_of bs) (56 + i) \<longleftrightarrow> bit (bs ! 7) i"
  using assms by (simp_all add: le64_of_def bit_or_iff bit_push_bit_iff bit_ucast_iff byte_high not_le)

lemma reverse64_bit:
  assumes "i < 8" and "k < 8"
  shows "bit (badvpn_reverse64 x) (8 * k + i) \<longleftrightarrow> bit x (8 * (7 - k) + i)"
proof -
  have "k \<in> {0, 1, 2, 3, 4, 5, 6, 7}" using assms(2) by auto
  with assms(1) show ?thesis
    by (elim insertE emptyE)
      (simp_all add: badvpn_reverse64_def le64_bytes_def Let_def le64_of_bit bit_ucast_iff bit_drop_bit_eq)
qed

lemma reverse64_reverse64 [simp]: "badvpn_reverse64 (badvpn_reverse64 x) = x"
proof (rule bit_word_eqI)
  fix n
  assume "n < LENGTH(64)"
  then obtain k i where "n = 8 * k + i" and "i < 8" and "k < 8" using byte_index [of n] by auto
  then show "bit (badvpn_reverse64 (badvpn_reverse64 x)) n = bit x n"
    by (simp add: reverse64_bit)
qed

lemma write_bit64:
  assumes "i < 8"
  shows "bit (badvpn_read_le64 (badvpn_write_le64 x m p) p) (8 * k + i) \<longleftrightarrow> k < 8 \<and> bit x (8 * k + i)"
    and "bit (badvpn_read_be64 (badvpn_write_be64 x m p) p) (8 * k + i) \<longleftrightarrow> k < 8 \<and> bit x (8 * k + i)"
proof -
  have "8 \<le> k \<or> k \<in> {0, 1, 2, 3, 4, 5, 6, 7}" by auto
  then show "bit (badvpn_read_le64 (badvpn_write_le64 x m p) p) (8 * k + i) \<longleftrightarrow> k < 8 \<and> bit x (8 * k + i)"
    and "bit (badvpn_read_be64 (badvpn_write_be64 x m p) p) (8 * k + i) \<longleftrightarrow> k < 8 \<and> bit x (8 * k + i)"
    using assms
    by (elim disjE insertE emptyE; simp add: read_write_defs bit_or_iff bit_push_bit_iff bit_ucast_iff
        bit_drop_bit_eq byte_high not_le bit_imp_le_length)+
qed

lemma read_write_64:
  "badvpn_read_le64 (badvpn_write_le64 x m p) p = x" "badvpn_read_be64 (badvpn_write_be64 x m p) p = x"
proof -
  have "bit (badvpn_read_le64 (badvpn_write_le64 x m p) p) n = bit x n \<and>
      bit (badvpn_read_be64 (badvpn_write_be64 x m p) p) n = bit x n" if "n < 64" for n
    by (rule byte_index [OF that]) (simp add: write_bit64)
  then show "badvpn_read_le64 (badvpn_write_le64 x m p) p = x" "badvpn_read_be64 (badvpn_write_be64 x m p) p = x"
    by (auto intro!: bit_word_eqI)
qed

lemma word32_eq:
  fixes x y :: "32 word"
  assumes "\<And>k i. k \<in> {0, 1, 2, 3} \<Longrightarrow> i < 8 \<Longrightarrow> bit x (8 * k + i) = bit y (8 * k + i)"
  shows "x = y"
proof (rule bit_word_eqI)
  fix n
  assume "n < LENGTH(32)"
  then have "n div 8 \<in> {0, 1, 2, 3}" and "n mod 8 < 8" by auto
  from assms [OF this] show "bit x n = bit y n" by simp
qed

lemma word16_eq:
  fixes x y :: "16 word"
  assumes "\<And>k i. k \<in> {0, 1} \<Longrightarrow> i < 8 \<Longrightarrow> bit x (8 * k + i) = bit y (8 * k + i)"
  shows "x = y"
proof (rule bit_word_eqI)
  fix n
  assume "n < LENGTH(16)"
  then have "n div 8 \<in> {0, 1}" and "n mod 8 < 8" by auto
  from assms [OF this] show "bit x n = bit y n" by simp
qed

lemmas bit_rules = bit_or_iff bit_push_bit_iff bit_ucast_iff bit_drop_bit_eq byte_high not_le bit_imp_le_length

lemma read_write_32:
  "badvpn_read_le32 (badvpn_write_le32 x m p) p = x" "badvpn_read_be32 (badvpn_write_be32 x m p) p = x"
  by (rule word32_eq; elim insertE emptyE; simp add: read_write_defs bit_rules)+

lemma read_write_16:
  "badvpn_read_le16 (badvpn_write_le16 x m p) p = x" "badvpn_read_be16 (badvpn_write_be16 x m p) p = x"
  by (rule word16_eq; elim insertE emptyE; simp add: read_write_defs bit_rules)+

lemma read_be_ntoh:
  "badvpn_read_be16 m p = ntoh16 (le16_of (mread m p 2))"
  "badvpn_read_be32 m p = ntoh32 (le32_of (mread m p 4))"
  by (rule word16_eq; elim insertE emptyE; simp add: read_write_defs byteorder_defs le16_of_def le16_bytes_def bit_rules)
    (rule word32_eq; elim insertE emptyE; simp add: read_write_defs byteorder_defs le32_of_def le32_bytes_def bit_rules)

text \<open>For every width the readers undo the writers, whatever else is in memory, and the
  big-endian readers agree with loading the field as the little-endian machine does and
  converting it with \<open>ntoh\<close>.\<close>

theorem integer_fields_roundtrip:
  "badvpn_read_le16 (badvpn_write_le16 w16 m p) p = w16 \<and> badvpn_read_be16 (badvpn_write_be16 w16 m p) p = w16 \<and>
   badvpn_read_le32 (badvpn_write_le32 w32 m p) p = w32 \<and> badvpn_read_be32 (badvpn_write_be32 w32 m p) p = w32 \<and>
   badvpn_read_le64 (badvpn_write_le64 w64 m p) p = w64 \<and> badvpn_read_be64 (badvpn_write_be64 w64 m p) p = w64 \<and>
   badvpn_read_be16 m p = ntoh16 (le16_of (mread m p 2)) \<and>
   badvpn_read_be32 m p = ntoh32 (le32_of (mread m p 4)) \<and>
   ntoh16 (hton16 w16) = w16 \<and> ntoh32 (hton32 w32) = w32 \<and> ntoh64 (hton64 w64) = w64"
  by (simp add: read_write_16 read_write_32 read_write_64 read_be_ntoh [of m] ntoh16_def ntoh32_def ntoh64_def hton16_def hton32_def
      hton64_def)

section \<open>\<open>misc/bsize.h\<close>\<close>

record bsize_t =
  is_overflow :: bool
  bsize_value :: "64 word"

definition bsize_fromsize :: "64 word \<Rightarrow> bsize_t" where
  "bsize_fromsize v = \<lparr>is_overflow = False, bsize_value = v\<rparr>"

definition bsize_fromint :: "int \<Rightarrow> bsize_t" where
  "bsize_fromint v = \<lparr>is_overflow = (v < 0 \<or> - 1 < (word_of_int v :: 64 word)), bsize_value = word_of_int v\<rparr>"

definition bsize_overflow :: bsize_t where
  "bsize_overflow = \<lparr>is_overflow = True, bsize_value = 0\<rparr>"

definition bsize_tosize :: "bsize_t \<Rightarrow> (64 word) option" where
  "bsize_tosize s = (if is_overflow s then None else Some (bsize_value s))"

definition bsize_toint :: "bsize_t \<Rightarrow> int option" where
  "bsize_toint s =
     (if is_overflow s \<or> word_of_int INT_MAX < bsize_value s then None else Some (uint (bsize_value s)))"

definition bsize_add :: "bsize_t \<Rightarrow> bsize_t \<Rightarrow> bsize_t" where
  "bsize_add s1 s2 =
     \<lparr>is_overflow = (is_overflow s1 \<or> is_overflow s2 \<or> - 1 - bsize_value s1 < bsize_value s2),
      bsize_value = bsize_value s1 + bsize_value s2\<rparr>"

definition bsize_max :: "bsize_t \<Rightarrow> bsize_t \<Rightarrow> bsize_t" where
  "bsize_max s1 s2 =
     \<lparr>is_overflow = (is_overflow s1 \<or> is_overflow s2),
      bsize_value = of_bool (bsize_value s2 < bsize_value s1) * bsize_value s1 +
        of_bool (bsize_value s1 \<le> bsize_value s2) * bsize_value s2\<rparr>"

definition bsize_mul :: "bsize_t \<Rightarrow> bsize_t \<Rightarrow> bsize_t" where
  "bsize_mul s1 s2 =
     \<lparr>is_overflow = (is_overflow s1 \<or> is_overflow s2 \<or>
        bsize_value s1 \<noteq> 0 \<and> - 1 div bsize_value s1 < bsize_value s2),
      bsize_value = bsize_value s1 * bsize_value s2\<rparr>"

text \<open>The meaning of a size: a natural number that fits \<open>size_t\<close>, or overflow.\<close>

definition fits :: "nat \<Rightarrow> nat option" where
  "fits n = (if n < 2 ^ 64 then Some n else None)"

definition bsize_abs :: "bsize_t \<Rightarrow> nat option" where
  "bsize_abs s = (if is_overflow s then None else Some (unat (bsize_value s)))"

definition lift_size :: "(nat \<Rightarrow> nat \<Rightarrow> nat) \<Rightarrow> nat option \<Rightarrow> nat option \<Rightarrow> nat option" where
  "lift_size f x y = (case (x, y) of (Some a, Some b) \<Rightarrow> fits (f a b) | _ \<Rightarrow> None)"

lemma unat_minus_1: "unat (- 1 :: 64 word) = 2 ^ 64 - 1"
  by (simp add: unsigned_minus_1_eq_mask mask_eq_exp_minus_1)

lemma add_exact: "bsize_abs (bsize_add s1 s2) = lift_size (+) (bsize_abs s1) (bsize_abs s2)"
proof -
  have "(- 1 - bsize_value s1 < bsize_value s2) \<longleftrightarrow> 2 ^ 64 \<le> unat (bsize_value s1) + unat (bsize_value s2)"
  proof -
    have "unat (- 1 - bsize_value s1) = 2 ^ 64 - 1 - unat (bsize_value s1)"
      by (subst unat_sub) (simp_all add: unat_minus_1)
    then show ?thesis
      using unsigned_less [of "bsize_value s1", where 'a = nat] by (simp add: word_less_nat_alt) linarith
  qed
  then show ?thesis
    by (auto simp: bsize_abs_def bsize_add_def lift_size_def fits_def unat_word_ariths)
qed

lemma mul_exact: "bsize_abs (bsize_mul s1 s2) = lift_size (*) (bsize_abs s1) (bsize_abs s2)"
proof (cases "is_overflow s1 \<or> is_overflow s2 \<or> bsize_value s1 = 0")
  case False
  then have "0 < unat (bsize_value s1)" by (simp add: unat_gt_0)
  moreover have "(- 1 div bsize_value s1 < bsize_value s2) \<longleftrightarrow> 2 ^ 64 \<le> unat (bsize_value s1) * unat (bsize_value s2)"
    using calculation by (simp add: word_less_nat_alt unat_div unat_minus_1 div_less_iff_less_mult mult.commute)
      linarith
  ultimately show ?thesis using False
    by (auto simp: bsize_abs_def bsize_mul_def lift_size_def fits_def unat_word_ariths)
qed (auto simp: bsize_abs_def bsize_mul_def lift_size_def fits_def)

lemma max_exact: "bsize_abs (bsize_max s1 s2) = lift_size max (bsize_abs s1) (bsize_abs s2)"
  using unsigned_less [of "bsize_value s1"] unsigned_less [of "bsize_value s2"]
  by (auto simp: bsize_abs_def bsize_max_def lift_size_def fits_def max_def word_le_nat_alt word_less_nat_alt)

lemma size_exact [simp]: "bsize_abs (bsize_fromsize v) = Some (unat v)"
  by (simp add: bsize_abs_def bsize_fromsize_def)

lemma toint_exact:
  assumes "bsize_abs s = Some k"
  shows "bsize_toint s = (if int k \<le> INT_MAX then Some (int k) else None)"
proof -
  have s: "\<not> is_overflow s" "unat (bsize_value s) = k"
    using assms by (auto simp: bsize_abs_def split: if_splits)
  then have "uint (bsize_value s) = int k"
    by (simp add: uint_nat)
  then show ?thesis
    using s(1) by (simp add: bsize_toint_def word_less_def INT_MAX_def not_less)
qed

lemma fromint_exact:
  assumes "0 \<le> n" "n \<le> INT_MAX"
  shows "bsize_abs (bsize_fromint n) = Some (nat n)"
proof -
  have "unat (word_of_int n :: 64 word) = nat n"
    using assms by (simp add: unat_eq_nat_uint uint_word_of_int INT_MAX_def)
  then show ?thesis
    using assms(1) word_n1_ge [of "word_of_int n :: 64 word"] by (simp add: bsize_fromint_def bsize_abs_def not_less)
qed

text \<open>The sizes refine natural numbers with overflow: adding, multiplying and taking the
  maximum give the true result when it fits \<open>size_t\<close> and report overflow exactly when it does
  not or an argument had overflowed, and converting to an \<open>int\<close> succeeds exactly for values up
  to \<open>INT_MAX\<close>.\<close>

theorem sizes_are_exact:
  "bsize_abs (bsize_add s1 s2) = lift_size (+) (bsize_abs s1) (bsize_abs s2) \<and>
   bsize_abs (bsize_mul s1 s2) = lift_size (*) (bsize_abs s1) (bsize_abs s2) \<and>
   bsize_abs (bsize_max s1 s2) = lift_size max (bsize_abs s1) (bsize_abs s2) \<and>
   bsize_abs (bsize_fromsize v) = Some (unat v) \<and>
   bsize_tosize s1 = map_option of_nat (bsize_abs s1) \<and>
   bsize_toint s1 = (case bsize_abs s1 of None \<Rightarrow> None | Some k \<Rightarrow> if int k \<le> INT_MAX then Some (int k) else None)"
  by (intro conjI add_exact mul_exact max_exact)
    (auto simp: bsize_abs_def bsize_fromsize_def bsize_tosize_def bsize_toint_def INT_MAX_def word_less_def
      split: option.splits)

end
