(* ===== verification/Ip_Addresses.thy ===== *)
theory Ip_Addresses
  imports Number_Parsing Byte_Order
begin

text \<open>
  IPv4 addresses, prefixes and masks as strings and words: \<open>misc/ipaddr.h\<close>.  An address is
  the word the code keeps, whose little-endian bytes are the address in network order.  A
  result 0 of the code is \<open>None\<close>, a result 1 \<open>Some\<close> of what was written.
\<close>

section \<open>\<open>misc/ipaddr.h\<close>\<close>

record ipv4_ifaddr =
  ifaddr_addr :: "32 word"
  ifaddr_prefix :: int

lemma takeWhile_nonempty: "takeWhile P xs \<noteq> [] \<Longrightarrow> 0 < length xs"
  by (cases xs) auto

text \<open>The loop over the four parts, with the bytes written so far.\<close>

function parse_parts :: "nat \<Rightarrow> string \<Rightarrow> bytes \<Rightarrow> bytes option" where
  "parse_parts i name out_addr =
     (let j = length (takeWhile (\<lambda>c. c \<noteq> CHR ''.'') name)
      in if j = length name \<and> i < 3 \<or> j < length name \<and> i = 3 then None
         else if j < 1 \<or> j > 3 then None
         else case parse_unsigned_integer (MemRef_SubTo name j) of
                None \<Rightarrow> None
              | Some d \<Rightarrow>
                  if d > 255 then None
                  else if i = 3 then Some (out_addr[i := ucast d])
                  else parse_parts (i + 1) (drop (j + 1) name) (out_addr[i := ucast d]))"
  by pat_completeness auto
termination
  by (relation "measure (\<lambda>(i, name, _). length name)") (auto dest: takeWhile_nonempty)

definition ipaddr_parse_ipv4_addr :: "MemRef \<Rightarrow> (32 word) option" where
  "ipaddr_parse_ipv4_addr name = map_option le32_of (parse_parts 0 name [0, 0, 0, 0])"

definition ipaddr_parse_ipv4_prefix :: "MemRef \<Rightarrow> int option" where
  "ipaddr_parse_ipv4_prefix str =
     (case parse_unsigned_integer str of
        None \<Rightarrow> None
      | Some d \<Rightarrow> if d > 32 then None else Some (uint d))"

definition ipaddr_parse_ipv4_ifaddr :: "MemRef \<Rightarrow> ipv4_ifaddr option" where
  "ipaddr_parse_ipv4_ifaddr str =
     (case MemRef_FindChar str (CHR ''/'') of
        None \<Rightarrow> None
      | Some slash_pos \<Rightarrow>
          (case ipaddr_parse_ipv4_addr (MemRef_SubTo str slash_pos) of
             None \<Rightarrow> None
           | Some addr \<Rightarrow>
               (case ipaddr_parse_ipv4_prefix (MemRef_SubFrom str (slash_pos + 1)) of
                  None \<Rightarrow> None
                | Some prefix \<Rightarrow> Some \<lparr>ifaddr_addr = addr, ifaddr_prefix = prefix\<rparr>)))"

definition ipaddr_ipv4_mask_from_prefix :: "int \<Rightarrow> 32 word" where
  "ipaddr_ipv4_mask_from_prefix prefix =
     hton32 (fold (\<lambda>i t. t OR push_bit (32 - i - 1) 1) [0..<nat prefix] 0)"

function prefix_loop :: "32 word \<Rightarrow> nat \<Rightarrow> 32 word \<Rightarrow> int option" where
  "prefix_loop netmask i t =
     (if i \<le> 32
      then if ntoh32 netmask = t then Some (int i)
           else prefix_loop netmask (i + 1) (if i < 32 then t OR push_bit (32 - i - 1) 1 else t)
      else None)"
  by pat_completeness auto
termination
  by (relation "measure (\<lambda>(netmask, i, t). 33 - i)") auto

definition ipaddr_ipv4_prefix_from_mask :: "32 word \<Rightarrow> int option" where
  "ipaddr_ipv4_prefix_from_mask netmask = prefix_loop netmask 0 0"

definition ipaddr_ipv4_ifaddr_from_addr_mask :: "32 word \<Rightarrow> 32 word \<Rightarrow> ipv4_ifaddr option" where
  "ipaddr_ipv4_ifaddr_from_addr_mask addr netmask =
     (case ipaddr_ipv4_prefix_from_mask netmask of
        None \<Rightarrow> None
      | Some prefix \<Rightarrow> Some \<lparr>ifaddr_addr = addr, ifaddr_prefix = prefix\<rparr>)"

definition ipaddr_ipv4_addrs_in_network :: "32 word \<Rightarrow> 32 word \<Rightarrow> int \<Rightarrow> bool" where
  "ipaddr_ipv4_addrs_in_network addr1 addr2 netprefix =
     (let netmask = ipaddr_ipv4_mask_from_prefix netprefix in addr1 AND netmask = addr2 AND netmask)"

definition IPADDR_PRINT_MAX :: nat where "IPADDR_PRINT_MAX = 19"

definition ipaddr_print_addr :: "32 word \<Rightarrow> string" where
  "ipaddr_print_addr addr =
     (let b = le32_bytes addr
      in dec_str (unat (b ! 0)) @ ''.'' @ dec_str (unat (b ! 1)) @ ''.'' @
         dec_str (unat (b ! 2)) @ ''.'' @ dec_str (unat (b ! 3)))"

definition ipaddr_print_ifaddr :: "ipv4_ifaddr \<Rightarrow> string" where
  "ipaddr_print_ifaddr ifaddr =
     (let b = le32_bytes (ifaddr_addr ifaddr)
      in dec_str (unat (b ! 0)) @ ''.'' @ dec_str (unat (b ! 1)) @ ''.'' @
         dec_str (unat (b ! 2)) @ ''.'' @ dec_str (unat (b ! 3)) @ ''/'' @ dec_str (nat (ifaddr_prefix ifaddr)))"

declare parse_parts.simps [simp del] prefix_loop.simps [simp del]

section \<open>Masks\<close>

definition prefix_mask :: "nat \<Rightarrow> 32 word" where
  "prefix_mask k = fold (\<lambda>i t. t OR push_bit (32 - i - 1) 1) [0..<k] 0"

lemma bit_prefix_mask: "k \<le> 32 \<Longrightarrow> bit (prefix_mask k) n \<longleftrightarrow> 32 - k \<le> n \<and> n < 32"
proof (induction k)
  case (Suc k)
  have "prefix_mask (Suc k) = prefix_mask k OR push_bit (32 - k - 1) 1" by (simp add: prefix_mask_def)
  with Suc show ?case by (auto simp: bit_or_iff bit_exp_iff)
qed (simp add: prefix_mask_def)

lemma prefix_mask_inj:
  assumes "k \<le> 32" and "l \<le> 32" and "prefix_mask k = prefix_mask l"
  shows "k = l"
proof -
  have "k \<le> l" if "prefix_mask k = prefix_mask l" "k \<le> 32" "l \<le> 32" for k l
  proof (cases k)
    case (Suc k')
    then have "bit (prefix_mask l) (32 - k)" using that bit_prefix_mask [of k "32 - k"] by simp
    with that show ?thesis by (auto simp: bit_prefix_mask)
  qed simp
  with assms show ?thesis by (metis antisym)
qed

lemma prefix_loop_step:
  "i \<le> 32 \<Longrightarrow> prefix_loop m i (prefix_mask i) =
     (if ntoh32 m = prefix_mask i then Some (int i) else if i < 32 then prefix_loop m (i + 1) (prefix_mask (i + 1)) else None)"
  by (simp add: prefix_loop.simps [of m i] prefix_mask_def) (simp add: prefix_loop.simps)

lemma prefix_loop_found:
  assumes "i \<le> k" and "k \<le> 32" and "ntoh32 m = prefix_mask k"
  shows "prefix_loop m i (prefix_mask i) = Some (int k)"
  using assms
proof (induction "k - i" arbitrary: i)
  case (Suc d)
  then have "i < k" and "ntoh32 m \<noteq> prefix_mask i" using prefix_mask_inj [of i k] by auto
  with Suc show ?case by (simp add: prefix_loop_step)
qed (simp add: prefix_loop_step)

lemma prefix_loop_only:
  assumes "i \<le> 32" and "prefix_loop m i (prefix_mask i) = Some p"
  shows "\<exists>k \<le> 32. p = int k \<and> ntoh32 m = prefix_mask k"
  using assms
proof (induction "32 - i" arbitrary: i)
  case 0
  with prefix_loop_step [of i m] show ?case by (auto split: if_splits)
next
  case (Suc d)
  show ?case
  proof (cases "ntoh32 m = prefix_mask i")
    case True
    with Suc prefix_loop_step [of i m] show ?thesis by auto
  next
    case False
    have "i < 32" using Suc.hyps(2) by simp
    with False Suc prefix_loop_step [of i m] have "prefix_loop m (i + 1) (prefix_mask (i + 1)) = Some p" by simp
    moreover have "d = 32 - (i + 1)" and "i + 1 \<le> 32" using Suc.hyps(2) \<open>i < 32\<close> by simp_all
    ultimately show ?thesis using Suc.hyps(1) [of "i + 1"] by blast
  qed
qed

lemma hton32_ntoh32 [simp]: "ntoh32 (hton32 x) = x" "hton32 (ntoh32 x) = x"
  by (simp_all add: ntoh32_def hton32_def)

lemma hton32_and: "hton32 x AND hton32 y = hton32 (x AND y)"
  by (rule word32_eq; elim insertE emptyE;
      simp add: byteorder_defs le32_of_def le32_bytes_def bit_rules bit_and_iff)

text \<open>Masks and prefix lengths correspond: the mask of a prefix gives the prefix back, a
  mask has a prefix only if it is the mask of that prefix, and two addresses are in the same
  network exactly if their first \<open>p\<close> bits in network order agree.\<close>

theorem masks_are_prefixes:
  assumes "0 \<le> p" and "p \<le> 32"
  shows "ipaddr_ipv4_prefix_from_mask (ipaddr_ipv4_mask_from_prefix p) = Some p \<and>
    (ipaddr_ipv4_prefix_from_mask m = Some p \<longleftrightarrow> m = ipaddr_ipv4_mask_from_prefix p) \<and>
    (ipaddr_ipv4_addrs_in_network a1 a2 p \<longleftrightarrow>
       (\<forall>i. 32 - nat p \<le> i \<and> i < 32 \<longrightarrow> bit (ntoh32 a1) i = bit (ntoh32 a2) i))"
proof -
  let ?k = "nat p"
  have k: "?k \<le> 32" "p = int ?k" using assms by simp_all
  have mask: "ipaddr_ipv4_mask_from_prefix p = hton32 (prefix_mask ?k)"
    by (simp add: ipaddr_ipv4_mask_from_prefix_def prefix_mask_def)
  have loop: "ipaddr_ipv4_prefix_from_mask m' = prefix_loop m' 0 (prefix_mask 0)" for m'
    by (simp add: ipaddr_ipv4_prefix_from_mask_def prefix_mask_def)
  have inverse: "ipaddr_ipv4_prefix_from_mask (ipaddr_ipv4_mask_from_prefix p) = Some p"
    using prefix_loop_found [of 0 ?k "hton32 (prefix_mask ?k)"] k by (simp add: loop mask)
  moreover have "m = ipaddr_ipv4_mask_from_prefix p" if "ipaddr_ipv4_prefix_from_mask m = Some p"
  proof -
    obtain j where "j \<le> 32" "p = int j" "ntoh32 m = prefix_mask j"
      using prefix_loop_only [of 0 m p] \<open>ipaddr_ipv4_prefix_from_mask m = Some p\<close> by (auto simp: loop)
    then show ?thesis using mask by (metis hton32_ntoh32(2) nat_int)
  qed
  moreover have "ipaddr_ipv4_addrs_in_network a1 a2 p \<longleftrightarrow>
       (\<forall>i. 32 - ?k \<le> i \<and> i < 32 \<longrightarrow> bit (ntoh32 a1) i = bit (ntoh32 a2) i)"
  proof -
    note conj = hton32_and
    have "a1 AND hton32 (prefix_mask ?k) = a2 AND hton32 (prefix_mask ?k) \<longleftrightarrow>
        hton32 (ntoh32 a1 AND prefix_mask ?k) = hton32 (ntoh32 a2 AND prefix_mask ?k)"
      by (simp add: conj [symmetric])
    also have "\<dots> \<longleftrightarrow> ntoh32 a1 AND prefix_mask ?k = ntoh32 a2 AND prefix_mask ?k"
      by (metis hton32_ntoh32(1))
    also have "\<dots> \<longleftrightarrow> (\<forall>i. 32 - ?k \<le> i \<and> i < 32 \<longrightarrow> bit (ntoh32 a1) i = bit (ntoh32 a2) i)"
      using k(1) by (auto simp: bit_eq_iff bit_and_iff bit_prefix_mask)
    finally show ?thesis by (simp add: ipaddr_ipv4_addrs_in_network_def mask Let_def)
  qed
  ultimately show ?thesis by blast
qed

section \<open>Printing and parsing\<close>

lemma dec_str_no: "\<not> is_digit c \<Longrightarrow> c \<notin> set (dec_str n)"
  using dec_str_decimal [of n] by (auto simp: list_all_iff)

lemma dot_slash [simp]: "\<not> is_digit (CHR ''.'')" "\<not> is_digit (CHR ''/'')"
  by (simp_all add: is_digit_nat)

lemma dec_byte:
  fixes b :: byte
  shows "1 \<le> length (dec_str (unat b))" "length (dec_str (unat b)) \<le> 3" "dec_str (unat b) \<noteq> []"
    and "parse_unsigned_integer (dec_str (unat b)) = Some (ucast b)"
    and "length (takeWhile (\<lambda>c. c \<noteq> CHR ''.'') (dec_str (unat b) @ CHR ''.'' # rest)) = length (dec_str (unat b))"
    and "length (takeWhile (\<lambda>c. c \<noteq> CHR ''.'') (dec_str (unat b))) = length (dec_str (unat b))"
proof -
  have b: "unat b < 256" using unsigned_less [of b, where 'a = nat] by simp
  show "dec_str (unat b) \<noteq> []" using dec_str_decimal by blast
  then show "1 \<le> length (dec_str (unat b))" by (cases "dec_str (unat b)") auto
  show "length (dec_str (unat b)) \<le> 3" by (rule dec_str_length) (use b in simp_all)
  show "parse_unsigned_integer (dec_str (unat b)) = Some (ucast b)"
    using dec_str_decimal [of "unat b"] b by (simp add: parse_unsigned_spec)
  have "c \<noteq> CHR ''.''" if "c \<in> set (dec_str (unat b))" for c using that dec_str_no dot_slash(1) by blast
  then have "takeWhile (\<lambda>c. c \<noteq> CHR ''.'') (dec_str (unat b) @ CHR ''.'' # rest) = dec_str (unat b)"
    and "takeWhile (\<lambda>c. c \<noteq> CHR ''.'') (dec_str (unat b)) = dec_str (unat b)"
    by (simp_all add: takeWhile_tail takeWhile_append2)
  then show "length (takeWhile (\<lambda>c. c \<noteq> CHR ''.'') (dec_str (unat b) @ CHR ''.'' # rest)) = length (dec_str (unat b))"
    and "length (takeWhile (\<lambda>c. c \<noteq> CHR ''.'') (dec_str (unat b))) = length (dec_str (unat b))"
    by (simp_all only:)
qed

lemma byte_word:
  fixes b :: byte
  shows "\<not> (255 :: 64 word) < ucast b" "ucast (ucast b :: 64 word) = b"
proof -
  have b: "unat b < 256" using unsigned_less [of b, where 'a = nat] by simp
  then show "\<not> (255 :: 64 word) < ucast b"
    by (simp add: word_less_nat_alt unsigned_ucast_eq take_bit_nat_eq_self)
qed (rule bit_word_eqI, simp add: bit_simps)

lemma parse_parts_dot:
  assumes "i < 3"
  shows "parse_parts i (dec_str (unat b) @ CHR ''.'' # rest) out = parse_parts (i + 1) rest (out[i := b])"
  unfolding parse_parts.simps [of i] Let_def dec_byte(5)
  using assms dec_byte(1-4) [of b] byte_word [of b] by (simp add: MemRef_SubTo_def)

lemma parse_parts_last: "parse_parts 3 (dec_str (unat b)) out = Some (out[3 := b])"
  unfolding parse_parts.simps [of 3] Let_def dec_byte(6)
  using dec_byte(1-4) [of b] byte_word [of b] by (simp add: MemRef_SubTo_def)

lemma parse_print_addr: "ipaddr_parse_ipv4_addr (ipaddr_print_addr a) = Some a"
proof -
  have "parse_parts 0 (ipaddr_print_addr a) [0, 0, 0, 0] =
      Some [le32_bytes a ! 0, le32_bytes a ! 1, le32_bytes a ! 2, le32_bytes a ! 3]"
    by (simp add: ipaddr_print_addr_def Let_def parse_parts_dot parse_parts_last [unfolded numeral_3_eq_3] numeral_3_eq_3)
  also have "[le32_bytes a ! 0, le32_bytes a ! 1, le32_bytes a ! 2, le32_bytes a ! 3] = le32_bytes a"
    by (simp add: le32_bytes_def)
  finally show ?thesis by (simp add: ipaddr_parse_ipv4_addr_def)
qed

lemma find_from_first: "ch \<notin> set s \<Longrightarrow> find_from ch (s @ ch # t) i = Some (i + length s)"
  by (induction s arbitrary: i) auto

lemma print_addr_no_slash: "CHR ''/'' \<notin> set (ipaddr_print_addr a)"
  by (simp add: ipaddr_print_addr_def Let_def dec_str_no)

text \<open>Printing and parsing are inverse: an address, and an address with a prefix length of
  at most 32, parse back from what is printed for them, which with its terminating character
  fits the \<open>IPADDR_PRINT_MAX\<close> characters the callers reserve.\<close>

theorem ipv4_print_parse:
  assumes "0 \<le> ifaddr_prefix i" and "ifaddr_prefix i \<le> 32"
  shows "ipaddr_parse_ipv4_addr (ipaddr_print_addr a) = Some a \<and>
    ipaddr_parse_ipv4_ifaddr (ipaddr_print_ifaddr i) = Some i \<and>
    length (ipaddr_print_addr a) + 1 \<le> IPADDR_PRINT_MAX \<and> length (ipaddr_print_ifaddr i) + 1 \<le> IPADDR_PRINT_MAX"
proof -
  let ?p = "dec_str (nat (ifaddr_prefix i))" and ?a = "ipaddr_print_addr (ifaddr_addr i)"
  have print: "ipaddr_print_ifaddr i = ?a @ CHR ''/'' # ?p"
    by (simp add: ipaddr_print_ifaddr_def ipaddr_print_addr_def Let_def)
  have p: "nat (ifaddr_prefix i) \<le> 32" using assms by simp
  have "unat (word_of_nat (nat (ifaddr_prefix i)) :: 64 word) = nat (ifaddr_prefix i)"
    using p by (simp add: unat_of_nat take_bit_nat_eq_self)
  moreover from this have "uint (word_of_nat (nat (ifaddr_prefix i)) :: 64 word) = ifaddr_prefix i"
    using assms(1) by (metis int_nat_eq uint_nat)
  moreover have "parse_unsigned_integer ?p = Some (word_of_nat (nat (ifaddr_prefix i)))"
    using dec_str_decimal [of "nat (ifaddr_prefix i)"] p by (simp add: parse_unsigned_spec)
  ultimately have "ipaddr_parse_ipv4_prefix ?p = Some (ifaddr_prefix i)"
    using p by (simp add: ipaddr_parse_ipv4_prefix_def word_less_nat_alt)
  then have "ipaddr_parse_ipv4_ifaddr (ipaddr_print_ifaddr i) = Some i"
    by (simp add: ipaddr_parse_ipv4_ifaddr_def print MemRef_FindChar_def find_from_first print_addr_no_slash
        MemRef_SubTo_def MemRef_SubFrom_def parse_print_addr)
  moreover have "length (ipaddr_print_addr x) \<le> 15" for x
    using dec_byte(2) [of "le32_bytes x ! 0"] dec_byte(2) [of "le32_bytes x ! 1"]
      dec_byte(2) [of "le32_bytes x ! 2"] dec_byte(2) [of "le32_bytes x ! 3"]
    by (simp add: ipaddr_print_addr_def Let_def)
  moreover have "length ?p \<le> 2" by (rule dec_str_length) (use p in simp_all)
  ultimately have "ipaddr_parse_ipv4_ifaddr (ipaddr_print_ifaddr i) = Some i"
    and "length (ipaddr_print_addr a) \<le> 15" and "length (ipaddr_print_addr (ifaddr_addr i)) \<le> 15" and "length ?p \<le> 2"
    by blast+
  then show ?thesis unfolding IPADDR_PRINT_MAX_def parse_print_addr
    by (simp add: print)
qed

theorem ipv4_print_parse_witness:
  "ipaddr_print_ifaddr \<lparr>ifaddr_addr = 0x0201A8C0, ifaddr_prefix = 24\<rparr> = ''192.168.1.2/24'' \<and>
   ipaddr_parse_ipv4_ifaddr ''192.168.1.2/24'' = Some \<lparr>ifaddr_addr = 0x0201A8C0, ifaddr_prefix = 24\<rparr>"
proof -
  let ?i = "\<lparr>ifaddr_addr = 0x0201A8C0, ifaddr_prefix = 24\<rparr>"
  have "ipaddr_print_ifaddr ?i = ''192.168.1.2/24''" by code_simp
  with ipv4_print_parse [of ?i] show ?thesis by simp
qed

theorem masks_are_prefixes_witness:
  "ipaddr_ipv4_mask_from_prefix 24 = 0x00FFFFFF \<and> ipaddr_ipv4_prefix_from_mask 0x00FFFFFF = Some 24"
proof -
  have "ipaddr_ipv4_mask_from_prefix 24 = 0x00FFFFFF" by code_simp
  with masks_are_prefixes [of 24] show ?thesis by simp
qed

end
