(* ===== verification/Ip6_Addresses.thy ===== *)
theory Ip6_Addresses
  imports Ip_Addresses
begin

text \<open>
  IPv6 addresses, prefixes and masks: \<open>misc/ipaddr6.h\<close>.  A \<open>struct ipv6_addr\<close> is the list of
  its sixteen bytes.  The parser works by index, as the code does: a read outside the string or
  a write outside the sixteen bytes is the result \<open>Outside\<close>, so that staying within both is a
  property to prove and not a convention of the model.
\<close>

section \<open>\<open>misc/ipaddr6.h\<close>\<close>

type_synonym ipv6_addr = bytes

record ipv6_ifaddr =
  ifaddr6_addr :: ipv6_addr
  ifaddr6_prefix :: int

datatype 'a parse6 = Outside | Reject | Accept 'a

definition put6 :: "ipv6_addr \<Rightarrow> nat \<Rightarrow> bytes \<Rightarrow> ipv6_addr option" where
  "put6 a i bs = (if i + length bs \<le> 16 \<and> length a = 16 then Some (take i a @ bs @ drop (i + length bs) a) else None)"

definition block_bytes :: "16 word \<Rightarrow> bytes" where
  "block_bytes block = [ucast (drop_bit 8 block), ucast (block AND 0xFF)]"

text \<open>The end at the label \<open>ipv4_done\<close>: the blocks behind the compression move to the end.\<close>

definition parse6_done :: "nat \<Rightarrow> int \<Rightarrow> ipv6_addr \<Rightarrow> ipv6_addr parse6" where
  "parse6_done num_blocks compress_pos out_addr =
     (if compress_pos = - 1 \<and> num_blocks \<noteq> 8 then Reject
      else let cp = (if compress_pos = - 1 then 0 else compress_pos);
               num_rear = int num_blocks - cp
           in if cp < 0 \<or> num_rear < 0 \<or> 8 - num_rear - cp < 0 then Outside
              else case put6 out_addr (nat (2 * (8 - num_rear)))
                          (take (nat (2 * num_rear)) (drop (nat (2 * cp)) out_addr)) of
                     None \<Rightarrow> Outside
                   | Some out1 \<Rightarrow>
                       (case put6 out1 (nat (2 * cp)) (replicate (nat (2 * (8 - num_rear - cp))) 0) of
                          None \<Rightarrow> Outside
                        | Some out2 \<Rightarrow> Accept out2))"

text \<open>A read of the string at an index; outside it there is no result.\<close>

definition read6 :: "MemRef \<Rightarrow> nat \<Rightarrow> char option" where
  "read6 name i = (if i < length name then Some (name ! i) else None)"

text \<open>The search for the start of an IPv4 ending, and the loop over it.\<close>

primrec parse6_v4_start :: "MemRef \<Rightarrow> nat \<Rightarrow> nat option" where
  "parse6_v4_start name 0 = None"
| "parse6_v4_start name (Suc j) =
     (case read6 name j of
        None \<Rightarrow> None
      | Some c \<Rightarrow> if c \<noteq> CHR '':'' then parse6_v4_start name j else Some (Suc j))"

function parse6_v4_loop ::
  "MemRef \<Rightarrow> nat \<Rightarrow> nat \<Rightarrow> 8 word \<Rightarrow> bool \<Rightarrow> bytes \<Rightarrow> (bytes \<times> nat \<times> 8 word \<times> bool) parse6" where
  "parse6_v4_loop name i cur_byte b nodigit bs =
     (if i < length name
      then case read6 name i of
             None \<Rightarrow> Outside
           | Some c \<Rightarrow>
               if c = CHR ''.''
               then if nodigit \<or> cur_byte = 3 then Reject
                    else if 4 \<le> cur_byte then Outside
                    else parse6_v4_loop name (i + 1) (cur_byte + 1) 0 True (bs[cur_byte := b])
               else if \<not> nodigit \<and> b = 0 then Reject
               else let digit = decode_decimal_digit c
                    in if digit < 0 then Reject
                       else if b > 255 div 10 then Reject
                       else if digit > 255 - uint (b * 10) then Reject
                       else parse6_v4_loop name (i + 1) cur_byte (b * 10 + word_of_int digit) False bs
      else Accept (bs, cur_byte, b, nodigit))"
  by pat_completeness auto
termination
  by (relation "measure (\<lambda>(name, i, _). length name - i)") auto

definition parse6_v4_ending :: "MemRef \<Rightarrow> nat \<Rightarrow> bool \<Rightarrow> nat \<Rightarrow> int \<Rightarrow> ipv6_addr \<Rightarrow> ipv6_addr parse6" where
  "parse6_v4_ending name i nodigit num_blocks compress_pos out_addr =
     (if nodigit \<or> num_blocks = 0 \<and> compress_pos = - 1 then Reject
      else case parse6_v4_start name i of
             None \<Rightarrow> Outside
           | Some start \<Rightarrow>
               (case parse6_v4_loop name start 0 0 True [0, 0, 0, 0] of
                  Outside \<Rightarrow> Outside
                | Reject \<Rightarrow> Reject
                | Accept (bs, cur_byte, b, nodigit') \<Rightarrow>
                    if cur_byte \<noteq> 3 \<or> nodigit' then Reject
                    else if 8 - int num_blocks < 2 then Reject
                    else case put6 out_addr (2 * num_blocks) (bs[cur_byte := b]) of
                           None \<Rightarrow> Outside
                         | Some out1 \<Rightarrow> parse6_done (num_blocks + 2) compress_pos out1))"

text \<open>The loop over the blocks, and what follows it.\<close>

function parse6_loop ::
  "MemRef \<Rightarrow> nat \<Rightarrow> 16 word \<Rightarrow> bool \<Rightarrow> nat \<Rightarrow> int \<Rightarrow> ipv6_addr \<Rightarrow> ipv6_addr parse6" where
  "parse6_loop name i block nodigit num_blocks compress_pos out_addr =
     (if i < length name
      then case read6 name i of
             None \<Rightarrow> Outside
           | Some c \<Rightarrow>
               if c = CHR ''.'' then parse6_v4_ending name i nodigit num_blocks compress_pos out_addr
               else if c = CHR '':''
               then (case (if i + 1 < length name then map_option (\<lambda>c1. c1 = CHR '':'') (read6 name (i + 1)) else Some False) of
                       None \<Rightarrow> Outside
                     | Some is_double \<Rightarrow>
                         let next_i = i + 1 + (if is_double then 1 else 0)
                         in if 0 < i
                            then if nodigit \<or> num_blocks = 7 then Reject
                                 else case put6 out_addr (2 * num_blocks) (block_bytes block) of
                                        None \<Rightarrow> Outside
                                      | Some out1 \<Rightarrow>
                                          if is_double \<and> compress_pos \<noteq> - 1 then Reject
                                          else parse6_loop name next_i 0 True (num_blocks + 1)
                                                 (if is_double then int (num_blocks + 1) else compress_pos) out1
                            else if \<not> is_double then Reject
                            else if compress_pos \<noteq> - 1 then Reject
                            else parse6_loop name next_i block nodigit num_blocks (int num_blocks) out_addr)
               else let digit = decode_hex_digit c
                    in if digit < 0 then Reject
                       else if block > 65535 div 16 then Reject
                       else if digit > 65535 - uint (block * 16) then Reject
                       else parse6_loop name (i + 1) (block * 16 + word_of_int digit) False
                              num_blocks compress_pos out_addr
      else if \<not> nodigit
      then case put6 out_addr (2 * num_blocks) (block_bytes block) of
             None \<Rightarrow> Outside
           | Some out1 \<Rightarrow> parse6_done (num_blocks + 1) compress_pos out1
      else if int num_blocks \<noteq> compress_pos then Reject
      else parse6_done num_blocks compress_pos out_addr)"
  by pat_completeness auto
termination
  by (relation "measure (\<lambda>(name, i, _). length name - i)") auto

text \<open>What the caller's \<open>struct\<close> holds before the call is an argument.\<close>

definition ipaddr6_parse_ipv6_addr :: "MemRef \<Rightarrow> ipv6_addr \<Rightarrow> ipv6_addr parse6" where
  "ipaddr6_parse_ipv6_addr name out_addr = parse6_loop name 0 0 True 0 (- 1) out_addr"

definition ipaddr6_parse_ipv6_prefix :: "MemRef \<Rightarrow> int option" where
  "ipaddr6_parse_ipv6_prefix str =
     (case parse_unsigned_integer str of
        None \<Rightarrow> None
      | Some d \<Rightarrow> if d > 128 then None else Some (uint d))"

definition ipaddr6_parse_ipv6_ifaddr :: "MemRef \<Rightarrow> ipv6_ifaddr \<Rightarrow> ipv6_ifaddr parse6" where
  "ipaddr6_parse_ipv6_ifaddr str out =
     (case MemRef_FindChar str (CHR ''/'') of
        None \<Rightarrow> Reject
      | Some slash_pos \<Rightarrow>
          (case ipaddr6_parse_ipv6_addr (MemRef_SubTo str slash_pos) (ifaddr6_addr out) of
             Outside \<Rightarrow> Outside
           | Reject \<Rightarrow> Reject
           | Accept addr \<Rightarrow>
               (case ipaddr6_parse_ipv6_prefix (MemRef_SubFrom str (slash_pos + 1)) of
                  None \<Rightarrow> Reject
                | Some prefix \<Rightarrow> Accept \<lparr>ifaddr6_addr = addr, ifaddr6_prefix = prefix\<rparr>)))"

definition rem_bits :: "nat \<Rightarrow> 8 word \<Rightarrow> 8 word" where
  "rem_bits rem = fold (\<lambda>i t. t OR push_bit (8 - i - 1) 1) [0..<rem]"

definition ipaddr6_ipv6_mask_from_prefix :: "int \<Rightarrow> ipv6_addr" where
  "ipaddr6_ipv6_mask_from_prefix prefix =
     (let quot = nat (prefix div 8); rem = nat (prefix mod 8);
          m = replicate quot 255 @ replicate (16 - quot) 0
      in if 0 < rem then m[quot := rem_bits rem (m ! quot)] else m)"

function find_rem :: "8 word \<Rightarrow> nat \<Rightarrow> 8 word \<Rightarrow> nat option" where
  "find_rem b j t =
     (if j \<le> 8
      then if b = t then Some j
           else find_rem b (j + 1) (if j < 8 then t OR push_bit (8 - j - 1) 1 else t)
      else None)"
  by pat_completeness auto
termination
  by (relation "measure (\<lambda>(b, j, t). 9 - j)") auto

definition ipaddr6_ipv6_prefix_from_mask :: "ipv6_addr \<Rightarrow> int option" where
  "ipaddr6_ipv6_prefix_from_mask bs =
     (let i = length (takeWhile (\<lambda>b. b = 255) bs); prefix = 8 * int i
      in if i < 16
         then case find_rem (bs ! i) 0 0 of
                None \<Rightarrow> None
              | Some j \<Rightarrow> if list_all (\<lambda>b. b = 0) (drop (i + 1) bs) then Some (prefix + int j) else None
         else Some prefix)"

definition ipaddr6_ipv6_ifaddr_from_addr_mask :: "ipv6_addr \<Rightarrow> ipv6_addr \<Rightarrow> ipv6_ifaddr option" where
  "ipaddr6_ipv6_ifaddr_from_addr_mask addr bs =
     (case ipaddr6_ipv6_prefix_from_mask bs of
        None \<Rightarrow> None
      | Some prefix \<Rightarrow> Some \<lparr>ifaddr6_addr = addr, ifaddr6_prefix = prefix\<rparr>)"

definition ipaddr6_ipv6_addrs_in_network :: "ipv6_addr \<Rightarrow> ipv6_addr \<Rightarrow> int \<Rightarrow> bool" where
  "ipaddr6_ipv6_addrs_in_network addr1 addr2 netprefix =
     (let quot = nat (netprefix div 8); rem = nat (netprefix mod 8)
      in if take quot addr1 \<noteq> take quot addr2 then False
         else if rem = 0 then True
         else addr1 ! quot AND rem_bits rem 0 = addr2 ! quot AND rem_bits rem 0)"

text \<open>What \<open>sprintf\<close> prints for the format \<open>%x\<close>.\<close>

fun hex_str :: "nat \<Rightarrow> string" where
  "hex_str n = (if n < 16 then [''0123456789abcdef'' ! n]
     else hex_str (n div 16) @ [''0123456789abcdef'' ! (n mod 16)])"

definition IPADDR6_PRINT_MAX :: nat where "IPADDR6_PRINT_MAX = 44"

definition addr_block :: "ipv6_addr \<Rightarrow> nat \<Rightarrow> 16 word" where
  "addr_block addr i = push_bit 8 (ucast (addr ! (2 * i))) OR ucast (addr ! (2 * i + 1))"

text \<open>The search for the longest run of zero blocks: its start and length, and those of the
  run that ends at the current block.\<close>

definition zero_run_step :: "ipv6_addr \<Rightarrow> nat \<Rightarrow> nat \<times> nat \<times> nat \<times> nat \<Rightarrow> nat \<times> nat \<times> nat \<times> nat" where
  "zero_run_step addr i = (\<lambda>(largest_start, largest_len, current_start, current_len).
     if addr ! (2 * i) = 0 \<and> addr ! (2 * i + 1) = 0
     then if current_len + 1 > largest_len
          then (current_start, current_len + 1, current_start, current_len + 1)
          else (largest_start, largest_len, current_start, current_len + 1)
     else (largest_start, largest_len, i + 1, 0))"

definition ipaddr6_print_addr :: "ipv6_addr \<Rightarrow> string" where
  "ipaddr6_print_addr addr =
     (let (largest_start, largest_len, _, _) = fold (zero_run_step addr) [0..<8] (0, 0, 0, 0);
          hex = (\<lambda>i. hex_str (unat (addr_block addr i)))
      in if 1 < largest_len
         then concat (map (\<lambda>i. hex i @ '':'') [0..<largest_start]) @
              (if largest_start = 0 then '':'' else '''') @
              concat (map (\<lambda>i. '':'' @ hex i) [largest_start + largest_len..<8]) @
              (if largest_start + largest_len = 8 then '':'' else '''')
         else concat (map (\<lambda>i. (if i = 0 then '''' else '':'') @ hex i) [0..<8]))"

definition ipaddr6_print_ifaddr :: "ipv6_ifaddr \<Rightarrow> string" where
  "ipaddr6_print_ifaddr addr =
     ipaddr6_print_addr (ifaddr6_addr addr) @ ''/'' @ dec_str (nat (ifaddr6_prefix addr))"

declare parse6_loop.simps [simp del] parse6_v4_loop.simps [simp del] find_rem.simps [simp del] hex_str.simps [simp del]

section \<open>The parser stays within the string and the address\<close>

lemma put6_some: "length a = 16 \<Longrightarrow> i + length bs \<le> 16 \<Longrightarrow>
    put6 a i bs = Some (take i a @ bs @ drop (i + length bs) a)"
  by (simp add: put6_def)

lemma put6_length: "put6 a i bs = Some b \<Longrightarrow> length b = 16"
  by (auto simp: put6_def split: if_splits)

lemma length_block_bytes [simp]: "length (block_bytes b) = 2"
  by (simp add: block_bytes_def)

definition safe6 :: "ipv6_addr parse6 \<Rightarrow> bool" where
  "safe6 r = (case r of Outside \<Rightarrow> False | Reject \<Rightarrow> True | Accept a \<Rightarrow> length a = 16)"

lemma safe6_simps [simp]: "safe6 Reject" "\<not> safe6 Outside" "safe6 (Accept a) = (length a = 16)"
  by (simp_all add: safe6_def)

lemma parse6_done_Accept:
  assumes "length a = 16" and "nb \<le> 8" and "cp = (if compress_pos = - 1 then 0 else nat compress_pos)"
    and "cp \<le> nb" and "- 1 \<le> compress_pos" and "compress_pos = - 1 \<Longrightarrow> nb = 8"
  shows "parse6_done nb compress_pos a =
    Accept (take (2 * cp) a @ replicate (2 * (8 - nb)) 0 @ take (2 * (nb - cp)) (drop (2 * cp) a))"
proof -
  let ?rear = "take (2 * (nb - cp)) (drop (2 * cp) a)"
  let ?to = "2 * (8 - (nb - cp))"
  have n: "nat (2 * (8 - (int nb - int cp))) = ?to" "nat (2 * (int nb - int cp)) = 2 * (nb - cp)"
    "nat (2 * int cp) = 2 * cp" "nat (2 * (8 - (int nb - int cp) - int cp)) = 2 * (8 - nb)"
    using assms by auto
  have len: "length ?rear = 2 * (nb - cp)" and fill: "2 * cp + 2 * (8 - nb) = ?to" and tot: "?to + 2 * (nb - cp) = 16"
    using assms by auto
  have one: "put6 a ?to ?rear = Some (take ?to a @ ?rear)"
    by (simp only: put6_def len tot assms(1)) (simp add: assms(1))
  have two: "put6 (take ?to a @ ?rear) (2 * cp) (replicate (2 * (8 - nb)) 0) =
      Some (take (2 * cp) a @ replicate (2 * (8 - nb)) 0 @ ?rear)"
    using assms(1) len fill tot by (auto simp: put6_def min_def)
  have cp: "(if compress_pos = - 1 then 0 else compress_pos) = int cp" using assms by auto
  show ?thesis
    unfolding parse6_done_def cp Let_def n using assms one two by auto
qed

lemma parse6_done_safe:
  assumes "length a = 16" and "nb \<le> 8" and "- 1 \<le> cp" and "cp \<le> int nb"
  shows "safe6 (parse6_done nb cp a)"
proof (cases "cp = - 1 \<and> nb \<noteq> 8")
  case False
  with assms have "parse6_done nb cp a = Accept (take (2 * (if cp = - 1 then 0 else nat cp)) a @
      replicate (2 * (8 - nb)) 0 @
      take (2 * (nb - (if cp = - 1 then 0 else nat cp))) (drop (2 * (if cp = - 1 then 0 else nat cp)) a))"
    by (intro parse6_done_Accept) (auto split: if_splits)
  moreover have "(if cp = - 1 then 0 else nat cp) \<le> nb" using assms by auto
  ultimately show ?thesis using assms by simp
qed (simp add: parse6_done_def)

definition safe4 :: "(bytes \<times> nat \<times> 8 word \<times> bool) parse6 \<Rightarrow> bool" where
  "safe4 r = (case r of Outside \<Rightarrow> False | Reject \<Rightarrow> True | Accept (bs, _) \<Rightarrow> length bs = 4)"

lemma v4_loop_safe: "cb \<le> 3 \<Longrightarrow> length bs = 4 \<Longrightarrow> safe4 (parse6_v4_loop name i cb b e bs)"
proof (induction "length name - i" arbitrary: i cb b e bs rule: less_induct)
  case less
  have "safe4 Reject" by (simp add: safe4_def)
  with less show ?case
    by (subst parse6_v4_loop.simps) (auto simp: Let_def read6_def safe4_def [of "Accept _"])
qed

lemma v4_start_found:
  "i \<le> length name \<Longrightarrow> CHR '':'' \<in> set (take i name) \<Longrightarrow> \<exists>j. parse6_v4_start name i = Some j"
  by (induction i) (auto simp: take_Suc_conv_app_nth read6_def)

lemma v4_ending_safe:
  assumes "length a = 16" and "- 1 \<le> cp" and "cp \<le> int nb" and "i \<le> length name"
    and "0 < nb \<or> cp \<noteq> - 1 \<Longrightarrow> CHR '':'' \<in> set (take i name)"
  shows "safe6 (parse6_v4_ending name i e nb cp a)"
proof (cases "e \<or> nb = 0 \<and> cp = - 1")
  case False
  with assms obtain j where j: "parse6_v4_start name i = Some j" using v4_start_found [of i name] by auto
  note loop = v4_loop_safe [of 0 "[0, 0, 0, 0]" name j 0 True]
  have "safe6 (case put6 a (2 * nb) (bs[3 := b]) of None \<Rightarrow> Outside | Some out1 \<Rightarrow> parse6_done (nb + 2) cp out1)"
    if "length bs = 4" "\<not> 8 - int nb < 2" for bs b
    using that assms by (auto simp: put6_some intro!: parse6_done_safe)
  with loop False j show ?thesis
    by (auto simp: parse6_v4_ending_def safe4_def split: parse6.splits)
qed (simp add: parse6_v4_ending_def)

text \<open>As every read is within the string, the loop is what it is without the test.\<close>

lemma read6_within [simp]: "i < length name \<Longrightarrow> read6 name i = Some (name ! i)"
  by (simp add: read6_def)

lemma parse6_loop_eq:
  "parse6_loop name i block nodigit num_blocks compress_pos out_addr =
     (if i < length name
      then if name ! i = CHR ''.'' then parse6_v4_ending name i nodigit num_blocks compress_pos out_addr
           else if name ! i = CHR '':''
           then let is_double = (i + 1 < length name \<and> name ! (i + 1) = CHR '':'');
                    next_i = i + 1 + (if is_double then 1 else 0)
                in if 0 < i
                   then if nodigit \<or> num_blocks = 7 then Reject
                        else case put6 out_addr (2 * num_blocks) (block_bytes block) of
                               None \<Rightarrow> Outside
                             | Some out1 \<Rightarrow>
                                 if is_double \<and> compress_pos \<noteq> - 1 then Reject
                                 else parse6_loop name next_i 0 True (num_blocks + 1)
                                        (if is_double then int (num_blocks + 1) else compress_pos) out1
                   else if \<not> is_double then Reject
                   else if compress_pos \<noteq> - 1 then Reject
                   else parse6_loop name next_i block nodigit num_blocks (int num_blocks) out_addr
           else let digit = decode_hex_digit (name ! i)
                in if digit < 0 then Reject
                   else if block > 65535 div 16 then Reject
                   else if digit > 65535 - uint (block * 16) then Reject
                   else parse6_loop name (i + 1) (block * 16 + word_of_int digit) False
                          num_blocks compress_pos out_addr
      else if \<not> nodigit
      then case put6 out_addr (2 * num_blocks) (block_bytes block) of
             None \<Rightarrow> Outside
           | Some out1 \<Rightarrow> parse6_done (num_blocks + 1) compress_pos out1
      else if int num_blocks \<noteq> compress_pos then Reject
      else parse6_done num_blocks compress_pos out_addr)"
proof -
  have "(if i + 1 < length name then map_option (\<lambda>c1. c1 = CHR '':'') (read6 name (i + 1)) else Some False) =
      Some (i + 1 < length name \<and> name ! (i + 1) = CHR '':'')"
    by simp
  moreover have "(if i < length name then case read6 name i of None \<Rightarrow> x | Some c \<Rightarrow> f c else y) =
      (if i < length name then f (name ! i) else y)" for x f and y :: "ipv6_addr parse6"
    by simp
  ultimately show ?thesis
    by (subst parse6_loop.simps) (simp only: option.case Let_def)
qed

lemma parse6_loop_safe:
  assumes "i \<le> length name" and "nb \<le> 7" and "length a = 16" and "- 1 \<le> cp" and "cp \<le> int nb"
    and "0 < nb \<or> cp \<noteq> - 1 \<Longrightarrow> CHR '':'' \<in> set (take i name)" and "0 < i \<Longrightarrow> nb = 0 \<Longrightarrow> cp \<noteq> - 1 \<or> \<not> e"
  shows "safe6 (parse6_loop name i block e nb cp a)"
  using assms
proof (induction "length name - i" arbitrary: i block e nb cp a rule: less_induct)
  case less
  have colon: "CHR '':'' \<in> set (take k name)" if "name ! i = CHR '':''" "i < k" "k \<le> length name" for k
  proof -
    have "take k name ! i = CHR '':''" and "i < length (take k name)" using that by simp_all
    then show ?thesis by (metis nth_mem)
  qed
  let ?dbl = "i + 1 < length name \<and> name ! (i + 1) = CHR '':''"
  let ?a = "take (2 * nb) a @ block_bytes block @ drop (2 * nb + 2) a"
  have put: "put6 a (2 * nb) (block_bytes block) = Some ?a" and len: "length ?a = 16"
    using less.prems by (simp_all add: put6_some)
  consider (dot) "i < length name" "name ! i = CHR ''.''" | (col) "i < length name" "name ! i = CHR '':''" "0 < i"
    | (first) "i < length name" "name ! i = CHR '':''" "i = 0"
    | (digit) "i < length name" "name ! i \<noteq> CHR ''.''" "name ! i \<noteq> CHR '':''" | (stop) "length name \<le> i"
    by fastforce
  then show ?case
  proof cases
    case dot
    with less.prems v4_ending_safe [of a cp nb i name e] show ?thesis by (simp add: parse6_loop_eq [of name i])
  next
    case col
    show ?thesis
    proof (cases "e \<or> nb = 7 \<or> ?dbl \<and> cp \<noteq> - 1")
      case True
      with col put show ?thesis by (auto simp: parse6_loop_eq [of name i] Let_def)
    next
      case False
      have "safe6 (parse6_loop name (i + 1 + (if ?dbl then 1 else 0)) 0 True (nb + 1)
          (if ?dbl then int (nb + 1) else cp) ?a)"
        using False col put
        by (intro less.hyps) (use False col put less.prems len colon [of "i + 1"] colon [of "i + 2"] in auto)
      with False col put show ?thesis by (simp add: parse6_loop_eq [of name i] Let_def)
    qed
  next
    case first
    show ?thesis
    proof (cases "?dbl \<and> cp = - 1")
      case True
      have "safe6 (parse6_loop name (i + 1 + (if ?dbl then 1 else 0)) block e nb (int nb) a)"
        using True first by (intro less.hyps) (use True first less.prems colon [of "i + 2"] in auto)
      with True first show ?thesis by (subst parse6_loop_eq) (simp add: Let_def)
    next
      case False
      with first show ?thesis by (subst parse6_loop_eq) (auto simp: Let_def)
    qed
  next
    case digit
    let ?d = "decode_hex_digit (name ! i)"
    show ?thesis
    proof (cases "?d < 0 \<or> block > 65535 div 16 \<or> ?d > 65535 - uint (block * 16)")
      case True
      with digit show ?thesis by (auto simp: parse6_loop_eq [of name i] Let_def)
    next
      case False
      have "set (take i name) \<subseteq> set (take (i + 1) name)" by (intro set_take_subset_set_take) simp
      then have "safe6 (parse6_loop name (i + 1) (block * 16 + word_of_int ?d) False nb cp a)"
        using False digit less.prems by (intro less.hyps) auto
      with False digit show ?thesis by (simp add: parse6_loop_eq [of name i] Let_def)
    qed
  next
    case stop
    with put len less.prems parse6_done_safe [of ?a "nb + 1" cp] parse6_done_safe [of a nb cp] show ?thesis
      by (subst parse6_loop_eq) auto
  qed
qed

section \<open>Masks\<close>

lemma rem_bits_Suc: "rem_bits (Suc k) t = rem_bits k t OR push_bit (8 - k - 1) 1"
  by (simp add: rem_bits_def)

lemma bit_rem_bits: "k \<le> 8 \<Longrightarrow> bit (rem_bits k t) n \<longleftrightarrow> bit t n \<or> 8 - k \<le> n \<and> n < 8"
proof (induction k)
  case (Suc k)
  then show ?case by (auto simp: rem_bits_Suc bit_or_iff bit_exp_iff)
qed (auto simp: rem_bits_def)

lemma rem_bits_inj:
  assumes "k \<le> 8" and "l \<le> 8" and "rem_bits k 0 = rem_bits l 0"
  shows "k = l"
proof -
  have "k \<le> l" if "rem_bits k 0 = rem_bits l 0" "k \<le> 8" "l \<le> 8" for k l
  proof (cases k)
    case (Suc k')
    then have "bit (rem_bits l 0) (8 - k)" using that bit_rem_bits [of k 0 "8 - k"] by simp
    with that show ?thesis by (auto simp: bit_rem_bits)
  qed simp
  with assms show ?thesis by (metis antisym)
qed

lemma find_rem_step:
  "j \<le> 8 \<Longrightarrow> find_rem b j (rem_bits j 0) =
     (if b = rem_bits j 0 then Some j else if j < 8 then find_rem b (Suc j) (rem_bits (Suc j) 0) else None)"
  by (simp add: find_rem.simps [of b j] rem_bits_Suc) (simp add: find_rem.simps)

lemma find_rem_spec:
  "j \<le> 8 \<Longrightarrow> find_rem b j (rem_bits j 0) = Some k \<longleftrightarrow> j \<le> k \<and> k \<le> 8 \<and> b = rem_bits k 0"
proof (induction "8 - j" arbitrary: j)
  case 0
  then have "j = 8" by simp
  then show ?case by (subst find_rem_step) auto
next
  case (Suc d)
  then have "j < 8" "d = 8 - Suc j" by simp_all
  with Suc.hyps(1) [of "Suc j"] have step: "find_rem b (Suc j) (rem_bits (Suc j) 0) = Some k \<longleftrightarrow>
      Suc j \<le> k \<and> k \<le> 8 \<and> b = rem_bits k 0" by simp
  show ?case
  proof (cases "b = rem_bits j 0")
    case True
    with \<open>j < 8\<close> rem_bits_inj [of j k] show ?thesis by (auto simp: find_rem_step)
  next
    case False
    have "j \<le> k \<longleftrightarrow> Suc j \<le> k" if "b = rem_bits k 0" using that False by (cases "j = k") auto
    with False \<open>j < 8\<close> step show ?thesis by (auto simp: find_rem_step)
  qed
qed

lemma find_rem_0: "find_rem b 0 0 = Some k \<longleftrightarrow> k \<le> 8 \<and> b = rem_bits k 0"
  using find_rem_spec [of 0 b k] by (simp add: rem_bits_def)

definition prefix_mask6 :: "nat \<Rightarrow> ipv6_addr" where
  "prefix_mask6 p = map (\<lambda>i. rem_bits (min 8 (p - 8 * i)) 0) [0..<16]"

lemma rem_bits_0_8: "rem_bits 0 0 = 0" "rem_bits 8 0 = 255"
  by code_simp+

lemma mask_bits: "min 8 (p - 8 * i) = (if i < p div 8 then 8 else if i = p div 8 then p mod 8 else (0::nat))"
proof -
  have "p = 8 * (p div 8) + p mod 8" by simp
  then obtain q r where "p = 8 * q + r" "r < 8" "p div 8 = q" "p mod 8 = r" by (metis mod_less_divisor zero_less_numeral)
  then show ?thesis by auto
qed

lemma mask6_of_prefix:
  assumes "p \<le> 128"
  shows "ipaddr6_ipv6_mask_from_prefix (int p) = prefix_mask6 p"
proof (rule nth_equalityI)
  let ?quot = "p div 8" and ?rem = "p mod 8"
  have q: "nat (int p div 8) = ?quot" "nat (int p mod 8) = ?rem" by (simp_all add: nat_div_distrib nat_mod_distrib)
  have le: "?quot \<le> 16" using assms by simp
  have lt: "?quot < 16" if "0 < ?rem" using that assms by (cases "p = 128") auto
  show "length (ipaddr6_ipv6_mask_from_prefix (int p)) = length (prefix_mask6 p)"
    using le by (simp add: ipaddr6_ipv6_mask_from_prefix_def prefix_mask6_def q Let_def)
  fix i assume "i < length (ipaddr6_ipv6_mask_from_prefix (int p))"
  then have i: "i < 16" using le by (simp add: ipaddr6_ipv6_mask_from_prefix_def q Let_def split: if_splits)
  have low: "min 8 (p - 8 * i) = (if i < ?quot then 8 else if i = ?quot then ?rem else 0)"
    by (rule mask_bits)
  show "ipaddr6_ipv6_mask_from_prefix (int p) ! i = prefix_mask6 p ! i"
    using i le lt
    by (auto simp: ipaddr6_ipv6_mask_from_prefix_def prefix_mask6_def q Let_def low nth_append rem_bits_0_8 nth_list_update)
qed

lemma takeWhile_ones:
  assumes "length m = 16" and "q < 16" and "m ! q \<noteq> 255" and "\<And>i. i < q \<Longrightarrow> m ! i = (255 :: byte)"
  shows "length (takeWhile (\<lambda>b. b = 255) m) = q"
proof -
  have "m = take q m @ m ! q # drop (Suc q) m" using assms by (simp add: id_take_nth_drop)
  moreover have "takeWhile (\<lambda>b. b = 255) (take q m @ m ! q # drop (Suc q) m) = take q m"
    using assms by (subst takeWhile_append2) (auto simp: in_set_conv_nth)
  ultimately show ?thesis using assms by (metis length_take min.absorb4)
qed

lemma prefix_mask6_128: "length m = 16 \<Longrightarrow> m = prefix_mask6 128 \<longleftrightarrow> (\<forall>i<16. m ! i = 255)"
  by (auto simp: list_eq_iff_nth_eq prefix_mask6_def rem_bits_0_8)

lemma prefix_mask6_iff:
  assumes "length m = 16" and "i < 16" and "k < 8"
  shows "m = prefix_mask6 (8 * i + k) \<longleftrightarrow>
    (\<forall>n<i. m ! n = 255) \<and> m ! i = rem_bits k 0 \<and> list_all (\<lambda>b. b = 0) (drop (i + 1) m)"
proof -
  have low: "min 8 (8 * i + k - 8 * n) = (if n < i then 8 else if n = i then k else 0)" for n
    using \<open>k < 8\<close> by auto
  have "m = prefix_mask6 (8 * i + k) \<longleftrightarrow>
      (\<forall>n<16. m ! n = (if n < i then 255 else if n = i then rem_bits k 0 else 0))"
    using assms(1) by (auto simp: list_eq_iff_nth_eq prefix_mask6_def rem_bits_0_8 low)
  moreover have "list_all (\<lambda>b. b = 0) (drop (i + 1) m) \<longleftrightarrow> (\<forall>n. i < n \<and> n < 16 \<longrightarrow> m ! n = 0)"
  proof -
    have "(\<forall>n < 15 - i. m ! (i + 1 + n) = 0) \<longleftrightarrow> (\<forall>n. i < n \<and> n < 16 \<longrightarrow> m ! n = 0)"
    proof (safe, goal_cases)
      case (1 n)
      then have "n - Suc i < 15 - i" "i + 1 + (n - Suc i) = n" by simp_all
      with 1(1) show ?case by metis
    qed simp
    with assms(1) show ?thesis by (simp add: list_all_length)
  qed
  ultimately have eq: "m = prefix_mask6 (8 * i + k) \<longleftrightarrow>
      (\<forall>n<16. m ! n = (if n < i then 255 else if n = i then rem_bits k 0 else 0))"
    "list_all (\<lambda>b. b = 0) (drop (i + 1) m) \<longleftrightarrow> (\<forall>n. i < n \<and> n < 16 \<longrightarrow> m ! n = 0)" by blast+
  show ?thesis
  proof
    assume "m = prefix_mask6 (8 * i + k)"
    with eq assms(2) show "(\<forall>n<i. m ! n = 255) \<and> m ! i = rem_bits k 0 \<and> list_all (\<lambda>b. b = 0) (drop (i + 1) m)"
      by simp
  next
    assume r: "(\<forall>n<i. m ! n = 255) \<and> m ! i = rem_bits k 0 \<and> list_all (\<lambda>b. b = 0) (drop (i + 1) m)"
    show "m = prefix_mask6 (8 * i + k)" unfolding eq(1)
    proof (intro allI impI)
      fix n :: nat assume "n < 16"
      with r eq(2) show "m ! n = (if n < i then 255 else if n = i then rem_bits k 0 else 0)"
        by (cases n i rule: linorder_cases) simp_all
    qed
  qed
qed

lemma prefix_of_mask6:
  assumes len: "length m = 16"
  shows "ipaddr6_ipv6_prefix_from_mask m = Some p \<longleftrightarrow> 0 \<le> p \<and> p \<le> 128 \<and> m = prefix_mask6 (nat p)"
proof (cases "\<forall>i<16. m ! i = 255")
  case True
  then have "length (takeWhile (\<lambda>b. b = 255) m) = 16"
    using len by (metis (mono_tags, lifting) in_set_conv_nth takeWhile_eq_all_conv)
  then have left: "ipaddr6_ipv6_prefix_from_mask m = Some 128"
    by (simp add: ipaddr6_ipv6_prefix_from_mask_def)
  have "p = 128" if "0 \<le> p" "p \<le> 128" "m = prefix_mask6 (nat p)"
  proof (rule ccontr)
    assume "p \<noteq> 128"
    with that have "nat p div 8 < 16" by auto
    moreover from this True have "m ! (nat p div 8) = 255" by blast
    with \<open>nat p div 8 < 16\<close> that(3) have "rem_bits (nat p mod 8) 0 = rem_bits 8 0"
      by (simp add: prefix_mask6_def mask_bits rem_bits_0_8)
    moreover have "nat p mod 8 < 8" by simp
    ultimately show False using rem_bits_inj [of "nat p mod 8" 8] by simp
  qed
  then have "0 \<le> p \<and> p \<le> 128 \<and> m = prefix_mask6 (nat p) \<longleftrightarrow> p = 128"
    using True prefix_mask6_128 [OF len] by fastforce
  with left show ?thesis by (metis option.inject)
next
  case False
  then obtain i where least: "i < 16 \<and> m ! i \<noteq> 255" "\<And>n. n < i \<Longrightarrow> \<not> (n < 16 \<and> m ! n \<noteq> 255)"
    using exists_least_iff [of "\<lambda>n. n < 16 \<and> m ! n \<noteq> 255"] by blast
  have i: "i < 16" "m ! i \<noteq> 255" "\<And>n. n < i \<Longrightarrow> m ! n = 255"
    using least less_trans by auto
  note tw = takeWhile_ones [OF len i]
  have no8: "k < 8" if "k \<le> 8" "m ! i = rem_bits k 0" for k
    using that i(2) rem_bits_0_8 by (cases "k = 8") auto
  have left: "ipaddr6_ipv6_prefix_from_mask m = Some p \<longleftrightarrow>
      (\<exists>k<8. p = 8 * int i + int k \<and> m ! i = rem_bits k 0 \<and> list_all (\<lambda>b. b = 0) (drop (i + 1) m))"
  proof (cases "find_rem (m ! i) 0 0")
    case None
    then have "\<not> (k < 8 \<and> m ! i = rem_bits k 0)" for k using find_rem_0 [of "m ! i" k] by simp
    with None i(1) show ?thesis by (auto simp: ipaddr6_ipv6_prefix_from_mask_def tw)
  next
    case (Some j)
    then have j: "m ! i = rem_bits k 0 \<and> k < 8 \<longleftrightarrow> k = j" for k
      using find_rem_0 [of "m ! i" k] find_rem_0 [of "m ! i" j] no8 by auto
    have "ipaddr6_ipv6_prefix_from_mask m = Some p \<longleftrightarrow>
        p = 8 * int i + int j \<and> list_all (\<lambda>b. b = 0) (drop (i + 1) m)"
      using Some i(1) by (auto simp: ipaddr6_ipv6_prefix_from_mask_def tw)
    moreover have "m ! i = rem_bits j 0 \<and> j < 8" using j by simp
    ultimately show ?thesis using j by metis
  qed
  have right: "nat p = 8 * i + k" if "0 \<le> p" "m = prefix_mask6 (nat p)" "p \<le> 128" "k = nat p mod 8" for k
  proof -
    have "nat p \<noteq> 128" using that False prefix_mask6_128 [OF len] by auto
    then have lt: "nat p div 8 < 16" using that by auto
    have "m ! (nat p div 8) \<noteq> 255" using lt that rem_bits_inj [of "nat p mod 8" 8]
      by (auto simp: prefix_mask6_def mask_bits rem_bits_0_8)
    moreover have "m ! n = 255" if "n < nat p div 8" for n
      using that lt \<open>m = prefix_mask6 (nat p)\<close> by (simp add: prefix_mask6_def mask_bits rem_bits_0_8)
    ultimately have "nat p div 8 = i" using takeWhile_ones [OF len lt] tw by simp
    with that show ?thesis by (metis mult_div_mod_eq)
  qed
  show ?thesis
  proof
    assume "ipaddr6_ipv6_prefix_from_mask m = Some p"
    with left obtain k where "k < 8" "p = 8 * int i + int k" "m ! i = rem_bits k 0"
      "list_all (\<lambda>b. b = 0) (drop (i + 1) m)" by blast
    with prefix_mask6_iff [OF len i(1), of k] i show "0 \<le> p \<and> p \<le> 128 \<and> m = prefix_mask6 (nat p)"
      by (simp add: nat_add_distrib nat_mult_distrib)
  next
    assume "0 \<le> p \<and> p \<le> 128 \<and> m = prefix_mask6 (nat p)"
    with right [of "nat p mod 8"] prefix_mask6_iff [OF len i(1), of "nat p mod 8"]
    show "ipaddr6_ipv6_prefix_from_mask m = Some p"
      unfolding left by (intro exI [of _ "nat p mod 8"]) auto
  qed
qed

text \<open>IPv6 masks and prefix lengths correspond: a mask of sixteen bytes has the prefix
  length \<open>p\<close> exactly if \<open>p\<close> is between 0 and 128 and the mask is the one of \<open>p\<close>.\<close>

theorem ipv6_masks_are_prefixes:
  assumes "length m = 16"
  shows "ipaddr6_ipv6_prefix_from_mask m = Some p \<longleftrightarrow>
    0 \<le> p \<and> p \<le> 128 \<and> m = ipaddr6_ipv6_mask_from_prefix p"
proof (cases "0 \<le> p \<and> p \<le> 128")
  case True
  then have "nat p \<le> 128" by (simp add: nat_le_iff)
  with True prefix_of_mask6 [OF assms, of p] mask6_of_prefix [of "nat p"] show ?thesis by simp
qed (use prefix_of_mask6 [OF assms, of p] in auto)

theorem ipv6_masks_are_prefixes_witness:
  "ipaddr6_ipv6_prefix_from_mask [255, 255, 255, 254, 0, 0, 0, 0, 0, 0, 0, 0, 0, 0, 0, 0] = Some 31"
proof -
  have "[255, 255, 255, 254, 0, 0, 0, 0, 0, 0, 0, 0, 0, 0, 0, 0] = ipaddr6_ipv6_mask_from_prefix 31" by code_simp
  moreover have "length [255, 255, 255, 254, 0, 0, 0, 0, 0, 0, 0, 0, 0, 0, 0, 0 :: byte] = 16" by simp
  ultimately show ?thesis using ipv6_masks_are_prefixes [of _ 31] by fastforce
qed

text \<open>C37: for any string whatever, and any contents of the structures to be filled, the parser of IPv6
  addresses, called alone or for an address with a prefix, reads only within the string and writes
  only within the sixteen bytes, at every single access; what is accepted is a full address and a prefix of
  at most 128.\<close>

theorem ipv6_parser_is_safe:
  assumes "length a = 16"
  shows "ipaddr6_parse_ipv6_addr s a \<noteq> Outside \<and>
    (\<forall>b. ipaddr6_parse_ipv6_addr s a = Accept b \<longrightarrow> length b = 16) \<and>
    ipaddr6_parse_ipv6_ifaddr s \<lparr>ifaddr6_addr = a, ifaddr6_prefix = n\<rparr> \<noteq> Outside \<and>
    (\<forall>i. ipaddr6_parse_ipv6_ifaddr s \<lparr>ifaddr6_addr = a, ifaddr6_prefix = n\<rparr> = Accept i \<longrightarrow>
      length (ifaddr6_addr i) = 16 \<and> 0 \<le> ifaddr6_prefix i \<and> ifaddr6_prefix i \<le> 128)"
proof -
  have safe: "safe6 (ipaddr6_parse_ipv6_addr t a)" for t
    unfolding ipaddr6_parse_ipv6_addr_def using assms by (intro parse6_loop_safe) auto
  have prefix: "0 \<le> p \<and> p \<le> 128" if "ipaddr6_parse_ipv6_prefix t = Some p" for t p
    using that by (auto simp: ipaddr6_parse_ipv6_prefix_def word_less_def split: option.splits if_splits)
  have "safe6 (case ipaddr6_parse_ipv6_ifaddr s \<lparr>ifaddr6_addr = a, ifaddr6_prefix = n\<rparr> of
      Outside \<Rightarrow> Outside | Reject \<Rightarrow> Reject | Accept i \<Rightarrow>
        if 0 \<le> ifaddr6_prefix i \<and> ifaddr6_prefix i \<le> 128 then Accept (ifaddr6_addr i) else Outside)"
    using safe prefix unfolding ipaddr6_parse_ipv6_ifaddr_def safe6_def
    by (fastforce split: option.splits parse6.splits)
  with safe [of s] show ?thesis by (auto simp: safe6_def split: parse6.splits if_splits)
qed

theorem ipv6_parser_is_safe_witness:
  "ipaddr6_parse_ipv6_addr ''1:2:3:4:5:6:7:8:9'' (replicate 16 7) = Reject \<and>
   ipaddr6_parse_ipv6_addr ''::ffff:10.0.0.1'' (replicate 16 7) =
     Accept [0, 0, 0, 0, 0, 0, 0, 0, 0, 0, 255, 255, 10, 0, 0, 1] \<and>
   ipaddr6_parse_ipv6_addr ''.'' (replicate 16 7) \<noteq> Outside"
proof (intro conjI)
  show "ipaddr6_parse_ipv6_addr ''.'' (replicate 16 7) \<noteq> Outside"
    using ipv6_parser_is_safe [of "replicate 16 7" "''.''" 0] by simp
qed code_simp+

section \<open>Printing and parsing\<close>

lemma hexadecimal_append: "hexadecimal (s @ t) n = hexadecimal t (hexadecimal s n)"
  by (induction s arbitrary: n) auto

lemma hex_digit: "k < 16 \<Longrightarrow> decode_hex_digit (''0123456789abcdef'' ! k) = int k \<and>
    ''0123456789abcdef'' ! k \<noteq> CHR '':'' \<and> ''0123456789abcdef'' ! k \<noteq> CHR ''.'' \<and> ''0123456789abcdef'' ! k \<noteq> CHR ''/''"
proof -
  have "list_all (\<lambda>k. decode_hex_digit (''0123456789abcdef'' ! k) = int k \<and>
    ''0123456789abcdef'' ! k \<noteq> CHR '':'' \<and> ''0123456789abcdef'' ! k \<noteq> CHR ''.'' \<and>
    ''0123456789abcdef'' ! k \<noteq> CHR ''/'') [0..<16]" by code_simp
  then show "k < 16 \<Longrightarrow> ?thesis" by (simp add: list_all_iff)
qed

lemma hex_str_spec: "hex_str n \<noteq> [] \<and> hexadecimal (hex_str n) 0 = n \<and>
    list_all (\<lambda>c. 0 \<le> decode_hex_digit c \<and> c \<noteq> CHR '':'' \<and> c \<noteq> CHR ''.'' \<and> c \<noteq> CHR ''/'') (hex_str n)"
proof (induction n rule: hex_str.induct)
  case (1 n)
  show ?case
  proof (cases "n < 16")
    case True
    then show ?thesis using hex_digit [OF True] by (simp add: hex_str.simps [of n])
  next
    case False
    with 1 hex_digit [of "n mod 16"] show ?thesis
      by (simp add: hex_str.simps [of n] hexadecimal_append)
  qed
qed

lemma hex_str_length: "0 < k \<Longrightarrow> n < 16 ^ k \<Longrightarrow> length (hex_str n) \<le> k"
proof (induction n arbitrary: k rule: hex_str.induct)
  case (1 n)
  show ?case
  proof (cases "n < 16")
    case False
    obtain k' where k: "k = Suc k'" using 1(2) by (cases k) auto
    with 1(3) False have "0 < k'" by (cases k') auto
    moreover have "n div 16 < 16 ^ k'" using 1(3) k by (simp add: less_mult_imp_div_less mult.commute)
    ultimately have "length (hex_str (n div 16)) \<le> k'" using 1(1) False by blast
    with k False show ?thesis by (simp add: hex_str.simps [of n])
  qed (use 1 in \<open>simp add: hex_str.simps [of n]\<close>)
qed

lemma word16_unat: "n < 65536 \<Longrightarrow> unat (word_of_nat n :: 16 word) = n"
  by (simp add: unat_of_nat take_bit_nat_eq_self)

lemma hexadecimal_mono: "n \<le> hexadecimal s n"
proof (induction s arbitrary: n)
  case (Cons c s)
  have "n \<le> 16 * n + nat (decode_hex_digit c)" by simp
  then show ?case using Cons.IH [of "16 * n + nat (decode_hex_digit c)"] by simp
qed simp

text \<open>The digits of a block are read into the block.\<close>

lemma parse6_digit:
  assumes "i < length name" and "name ! i \<noteq> CHR '':''" and "name ! i \<noteq> CHR ''.''" and "0 \<le> decode_hex_digit (name ! i)"
    and "\<not> block > 4095" and "decode_hex_digit (name ! i) \<le> 65535 - uint (block * 16)"
  shows "parse6_loop name i block e nb cp a =
    parse6_loop name (Suc i) (block * 16 + word_of_int (decode_hex_digit (name ! i))) False nb cp a"
  using assms by (subst parse6_loop_eq) (simp add: Let_def)

lemma parse6_digits:
  assumes "list_all (\<lambda>c. 0 \<le> decode_hex_digit c \<and> c \<noteq> CHR '':'' \<and> c \<noteq> CHR ''.'' \<and> c \<noteq> CHR ''/'') ds"
    and "hexadecimal ds n < 65536" and "ds \<noteq> []"
  shows "parse6_loop (pre @ ds @ post) (length pre) (word_of_nat n) e nb cp a =
    parse6_loop (pre @ ds @ post) (length pre + length ds) (word_of_nat (hexadecimal ds n)) False nb cp a"
  using assms
proof (induction ds arbitrary: pre n e)
  case (Cons c ds)
  let ?n = "16 * n + nat (decode_hex_digit c)"
  have lt: "?n < 65536" using hexadecimal_mono [of ?n ds] Cons.prems(2) by simp
  have d: "0 \<le> decode_hex_digit c" "decode_hex_digit c < 16" using Cons.prems(1) decode_hex_bound [of c] by auto
  have n: "unat (word_of_nat n :: 16 word) = n" using lt by (intro word16_unat) simp
  have times: "word_of_nat n * 16 = (word_of_nat (16 * n) :: 16 word)" by (simp add: mult.commute)
  have "unat (word_of_nat (16 * n) :: 16 word) = 16 * n" using lt by (intro word16_unat) simp
  then have "uint (word_of_nat n * 16 :: 16 word) = int (16 * n)" unfolding times uint_nat by simp
  then have "decode_hex_digit c \<le> 65535 - uint (word_of_nat n * 16 :: 16 word)" using d lt by linarith
  moreover have "\<not> (word_of_nat n :: 16 word) > 4095" using lt n by (simp add: word_less_nat_alt)
  moreover have new: "word_of_nat n * 16 + word_of_int (decode_hex_digit c) = (word_of_nat ?n :: 16 word)"
    using d by (simp add: mult.commute flip: of_nat_nat)
  moreover have "(pre @ (c # ds) @ post) ! length pre = c" by (simp add: nth_append)
  ultimately have step: "parse6_loop (pre @ (c # ds) @ post) (length pre) (word_of_nat n) e nb cp a =
      parse6_loop (pre @ (c # ds) @ post) (Suc (length pre)) (word_of_nat ?n) False nb cp a"
    using parse6_digit [of "length pre" "pre @ (c # ds) @ post" "word_of_nat n" e nb cp a] Cons.prems(1) d(1)
    by (simp only: new) simp
  show ?case
  proof (cases "ds = []")
    case True
    with step show ?thesis by simp
  next
    case False
    with Cons.IH [of ?n "pre @ [c]" False] Cons.prems step show ?thesis by simp
  qed
qed simp

text \<open>A sequence of blocks between colons, the last one still being read.\<close>

fun join :: "16 word list \<Rightarrow> string" where
  "join [] = []"
| "join [b] = hex_str (unat b)"
| "join (b # c # bs) = hex_str (unat b) @ CHR '':'' # join (c # bs)"

definition put_blocks :: "16 word list \<Rightarrow> nat \<Rightarrow> ipv6_addr \<Rightarrow> ipv6_addr" where
  "put_blocks bs k a = take (2 * k) a @ concat (map block_bytes bs) @ drop (2 * (k + length bs)) a"

lemma length_blocks [simp]: "length (concat (map block_bytes bs)) = 2 * length bs"
  by (induction bs) auto

lemma length_put_blocks [simp]: "length a = 16 \<Longrightarrow> k + length bs \<le> 8 \<Longrightarrow> length (put_blocks bs k a) = 16"
  by (simp add: put_blocks_def)

lemma put_blocks_Nil [simp]: "put_blocks [] k a = a"
  by (simp add: put_blocks_def)

lemma put6_block:
  "length a = 16 \<Longrightarrow> k < 8 \<Longrightarrow> put6 a (2 * k) (block_bytes b) = Some (put_blocks [b] k a)"
  by (simp add: put6_def put_blocks_def)

lemma put_blocks_append:
  "length a = 16 \<Longrightarrow> k + length bs + length cs \<le> 8 \<Longrightarrow>
   put_blocks cs (k + length bs) (put_blocks bs k a) = put_blocks (bs @ cs) k a"
  by (cases bs) (auto simp: put_blocks_def min_def algebra_simps)

lemma hex_block:
  fixes b :: "16 word"
  shows "hex_str (unat b) \<noteq> []" "hexadecimal (hex_str (unat b)) 0 = unat b" "unat b < 65536"
    and "list_all (\<lambda>c. 0 \<le> decode_hex_digit c \<and> c \<noteq> CHR '':'' \<and> c \<noteq> CHR ''.'' \<and> c \<noteq> CHR ''/'') (hex_str (unat b))"
  using hex_str_spec [of "unat b"] unsigned_less [of b, where 'a = nat] by simp_all

lemma hex_block_hd: "\<exists>c cs. hex_str (unat (b :: 16 word)) = c # cs \<and> c \<noteq> CHR '':''"
  using hex_block(1,4) [of b] by (cases "hex_str (unat b)") auto

lemma join_hd: "bs \<noteq> [] \<Longrightarrow> \<exists>c cs. join bs = c # cs \<and> c \<noteq> CHR '':''"
  using hex_block_hd [of "hd bs"] by (cases bs rule: join.cases) auto

lemma parse6_block:
  "parse6_loop (pre @ hex_str (unat b) @ post) (length pre) 0 e nb cp a =
   parse6_loop (pre @ hex_str (unat b) @ post) (length (pre @ hex_str (unat b))) b False nb cp a"
  using parse6_digits [of "hex_str (unat b)" 0 pre post e nb cp a] hex_block [of b] by simp

lemma parse6_colon:
  assumes "nb < 7" and "length a = 16" and "pre \<noteq> []" and "c \<noteq> CHR '':''"
  shows "parse6_loop (pre @ CHR '':'' # c # post) (length pre) b False nb cp a =
    parse6_loop (pre @ CHR '':'' # c # post) (length pre + 1) 0 True (nb + 1) cp (put_blocks [b] nb a)"
  using assms by (subst parse6_loop_eq) (simp add: Let_def nth_append put6_block)

lemma parse6_join:
  assumes "bs \<noteq> []" and "nb + length bs \<le> 8" and "length a = 16"
  shows "parse6_loop (pre @ join bs @ post) (length pre) 0 True nb cp a =
    parse6_loop (pre @ join bs @ post) (length (pre @ join bs)) (last bs) False (nb + length bs - 1) cp
      (put_blocks (butlast bs) nb a)"
  using assms
proof (induction bs arbitrary: pre nb a rule: join.induct)
  case (2 b)
  then show ?case using parse6_block [of pre b post] by simp
next
  case (3 b c bs)
  let ?h = "hex_str (unat b)" and ?rest = "join (c # bs)"
  obtain d ds where d: "?rest = d # ds" "d \<noteq> CHR '':''" using join_hd [of "c # bs"] by auto
  let ?s = "pre @ join (b # c # bs) @ post"
  have s: "?s = pre @ ?h @ CHR '':'' # ?rest @ post" by simp
  have "parse6_loop ?s (length pre) 0 True nb cp a = parse6_loop ?s (length (pre @ ?h)) b False nb cp a"
    unfolding s using parse6_block by blast
  also have "\<dots> = parse6_loop ?s (length (pre @ ?h) + 1) 0 True (nb + 1) cp (put_blocks [b] nb a)"
    unfolding s using parse6_colon [of nb a "pre @ ?h" d "ds @ post" b cp] 3 d hex_block(1) [of b] by simp
  also have "\<dots> = parse6_loop ?s (length (pre @ join (b # c # bs))) (last (c # bs)) False (nb + 1 + length (c # bs) - 1) cp
      (put_blocks (butlast (c # bs)) (nb + 1) (put_blocks [b] nb a))"
    using "3.IH" [of "nb + 1" "put_blocks [b] nb a" "pre @ ?h @ '':''"] 3 by (simp add: s)
  also have "put_blocks (butlast (c # bs)) (nb + 1) (put_blocks [b] nb a) = put_blocks (b # butlast (c # bs)) nb a"
    using 3 put_blocks_append [of a nb "[b]" "butlast (c # bs)"] by simp
  finally show ?case by simp
qed simp

text \<open>Addresses printed without and with a compression parse to their blocks.\<close>

lemma parse6_full:
  assumes "length bs = 8" and "length a = 16"
  shows "ipaddr6_parse_ipv6_addr (join bs) a = Accept (concat (map block_bytes bs))"
proof -
  have ne: "bs \<noteq> []" using assms by auto
  have eq: "put_blocks [last bs] 7 (put_blocks (butlast bs) 0 a) = put_blocks bs 0 a"
    using put_blocks_append [of a 0 "butlast bs" "[last bs]"] assms ne by simp
  have put: "put6 (put_blocks (butlast bs) 0 a) (2 * 7) (block_bytes (last bs)) = Some (put_blocks bs 0 a)"
    using assms by (subst put6_block) (simp_all add: eq)
  have "ipaddr6_parse_ipv6_addr (join bs) a =
      parse6_loop (join bs) (length (join bs)) (last bs) False 7 (- 1) (put_blocks (butlast bs) 0 a)"
    using parse6_join [of bs 0 a "[]" "[]"] assms ne by (simp add: ipaddr6_parse_ipv6_addr_def)
  also have "\<dots> = parse6_done 8 (- 1) (put_blocks bs 0 a)"
    unfolding parse6_loop_eq [of _ "length (join bs)"] put by simp
  also have "\<dots> = Accept (put_blocks bs 0 a)"
    using assms by (subst parse6_done_Accept) auto
  finally show ?thesis using assms by (simp add: put_blocks_def)
qed

lemma parse6_tail:
  assumes "length hs + length ts \<le> 8" and "length a = 16" and "pre \<noteq> []"
  shows "parse6_loop (pre @ join ts) (length pre) 0 True (length hs) (int (length hs)) (put_blocks hs 0 a) =
    Accept (concat (map block_bytes hs) @ replicate (2 * (8 - length hs - length ts)) 0 @ concat (map block_bytes ts))"
proof (cases "ts = []")
  case True
  have "parse6_done (length hs) (int (length hs)) (put_blocks hs 0 a) =
      Accept (concat (map block_bytes hs) @ replicate (2 * (8 - length hs)) 0)"
    using assms by (subst parse6_done_Accept [where cp = "length hs"]) (auto simp: put_blocks_def)
  with True show ?thesis by (subst parse6_loop_eq) simp
next
  case False
  let ?nb = "length hs + length ts"
  let ?a = "put_blocks (hs @ ts) 0 a"
  have "put_blocks [last ts] (length hs + length (butlast ts)) (put_blocks (butlast ts) (length hs) (put_blocks hs 0 a)) =
      put_blocks ts (length hs) (put_blocks hs 0 a)"
    using put_blocks_append [of "put_blocks hs 0 a" "length hs" "butlast ts" "[last ts]"] assms False
    by (cases ts rule: rev_cases) auto
  also have "\<dots> = ?a" using put_blocks_append [of a 0 hs ts] assms by simp
  finally have eq: "put_blocks [last ts] (?nb - 1) (put_blocks (butlast ts) (length hs) (put_blocks hs 0 a)) = ?a"
    using False by (cases ts rule: rev_cases) auto
  have lt: "?nb - 1 < 8" "Suc (?nb - 1) = ?nb" using False assms by (cases ts; simp)+
  have put: "put6 (put_blocks (butlast ts) (length hs) (put_blocks hs 0 a)) (2 * (?nb - 1)) (block_bytes (last ts)) = Some ?a"
    using assms lt by (subst put6_block) (simp_all only: eq, simp)
  have "parse6_loop (pre @ join ts) (length pre) 0 True (length hs) (int (length hs)) (put_blocks hs 0 a) =
      parse6_loop (pre @ join ts) (length (pre @ join ts)) (last ts) False (?nb - 1) (int (length hs))
        (put_blocks (butlast ts) (length hs) (put_blocks hs 0 a))"
    using parse6_join [of ts "length hs" "put_blocks hs 0 a" pre "[]"] assms False by simp
  also have "\<dots> = parse6_done ?nb (int (length hs)) ?a"
    unfolding parse6_loop_eq [of _ "length (pre @ join ts)"] put using lt by simp
  also have "\<dots> = Accept (concat (map block_bytes hs) @ replicate (2 * (8 - ?nb)) 0 @ concat (map block_bytes ts))"
    using assms by (subst parse6_done_Accept [where cp = "length hs"]) (auto simp: put_blocks_def)
  finally show ?thesis by (simp add: diff_diff_left)
qed

lemma parse6_compressed:
  assumes "length hs + length ts \<le> 7" and "length a = 16"
  shows "ipaddr6_parse_ipv6_addr (join hs @ ''::'' @ join ts) a =
    Accept (concat (map block_bytes hs) @ replicate (2 * (8 - length hs - length ts)) 0 @ concat (map block_bytes ts))"
proof (cases "hs = []")
  case True
  have "ipaddr6_parse_ipv6_addr (''::'' @ join ts) a = parse6_loop (''::'' @ join ts) 2 0 True 0 0 a"
    unfolding ipaddr6_parse_ipv6_addr_def by (subst parse6_loop_eq) (simp add: numeral_2_eq_2)
  with True parse6_tail [of "[]" ts a "''::''"] assms show ?thesis by (simp add: numeral_2_eq_2)
next
  case False
  let ?s = "join hs @ ''::'' @ join ts"
  have ne: "join hs \<noteq> []" using join_hd [OF False] by auto
  have eq: "put_blocks [last hs] (length hs - 1) (put_blocks (butlast hs) 0 a) = put_blocks hs 0 a"
    using put_blocks_append [of a 0 "butlast hs" "[last hs]"] assms False by (cases hs rule: rev_cases) auto
  have "ipaddr6_parse_ipv6_addr ?s a =
      parse6_loop ?s (length (join hs)) (last hs) False (length hs - 1) (- 1) (put_blocks (butlast hs) 0 a)"
    using parse6_join [of hs 0 a "[]" "''::'' @ join ts"] assms False by (simp add: ipaddr6_parse_ipv6_addr_def)
  also have "\<dots> = parse6_loop ?s (length (join hs) + 2) 0 True (length hs) (int (length hs)) (put_blocks hs 0 a)"
  proof -
    have "length hs - 1 < 7" "Suc (length hs - 1) = length hs" "length (put_blocks (butlast hs) 0 a) = 16"
      using assms False by (cases hs; simp)+
    with eq ne show ?thesis by (subst parse6_loop_eq) (simp add: Let_def nth_append put6_block)
  qed
  also have "\<dots> = Accept (concat (map block_bytes hs) @ replicate (2 * (8 - length hs - length ts)) 0 @
      concat (map block_bytes ts))"
    using parse6_tail [of hs ts a "join hs @ ''::''"] assms by simp
  finally show ?thesis .
qed

lemma zero_run:
  assumes "k \<le> 8" and "fold (zero_run_step a) [0..<k] (0, 0, 0, 0) = (ls, ll, cs, cl)"
  shows "cs + cl = k \<and> ls + ll \<le> k \<and> (\<forall>i. cs \<le> i \<and> i < k \<longrightarrow> a ! (2 * i) = 0 \<and> a ! (2 * i + 1) = 0) \<and>
    (\<forall>i. ls \<le> i \<and> i < ls + ll \<longrightarrow> a ! (2 * i) = 0 \<and> a ! (2 * i + 1) = 0)"
  using assms
proof (induction k arbitrary: ls ll cs cl)
  case (Suc k)
  obtain ls' ll' cs' cl' where old: "fold (zero_run_step a) [0..<k] (0, 0, 0, 0) = (ls', ll', cs', cl')"
    by (metis prod_cases4)
  note ih = Suc.IH [OF _ old]
  have new: "zero_run_step a k (ls', ll', cs', cl') = (ls, ll, cs, cl)" using Suc.prems(2) old by simp
  have zero: "cs' \<le> i \<and> i < Suc k \<longrightarrow> a ! (2 * i) = 0 \<and> a ! (2 * i + 1) = 0"
    if "a ! (2 * k) = 0 \<and> a ! (2 * k + 1) = 0" for i
    using that ih Suc.prems(1) by (cases "i = k") auto
  show ?case
  proof (cases "a ! (2 * k) = 0 \<and> a ! (2 * k + 1) = 0")
    case True
    with new zero ih Suc.prems(1) show ?thesis by (auto simp: zero_run_step_def split: if_splits)
  next
    case False
    with new ih Suc.prems(1) show ?thesis by (auto simp: zero_run_step_def split: if_splits)
  qed
qed simp

lemma join_colons: "bs \<noteq> [] \<Longrightarrow> concat (map (\<lambda>b. hex_str (unat b) @ '':'') bs) = join bs @ '':''"
  by (induction bs rule: join.induct) auto

lemma colons_join: "bs \<noteq> [] \<Longrightarrow> concat (map (\<lambda>b. '':'' @ hex_str (unat b)) bs) = '':'' @ join bs"
  by (induction bs rule: join.induct) auto

lemma block_bytes_addr_block: "block_bytes (addr_block a i) = [a ! (2 * i), a ! (2 * i + 1)]"
proof -
  have "ucast (drop_bit 8 (push_bit 8 (ucast x) OR ucast y :: 16 word)) = x"
    and "ucast ((push_bit 8 (ucast x) OR ucast y :: 16 word) AND 0xFF) = y" for x y :: byte
  proof -
    have m: "(0xFF :: 16 word) = mask 8" by (simp add: mask_eq_exp_minus_1)
    show "ucast (drop_bit 8 (push_bit 8 (ucast x) OR ucast y :: 16 word)) = x"
      by (rule bit_word_eqI) (auto simp: bit_simps dest: bit_imp_le_length)
    show "ucast ((push_bit 8 (ucast x) OR ucast y :: 16 word) AND 0xFF) = y"
      unfolding m by (rule bit_word_eqI) (auto simp: bit_simps)
  qed
  then show ?thesis by (simp add: block_bytes_def addr_block_def)
qed

text \<open>The blocks of an address, and what is printed in terms of them.\<close>

definition blocks :: "ipv6_addr \<Rightarrow> nat \<Rightarrow> nat \<Rightarrow> 16 word list" where
  "blocks a i j = map (addr_block a) [i..<j]"

lemma length_blocks_upt [simp]: "length (blocks a i j) = j - i"
  by (simp add: blocks_def)

lemma print_addr_join:
  assumes "fold (zero_run_step a) [0..<8] (0, 0, 0, 0) = (ls, ll, cs, cl)"
  shows "ipaddr6_print_addr a =
    (if 1 < ll then join (blocks a 0 ls) @ ''::'' @ join (blocks a (ls + ll) 8) else join (blocks a 0 8))"
proof -
  let ?hex = "\<lambda>i. hex_str (unat (addr_block a i))"
  have "ls + ll \<le> 8" using zero_run [OF order_refl assms] by simp
  have heads: "concat (map (\<lambda>i. ?hex i @ '':'') [0..<ls]) @ (if ls = 0 then '':'' else []) = join (blocks a 0 ls) @ '':''"
    using join_colons [of "blocks a 0 ls"] by (cases "ls = 0") (simp_all add: blocks_def comp_def)
  have tails: "concat (map (\<lambda>i. '':'' @ ?hex i) [n..<8]) @ (if n = 8 then '':'' else []) = '':'' @ join (blocks a n 8)"
    if "n \<le> 8" for n
    using colons_join [of "blocks a n 8"] that by (cases "n = 8") (simp_all add: blocks_def comp_def)
  have "[0..<8] = 0 # [1..<8]" by (simp add: upt_rec)
  then have all: "concat (map (\<lambda>i. (if i = 0 then [] else '':'') @ ?hex i) [0..<8]) = join (blocks a 0 8)"
    using colons_join [of "blocks a 1 8"] by (simp add: blocks_def upt_rec)
  show ?thesis
  proof (cases "1 < ll")
    case True
    have "ipaddr6_print_addr a = (concat (map (\<lambda>i. ?hex i @ '':'') [0..<ls]) @ (if ls = 0 then '':'' else [])) @
        (concat (map (\<lambda>i. '':'' @ ?hex i) [ls + ll..<8]) @ (if ls + ll = 8 then '':'' else []))"
      using True by (simp add: ipaddr6_print_addr_def assms)
    also have "\<dots> = join (blocks a 0 ls) @ ''::'' @ join (blocks a (ls + ll) 8)"
      unfolding heads tails [OF \<open>ls + ll \<le> 8\<close>] by simp
    finally show ?thesis using True by simp
  next
    case False
    then show ?thesis using all by (simp add: ipaddr6_print_addr_def assms)
  qed
qed

lemma bytes_of_blocks:
  assumes "length a = 16" and "i \<le> j" and "j \<le> 8"
  shows "concat (map block_bytes (blocks a i j)) = take (2 * (j - i)) (drop (2 * i) a)"
  using assms(2,3)
proof (induction j rule: dec_induct)
  case (step j)
  have "2 * j < length a" "2 * j + 1 < length a" using step assms(1) by simp_all
  moreover have "2 * i + 2 * (j - i) = 2 * j" "2 * (Suc j - i) = Suc (Suc (2 * (j - i)))" using step by simp_all
  ultimately have "take (2 * (Suc j - i)) (drop (2 * i) a) =
      take (2 * (j - i)) (drop (2 * i) a) @ [a ! (2 * j), a ! (2 * j + 1)]"
    by (simp add: take_Suc_conv_app_nth)
  with step show ?case by (simp add: blocks_def block_bytes_addr_block)
qed (simp add: blocks_def)

lemma parse_print_addr6:
  assumes "length a = 16" and "length b = 16"
  shows "ipaddr6_parse_ipv6_addr (ipaddr6_print_addr a) b = Accept a"
proof -
  obtain ls ll cs cl where run: "fold (zero_run_step a) [0..<8] (0, 0, 0, 0) = (ls, ll, cs, cl)"
    by (metis prod_cases4)
  have le: "ls + ll \<le> 8" and z: "\<And>i. ls \<le> i \<Longrightarrow> i < ls + ll \<Longrightarrow> a ! (2 * i) = 0 \<and> a ! (2 * i + 1) = 0"
    using zero_run [OF order_refl run] by blast+
  show ?thesis
  proof (cases "1 < ll")
    case False
    with parse6_full [of "blocks a 0 8" b] assms show ?thesis
      by (simp add: print_addr_join [OF run] bytes_of_blocks)
  next
    case True
    have zero: "take (2 * ll) (drop (2 * ls) a) = replicate (2 * ll) 0"
    proof (rule nth_equalityI)
      fix n assume "n < length (take (2 * ll) (drop (2 * ls) a))"
      then have n: "n < 2 * ll" by simp
      have "ls + n div 2 < ls + ll" using n by simp
      with z [of "ls + n div 2"] have "a ! (2 * (ls + n div 2)) = 0" "a ! (2 * (ls + n div 2) + 1) = 0" by simp_all
      moreover have "2 * ls + n = 2 * (ls + n div 2) \<or> 2 * ls + n = 2 * (ls + n div 2) + 1" by presburger
      ultimately have "a ! (2 * ls + n) = 0" by metis
      with n le assms show "take (2 * ll) (drop (2 * ls) a) ! n = replicate (2 * ll) 0 ! n" by simp
    qed (use le assms in simp)
    have parts: "take (2 * ls) a @ take (2 * ll) (drop (2 * ls) a) @ drop (2 * (ls + ll)) a = a"
      by (metis append_take_drop_id drop_drop add.commute distrib_left)
    have "ls + (8 - (ls + ll)) \<le> 7" and "8 - ls - (8 - (ls + ll)) = ll" using True le by simp_all
    then have "ipaddr6_parse_ipv6_addr (ipaddr6_print_addr a) b =
        Accept (take (2 * ls) a @ replicate (2 * ll) 0 @ take (2 * (8 - (ls + ll))) (drop (2 * (ls + ll)) a))"
      using parse6_compressed [of "blocks a 0 ls" "blocks a (ls + ll) 8" b] True le assms
      by (simp add: print_addr_join [OF run] bytes_of_blocks)
    also have "take (2 * (8 - (ls + ll))) (drop (2 * (ls + ll)) a) = drop (2 * (ls + ll)) a"
      using assms le by simp
    finally show ?thesis using parts zero by simp
  qed
qed

lemma join_facts: "length (join bs) + 1 \<le> 5 * length bs + (if bs = [] then 1 else 0) \<and> CHR ''/'' \<notin> set (join bs)"
proof -
  have b: "length (hex_str (unat b)) \<le> 4" "CHR ''/'' \<notin> set (hex_str (unat b))" for b :: "16 word"
    using hex_str_length [of 4 "unat b"] hex_block(3,4) [of b] by (auto simp: list_all_iff)
  show ?thesis
  proof (induction bs rule: join.induct)
    case (2 x)
    then show ?case using b [of x] by simp
  next
    case (3 x y bs)
    then show ?case using b [of x] by simp
  qed simp
qed

lemma print_addr6_facts: "length (ipaddr6_print_addr a) \<le> 39" "CHR ''/'' \<notin> set (ipaddr6_print_addr a)"
proof -
  obtain ls ll cs cl where run: "fold (zero_run_step a) [0..<8] (0, 0, 0, 0) = (ls, ll, cs, cl)"
    by (metis prod_cases4)
  have le: "ls + ll \<le> 8" using zero_run [OF order_refl run] by blast
  note j = join_facts [of "blocks a 0 8"] join_facts [of "blocks a 0 ls"] join_facts [of "blocks a (ls + ll) 8"]
  have "blocks a 0 8 \<noteq> []" by (simp add: blocks_def)
  with j le show "length (ipaddr6_print_addr a) \<le> 39" "CHR ''/'' \<notin> set (ipaddr6_print_addr a)"
    by (auto simp: print_addr_join [OF run] split: if_splits)
qed

text \<open>C38: an IPv6 address, and one with a prefix length of at most 128, parse back from what is
  printed for them, whatever the structure held before; what is printed fits, with its
  terminating character, the \<open>IPADDR6_PRINT_MAX\<close> characters the callers reserve.\<close>

theorem ipv6_print_parse:
  assumes "length a = 16" and "0 \<le> p" and "p \<le> 128" and "length b = 16"
  shows "ipaddr6_parse_ipv6_addr (ipaddr6_print_addr a) b = Accept a \<and>
    ipaddr6_parse_ipv6_ifaddr (ipaddr6_print_ifaddr \<lparr>ifaddr6_addr = a, ifaddr6_prefix = p\<rparr>)
      \<lparr>ifaddr6_addr = b, ifaddr6_prefix = n\<rparr> = Accept \<lparr>ifaddr6_addr = a, ifaddr6_prefix = p\<rparr> \<and>
    length (ipaddr6_print_addr a) + 1 \<le> IPADDR6_PRINT_MAX \<and>
    length (ipaddr6_print_ifaddr \<lparr>ifaddr6_addr = a, ifaddr6_prefix = p\<rparr>) + 1 \<le> IPADDR6_PRINT_MAX"
proof -
  let ?p = "dec_str (nat p)"
  have print: "ipaddr6_print_ifaddr \<lparr>ifaddr6_addr = a, ifaddr6_prefix = p\<rparr> = ipaddr6_print_addr a @ CHR ''/'' # ?p"
    by (simp add: ipaddr6_print_ifaddr_def)
  have p: "nat p \<le> 128" using assms by simp
  have u: "unat (word_of_nat (nat p) :: 64 word) = nat p"
    using p by (simp add: unat_of_nat take_bit_nat_eq_self)
  moreover from u have "uint (word_of_nat (nat p) :: 64 word) = p" using assms(2) by (metis int_nat_eq uint_nat)
  moreover have "parse_unsigned_integer ?p = Some (word_of_nat (nat p))"
    using dec_str_decimal [of "nat p"] p by (simp add: parse_unsigned_spec)
  ultimately have "ipaddr6_parse_ipv6_prefix ?p = Some p"
    using p by (simp add: ipaddr6_parse_ipv6_prefix_def word_less_nat_alt)
  moreover note parse_print_addr6 [OF assms(1,4)]
  moreover have "length ?p \<le> 3" by (rule dec_str_length) (use p in simp_all)
  ultimately show ?thesis using print_addr6_facts [of a] unfolding IPADDR6_PRINT_MAX_def print
    by (simp add: ipaddr6_parse_ipv6_ifaddr_def MemRef_FindChar_def find_from_first MemRef_SubTo_def MemRef_SubFrom_def)
qed

theorem ipv6_print_parse_witness:
  "ipaddr6_print_addr (0 # 254 # replicate 13 0 @ [1]) = ''fe::1'' \<and>
   ipaddr6_parse_ipv6_addr ''fe::1'' (replicate 16 7) = Accept (0 # 254 # replicate 13 0 @ [1])"
proof -
  have "ipaddr6_print_addr (0 # 254 # replicate 13 0 @ [1]) = ''fe::1''" by code_simp
  moreover have "ipaddr6_parse_ipv6_addr (ipaddr6_print_addr (0 # 254 # replicate 13 0 @ [1])) (replicate 16 7) =
      Accept (0 # 254 # replicate 13 0 @ [1])"
    by (rule ipv6_print_parse [where p = 64, THEN conjunct1]) simp_all
  ultimately show ?thesis by (simp only: simp_thms)
qed

end
