(* ===== verification/Addresses.thy ===== *)
theory Addresses
  imports Ip6_Addresses
begin

text \<open>
  Network addresses: \<open>system/BAddr.h\<close>.  The tagged unions are datatypes whose constructors are
  the type tags; ports and IPv4 addresses are kept in network byte order, as in the code.  The
  resolver \<open>getaddrinfo\<close> of the C library is a parameter: it gets the name, whether the
  IPv6 family is wanted, and the flag for numeric addresses only.
\<close>

section \<open>\<open>system/BAddr.h\<close>\<close>

definition BADDR_MAX_ADDR_LEN :: nat where "BADDR_MAX_ADDR_LEN = 128"
definition BIPADDR_MAX_PRINT_LEN :: nat where "BIPADDR_MAX_PRINT_LEN = 40"
definition BADDR_MAX_PRINT_LEN :: nat where "BADDR_MAX_PRINT_LEN = 120"

datatype BIPAddr = BIPAddr_None | BIPAddr_IPv4 "32 word" | BIPAddr_IPv6 ipv6_addr

record packet_addr =
  phys_proto :: "16 word"
  interface_index :: int
  packet_type :: int
  phys_addr :: bytes

datatype BAddr =
    BAddr_None
  | BAddr_IPv4 "32 word" "16 word"
  | BAddr_IPv6 ipv6_addr "16 word"
  | BAddr_Packet packet_addr

definition BIPAddr_InitInvalid :: BIPAddr where "BIPAddr_InitInvalid = BIPAddr_None"

definition BIPAddr_InitIPv4 :: "32 word \<Rightarrow> BIPAddr" where "BIPAddr_InitIPv4 ip = BIPAddr_IPv4 ip"

definition BIPAddr_InitIPv6 :: "bytes \<Rightarrow> BIPAddr" where "BIPAddr_InitIPv6 ip = BIPAddr_IPv6 (take 16 ip)"

definition BIPAddr_IsInvalid :: "BIPAddr \<Rightarrow> bool" where
  "BIPAddr_IsInvalid addr \<longleftrightarrow> addr = BIPAddr_None"

text \<open>What the resolver finds is an address of the family it was asked for: four or sixteen bytes.\<close>

type_synonym resolver = "string \<Rightarrow> bool \<Rightarrow> bool \<Rightarrow> bytes option"

definition BIPAddr_Resolve :: "resolver \<Rightarrow> string \<Rightarrow> bool \<Rightarrow> BIPAddr option" where
  "BIPAddr_Resolve getaddrinfo str noresolve =
     (let len = length str;
          is_v6 = (1 \<le> len \<and> str ! 0 = CHR ''['' \<and> str ! (len - 1) = CHR '']'');
          addr_str = (if is_v6 then take (len - 2) (drop 1 str) else str)
      in if (if is_v6 then len - 2 else len) > BADDR_MAX_ADDR_LEN then None
         else case getaddrinfo addr_str is_v6 noresolve of
                None \<Rightarrow> None
              | Some found \<Rightarrow>
                  Some (if is_v6 then BIPAddr_IPv6 (take 16 found) else BIPAddr_IPv4 (le32_of (take 4 found))))"

definition BIPAddr_Compare :: "BIPAddr \<Rightarrow> BIPAddr \<Rightarrow> bool" where
  "BIPAddr_Compare addr1 addr2 =
     (case (addr1, addr2) of
        (BIPAddr_IPv4 ip1, BIPAddr_IPv4 ip2) \<Rightarrow> ip1 = ip2
      | (BIPAddr_IPv6 ip1, BIPAddr_IPv6 ip2) \<Rightarrow> memcmp (map uint ip1) (map uint ip2) = 0
      | _ \<Rightarrow> False)"

text \<open>An address of another type fails the assertion: \<open>None\<close>.\<close>

definition BAddr_GetPort :: "BAddr \<Rightarrow> (16 word) option" where
  "BAddr_GetPort addr = (case addr of BAddr_IPv4 _ port \<Rightarrow> Some port | BAddr_IPv6 _ port \<Rightarrow> Some port | _ \<Rightarrow> None)"

definition BAddr_GetIPAddr :: "BAddr \<Rightarrow> BIPAddr" where
  "BAddr_GetIPAddr addr =
     (case addr of
        BAddr_IPv4 ip _ \<Rightarrow> BIPAddr_InitIPv4 ip
      | BAddr_IPv6 ip _ \<Rightarrow> BIPAddr_InitIPv6 ip
      | _ \<Rightarrow> BIPAddr_InitInvalid)"

definition BAddr_SetPort :: "BAddr \<Rightarrow> 16 word \<Rightarrow> BAddr option" where
  "BAddr_SetPort addr port =
     (case addr of
        BAddr_IPv4 ip _ \<Rightarrow> Some (BAddr_IPv4 ip port)
      | BAddr_IPv6 ip _ \<Rightarrow> Some (BAddr_IPv6 ip port)
      | _ \<Rightarrow> None)"

text \<open>The big-endian block \<open>badvpn_read_be16\<close> reads at index \<open>2 * i\<close> is \<open>addr_block\<close>.\<close>

definition BIPAddr_Print :: "BIPAddr \<Rightarrow> string" where
  "BIPAddr_Print addr =
     (case addr of
        BIPAddr_None \<Rightarrow> ''(none)''
      | BIPAddr_IPv4 ip \<Rightarrow>
          (let b = le32_bytes ip
           in dec_str (unat (b ! 0)) @ ''.'' @ dec_str (unat (b ! 1)) @ ''.'' @
              dec_str (unat (b ! 2)) @ ''.'' @ dec_str (unat (b ! 3)))
      | BIPAddr_IPv6 ip \<Rightarrow>
          (let block = (\<lambda>i. hex_str (unat (addr_block ip i)))
           in block 0 @ '':'' @ block 1 @ '':'' @ block 2 @ '':'' @ block 3 @ '':'' @
              block 4 @ '':'' @ block 5 @ '':'' @ block 6 @ '':'' @ block 7))"

definition BAddr_MakeNone :: BAddr where "BAddr_MakeNone = BAddr_None"

definition BAddr_MakeIPv4 :: "32 word \<Rightarrow> 16 word \<Rightarrow> BAddr" where
  "BAddr_MakeIPv4 ip port = BAddr_IPv4 ip port"

definition BAddr_MakeIPv6 :: "bytes \<Rightarrow> 16 word \<Rightarrow> BAddr" where
  "BAddr_MakeIPv6 ip port = BAddr_IPv6 (take 16 ip) port"

definition BAddr_MakeFromIpaddrAndPort :: "BIPAddr \<Rightarrow> 16 word \<Rightarrow> BAddr" where
  "BAddr_MakeFromIpaddrAndPort ipaddr port =
     (case ipaddr of
        BIPAddr_None \<Rightarrow> BAddr_MakeNone
      | BIPAddr_IPv4 ip \<Rightarrow> BAddr_MakeIPv4 ip port
      | BIPAddr_IPv6 ip \<Rightarrow> BAddr_MakeIPv6 ip port)"

definition BAddr_InitNone :: BAddr where "BAddr_InitNone = BAddr_MakeNone"

definition BAddr_InitIPv4 :: "32 word \<Rightarrow> 16 word \<Rightarrow> BAddr" where
  "BAddr_InitIPv4 ip port = BAddr_MakeIPv4 ip port"

definition BAddr_InitIPv6 :: "bytes \<Rightarrow> 16 word \<Rightarrow> BAddr" where
  "BAddr_InitIPv6 ip port = BAddr_MakeIPv6 ip port"

definition BAddr_InitFromIpaddrAndPort :: "BIPAddr \<Rightarrow> 16 word \<Rightarrow> BAddr" where
  "BAddr_InitFromIpaddrAndPort ipaddr port = BAddr_MakeFromIpaddrAndPort ipaddr port"

text \<open>The header type is always Ethernet; a packet type other than the five fails the assertion.\<close>

definition BAddr_InitPacket :: "16 word \<Rightarrow> int \<Rightarrow> int \<Rightarrow> int \<Rightarrow> bytes \<Rightarrow> BAddr option" where
  "BAddr_InitPacket proto ifindex header_type ptype physaddr =
     (if header_type = 1 \<and> ptype \<in> {1, 2, 3, 4, 5}
      then Some (BAddr_Packet \<lparr>phys_proto = proto, interface_index = ifindex, packet_type = ptype,
                               phys_addr = take 6 physaddr\<rparr>)
      else None)"

definition BAddr_IsInvalid :: "BAddr \<Rightarrow> bool" where
  "BAddr_IsInvalid addr \<longleftrightarrow> addr = BAddr_None"

text \<open>The formats \<open>%d\<close> and \<open>%02x\<close> of \<open>sprintf\<close>.\<close>

definition int_str :: "int \<Rightarrow> string" where
  "int_str n = (if n < 0 then CHR ''-'' # dec_str (nat (- n)) else dec_str (nat n))"

definition hex2_str :: "byte \<Rightarrow> string" where
  "hex2_str b = (if unat b < 16 then CHR ''0'' # hex_str (unat b) else hex_str (unat b))"

definition BAddr_Print :: "BAddr \<Rightarrow> string" where
  "BAddr_Print addr =
     (case addr of
        BAddr_None \<Rightarrow> ''(none)''
      | BAddr_IPv4 ip port \<Rightarrow> BIPAddr_Print (BIPAddr_InitIPv4 ip) @ '':'' @ dec_str (unat (ntoh16 port))
      | BAddr_IPv6 ip port \<Rightarrow> BIPAddr_Print (BIPAddr_InitIPv6 ip) @ '':'' @ dec_str (unat (ntoh16 port))
      | BAddr_Packet p \<Rightarrow>
          (let b = (\<lambda>i. hex2_str (phys_addr p ! i))
           in ''proto='' @ dec_str (unat (phys_proto p)) @ '',ifindex='' @ int_str (interface_index p) @
              '',htype=eth,ptype='' @ int_str (packet_type p) @ '',addr='' @
              b 0 @ '':'' @ b 1 @ '':'' @ b 2 @ '':'' @ b 3 @ '':'' @ b 4 @ '':'' @ b 5))"

text \<open>\<open>strtol\<close> with base 10 on a string of at most five characters: leading white space, a
  sign, digits; the value (which cannot overflow) and what follows the digits.  With no digits
  nothing is consumed and the value is 0.\<close>

definition is_space :: "char \<Rightarrow> bool" where
  "is_space c \<longleftrightarrow> c \<in> {CHR '' '', CHR 0x09, CHR 0x0A, CHR 0x0B, CHR 0x0C, CHR 0x0D}"

definition strtol10 :: "string \<Rightarrow> int \<times> string" where
  "strtol10 s =
     (let t = dropWhile is_space s;
          (sign, u) = (case t of [] \<Rightarrow> (1, t) | c # cs \<Rightarrow>
             if c = CHR ''-'' then (- 1, cs) else if c = CHR ''+'' then (1, cs) else (1, t));
          digits = takeWhile is_digit u
      in if digits = [] then (0, s) else (sign * int (decimal digits), drop (length digits) u))"

text \<open>\<open>name_len\<close> is \<open>None\<close> for a null \<open>name\<close>; the result is the address and the name stored.
  The name is the C string in \<open>addr_str\<close>, whose length the code compares with \<open>name_len\<close> as a \<open>size_t\<close>: a
  negative \<open>name_len\<close> counts as a large one.\<close>

definition BAddr_Parse2 :: "resolver \<Rightarrow> string \<Rightarrow> int option \<Rightarrow> bool \<Rightarrow> (BAddr \<times> string) option" where
  "BAddr_Parse2 getaddrinfo str name_len noresolve =
     (let len = length str
      in if len < 1 \<or> len > 1000 then None
         else
         let is_v6 = (str ! 0 = CHR ''['');
             addr_start = (if is_v6 then 1 else 0);
             i = addr_start + length (takeWhile (\<lambda>c. c \<noteq> (if is_v6 then CHR '']'' else CHR '':'')) (drop addr_start str));
             addr_len = i - addr_start;
             port_start = (if is_v6 then i + 2 else i + 1);
             port_len = len - port_start
         in if i \<ge> len then None
            else if is_v6 \<and> (i + 1 \<ge> len \<or> str ! (i + 1) \<noteq> CHR '':'') then None
            else if addr_len \<ge> 128 then None
            else if port_len \<ge> 6 then None
            else
            let addr_str = take addr_len (drop addr_start str);
                port_str = take port_len (drop port_start str);
                (conv_res, err) = strtol10 port_str
            in if port_str = [] \<or> err \<noteq> [] then None
               else if conv_res < 0 \<or> conv_res > UINT16_MAX then None
               else
               let port = hton16 (word_of_int conv_res)
               in case getaddrinfo addr_str is_v6 noresolve of
                    None \<Rightarrow> None
                  | Some found \<Rightarrow>
                      let addr = (if is_v6 then BAddr_IPv6 (take 16 found) port
                                  else BAddr_IPv4 (le32_of (take 4 found)) port)
                      in case name_len of
                           None \<Rightarrow> Some (addr, [])
                         | Some n \<Rightarrow> if int (length addr_str) \<ge> uint (word_of_int n :: 64 word) then None else Some (addr, addr_str))"

definition BAddr_Parse :: "resolver \<Rightarrow> string \<Rightarrow> int option \<Rightarrow> (BAddr \<times> string) option" where
  "BAddr_Parse getaddrinfo str name_len = BAddr_Parse2 getaddrinfo str name_len False"

definition BAddr_Compare :: "BAddr \<Rightarrow> BAddr \<Rightarrow> bool" where
  "BAddr_Compare addr1 addr2 =
     (case (addr1, addr2) of
        (BAddr_IPv4 ip1 port1, BAddr_IPv4 ip2 port2) \<Rightarrow> ip1 = ip2 \<and> port1 = port2
      | (BAddr_IPv6 ip1 port1, BAddr_IPv6 ip2 port2) \<Rightarrow> memcmp (map uint ip1) (map uint ip2) = 0 \<and> port1 = port2
      | _ \<Rightarrow> False)"

definition baddr_type :: "BAddr \<Rightarrow> int" where
  "baddr_type addr = (case addr of BAddr_None \<Rightarrow> 0 | BAddr_IPv4 _ _ \<Rightarrow> 1 | BAddr_IPv6 _ _ \<Rightarrow> 2 | BAddr_Packet _ \<Rightarrow> 5)"

definition BAddr_CompareOrder :: "BAddr \<Rightarrow> BAddr \<Rightarrow> int" where
  "BAddr_CompareOrder addr1 addr2 =
     (let cmp = B_COMPARE (baddr_type addr1) (baddr_type addr2)
      in if cmp \<noteq> 0 then cmp
         else case (addr1, addr2) of
                (BAddr_IPv4 ip1 port1, BAddr_IPv4 ip2 port2) \<Rightarrow>
                  (let cmp = B_COMPARE (uint (ntoh32 ip1)) (uint (ntoh32 ip2))
                   in if cmp \<noteq> 0 then cmp else B_COMPARE (uint (ntoh16 port1)) (uint (ntoh16 port2)))
              | (BAddr_IPv6 ip1 port1, BAddr_IPv6 ip2 port2) \<Rightarrow>
                  (let cmp = memcmp (map uint ip1) (map uint ip2)
                   in if cmp \<noteq> 0 then B_COMPARE cmp 0 else B_COMPARE (uint (ntoh16 port1)) (uint (ntoh16 port2)))
              | _ \<Rightarrow> 0)"

definition BIPAddr_InitLocalhost :: "int \<Rightarrow> BIPAddr" where
  "BIPAddr_InitLocalhost addr_type =
     (if addr_type = 1 then BIPAddr_IPv4 (hton32 0x7f000001)
      else if addr_type = 2 then BIPAddr_IPv6 ((replicate 16 0)[15 := 1])
      else BIPAddr_None)"

section \<open>Comparison\<close>

lemma memcmp_zero: "length xs = length ys \<Longrightarrow> memcmp xs ys = 0 \<longleftrightarrow> xs = ys"
  by (induction xs ys rule: memcmp.induct) auto

lemma memcmp_swap: "memcmp ys xs = - memcmp xs ys"
  by (induction xs ys rule: memcmp.induct) auto

lemma memcmp_trans:
  "length xs = length ys \<Longrightarrow> length ys = length zs \<Longrightarrow> memcmp xs ys \<le> 0 \<Longrightarrow> memcmp ys zs \<le> 0 \<Longrightarrow> memcmp xs zs \<le> 0"
proof (induction xs arbitrary: ys zs)
  case (Cons x xs)
  obtain y ys' z zs' where e: "ys = y # ys'" "zs = z # zs'" using Cons.prems(1,2) by (cases ys; cases zs) auto
  with Cons.prems Cons.IH [of ys' zs'] show ?case by (cases "x = y"; cases "y = z") (simp_all split: if_splits)
qed simp

lemma map_uint_eq [simp]: "map uint xs = map uint ys \<longleftrightarrow> xs = ys"
  by (rule inj_map_eq_map) (simp add: inj_on_def word_uint_eq_iff)

definition ip_address :: "BAddr \<Rightarrow> bool" where
  "ip_address a = (case a of BAddr_None \<Rightarrow> True | BAddr_IPv4 _ _ \<Rightarrow> True | BAddr_IPv6 ip _ \<Rightarrow> length ip = 16 | BAddr_Packet _ \<Rightarrow> False)"

text \<open>The order compares a sequence of integers made from the address.\<close>

definition address_key :: "BAddr \<Rightarrow> int list" where
  "address_key a = (case a of
     BAddr_None \<Rightarrow> [0]
   | BAddr_IPv4 ip port \<Rightarrow> [1, uint (ntoh32 ip), uint (ntoh16 port)]
   | BAddr_IPv6 ip port \<Rightarrow> 2 # map uint ip @ [uint (ntoh16 port)]
   | BAddr_Packet _ \<Rightarrow> [5])"

lemma memcmp_append:
  "length xs = length ys \<Longrightarrow> memcmp (xs @ us) (ys @ vs) = (if memcmp xs ys \<noteq> 0 then memcmp xs ys else memcmp us vs)"
  by (induction xs ys rule: memcmp.induct) auto

lemma B_COMPARE_sgn: "B_COMPARE a b = sgn (a - b)"
  by (simp add: B_COMPARE_def sgn_if)

lemma order_key:
  "ip_address a \<Longrightarrow> ip_address b \<Longrightarrow> BAddr_CompareOrder a b = sgn (memcmp (address_key a) (address_key b))"
  by (cases a; cases b)
    (simp_all add: ip_address_def BAddr_CompareOrder_def baddr_type_def address_key_def B_COMPARE_sgn memcmp_append Let_def sgn_eq_0_iff)

lemma ntoh_inj: "ntoh32 x = ntoh32 y \<longleftrightarrow> x = y" "ntoh16 p = ntoh16 q \<longleftrightarrow> p = q"
  by (metis hton32_ntoh32(2)) (metis hton16_def ntoh16_def reverse_reverse(1))

lemma key_inj: "ip_address a \<Longrightarrow> ip_address b \<Longrightarrow> address_key a = address_key b \<longleftrightarrow> a = b"
  by (cases a; cases b) (auto simp: ip_address_def address_key_def ntoh_inj simp flip: word_uint_eq_iff)

lemma key_hd: "\<exists>xs. address_key a = baddr_type a # xs"
  by (cases a) (simp_all add: address_key_def baddr_type_def)

lemma key_zero:
  assumes "ip_address a" and "ip_address b"
  shows "memcmp (address_key a) (address_key b) = 0 \<longleftrightarrow> a = b"
proof (cases "baddr_type a = baddr_type b")
  case True
  with assms have "length (address_key a) = length (address_key b)"
    by (cases a; cases b) (auto simp: baddr_type_def address_key_def ip_address_def)
  with assms show ?thesis by (simp add: memcmp_zero key_inj)
next
  case False
  with key_hd [of a] key_hd [of b] show ?thesis by auto
qed

lemma key_trans:
  assumes "ip_address a" and "ip_address b" and "ip_address c"
    and "memcmp (address_key a) (address_key b) \<le> 0" and "memcmp (address_key b) (address_key c) \<le> 0"
  shows "memcmp (address_key a) (address_key c) \<le> 0"
proof (cases "baddr_type a = baddr_type b \<and> baddr_type b = baddr_type c")
  case True
  with assms(1-3) have "length (address_key a) = length (address_key b)" "length (address_key b) = length (address_key c)"
    by (cases a; cases b; cases c; simp add: baddr_type_def address_key_def ip_address_def)+
  with memcmp_trans assms(4,5) show ?thesis by blast
next
  case False
  with key_hd [of a] key_hd [of b] key_hd [of c] assms(4,5) show ?thesis by (auto split: if_splits)
qed

text \<open>C39: the order of addresses is linear on the invalid address and the IPv4 and IPv6
  addresses: total, antisymmetric and transitive, with 0 exactly for equal addresses; and the
  equality test agrees with it except that the invalid address equals nothing, not even itself.\<close>

theorem address_order_is_linear:
  assumes "ip_address a" and "ip_address b" and "ip_address c"
  shows "BAddr_CompareOrder a b \<in> {-1, 0, 1} \<and> BAddr_CompareOrder b a = - BAddr_CompareOrder a b \<and>
    (BAddr_CompareOrder a b = 0 \<longleftrightarrow> a = b) \<and>
    (BAddr_CompareOrder a b \<le> 0 \<longrightarrow> BAddr_CompareOrder b c \<le> 0 \<longrightarrow> BAddr_CompareOrder a c \<le> 0) \<and>
    (BAddr_Compare a b \<longleftrightarrow> a = b \<and> \<not> BAddr_IsInvalid a)"
proof -
  have "BAddr_Compare a b \<longleftrightarrow> a = b \<and> \<not> BAddr_IsInvalid a"
    using assms by (cases a; cases b) (auto simp: BAddr_Compare_def BAddr_IsInvalid_def memcmp_zero ip_address_def)
  moreover have "BAddr_CompareOrder a c \<le> 0" if "BAddr_CompareOrder a b \<le> 0" "BAddr_CompareOrder b c \<le> 0"
    using key_trans [OF assms] that assms by (simp add: order_key sgn_if split: if_splits)
  ultimately show ?thesis
    using key_zero [OF assms(1,2)] assms memcmp_swap [of "address_key b" "address_key a"]
    by (simp add: order_key sgn_if)
qed

theorem address_order_is_linear_witness:
  "BAddr_CompareOrder (BAddr_IPv4 0x0100007F 0x5000) (BAddr_IPv6 (replicate 16 0) 0) = - 1 \<and>
   BAddr_CompareOrder (BAddr_IPv6 (replicate 16 0) 0) (BAddr_IPv4 0x0100007F 0x5000) = 1"
proof -
  have "ip_address (BAddr_IPv4 0x0100007F 0x5000)" "ip_address (BAddr_IPv6 (replicate 16 0) 0)"
    by (simp_all add: ip_address_def)
  moreover have "BAddr_CompareOrder (BAddr_IPv4 0x0100007F 0x5000) (BAddr_IPv6 (replicate 16 0) 0) = - 1"
    by (simp add: BAddr_CompareOrder_def baddr_type_def B_COMPARE_def)
  ultimately show ?thesis
    using address_order_is_linear [of "BAddr_IPv4 0x0100007F 0x5000" "BAddr_IPv6 (replicate 16 0) 0" BAddr_None]
    by (simp add: ip_address_def)
qed

section \<open>Printing and parsing\<close>

lemma word16_decimal: "length (dec_str (unat (x :: 16 word))) \<le> 5"
  by (rule dec_str_length) (use unsigned_less [of x, where 'a = nat] in simp_all)

lemma v4_print: "BIPAddr_Print (BIPAddr_IPv4 ip) = ipaddr_print_addr ip"
  by (simp add: BIPAddr_Print_def ipaddr_print_addr_def)

lemma v6_print_join: "BIPAddr_Print (BIPAddr_IPv6 ip) = join (blocks ip 0 8)"
proof -
  have "[0..<8 :: nat] = [0, 1, 2, 3, 4, 5, 6, 7]" by code_simp
  then show ?thesis by (simp add: BIPAddr_Print_def blocks_def Let_def)
qed

lemma v4_print_length: "length (ipaddr_print_addr x) \<le> 15"
  using dec_byte(2) [of "le32_bytes x ! 0"] dec_byte(2) [of "le32_bytes x ! 1"]
    dec_byte(2) [of "le32_bytes x ! 2"] dec_byte(2) [of "le32_bytes x ! 3"]
  by (simp add: ipaddr_print_addr_def Let_def)

lemma v6_print_length: "length (join (blocks ip 0 8)) \<le> 39"
proof -
  have "blocks ip 0 8 \<noteq> []" by (simp add: blocks_def)
  with join_facts [of "blocks ip 0 8"] show ?thesis by simp
qed

lemma int_str_length: "- 2147483648 \<le> n \<Longrightarrow> n \<le> 2147483647 \<Longrightarrow> length (int_str n) \<le> 11"
  using dec_str_length [of "nat n" 11] dec_str_length [of "nat (- n)" 10]
  by (simp add: int_str_def nat_less_iff)

lemma hex2_length: "length (hex2_str b) \<le> 2"
proof -
  have "unat b < 256" using unsigned_less [of b, where 'a = nat] by simp
  then show ?thesis using hex_str_length [of 2 "unat b"] hex_str_length [of 1 "unat b"] by (simp add: hex2_str_def)
qed

definition c_int :: "int \<Rightarrow> bool" where
  "c_int n \<longleftrightarrow> - 2147483648 \<le> n \<and> n \<le> 2147483647"

text \<open>Every address prints within the buffer its callers reserve, the terminating character
  included: 40 characters for an IP address, 120 for a socket address, whose integers are
  32-bit \<open>int\<close>s.\<close>

theorem addresses_fit_their_buffers:
  assumes "\<And>p. addr = BAddr_Packet p \<Longrightarrow> c_int (interface_index p) \<and> c_int (packet_type p)"
  shows "length (BIPAddr_Print ip) + 1 \<le> BIPADDR_MAX_PRINT_LEN \<and> length (BAddr_Print addr) + 1 \<le> BADDR_MAX_PRINT_LEN"
proof -
  have ip: "length (BIPAddr_Print i) \<le> 39" for i
    using v6_print_length order_trans [OF v4_print_length]
    by (cases i) (auto simp: BIPAddr_Print_def [of BIPAddr_None] v4_print v6_print_join)
  have "length (BAddr_Print addr) \<le> 119"
  proof (cases addr)
    case (BAddr_Packet p)
    note h = hex2_length [of "phys_addr p ! 0"] hex2_length [of "phys_addr p ! 1"] hex2_length [of "phys_addr p ! 2"]
      hex2_length [of "phys_addr p ! 3"] hex2_length [of "phys_addr p ! 4"] hex2_length [of "phys_addr p ! 5"]
    have "length (int_str (interface_index p)) \<le> 11" "length (int_str (packet_type p)) \<le> 11"
      using int_str_length assms BAddr_Packet by (auto simp: c_int_def)
    with h word16_decimal [of "phys_proto p"] BAddr_Packet show ?thesis by (simp add: BAddr_Print_def)
  next
    case (BAddr_IPv4 x port)
    with word16_decimal [of "ntoh16 port"] ip [of "BIPAddr_InitIPv4 x"] show ?thesis by (simp add: BAddr_Print_def)
  next
    case (BAddr_IPv6 x port)
    with word16_decimal [of "ntoh16 port"] ip [of "BIPAddr_InitIPv6 x"] show ?thesis by (simp add: BAddr_Print_def)
  qed (simp add: BAddr_Print_def)
  with ip [of ip] show ?thesis unfolding BIPADDR_MAX_PRINT_LEN_def BADDR_MAX_PRINT_LEN_def by linarith
qed

theorem addresses_fit_their_buffers_witness:
  "length (BIPAddr_Print (BIPAddr_IPv6 (replicate 16 255))) + 1 \<le> 40 \<and>
   length (BAddr_Print (BAddr_Packet \<lparr>phys_proto = 0xFFFF, interface_index = - 2147483648, packet_type = 5,
     phys_addr = replicate 6 255\<rparr>)) + 1 \<le> 120"
  using addresses_fit_their_buffers [of "BAddr_Packet \<lparr>phys_proto = 0xFFFF, interface_index = - 2147483648,
    packet_type = 5, phys_addr = replicate 6 255\<rparr>" "BIPAddr_IPv6 (replicate 16 255)"]
  by (simp add: c_int_def BIPADDR_MAX_PRINT_LEN_def BADDR_MAX_PRINT_LEN_def)

lemma digit_not_space: "is_digit c \<Longrightarrow> \<not> is_space c \<and> c \<noteq> CHR ''-'' \<and> c \<noteq> CHR ''+''"
  by (auto simp: is_space_def is_digit_nat)

lemma strtol_decimal:
  assumes "list_all is_digit s" and "s \<noteq> []"
  shows "strtol10 s = (int (decimal s), [])"
proof -
  obtain c cs where s: "s = c # cs" using assms(2) by (cases s) auto
  have tw: "takeWhile is_digit s = s" "takeWhile is_digit cs = cs"
    using assms(1) s by (simp_all add: list_all_iff takeWhile_eq_all_conv)
  show ?thesis using s assms digit_not_space [of c] by (simp add: strtol10_def tw)
qed

lemma hton16_ntoh16: "hton16 (ntoh16 x) = x"
  by (simp add: hton16_def ntoh16_def)

text \<open>C40: a printed IPv4 socket address parses back to itself, with the printed IP address as its
  name, provided the resolver reads four plain decimal numbers with dots between them, no leading zeros, as
  the address with these bytes; a printed IPv6 socket address is never
  accepted by the parser, which wants the address in square brackets.\<close>

theorem socket_address_roundtrip:
  assumes "\<And>a b c d nr. getaddrinfo (dec_str (unat a) @ ''.'' @ dec_str (unat b) @ ''.'' @ dec_str (unat c) @ ''.'' @ dec_str (unat d))
    False nr = Some [a, b, c, d :: byte]"
  shows "BAddr_Parse2 getaddrinfo (BAddr_Print (BAddr_IPv4 ip port)) (Some 16) noresolve =
      Some (BAddr_IPv4 ip port, BIPAddr_Print (BIPAddr_IPv4 ip)) \<and>
    BAddr_Parse2 getaddrinfo (BAddr_Print (BAddr_IPv6 ip6 port)) name_len noresolve = None"
proof
  let ?a = "ipaddr_print_addr ip" and ?p = "dec_str (unat (ntoh16 port))"
  have print: "BAddr_Print (BAddr_IPv4 ip port) = ?a @ CHR '':'' # ?p"
    by (simp add: BAddr_Print_def BIPAddr_InitIPv4_def v4_print)
  have chars: "c \<in> set ?a \<Longrightarrow> is_digit c \<or> c = CHR ''.''" for c
    using dec_str_decimal by (auto simp: ipaddr_print_addr_def Let_def list_all_iff)
  have no: "CHR '':'' \<notin> set ?a" "CHR ''['' \<notin> set ?a"
    using chars [of "CHR '':''"] chars [of "CHR ''[''"] by (auto simp: is_digit_nat)
  have ne: "?a \<noteq> []" using dec_byte(3) by (simp add: ipaddr_print_addr_def Let_def)
  then have hd: "(?a @ CHR '':'' # ?p) ! 0 \<noteq> CHR ''[''" using no(2) by (cases ?a) auto
  have tw: "takeWhile (\<lambda>c. c \<noteq> CHR '':'') (?a @ CHR '':'' # ?p) = ?a"
    using no(1) by (subst takeWhile_append2) auto
  have p: "list_all is_digit ?p" "?p \<noteq> []" "decimal ?p = unat (ntoh16 port)" using dec_str_decimal by auto
  have u: "uint (ntoh16 port) \<le> 65535" using unsigned_less [of "ntoh16 port", where 'a = int] by simp
  have "le32_bytes ip = [le32_bytes ip ! 0, le32_bytes ip ! 1, le32_bytes ip ! 2, le32_bytes ip ! 3]"
    by (simp add: le32_bytes_def)
  then have found: "getaddrinfo ?a False noresolve = Some (le32_bytes ip)"
    using assms [of "le32_bytes ip ! 0" "le32_bytes ip ! 1" "le32_bytes ip ! 2" "le32_bytes ip ! 3"]
    by (simp add: ipaddr_print_addr_def Let_def)
  show "BAddr_Parse2 getaddrinfo (BAddr_Print (BAddr_IPv4 ip port)) (Some 16) noresolve =
      Some (BAddr_IPv4 ip port, BIPAddr_Print (BIPAddr_IPv4 ip))"
    using hd ne u word16_decimal [of "ntoh16 port"] v4_print_length [of ip] found
    unfolding print v4_print
    by (simp add: BAddr_Parse2_def tw strtol_decimal p UINT16_MAX_def hton16_ntoh16 Let_def)
next
  let ?bs = "blocks (take 16 ip6) 0 8" and ?p = "dec_str (unat (ntoh16 port))"
  have print: "BAddr_Print (BAddr_IPv6 ip6 port) = join ?bs @ CHR '':'' # ?p"
    by (simp add: BAddr_Print_def BIPAddr_InitIPv6_def v6_print_join)
  define h where "h = hex_str (unat (addr_block (take 16 ip6) 0))"
  define t where "t = join (blocks (take 16 ip6) 1 8) @ CHR '':'' # ?p"
  have s: "join ?bs @ CHR '':'' # ?p = h @ CHR '':'' # t" by (simp add: blocks_def upt_rec h_def t_def)
  have h: "CHR '':'' \<notin> set h" "h \<noteq> []" "\<forall>c\<in>set h. 0 \<le> decode_hex_digit c"
    using hex_block [of "addr_block (take 16 ip6) 0"] by (auto simp: h_def list_all_iff)
  have "decode_hex_digit (CHR ''['') < 0" by code_simp
  with h(2,3) have hd: "(h @ CHR '':'' # t) ! 0 \<noteq> CHR ''[''" by (cases h) auto
  have tw: "takeWhile (\<lambda>c. c \<noteq> CHR '':'') (h @ CHR '':'' # t) = h" using h(1) by (subst takeWhile_append2) auto
  have "1 \<le> length (hex_str (unat (addr_block (take 16 ip6) i)))" for i
    using hex_block(1) [of "addr_block (take 16 ip6) i"] by (cases "hex_str (unat (addr_block (take 16 ip6) i))") auto
  then have "6 \<le> length (join (blocks (take 16 ip6) 1 8))"
    by (simp add: blocks_def upt_rec)
  then have "6 \<le> length t" by (simp add: t_def)
  with hd h(2) show "BAddr_Parse2 getaddrinfo (BAddr_Print (BAddr_IPv6 ip6 port)) name_len noresolve = None"
    unfolding print s by (simp add: BAddr_Parse2_def tw Let_def)
qed

text \<open>A resolver of numeric IPv4 addresses that rejects everything else, numbers with leading zeros too.\<close>

definition plain_resolver :: resolver where
  "plain_resolver s v6 nr =
     (case ipaddr_parse_ipv4_addr s of
        None \<Rightarrow> None
      | Some a \<Rightarrow> if v6 \<or> ipaddr_print_addr a \<noteq> s then None else Some (le32_bytes a))"

lemma le32_bytes_of: "le32_bytes (le32_of [a, b, c, d]) = [a, b, c, d]"
  by (auto simp: le32_bytes_def le32_of_def bit_simps byte_high intro!: bit_word_eqI)

lemma plain_resolver_reads:
  "plain_resolver (dec_str (unat a) @ ''.'' @ dec_str (unat b) @ ''.'' @ dec_str (unat c) @ ''.'' @ dec_str (unat d)) False nr =
    Some [a, b, c, d]"
proof -
  let ?ip = "le32_of [a, b, c, d]"
  have bytes: "le32_bytes ?ip = [a, b, c, d]" by (rule le32_bytes_of)
  then have "ipaddr_print_addr ?ip = dec_str (unat a) @ ''.'' @ dec_str (unat b) @ ''.'' @ dec_str (unat c) @ ''.'' @ dec_str (unat d)"
    by (simp add: ipaddr_print_addr_def)
  with parse_print_addr [of ?ip] bytes show ?thesis by (simp add: plain_resolver_def)
qed

theorem socket_address_roundtrip_witness:
  "BAddr_Parse2 plain_resolver ''127.0.0.1:80'' (Some 16) True = Some (BAddr_IPv4 0x0100007F 0x5000, ''127.0.0.1'') \<and>
   plain_resolver ''010.0.0.1'' False True = None"
proof
  have "BAddr_Print (BAddr_IPv4 0x0100007F 0x5000) = ''127.0.0.1:80''"
    and "BIPAddr_Print (BIPAddr_IPv4 0x0100007F) = ''127.0.0.1''" by code_simp+
  with socket_address_roundtrip [of plain_resolver, OF plain_resolver_reads, of "0x0100007F" "0x5000" True]
  show "BAddr_Parse2 plain_resolver ''127.0.0.1:80'' (Some 16) True = Some (BAddr_IPv4 0x0100007F 0x5000, ''127.0.0.1'')"
    by simp
  show "plain_resolver ''010.0.0.1'' False True = None" by code_simp
qed

end
