(* ===== verification/Packet_Headers.thy ===== *)
theory Packet_Headers
  imports Addresses
begin

text \<open>
  The headers of IPv4, IPv6 and UDP packets, their checks and checksums: \<open>misc/ipv4_proto.h\<close>,
  \<open>misc/ipv6_proto.h\<close>, \<open>misc/udp_proto.h\<close>.  A packet is the list of its bytes; a 16-bit or
  32-bit header field is the word the little-endian machine loads, in network order.  A check
  returns the header, the offset of the payload in the data and the length of the payload.
\<close>

section \<open>The headers\<close>

record ipv4_header =
  version4_ihl4 :: "8 word"
  ds :: "8 word"
  total_length :: "16 word"
  identification :: "16 word"
  flags3_fragmentoffset13 :: "16 word"
  ttl :: "8 word"
  protocol :: "8 word"
  checksum :: "16 word"
  source_address :: "32 word"
  destination_address :: "32 word"

record ipv6_header =
  version4_tc4 :: "8 word"
  tc4_fl4 :: "8 word"
  fl :: "16 word"
  payload_length :: "16 word"
  next_header :: "8 word"
  hop_limit :: "8 word"
  source_address6 :: bytes
  destination_address6 :: bytes

record udp_header =
  source_port :: "16 word"
  dest_port :: "16 word"
  udp_length :: "16 word"
  udp_checksum_field :: "16 word"

text \<open>The layout of the packed structures, and loading one from the data (\<open>memcpy\<close>).\<close>

definition field16 :: "bytes \<Rightarrow> nat \<Rightarrow> 16 word" where
  "field16 bs k = le16_of (take 2 (drop k bs))"

definition field32 :: "bytes \<Rightarrow> nat \<Rightarrow> 32 word" where
  "field32 bs k = le32_of (take 4 (drop k bs))"

definition ipv4_bytes :: "ipv4_header \<Rightarrow> bytes" where
  "ipv4_bytes h = [version4_ihl4 h, ds h] @ le16_bytes (total_length h) @ le16_bytes (identification h) @
     le16_bytes (flags3_fragmentoffset13 h) @ [ttl h, protocol h] @ le16_bytes (checksum h) @
     le32_bytes (source_address h) @ le32_bytes (destination_address h)"

definition ipv4_load :: "bytes \<Rightarrow> ipv4_header" where
  "ipv4_load bs = \<lparr>version4_ihl4 = bs ! 0, ds = bs ! 1, total_length = field16 bs 2, identification = field16 bs 4,
     flags3_fragmentoffset13 = field16 bs 6, ttl = bs ! 8, protocol = bs ! 9, checksum = field16 bs 10,
     source_address = field32 bs 12, destination_address = field32 bs 16\<rparr>"

definition ipv6_bytes :: "ipv6_header \<Rightarrow> bytes" where
  "ipv6_bytes h = [version4_tc4 h, tc4_fl4 h] @ le16_bytes (fl h) @ le16_bytes (payload_length h) @
     [next_header h, hop_limit h] @ source_address6 h @ destination_address6 h"

definition ipv6_load :: "bytes \<Rightarrow> ipv6_header" where
  "ipv6_load bs = \<lparr>version4_tc4 = bs ! 0, tc4_fl4 = bs ! 1, fl = field16 bs 2, payload_length = field16 bs 4,
     next_header = bs ! 6, hop_limit = bs ! 7, source_address6 = take 16 (drop 8 bs),
     destination_address6 = take 16 (drop 24 bs)\<rparr>"

definition udp_bytes :: "udp_header \<Rightarrow> bytes" where
  "udp_bytes h = le16_bytes (source_port h) @ le16_bytes (dest_port h) @ le16_bytes (udp_length h) @
     le16_bytes (udp_checksum_field h)"

definition udp_load :: "bytes \<Rightarrow> udp_header" where
  "udp_load bs = \<lparr>source_port = field16 bs 0, dest_port = field16 bs 2, udp_length = field16 bs 4,
     udp_checksum_field = field16 bs 6\<rparr>"

section \<open>Checksums\<close>

definition read_be16 :: "bytes \<Rightarrow> nat \<Rightarrow> 16 word" where
  "read_be16 bs i = push_bit 8 (ucast (bs ! i)) OR ucast (bs ! (i + 1))"

text \<open>The sum of \<open>n\<close> big-endian words, in 32 bits; and the folding of the carries.\<close>

definition sum_be16 :: "bytes \<Rightarrow> nat \<Rightarrow> 32 word" where
  "sum_be16 bs n = fold (\<lambda>i t. t + ucast (read_be16 bs (2 * i))) [0..<n] 0"

lemma fold_carry_less: "drop_bit 16 t \<noteq> 0 \<Longrightarrow> unat ((t AND 0xFFFF) + drop_bit 16 t :: 32 word) < unat t"
proof -
  assume nz: "drop_bit 16 t \<noteq> 0"
  have m: "(0xFFFF :: 32 word) = mask 16" by (simp add: mask_eq_exp_minus_1)
  have lo: "unat (t AND 0xFFFF) = unat t mod 65536"
    unfolding m by (simp add: take_bit_eq_mask [symmetric] take_bit_eq_mod unat_mod)
  have hi: "unat (drop_bit 16 t) = unat t div 65536"
    by (simp add: drop_bit_eq_div unat_div)
  have "unat (drop_bit 16 t) \<noteq> 0" using nz by (simp add: unsigned_eq_0_iff)
  then have "65536 \<le> unat t" using hi by (simp add: div_eq_0_iff)
  then have "1 \<le> unat t div 65536" by (simp add: Suc_leI div_greater_zero_iff)
  moreover have "unat t = 65536 * (unat t div 65536) + unat t mod 65536" by simp
  ultimately have "unat t mod 65536 + unat t div 65536 < unat t" by linarith
  moreover have "unat ((t AND 0xFFFF) + drop_bit 16 t) \<le> unat (t AND 0xFFFF) + unat (drop_bit 16 t)"
    by (simp add: unat_word_ariths)
  ultimately show ?thesis using lo hi by simp
qed

function fold_carry :: "32 word \<Rightarrow> 32 word" where
  "fold_carry t = (if drop_bit 16 t \<noteq> 0 then fold_carry ((t AND 0xFFFF) + drop_bit 16 t) else t)"
  by pat_completeness auto
termination
  by (relation "measure unat") (auto intro: fold_carry_less)

declare fold_carry.simps [simp del]

definition ipv4_checksum :: "ipv4_header \<Rightarrow> bytes \<Rightarrow> nat \<Rightarrow> 16 word" where
  "ipv4_checksum header extra extra_len =
     hton16 (ucast (NOT (fold_carry (sum_be16 (ipv4_bytes header) (20 div 2) + sum_be16 extra (extra_len div 2)))))"

definition udp_checksum_summer :: "bytes \<Rightarrow> nat \<Rightarrow> 32 word" where
  "udp_checksum_summer bs len = sum_be16 bs (len div 2)"

text \<open>The end both checksums share: the sum of the payload, a last odd byte as the high byte of
  a word, the folding, the complement, and the replacement of a zero.\<close>

definition udp_sum_payload :: "bytes \<Rightarrow> nat \<Rightarrow> 32 word" where
  "udp_sum_payload payload payload_len =
     (if payload_len mod 2 = 0 then udp_checksum_summer payload payload_len
      else udp_checksum_summer payload (payload_len - 1) +
           udp_checksum_summer (le16_bytes (hton16 (push_bit 8 (ucast (payload ! (payload_len - 1)))))) 2)"

definition udp_checksum_finish :: "32 word \<Rightarrow> 16 word" where
  "udp_checksum_finish t =
     (let t1 = NOT (fold_carry t); t2 = (if t1 = 0 then 0xFFFF else t1) in hton16 (ucast t2))"

definition udp_checksum :: "udp_header \<Rightarrow> bytes \<Rightarrow> nat \<Rightarrow> 32 word \<Rightarrow> 32 word \<Rightarrow> 16 word" where
  "udp_checksum header payload payload_len source_addr dest_addr =
     udp_checksum_finish
       (udp_checksum_summer (le32_bytes source_addr) 4 + udp_checksum_summer (le32_bytes dest_addr) 4 +
        udp_checksum_summer (le16_bytes (hton16 17)) 2 +
        udp_checksum_summer (le16_bytes (hton16 (word_of_nat (8 + payload_len)))) 2 +
        udp_checksum_summer (udp_bytes header) 8 + udp_sum_payload payload payload_len)"

definition udp_ip6_checksum :: "udp_header \<Rightarrow> bytes \<Rightarrow> nat \<Rightarrow> bytes \<Rightarrow> bytes \<Rightarrow> 16 word" where
  "udp_ip6_checksum header payload payload_len source_addr dest_addr =
     udp_checksum_finish
       (udp_checksum_summer source_addr 16 + udp_checksum_summer dest_addr 16 +
        udp_checksum_summer (le32_bytes (hton32 (word_of_nat (8 + payload_len)))) 4 +
        udp_checksum_summer (le32_bytes (hton32 17)) 4 +
        udp_checksum_summer (udp_bytes header) 8 + udp_sum_payload payload payload_len)"

section \<open>Checks\<close>

definition ipv4_check :: "bytes \<Rightarrow> (ipv4_header \<times> nat \<times> nat) option" where
  "ipv4_check data =
     (let data_len = length data; h = ipv4_load data
      in if data_len < 20 then None
         else if drop_bit 4 (version4_ihl4 h AND 0xF0) \<noteq> 4 then None
         else
         let header_len = unat (version4_ihl4 h AND 0x0F) * 4; total = unat (ntoh16 (total_length h))
         in if header_len < 20 then None
            else if header_len > data_len then None
            else if total < header_len then None
            else if total > data_len then None
            else if checksum h \<noteq> ipv4_checksum (h\<lparr>checksum := hton16 0\<rparr>) (drop 20 data) (header_len - 20) then None
            else Some (h, header_len, total - header_len))"

definition ipv6_check :: "bytes \<Rightarrow> (ipv6_header \<times> nat \<times> nat) option" where
  "ipv6_check data =
     (let data_len = length data; h = ipv6_load data
      in if data_len < 40 then None
         else if drop_bit 4 (ntoh8 (version4_tc4 h)) \<noteq> 6 then None
         else
         let len = unat (ntoh16 (payload_length h))
         in if len > data_len - 40 then None else Some (h, 40, len))"

definition udp_check :: "bytes \<Rightarrow> (udp_header \<times> nat \<times> nat) option" where
  "udp_check data =
     (let data_len = length data; h = udp_load data
      in if data_len < 8 then None
         else
         let len = unat (ntoh16 (udp_length h))
         in if len < 8 then None else if len > 8 + (data_len - 8) then None else Some (h, 8, len - 8))"

section \<open>Headers and their bytes\<close>

lemma header_lengths [simp]:
  "length (ipv4_bytes h) = 20" "length (udp_bytes u) = 8"
  "length (source_address6 g) = 16 \<Longrightarrow> length (destination_address6 g) = 16 \<Longrightarrow> length (ipv6_bytes g) = 40"
  by (simp_all add: ipv4_bytes_def udp_bytes_def ipv6_bytes_def)

lemma ipv4_load_bytes: "ipv4_load (ipv4_bytes h @ rest) = h"
  by (simp add: ipv4_load_def ipv4_bytes_def field16_def field32_def nth_append)

lemma udp_load_bytes: "udp_load (udp_bytes h @ rest) = h"
  by (simp add: udp_load_def udp_bytes_def field16_def)

lemma ipv6_load_bytes:
  "length (source_address6 h) = 16 \<Longrightarrow> length (destination_address6 h) = 16 \<Longrightarrow> ipv6_load (ipv6_bytes h @ rest) = h"
  by (simp add: ipv6_load_def ipv6_bytes_def field16_def nth_append)

section \<open>What the checks accept\<close>

lemma nibble: "unat (b AND 0x0F :: 8 word) \<le> 15"
proof -
  have "b AND 0x0F \<le> 0x0F" by (rule word_and_le1)
  then show ?thesis by (simp add: word_le_nat_alt)
qed

lemma ipv4_check_Some:
  "ipv4_check data = Some (h, off, len) \<Longrightarrow>
   20 \<le> off \<and> off \<le> 60 \<and> off + len \<le> length data \<and> 20 \<le> length data \<and> h = ipv4_load data"
  using nibble [of "version4_ihl4 (ipv4_load data)"]
  by (auto simp: ipv4_check_def Let_def split: if_splits)

lemma ipv6_check_Some:
  "ipv6_check data = Some (h, off, len) \<Longrightarrow> off = 40 \<and> off + len \<le> length data \<and> h = ipv6_load data"
  by (auto simp: ipv6_check_def Let_def split: if_splits)

lemma udp_check_Some:
  "udp_check data = Some (u, off, len) \<Longrightarrow> off = 8 \<and> off + len \<le> length data \<and> u = udp_load data"
  by (auto simp: udp_check_def Let_def split: if_splits)

text \<open>For any bytes whatever, a check that accepts a packet gives a payload that lies within the
  packet, behind a header of 20 to 60 bytes for IPv4, 40 bytes for IPv6 and 8 bytes for UDP, and a
  header that is the packet's first bytes.\<close>

theorem checks_stay_in_the_packet:
  "(case ipv4_check data of None \<Rightarrow> True | Some (h, off, len) \<Rightarrow>
      20 \<le> off \<and> off \<le> 60 \<and> off + len \<le> length data \<and> ipv4_load data = h) \<and>
   (case ipv6_check data of None \<Rightarrow> True | Some (h, off, len) \<Rightarrow>
      off = 40 \<and> off + len \<le> length data \<and> ipv6_load data = h) \<and>
   (case udp_check data of None \<Rightarrow> True | Some (u, off, len) \<Rightarrow>
      off = 8 \<and> off + len \<le> length data \<and> udp_load data = u)"
  using ipv4_check_Some [of data] ipv6_check_Some [of data] udp_check_Some [of data]
  by (auto split: option.split)

section \<open>The checksum\<close>

lemma fold_carry_small: "unat (fold_carry t) < 65536"
proof (induction t rule: fold_carry.induct)
  case (1 t)
  show ?case
  proof (cases "drop_bit 16 t = 0")
    case True
    have "unat (drop_bit 16 t) = unat t div 65536" by (simp add: drop_bit_eq_div unat_div)
    with True have "unat t div 65536 = 0" by simp
    then show ?thesis using True by (simp add: fold_carry.simps [of t] div_eq_0_iff)
  next
    case False
    with 1 show ?thesis by (simp add: fold_carry.simps [of t])
  qed
qed

lemma not_fold_carry: "NOT (fold_carry t) \<noteq> 0"
proof
  assume "NOT (fold_carry t) = 0"
  then have "fold_carry t = NOT 0" by (metis bit.double_compl)
  then have "uint (fold_carry t) = uint (- 1 :: 32 word)" by simp
  also have "\<dots> = 4294967295" by code_simp
  finally show False using fold_carry_small [of t] by (simp add: unat_eq_nat_uint)
qed

lemma ucast_not: "(ucast (NOT x :: 32 word) :: 16 word) = NOT (ucast x)"
  by (rule bit_word_eqI) (simp add: bit_simps)

lemma udp_checksum_finish_eq: "udp_checksum_finish t = hton16 (NOT (ucast (fold_carry t)))"
  using not_fold_carry [of t] by (simp add: udp_checksum_finish_def ucast_not Let_def)

lemma hton16_eq_iff: "hton16 x = hton16 y \<longleftrightarrow> x = y"
  by (metis hton16_def reverse_reverse(1))

lemma hton16_zero: "hton16 0 = 0"
  by code_simp

lemma fold_carry_all_ones: "ucast (fold_carry t) = (0xFFFF :: 16 word) \<longleftrightarrow> fold_carry t = 0xFFFF"
proof
  assume "ucast (fold_carry t) = (0xFFFF :: 16 word)"
  then have "unat (ucast (fold_carry t) :: 16 word) = unat (0xFFFF :: 16 word)" by simp
  with fold_carry_small [of t] have "unat (fold_carry t) = unat (0xFFFF :: 32 word)"
    by (simp add: take_bit_nat_eq_self unsigned_ucast_eq)
  then show "fold_carry t = 0xFFFF" by (simp only: word_unat_eq_iff)
qed simp

text \<open>C26: the UDP checksum is the complement of the folded sum and nothing else: the code that
  should send a zero checksum as \<open>0xFFFF\<close>, as UDP requires, never runs, because it tests all 32
  bits of the complement.  The checksum is 0, which on the wire says that there is none, exactly
  if the folded sum is \<open>0xFFFF\<close>.\<close>

theorem udp_checksum_is_the_complement:
  "udp_checksum_finish t = hton16 (NOT (ucast (fold_carry t))) \<and>
   (udp_checksum_finish t = 0 \<longleftrightarrow> fold_carry t = 0xFFFF)"
proof -
  have "udp_checksum_finish t = 0 \<longleftrightarrow> NOT (ucast (fold_carry t) :: 16 word) = 0"
    by (metis udp_checksum_finish_eq hton16_eq_iff hton16_zero)
  also have "\<dots> \<longleftrightarrow> ucast (fold_carry t) = (0xFFFF :: 16 word)"
  proof -
    have ones: "(0xFFFF :: 16 word) = NOT 0" by code_simp
    show ?thesis unfolding ones by (metis bit.double_compl)
  qed
  finally show ?thesis by (simp add: udp_checksum_finish_eq fold_carry_all_ones)
qed

end
