(* ===== verification/Tun_Device.thy ===== *)
theory Tun_Device
  imports Packet_Headers
begin

text \<open>
  The TUN device side of \<open>tun2socks/tun2socks.c\<close>: packets read from the device go to the UDP
  relay or to lwIP, packets from the relay and from lwIP go to the device.  What the program
  calls in the relay, in the device and in lwIP is a list of calls in program order; whether
  lwIP finds memory for a packet and takes it is an argument.
\<close>

section \<open>Configuration and calls\<close>

datatype udp_mode = UdpModeNone | UdpModeUdpgw | UdpModeSocks

record tun_config =
  mode :: udp_mode
  has_ip6addr :: bool
  transparent_dns :: bool
  netif_ip :: "32 word"
  udp_mtu :: int
  device_mtu :: int

datatype tun_call =
    PacketDone
  | SubmitUdpgw BAddr BAddr bool bytes
  | SubmitSocksUdp BAddr BAddr bytes
  | PbufAlloc bytes
  | PbufFree
  | IpInput bytes
  | Ip6Input bytes
  | BTapSend bytes

text \<open>The largest UDP payload, as \<open>main\<close> computes it from the MTU of the device.\<close>

definition compute_udp_mtu :: "int \<Rightarrow> bool \<Rightarrow> int" where
  "compute_udp_mtu dev_mtu ip6 =
     (let m = dev_mtu - (20 + 8);
          m6 = dev_mtu - (40 + 8);
          m1 = (if ip6 then (if m < m6 then m6 else m) else m)
      in if m1 < 0 then 0 else m1)"

section \<open>From the device\<close>

text \<open>The result 0 is \<open>None\<close>; a result 1 comes with the calls made.  The checksum field of the
  UDP header is set to 0 while the checksum is computed.\<close>

definition submit_udp :: "tun_config \<Rightarrow> BAddr \<Rightarrow> BAddr \<Rightarrow> bool \<Rightarrow> bytes \<Rightarrow> tun_call list option" where
  "submit_udp conf local remote is_dns data =
     (if int (length data) > udp_mtu conf then None
      else if mode conf = UdpModeUdpgw then Some [SubmitUdpgw local remote is_dns data]
      else if mode conf = UdpModeSocks then Some [SubmitSocksUdp local remote data]
      else Some [])"

definition process_device_udp_packet :: "tun_config \<Rightarrow> bytes \<Rightarrow> tun_call list option" where
  "process_device_udp_packet conf data =
     (if mode conf = UdpModeNone then None
      else
      let data_len = length data;
          ip_version = (if 0 < data_len then drop_bit 4 (data ! 0) else 0)
      in if ip_version = 4
         then if data_len < 20 \<or> data ! 9 \<noteq> 17 then None
              else case ipv4_check data of
                None \<Rightarrow> None
              | Some (iph, off, len) \<Rightarrow>
                  (let data1 = take len (drop off data)
                   in case udp_check data1 of
                        None \<Rightarrow> None
                      | Some (udph, off2, len2) \<Rightarrow>
                          let data2 = take len2 (drop off2 data1);
                              checksum_in_packet = udp_checksum_field udph;
                              udph1 = udph\<lparr>udp_checksum_field := 0\<rparr>;
                              computed = udp_checksum udph1 data2 (length data2) (source_address iph) (destination_address iph);
                              is_dns = (transparent_dns conf \<and> destination_address iph = netif_ip conf \<and>
                                        dest_port udph = hton16 53)
                          in if checksum_in_packet \<noteq> computed then None
                             else submit_udp conf (BAddr_InitIPv4 (source_address iph) (source_port udph))
                                    (BAddr_InitIPv4 (destination_address iph) (dest_port udph)) is_dns data2)
         else if ip_version = 6
         then if \<not> has_ip6addr conf then None
              else if data_len < 40 \<or> data ! 6 \<noteq> 17 then None
              else case ipv6_check data of
                None \<Rightarrow> None
              | Some (iph, off, len) \<Rightarrow>
                  (let data1 = take len (drop off data)
                   in case udp_check data1 of
                        None \<Rightarrow> None
                      | Some (udph, off2, len2) \<Rightarrow>
                          let data2 = take len2 (drop off2 data1);
                              checksum_in_packet = udp_checksum_field udph;
                              udph1 = udph\<lparr>udp_checksum_field := 0\<rparr>;
                              computed = udp_ip6_checksum udph1 data2 (length data2) (source_address6 iph) (destination_address6 iph)
                          in if checksum_in_packet \<noteq> computed then None
                             else submit_udp conf (BAddr_InitIPv6 (source_address6 iph) (source_port udph))
                                    (BAddr_InitIPv6 (destination_address6 iph) (dest_port udph)) False data2)
         else None)"

text \<open>The input function of the network interface: the packet goes to the right version of IP.\<close>

definition netif_input_func :: "tun_config \<Rightarrow> bytes \<Rightarrow> tun_call" where
  "netif_input_func conf payload =
     (let ip_version = (if 0 < length payload then drop_bit 4 (payload ! 0) else 0)
      in if ip_version = 4 then IpInput payload
         else if ip_version = 6 \<and> has_ip6addr conf then Ip6Input payload
         else PbufFree)"

definition device_read_handler_send :: "tun_config \<Rightarrow> bool \<Rightarrow> bool \<Rightarrow> bytes \<Rightarrow> tun_call list" where
  "device_read_handler_send conf alloc_ok input_ok data =
     [PacketDone] @
     (case process_device_udp_packet conf data of
        Some cs \<Rightarrow> cs
      | None \<Rightarrow>
          if int (length data) > UINT16_MAX then []
          else if \<not> alloc_ok then []
          else [PbufAlloc data, netif_input_func conf data] @
               (if netif_input_func conf data \<noteq> PbufFree \<and> \<not> input_ok then [PbufFree] else []))"

section \<open>To the device\<close>

text \<open>A packet for the device, of two headers and the payload; the addresses of the relay are
  \<open>remote\<close>, the sender, and \<open>local\<close>, the receiver.\<close>

definition relay_udp_header :: "16 word \<Rightarrow> 16 word \<Rightarrow> nat \<Rightarrow> udp_header" where
  "relay_udp_header sport dport data_len =
     \<lparr>source_port = sport, dest_port = dport, udp_length = hton16 (word_of_nat (8 + data_len)),
      udp_checksum_field = hton16 0\<rparr>"

definition relay_ipv4_header :: "32 word \<Rightarrow> 32 word \<Rightarrow> nat \<Rightarrow> ipv4_header" where
  "relay_ipv4_header src dst data_len =
     (let iph = \<lparr>version4_ihl4 = word_of_nat (20 div 4 + push_bit 4 4), ds = hton8 0,
            total_length = hton16 (word_of_nat (20 + 8 + data_len)),
            identification = hton16 0, flags3_fragmentoffset13 = hton16 0,
            ttl = hton8 64, protocol = hton8 17, checksum = hton16 0,
            source_address = src, destination_address = dst\<rparr>
      in iph\<lparr>checksum := ipv4_checksum iph [] 0\<rparr>)"

definition relay_ipv6_header :: "bytes \<Rightarrow> bytes \<Rightarrow> nat \<Rightarrow> ipv6_header" where
  "relay_ipv6_header src dst data_len =
     \<lparr>version4_tc4 = hton8 (push_bit 4 6), tc4_fl4 = hton8 0, fl = hton16 0,
      payload_length = hton16 (word_of_nat (8 + data_len)),
      next_header = hton8 17, hop_limit = hton8 64,
      source_address6 = take 16 src, destination_address6 = take 16 dst\<rparr>"

definition udp_packet4 :: "32 word \<Rightarrow> 16 word \<Rightarrow> 32 word \<Rightarrow> 16 word \<Rightarrow> bytes \<Rightarrow> bytes" where
  "udp_packet4 src sport dst dport data =
     (let iph = relay_ipv4_header src dst (length data);
          udph = relay_udp_header sport dport (length data);
          udph1 = udph\<lparr>udp_checksum_field :=
            udp_checksum udph data (length data) (source_address iph) (destination_address iph)\<rparr>
      in ipv4_bytes iph @ udp_bytes udph1 @ data)"

definition udp_packet6 :: "bytes \<Rightarrow> 16 word \<Rightarrow> bytes \<Rightarrow> 16 word \<Rightarrow> bytes \<Rightarrow> bytes" where
  "udp_packet6 src sport dst dport data =
     (let iph = relay_ipv6_header src dst (length data);
          udph = relay_udp_header sport dport (length data);
          udph1 = udph\<lparr>udp_checksum_field :=
            udp_ip6_checksum udph data (length data) (source_address6 iph) (destination_address6 iph)\<rparr>
      in ipv6_bytes iph @ udp_bytes udph1 @ data)"

text \<open>The code looks at the type of \<open>local_addr\<close> only, and reads the same member of the union in
  \<open>remote_addr\<close>: what it finds there are the bytes of whatever was stored, followed by the
  bytes \<open>junk\<close> of the union that were never written.\<close>

definition union_bytes :: "BAddr \<Rightarrow> bytes \<Rightarrow> bytes" where
  "union_bytes addr junk =
     (case addr of
        BAddr_IPv4 ip port \<Rightarrow> le32_bytes ip @ le16_bytes port @ junk
      | BAddr_IPv6 ip port \<Rightarrow> ip @ le16_bytes port @ junk
      | _ \<Rightarrow> junk)"

definition union_ipv4 :: "BAddr \<Rightarrow> bytes \<Rightarrow> 32 word \<times> 16 word" where
  "union_ipv4 addr junk = (let u = union_bytes addr junk in (field32 u 0, field16 u 4))"

definition union_ipv6 :: "BAddr \<Rightarrow> bytes \<Rightarrow> bytes \<times> 16 word" where
  "union_ipv6 addr junk = (let u = union_bytes addr junk in (take 16 u, field16 u 16))"

definition udp_send_packet_to_device :: "tun_config \<Rightarrow> bytes \<Rightarrow> BAddr \<Rightarrow> BAddr \<Rightarrow> bytes \<Rightarrow> tun_call list" where
  "udp_send_packet_to_device conf junk local_addr remote_addr data =
     (case local_addr of
        BAddr_IPv4 local_ip local_port \<Rightarrow>
          if int (length data) > UINT16_MAX - (20 + 8) \<or> int (length data) > device_mtu conf - (20 + 8) then []
          else (case union_ipv4 remote_addr junk of
                  (remote_ip, remote_port) \<Rightarrow> [BTapSend (udp_packet4 remote_ip remote_port local_ip local_port data)])
      | BAddr_IPv6 local_ip local_port \<Rightarrow>
          if \<not> has_ip6addr conf then []
          else if int (length data) > UINT16_MAX - 8 \<or> int (length data) > device_mtu conf - (40 + 8) then []
          else (case union_ipv6 remote_addr junk of
                  (remote_ip, remote_port) \<Rightarrow> [BTapSend (udp_packet6 remote_ip remote_port local_ip local_port data)])
      | _ \<Rightarrow> [BTapSend []])"

text \<open>A packet from lwIP is a chain of chunks, gathered in the write buffer, whose size is the MTU.\<close>

fun gather :: "int \<Rightarrow> bytes \<Rightarrow> bytes list \<Rightarrow> bytes option" where
  "gather mtu written [] = Some written"
| "gather mtu written (p # ps) =
     (if int (length p) > mtu - int (length written) then None else gather mtu (written @ p) ps)"

definition common_netif_output :: "tun_config \<Rightarrow> bool \<Rightarrow> bytes list \<Rightarrow> tun_call list" where
  "common_netif_output conf quitting chunks =
     (if quitting then []
      else case chunks of
             [p] \<Rightarrow> if int (length p) > device_mtu conf then [] else [BTapSend p]
           | _ \<Rightarrow> (case gather (device_mtu conf) [] chunks of None \<Rightarrow> [] | Some bs \<Rightarrow> [BTapSend bs]))"

definition netif_output_func :: "tun_config \<Rightarrow> bool \<Rightarrow> bytes list \<Rightarrow> tun_call list" where
  "netif_output_func conf quitting p = common_netif_output conf quitting p"

definition netif_output_ip6_func :: "tun_config \<Rightarrow> bool \<Rightarrow> bytes list \<Rightarrow> tun_call list" where
  "netif_output_ip6_func conf quitting p = common_netif_output conf quitting p"

text \<open>The address lwIP holds for an end of a connection; the port comes in host order.\<close>

definition baddr_from_lwip :: "BIPAddr \<Rightarrow> 16 word \<Rightarrow> BAddr" where
  "baddr_from_lwip ip_addr port_hostorder =
     (case ip_addr of
        BIPAddr_IPv6 ip \<Rightarrow> BAddr_InitIPv6 ip (hton16 port_hostorder)
      | BIPAddr_IPv4 ip \<Rightarrow> BAddr_InitIPv4 ip (hton16 port_hostorder)
      | BIPAddr_None \<Rightarrow> BAddr_InitIPv4 0 (hton16 port_hostorder))"

text \<open>The TCP timer: the new value of \<open>tcp_timer_mod4\<close>, and whether the timers of one second run.\<close>

definition tcp_timer_handler :: "int \<Rightarrow> int \<times> bool" where
  "tcp_timer_handler tcp_timer_mod4 = (let m = (tcp_timer_mod4 + 1) mod 4 in (m, m = 0))"

section \<open>What goes to the device fits it\<close>

lemma length_udp_packet4: "length (udp_packet4 src sport dst dport data) = 28 + length data"
  by (simp add: udp_packet4_def Let_def)

lemma length_udp_packet6:
  "length src = 16 \<Longrightarrow> length dst = 16 \<Longrightarrow> length (udp_packet6 src sport dst dport data) = 48 + length data"
  by (simp add: udp_packet6_def relay_ipv6_header_def Let_def)

lemma gather_bound:
  "gather mtu w ps = Some bs \<Longrightarrow> int (length w) \<le> mtu \<Longrightarrow> bs = w @ concat ps \<and> int (length bs) \<le> mtu"
  by (induction mtu w ps rule: gather.induct) (auto split: if_splits)

lemma le32_of_append [simp]: "4 \<le> length bs \<Longrightarrow> le32_of (bs @ cs) = le32_of bs"
  by (cases bs) (auto simp: le32_of_def nth_append)

lemma union_same [simp]:
  "union_ipv4 (BAddr_IPv4 ip port) junk = (ip, port)"
  "length ip6 = 16 \<Longrightarrow> union_ipv6 (BAddr_IPv6 ip6 port) junk = (ip6, port)"
  by (simp_all add: union_ipv4_def union_ipv6_def union_bytes_def field16_def field32_def)

definition sent_frames :: "tun_call list \<Rightarrow> bytes list" where
  "sent_frames cs = concat (map (\<lambda>c. case c of BTapSend f \<Rightarrow> [f] | _ \<Rightarrow> []) cs)"

lemma sent_frames_simps [simp]:
  "sent_frames [] = []" "sent_frames (BTapSend f # cs) = f # sent_frames cs"
  "\<not> (\<exists>f. c = BTapSend f) \<Longrightarrow> sent_frames (c # cs) = sent_frames cs"
  by (auto simp: sent_frames_def split: tun_call.split)

text \<open>No frame for the device is longer than its MTU: neither what lwIP outputs, gathered
  from its chunks, which is then the whole packet, nor what the relay delivers, whose headers
  are counted; 16-byte IPv6 addresses are part of the hypotheses.\<close>

theorem frames_fit_the_mtu:
  assumes "0 \<le> device_mtu conf" and "\<And>ip port. local = BAddr_IPv6 ip port \<Longrightarrow> length ip = 16"
    and "\<And>ip port. local = BAddr_IPv6 ip port \<Longrightarrow> length (fst (union_ipv6 remote junk)) = 16"
  shows "list_all (\<lambda>f. int (length f) \<le> device_mtu conf) (sent_frames (udp_send_packet_to_device conf junk local remote data)) \<and>
    list_all (\<lambda>f. int (length f) \<le> device_mtu conf \<and> f = concat chunks) (sent_frames (common_netif_output conf quitting chunks))"
proof
  show "list_all (\<lambda>f. int (length f) \<le> device_mtu conf) (sent_frames (udp_send_packet_to_device conf junk local remote data))"
    using assms
    by (auto simp: udp_send_packet_to_device_def length_udp_packet4 length_udp_packet6 split: BAddr.split prod.split)
  show "list_all (\<lambda>f. int (length f) \<le> device_mtu conf \<and> f = concat chunks) (sent_frames (common_netif_output conf quitting chunks))"
    using assms(1) gather_bound [of "device_mtu conf" "[]" chunks]
    by (auto simp: common_netif_output_def split: list.split option.split)
qed

theorem frames_fit_the_mtu_witness:
  "list_all (\<lambda>f. length f \<le> 30) (sent_frames (common_netif_output
     \<lparr>mode = UdpModeNone, has_ip6addr = False, transparent_dns = False, netif_ip = 0, udp_mtu = 2, device_mtu = 30\<rparr>
     False [[1, 2], [3]])) \<and>
   common_netif_output \<lparr>mode = UdpModeNone, has_ip6addr = False, transparent_dns = False, netif_ip = 0, udp_mtu = 2,
     device_mtu = 30\<rparr> False [[1, 2], [3]] = [BTapSend [1, 2, 3]]"
  using frames_fit_the_mtu [of "\<lparr>mode = UdpModeNone, has_ip6addr = False, transparent_dns = False, netif_ip = 0,
    udp_mtu = 2, device_mtu = 30\<rparr>" BAddr_None BAddr_None "[]" "[]" "[[1, 2], [3]]" False]
  by (simp add: common_netif_output_def list_all_iff)

section \<open>The relay's packets come back\<close>

lemma ntoh16_hton16: "ntoh16 (hton16 x) = x"
  by (simp add: ntoh16_def hton16_ntoh16 [unfolded ntoh16_def])

lemma ntoh16_word: "n \<le> 65535 \<Longrightarrow> unat (ntoh16 (hton16 (word_of_nat n))) = n"
  by (simp add: ntoh16_hton16 unat_word_of_nat_16)

lemma sum_be16_0 [simp]: "sum_be16 bs 0 = 0"
  by (simp add: sum_be16_def)

lemma version_45: "(word_of_nat (20 div 4 + push_bit 4 4) :: 8 word) = 0x45" "(push_bit 4 6 :: 8 word) = 0x60"
  by code_simp+

lemma version_bits:
  "drop_bit 4 ((0x45 :: 8 word) AND 0xF0) = 4" "unat ((0x45 :: 8 word) AND 0x0F) = 5"
  "drop_bit 4 (0x45 :: 8 word) = 4" "drop_bit 4 (0x60 :: 8 word) = 6"
  by code_simp+

lemma udp_check_packet:
  assumes "udp_length u = hton16 (word_of_nat (8 + length data))" and "8 + length data \<le> 65535"
  shows "udp_check (udp_bytes u @ data) = Some (u, 8, length data)"
proof -
  have "unat (ntoh16 (udp_length u)) = 8 + length data" unfolding assms(1) by (rule ntoh16_word) (use assms(2) in simp)
  then show ?thesis by (simp add: udp_check_def udp_load_bytes)
qed

lemma hd_headers:
  "(ipv4_bytes h @ rest) ! 0 = version4_ihl4 h" "(ipv4_bytes h @ rest) ! 9 = protocol h"
  "(ipv6_bytes g @ rest) ! 0 = version4_tc4 g" "(ipv6_bytes g @ rest) ! 6 = next_header g"
  by (simp_all add: ipv4_bytes_def ipv6_bytes_def nth_append)

lemma zero_checksum:
  "relay_udp_header sport dport n\<lparr>udp_checksum_field := c, udp_checksum_field := 0\<rparr> = relay_udp_header sport dport n"
  by (simp add: relay_udp_header_def hton16_zero)

text \<open>A packet with the headers of the relay and any UDP checksum \<open>c\<close> is submitted exactly if
  \<open>c\<close> is the checksum the code computes.\<close>

lemma process_relay4:
  assumes "mode conf \<noteq> UdpModeNone" and "28 + length data \<le> 65535"
  shows "process_device_udp_packet conf (ipv4_bytes (relay_ipv4_header src dst (length data)) @
      udp_bytes (relay_udp_header sport dport (length data)\<lparr>udp_checksum_field := c\<rparr>) @ data) =
    (if c \<noteq> udp_checksum (relay_udp_header sport dport (length data)) data (length data) src dst then None
     else submit_udp conf (BAddr_IPv4 src sport) (BAddr_IPv4 dst dport)
       (transparent_dns conf \<and> dst = netif_ip conf \<and> dport = hton16 53) data)"
proof -
  let ?h = "relay_ipv4_header src dst (length data)"
  let ?base = "relay_udp_header sport dport (length data)"
  let ?u = "?base\<lparr>udp_checksum_field := c\<rparr>"
  let ?pkt = "ipv4_bytes ?h @ udp_bytes ?u @ data"
  note u0 = zero_checksum [of c sport dport "length data"]
  have f: "version4_ihl4 ?h = 0x45" "protocol ?h = 17" "total_length ?h = hton16 (word_of_nat (28 + length data))"
    "checksum ?h = ipv4_checksum (?h\<lparr>checksum := hton16 0\<rparr>) (udp_bytes ?u @ data) 0" "source_address ?h = src" "destination_address ?h = dst"
    unfolding relay_ipv4_header_def Let_def version_45 by (simp_all add: hton8_def ipv4_checksum_def)
  have g: "source_port ?base = sport" "dest_port ?base = dport" "udp_length ?u = hton16 (word_of_nat (8 + length data))"
    "udp_checksum_field ?u = c"
    by (simp_all add: relay_udp_header_def)
  have "unat (ntoh16 (total_length ?h)) = 28 + length data"
    unfolding f(3) by (rule ntoh16_word) (use assms(2) in simp)
  then have check4: "ipv4_check ?pkt = Some (?h, 20, 8 + length data)"
    by (simp add: ipv4_check_def ipv4_load_bytes Let_def f(1) version_bits f(4) [symmetric])
  have check_udp: "udp_check (udp_bytes ?u @ data) = Some (?u, 8, length data)"
    using g(3) assms(2) by (intro udp_check_packet) simp_all
  have len: "\<not> length ?pkt < 20" "0 < length ?pkt" by simp_all
  show ?thesis
    unfolding process_device_udp_packet_def Let_def hd_headers f(1,2) version_bits check4
    using assms(1) len by (simp add: check_udp u0 f(5,6) g(1,2,4) BAddr_InitIPv4_def BAddr_MakeIPv4_def)
qed

lemma process_relay6:
  assumes "mode conf \<noteq> UdpModeNone" and "8 + length data \<le> 65535" and "has_ip6addr conf"
    and "length src = 16" and "length dst = 16"
  shows "process_device_udp_packet conf (ipv6_bytes (relay_ipv6_header src dst (length data)) @
      udp_bytes (relay_udp_header sport dport (length data)\<lparr>udp_checksum_field := c\<rparr>) @ data) =
    (if c \<noteq> udp_ip6_checksum (relay_udp_header sport dport (length data)) data (length data) src dst then None
     else submit_udp conf (BAddr_IPv6 src sport) (BAddr_IPv6 dst dport) False data)"
proof -
  let ?h = "relay_ipv6_header src dst (length data)"
  let ?base = "relay_udp_header sport dport (length data)"
  let ?u = "?base\<lparr>udp_checksum_field := c\<rparr>"
  let ?pkt = "ipv6_bytes ?h @ udp_bytes ?u @ data"
  note u0 = zero_checksum [of c sport dport "length data"]
  have f: "version4_tc4 ?h = 0x60" "next_header ?h = 17" "payload_length ?h = hton16 (word_of_nat (8 + length data))"
    "source_address6 ?h = src" "destination_address6 ?h = dst"
    unfolding relay_ipv6_header_def version_45 using assms(4,5) by (simp_all add: hton8_def)
  have g: "source_port ?base = sport" "dest_port ?base = dport" "udp_length ?u = hton16 (word_of_nat (8 + length data))"
    "udp_checksum_field ?u = c"
    by (simp_all add: relay_udp_header_def)
  have len6: "length (ipv6_bytes ?h) = 40" using f(4,5) assms(4,5) by simp
  have "unat (ntoh16 (payload_length ?h)) = 8 + length data"
    unfolding f(3) by (rule ntoh16_word) (use assms(2) in simp)
  then have check6: "ipv6_check ?pkt = Some (?h, 40, 8 + length data)"
    using assms(4,5) by (simp add: ipv6_check_def ipv6_load_bytes Let_def f(1,4,5) version_bits len6 ntoh8_def hton8_def)
  have check_udp: "udp_check (udp_bytes ?u @ data) = Some (?u, 8, length data)"
    using g(3) assms(2) by (intro udp_check_packet) simp_all
  have len: "\<not> length ?pkt < 40" "0 < length ?pkt" using len6 by simp_all
  have four: "(6 :: 8 word) \<noteq> 4" by simp
  show ?thesis
    unfolding process_device_udp_packet_def Let_def hd_headers f(1,2) version_bits check6
    using assms len four
    by (simp add: check_udp len6 u0 f(4,5) g(1,2,4) BAddr_InitIPv6_def BAddr_MakeIPv6_def)
qed

text \<open>C25: what the relay delivers to the device as a datagram from \<open>remote\<close> to \<open>local\<close> is a
  packet that the program itself, reading it from the device, takes for the same datagram:
  headers, lengths and checksums are right for IPv4 and for IPv6.\<close>

theorem relayed_datagrams_parse:
  assumes "mode conf \<noteq> UdpModeNone" and "udp_mtu conf = compute_udp_mtu (device_mtu conf) (has_ip6addr conf)"
    and "length lip6 = 16" and "length rip6 = 16"
  shows "list_all (\<lambda>pkt. process_device_udp_packet conf pkt =
        submit_udp conf (BAddr_IPv4 rip rport) (BAddr_IPv4 lip lport)
          (transparent_dns conf \<and> lip = netif_ip conf \<and> lport = hton16 53) data \<and>
        submit_udp conf (BAddr_IPv4 rip rport) (BAddr_IPv4 lip lport)
          (transparent_dns conf \<and> lip = netif_ip conf \<and> lport = hton16 53) data \<noteq> None)
      (sent_frames (udp_send_packet_to_device conf junk (BAddr_IPv4 lip lport) (BAddr_IPv4 rip rport) data)) \<and>
    list_all (\<lambda>pkt. process_device_udp_packet conf pkt =
        submit_udp conf (BAddr_IPv6 rip6 rport) (BAddr_IPv6 lip6 lport) False data \<and>
        submit_udp conf (BAddr_IPv6 rip6 rport) (BAddr_IPv6 lip6 lport) False data \<noteq> None)
      (sent_frames (udp_send_packet_to_device conf junk (BAddr_IPv6 lip6 lport) (BAddr_IPv6 rip6 rport) data))"
proof -
  have fit: "submit_udp conf l r d data \<noteq> None" if "int (length data) \<le> udp_mtu conf" for l r d
    using that by (simp add: submit_udp_def)
  have four: "process_device_udp_packet conf (udp_packet4 rip rport lip lport data) =
      submit_udp conf (BAddr_IPv4 rip rport) (BAddr_IPv4 lip lport)
        (transparent_dns conf \<and> lip = netif_ip conf \<and> lport = hton16 53) data"
    if "int (length data) \<le> UINT16_MAX - (20 + 8)"
  proof -
    have "28 + length data \<le> 65535" using that by (simp add: UINT16_MAX_def)
    moreover have "source_address (relay_ipv4_header rip lip n) = rip" "destination_address (relay_ipv4_header rip lip n) = lip" for n
      by (simp_all add: relay_ipv4_header_def Let_def)
    ultimately show ?thesis using process_relay4 [OF assms(1)] by (simp add: udp_packet4_def Let_def)
  qed
  have six: "process_device_udp_packet conf (udp_packet6 rip6 rport lip6 lport data) =
      submit_udp conf (BAddr_IPv6 rip6 rport) (BAddr_IPv6 lip6 lport) False data"
    if "int (length data) \<le> UINT16_MAX - 8" "has_ip6addr conf"
  proof -
    have "8 + length data \<le> 65535" using that by (simp add: UINT16_MAX_def)
    moreover have "source_address6 (relay_ipv6_header rip6 lip6 n) = rip6" "destination_address6 (relay_ipv6_header rip6 lip6 n) = lip6" for n
      using assms(3,4) by (simp_all add: relay_ipv6_header_def)
    ultimately show ?thesis using process_relay6 [OF assms(1)] assms(3,4) that(2) by (simp add: udp_packet6_def Let_def)
  qed
  have mtu: "device_mtu conf - 28 \<le> udp_mtu conf" "device_mtu conf - 48 \<le> udp_mtu conf"
    by (simp_all add: assms(2) compute_udp_mtu_def Let_def)
  show ?thesis
    using four six mtu fit assms(4) by (simp add: udp_send_packet_to_device_def)
qed

definition sample_conf :: tun_config where
  "sample_conf = \<lparr>mode = UdpModeUdpgw, has_ip6addr = False, transparent_dns = False, netif_ip = 0x0100000A,
     udp_mtu = 1472, device_mtu = 1500\<rparr>"

theorem relayed_datagrams_parse_witness:
  "process_device_udp_packet sample_conf (udp_packet4 0x08080808 0x3500 0x0200000A 0x8813 [1, 2, 3]) =
     Some [SubmitUdpgw (BAddr_IPv4 0x08080808 0x3500) (BAddr_IPv4 0x0200000A 0x8813) False [1, 2, 3]]"
proof -
  have "udp_send_packet_to_device sample_conf [] (BAddr_IPv4 0x0200000A 0x8813) (BAddr_IPv4 0x08080808 0x3500) [1, 2, 3] =
      [BTapSend (udp_packet4 0x08080808 0x3500 0x0200000A 0x8813 [1, 2, 3])]"
    by (simp add: udp_send_packet_to_device_def sample_conf_def UINT16_MAX_def)
  then show ?thesis
    using relayed_datagrams_parse [of sample_conf "replicate 16 0" "replicate 16 0" "0x08080808" "0x3500" "0x0200000A" "0x8813"
        "[1, 2, 3]" "[]"]
    by (simp add: sample_conf_def compute_udp_mtu_def submit_udp_def)
qed

text \<open>C27: a datagram whose checksum is computed as 0 has to be sent with \<open>0xFFFF\<close>, says UDP,
  since 0 means that there is no checksum; the code accepts it with 0 and rejects it with
  \<open>0xFFFF\<close>, so that one correct datagram out of 65536 never reaches the relay.\<close>

theorem all_ones_checksum_is_rejected:
  assumes "mode conf \<noteq> UdpModeNone" and "28 + length data \<le> 65535" and "int (length data) \<le> udp_mtu conf"
    and "udp_checksum (relay_udp_header sport dport (length data)) data (length data) src dst = 0"
  shows "process_device_udp_packet conf (ipv4_bytes (relay_ipv4_header src dst (length data)) @
      udp_bytes (relay_udp_header sport dport (length data)\<lparr>udp_checksum_field := 0xFFFF\<rparr>) @ data) = None \<and>
    process_device_udp_packet conf (ipv4_bytes (relay_ipv4_header src dst (length data)) @
      udp_bytes (relay_udp_header sport dport (length data)\<lparr>udp_checksum_field := 0\<rparr>) @ data) \<noteq> None"
  using process_relay4 [OF assms(1,2)] assms(3,4) by (simp add: submit_udp_def)

theorem all_ones_checksum_is_rejected_witness:
  "udp_checksum (relay_udp_header 0xDEFF 0 0) [] 0 0 0 = 0 \<and>
   process_device_udp_packet sample_conf (ipv4_bytes (relay_ipv4_header 0 0 0) @
     udp_bytes (relay_udp_header 0xDEFF 0 0\<lparr>udp_checksum_field := 0xFFFF\<rparr>)) = None"
proof -
  have "udp_checksum (relay_udp_header 0xDEFF 0 0) [] 0 0 0 = 0" by code_simp
  with all_ones_checksum_is_rejected [of sample_conf "[]" "0xDEFF" 0 0 0] show ?thesis
    by (simp add: sample_conf_def)
qed

section \<open>What goes to the relay\<close>

lemma submit_udp_Some:
  "submit_udp conf l r d p = Some cs \<Longrightarrow> mode conf \<noteq> UdpModeNone \<Longrightarrow>
   int (length p) \<le> udp_mtu conf \<and> (cs = [SubmitUdpgw l r d p] \<or> cs = [SubmitSocksUdp l r p])"
  by (cases "mode conf") (auto simp: submit_udp_def split: if_splits)

lemma slice_slice: "off2 + len2 \<le> len \<Longrightarrow> take len2 (drop off2 (take len (drop off data))) = take len2 (drop (off + off2) data)"
  by (simp add: drop_take min_def add.commute)

text \<open>Whatever bytes the device delivers, what is submitted to the relay is one datagram: a part
  of the packet behind at least 28 bytes of headers that lies within the packet and is not longer
  than the UDP MTU.\<close>

theorem submitted_datagram_is_in_the_packet:
  assumes "process_device_udp_packet conf data = Some cs"
  shows "\<exists>k n l r d. 28 \<le> k \<and> k + n \<le> length data \<and> int n \<le> udp_mtu conf \<and>
    (cs = [SubmitUdpgw l r d (take n (drop k data))] \<or> cs = [SubmitSocksUdp l r (take n (drop k data))])"
proof -
  have mode: "mode conf \<noteq> UdpModeNone" using assms by (auto simp: process_device_udp_packet_def)
  define goal where "goal \<longleftrightarrow> (\<exists>k n l r d. 28 \<le> k \<and> k + n \<le> length data \<and> int n \<le> udp_mtu conf \<and>
      (cs = [SubmitUdpgw l r d (take n (drop k data))] \<or> cs = [SubmitSocksUdp l r (take n (drop k data))]))"
  have slice: goal
    if "submit_udp conf l r d (take len2 (drop off2 (take len (drop off data)))) = Some cs"
      "20 \<le> off" "off + len \<le> length data" "udp_check (take len (drop off data)) = Some (u, off2, len2)"
    for l r d off off2 len len2 u
  proof -
    have off2: "off2 = 8" and in2: "off2 + len2 \<le> len" using udp_check_Some [OF that(4)] that(3) by auto
    let ?p = "take len2 (drop (off + off2) data)"
    have "length ?p = len2" using in2 that(3) by simp
    moreover have "int (length ?p) \<le> udp_mtu conf \<and> (cs = [SubmitUdpgw l r d ?p] \<or> cs = [SubmitSocksUdp l r ?p])"
      using submit_udp_Some [OF _ mode] that(1) slice_slice [OF in2] by metis
    ultimately show ?thesis unfolding goal_def using that(2,3) off2 in2
      by (intro exI [of _ "off + off2"] exI [of _ len2]) auto
  qed
  have goal
    using assms mode unfolding process_device_udp_packet_def Let_def
    by (auto split: if_splits option.splits prod.splits dest!: ipv4_check_Some ipv6_check_Some elim!: slice)
  then show ?thesis unfolding goal_def .
qed

theorem submitted_datagram_is_in_the_packet_witness:
  "\<exists>k n l r d. 28 \<le> k \<and> k + n \<le> 28 \<and> int n \<le> 1472 \<and>
     ([SubmitUdpgw (BAddr_IPv4 0 0xDEFF) (BAddr_IPv4 0 0) False []] =
        [SubmitUdpgw l r d (take n (drop k (udp_packet4 0 0xDEFF 0 0 [])))] \<or>
      [SubmitUdpgw (BAddr_IPv4 0 0xDEFF) (BAddr_IPv4 0 0) False []] =
        [SubmitSocksUdp l r (take n (drop k (udp_packet4 0 0xDEFF 0 0 [])))])"
proof -
  have addr: "source_address (relay_ipv4_header 0 0 n) = 0" "destination_address (relay_ipv4_header 0 0 n) = 0" for n
    by (simp_all add: relay_ipv4_header_def Let_def)
  have run: "process_device_udp_packet sample_conf (udp_packet4 0 0xDEFF 0 0 []) =
      Some [SubmitUdpgw (BAddr_IPv4 0 0xDEFF) (BAddr_IPv4 0 0) False []]"
    using process_relay4 [where conf = sample_conf and data = "[]" and src = 0 and dst = 0 and sport = "0xDEFF" and dport = 0]
    by (simp add: sample_conf_def udp_packet4_def Let_def submit_udp_def addr)
  from submitted_datagram_is_in_the_packet [OF run] show ?thesis
    by (simp add: length_udp_packet4 sample_conf_def)
qed

text \<open>A datagram for an IPv4 client that the SOCKS server labels with an IPv6 address: the source
  address and port of the packet are the first six bytes of that address.\<close>

theorem remote_type_is_not_checked:
  "length rip6 = 16 \<Longrightarrow>
   udp_send_packet_to_device conf junk (BAddr_IPv4 lip lport) (BAddr_IPv6 rip6 rport) data =
   udp_send_packet_to_device conf junk (BAddr_IPv4 lip lport) (BAddr_IPv4 (field32 rip6 0) (field16 rip6 4)) data"
proof -
  assume len: "length rip6 = 16"
  have "union_ipv4 (BAddr_IPv6 rip6 rport) junk = (field32 rip6 0, field16 rip6 4)"
    using len by (simp add: union_ipv4_def union_bytes_def field32_def field16_def)
  then show ?thesis by (simp add: udp_send_packet_to_device_def)
qed

end
