(* ===== verification/Socks_Client.thy ===== *)
theory Socks_Client
  imports Addresses
begin

text \<open>
  The SOCKS5 client, \<open>socksclient/BSocksClient.c\<close>, with the messages of \<open>misc/socks_proto.h\<close>.  A handler is a function on
  the client structure that returns the calls it makes in program order, the accesses to its
  heap buffer among them.  The table of authentication methods is not copied by the code, so it is an
  argument: each handler reads it as it is at that moment.  The results of the allocator and of
  \<open>BConnection_Init\<close> are arguments as well.
\<close>

section \<open>Messages\<close>

definition SOCKS_VERSION :: byte where "SOCKS_VERSION = 0x05"
definition SOCKS_METHOD_NO_AUTHENTICATION_REQUIRED :: byte where "SOCKS_METHOD_NO_AUTHENTICATION_REQUIRED = 0x00"
definition SOCKS_METHOD_USERNAME_PASSWORD :: byte where "SOCKS_METHOD_USERNAME_PASSWORD = 0x02"
definition SOCKS_CMD_CONNECT :: byte where "SOCKS_CMD_CONNECT = 0x01"
definition SOCKS_CMD_UDP_ASSOCIATE :: byte where "SOCKS_CMD_UDP_ASSOCIATE = 0x03"
definition SOCKS_ATYP_IPV4 :: byte where "SOCKS_ATYP_IPV4 = 0x01"
definition SOCKS_ATYP_IPV6 :: byte where "SOCKS_ATYP_IPV6 = 0x04"
definition SOCKS_REP_SUCCEEDED :: byte where "SOCKS_REP_SUCCEEDED = 0x00"

lemmas socks_consts = SOCKS_VERSION_def SOCKS_METHOD_NO_AUTHENTICATION_REQUIRED_def SOCKS_METHOD_USERNAME_PASSWORD_def
  SOCKS_CMD_CONNECT_def SOCKS_CMD_UDP_ASSOCIATE_def SOCKS_ATYP_IPV4_def SOCKS_ATYP_IPV6_def SOCKS_REP_SUCCEEDED_def

text \<open>The packed structures, as bytes.\<close>

definition socks_client_hello_header :: "byte \<Rightarrow> byte \<Rightarrow> bytes" where
  "socks_client_hello_header ver nmethods = [ver, nmethods]"

definition socks_request_header :: "byte \<Rightarrow> byte \<Rightarrow> byte \<Rightarrow> byte \<Rightarrow> bytes" where
  "socks_request_header ver cmd rsv atyp = [ver, cmd, rsv, atyp]"

definition socks_addr_ipv4 :: "32 word \<Rightarrow> 16 word \<Rightarrow> bytes" where
  "socks_addr_ipv4 addr port = le32_bytes addr @ le16_bytes port"

definition socks_addr_ipv6 :: "bytes \<Rightarrow> 16 word \<Rightarrow> bytes" where
  "socks_addr_ipv6 addr port = addr @ le16_bytes port"

section \<open>The client\<close>

record BSocksClient_auth_info =
  auth_type :: byte
  auth_username :: bytes
  auth_password :: bytes

definition BSocksClient_auth_none :: BSocksClient_auth_info where
  "BSocksClient_auth_none = \<lparr>auth_type = SOCKS_METHOD_NO_AUTHENTICATION_REQUIRED, auth_username = [], auth_password = []\<rparr>"

definition BSocksClient_auth_password :: "bytes \<Rightarrow> bytes \<Rightarrow> BSocksClient_auth_info" where
  "BSocksClient_auth_password u p = \<lparr>auth_type = SOCKS_METHOD_USERNAME_PASSWORD, auth_username = u, auth_password = p\<rparr>"

datatype socks_state =
    STATE_CONNECTING | STATE_CONNECTED_HANDLER | STATE_SENDING_HELLO | STATE_SENT_HELLO
  | STATE_SENDING_PASSWORD | STATE_SENT_PASSWORD | STATE_SENDING_REQUEST | STATE_SENT_REQUEST
  | STATE_RECEIVED_REPLY_HEADER | STATE_UP

datatype socks_event = EVENT_ERROR | EVENT_UP | EVENT_ERROR_CLOSED | EVENT_CONNECTED

text \<open>\<open>buffer\<close> is the contents of the allocated block, \<open>recv_dest\<close> an offset in it.\<close>

record BSocksClient =
  num_auth_info :: nat
  dest_addr :: BAddr
  udp :: bool
  bind_addr :: BAddr
  sstate :: socks_state
  buffer :: "bytes option"
  recv_dest :: nat
  recv_len :: nat
  recv_total :: nat

datatype socks_call =
    JobInit | JobFree | JobSet
  | ConnectorInit BAddr | ConnectorFree
  | ConnectionInit bool | ConnectionFree
  | RecvAsyncInit | RecvAsyncFree | SendAsyncInit | SendAsyncFree
  | SenderInit int | SenderFree
  | Realloc nat bool | BufferFree
  | Access nat nat
  | Send nat
  | Receive nat nat
  | Handler socks_event
  | AssertThat bool

type_synonym socks_run = "BSocksClient \<times> socks_call list"

text \<open>The allocator: whether the next allocations succeed, and what fresh memory holds.\<close>

record socks_world =
  alloc_ok :: bool
  junk :: "nat \<Rightarrow> byte"
  connection_ok :: bool

definition the_buffer :: "BSocksClient \<Rightarrow> bytes" where
  "the_buffer c = (case buffer c of None \<Rightarrow> [] | Some b \<Rightarrow> b)"

text \<open>A \<open>memcpy\<close> into the buffer.\<close>

definition put :: "nat \<Rightarrow> bytes \<Rightarrow> BSocksClient \<Rightarrow> BSocksClient" where
  "put off bs c = c\<lparr>buffer := Some (take off (the_buffer c) @ bs @ drop (off + length bs) (the_buffer c))\<rparr>"

section \<open>Helpers of the code\<close>

definition report_error :: "BSocksClient \<Rightarrow> socks_event \<Rightarrow> socks_run" where
  "report_error c error = (c, [Handler error])"

definition init_control_io :: "socks_call list" where
  "init_control_io = [RecvAsyncInit, SendAsyncInit, SenderInit INT_MAX]"

definition free_control_io :: "socks_call list" where
  "free_control_io = [SenderFree, SendAsyncFree, RecvAsyncFree]"

definition init_up_io :: "socks_call list" where
  "init_up_io = [RecvAsyncInit, SendAsyncInit]"

definition free_up_io :: "socks_call list" where
  "free_up_io = [SendAsyncFree, RecvAsyncFree]"

definition reserve_buffer :: "socks_world \<Rightarrow> BSocksClient \<Rightarrow> bsize_t \<Rightarrow> socks_run \<times> bool" where
  "reserve_buffer w c sz =
     (if is_overflow sz then ((c, []), False)
      else
      let n = unat (bsize_value sz)
      in if \<not> alloc_ok w then ((c, [Realloc n False]), False)
         else ((c\<lparr>buffer := Some (take n (the_buffer c) @ map (junk w) [length (the_buffer c)..<n])\<rparr>, [Realloc n True]), True))"

definition do_receive :: "BSocksClient \<Rightarrow> socks_run" where
  "do_receive c = (c, [AssertThat (recv_len c < recv_total c), Receive (recv_dest c + recv_len c) (recv_total c - recv_len c)])"

definition start_receive :: "BSocksClient \<Rightarrow> nat \<Rightarrow> nat \<Rightarrow> socks_run" where
  "start_receive c dest amount =
     (case do_receive (c\<lparr>recv_dest := dest, recv_len := 0, recv_total := amount\<rparr>) of
        (c1, cs) \<Rightarrow> (c1, [AssertThat (0 < amount)] @ cs))"

section \<open>Handlers\<close>

definition connector_handler :: "socks_world \<Rightarrow> BSocksClient \<Rightarrow> bool \<Rightarrow> socks_run" where
  "connector_handler w c is_error =
     (let pre = [AssertThat (sstate c = STATE_CONNECTING)]
      in if is_error
         then (case report_error c EVENT_ERROR of (c1, cs) \<Rightarrow> (c1, pre @ cs))
         else if \<not> connection_ok w
         then (case report_error c EVENT_ERROR of (c1, cs) \<Rightarrow> (c1, pre @ [ConnectionInit False] @ cs))
         else (c\<lparr>sstate := STATE_CONNECTED_HANDLER\<rparr>,
               pre @ [ConnectionInit True] @ init_control_io @ [JobSet, Handler EVENT_CONNECTED]))"

definition connection_handler :: "BSocksClient \<Rightarrow> bool \<Rightarrow> socks_run" where
  "connection_handler c recvclosed =
     (let pre = [AssertThat (sstate c \<noteq> STATE_CONNECTING)]
      in if sstate c = STATE_UP \<and> recvclosed
         then (case report_error c EVENT_ERROR_CLOSED of (c1, cs) \<Rightarrow> (c1, pre @ cs))
         else (case report_error c EVENT_ERROR of (c1, cs) \<Rightarrow> (c1, pre @ cs)))"

text \<open>The loop that writes the methods of the hello.\<close>

fun write_methods :: "nat \<Rightarrow> BSocksClient_auth_info list \<Rightarrow> BSocksClient \<Rightarrow> socks_run" where
  "write_methods i [] c = (c, [])"
| "write_methods i (a # as) c =
     (case write_methods (i + 1) as (put (2 + i) [auth_type a] c) of (c1, cs) \<Rightarrow> (c1, Access (2 + i) 1 # cs))"

definition continue_job_handler :: "socks_world \<Rightarrow> BSocksClient_auth_info list \<Rightarrow> BSocksClient \<Rightarrow> socks_run" where
  "continue_job_handler w auth c =
     (let pre = [AssertThat (sstate c = STATE_CONNECTED_HANDLER)]
      in if num_auth_info c = 0 \<or> num_auth_info c > 255
         then (case report_error c EVENT_ERROR of (c1, cs) \<Rightarrow> (c1, pre @ cs))
         else
         let sz = bsize_add (bsize_fromsize 2) (bsize_mul (bsize_fromsize (word_of_nat (num_auth_info c))) (bsize_fromsize 1))
         in case reserve_buffer w c sz of
              ((c1, cs1), False) \<Rightarrow> (case report_error c1 EVENT_ERROR of (c2, cs2) \<Rightarrow> (c2, pre @ cs1 @ cs2))
            | ((c1, cs1), True) \<Rightarrow>
                let c2 = put 0 (socks_client_hello_header (hton8 SOCKS_VERSION) (hton8 (word_of_nat (num_auth_info c)))) c1;
                    (c3, cs3) = write_methods 0 (take (num_auth_info c) auth) c2
                in (c3\<lparr>sstate := STATE_SENDING_HELLO\<rparr>,
                    pre @ cs1 @ [Access 0 2] @ cs3 @ [Send (unat (bsize_value sz))]))"

definition auth_finished :: "socks_world \<Rightarrow> BSocksClient \<Rightarrow> socks_run" where
  "auth_finished w c =
     (let sz0 = bsize_fromsize 4
      in case (case dest_addr c of
                 BAddr_IPv4 _ _ \<Rightarrow> Some (bsize_add sz0 (bsize_fromsize 6))
               | BAddr_IPv6 _ _ \<Rightarrow> Some (bsize_add sz0 (bsize_fromsize 18))
               | _ \<Rightarrow> None) of
           None \<Rightarrow> report_error c EVENT_ERROR
         | Some sz \<Rightarrow>
             (case reserve_buffer w c sz of
                ((c1, cs1), False) \<Rightarrow> (case report_error c1 EVENT_ERROR of (c2, cs2) \<Rightarrow> (c2, cs1 @ cs2))
              | ((c1, cs1), True) \<Rightarrow>
                  let cmd = hton8 (if udp c then SOCKS_CMD_UDP_ASSOCIATE else SOCKS_CMD_CONNECT);
                      (c2, cs2, atyp) =
                        (case dest_addr c of
                           BAddr_IPv4 ip port \<Rightarrow> (put 4 (socks_addr_ipv4 ip port) c1, [Access 4 6], hton8 SOCKS_ATYP_IPV4)
                         | BAddr_IPv6 ip port \<Rightarrow> (put 4 (socks_addr_ipv6 ip port) c1, [Access 4 18], hton8 SOCKS_ATYP_IPV6)
                         | _ \<Rightarrow> (c1, [AssertThat False], 0));
                      c3 = put 0 (socks_request_header (hton8 SOCKS_VERSION) cmd (hton8 0) atyp) c2
                  in (c3\<lparr>sstate := STATE_SENDING_REQUEST\<rparr>, cs1 @ cs2 @ [Access 0 4, Send (unat (bsize_value sz))])))"

text \<open>The reply to the hello: the first method of the table with the number the server chose.\<close>

definition received_hello :: "socks_world \<Rightarrow> BSocksClient_auth_info list \<Rightarrow> BSocksClient \<Rightarrow> socks_run" where
  "received_hello w auth c =
     (let pre = [Access 0 2];
          imsg_ver = ntoh8 (the_buffer c ! 0);
          imsg_method = ntoh8 (the_buffer c ! 1);
          failed = (case report_error c EVENT_ERROR of (c1, cs) \<Rightarrow> (c1, pre @ cs))
      in if imsg_ver \<noteq> SOCKS_VERSION then failed
         else case find (\<lambda>ai. auth_type ai = imsg_method) (take (num_auth_info c) auth) of
                None \<Rightarrow> failed
              | Some ai \<Rightarrow>
                  if auth_type ai = SOCKS_METHOD_NO_AUTHENTICATION_REQUIRED
                  then (case auth_finished w c of (c1, cs) \<Rightarrow> (c1, pre @ cs))
                  else if auth_type ai = SOCKS_METHOD_USERNAME_PASSWORD
                  then if auth_username ai = [] \<or> length (auth_username ai) > 255 \<or> auth_password ai = [] \<or> length (auth_password ai) > 255
                       then failed
                       else
                       let ulen = length (auth_username ai); plen = length (auth_password ai);
                           sz = bsize_fromsize (word_of_nat (1 + 1 + ulen + 1 + plen))
                       in case reserve_buffer w c sz of
                            ((c1, cs1), False) \<Rightarrow> (case report_error c1 EVENT_ERROR of (c2, cs2) \<Rightarrow> (c2, pre @ cs1 @ cs2))
                          | ((c1, cs1), True) \<Rightarrow>
                              let c2 = put 0 [1] c1;
                                  c3 = put 1 [word_of_nat ulen] c2;
                                  c4 = put 2 (auth_username ai) c3;
                                  c5 = put (2 + ulen) [word_of_nat plen] c4;
                                  c6 = put (3 + ulen) (auth_password ai) c5
                              in (c6\<lparr>sstate := STATE_SENDING_PASSWORD\<rparr>,
                                  pre @ cs1 @ [Access 0 1, Access 1 1, Access 2 ulen, Access (2 + ulen) 1, Access (3 + ulen) plen,
                                    Send (unat (bsize_value sz))])
                  else (c, pre @ [AssertThat False]))"

definition received_reply_header :: "BSocksClient \<Rightarrow> socks_run" where
  "received_reply_header c =
     (let pre = [Access 0 4];
          failed = (case report_error c EVENT_ERROR of (c1, cs) \<Rightarrow> (c1, pre @ cs));
          receive = (\<lambda>c' n. case start_receive c' 4 n of (c1, cs) \<Rightarrow> (c1\<lparr>sstate := STATE_RECEIVED_REPLY_HEADER\<rparr>, pre @ cs))
      in if ntoh8 (the_buffer c ! 0) \<noteq> SOCKS_VERSION then failed
         else if ntoh8 (the_buffer c ! 1) \<noteq> SOCKS_REP_SUCCEEDED then failed
         else if ntoh8 (the_buffer c ! 3) = SOCKS_ATYP_IPV4
         then receive (c\<lparr>bind_addr := BAddr_IPv4 0 0\<rparr>) 6
         else if ntoh8 (the_buffer c ! 3) = SOCKS_ATYP_IPV6
         then receive (c\<lparr>bind_addr := BAddr_IPv6 [] 0\<rparr>) 18
         else failed)"

definition received_password_reply :: "socks_world \<Rightarrow> BSocksClient \<Rightarrow> socks_run" where
  "received_password_reply w c =
     (if the_buffer c ! 0 \<noteq> 1
      then (case report_error c EVENT_ERROR of (c1, cs) \<Rightarrow> (c1, [Access 0 1] @ cs))
      else if the_buffer c ! 1 \<noteq> 0
      then (case report_error c EVENT_ERROR of (c1, cs) \<Rightarrow> (c1, [Access 0 1, Access 1 1] @ cs))
      else (case auth_finished w c of (c1, cs) \<Rightarrow> (c1, [Access 0 1, Access 1 1] @ cs)))"

definition received_reply_rest :: "BSocksClient \<Rightarrow> socks_run" where
  "received_reply_rest c =
     (let rest = drop 4 (the_buffer c);
          (addr, cs) =
            (case bind_addr c of
               BAddr_IPv4 _ _ \<Rightarrow> (BAddr_IPv4 (le32_of (take 4 rest)) (le16_of (take 2 (drop 4 rest))), [Access 4 6])
             | BAddr_IPv6 _ _ \<Rightarrow> (BAddr_IPv6 (take 16 rest) (le16_of (take 2 (drop 16 rest))), [Access 4 18])
             | a \<Rightarrow> (a, [AssertThat False]))
      in (c\<lparr>bind_addr := addr, buffer := None, sstate := STATE_UP\<rparr>,
          cs @ [BufferFree] @ free_control_io @ init_up_io @ [Handler EVENT_UP]))"

definition recv_handler_done :: "socks_world \<Rightarrow> BSocksClient_auth_info list \<Rightarrow> BSocksClient \<Rightarrow> nat \<Rightarrow> socks_run" where
  "recv_handler_done w auth c data_len =
     (let pre = [AssertThat (data_len \<le> recv_total c - recv_len c)];
          c1 = c\<lparr>recv_len := recv_len c + data_len\<rparr>;
          (c2, cs) =
            (if recv_len c1 < recv_total c1 then do_receive c1
             else case sstate c1 of
                    STATE_SENT_HELLO \<Rightarrow> received_hello w auth c1
                  | STATE_SENT_REQUEST \<Rightarrow> received_reply_header c1
                  | STATE_SENT_PASSWORD \<Rightarrow> received_password_reply w c1
                  | STATE_RECEIVED_REPLY_HEADER \<Rightarrow> received_reply_rest c1
                  | _ \<Rightarrow> (c1, [AssertThat False]))
      in (c2, pre @ cs))"

text \<open>After a message was sent, the reply is received into a new buffer.\<close>

definition receive_reply :: "socks_world \<Rightarrow> BSocksClient \<Rightarrow> bsize_t \<Rightarrow> nat \<Rightarrow> socks_state \<Rightarrow> socks_run" where
  "receive_reply w c sz amount st =
     (case reserve_buffer w c sz of
        ((c1, cs1), False) \<Rightarrow> (case report_error c1 EVENT_ERROR of (c2, cs2) \<Rightarrow> (c2, cs1 @ cs2))
      | ((c1, cs1), True) \<Rightarrow> (case start_receive c1 0 amount of (c2, cs2) \<Rightarrow> (c2\<lparr>sstate := st\<rparr>, cs1 @ cs2)))"

definition send_handler_done :: "socks_world \<Rightarrow> BSocksClient \<Rightarrow> socks_run" where
  "send_handler_done w c =
     (let pre = [AssertThat (buffer c \<noteq> None)];
          (c1, cs) =
            (case sstate c of
               STATE_SENDING_HELLO \<Rightarrow> receive_reply w c (bsize_fromsize 2) 2 STATE_SENT_HELLO
             | STATE_SENDING_REQUEST \<Rightarrow>
                 receive_reply w c (bsize_add (bsize_fromsize 4) (bsize_max (bsize_fromsize 6) (bsize_fromsize 18))) 4 STATE_SENT_REQUEST
             | STATE_SENDING_PASSWORD \<Rightarrow> receive_reply w c (bsize_fromsize 2) 2 STATE_SENT_PASSWORD
             | _ \<Rightarrow> (c, [AssertThat False]))
      in (c1, pre @ cs))"

section \<open>Functions of the interface\<close>

definition BSocksClient_Init ::
  "BSocksClient \<Rightarrow> BAddr \<Rightarrow> nat \<Rightarrow> BAddr \<Rightarrow> bool \<Rightarrow> bool \<Rightarrow> socks_run \<times> bool" where
  "BSocksClient_Init c server_addr num dest is_udp connector_ok =
     (let c1 = c\<lparr>num_auth_info := num, dest_addr := dest, udp := is_udp, buffer := None\<rparr>;
          pre = [AssertThat (\<not> BAddr_IsInvalid server_addr), JobInit]
      in if \<not> connector_ok then ((c1, pre @ [JobFree]), False)
         else ((c1\<lparr>sstate := STATE_CONNECTING\<rparr>, pre @ [ConnectorInit server_addr]), True))"

definition BSocksClient_Free :: "BSocksClient \<Rightarrow> socks_run" where
  "BSocksClient_Free c =
     (c, (if sstate c \<noteq> STATE_CONNECTING
          then (if sstate c = STATE_UP then free_up_io else free_control_io) @ [ConnectionFree] else []) @
         [ConnectorFree, JobFree] @ (if buffer c \<noteq> None then [BufferFree] else []))"

definition BSocksClient_SetDestAddr :: "BSocksClient \<Rightarrow> BAddr \<Rightarrow> socks_run" where
  "BSocksClient_SetDestAddr c dest =
     (c\<lparr>dest_addr := dest\<rparr>, [AssertThat (sstate c = STATE_CONNECTING \<or> sstate c = STATE_CONNECTED_HANDLER)])"

definition BSocksClient_GetBindAddr :: "BSocksClient \<Rightarrow> BAddr \<times> socks_call list" where
  "BSocksClient_GetBindAddr c = (bind_addr c, [AssertThat (sstate c = STATE_UP)])"

end
