(* ===== verification/Tcp_Client.thy ===== *)
theory Tcp_Client
  imports Tun_Device Socks_Client
begin

text \<open>
  The TCP clients of \<open>tun2socks/tun2socks.c\<close>: a connection that lwIP accepted from the device is
  coupled with a connection through the SOCKS server.  Each handler of the code is a function on
  the client structure; what it calls in lwIP and in the SOCKS client is a list of calls in
  program order.  What lwIP answers (\<open>tcp_sndbuf\<close>, the errors of \<open>tcp_write\<close>, \<open>tcp_output\<close> and
  \<open>tcp_close\<close>) is an argument.  The second half puts the handlers into their environment: the
  contracts of lwIP and of the SOCKS client say which events can happen and which calls are
  allowed, and a call that is not allowed, or a failed assertion, stops the execution.
\<close>

section \<open>The client\<close>

definition TCP_WND :: nat where "TCP_WND = 4 * 1460"
definition CLIENT_SOCKS_RECV_BUF_SIZE :: nat where "CLIENT_SOCKS_RECV_BUF_SIZE = 8192"

datatype err_t = ERR_OK | ERR_MEM | ERR_ABRT | ERR_OTHER

text \<open>\<open>buf\<close> holds the bytes that are used.  \<open>dead_aborted\<close> says whether the pointer is set; it points
  to a variable of the callback that set it.\<close>

record tcp_client =
  aborted :: bool
  dead_aborted :: bool
  local_addr :: BAddr
  remote_addr :: BAddr
  client_closed :: bool
  buf :: bytes
  socks_username :: "string option"
  socks_up :: bool
  socks_closed :: bool
  socks_recv_buf :: bytes
  socks_recv_buf_used :: int
  socks_recv_buf_sent :: int
  socks_recv_waiting :: bool
  socks_recv_tcp_pending :: int

datatype client_call =
    TcpArg
  | TcpErr bool
  | TcpRecv bool
  | TcpSent bool
  | TcpClose err_t
  | TcpAbort
  | TcpRecved int
  | TcpWrite bytes err_t
  | TcpOutput err_t
  | AuthUsername string
  | SocksInit bool BAddr
  | SocksSend bytes
  | SocksRecv
  | SocksFree
  | ListAppend
  | ListRemove
  | FreeClient
  | DeadKill int
  | AssertThat bool

text \<open>The answers of lwIP during one handler: the space in the send queue and the result of
  \<open>tcp_write\<close> at each round of the sending loop, the results of \<open>tcp_output\<close> and \<open>tcp_close\<close>.\<close>

record lwip =
  sndbuf :: "nat \<Rightarrow> nat"
  write_err :: "nat \<Rightarrow> err_t"
  output_err :: err_t
  close_err :: err_t

type_synonym client_run = "tcp_client \<times> client_call list"

text \<open>\<open>DEAD_KILL_WITH\<close> writes through the pointer.  The variable of a callback starts at zero; at the end of the
  callback the pointer is reset only if the variable still is.\<close>

definition DEAD_KILL_WITH :: "int \<Rightarrow> tcp_client \<Rightarrow> client_call list" where
  "DEAD_KILL_WITH v c = (if dead_aborted c then [DeadKill v] else [])"

definition DEAD_ENTER :: "tcp_client \<Rightarrow> tcp_client" where
  "DEAD_ENTER c = c\<lparr>dead_aborted := True\<rparr>"

definition DEAD_LEAVE2 :: "int \<Rightarrow> tcp_client \<Rightarrow> tcp_client" where
  "DEAD_LEAVE2 dead c = (if dead = 0 then c\<lparr>dead_aborted := False\<rparr> else c)"

section \<open>Closing\<close>

definition client_abort_pcb :: "tcp_client \<Rightarrow> client_run" where
  "client_abort_pcb c =
     (c\<lparr>aborted := True\<rparr>, [AssertThat (\<not> aborted c), TcpAbort] @ DEAD_KILL_WITH 1 c)"

definition client_dealloc :: "tcp_client \<Rightarrow> client_run" where
  "client_dealloc c =
     (c, [AssertThat (client_closed c), AssertThat (socks_closed c), ListRemove] @
         (if \<not> aborted c then DEAD_KILL_WITH (- 1) c else []) @ [FreeClient])"

text \<open>\<open>client_free_socks\<close>, \<open>client_free_client\<close> and \<open>client_handle_freed_client\<close> call each other.\<close>

function client_free_socks :: "lwip \<Rightarrow> tcp_client \<Rightarrow> client_run"
  and client_free_client :: "lwip \<Rightarrow> tcp_client \<Rightarrow> client_run"
  and client_handle_freed_client :: "lwip \<Rightarrow> tcp_client \<Rightarrow> client_run" where
  "client_free_socks lw c =
     (let pre = [AssertThat (\<not> socks_closed c)] @
            (if socks_up c \<and> \<not> client_closed c then [TcpRecv False] else []) @ [SocksFree];
          c1 = c\<lparr>socks_closed := True\<rparr>;
          (c2, cs) =
            (if socks_up c1 \<and> (0 \<le> socks_recv_buf_used c1 \<or> 0 < socks_recv_tcp_pending c1) \<and> \<not> client_closed c1
             then (c1, [])
             else if \<not> client_closed c1 then client_free_client lw c1
             else client_dealloc c1)
      in (c2, pre @ cs))"
| "client_free_client lw c =
     (let pre = [AssertThat (\<not> client_closed c), TcpErr False, TcpRecv False, TcpSent False, TcpClose (close_err lw)];
          (c1, cs1) = (if close_err lw \<noteq> ERR_OK then client_abort_pcb c else (c, []));
          (c2, cs2) = client_handle_freed_client lw c1
      in (c2, pre @ cs1 @ cs2))"
| "client_handle_freed_client lw c =
     (let pre = [AssertThat (\<not> client_closed c)];
          c1 = c\<lparr>client_closed := True\<rparr>;
          (c2, cs) =
            (if buf c1 \<noteq> [] \<and> \<not> socks_closed c1 then (c1, [])
             else if \<not> socks_closed c1 then client_free_socks lw c1
             else client_dealloc c1)
      in (c2, pre @ cs))"
  by pat_completeness auto
termination
  by (relation "measure (\<lambda>x. case x of Inl (lw, c) \<Rightarrow> if client_closed c then 0 else 3
        | Inr (Inl _) \<Rightarrow> 2 | Inr (Inr _) \<Rightarrow> 1)")
    auto

declare client_free_socks.simps [simp del] client_free_client.simps [simp del] client_handle_freed_client.simps [simp del]

definition client_abort_client :: "lwip \<Rightarrow> tcp_client \<Rightarrow> client_run" where
  "client_abort_client lw c =
     (let pre = [AssertThat (\<not> client_closed c), TcpErr False, TcpRecv False, TcpSent False];
          (c1, cs1) = client_abort_pcb c;
          (c2, cs2) = client_handle_freed_client lw c1
      in (c2, pre @ cs1 @ cs2))"

definition client_murder :: "tcp_client \<Rightarrow> client_run" where
  "client_murder c =
     (let (c1, cs1) =
            (if \<not> client_closed c
             then (case client_abort_pcb c of
                     (c', cs) \<Rightarrow> (c'\<lparr>client_closed := True\<rparr>, [TcpErr False, TcpRecv False, TcpSent False] @ cs))
             else (c, []));
          (c2, cs2) = (if \<not> socks_closed c1 then (c1\<lparr>socks_closed := True\<rparr>, [SocksFree]) else (c1, []));
          (c3, cs3) = client_dealloc c2
      in (c3, cs1 @ cs2 @ cs3))"

definition client_err_func :: "lwip \<Rightarrow> tcp_client \<Rightarrow> client_run" where
  "client_err_func lw c =
     (let (c1, cs) = client_handle_freed_client lw c in (c1, [AssertThat (\<not> client_closed c)] @ cs))"

section \<open>From the device to SOCKS\<close>

definition client_send_to_socks :: "tcp_client \<Rightarrow> client_run" where
  "client_send_to_socks c =
     (c, [AssertThat (\<not> socks_closed c), AssertThat (socks_up c), AssertThat (0 < length (buf c)), SocksSend (buf c)])"

text \<open>The argument \<open>p\<close> is the content of the \<open>pbuf\<close>, \<open>None\<close> a null pointer.  The result \<open>Some err\<close>
  says that the callback returns at once; otherwise jobs may run before it returns.\<close>

definition client_recv_func :: "lwip \<Rightarrow> tcp_client \<Rightarrow> bytes option \<Rightarrow> client_run \<times> err_t option" where
  "client_recv_func lw c p =
     (let c0 = DEAD_ENTER c
      in case p of
           None \<Rightarrow> (case client_free_client lw c0 of (c1, cs) \<Rightarrow> ((c1, [AssertThat (\<not> client_closed c)] @ cs), None))
         | Some data \<Rightarrow>
             let pre = [AssertThat (\<not> client_closed c), AssertThat (0 < length data)]
             in if length data > TCP_WND - length (buf c0)
                then ((DEAD_LEAVE2 0 c0, pre), Some ERR_MEM)
                else
                let c1 = c0\<lparr>buf := buf c0 @ data\<rparr>
                in if length (buf c1) = length data \<and> socks_up c1
                   then (case client_send_to_socks c1 of
                           (c2, cs) \<Rightarrow> ((c2, pre @ [AssertThat (\<not> socks_closed c1)] @ cs), None))
                   else ((c1, pre), None))"

definition client_socks_send_handler_done :: "lwip \<Rightarrow> tcp_client \<Rightarrow> nat \<Rightarrow> client_run" where
  "client_socks_send_handler_done lw c data_len =
     (let pre = [AssertThat (\<not> socks_closed c), AssertThat (socks_up c), AssertThat (0 < length (buf c)),
            AssertThat (0 < data_len), AssertThat (data_len \<le> length (buf c))];
          c1 = c\<lparr>buf := drop data_len (buf c)\<rparr>;
          ack = (if \<not> client_closed c1 then [TcpRecved (int data_len)] else []);
          (c2, cs) =
            (if 0 < length (buf c1) then (c1, [SocksSend (buf c1)])
             else if client_closed c1 then client_free_socks lw c1
             else (c1, []))
      in (c2, pre @ ack @ cs))"

section \<open>From SOCKS to the device\<close>

definition client_socks_recv_initiate :: "tcp_client \<Rightarrow> client_run" where
  "client_socks_recv_initiate c =
     (c, [AssertThat (\<not> client_closed c), AssertThat (\<not> socks_closed c), AssertThat (socks_up c),
          AssertThat (socks_recv_buf_used c = - 1), SocksRecv])"

text \<open>The loop that queues data in lwIP, entered with \<open>sent < used\<close>; it fails if \<open>tcp_write\<close> does,
  other than for memory.\<close>

function send_loop :: "lwip \<Rightarrow> nat \<Rightarrow> tcp_client \<Rightarrow> client_run \<times> bool" where
  "send_loop lw i c =
     (let to_write = bmin_int (socks_recv_buf_used c - socks_recv_buf_sent c) (int (sndbuf lw i))
      in if to_write = 0 \<or> socks_recv_buf_used c \<le> socks_recv_buf_sent c then ((c, []), False)
         else
         let call = TcpWrite (take (nat to_write) (drop (nat (socks_recv_buf_sent c)) (socks_recv_buf c))) (write_err lw i)
         in if write_err lw i \<noteq> ERR_OK then ((c, [call]), write_err lw i \<noteq> ERR_MEM)
            else
            let c1 = c\<lparr>socks_recv_buf_sent := socks_recv_buf_sent c + to_write,
                       socks_recv_tcp_pending := socks_recv_tcp_pending c + to_write\<rparr>
            in if socks_recv_buf_sent c1 < socks_recv_buf_used c1
               then (case send_loop lw (i + 1) c1 of ((c2, cs), failed) \<Rightarrow> ((c2, call # cs), failed))
               else ((c1, [call]), False))"
  by pat_completeness auto
termination
  by (relation "measure (\<lambda>(lw, i, c). nat (socks_recv_buf_used c - socks_recv_buf_sent c))")
    (auto simp: bmin_int_def split: if_splits)

declare send_loop.simps [simp del]

text \<open>The result is false for \<open>-1\<close>: \<open>tcp_abort\<close> was called.\<close>

definition client_socks_recv_send_out :: "lwip \<Rightarrow> tcp_client \<Rightarrow> client_run \<times> bool" where
  "client_socks_recv_send_out lw c =
     (let pre = [AssertThat (\<not> client_closed c), AssertThat (socks_up c), AssertThat (0 < socks_recv_buf_used c),
            AssertThat (socks_recv_buf_sent c < socks_recv_buf_used c), AssertThat (\<not> socks_recv_waiting c)]
      in case send_loop lw 0 c of
           ((c1, cs1), True) \<Rightarrow> (case client_abort_client lw c1 of (c2, cs2) \<Rightarrow> ((c2, pre @ cs1 @ cs2), False))
         | ((c1, cs1), False) \<Rightarrow>
             let cs2 = cs1 @ [TcpOutput (output_err lw)]
             in if output_err lw \<noteq> ERR_OK
                then (case client_abort_client lw c1 of (c2, cs) \<Rightarrow> ((c2, pre @ cs2 @ cs), False))
                else if socks_recv_buf_sent c1 < socks_recv_buf_used c1
                then if socks_recv_tcp_pending c1 = 0
                     then (case client_abort_client lw c1 of (c2, cs) \<Rightarrow> ((c2, pre @ cs2 @ cs), False))
                     else ((c1\<lparr>socks_recv_waiting := True\<rparr>, pre @ cs2), True)
                else ((c1\<lparr>socks_recv_buf_used := - 1\<rparr>, pre @ cs2), True))"

definition client_socks_recv_handler_done :: "lwip \<Rightarrow> tcp_client \<Rightarrow> bytes \<Rightarrow> client_run" where
  "client_socks_recv_handler_done lw c data =
     (let pre = [AssertThat (0 < length data), AssertThat (length data \<le> CLIENT_SOCKS_RECV_BUF_SIZE),
            AssertThat (\<not> socks_closed c), AssertThat (socks_up c), AssertThat (socks_recv_buf_used c = - 1)]
      in if client_closed c then (c, pre)
         else
         let c1 = c\<lparr>socks_recv_buf := data, socks_recv_buf_used := int (length data), socks_recv_buf_sent := 0,
                    socks_recv_waiting := False\<rparr>
         in case client_socks_recv_send_out lw c1 of
              ((c2, cs), False) \<Rightarrow> (c2, pre @ cs)
            | ((c2, cs), True) \<Rightarrow>
                if socks_recv_buf_used c2 = - 1
                then (case client_socks_recv_initiate c2 of (c3, cs2) \<Rightarrow> (c3, pre @ cs @ cs2))
                else (c2, pre @ cs))"

definition client_sent_func :: "lwip \<Rightarrow> tcp_client \<Rightarrow> nat \<Rightarrow> client_run" where
  "client_sent_func lw c n =
     (let pre = [AssertThat (\<not> client_closed c), AssertThat (socks_up c), AssertThat (0 < n),
            AssertThat (int n \<le> socks_recv_tcp_pending c)];
          c1 = (DEAD_ENTER c)\<lparr>socks_recv_tcp_pending := socks_recv_tcp_pending c - int n\<rparr>
      in if 0 < socks_recv_buf_used c1
         then
           let pre1 = pre @ [AssertThat (socks_recv_waiting c1),
                 AssertThat (socks_recv_buf_sent c1 < socks_recv_buf_used c1)]
           in case client_socks_recv_send_out lw (c1\<lparr>socks_recv_waiting := False\<rparr>) of
                ((c2, cs), False) \<Rightarrow> (c2, pre1 @ cs)
              | ((c2, cs), True) \<Rightarrow>
                  let cs1 = pre1 @ cs @ [AssertThat (0 < socks_recv_tcp_pending c2)]
                  in if socks_recv_buf_used c2 = - 1 \<and> \<not> socks_closed c2
                     then (case client_socks_recv_initiate c2 of (c3, cs3) \<Rightarrow> (c3, cs1 @ cs3))
                     else (c2, cs1)
         else if socks_closed c1 \<and> socks_recv_tcp_pending c1 = 0
         then (case client_free_client lw c1 of (c2, cs) \<Rightarrow> (c2, pre @ cs))
         else (c1, pre))"

section \<open>Beginning and SOCKS events\<close>

definition client_socks_handler :: "lwip \<Rightarrow> tcp_client \<Rightarrow> socks_event \<Rightarrow> client_run" where
  "client_socks_handler lw c event =
     (let pre = [AssertThat (\<not> socks_closed c)]
      in case event of
           EVENT_ERROR \<Rightarrow>
             (case client_free_socks lw c of (c1, cs) \<Rightarrow> (c1, pre @ cs))
         | EVENT_UP \<Rightarrow>
             let c1 = c\<lparr>socks_recv_buf_used := - 1, socks_recv_tcp_pending := 0, socks_up := True\<rparr>;
                 cs1 = (if \<not> client_closed c then [TcpSent True] else []);
                 (c2, cs2) = (if 0 < length (buf c1) then client_send_to_socks c1 else (c1, []));
                 (c3, cs3) = (if \<not> client_closed c2 then client_socks_recv_initiate c2 else (c2, []))
             in (c3, pre @ [AssertThat (\<not> socks_up c)] @ cs1 @ cs2 @ cs3)
         | EVENT_ERROR_CLOSED \<Rightarrow>
             (case client_free_socks lw c of (c1, cs) \<Rightarrow> (c1, pre @ [AssertThat (socks_up c)] @ cs))
         | EVENT_CONNECTED \<Rightarrow> (c, pre))"

text \<open>\<open>AuthUsername\<close> sets the user name in the table \<open>socks_auth_info\<close> that all clients share.
  The accept callback up to the point where jobs run.  The structure is what \<open>malloc\<close> returns, with
  arbitrary contents, or \<open>None\<close>; \<open>username\<close> is given if the source address is to be appended, and
  \<open>concat_strings\<close> may fail, as may the initialization of the SOCKS client.\<close>

definition listener_accept_func ::
  "tcp_client option \<Rightarrow> BAddr \<Rightarrow> BAddr \<Rightarrow> string option \<Rightarrow> bool \<Rightarrow> bool \<Rightarrow>
   (tcp_client option \<times> client_call list) \<times> err_t option" where
  "listener_accept_func mem local_a remote_a username concat_ok init_ok =
     (case mem of
        None \<Rightarrow> ((None, []), Some ERR_MEM)
      | Some client \<Rightarrow>
          let c1 = client\<lparr>socks_username := None, local_addr := local_a, remote_addr := remote_a\<rparr>;
              addr = local_addr c1
          in if username \<noteq> None \<and> \<not> concat_ok then ((None, []), Some ERR_MEM)
             else
             let c2 = (case username of None \<Rightarrow> c1
                       | Some u \<Rightarrow> c1\<lparr>socks_username := Some (u @ ''@'' @ BAddr_Print remote_a)\<rparr>);
                 auth = (case socks_username c2 of None \<Rightarrow> [] | Some u \<Rightarrow> [AuthUsername u])
             in if \<not> init_ok then ((None, auth @ [SocksInit False addr]), Some ERR_MEM)
                else ((Some (DEAD_ENTER (c2\<lparr>aborted := False, client_closed := False, buf := [],
                         socks_up := False, socks_closed := False\<rparr>)),
                       auth @ [SocksInit True addr, ListAppend, TcpArg, TcpErr True, TcpRecv True]), None))"

text \<open>What a callback returns, from the value of its variable: \<open>ERR_ABRT\<close> if and only if \<open>tcp_abort\<close> was called.\<close>

definition callback_result :: "int \<Rightarrow> err_t" where
  "callback_result dead = (if dead > 0 then ERR_ABRT else ERR_OK)"

end
