(* ===== verification/Tcp_Relay.thy ===== *)
theory Tcp_Relay
  imports Tcp_Client
begin

text \<open>
  The TCP clients in their environment.  The state has, beside the client structure, what lwIP and
  the SOCKS client know of it: which callbacks are set, what is being sent and received, and the
  bytes that crossed each interface.  The contracts of the two libraries are executable: a call
  that is not allowed in the present state, a failed assertion or a use after free has no result.
  The events that the libraries can deliver are guarded by what they promise.  The invariant
  proved here says that no execution gets stuck, and that no byte is lost, duplicated or reordered
  while both sides are open.
\<close>

section \<open>The environment\<close>

text \<open>lwIP's side: the protocol control block and its callbacks, the bytes delivered to the client
  (\<open>rcvd\<close>), how many of them were acknowledged with \<open>tcp_recved\<close>, the bytes queued with \<open>tcp_write\<close> and how many
  the peer confirmed.  The side of the SOCKS client: whether it is initialized and up, the send in
  progress, whether a receive is in progress, the bytes it took and the bytes it delivered.
  \<open>in_cb\<close>: a callback of lwIP has not returned; \<open>dead\<close> is its variable, \<open>abort_called\<close> whether \<open>tcp_abort\<close> was
  called during it.\<close>

record env =
  pcb_live :: bool
  cb_err :: bool
  cb_recv :: bool
  cb_sent :: bool
  rcvd :: bytes
  recved :: nat
  tcp_out :: bytes
  confirmed :: nat
  socks_live :: bool
  is_up :: bool
  sending :: "bytes option"
  receiving :: bool
  to_socks :: bytes
  from_socks :: bytes
  listed :: bool
  freed :: bool
  in_cb :: bool
  dead :: int
  abort_called :: bool

text \<open>The calls, with what the callee requires.  \<open>tcp_close\<close> and \<open>tcp_abort\<close> release the control block; while the
  error callback is set they would call back into the client, and \<open>tcp_close\<close> keeps the other callbacks.
  The structure must be freed last.\<close>

fun exec_call :: "client_call \<Rightarrow> env \<Rightarrow> env option" where
  "exec_call TcpArg e = (if pcb_live e then Some e else None)"
| "exec_call (TcpErr b) e = (if pcb_live e then Some (e\<lparr>cb_err := b\<rparr>) else None)"
| "exec_call (TcpRecv b) e = (if pcb_live e then Some (e\<lparr>cb_recv := b\<rparr>) else None)"
| "exec_call (TcpSent b) e = (if pcb_live e then Some (e\<lparr>cb_sent := b\<rparr>) else None)"
| "exec_call (TcpClose r) e =
     (if pcb_live e \<and> \<not> cb_err e \<and> \<not> cb_recv e \<and> \<not> cb_sent e then Some (e\<lparr>pcb_live := (r \<noteq> ERR_OK)\<rparr>) else None)"
| "exec_call TcpAbort e =
     (if pcb_live e \<and> \<not> cb_err e \<and> \<not> cb_recv e \<and> \<not> cb_sent e
      then Some (e\<lparr>pcb_live := False, abort_called := True\<rparr>) else None)"
| "exec_call (TcpRecved n) e =
     (if pcb_live e \<and> 0 \<le> n \<and> recved e + nat n \<le> length (rcvd e) then Some (e\<lparr>recved := recved e + nat n\<rparr>) else None)"
| "exec_call (TcpWrite bs r) e =
     (if pcb_live e \<and> bs \<noteq> [] then Some (if r = ERR_OK then e\<lparr>tcp_out := tcp_out e @ bs\<rparr> else e) else None)"
| "exec_call (TcpOutput r) e = (if pcb_live e then Some e else None)"
| "exec_call (AuthUsername u) e = Some e"
| "exec_call (SocksInit ok a) e = (if socks_live e then None else Some (e\<lparr>socks_live := ok\<rparr>))"
| "exec_call (SocksSend bs) e =
     (if socks_live e \<and> is_up e \<and> sending e = None \<and> bs \<noteq> [] then Some (e\<lparr>sending := Some bs\<rparr>) else None)"
| "exec_call SocksRecv e =
     (if socks_live e \<and> is_up e \<and> \<not> receiving e then Some (e\<lparr>receiving := True\<rparr>) else None)"
| "exec_call SocksFree e =
     (if socks_live e then Some (e\<lparr>socks_live := False, sending := None, receiving := False\<rparr>) else None)"
| "exec_call ListAppend e = (if listed e then None else Some (e\<lparr>listed := True\<rparr>))"
| "exec_call ListRemove e = (if listed e then Some (e\<lparr>listed := False\<rparr>) else None)"
| "exec_call FreeClient e =
     (if freed e \<or> listed e \<or> pcb_live e \<or> socks_live e then None else Some (e\<lparr>freed := True\<rparr>))"
| "exec_call (DeadKill v) e = (if in_cb e then Some (e\<lparr>dead := v\<rparr>) else None)"
| "exec_call (AssertThat b) e = (if b then Some e else None)"

fun exec_calls :: "client_call list \<Rightarrow> env \<Rightarrow> env option" where
  "exec_calls [] e = Some e"
| "exec_calls (c # cs) e = (case exec_call c e of None \<Rightarrow> None | Some e' \<Rightarrow> exec_calls cs e')"

lemma client_calls_append [simp]:
  "exec_calls (xs @ ys) e = (case exec_calls xs e of None \<Rightarrow> None | Some e' \<Rightarrow> exec_calls ys e')"
  by (induction xs arbitrary: e) (auto split: option.splits)

type_synonym state = "tcp_client \<times> env"

definition run :: "client_run \<Rightarrow> env \<Rightarrow> state option" where
  "run r e = map_option (\<lambda>e'. (fst r, e')) (exec_calls (snd r) e)"

section \<open>Events\<close>

datatype event =
    Pcb_Error
  | Pcb_Recv "bytes option"
  | Pcb_Sent nat
  | Callback_Returns
  | Socks_Event socks_event
  | Socks_Sent nat
  | Socks_Received bytes
  | Murder

text \<open>When an event can happen.  lwIP delivers no more than the receive window allows and confirms no
  more than was queued, and calls back only when it is not inside a callback.  The SOCKS client
  may act while a callback of lwIP waits for the jobs it caused.\<close>

fun enabled :: "event \<Rightarrow> env \<Rightarrow> bool" where
  "enabled Pcb_Error e = (pcb_live e \<and> cb_err e \<and> \<not> in_cb e)"
| "enabled (Pcb_Recv p) e =
     (pcb_live e \<and> cb_recv e \<and> \<not> in_cb e \<and>
      (case p of None \<Rightarrow> True | Some bs \<Rightarrow> bs \<noteq> [] \<and> length (rcvd e) + length bs \<le> recved e + TCP_WND))"
| "enabled (Pcb_Sent n) e = (pcb_live e \<and> cb_sent e \<and> \<not> in_cb e \<and> 0 < n \<and> confirmed e + n \<le> length (tcp_out e))"
| "enabled Callback_Returns e = in_cb e"
| "enabled (Socks_Event ev) e =
     (socks_live e \<and> (case ev of EVENT_ERROR \<Rightarrow> True | EVENT_UP \<Rightarrow> \<not> is_up e | EVENT_ERROR_CLOSED \<Rightarrow> is_up e
        | EVENT_CONNECTED \<Rightarrow> \<not> is_up e))"
| "enabled (Socks_Sent n) e = (case sending e of None \<Rightarrow> False | Some bs \<Rightarrow> 0 < n \<and> n \<le> length bs)"
| "enabled (Socks_Received bs) e = (receiving e \<and> bs \<noteq> [] \<and> length bs \<le> CLIENT_SOCKS_RECV_BUF_SIZE)"
| "enabled Murder e = (\<not> freed e \<and> listed e \<and> \<not> in_cb e)"

text \<open>The obligations at the end of an event: after an error the SOCKS client must have been freed,
  and a callback must return \<open>ERR_ABRT\<close> if and only if it called \<open>tcp_abort\<close>.  At the end of a
  callback the structure is used if the variable is zero: it must not be freed then.\<close>

definition ensure :: "(state \<Rightarrow> bool) \<Rightarrow> state option \<Rightarrow> state option" where
  "ensure P r = (case r of None \<Rightarrow> None | Some s \<Rightarrow> if P s then Some s else None)"

definition enter :: "env \<Rightarrow> env" where
  "enter e = e\<lparr>in_cb := True, dead := 0, abort_called := False\<rparr>"

definition pcb_gone :: "env \<Rightarrow> env" where
  "pcb_gone e = e\<lparr>cb_err := False, cb_recv := False, cb_sent := False, pcb_live := False\<rparr>"

fun fire :: "lwip \<Rightarrow> event \<Rightarrow> state \<Rightarrow> state option" where
  "fire lw Pcb_Error (c, e) = run (client_err_func lw c) (pcb_gone e)"
| "fire lw (Pcb_Recv p) (c, e) =
     (let e1 = (case p of None \<Rightarrow> enter e | Some bs \<Rightarrow> enter (e\<lparr>rcvd := rcvd e @ bs\<rparr>))
      in case client_recv_func lw c p of
           (r, None) \<Rightarrow> run r e1
         | (r, Some err) \<Rightarrow> None)"
| "fire lw (Pcb_Sent n) (c, e) = run (client_sent_func lw c n) (enter (e\<lparr>confirmed := confirmed e + n\<rparr>))"
| "fire lw Callback_Returns (c, e) =
     (if (dead e = 0 \<longrightarrow> \<not> freed e) \<and> (callback_result (dead e) = ERR_ABRT \<longleftrightarrow> abort_called e)
      then Some (DEAD_LEAVE2 (dead e) c, e\<lparr>in_cb := False\<rparr>) else None)"
| "fire lw (Socks_Event ev) (c, e) =
     ensure (\<lambda>(c', e'). ev = EVENT_ERROR \<or> ev = EVENT_ERROR_CLOSED \<longrightarrow> \<not> socks_live e')
       (run (client_socks_handler lw c ev) (if ev = EVENT_UP then e\<lparr>is_up := True\<rparr> else e))"
| "fire lw (Socks_Sent n) (c, e) =
     run (client_socks_send_handler_done lw c n)
       (case sending e of None \<Rightarrow> e | Some bs \<Rightarrow> e\<lparr>sending := None, to_socks := to_socks e @ take n bs\<rparr>)"
| "fire lw (Socks_Received bs) (c, e) =
     run (client_socks_recv_handler_done lw c bs) (e\<lparr>receiving := False, from_socks := from_socks e @ bs\<rparr>)"
| "fire lw Murder (c, e) = run (client_murder c) e"

text \<open>A new client, inside the accept callback, and the states that can be reached.  The environment before
  the callback knows nothing of the client.\<close>

definition new_env :: env where
  "new_env = \<lparr>pcb_live = True, cb_err = False, cb_recv = False, cb_sent = False, rcvd = [], recved = 0, tcp_out = [],
     confirmed = 0, socks_live = False, is_up = False, sending = None, receiving = False, to_socks = [],
     from_socks = [], listed = False, freed = False, in_cb = True, dead = 0, abort_called = False\<rparr>"

inductive reached :: "state \<Rightarrow> bool" where
  accepted: "\<lbrakk>listener_accept_func (Some m) la ra u cok True = ((Some c, cs), None); run (c, cs) new_env = Some s\<rbrakk> \<Longrightarrow> reached s"
| event: "\<lbrakk>reached (c, e); enabled ev e; fire lw ev (c, e) = Some s\<rbrakk> \<Longrightarrow> reached s"

section \<open>The invariant\<close>

text \<open>What holds of a client that is not freed, between events.\<close>

definition ends_open :: "tcp_client \<Rightarrow> env \<Rightarrow> bool" where
  "ends_open c e =
     (\<not> freed e \<and> listed e \<and> (pcb_live e \<longleftrightarrow> \<not> client_closed c) \<and> (socks_live e \<longleftrightarrow> \<not> socks_closed c) \<and>
      (is_up e \<longleftrightarrow> socks_up c) \<and> (pcb_live e \<longrightarrow> \<not> aborted c \<and> cb_err e \<and> (cb_sent e \<longleftrightarrow> socks_up c) \<and>
        (cb_recv e \<longleftrightarrow> socks_live e)) \<and>
      (socks_live e \<or> sending e = None \<and> \<not> receiving e))"

definition dead_ok :: "tcp_client \<Rightarrow> env \<Rightarrow> bool" where
  "dead_ok c e =
     ((in_cb e \<longrightarrow> dead_aborted c \<and> (abort_called e \<longleftrightarrow> aborted c) \<and> dead e = (if aborted c then 1 else 0)) \<and>
      (\<not> in_cb e \<and> dead_aborted c \<longrightarrow> aborted c))"

text \<open>From the device to SOCKS.\<close>

definition uplink_ok :: "tcp_client \<Rightarrow> env \<Rightarrow> bool" where
  "uplink_ok c e =
     (rcvd e = to_socks e @ buf c \<and> length (buf c) \<le> TCP_WND \<and> (pcb_live e \<longrightarrow> recved e = length (to_socks e)) \<and>
      (sending e = None \<longleftrightarrow> \<not> (socks_live e \<and> is_up e \<and> buf c \<noteq> [])) \<and>
      (\<forall>bs. sending e = Some bs \<longrightarrow> bs \<noteq> [] \<and> (\<exists>zs. buf c = bs @ zs)))"

text \<open>From SOCKS to the device: the bytes that SOCKS delivered and lwIP has not got yet.\<close>

definition unsent :: "tcp_client \<Rightarrow> bytes" where
  "unsent c = (if socks_recv_buf_used c = - 1 then []
     else drop (nat (socks_recv_buf_sent c)) (socks_recv_buf c))"

definition downlink_open :: "tcp_client \<Rightarrow> env \<Rightarrow> bool" where
  "downlink_open c e =
     (from_socks e = tcp_out e @ unsent c \<and>
      int (length (tcp_out e)) = int (confirmed e) + socks_recv_tcp_pending c \<and> 0 \<le> socks_recv_tcp_pending c \<and>
      (socks_recv_buf_used c = - 1 \<or>
       0 \<le> socks_recv_buf_sent c \<and> socks_recv_buf_sent c < socks_recv_buf_used c \<and>
       socks_recv_buf_used c = int (length (socks_recv_buf c)) \<and> socks_recv_waiting c \<and>
       0 < socks_recv_tcp_pending c) \<and>
      (socks_live e \<longrightarrow> (receiving e \<longleftrightarrow> socks_recv_buf_used c = - 1)))"

definition downlink_ok :: "tcp_client \<Rightarrow> env \<Rightarrow> bool" where
  "downlink_ok c e =
     ((receiving e \<longrightarrow> socks_live e \<and> is_up e \<and> socks_recv_buf_used c = - 1) \<and>
      (\<exists>zs. from_socks e = tcp_out e @ zs) \<and>
      (if is_up e then pcb_live e \<longrightarrow> downlink_open c e
       else to_socks e = [] \<and> from_socks e = [] \<and> tcp_out e = [] \<and> confirmed e = 0))"

text \<open>Something that can still happen: an open connection to the device, with SOCKS open or data left for the
  device, or an open connection to SOCKS with data left for it.\<close>

definition still_waiting :: "tcp_client \<Rightarrow> env \<Rightarrow> bool" where
  "still_waiting c e =
     (if pcb_live e then socks_live e \<or> is_up e \<and> (0 \<le> socks_recv_buf_used c \<or> 0 < socks_recv_tcp_pending c)
      else socks_live e \<and> buf c \<noteq> [])"

definition nearly :: "tcp_client \<Rightarrow> env \<Rightarrow> bool" where
  "nearly c e = (ends_open c e \<and> dead_ok c e \<and> uplink_ok c e \<and> downlink_ok c e)"

definition good :: "tcp_client \<Rightarrow> env \<Rightarrow> bool" where
  "good c e = (nearly c e \<and> still_waiting c e)"

text \<open>A freed client: nothing of it is left in the libraries; inside a callback, the variable says so.\<close>

definition gone :: "env \<Rightarrow> bool" where
  "gone e =
     (freed e \<and> \<not> listed e \<and> \<not> pcb_live e \<and> \<not> socks_live e \<and> sending e = None \<and> \<not> receiving e \<and>
      (\<exists>zs. rcvd e = to_socks e @ zs) \<and> (\<exists>zs. from_socks e = tcp_out e @ zs) \<and>
      (in_cb e \<longrightarrow> dead e = (if abort_called e then 1 else - 1)))"

definition ok :: "state \<Rightarrow> bool" where
  "ok s = (gone (snd s) \<or> good (fst s) (snd s))"

lemmas client_defs = ends_open_def dead_ok_def uplink_ok_def downlink_ok_def still_waiting_def nearly_def good_def gone_def
  ok_def downlink_open_def unsent_def

section \<open>Closing\<close>

definition returns :: "client_run \<Rightarrow> env \<Rightarrow> bool" where
  "returns r e = (\<exists>s. run r e = Some s \<and> ok s)"

lemma returns_simps [simp]:
  "returns (c, []) e \<longleftrightarrow> ok (c, e)"
  "returns (c, x # cs) e \<longleftrightarrow> (\<exists>e'. exec_call x e = Some e' \<and> returns (c, cs) e')"
  by (auto simp: returns_def run_def split: option.splits)

lemma returns_append [simp]:
  "returns (c, xs @ ys) e \<longleftrightarrow> (\<exists>e'. exec_calls xs e = Some e' \<and> returns (c, ys) e')"
  by (auto simp: returns_def run_def split: option.splits)

lemma returns_case [simp]:
  "returns (case r of (c, cs) \<Rightarrow> (c, x # g cs)) e \<longleftrightarrow>
     (\<exists>e'. exec_call x e = Some e' \<and> returns (case r of (c, cs) \<Rightarrow> (c, g cs)) e')"
  "returns (case r of (c, cs) \<Rightarrow> (c, xs @ g cs)) e \<longleftrightarrow>
     (\<exists>e'. exec_calls xs e = Some e' \<and> returns (case r of (c, cs) \<Rightarrow> (c, g cs)) e')"
  by (simp_all split: prod.split)

lemma returnsE:
  assumes "returns r e"
  obtains c' cs e' where "r = (c', cs)" "exec_calls cs e = Some e'" "ok (c', e')"
  using assms by (cases r) (auto simp: returns_def run_def)

lemma returns_iff: "returns (c, cs) e \<longleftrightarrow> (\<exists>e'. exec_calls cs e = Some e' \<and> ok (c, e'))"
  by (auto simp: returns_def run_def)

lemma dealloc_ok:
  assumes "ends_open c e" "dead_ok c e" "client_closed c" "socks_closed c"
    "\<exists>zs. rcvd e = to_socks e @ zs" "\<exists>zs. from_socks e = tcp_out e @ zs"
  shows "returns (client_dealloc c) e"
  using assms
  by (auto simp: client_dealloc_def DEAD_KILL_WITH_def client_defs)

lemma free_socks_closed_ok:
  assumes "nearly c e" "client_closed c" "\<not> socks_closed c"
  shows "returns (client_free_socks lw c) e"
proof -
  let ?e = "e\<lparr>socks_live := False, sending := None, receiving := False\<rparr>"
  have d: "returns (client_dealloc (c\<lparr>socks_closed := True\<rparr>)) ?e"
    using assms by (intro dealloc_ok) (auto simp: client_defs split: if_splits)
  show ?thesis
    using d assms by (auto simp: client_free_socks.simps [of lw c] Let_def client_defs)
qed

lemma handle_freed_ok:
  assumes "nearly (c\<lparr>client_closed := True\<rparr>) e" "\<not> client_closed c"
  shows "returns (client_handle_freed_client lw c) e"
proof -
  let ?c = "c\<lparr>client_closed := True\<rparr>"
  have w: "buf c \<noteq> [] \<Longrightarrow> \<not> socks_closed c \<Longrightarrow> ok (?c, e)"
    using assms by (auto simp: client_defs)
  have s: "\<not> socks_closed c \<Longrightarrow> returns (client_free_socks lw ?c) e"
    using assms by (intro free_socks_closed_ok) auto
  have d: "socks_closed c \<Longrightarrow> returns (client_dealloc ?c) e"
    using assms(1) by (intro dealloc_ok) (auto simp: client_defs split: if_splits)
  show ?thesis
    using w s d assms(2) by (simp add: client_handle_freed_client.simps [of lw c] Let_def)
qed

lemma nearly_dead:
  assumes "nearly (c\<lparr>client_closed := True\<rparr>) e"
  shows "nearly (c\<lparr>aborted := True, client_closed := True\<rparr>)
    (if dead_aborted c then e\<lparr>abort_called := True, dead := 1\<rparr> else e\<lparr>abort_called := True\<rparr>)"
  using assms by (auto simp: client_defs)

lemma free_client_ok:
  assumes "nearly (c\<lparr>client_closed := True\<rparr>) (pcb_gone e)" "\<not> client_closed c" "pcb_live e" "\<not> aborted c"
  shows "returns (client_free_client lw c) e" "returns (client_abort_client lw c) e"
proof -
  have h: "returns (client_handle_freed_client lw c) (pcb_gone e)"
    using assms by (intro handle_freed_ok)
  have a: "returns (client_handle_freed_client lw (c\<lparr>aborted := True\<rparr>))
     (if dead_aborted c then (pcb_gone e)\<lparr>abort_called := True, dead := 1\<rparr> else (pcb_gone e)\<lparr>abort_called := True\<rparr>)"
    using assms(2) nearly_dead [OF assms(1)] by (intro handle_freed_ok) simp_all
  have i: "dead_aborted c \<Longrightarrow> in_cb e"
    using assms(1,4) by (simp add: nearly_def dead_ok_def pcb_gone_def)
  show "returns (client_free_client lw c) e"
    using h a i assms(2-4)
    by (auto simp: client_free_client.simps [of lw c] client_abort_pcb_def DEAD_KILL_WITH_def Let_def pcb_gone_def)
  show "returns (client_abort_client lw c) e"
    using h a i assms(2-4)
    by (auto simp: client_abort_client_def client_abort_pcb_def DEAD_KILL_WITH_def Let_def pcb_gone_def)
qed


lemma nearly_gone:
  assumes "nearly c e"
  shows "nearly (c\<lparr>client_closed := True\<rparr>) (pcb_gone e)"
  using assms by (auto simp: client_defs pcb_gone_def)

lemma free_socks_ok:
  assumes "nearly c e" "\<not> socks_closed c"
  shows "returns (client_free_socks lw c) e"
proof (cases "client_closed c")
  case True
  then show ?thesis using assms by (intro free_socks_closed_ok) auto
next
  case False
  let ?c = "c\<lparr>socks_closed := True\<rparr>"
  let ?e = "e\<lparr>cb_recv := False, socks_live := False, sending := None, receiving := False\<rparr>"
  have n: "socks_up c \<Longrightarrow> nearly ?c ?e" and
    g: "nearly (?c\<lparr>client_closed := True\<rparr>) (pcb_gone (?e\<lparr>cb_recv := cb_recv e\<rparr>))"
    using assms False by (auto simp: client_defs pcb_gone_def)
  have f: "returns (client_free_client lw ?c) ?e"
    "returns (client_free_client lw ?c) (?e\<lparr>cb_recv := cb_recv e\<rparr>)"
    using g assms False by (auto intro!: free_client_ok simp: nearly_def ends_open_def pcb_gone_def)
  have w: "socks_up c \<Longrightarrow> 0 \<le> socks_recv_buf_used c \<or> 0 < socks_recv_tcp_pending c \<Longrightarrow> ok (?c, ?e)"
    using n assms False by (auto simp: ok_def good_def still_waiting_def nearly_def ends_open_def)
  show ?thesis
    using f w assms False
    by (auto simp: client_free_socks.simps [of lw c] Let_def nearly_def ends_open_def)
qed

section \<open>Each event\<close>

lemma pcb_error_ok:
  assumes "good c e" "pcb_live e"
  shows "returns (client_err_func lw c) (pcb_gone e)"
  using assms nearly_gone [of c e] handle_freed_ok [of c "pcb_gone e" lw]
  by (auto simp: client_err_func_def good_def nearly_def ends_open_def)

lemma enter_nearly:
  assumes "nearly c e" "\<not> in_cb e" "pcb_live e"
  shows "nearly (DEAD_ENTER c) (enter e)"
  using assms by (auto simp: client_defs DEAD_ENTER_def enter_def)

lemma pcb_closed_ok:
  assumes "good c e" "pcb_live e" "\<not> in_cb e"
  shows "\<exists>r. client_recv_func lw c None = (r, None) \<and> returns r (enter e)"
proof -
  have "returns (client_free_client lw (DEAD_ENTER c)) (enter e)"
    using assms nearly_gone [OF enter_nearly [of c e]]
    by (intro free_client_ok) (auto simp: good_def nearly_def ends_open_def DEAD_ENTER_def enter_def)
  then show ?thesis
    using assms by (auto simp: client_recv_func_def Let_def good_def nearly_def ends_open_def split: prod.splits)
qed

lemma recv_ok:
  assumes "good c e" "enabled (Pcb_Recv (Some bs)) e"
  shows "\<exists>r. client_recv_func lw c (Some bs) = (r, None) \<and> returns r (enter (e\<lparr>rcvd := rcvd e @ bs\<rparr>))"
proof -
  have len: "length (buf c) + length bs \<le> TCP_WND"
    using assms by (auto simp: client_defs)
  let ?c = "(DEAD_ENTER c)\<lparr>buf := buf c @ bs\<rparr>"
  let ?e = "enter (e\<lparr>rcvd := rcvd e @ bs\<rparr>)"
  have n: "buf c \<noteq> [] \<or> \<not> socks_up c \<Longrightarrow> ok (?c, ?e)"
    using assms len by (auto simp: client_defs DEAD_ENTER_def enter_def split: if_splits)
  have s: "buf c = [] \<Longrightarrow> socks_up c \<Longrightarrow> ok (?c, ?e\<lparr>sending := Some bs\<rparr>)"
    using assms len by (auto simp: client_defs DEAD_ENTER_def enter_def)
  have p: "pcb_live e" "socks_live e" "\<not> client_closed c" "\<not> socks_closed c" "is_up e \<longleftrightarrow> socks_up c" "bs \<noteq> []"
    "buf c = [] \<Longrightarrow> sending e = None"
    using assms by (auto simp: client_defs)
  show ?thesis
  proof (cases "buf c = [] \<and> socks_up c")
    case True
    then show ?thesis
      using p s len by (auto simp: client_recv_func_def Let_def client_send_to_socks_def DEAD_ENTER_def enter_def)
  next
    case False
    then show ?thesis
      using p n len by (auto simp: client_recv_func_def Let_def DEAD_ENTER_def enter_def)
  qed
qed

text \<open>What \<open>n\<close> bytes that left the buffer change: nothing but the state of the uplink.\<close>

lemma uplink_step:
  assumes "nearly c e" "sending e = Some bs" "n \<le> length bs"
    "f = e\<lparr>to_socks := to_socks e @ take n bs, recved := r, sending := t\<rparr>"
    "pcb_live e \<Longrightarrow> r = recved e + n"
    "t = (if drop n (buf c) = [] then None else Some (drop n (buf c)))"
  shows "nearly (c\<lparr>buf := drop n (buf c)\<rparr>) f"
proof -
  obtain zs where zs: "buf c = bs @ zs"
    using assms(1,2) by (auto simp: nearly_def uplink_ok_def)
  have "ends_open (c\<lparr>buf := drop n (buf c)\<rparr>) f" "dead_ok (c\<lparr>buf := drop n (buf c)\<rparr>) f"
    using assms by (auto simp: nearly_def ends_open_def dead_ok_def)
  moreover have "uplink_ok (c\<lparr>buf := drop n (buf c)\<rparr>) f"
    using assms zs by (auto simp: nearly_def uplink_ok_def)
  moreover have "downlink_ok (c\<lparr>buf := drop n (buf c)\<rparr>) f"
    using assms by (auto simp: nearly_def downlink_ok_def downlink_open_def unsent_def uplink_ok_def)
  ultimately show ?thesis by (simp add: nearly_def)
qed

lemma send_done_ok:
  assumes "good c e" "sending e = Some bs" "0 < n" "n \<le> length bs"
  shows "returns (client_socks_send_handler_done lw c n) (e\<lparr>sending := None, to_socks := to_socks e @ take n bs\<rparr>)"
proof -
  let ?c = "c\<lparr>buf := drop n (buf c)\<rparr>"
  let ?e = "e\<lparr>sending := None, to_socks := to_socks e @ take n bs\<rparr>"
  let ?r = "if pcb_live e then recved e + n else recved e"
  have p: "socks_live e" "is_up e" "socks_up c" "\<not> socks_closed c" "pcb_live e \<longleftrightarrow> \<not> client_closed c" "n \<le> length (buf c)" "buf c \<noteq> []"
    "pcb_live e \<Longrightarrow> recved e + n \<le> length (rcvd e)"
    using assms by (auto simp: client_defs)
  let ?t = "if drop n (buf c) = [] then None else Some (drop n (buf c))"
  let ?f = "?e\<lparr>recved := ?r, sending := ?t\<rparr>"
  have n: "nearly ?c ?f"
    using assms by (intro uplink_step [where bs = bs and r = ?r and t = ?t]) (auto simp: good_def)
  have eq: "?f = (if pcb_live e then ?e\<lparr>recved := ?r\<rparr> else ?e)" if "drop n (buf c) = []"
    using that by (cases e) simp
  have g: "drop n (buf c) \<noteq> [] \<or> pcb_live e \<Longrightarrow> ok (?c, ?f)"
    using n p by (auto simp: ok_def good_def still_waiting_def)
  have l: "returns (client_free_socks lw ?c) ?f"
    using n p by (intro free_socks_ok) auto
  show ?thesis
  proof (cases "drop n (buf c) = []")
    case True
    then show ?thesis
      using g l p assms(3,4) unfolding eq [OF True]
      by (cases "pcb_live e") (auto simp: client_socks_send_handler_done_def Let_def)
  next
    case False
    then show ?thesis
      using g p assms(3,4)
      by (cases "pcb_live e") (auto simp: client_socks_send_handler_done_def Let_def)
  qed
qed

lemma up_ok:
  assumes "good c e" "socks_live e" "\<not> is_up e"
  shows "returns (client_socks_handler lw c EVENT_UP) (e\<lparr>is_up := True\<rparr>)"
proof -
  let ?c = "c\<lparr>socks_recv_buf_used := - 1, socks_recv_tcp_pending := 0, socks_up := True\<rparr>"
  let ?e1 = "if pcb_live e then e\<lparr>is_up := True, cb_sent := True\<rparr> else e\<lparr>is_up := True\<rparr>"
  let ?e2 = "if buf c = [] then ?e1 else ?e1\<lparr>sending := Some (buf c)\<rparr>"
  let ?e3 = "if pcb_live e then ?e2\<lparr>receiving := True\<rparr> else ?e2"
  have p: "\<not> socks_closed c" "\<not> socks_up c" "pcb_live e \<longleftrightarrow> \<not> client_closed c" "sending e = None" "\<not> receiving e"
    using assms by (auto simp: client_defs)
  have "ok (?c, ?e3)"
    using assms by (auto simp: client_defs)
  then show ?thesis
    using p assms
    by (cases "buf c = []"; cases "pcb_live e")
      (auto simp: client_socks_handler_def Let_def client_send_to_socks_def client_socks_recv_initiate_def)
qed

lemma free_socks_closes: "socks_closed (fst (client_free_socks lw c))"
  by (simp add: client_free_socks.simps [of lw c] client_free_client.simps client_handle_freed_client.simps
      client_dealloc_def client_abort_pcb_def Let_def)

lemma socks_failed_ok:
  assumes "good c e" "socks_live e" "ev = EVENT_ERROR \<or> ev = EVENT_ERROR_CLOSED" "ev = EVENT_ERROR_CLOSED \<Longrightarrow> is_up e"
  shows "\<exists>s. run (client_socks_handler lw c ev) e = Some s \<and> ok s \<and> \<not> socks_live (snd s)"
proof -
  have "returns (client_free_socks lw c) e"
    using assms by (intro free_socks_ok) (auto simp: good_def nearly_def ends_open_def)
  then obtain e' where e': "exec_calls (snd (client_free_socks lw c)) e = Some e'" "ok (fst (client_free_socks lw c), e')"
    by (auto simp: returns_def run_def)
  have "\<not> socks_live e'"
    using e'(2) free_socks_closes [of lw c] by (auto simp: client_defs)
  then show ?thesis
    using e' assms
    by (cases ev) (auto simp: client_socks_handler_def Let_def run_def good_def nearly_def ends_open_def split: prod.splits)
qed

lemma connected_ok:
  assumes "good c e" "socks_live e"
  shows "returns (client_socks_handler lw c EVENT_CONNECTED) e"
  using assms by (simp add: client_socks_handler_def ok_def good_def nearly_def ends_open_def)

section \<open>Sending to the device\<close>

text \<open>The loop moves bytes from the buffer to lwIP, and nothing else.\<close>

lemma send_loop_ok:
  assumes "send_loop lw i c = ((c', cs), failed)" "pcb_live e" "0 \<le> socks_recv_buf_sent c" 
    "socks_recv_buf_sent c \<le> socks_recv_buf_used c" "socks_recv_buf_used c = int (length (socks_recv_buf c))"
  shows "\<exists>k. socks_recv_buf_sent c + int k \<le> socks_recv_buf_used c \<and>
    c' = c\<lparr>socks_recv_buf_sent := socks_recv_buf_sent c + int k, socks_recv_tcp_pending := socks_recv_tcp_pending c + int k\<rparr> \<and>
    exec_calls cs e = Some (e\<lparr>tcp_out := tcp_out e @ take k (drop (nat (socks_recv_buf_sent c)) (socks_recv_buf c))\<rparr>)"
  using assms
proof (induction lw i c arbitrary: c' cs failed e rule: send_loop.induct)
  case (1 lw i c)
  let ?w = "bmin_int (socks_recv_buf_used c - socks_recv_buf_sent c) (int (sndbuf lw i))"
  let ?c1 = "c\<lparr>socks_recv_buf_sent := socks_recv_buf_sent c + ?w, socks_recv_tcp_pending := socks_recv_tcp_pending c + ?w\<rparr>"
  let ?bs = "take (nat ?w) (drop (nat (socks_recv_buf_sent c)) (socks_recv_buf c))"
  have w: "0 \<le> ?w" "?w \<le> socks_recv_buf_used c - socks_recv_buf_sent c"
    using 1 by (auto simp: bmin_int_def)
  consider "?w = 0 \<or> socks_recv_buf_used c \<le> socks_recv_buf_sent c"
    | "?w \<noteq> 0" "\<not> socks_recv_buf_used c \<le> socks_recv_buf_sent c" "write_err lw i \<noteq> ERR_OK"
    | "?w \<noteq> 0" "\<not> socks_recv_buf_used c \<le> socks_recv_buf_sent c" "write_err lw i = ERR_OK"
    by blast
  then show ?case
  proof cases
    case 1
    then have "c' = c" "cs = []"
      using "1.prems"(1) by (auto simp: send_loop.simps [of lw i c] Let_def)
    then show ?thesis
      using "1.prems" by (intro exI [of _ 0]) simp
  next
    case 2
    then have "c' = c" "cs = [TcpWrite ?bs (write_err lw i)]"
      using "1.prems"(1) by (auto simp: send_loop.simps [of lw i c] Let_def)
    then show ?thesis
      using 2 w "1.prems" by (intro exI [of _ 0]) auto
  next
    case 3
    let ?e1 = "e\<lparr>tcp_out := tcp_out e @ ?bs\<rparr>"
    have call: "exec_call (TcpWrite ?bs ERR_OK) e = Some ?e1"
      using 3 w "1.prems" by auto
    show ?thesis
    proof (cases "socks_recv_buf_sent ?c1 < socks_recv_buf_used ?c1")
      case True
      obtain cs2 where cs2: "send_loop lw (i + 1) ?c1 = ((c', cs2), failed)" "cs = TcpWrite ?bs ERR_OK # cs2"
        using 3 True "1.prems"(1) by (auto simp: send_loop.simps [of lw i c] Let_def split: prod.splits)
      obtain k where k: "socks_recv_buf_sent ?c1 + int k \<le> socks_recv_buf_used ?c1"
        "c' = ?c1\<lparr>socks_recv_buf_sent := socks_recv_buf_sent ?c1 + int k,
           socks_recv_tcp_pending := socks_recv_tcp_pending ?c1 + int k\<rparr>"
        "exec_calls cs2 ?e1 = Some (?e1\<lparr>tcp_out := tcp_out ?e1 @
           take k (drop (nat (socks_recv_buf_sent ?c1)) (socks_recv_buf ?c1))\<rparr>)"
        using "1.IH" [OF refl _ refl _ refl True cs2(1), of ?e1] 3 w "1.prems" by auto
      obtain n where n: "?w = int n"
        using w(1) nonneg_int_cases by blast
      obtain m where m: "socks_recv_buf_sent c = int m"
        using "1.prems"(3) nonneg_int_cases by blast
      have c': "c' = c\<lparr>socks_recv_buf_sent := socks_recv_buf_sent c + int (n + k),
           socks_recv_tcp_pending := socks_recv_tcp_pending c + int (n + k)\<rparr>"
        using k(2) unfolding n by (simp add: add.assoc)
      have "exec_calls cs e = Some (e\<lparr>tcp_out := tcp_out e @ take (n + k) (drop m (socks_recv_buf c))\<rparr>)"
        using k(3) call cs2(2) unfolding n unfolding m nat_int
        by (simp add: take_add add.commute [of n m] nat_int_add)
      moreover have "socks_recv_buf_sent c + int (n + k) \<le> socks_recv_buf_used c"
        using k(1) unfolding n by simp
      ultimately show ?thesis
        using c' unfolding m nat_int by blast
    next
      case False
      then have "c' = ?c1" "cs = [TcpWrite ?bs ERR_OK]"
        using 3 "1.prems"(1) by (auto simp: send_loop.simps [of lw i c] Let_def)
      then show ?thesis
        using call w "1.prems" by (intro exI [of _ "nat ?w"]) auto
    qed
  qed
qed


lemma abort_ok:
  assumes "ends_open c e" "dead_ok c e" "uplink_ok c e" "pcb_live e" "receiving e \<longrightarrow> socks_recv_buf_used c = - 1"
    "\<exists>zs. from_socks e = tcp_out e @ zs" "is_up e" "socks_live e \<or> \<not> receiving e"
  shows "returns (client_abort_client lw c) e"
proof (rule free_client_ok)
  show "nearly (c\<lparr>client_closed := True\<rparr>) (pcb_gone e)"
    using assms by (auto simp: client_defs pcb_gone_def)
qed (use assms in \<open>auto simp: ends_open_def\<close>)

text \<open>The state in which \<open>client_socks_recv_send_out\<close> is called: there are bytes for lwIP, and no receive is in
  progress.\<close>

definition ready_to_send :: "tcp_client \<Rightarrow> env \<Rightarrow> bool" where
  "ready_to_send c e =
     (ends_open c e \<and> dead_ok c e \<and> uplink_ok c e \<and> pcb_live e \<and> is_up e \<and> \<not> receiving e \<and> \<not> socks_recv_waiting c \<and>
      0 \<le> socks_recv_buf_sent c \<and> socks_recv_buf_sent c < socks_recv_buf_used c \<and>
      socks_recv_buf_used c = int (length (socks_recv_buf c)) \<and> 0 \<le> socks_recv_tcp_pending c \<and>
      from_socks e = tcp_out e @ drop (nat (socks_recv_buf_sent c)) (socks_recv_buf c) \<and>
      int (length (tcp_out e)) = int (confirmed e) + socks_recv_tcp_pending c)"

lemma send_out_waits:
  assumes "send_loop lw 0 c = ((c1, cs1), False)" "output_err lw = ERR_OK" "socks_recv_buf_sent c1 < socks_recv_buf_used c1"
    "socks_recv_tcp_pending c1 \<noteq> 0" "exec_calls cs1 e = Some (e\<lparr>tcp_out := ys\<rparr>)"
    "\<not> client_closed c" "socks_up c" "0 < socks_recv_buf_used c" "\<not> socks_recv_waiting c" "pcb_live e"
    "socks_recv_buf_sent c < socks_recv_buf_used c"
  shows "\<exists>cs. client_socks_recv_send_out lw c = ((c1\<lparr>socks_recv_waiting := True\<rparr>, cs), True) \<and>
    exec_calls cs e = Some (e\<lparr>tcp_out := ys\<rparr>)"
  using assms by (simp add: client_socks_recv_send_out_def Let_def)

lemma send_out_queues_all:
  assumes "send_loop lw 0 c = ((c1, cs1), False)" "output_err lw = ERR_OK" "\<not> socks_recv_buf_sent c1 < socks_recv_buf_used c1"
    "exec_calls cs1 e = Some (e\<lparr>tcp_out := ys\<rparr>)"
    "\<not> client_closed c" "socks_up c" "0 < socks_recv_buf_used c" "\<not> socks_recv_waiting c" "pcb_live e"
    "socks_recv_buf_sent c < socks_recv_buf_used c"
  shows "\<exists>cs. client_socks_recv_send_out lw c = ((c1\<lparr>socks_recv_buf_used := - 1\<rparr>, cs), True) \<and>
    exec_calls cs e = Some (e\<lparr>tcp_out := ys\<rparr>)"
  using assms by (simp add: client_socks_recv_send_out_def Let_def)

text \<open>Either the connection was aborted, or the client waits for confirmations, or everything is queued.\<close>

lemma send_out_ok:
  assumes "ready_to_send c e"
  shows "\<exists>c' cs up e'. client_socks_recv_send_out lw c = ((c', cs), up) \<and> exec_calls cs e = Some e' \<and>
    (if up then nearly c' (if socks_live e \<and> socks_recv_buf_used c' = - 1 then e'\<lparr>receiving := True\<rparr> else e') \<and>
       pcb_live e' \<and> is_up e' \<and> 0 < socks_recv_tcp_pending c' \<and> \<not> receiving e' \<and> socks_live e' = socks_live e
     else ok (c', e'))"
proof -
  obtain c1 cs1 failed where l: "send_loop lw 0 c = ((c1, cs1), failed)"
    by (metis prod.exhaust)
  obtain k where k: "socks_recv_buf_sent c + int k \<le> socks_recv_buf_used c"
    "c1 = c\<lparr>socks_recv_buf_sent := socks_recv_buf_sent c + int k, socks_recv_tcp_pending := socks_recv_tcp_pending c + int k\<rparr>"
    "exec_calls cs1 e = Some (e\<lparr>tcp_out := tcp_out e @ take k (drop (nat (socks_recv_buf_sent c)) (socks_recv_buf c))\<rparr>)"
    using send_loop_ok [OF l, of e] assms(1) by (auto simp: ready_to_send_def)
  let ?e1 = "e\<lparr>tcp_out := tcp_out e @ take k (drop (nat (socks_recv_buf_sent c)) (socks_recv_buf c))\<rparr>"
  obtain m where m: "socks_recv_buf_sent c = int m"
    using assms(1) nonneg_int_cases by (auto simp: ready_to_send_def)
  have split: "from_socks ?e1 = tcp_out ?e1 @ drop (m + k) (socks_recv_buf c)"
    using assms(1) append_take_drop_id [of k "drop m (socks_recv_buf c)", symmetric]
    by (simp add: ready_to_send_def m add.commute)
  have "returns (client_abort_client lw c1) ?e1"
    using assms(1) split k(2) by (intro abort_ok) (auto simp: client_defs ready_to_send_def)
  then obtain c2 cs2 e2 where a: "client_abort_client lw c1 = (c2, cs2)" "exec_calls cs2 ?e1 = Some e2" "ok (c2, e2)"
    by (rule returnsE)
  have pre: "\<not> client_closed c" "socks_up c" "0 < socks_recv_buf_used c" "\<not> socks_recv_waiting c" "pcb_live e"
    "socks_recv_buf_sent c < socks_recv_buf_used c"
    using assms(1) by (auto simp: ready_to_send_def ends_open_def)
  have parts: "ends_open c' e'" "dead_ok c' e'" "uplink_ok c' e'"
    if "aborted c' = aborted c" "dead_aborted c' = dead_aborted c" "client_closed c' = client_closed c" "buf c' = buf c"
      "socks_up c' = socks_up c" "socks_closed c' = socks_closed c"
      "e' = ?e1 \<or> socks_live e \<and> e' = ?e1\<lparr>receiving := True\<rparr>" for c' e'
  proof -
    have r: "ends_open c e" "dead_ok c e" "uplink_ok c e"
      using assms(1) by (auto simp: ready_to_send_def)
    show "ends_open c' e'"
      using that(7) r(1) that(1,3,5,6) unfolding ends_open_def by (elim disjE) auto
    show "dead_ok c' e'"
      using r(2) that(1,2,7) by (elim disjE) (simp_all add: dead_ok_def)
    show "uplink_ok c' e'"
      using r(3) that(4,7) by (elim disjE) (simp_all add: uplink_ok_def)
  qed
  have down2: "downlink_ok (c1\<lparr>socks_recv_waiting := True\<rparr>) ?e1"
    if "socks_recv_buf_sent c1 < socks_recv_buf_used c1" "socks_recv_tcp_pending c1 \<noteq> 0"
    using assms(1) split that k(2) m
    by (auto simp: ready_to_send_def downlink_ok_def downlink_open_def unsent_def nat_int_add)
  have down3: "downlink_ok (c1\<lparr>socks_recv_buf_used := - 1\<rparr>) (if socks_live e then ?e1\<lparr>receiving := True\<rparr> else ?e1)"
    if "\<not> socks_recv_buf_sent c1 < socks_recv_buf_used c1"
    using assms(1) split that k(1,2) m
    by (simp add: ready_to_send_def downlink_ok_def downlink_open_def unsent_def)
  consider "failed \<or> output_err lw \<noteq> ERR_OK" | "\<not> failed" "output_err lw = ERR_OK" "socks_recv_buf_sent c1 < socks_recv_buf_used c1"
    | "\<not> failed" "output_err lw = ERR_OK" "\<not> socks_recv_buf_sent c1 < socks_recv_buf_used c1" by blast
  then show ?thesis
  proof cases
    case 1
    then show ?thesis
      using l a pre k(3) by (cases failed) (auto simp: client_socks_recv_send_out_def Let_def)
  next
    case 2
    show ?thesis
    proof (cases "socks_recv_tcp_pending c1 = 0")
      case True
      then show ?thesis
        using 2 l a pre k(3) by (auto simp: client_socks_recv_send_out_def Let_def)
    next
      case False
      have "nearly (c1\<lparr>socks_recv_waiting := True\<rparr>) ?e1"
        unfolding nearly_def using down2 [OF 2(3) False] by (intro conjI parts) (simp_all add: k(2))
      moreover obtain cs where cs: "client_socks_recv_send_out lw c = ((c1\<lparr>socks_recv_waiting := True\<rparr>, cs), True)" "exec_calls cs e = Some ?e1"
        using send_out_waits [OF _ 2(2,3) False k(3) pre] l 2(1) by auto
      moreover have "0 < socks_recv_tcp_pending c1" "socks_recv_buf_used c1 \<noteq> - 1"
        using False k(2) assms(1) by (auto simp: ready_to_send_def)
      moreover have "pcb_live ?e1" "is_up ?e1" "\<not> receiving ?e1"
        using assms(1) by (auto simp: ready_to_send_def)
      ultimately show ?thesis
        by (intro exI [of _ "c1\<lparr>socks_recv_waiting := True\<rparr>"] exI [of _ cs] exI [of _ True] exI [of _ ?e1]) simp
    qed
  next
    case 3
    have "nearly (c1\<lparr>socks_recv_buf_used := - 1\<rparr>) (if socks_live e then ?e1\<lparr>receiving := True\<rparr> else ?e1)"
      unfolding nearly_def using down3 [OF 3(3)] by (intro conjI parts) (simp_all add: k(2))
    moreover obtain cs where cs: "client_socks_recv_send_out lw c = ((c1\<lparr>socks_recv_buf_used := - 1\<rparr>, cs), True)" "exec_calls cs e = Some ?e1"
      using send_out_queues_all [OF _ 3(2,3) k(3) pre] l 3(1) by auto
    moreover have "0 < socks_recv_tcp_pending c1"
      using 3 k(1,2) pre assms(1) by (auto simp: ready_to_send_def)
    moreover have "pcb_live ?e1" "is_up ?e1" "\<not> receiving ?e1"
      using assms(1) by (auto simp: ready_to_send_def)
    ultimately show ?thesis
      by (intro exI [of _ "c1\<lparr>socks_recv_buf_used := - 1\<rparr>"] exI [of _ cs] exI [of _ True] exI [of _ ?e1]) simp
  qed
qed


lemma received_ok:
  assumes "good c e" "receiving e" "bs \<noteq> []" "length bs \<le> CLIENT_SOCKS_RECV_BUF_SIZE"
  shows "returns (client_socks_recv_handler_done lw c bs) (e\<lparr>receiving := False, from_socks := from_socks e @ bs\<rparr>)"
proof -
  let ?e = "e\<lparr>receiving := False, from_socks := from_socks e @ bs\<rparr>"
  have p: "\<not> socks_closed c" "socks_up c" "socks_recv_buf_used c = - 1" "socks_live e"
    using assms by (auto simp: client_defs)
  show ?thesis
  proof (cases "client_closed c")
    case True
    have "ok (c, ?e)"
      using assms True by (auto simp: client_defs)
    then show ?thesis
      using p assms True by (auto simp: client_socks_recv_handler_done_def Let_def)
  next
    case False
    let ?c = "c\<lparr>socks_recv_buf := bs, socks_recv_buf_used := int (length bs), socks_recv_buf_sent := 0, socks_recv_waiting := False\<rparr>"
    have "ready_to_send ?c ?e"
      using assms False by (auto simp: client_defs ready_to_send_def)
    then obtain c' cs up e' where s: "client_socks_recv_send_out lw ?c = ((c', cs), up)" "exec_calls cs ?e = Some e'"
      "if up then nearly c' (if socks_live ?e \<and> socks_recv_buf_used c' = - 1 then e'\<lparr>receiving := True\<rparr> else e') \<and>
         pcb_live e' \<and> is_up e' \<and> 0 < socks_recv_tcp_pending c' \<and> \<not> receiving e' \<and> socks_live e' = socks_live ?e
       else ok (c', e')"
      using send_out_ok [of ?c ?e lw] by blast
    show ?thesis
    proof (cases up)
      case False': True
      have o: "ok (c', if socks_recv_buf_used c' = - 1 then e'\<lparr>receiving := True\<rparr> else e')"
        using s(3) False' p by (auto simp: ok_def good_def still_waiting_def split: if_splits)
      have "\<not> client_closed c'" "\<not> socks_closed c'" "socks_up c'"
        using s(3) False' p by (auto simp: nearly_def ends_open_def split: if_splits)
      then show ?thesis
        using s o p False False' assms
        by (cases "socks_recv_buf_used c' = - 1")
          (auto simp: client_socks_recv_handler_done_def client_socks_recv_initiate_def Let_def returns_iff split: if_splits)
    next
      case up: False
      then show ?thesis
        using s p False assms by (auto simp: client_socks_recv_handler_done_def Let_def returns_iff)
    qed
  qed
qed

lemma sent_ok:
  assumes "good c e" "enabled (Pcb_Sent n) e"
  shows "returns (client_sent_func lw c n) (enter (e\<lparr>confirmed := confirmed e + n\<rparr>))"
proof -
  let ?c = "(DEAD_ENTER c)\<lparr>socks_recv_tcp_pending := socks_recv_tcp_pending c - int n\<rparr>"
  let ?e = "enter (e\<lparr>confirmed := confirmed e + n\<rparr>)"
  have p: "\<not> client_closed c" "socks_up c" "0 < n" "int n \<le> socks_recv_tcp_pending c" "pcb_live e" "is_up e" "\<not> in_cb e"
    "socks_live e \<longleftrightarrow> \<not> socks_closed c"
    using assms by (auto simp: client_defs)
  have e: "ends_open ?c ?e" "dead_ok ?c ?e" "uplink_ok ?c ?e"
    using assms by (auto simp: client_defs DEAD_ENTER_def enter_def)
  show ?thesis
  proof (cases "0 < socks_recv_buf_used c")
    case True
    let ?d = "?c\<lparr>socks_recv_waiting := False\<rparr>"
    have w: "socks_recv_waiting c" "socks_recv_buf_sent c < socks_recv_buf_used c"
      using assms True by (auto simp: client_defs)
    have "ready_to_send ?d ?e"
      using assms True e p by (auto simp: client_defs ready_to_send_def DEAD_ENTER_def enter_def)
    then obtain c' cs up e' where s: "client_socks_recv_send_out lw ?d = ((c', cs), up)" "exec_calls cs ?e = Some e'"
      "if up then nearly c' (if socks_live ?e \<and> socks_recv_buf_used c' = - 1 then e'\<lparr>receiving := True\<rparr> else e') \<and>
         pcb_live e' \<and> is_up e' \<and> 0 < socks_recv_tcp_pending c' \<and> \<not> receiving e' \<and> socks_live e' = socks_live ?e
       else ok (c', e')"
      using send_out_ok [of ?d ?e lw] by blast
    show ?thesis
    proof (cases up)
      case up: True
      have o: "ok (c', if socks_live ?e \<and> socks_recv_buf_used c' = - 1 then e'\<lparr>receiving := True\<rparr> else e')"
        using s(3) up by (auto simp: ok_def good_def still_waiting_def split: if_splits)
      have q: "\<not> client_closed c'" "socks_live e' \<longleftrightarrow> \<not> socks_closed c'" "socks_up c'" "socks_live e' \<longleftrightarrow> socks_live e"
        using s(3) up by (auto simp: nearly_def ends_open_def enter_def split: if_splits)
      show ?thesis
        using s o p q w up True
        by (cases "socks_recv_buf_used c' = - 1 \<and> \<not> socks_closed c'")
          (auto simp: client_sent_func_def client_socks_recv_initiate_def Let_def returns_iff DEAD_ENTER_def split: if_splits)
    next
      case up: False
      then show ?thesis
        using s p w True by (auto simp: client_sent_func_def Let_def returns_iff DEAD_ENTER_def)
    qed
  next
    case False
    then have used: "socks_recv_buf_used c = - 1"
      using assms by (auto simp: client_defs)
    have "downlink_ok ?c ?e"
      using assms(1) used p by (simp add: good_def nearly_def downlink_ok_def downlink_open_def unsent_def DEAD_ENTER_def enter_def)
    then have n: "nearly ?c ?e"
      using e by (simp add: nearly_def)
    show ?thesis
    proof (cases "socks_closed c \<and> socks_recv_tcp_pending c - int n = 0")
      case True
      have "returns (client_free_client lw ?c) ?e"
        using nearly_gone [OF n] n p assms(1)
        by (intro free_client_ok) (auto simp: DEAD_ENTER_def enter_def good_def nearly_def ends_open_def)
      then show ?thesis
        using True False p by (auto simp: client_sent_func_def Let_def DEAD_ENTER_def)
    next
      case more: False
      then have "ok (?c, ?e)"
        using n p assms by (auto simp: ok_def good_def still_waiting_def enter_def)
      then show ?thesis
        using more False p by (auto simp: client_sent_func_def Let_def DEAD_ENTER_def)
    qed
  qed
qed

lemma murder_ok:
  assumes "good c e" "\<not> in_cb e"
  shows "returns (client_murder c) e"
proof -
  let ?c1 = "if client_closed c then c else c\<lparr>aborted := True, client_closed := True\<rparr>"
  let ?e1 = "if client_closed c then e else (pcb_gone e)\<lparr>abort_called := True\<rparr>"
  let ?c2 = "if socks_closed c then ?c1 else ?c1\<lparr>socks_closed := True\<rparr>"
  let ?e2 = "if socks_closed c then ?e1 else ?e1\<lparr>socks_live := False, sending := None, receiving := False\<rparr>"
  have p: "pcb_live e \<longleftrightarrow> \<not> client_closed c" "socks_live e \<longleftrightarrow> \<not> socks_closed c" "pcb_live e \<Longrightarrow> \<not> aborted c"
    "dead_aborted c \<Longrightarrow> aborted c"
    using assms by (auto simp: good_def nearly_def ends_open_def dead_ok_def)
  have b: "\<exists>zs. rcvd e = to_socks e @ zs" "\<exists>zs. from_socks e = tcp_out e @ zs"
    using assms(1) by (auto simp: good_def nearly_def uplink_ok_def downlink_ok_def)
  have "returns (client_dealloc ?c2) ?e2"
    using assms b by (intro dealloc_ok) (auto simp: good_def nearly_def ends_open_def dead_ok_def pcb_gone_def)
  then show ?thesis
    using p
    by (cases "client_closed c"; cases "socks_closed c")
      (auto simp: client_murder_def client_abort_pcb_def DEAD_KILL_WITH_def Let_def pcb_gone_def)
qed

lemma leave_ok:
  assumes "ok (c, e)" "in_cb e"
  shows "\<exists>s. fire lw Callback_Returns (c, e) = Some s \<and> ok s"
proof (cases "gone e")
  case True
  then show ?thesis
    using assms(2) by (auto simp: ok_def gone_def callback_result_def)
next
  case False
  then have g: "good c e"
    using assms(1) by (simp add: ok_def)
  let ?c = "DEAD_LEAVE2 (dead e) c" and ?e = "e\<lparr>in_cb := False\<rparr>"
  have d: "dead e = (if aborted c then 1 else 0)" "abort_called e \<longleftrightarrow> aborted c" "\<not> freed e"
    using g assms(2) by (auto simp: good_def nearly_def dead_ok_def ends_open_def)
  have n: "ends_open c e" "dead_ok c e" "uplink_ok c e" "downlink_ok c e" "still_waiting c e"
    using g by (simp_all add: good_def nearly_def)
  have "ends_open ?c ?e"
    using n(1) by (auto simp: DEAD_LEAVE2_def ends_open_def)
  moreover have "dead_ok ?c ?e"
    using d by (simp add: DEAD_LEAVE2_def dead_ok_def)
  moreover have "uplink_ok ?c ?e"
    using n(3) by (simp add: DEAD_LEAVE2_def uplink_ok_def)
  moreover have "downlink_ok ?c ?e"
  proof -
    have "downlink_open ?c ?e = downlink_open c e"
      by (simp add: DEAD_LEAVE2_def downlink_open_def unsent_def)
    then show ?thesis
      using n(4) by (simp add: DEAD_LEAVE2_def downlink_ok_def)
  qed
  moreover have "still_waiting ?c ?e"
    using n(5) by (simp add: DEAD_LEAVE2_def still_waiting_def)
  ultimately show ?thesis
    using d by (simp add: ok_def good_def nearly_def callback_result_def)
qed

section \<open>Every execution\<close>

lemma fire_ok:
  assumes "ok (c, e)" "enabled ev e"
  shows "\<exists>s. fire lw ev (c, e) = Some s \<and> ok s"
proof (cases "gone e")
  case True
  then have "ev = Callback_Returns"
    using assms(2) by (cases ev) (auto simp: gone_def)
  then show ?thesis
    using leave_ok [OF assms(1)] assms(2) by simp
next
  case False
  then have g: "good c e"
    using assms(1) by (simp add: ok_def)
  show ?thesis
  proof (cases ev)
    case Pcb_Error
    then show ?thesis using pcb_error_ok [OF g] assms(2) by (simp add: returns_def)
  next
    case (Pcb_Recv p)
    show ?thesis
    proof (cases p)
      case None
      then show ?thesis using Pcb_Recv pcb_closed_ok [OF g, of lw] assms(2) by (auto simp: returns_def)
    next
      case (Some bs)
      then show ?thesis using Pcb_Recv recv_ok [OF g, of bs lw] assms(2) by (auto simp: returns_def)
    qed
  next
    case (Pcb_Sent n)
    then show ?thesis using sent_ok [OF g, of n lw] assms(2) by (simp add: returns_def)
  next
    case Callback_Returns
    then show ?thesis using leave_ok [OF assms(1)] assms(2) by simp
  next
    case (Socks_Event event)
    then show ?thesis
      using up_ok [OF g, of lw] socks_failed_ok [OF g, of event lw] assms(2)
      connected_ok [OF g, of lw] by (cases event) (auto simp: returns_def ensure_def)
  next
    case (Socks_Sent n)
    then show ?thesis
      using send_done_ok [OF g, of _ n lw] assms(2) by (auto simp: returns_def split: option.splits)
  next
    case (Socks_Received bs)
    then show ?thesis using received_ok [OF g, of bs lw] assms(2) by (simp add: returns_def)
  next
    case Murder
    then show ?thesis using murder_ok [OF g] assms(2) by (simp add: returns_def)
  qed
qed

lemma accepted_ok:
  assumes "listener_accept_func (Some m) la ra u cok True = ((Some c, cs), None)"
  shows "\<exists>s. run (c, cs) new_env = Some s \<and> ok s"
proof -
  let ?e = "new_env\<lparr>socks_live := True, listed := True, cb_err := True, cb_recv := True\<rparr>"
  have c: "\<not> aborted c" "\<not> client_closed c" "buf c = []" "\<not> socks_up c" "\<not> socks_closed c" "dead_aborted c"
    and cs: "\<exists>auth. cs = auth @ [SocksInit True (local_addr c), ListAppend, TcpArg, TcpErr True, TcpRecv True] \<and>
      (auth = [] \<or> (\<exists>u. auth = [AuthUsername u]))"
    using assms by (auto simp: listener_accept_func_def Let_def DEAD_ENTER_def split: if_splits option.splits)
  have "ends_open c ?e" "dead_ok c ?e" "uplink_ok c ?e" "downlink_ok c ?e" "still_waiting c ?e"
    using c by (simp_all add: ends_open_def dead_ok_def uplink_ok_def downlink_ok_def still_waiting_def new_env_def TCP_WND_def)
  then show ?thesis
    using cs by (auto simp: run_def new_env_def ok_def good_def nearly_def)
qed

lemma reached_ok: "reached s \<Longrightarrow> ok s"
proof (induction rule: reached.induct)
  case (accepted m la ra u cok c cs s)
  then show ?case using accepted_ok [OF accepted(1)] by auto
next
  case (event c e ev lw s)
  then show ?case using fire_ok [of c e ev lw] by auto
qed

text \<open>A sequence of events, run from a state.\<close>

fun run_events :: "(lwip \<times> event) list \<Rightarrow> state \<Rightarrow> state option" where
  "run_events [] s = Some s"
| "run_events ((lw, ev) # evs) s =
     (if enabled ev (snd s) then (case fire lw ev s of None \<Rightarrow> None | Some s' \<Rightarrow> run_events evs s') else None)"

lemma run_events_reached: "reached s \<Longrightarrow> run_events evs s = Some s' \<Longrightarrow> reached s'"
proof (induction evs arbitrary: s)
  case (Cons a evs)
  obtain lw ev c e where a: "a = (lw, ev)" "s = (c, e)"
    by (cases a; cases s) auto
  obtain s1 where s1: "fire lw ev (c, e) = Some s1" "enabled ev e" "run_events evs s1 = Some s'"
    using Cons.prems(2) by (auto simp: a split: if_splits option.splits)
  then have "reached s1"
    using Cons.prems(1) a by (auto intro: reached.event)
  then show ?case
    using Cons.IH s1(3) by blast
qed simp

definition sample_client :: tcp_client where
  "sample_client = \<lparr>aborted = False, dead_aborted = False, local_addr = BAddr_None, remote_addr = BAddr_None,
     client_closed = False, buf = [], socks_username = None, socks_up = False, socks_closed = False,
     socks_recv_buf = [], socks_recv_buf_used = 0, socks_recv_buf_sent = 0, socks_recv_waiting = False,
     socks_recv_tcp_pending = 0\<rparr>"

definition sample_lwip :: lwip where
  "sample_lwip = \<lparr>sndbuf = \<lambda>i. if i = 0 then 2 else 0, write_err = \<lambda>_. ERR_OK, output_err = ERR_OK, close_err = ERR_OK\<rparr>"

lemma sample_reached:
  "reached (sample_client\<lparr>dead_aborted := True\<rparr>,
     new_env\<lparr>socks_live := True, listed := True, cb_err := True, cb_recv := True\<rparr>)"
  by (rule reached.accepted [of sample_client BAddr_None BAddr_None None True "sample_client\<lparr>dead_aborted := True\<rparr>"
        "[SocksInit True BAddr_None, ListAppend, TcpArg, TcpErr True, TcpRecv True]"])
    (simp_all add: listener_accept_func_def Let_def sample_client_def DEAD_ENTER_def run_def new_env_def)

text \<open>A connection on which the device sent three bytes and closed, with SOCKS up: the client waits for the
  bytes to be sent.\<close>

lemma sample_run:
  "\<exists>c e. run_events [(sample_lwip, Callback_Returns), (sample_lwip, Socks_Event EVENT_UP), (sample_lwip, Socks_Received [7, 8, 9]),
     (sample_lwip, Pcb_Recv (Some [1, 2, 3])), (sample_lwip, Callback_Returns)]
     (sample_client\<lparr>dead_aborted := True\<rparr>, new_env\<lparr>socks_live := True, listed := True, cb_err := True, cb_recv := True\<rparr>) = Some (c, e) \<and>
     sending e = Some [1, 2, 3] \<and> tcp_out e = [7, 8] \<and> pcb_live e \<and> \<not> freed e \<and> \<not> in_cb e"
  by (simp add: sample_client_def new_env_def sample_lwip_def callback_result_def DEAD_LEAVE2_def DEAD_ENTER_def enter_def
      client_socks_handler_def client_socks_recv_initiate_def client_recv_func_def client_send_to_socks_def
      client_socks_recv_handler_done_def client_socks_recv_send_out_def send_loop.simps bmin_int_def Let_def run_def ensure_def
      TCP_WND_def CLIENT_SOCKS_RECV_BUF_SIZE_def)

section \<open>Properties\<close>

lemma ok_closed: "ok s \<Longrightarrow> client_closed (fst s) \<Longrightarrow> socks_closed (fst s) \<Longrightarrow> freed (snd s)"
  by (cases s) (auto simp: ok_def gone_def good_def nearly_def ends_open_def still_waiting_def)

lemma free_client_closes:
  assumes "socks_closed c"
  shows "client_closed (fst (client_free_client lw c)) \<and> socks_closed (fst (client_free_client lw c))"
  using assms
  by (simp add: client_free_client.simps [of lw c] client_handle_freed_client.simps client_dealloc_def client_abort_pcb_def Let_def)

lemma free_socks_closes_both:
  assumes "client_closed c"
  shows "client_closed (fst (client_free_socks lw c)) \<and> socks_closed (fst (client_free_socks lw c))"
  using assms by (simp add: client_free_socks.simps [of lw c] client_dealloc_def Let_def)

text \<open>C1: A TCP client never fails: in every reachable state, every event that lwIP or the SOCKS client may
  deliver is handled without a failed assertion, a call that the library forbids, or a use of the client after
  it was freed, whatever the library calls return.\<close>

theorem clients_never_fail:
  assumes "reached (c, e)" "enabled ev e"
  shows "\<exists>s. fire lw ev (c, e) = Some s \<and> reached s"
  using fire_ok [OF reached_ok [OF assms(1)] assms(2), of lw] reached.event [OF assms] by blast

theorem clients_never_fail_witness:
  "\<exists>c e s. sending e = Some [1, 2, 3] \<and> fire sample_lwip (Socks_Sent 2) (c, e) = Some s \<and> reached s"
proof -
  obtain c e where s: "reached (c, e)" "sending e = Some [1, 2, 3]"
    using sample_run run_events_reached [OF sample_reached] by blast
  then show ?thesis
    using clients_never_fail [of c e "Socks_Sent 2" sample_lwip] by fastforce
qed



text \<open>A callback of lwIP returns \<open>ERR_ABRT\<close> if and only if \<open>tcp_abort\<close> was called during it, and if the client
  was freed during it, the end of the callback does not touch the client.\<close>

theorem callbacks_report_the_abort:
  assumes "reached (c, e)" "in_cb e"
  shows "(callback_result (dead e) = ERR_ABRT \<longleftrightarrow> abort_called e) \<and> (freed e \<longrightarrow> DEAD_LEAVE2 (dead e) c = c)"
  using reached_ok [OF assms(1)] assms(2)
  by (auto simp: ok_def gone_def good_def nearly_def ends_open_def dead_ok_def callback_result_def DEAD_LEAVE2_def
      split: if_splits)

theorem callbacks_report_the_abort_witness:
  "\<exists>c e. reached (c, e) \<and> in_cb e \<and> callback_result (dead e) = ERR_OK"
proof -
  have "callback_result 0 = ERR_ABRT \<longleftrightarrow> False"
    using callbacks_report_the_abort [OF sample_reached] by (simp add: new_env_def)
  then show ?thesis
    using sample_reached
    by (intro exI [of _ "sample_client\<lparr>dead_aborted := True\<rparr>"]
        exI [of _ "new_env\<lparr>socks_live := True, listed := True, cb_err := True, cb_recv := True\<rparr>"])
      (simp add: new_env_def callback_result_def)
qed

lemma good_if_open: "reached (c, e) \<Longrightarrow> \<not> freed e \<Longrightarrow> good c e"
  using reached_ok [of "(c, e)"] by (auto simp: ok_def gone_def)

lemma socks_closed_sent:
  assumes "good c e" "\<not> in_cb e" "\<not> socks_live e"
  shows "enabled (Pcb_Sent (length (tcp_out e) - confirmed e)) e" "socks_closed c" "\<not> client_closed c"
    "socks_recv_tcp_pending c = int (length (tcp_out e) - confirmed e)"
proof -
  have p: "pcb_live e" "is_up e" "cb_sent e" "0 \<le> socks_recv_buf_used c \<or> 0 < socks_recv_tcp_pending c" "downlink_open c e"
    using assms by (auto simp: good_def nearly_def ends_open_def still_waiting_def downlink_ok_def split: if_splits)
  then have q: "0 < socks_recv_tcp_pending c" "int (length (tcp_out e)) = int (confirmed e) + socks_recv_tcp_pending c"
    by (auto simp: downlink_open_def)
  then show "enabled (Pcb_Sent (length (tcp_out e) - confirmed e)) e"
    "socks_recv_tcp_pending c = int (length (tcp_out e) - confirmed e)"
    using p assms(2) by auto
  show "socks_closed c" "\<not> client_closed c"
    using assms p by (auto simp: good_def nearly_def ends_open_def)
qed

text \<open>C3: A client with one end closed still has something to wait for: if SOCKS is closed, lwIP owes it the
  confirmation of bytes, and if the connection to the device is closed, SOCKS owes it its connection or the
  completion of a send.\<close>

theorem half_closed_clients_progress:
  assumes "reached (c, e)" "\<not> freed e" "\<not> in_cb e"
  shows "(\<not> socks_live e \<longrightarrow> enabled (Pcb_Sent (length (tcp_out e) - confirmed e)) e) \<and>
    (\<not> pcb_live e \<longrightarrow> enabled (Socks_Event EVENT_UP) e \<or> (\<exists>bs. sending e = Some bs \<and> enabled (Socks_Sent (length bs)) e))"
proof -
  have g: "good c e"
    using good_if_open assms by blast
  have "enabled (Socks_Event EVENT_UP) e \<or> (\<exists>bs. sending e = Some bs \<and> enabled (Socks_Sent (length bs)) e)"
    if "\<not> pcb_live e"
    using g that by (auto simp: good_def nearly_def uplink_ok_def still_waiting_def)
  then show ?thesis
    using socks_closed_sent [OF g assms(3)] by blast
qed

text \<open>The last byte frees the client: if SOCKS is closed and everything was queued, the event that
  confirms all of it; if the connection to the device is closed, the completion of the send of all that is buffered.\<close>

theorem drained_clients_are_freed:
  assumes "reached (c, e)" "\<not> freed e" "\<not> in_cb e"
  shows "(\<not> socks_live e \<and> unsent c = [] \<longrightarrow>
       (\<exists>s. fire lw (Pcb_Sent (length (tcp_out e) - confirmed e)) (c, e) = Some s \<and> freed (snd s))) \<and>
    (\<not> pcb_live e \<and> sending e = Some (buf c) \<longrightarrow>
       (\<exists>s. fire lw (Socks_Sent (length (buf c))) (c, e) = Some s \<and> freed (snd s)))"
proof -
  have g: "good c e"
    using good_if_open assms by blast
  have "\<exists>s. fire lw (Pcb_Sent (length (tcp_out e) - confirmed e)) (c, e) = Some s \<and> freed (snd s)"
    if l: "\<not> socks_live e" "unsent c = []"
  proof -
    let ?n = "length (tcp_out e) - confirmed e"
    let ?c = "(DEAD_ENTER c)\<lparr>socks_recv_tcp_pending := socks_recv_tcp_pending c - int ?n\<rparr>"
    note p = socks_closed_sent [OF g assms(3) l(1)]
    have used: "socks_recv_buf_used c = - 1"
      using g l p(1) by (auto simp: good_def nearly_def downlink_ok_def downlink_open_def unsent_def ends_open_def split: if_splits)
    have f: "fst (client_sent_func lw c ?n) = fst (client_free_client lw ?c)"
      using p(2,4) used by (simp add: client_sent_func_def Let_def DEAD_ENTER_def split: prod.splits)
    obtain s where s: "fire lw (Pcb_Sent ?n) (c, e) = Some s" "ok s"
      using fire_ok [of c e "Pcb_Sent ?n" lw] g p(1) by (auto simp: ok_def)
    then have "fst s = fst (client_sent_func lw c ?n)"
      by (auto simp: run_def)
    then have "freed (snd s)"
      using ok_closed [OF s(2)] free_client_closes [of ?c lw] p(2) f by (simp add: DEAD_ENTER_def)
    then show ?thesis using s(1) by blast
  qed
  moreover have "\<exists>s. fire lw (Socks_Sent (length (buf c))) (c, e) = Some s \<and> freed (snd s)"
    if l: "\<not> pcb_live e" "sending e = Some (buf c)"
  proof -
    have b: "buf c \<noteq> []" "client_closed c"
      using g l by (auto simp: good_def nearly_def uplink_ok_def ends_open_def)
    have f: "fst (client_socks_send_handler_done lw c (length (buf c))) = fst (client_free_socks lw (c\<lparr>buf := []\<rparr>))"
      using b by (simp add: client_socks_send_handler_done_def Let_def split: prod.splits)
    obtain s where s: "fire lw (Socks_Sent (length (buf c))) (c, e) = Some s" "ok s"
      using fire_ok [of c e "Socks_Sent (length (buf c))" lw] g l b by (auto simp: ok_def)
    then have "fst s = fst (client_socks_send_handler_done lw c (length (buf c)))"
      by (auto simp: run_def)
    then have "freed (snd s)"
      using ok_closed [OF s(2)] free_socks_closes_both [of "c\<lparr>buf := []\<rparr>" lw] b(2) f by simp
    then show ?thesis using s(1) by blast
  qed
  ultimately show ?thesis by blast
qed

text \<open>The same connection, closed by the device.\<close>

lemma sample_half_closed:
  "\<exists>c e. run_events [(sample_lwip, Callback_Returns), (sample_lwip, Socks_Event EVENT_UP),
     (sample_lwip, Pcb_Recv (Some [1, 2, 3])), (sample_lwip, Callback_Returns),
     (sample_lwip, Pcb_Recv None), (sample_lwip, Callback_Returns)]
     (sample_client\<lparr>dead_aborted := True\<rparr>, new_env\<lparr>socks_live := True, listed := True, cb_err := True, cb_recv := True\<rparr>) = Some (c, e) \<and>
     sending e = Some [1, 2, 3] \<and> buf c = [1, 2, 3] \<and> \<not> pcb_live e \<and> \<not> freed e \<and> \<not> in_cb e \<and> is_up e"
  by (simp add: sample_client_def new_env_def sample_lwip_def callback_result_def DEAD_LEAVE2_def DEAD_ENTER_def enter_def
      client_socks_handler_def client_socks_recv_initiate_def client_recv_func_def client_send_to_socks_def
      client_free_client.simps client_handle_freed_client.simps Let_def run_def ensure_def TCP_WND_def)

theorem half_closed_clients_progress_witness:
  "\<exists>c e. reached (c, e) \<and> \<not> pcb_live e \<and> enabled (Socks_Sent 3) e"
proof -
  obtain c e where s: "reached (c, e)" "\<not> freed e" "\<not> in_cb e" "\<not> pcb_live e" "is_up e" "sending e = Some [1, 2, 3]"
    using sample_half_closed run_events_reached [OF sample_reached] by blast
  have "enabled (Socks_Event EVENT_UP) e \<or> (\<exists>bs. sending e = Some bs \<and> enabled (Socks_Sent (length bs)) e)"
    using half_closed_clients_progress [OF s(1-3)] s(4) by blast
  then have "enabled (Socks_Sent 3) e"
    using s(5,6) by (auto simp: numeral_3_eq_3)
  then show ?thesis using s by blast
qed

theorem drained_clients_are_freed_witness:
  "\<exists>c e s. reached (c, e) \<and> \<not> freed e \<and> fire sample_lwip (Socks_Sent 3) (c, e) = Some s \<and> freed (snd s)"
proof -
  obtain c e where s: "reached (c, e)" "\<not> freed e" "\<not> in_cb e" "\<not> pcb_live e" "sending e = Some [1, 2, 3]" "buf c = [1, 2, 3]"
    using sample_half_closed run_events_reached [OF sample_reached] by blast
  then have "\<exists>s. fire sample_lwip (Socks_Sent (length (buf c))) (c, e) = Some s \<and> freed (snd s)"
    using drained_clients_are_freed [OF s(1-3), of sample_lwip] by simp
  then show ?thesis using s(1,2,6) by (auto simp: numeral_3_eq_3)
qed

end
