(* ===== verification/Socks_Negotiation.thy ===== *)
theory Socks_Negotiation
  imports Socks_Client
begin

text \<open>
  The SOCKS client with its environment: the connector, the connection and its asynchronous
  interfaces, the allocator, the job, and the user, who may free the client at any time and must do so after
  an error.  What the called code requires is executable: a call that is not allowed, a failed
  assertion, an access outside the buffer, or a change of the buffer while it is being sent or received into has
  no result.  The environment logs the bytes on the wire.
\<close>

section \<open>The environment\<close>

record socks_env =
  job_exists :: bool
  job_set :: bool
  connector :: bool
  connecting :: bool
  connection :: bool
  recv_async :: bool
  send_async :: bool
  sender :: bool
  block :: "nat option"
  sending :: "nat option"
  receiving :: "(nat \<times> nat) option"
  errored :: bool
  reports :: "socks_event list"
  wire_out :: bytes
  wire_in :: bytes
  tables :: "BSocksClient_auth_info list list"

text \<open>\<open>tables\<close> are the contents that the table of authentication methods has had, the present one first.\<close>

definition free_to_change :: "socks_env \<Rightarrow> bool" where
  "free_to_change e = (sending e = None \<and> receiving e = None)"

fun exec_call :: "socks_call \<Rightarrow> socks_env \<Rightarrow> socks_env option" where
  "exec_call JobInit e = (if job_exists e then None else Some (e\<lparr>job_exists := True\<rparr>))"
| "exec_call JobFree e = (if job_exists e then Some (e\<lparr>job_exists := False, job_set := False\<rparr>) else None)"
| "exec_call JobSet e = (if job_exists e then Some (e\<lparr>job_set := True\<rparr>) else None)"
| "exec_call (ConnectorInit a) e = (if connector e then None else Some (e\<lparr>connector := True, connecting := True\<rparr>))"
| "exec_call ConnectorFree e =
     (if connector e \<and> \<not> connection e then Some (e\<lparr>connector := False, connecting := False\<rparr>) else None)"
| "exec_call (ConnectionInit r) e = (if connector e \<and> \<not> connection e then Some (e\<lparr>connection := r\<rparr>) else None)"
| "exec_call ConnectionFree e =
     (if connection e \<and> \<not> recv_async e \<and> \<not> send_async e then Some (e\<lparr>connection := False\<rparr>) else None)"
| "exec_call RecvAsyncInit e = (if connection e \<and> \<not> recv_async e then Some (e\<lparr>recv_async := True\<rparr>) else None)"
| "exec_call RecvAsyncFree e = (if recv_async e then Some (e\<lparr>recv_async := False, receiving := None\<rparr>) else None)"
| "exec_call SendAsyncInit e = (if connection e \<and> \<not> send_async e then Some (e\<lparr>send_async := True\<rparr>) else None)"
| "exec_call SendAsyncFree e = (if send_async e \<and> \<not> sender e then Some (e\<lparr>send_async := False\<rparr>) else None)"
| "exec_call (SenderInit m) e = (if send_async e \<and> \<not> sender e \<and> 0 \<le> m then Some (e\<lparr>sender := True\<rparr>) else None)"
| "exec_call SenderFree e = (if sender e then Some (e\<lparr>sender := False, sending := None\<rparr>) else None)"
| "exec_call (Realloc n r) e =
     (if free_to_change e \<and> 0 < n then Some (if r then e\<lparr>block := Some n\<rparr> else e) else None)"
| "exec_call BufferFree e = (if free_to_change e \<and> block e \<noteq> None then Some (e\<lparr>block := None\<rparr>) else None)"
| "exec_call (Access off n) e =
     (if free_to_change e then case block e of None \<Rightarrow> None | Some l \<Rightarrow> if off + n \<le> l then Some e else None else None)"
| "exec_call (Send n) e =
     (if sender e \<and> sending e = None
      then case block e of None \<Rightarrow> None | Some l \<Rightarrow> if n \<le> l \<and> int n \<le> INT_MAX then Some (e\<lparr>sending := Some n\<rparr>) else None
      else None)"
| "exec_call (Receive off n) e =
     (if recv_async e \<and> receiving e = None \<and> 0 < n
      then case block e of None \<Rightarrow> None | Some l \<Rightarrow> if off + n \<le> l then Some (e\<lparr>receiving := Some (off, n)\<rparr>) else None
      else None)"
| "exec_call (Handler ev) e =
     (if errored e then None
      else Some (e\<lparr>errored := (ev = EVENT_ERROR \<or> ev = EVENT_ERROR_CLOSED), reports := reports e @ [ev]\<rparr>))"
| "exec_call (AssertThat b) e = (if b then Some e else None)"

text \<open>The user may free the client in the handler, so nothing may follow that call.\<close>

fun is_handler :: "socks_call \<Rightarrow> bool" where
  "is_handler (Handler _) = True"
| "is_handler _ = False"

fun exec_calls :: "socks_call list \<Rightarrow> socks_env \<Rightarrow> socks_env option" where
  "exec_calls [] e = Some e"
| "exec_calls (c # cs) e =
     (if is_handler c \<and> cs \<noteq> [] then None
      else case exec_call c e of None \<Rightarrow> None | Some e' \<Rightarrow> exec_calls cs e')"

type_synonym socks_system = "BSocksClient \<times> socks_env"

definition run :: "socks_run \<Rightarrow> socks_env \<Rightarrow> socks_system option" where
  "run r e = map_option (\<lambda>e'. (fst r, e')) (exec_calls (snd r) e)"

datatype event =
    Connector_Reports bool
  | Connection_Reports bool
  | Job_Runs
  | Sent
  | Received bytes
  | User_Sets_Dest BAddr
  | Table_Changes "BSocksClient_auth_info list"
  | User_Frees

text \<open>The environment changes nothing but the names and passwords in the table.\<close>

definition address_ok :: "BAddr \<Rightarrow> bool" where
  "address_ok a = (case a of BAddr_IPv6 ip _ \<Rightarrow> length ip = 16 | _ \<Rightarrow> True)"

definition table_ok :: "BSocksClient_auth_info list \<Rightarrow> bool" where
  "table_ok t = list_all (\<lambda>ai. auth_type ai = SOCKS_METHOD_NO_AUTHENTICATION_REQUIRED \<or>
     auth_type ai = SOCKS_METHOD_USERNAME_PASSWORD) t"

definition same_types :: "BSocksClient_auth_info list \<Rightarrow> BSocksClient_auth_info list \<Rightarrow> bool" where
  "same_types t u = (map auth_type t = map auth_type u)"

fun enabled :: "event \<Rightarrow> socks_system \<Rightarrow> bool" where
  "enabled (Connector_Reports b) (c, e) = (connecting e \<and> \<not> errored e)"
| "enabled (Connection_Reports b) (c, e) = (connection e \<and> \<not> errored e)"
| "enabled Job_Runs (c, e) = (job_set e \<and> \<not> errored e)"
| "enabled Sent (c, e) = (sending e \<noteq> None \<and> \<not> errored e)"
| "enabled (Received bs) (c, e) =
     ((case receiving e of None \<Rightarrow> False | Some (off, n) \<Rightarrow> bs \<noteq> [] \<and> length bs \<le> n) \<and> \<not> errored e)"
| "enabled (User_Sets_Dest a) (c, e) =
     ((sstate c = STATE_CONNECTING \<or> sstate c = STATE_CONNECTED_HANDLER) \<and> job_exists e \<and> \<not> errored e \<and> address_ok a)"
| "enabled (Table_Changes t) (c, e) = same_types t (hd (tables e))"
| "enabled User_Frees (c, e) = job_exists e"

fun fire :: "socks_world \<Rightarrow> event \<Rightarrow> socks_system \<Rightarrow> socks_system option" where
  "fire w (Connector_Reports b) (c, e) = run (connector_handler w c b) (e\<lparr>connecting := False\<rparr>)"
| "fire w (Connection_Reports b) (c, e) = run (connection_handler c b) e"
| "fire w Job_Runs (c, e) = run (continue_job_handler w (hd (tables e)) c) (e\<lparr>job_set := False\<rparr>)"
| "fire w Sent (c, e) =
     (case sending e of
        None \<Rightarrow> None
      | Some n \<Rightarrow> run (send_handler_done w c) (e\<lparr>sending := None, wire_out := wire_out e @ take n (the_buffer c)\<rparr>))"
| "fire w (Received bs) (c, e) =
     (case receiving e of
        None \<Rightarrow> None
      | Some (off, n) \<Rightarrow>
          run (recv_handler_done w (hd (tables e)) (put off bs c) (length bs)) (e\<lparr>receiving := None, wire_in := wire_in e @ bs\<rparr>))"
| "fire w (User_Sets_Dest a) (c, e) = run (BSocksClient_SetDestAddr c a) e"
| "fire w (Table_Changes t) (c, e) = Some (c, e\<lparr>tables := t # tables e\<rparr>)"
| "fire w User_Frees (c, e) = run (BSocksClient_Free c) e"

definition blank_env :: "BSocksClient_auth_info list \<Rightarrow> socks_env" where
  "blank_env t = \<lparr>job_exists = False, job_set = False, connector = False, connecting = False, connection = False,
     recv_async = False, send_async = False, sender = False, block = None, sending = None, receiving = None,
     errored = False, reports = [], wire_out = [], wire_in = [], tables = [t]\<rparr>"

inductive negotiated :: "socks_system \<Rightarrow> bool" where
  started: "\<lbrakk>BSocksClient_Init m srv (length t) dest u True = (r, True); table_ok t; address_ok dest; \<not> BAddr_IsInvalid srv;
     run r (blank_env t) = Some s\<rbrakk> \<Longrightarrow> negotiated s"
| event: "\<lbrakk>negotiated (c, e); enabled ev (c, e); fire w ev (c, e) = Some s\<rbrakk> \<Longrightarrow> negotiated s"

section \<open>What is said\<close>

definition hello_message :: "BSocksClient_auth_info list \<Rightarrow> bytes" where
  "hello_message t = [5, word_of_nat (length t)] @ map auth_type t"

definition password_message :: "BSocksClient_auth_info \<Rightarrow> bytes" where
  "password_message ai = [1, word_of_nat (length (auth_username ai))] @ auth_username ai @
     [word_of_nat (length (auth_password ai))] @ auth_password ai"

fun address_message :: "BAddr \<Rightarrow> bytes" where
  "address_message (BAddr_IPv4 ip port) = [1] @ le32_bytes ip @ le16_bytes port"
| "address_message (BAddr_IPv6 ip port) = [4] @ ip @ le16_bytes port"
| "address_message _ = []"

definition request_message :: "bool \<Rightarrow> BAddr \<Rightarrow> bytes" where
  "request_message u dest = [5, if u then 3 else 1, 0] @ address_message dest"

text \<open>An entry of the table, as it was at some time, with a name and a password that can be sent.\<close>

definition password_entry :: "BSocksClient_auth_info list list \<Rightarrow> BSocksClient_auth_info \<Rightarrow> bool" where
  "password_entry ts ai =
     ((\<exists>t\<in>set ts. ai \<in> set t) \<and> auth_type ai = 2 \<and> auth_username ai \<noteq> [] \<and> length (auth_username ai) \<le> 255 \<and>
      auth_password ai \<noteq> [] \<and> length (auth_password ai) \<le> 255)"

text \<open>The conversation up to the end of the authentication: what was sent and received, with the entry of the table that
  was used.\<close>

definition authenticated :: "BSocksClient_auth_info list list \<Rightarrow> bytes \<Rightarrow> bytes \<Rightarrow> bool" where
  "authenticated ts out inp =
     (\<exists>t\<in>set ts. (\<exists>ai\<in>set t. auth_type ai = 0) \<and> out = hello_message t \<and> inp = [5, 0] \<or>
        (\<exists>ai. password_entry ts ai \<and> out = hello_message t @ password_message ai \<and> inp = [5, 2, 1, 0]))"

definition asked :: "BSocksClient_auth_info list list \<Rightarrow> bool \<Rightarrow> BAddr \<Rightarrow> bytes \<Rightarrow> bytes \<Rightarrow> bool" where
  "asked ts u dest out inp = (\<exists>out0. authenticated ts out0 inp \<and> out = out0 @ request_message u dest)"

text \<open>The whole conversation: the server agreed and told its address.\<close>

definition granted :: "BSocksClient_auth_info list list \<Rightarrow> bool \<Rightarrow> BAddr \<Rightarrow> BAddr \<Rightarrow> bytes \<Rightarrow> bytes \<Rightarrow> bool" where
  "granted ts u dest bound out inp =
     (\<exists>inp0 rsv. asked ts u dest out inp0 \<and> inp = inp0 @ [5, 0, rsv] @ address_message bound \<and> address_message bound \<noteq> [])"

section \<open>The invariant\<close>

definition fixed_ok :: "BSocksClient \<Rightarrow> socks_env \<Rightarrow> bool" where
  "fixed_ok c e =
     (tables e \<noteq> [] \<and>
      (\<forall>t\<in>set (tables e). length t = num_auth_info c \<and> same_types t (hd (tables e)) \<and> table_ok t) \<and>
      address_ok (dest_addr c))"

definition resources_ok :: "BSocksClient \<Rightarrow> socks_env \<Rightarrow> bool" where
  "resources_ok c e =
     (job_exists e \<and> connector e \<and> (connection e \<longleftrightarrow> sstate c \<noteq> STATE_CONNECTING) \<and>
      (recv_async e \<longleftrightarrow> connection e) \<and> (send_async e \<longleftrightarrow> connection e) \<and>
      (sender e \<longleftrightarrow> sstate c \<noteq> STATE_CONNECTING \<and> sstate c \<noteq> STATE_UP) \<and>
      block e = map_option length (buffer c) \<and> (sending e \<noteq> None \<longrightarrow> sender e) \<and> (receiving e \<noteq> None \<longrightarrow> recv_async e))"

text \<open>What the client waits for; nothing once it is up.\<close>

definition waits :: "bool \<Rightarrow> bool \<Rightarrow> nat option \<Rightarrow> (nat \<times> nat) option \<Rightarrow> socks_env \<Rightarrow> bool" where
  "waits con job s r e = (connecting e = con \<and> job_set e = job \<and> sending e = s \<and> receiving e = r)"

definition sends :: "bytes \<Rightarrow> BSocksClient \<Rightarrow> socks_env \<Rightarrow> bool" where
  "sends msg c e = (buffer c = Some msg \<and> waits False False (Some (length msg)) None e)"

definition receives :: "nat \<Rightarrow> nat \<Rightarrow> nat \<Rightarrow> BSocksClient \<Rightarrow> socks_env \<Rightarrow> bool" where
  "receives sz dest amount c e =
     (length (the_buffer c) = sz \<and> buffer c \<noteq> None \<and> recv_dest c = dest \<and> recv_total c = amount \<and> dest + amount \<le> sz \<and>
      recv_len c < amount \<and> waits False False None (Some (dest + recv_len c, amount - recv_len c)) e)"

definition got :: "BSocksClient \<Rightarrow> bytes" where
  "got c = take (recv_dest c + recv_len c) (the_buffer c)"

definition talk_ok :: "BSocksClient \<Rightarrow> socks_env \<Rightarrow> bool" where
  "talk_ok c e =
     (case sstate c of
        STATE_CONNECTING \<Rightarrow> buffer c = None \<and> waits True False None None e \<and> wire_out e = [] \<and> wire_in e = []
      | STATE_CONNECTED_HANDLER \<Rightarrow> buffer c = None \<and> waits False True None None e \<and> wire_out e = [] \<and> wire_in e = []
      | STATE_SENDING_HELLO \<Rightarrow> sends (hello_message (hd (tables e))) c e \<and> wire_out e = [] \<and> wire_in e = []
      | STATE_SENT_HELLO \<Rightarrow>
          receives 2 0 2 c e \<and> wire_out e = hello_message (hd (tables e)) \<and> wire_in e = got c
      | STATE_SENDING_PASSWORD \<Rightarrow>
          (\<exists>ai. password_entry (tables e) ai \<and>
             sends (password_message ai) c e) \<and> wire_out e = hello_message (hd (tables e)) \<and> wire_in e = [5, 2]
      | STATE_SENT_PASSWORD \<Rightarrow>
          (\<exists>ai. password_entry (tables e) ai \<and>
             wire_out e = hello_message (hd (tables e)) @ password_message ai) \<and>
          receives 2 0 2 c e \<and> wire_in e = [5, 2] @ got c
      | STATE_SENDING_REQUEST \<Rightarrow>
          sends (request_message (udp c) (dest_addr c)) c e \<and> authenticated (tables e) (wire_out e) (wire_in e)
      | STATE_SENT_REQUEST \<Rightarrow>
          receives 22 0 4 c e \<and>
          (\<exists>inp. asked (tables e) (udp c) (dest_addr c) (wire_out e) inp \<and> wire_in e = inp @ got c)
      | STATE_RECEIVED_REPLY_HEADER \<Rightarrow>
          (\<exists>inp. asked (tables e) (udp c) (dest_addr c) (wire_out e) inp \<and> wire_in e = inp @ got c) \<and>
          the_buffer c ! 0 = 5 \<and> the_buffer c ! 1 = 0 \<and>
          (case bind_addr c of
             BAddr_IPv4 _ _ \<Rightarrow> the_buffer c ! 3 = 1 \<and> receives 22 4 6 c e
           | BAddr_IPv6 _ _ \<Rightarrow> the_buffer c ! 3 = 4 \<and> receives 22 4 18 c e
           | _ \<Rightarrow> False)
      | STATE_UP \<Rightarrow>
          buffer c = None \<and> waits False False None None e \<and>
          granted (tables e) (udp c) (dest_addr c) (bind_addr c) (wire_out e) (wire_in e))"

definition gone :: "socks_env \<Rightarrow> bool" where
  "gone e = (\<not> job_exists e \<and> \<not> job_set e \<and> \<not> connector e \<and> \<not> connecting e \<and> \<not> connection e \<and> \<not> recv_async e \<and>
     \<not> send_async e \<and> \<not> sender e \<and> block e = None \<and> sending e = None \<and> receiving e = None)"

definition good :: "BSocksClient \<Rightarrow> socks_env \<Rightarrow> bool" where
  "good c e =
     (fixed_ok c e \<and> resources_ok c e \<and> (errored e \<or> talk_ok c e) \<and>
      (errored e \<longleftrightarrow> EVENT_ERROR \<in> set (reports e) \<or> EVENT_ERROR_CLOSED \<in> set (reports e)) \<and>
      (EVENT_UP \<in> set (reports e) \<longleftrightarrow> sstate c = STATE_UP) \<and>
      (sstate c = STATE_UP \<longrightarrow> granted (tables e) (udp c) (dest_addr c) (bind_addr c) (wire_out e) (wire_in e)))"

definition ok :: "socks_system \<Rightarrow> bool" where
  "ok s = (tables (snd s) \<noteq> [] \<and> (gone (snd s) \<or> good (fst s) (snd s)))"

section \<open>Each step\<close>

definition returns :: "(BSocksClient \<Rightarrow> socks_env \<Rightarrow> bool) \<Rightarrow> socks_run \<Rightarrow> socks_env \<Rightarrow> bool" where
  "returns P r e = (\<exists>e'. exec_calls (snd r) e = Some e' \<and> P (fst r) e')"

lemma returns_Nil [simp]: "returns P (c, []) e \<longleftrightarrow> P c e"
  by (simp add: returns_def)

lemma returns_Cons [simp]:
  "\<not> is_handler x \<Longrightarrow> returns P (c, x # cs) e \<longleftrightarrow> (\<exists>e'. exec_call x e = Some e' \<and> returns P (c, cs) e')"
  "returns P (c, [Handler ev]) e \<longleftrightarrow> (\<exists>e'. exec_call (Handler ev) e = Some e' \<and> P c e')"
  by (auto simp: returns_def split: option.splits)

lemma socks_returns_case [simp]:
  "\<not> is_handler x \<Longrightarrow> returns P (case r of (c, cs) \<Rightarrow> (c, x # g cs)) e \<longleftrightarrow>
     (\<exists>e'. exec_call x e = Some e' \<and> returns P (case r of (c, cs) \<Rightarrow> (c, g cs)) e')"
  by (simp split: prod.split)

lemma returns_mono: "returns P r e \<Longrightarrow> (\<And>c e. P c e \<Longrightarrow> Q c e) \<Longrightarrow> returns Q r e"
  by (auto simp: returns_def)

text \<open>Memory.\<close>

lemma the_buffer_put [simp]:
  "the_buffer (put off bs c) = take off (the_buffer c) @ bs @ drop (off + length bs) (the_buffer c)"
  by (simp add: put_def the_buffer_def)

lemma put_fields [simp]:
  "num_auth_info (put off bs c) = num_auth_info c" "dest_addr (put off bs c) = dest_addr c" "udp (put off bs c) = udp c"
  "bind_addr (put off bs c) = bind_addr c" "sstate (put off bs c) = sstate c" "recv_dest (put off bs c) = recv_dest c"
  "recv_len (put off bs c) = recv_len c" "recv_total (put off bs c) = recv_total c"
  "buffer (put off bs c) \<noteq> None"
  by (simp_all add: put_def)

definition fresh :: "socks_world \<Rightarrow> BSocksClient \<Rightarrow> nat \<Rightarrow> BSocksClient" where
  "fresh w c n = c\<lparr>buffer := Some (take n (the_buffer c) @ map (junk w) [length (the_buffer c)..<n])\<rparr>"

lemma fresh_length [simp]: "length (the_buffer (fresh w c n)) = n"
  by (simp add: fresh_def the_buffer_def)

lemma fresh_block [simp]: "map_option length (buffer (fresh w c n)) = Some n"
  by (simp add: fresh_def min_def)

lemma fresh_fields [simp]:
  "num_auth_info (fresh w c n) = num_auth_info c" "dest_addr (fresh w c n) = dest_addr c" "udp (fresh w c n) = udp c"
  "bind_addr (fresh w c n) = bind_addr c" "sstate (fresh w c n) = sstate c"
  "buffer (fresh w c n) \<noteq> None"
  by (simp_all add: fresh_def)

lemma reserve_buffer_eq:
  assumes "bsize_abs sz = Some n"
  shows "reserve_buffer w c sz = (if alloc_ok w then ((fresh w c n, [Realloc n True]), True) else ((c, [Realloc n False]), False))"
    "unat (bsize_value sz) = n"
  using assms by (auto simp: reserve_buffer_def bsize_abs_def fresh_def split: if_splits)


definition calm :: "BSocksClient \<Rightarrow> socks_env \<Rightarrow> bool" where
  "calm c e =
     (fixed_ok c e \<and> resources_ok c e \<and> \<not> errored e \<and> EVENT_ERROR \<notin> set (reports e) \<and> EVENT_ERROR_CLOSED \<notin> set (reports e) \<and>
      (EVENT_UP \<in> set (reports e) \<longleftrightarrow> sstate c = STATE_UP) \<and>
      (sstate c = STATE_UP \<longrightarrow> granted (tables e) (udp c) (dest_addr c) (bind_addr c) (wire_out e) (wire_in e)))"

lemma good_calm: "good c e \<Longrightarrow> \<not> errored e \<Longrightarrow> calm c e \<and> talk_ok c e"
  by (auto simp: good_def calm_def)

lemma calm_good: "calm c e \<Longrightarrow> talk_ok c e \<Longrightarrow> good c e"
  by (auto simp: good_def calm_def)

lemma calmI:
  assumes "calm c e" "fixed_ok c' e'" "resources_ok c' e'" "errored e' = errored e" "reports e' = reports e"
    "sstate c \<noteq> STATE_UP" "sstate c' \<noteq> STATE_UP"
  shows "calm c' e'"
  using assms by (simp add: calm_def)

lemma report_ok:
  assumes "calm c e" "ev = EVENT_ERROR \<or> ev = EVENT_ERROR_CLOSED"
  shows "returns good (report_error c ev) e"
  using assms by (auto simp: report_error_def good_def calm_def fixed_ok_def resources_ok_def)

lemma fixed_ok_cong:
  "fixed_ok c e \<Longrightarrow> num_auth_info c' = num_auth_info c \<Longrightarrow> dest_addr c' = dest_addr c \<Longrightarrow> tables e' = tables e \<Longrightarrow> fixed_ok c' e'"
  by (simp add: fixed_ok_def)

lemma receive_reply_ok:
  assumes "calm c e" "sender e" "waits False False None None e" "bsize_abs sz = Some n" "0 < amount" "amount \<le> n"
    "sstate c \<noteq> STATE_CONNECTING" "sstate c \<noteq> STATE_UP" "st \<noteq> STATE_CONNECTING" "st \<noteq> STATE_UP"
    "\<And>c' e'. \<lbrakk>receives n 0 amount c' e'; recv_len c' = 0; sstate c' = st; udp c' = udp c; dest_addr c' = dest_addr c;
       wire_out e' = wire_out e; wire_in e' = wire_in e; tables e' = tables e\<rbrakk> \<Longrightarrow> talk_ok c' e'"
  shows "returns good (receive_reply w c sz amount st) e"
proof (cases "alloc_ok w")
  case True
  let ?c = "(fresh w c n)\<lparr>recv_dest := 0, recv_len := 0, recv_total := amount, sstate := st\<rparr>"
  let ?e = "e\<lparr>block := Some n, receiving := Some (0, amount)\<rparr>"
  have r: "resources_ok ?c ?e"
  proof -
    have "resources_ok c e" using assms(1) by (simp add: calm_def)
    then show ?thesis
      using assms(2,3,7-10) by (simp add: resources_ok_def waits_def)
  qed
  have f: "fixed_ok ?c ?e"
    by (rule fixed_ok_cong [of c e]) (use assms(1) in \<open>simp_all add: calm_def\<close>)
  have c: "calm ?c ?e"
    by (rule calmI [OF assms(1) f r]) (simp_all add: assms(8,10))
  have b: "the_buffer ?c = the_buffer (fresh w c n)"
    by (simp add: the_buffer_def)
  have "talk_ok ?c ?e"
  proof (rule assms(11))
    show "receives n 0 amount ?c ?e"
      using assms(3,5,6) b by (simp add: receives_def waits_def)
  qed simp_all
  with c have "good ?c ?e"
    by (rule calm_good)
  then show ?thesis
    using True assms
    by (simp add: receive_reply_def reserve_buffer_eq [OF assms(4)] start_receive_def do_receive_def waits_def free_to_change_def
        calm_def resources_ok_def)
next
  case False
  then show ?thesis
    using report_ok [OF assms(1), of EVENT_ERROR] assms(3,5,6)
    by (simp add: receive_reply_def reserve_buffer_eq [OF assms(4)] report_error_def waits_def free_to_change_def)
qed


text \<open>Sending a message that was written to a fresh buffer.\<close>

lemma send_ok:
  assumes "calm c e" "sender e" "waits False False None None e" "sstate c \<noteq> STATE_CONNECTING" "sstate c \<noteq> STATE_UP"
    "st \<noteq> STATE_CONNECTING" "st \<noteq> STATE_UP" "num_auth_info c' = num_auth_info c" "dest_addr c' = dest_addr c"
    "buffer c' = Some msg" "n = length msg" "sstate c' = st" "talk_ok c' (e\<lparr>block := Some n, sending := Some n\<rparr>)"
  shows "good c' (e\<lparr>block := Some n, sending := Some n\<rparr>)"
proof -
  let ?e = "e\<lparr>block := Some n, sending := Some n\<rparr>"
  have f: "fixed_ok c' ?e"
    by (rule fixed_ok_cong [of c e]) (use assms(1,8,9) in \<open>simp_all add: calm_def\<close>)
  have "resources_ok c e" using assms(1) by (simp add: calm_def)
  then have r: "resources_ok c' ?e"
    using assms(2-7,10-12) by (simp add: resources_ok_def waits_def)
  have "calm c' ?e"
    by (rule calmI [OF assms(1) f r]) (simp_all add: assms(5,7,12))
  then show ?thesis
    using assms(13) by (rule calm_good)
qed

lemma size_abs [simp]:
  "bsize_abs (bsize_fromsize x) = Some (unat x)"
  "bsize_abs (bsize_add s1 s2) = lift_size (+) (bsize_abs s1) (bsize_abs s2)"
  "bsize_abs (bsize_mul s1 s2) = lift_size (*) (bsize_abs s1) (bsize_abs s2)"
  by (simp add: bsize_abs_def bsize_fromsize_def, rule add_exact, rule mul_exact)

lemma put_message:
  "length (the_buffer c) = k + length a \<Longrightarrow> length h = k \<Longrightarrow> put 0 h (put k a c) = c\<lparr>buffer := Some (h @ a)\<rparr>"
  by (simp add: put_def the_buffer_def)

lemma put_update: "(put off bs c)\<lparr>buffer := x\<rparr> = c\<lparr>buffer := x\<rparr>"
  by (simp add: put_def)

lemma fresh_update [simp]: "(fresh w c n)\<lparr>buffer := x\<rparr> = c\<lparr>buffer := x\<rparr>"
  by (simp add: fresh_def)

text \<open>What a handler says: it sends a message of its own, or it reports an error and changes nothing else.\<close>

definition says :: "socks_world \<Rightarrow> socks_state \<Rightarrow> bytes option \<Rightarrow> BSocksClient \<Rightarrow> socks_env \<Rightarrow> BSocksClient \<Rightarrow> socks_env \<Rightarrow> bool" where
  "says w st m c e c' e' =
     (case (if alloc_ok w then m else None) of
        Some msg \<Rightarrow> c' = c\<lparr>buffer := Some msg, sstate := st\<rparr> \<and> e' = e\<lparr>block := Some (length msg), sending := Some (length msg)\<rparr>
      | None \<Rightarrow> c' = c \<and> e' = e\<lparr>errored := True, reports := reports e @ [EVENT_ERROR]\<rparr>)"

definition request_to :: "bool \<Rightarrow> BAddr \<Rightarrow> bytes option" where
  "request_to u dest = (if address_message dest = [] then None else Some (request_message u dest))"

lemma auth_finished_says:
  assumes "free_to_change e" "sender e" "\<not> errored e" "address_ok (dest_addr c)"
  shows "returns (says w STATE_SENDING_REQUEST (request_to (udp c) (dest_addr c)) c e) (auth_finished w c) e"
proof (cases "dest_addr c")
  case (BAddr_IPv4 ip port)
  then show ?thesis
    using assms
    by (cases "alloc_ok w"; cases "udp c")
      (simp_all add: auth_finished_def Let_def reserve_buffer_eq [where n = 10] lift_size_def fits_def report_error_def
        put_message [where k = 4] socks_addr_ipv4_def socks_request_header_def INT_MAX_def free_to_change_def
        request_message_def socks_consts hton8_def says_def request_to_def)
next
  case (BAddr_IPv6 ip port)
  then have "length ip = 16"
    using assms(4) by (simp add: address_ok_def)
  then show ?thesis
    using assms BAddr_IPv6
    by (cases "alloc_ok w"; cases "udp c")
      (simp_all add: auth_finished_def Let_def reserve_buffer_eq [where n = 22] lift_size_def fits_def report_error_def
        put_message [where k = 4] socks_addr_ipv6_def socks_request_header_def INT_MAX_def free_to_change_def
        request_message_def socks_consts hton8_def says_def request_to_def)
qed (use assms in \<open>simp_all add: auth_finished_def report_error_def says_def request_to_def\<close>)

lemma says_good:
  assumes "says w st m c e c' e'" "calm c e" "sender e" "waits False False None None e" "sstate c \<noteq> STATE_CONNECTING" "sstate c \<noteq> STATE_UP"
    "st \<noteq> STATE_CONNECTING" "st \<noteq> STATE_UP"
    "\<And>msg. m = Some msg \<Longrightarrow> talk_ok (c\<lparr>buffer := Some msg, sstate := st\<rparr>) (e\<lparr>block := Some (length msg), sending := Some (length msg)\<rparr>)"
  shows "good c' e'"
proof (cases "if alloc_ok w then m else None")
  case None
  then show ?thesis
    using assms(1) report_ok [OF assms(2), of EVENT_ERROR] assms(2) by (simp add: says_def report_error_def calm_def)
next
  case (Some msg)
  then have m: "m = Some msg"
    by (simp split: if_splits)
  show ?thesis
    using assms(1) Some send_ok [OF assms(2-8), of "c\<lparr>buffer := Some msg, sstate := st\<rparr>" msg "length msg"] assms(9) [OF m]
    by (simp add: says_def)
qed

lemma auth_finished_ok:
  assumes "calm c e" "sender e" "waits False False None None e" "sstate c \<noteq> STATE_CONNECTING" "sstate c \<noteq> STATE_UP"
    "authenticated (tables e) (wire_out e) (wire_in e)"
  shows "returns good (auth_finished w c) e"
proof (rule returns_mono)
  show "returns (says w STATE_SENDING_REQUEST (request_to (udp c) (dest_addr c)) c e) (auth_finished w c) e"
    using assms(1-3) by (intro auth_finished_says) (simp_all add: calm_def fixed_ok_def waits_def free_to_change_def)
next
  fix c' e' assume s: "says w STATE_SENDING_REQUEST (request_to (udp c) (dest_addr c)) c e c' e'"
  show "good c' e'"
  proof (rule says_good [OF s assms(1-5)])
    fix msg assume "request_to (udp c) (dest_addr c) = Some msg"
    then have m: "msg = request_message (udp c) (dest_addr c)"
      by (simp add: request_to_def split: if_splits)
    show "talk_ok (c\<lparr>buffer := Some msg, sstate := STATE_SENDING_REQUEST\<rparr>) (e\<lparr>block := Some (length msg), sending := Some (length msg)\<rparr>)"
      using assms(3,6) by (simp add: talk_ok_def sends_def waits_def m)
  qed simp_all
qed

text \<open>The loop that writes the methods.\<close>

lemma write_methods_buffer:
  assumes "2 + i + length as \<le> length (the_buffer c)" "buffer c \<noteq> None"
  shows "fst (write_methods i as c) =
      c\<lparr>buffer := Some (take (2 + i) (the_buffer c) @ map auth_type as @ drop (2 + i + length as) (the_buffer c))\<rparr>"
  using assms
proof (induction as arbitrary: i c)
  case Nil
  then show ?case by (auto simp: the_buffer_def split: option.splits)
next
  case (Cons a as)
  have "2 + (i + 1) + length as \<le> length (the_buffer (put (2 + i) [auth_type a] c))"
    using Cons.prems by simp
  from Cons.IH [OF this] Cons.prems show ?case
    by (simp add: put_def the_buffer_def case_prod_unfold add.commute)
qed

lemma write_methods_calls:
  assumes "2 + i + length as \<le> l" "free_to_change e" "block e = Some l"
  shows "exec_calls (snd (write_methods i as c) @ cs) e = exec_calls cs e"
  using assms by (induction as arbitrary: i c) (simp_all add: case_prod_unfold)

lemma continue_job_ok:
  assumes "good c e" "job_set e" "\<not> errored e"
  shows "returns good (continue_job_handler w (hd (tables e)) c) (e\<lparr>job_set := False\<rparr>)"
proof -
  let ?n = "num_auth_info c" and ?t = "hd (tables e)" and ?e = "e\<lparr>job_set := False\<rparr>"
  have t: "calm c e" "talk_ok c e"
    using good_calm [OF assms(1,3)] by simp_all
  then have st: "sstate c = STATE_CONNECTED_HANDLER"
    using assms(2) by (auto simp: talk_ok_def waits_def sends_def receives_def split: socks_state.splits BAddr.splits)
  have w: "buffer c = None" "waits False False None None ?e" "wire_out e = []" "wire_in e = []"
    using t(2) st by (simp_all add: talk_ok_def waits_def)
  have c: "calm c ?e" and s: "sender ?e"
    using t(1) st by (simp_all add: calm_def fixed_ok_def resources_ok_def)
  have len: "length ?t = ?n"
    using t(1) by (simp add: calm_def fixed_ok_def)
  have fail: "returns good (c, [Handler EVENT_ERROR]) ?e"
    using report_ok [OF c, of EVENT_ERROR] by (simp add: report_error_def)
  have idle: "free_to_change ?e" "sending ?e = None" "free_to_change (e\<lparr>job_set := False, block := Some l\<rparr>)" for l
    using w(2) by (simp_all add: waits_def free_to_change_def)
  show ?thesis
  proof (cases "?n = 0 \<or> ?n > 255")
    case True
    then show ?thesis
      using fail st by (auto simp: continue_job_handler_def report_error_def)
  next
    case False
    let ?msg = "hello_message ?t"
    let ?c = "c\<lparr>buffer := Some ?msg, sstate := STATE_SENDING_HELLO\<rparr>"
    let ?f = "?e\<lparr>block := Some (2 + ?n), sending := Some (2 + ?n)\<rparr>"
    have lm: "length ?msg = 2 + ?n"
      using len by (simp add: hello_message_def)
    have "sends ?msg ?c ?f"
      using w(2) lm by (simp add: sends_def waits_def)
    then have "talk_ok ?c ?f"
      using w by (simp add: talk_ok_def)
    then have g: "good ?c ?f"
      using c s w(2) st lm
      by (intro send_ok [of c ?e, where msg = ?msg and n = "2 + ?n" and st = STATE_SENDING_HELLO]) simp_all
    let ?h = "put 0 (socks_client_hello_header (hton8 SOCKS_VERSION) (hton8 (word_of_nat ?n))) (fresh w c (2 + ?n))"
    have sz: "bsize_abs (bsize_add (bsize_fromsize 2) (bsize_mul (bsize_fromsize (word_of_nat ?n)) (bsize_fromsize 1))) = Some (2 + ?n)"
      using False by (simp add: lift_size_def fits_def unat_of_nat)
    have lh: "length (the_buffer ?h) = 2 + ?n" "2 + 0 + length ?t \<le> length (the_buffer ?h)"
      using len by (simp_all add: socks_client_hello_header_def)
    have tb: "take 2 (the_buffer ?h) = [5, word_of_nat ?n]"
      by (simp add: socks_client_hello_header_def hton8_def SOCKS_VERSION_def)
    have m: "fst (write_methods 0 ?t ?h) = c\<lparr>buffer := Some ?msg\<rparr>"
      using write_methods_buffer [OF lh(2) put_fields(9)] tb lh(1) len
      by (simp add: hello_message_def put_update del: the_buffer_put)
    have x: "exec_calls (snd (write_methods 0 ?t ?h) @ cs) (?e\<lparr>block := Some (2 + ?n)\<rparr>) = exec_calls cs (?e\<lparr>block := Some (2 + ?n)\<rparr>)" for cs
      using idle len by (intro write_methods_calls [where l = "2 + ?n"]) simp_all
    show ?thesis
    proof (cases "alloc_ok w")
      case True
      then show ?thesis
        using False g m x idle st len s
        by (simp add: continue_job_handler_def reserve_buffer_eq [OF sz] Let_def case_prod_unfold returns_def INT_MAX_def)
    next
      case nomem: False
      then show ?thesis
        using False fail idle st by (simp add: continue_job_handler_def reserve_buffer_eq [OF sz] Let_def report_error_def)
    qed
  qed
qed


text \<open>Records whose buffer stays.\<close>

lemma the_buffer_update [simp]:
  "the_buffer (c\<lparr>recv_len := n\<rparr>) = the_buffer c" "the_buffer (c\<lparr>recv_dest := n\<rparr>) = the_buffer c"
  "the_buffer (c\<lparr>recv_total := n\<rparr>) = the_buffer c" "the_buffer (c\<lparr>sstate := st\<rparr>) = the_buffer c"
  "the_buffer (c\<lparr>bind_addr := a\<rparr>) = the_buffer c" "the_buffer (c\<lparr>buffer := Some b\<rparr>) = b"
  by (simp_all add: the_buffer_def)

lemma not_error: "good c e \<Longrightarrow> \<not> errored e \<Longrightarrow> calm c e" "good c e \<Longrightarrow> \<not> errored e \<Longrightarrow> talk_ok c e"
  using good_calm by blast+

lemma connector_ok:
  assumes "good c e" "connecting e" "\<not> errored e"
  shows "returns good (connector_handler w c b) (e\<lparr>connecting := False\<rparr>)"
proof -
  note t = not_error [OF assms(1,3)]
  then have st: "sstate c = STATE_CONNECTING"
    using assms(2) by (auto simp: talk_ok_def waits_def sends_def receives_def split: socks_state.splits BAddr.splits)
  let ?e = "e\<lparr>connecting := False\<rparr>"
  have calm: "calm c ?e" "calm c (?e\<lparr>connection := False\<rparr>)"
    using t(1) st by (auto simp: calm_def resources_ok_def intro: fixed_ok_cong)
  have r: "connector e" "\<not> connection e" "\<not> recv_async e" "\<not> send_async e" "\<not> sender e" "job_exists e"
    using t(1) st by (simp_all add: calm_def resources_ok_def)
  have fail: "returns good (c, [Handler EVENT_ERROR]) ?e" "returns good (c, [Handler EVENT_ERROR]) (?e\<lparr>connection := False\<rparr>)"
    using report_ok [OF calm(1), of EVENT_ERROR] report_ok [OF calm(2), of EVENT_ERROR] by (simp_all add: report_error_def)
  let ?f = "?e\<lparr>connection := True, recv_async := True, send_async := True, sender := True, job_set := True,
     errored := False, reports := reports e @ [EVENT_CONNECTED]\<rparr>"
  let ?c = "c\<lparr>sstate := STATE_CONNECTED_HANDLER\<rparr>"
  have "talk_ok ?c ?f"
    using t(2) st by (simp add: talk_ok_def waits_def)
  moreover have "calm ?c ?f"
    using t(1) st by (auto simp: calm_def resources_ok_def intro: fixed_ok_cong)
  ultimately have g: "good ?c ?f"
    by (intro calm_good)
  show ?thesis
    using fail g r st t(1)
    by (cases b; cases "connection_ok w")
      (simp_all add: connector_handler_def report_error_def init_control_io_def INT_MAX_def calm_def)
qed

lemma connection_ok:
  assumes "good c e" "connection e" "\<not> errored e"
  shows "returns good (connection_handler c b) e"
proof -
  note t = not_error [OF assms(1,3)]
  have "sstate c \<noteq> STATE_CONNECTING"
    using t(1) assms(2) by (auto simp: calm_def resources_ok_def)
  then show ?thesis
    using report_ok [OF t(1), of EVENT_ERROR] report_ok [OF t(1), of EVENT_ERROR_CLOSED]
    by (simp add: connection_handler_def report_error_def Let_def)
qed

lemma socks_sent_ok:
  assumes "good c e" "sending e = Some n" "\<not> errored e"
  shows "returns good (send_handler_done w c) (e\<lparr>sending := None, wire_out := wire_out e @ take n (the_buffer c)\<rparr>)"
proof -
  note t = not_error [OF assms(1,3)]
  let ?e = "e\<lparr>sending := None, wire_out := wire_out e @ take n (the_buffer c)\<rparr>"
  have s: "sender e" and r: "resources_ok c e"
    using t(1) assms(2) by (auto simp: calm_def resources_ok_def)
  then have st: "sstate c \<noteq> STATE_CONNECTING" "sstate c \<noteq> STATE_UP"
    by (auto simp: resources_ok_def)
  have calm: "calm c ?e"
    using t(1) st by (auto simp: calm_def resources_ok_def intro: fixed_ok_cong)
  have cases: "sstate c = STATE_SENDING_HELLO \<or> sstate c = STATE_SENDING_PASSWORD \<or> sstate c = STATE_SENDING_REQUEST"
    using t(2) assms(2) by (auto simp: talk_ok_def waits_def sends_def receives_def split: socks_state.splits BAddr.splits)
  then have w: "waits False False None None ?e" "buffer c \<noteq> None" "take n (the_buffer c) = the_buffer c"
    using t(2) assms(2) by (auto simp: talk_ok_def waits_def sends_def the_buffer_def)
  from cases show ?thesis
  proof (elim disjE)
    assume h: "sstate c = STATE_SENDING_HELLO"
    have "returns good (receive_reply w c (bsize_fromsize 2) 2 STATE_SENT_HELLO) ?e"
      using t(2) h w(3) by (intro receive_reply_ok [OF calm _ w(1), where n = 2])
        (simp_all add: s st talk_ok_def sends_def got_def the_buffer_def receives_def)
    then show ?thesis
      using h w(2) by (simp add: send_handler_done_def)
  next
    assume h: "sstate c = STATE_SENDING_PASSWORD"
    have "returns good (receive_reply w c (bsize_fromsize 2) 2 STATE_SENT_PASSWORD) ?e"
      using t(2) h w(3) by (intro receive_reply_ok [OF calm _ w(1), where n = 2])
        (auto simp: s st talk_ok_def sends_def got_def the_buffer_def receives_def)
    then show ?thesis
      using h w(2) by (simp add: send_handler_done_def)
  next
    assume h: "sstate c = STATE_SENDING_REQUEST"
    have "bsize_abs (bsize_add (bsize_fromsize 4) (bsize_max (bsize_fromsize 6) (bsize_fromsize 18))) = Some 22"
      by (simp add: max_exact lift_size_def fits_def)
    then have "returns good (receive_reply w c
        (bsize_add (bsize_fromsize 4) (bsize_max (bsize_fromsize 6) (bsize_fromsize 18))) 4 STATE_SENT_REQUEST) ?e"
      using t(2) h w(3) by (intro receive_reply_ok [OF calm _ w(1), where n = 22])
        (auto simp: s st talk_ok_def sends_def got_def the_buffer_def receives_def asked_def)
    then show ?thesis
      using h w(2) by (simp add: send_handler_done_def)
  qed
qed

lemma got_put:
  assumes "recv_dest c + recv_len c + length bs \<le> length (the_buffer c)"
  shows "got ((put (recv_dest c + recv_len c) bs c)\<lparr>recv_len := recv_len c + length bs\<rparr>) = got c @ bs"
  using assms by (simp add: got_def)

lemma le16_bytes_of: "le16_bytes (le16_of [a, b]) = [a, b]"
  by (auto simp: le16_bytes_def le16_of_def bit_simps byte_high intro!: bit_word_eqI)

lemma take_2_4:
  "2 \<le> length bs \<Longrightarrow> take 2 bs = [bs ! 0, bs ! 1]"
  "4 \<le> length bs \<Longrightarrow> take 4 bs = [bs ! 0, bs ! 1, bs ! 2, bs ! 3]"
  by (auto intro!: nth_equalityI simp: less_Suc_eq numeral_eq_Suc)

lemma le_bytes_of:
  "2 \<le> length bs \<Longrightarrow> le16_bytes (le16_of bs) = take 2 bs"
  "4 \<le> length bs \<Longrightarrow> le32_bytes (le32_of bs) = take 4 bs"
  using le16_bytes_of [of "bs ! 0" "bs ! 1"] le32_bytes_of [of "bs ! 0" "bs ! 1" "bs ! 2" "bs ! 3"]
  by (simp_all add: take_2_4 le16_of_def le32_of_def)


text \<open>The end of a reply: the client is idle, with the reply in its buffer.\<close>

definition idle_with :: "BSocksClient \<Rightarrow> socks_env \<Rightarrow> nat \<Rightarrow> bool" where
  "idle_with c e l =
     (calm c e \<and> sender e \<and> recv_async e \<and> waits False False None None e \<and> sstate c \<noteq> STATE_CONNECTING \<and> sstate c \<noteq> STATE_UP \<and>
      length (the_buffer c) = l \<and> block e = Some l)"

lemma idle_failD: "idle_with c e l \<Longrightarrow> returns good (c, [Handler EVENT_ERROR]) e"
  using report_ok [of c e EVENT_ERROR] by (simp add: idle_with_def report_error_def)

lemma password_reply_ok:
  assumes "idle_with c e 2" "wire_out e = hello_message (hd (tables e)) @ password_message ai" "password_entry (tables e) ai"
    "wire_in e = [5, 2] @ the_buffer c"
  shows "returns good (received_password_reply w c) e"
proof -
  have i: "free_to_change e" "block e = Some 2" "calm c e" "sender e" "waits False False None None e" "sstate c \<noteq> STATE_CONNECTING"
    "sstate c \<noteq> STATE_UP"
    using assms(1) by (auto simp: idle_with_def waits_def free_to_change_def)
  show ?thesis
  proof (cases "the_buffer c ! 0 = 1 \<and> the_buffer c ! 1 = 0")
    case True
    have "hd (tables e) \<in> set (tables e)"
      using i(3) by (auto simp: calm_def fixed_ok_def)
    moreover have "the_buffer c = [1, 0]"
      using True take_2_4(1) [of "the_buffer c"] assms(1) by (simp add: idle_with_def)
    ultimately have "authenticated (tables e) (wire_out e) (wire_in e)"
      using assms(2-4) by (auto simp: authenticated_def)
    then have "returns good (auth_finished w c) e"
      using i by (intro auth_finished_ok)
    then show ?thesis
      using True i by (simp add: received_password_reply_def)
  next
    case False
    then show ?thesis
      using idle_failD [OF assms(1)] i by (auto simp: received_password_reply_def report_error_def)
  qed
qed

lemma reply_rest_ok:
  assumes "idle_with c e 22" "sstate c = STATE_RECEIVED_REPLY_HEADER" "asked (tables e) (udp c) (dest_addr c) (wire_out e) inp"
    "wire_in e = inp @ got c" "recv_dest c = 4" "recv_len c = recv_total c" "the_buffer c ! 0 = 5" "the_buffer c ! 1 = 0"
    "case bind_addr c of BAddr_IPv4 _ _ \<Rightarrow> the_buffer c ! 3 = 1 \<and> recv_total c = 6
       | BAddr_IPv6 _ _ \<Rightarrow> the_buffer c ! 3 = 4 \<and> recv_total c = 18 | _ \<Rightarrow> False"
  shows "returns good (received_reply_rest c) e"
proof -
  let ?b = "the_buffer c" and ?rest = "drop 4 (the_buffer c)"
  define a where "a = (case bind_addr c of BAddr_IPv4 _ _ \<Rightarrow> BAddr_IPv4 (le32_of (take 4 ?rest)) (le16_of (take 2 (drop 4 ?rest)))
    | BAddr_IPv6 _ _ \<Rightarrow> BAddr_IPv6 (take 16 ?rest) (le16_of (take 2 (drop 16 ?rest))) | a \<Rightarrow> a)"
  have l: "length ?b = 22" "block e = Some 22" "calm c e" "sender e" "recv_async e" "sending e = None" "receiving e = None"
    "connecting e = False" "job_set e = False"
    using assms(1) by (auto simp: idle_with_def waits_def)
  have four: "take 4 ?b = [5, 0, ?b ! 2, ?b ! 3]"
    using take_2_4(2) [of ?b] l assms(7,8) by simp
  have m: "got c = [5, 0, ?b ! 2] @ address_message a" and n: "address_message a \<noteq> []"
  proof -
    have g: "got c = take 4 ?b @ take (recv_total c) ?rest"
      using assms(5,6) by (simp add: got_def take_add)
    show "got c = [5, 0, ?b ! 2] @ address_message a" "address_message a \<noteq> []"
      using assms(9) l four g
      by (auto simp: a_def le_bytes_of take_add [of 4 2, simplified] take_add [of 16 2, simplified] split: BAddr.splits)
  qed
  let ?c = "c\<lparr>bind_addr := a, buffer := None, sstate := STATE_UP\<rparr>"
  let ?e = "e\<lparr>block := None, sender := False, sending := None, send_async := False, recv_async := False, receiving := None,
    recv_async := True, send_async := True, errored := False, reports := reports e @ [EVENT_UP]\<rparr>"
  have gr: "granted (tables e) (udp c) (dest_addr c) a (wire_out e) (wire_in e)"
    using assms(3,4) m n by (auto simp: granted_def)
  have "resources_ok c e" "\<not> errored e"
    using l(3) by (simp_all add: calm_def)
  then have r: "connection e" "job_exists e" "connector e" "send_async e"
    using assms(2) by (simp_all add: resources_ok_def)
  have g: "good ?c ?e"
  proof -
    have "fixed_ok ?c ?e"
      by (rule fixed_ok_cong [of c e]) (use l(3) in \<open>simp_all add: calm_def\<close>)
    moreover have "resources_ok ?c ?e"
      using r by (simp add: resources_ok_def)
    moreover have "talk_ok ?c ?e"
      using gr l by (simp add: talk_ok_def waits_def)
    moreover have "EVENT_ERROR \<notin> set (reports e)" "EVENT_ERROR_CLOSED \<notin> set (reports e)"
      using l(3) by (simp_all add: calm_def)
    ultimately show ?thesis
      using gr by (simp add: good_def)
  qed
  have c: "received_reply_rest c = (?c, (case bind_addr c of BAddr_IPv4 _ _ \<Rightarrow> [Access 4 6] | _ \<Rightarrow> [Access 4 18]) @
      [BufferFree] @ free_control_io @ init_up_io @ [Handler EVENT_UP])"
    using assms(9) by (auto simp: received_reply_rest_def a_def Let_def split: BAddr.splits)
  show ?thesis
    unfolding c using g l r \<open>\<not> errored e\<close> assms(9)
    by (cases "bind_addr c") (simp_all add: free_control_io_def init_up_io_def free_to_change_def)
qed


lemma reply_header_ok:
  assumes "idle_with c e 22" "asked (tables e) (udp c) (dest_addr c) (wire_out e) inp"
    "wire_in e = inp @ take 4 (the_buffer c)"
  shows "returns good (received_reply_header c) e"
proof -
  have i: "free_to_change e" "block e = Some 22" "calm c e" "sender e" "recv_async e" "waits False False None None e"
    "length (the_buffer c) = 22" "sstate c \<noteq> STATE_UP" "sstate c \<noteq> STATE_CONNECTING"
    using assms(1) by (auto simp: idle_with_def waits_def free_to_change_def)
  have b: "buffer c \<noteq> None"
    using i(7) by (auto simp: the_buffer_def split: option.splits)
  have recv: "good (c\<lparr>bind_addr := a, recv_dest := 4, recv_len := 0, recv_total := n, sstate := STATE_RECEIVED_REPLY_HEADER\<rparr>)
      (e\<lparr>receiving := Some (4, n)\<rparr>)"
    if h: "the_buffer c ! 0 = 5" "the_buffer c ! 1 = 0"
      and a: "a = BAddr_IPv4 0 0 \<and> n = 6 \<and> the_buffer c ! 3 = 1 \<or> a = BAddr_IPv6 [] 0 \<and> n = 18 \<and> the_buffer c ! 3 = 4" for a n
  proof (rule calm_good)
    let ?c = "c\<lparr>bind_addr := a, recv_dest := 4, recv_len := 0, recv_total := n, sstate := STATE_RECEIVED_REPLY_HEADER\<rparr>"
    let ?e = "e\<lparr>receiving := Some (4, n)\<rparr>"
    have "fixed_ok ?c ?e"
      by (rule fixed_ok_cong [of c e]) (use i(3) in \<open>simp_all add: calm_def\<close>)
    moreover have "resources_ok ?c ?e"
      using i by (auto simp: calm_def resources_ok_def)
    ultimately show "calm ?c ?e"
      using i(8) by (intro calmI [OF i(3)]) simp_all
    show "talk_ok ?c ?e"
      using assms(2,3) h a i b by (auto simp: talk_ok_def receives_def waits_def got_def)
  qed
  have fail: "returns good (c, [Handler EVENT_ERROR]) e"
    by (rule idle_failD [OF assms(1)])
  show ?thesis
    using recv [of "BAddr_IPv4 0 0" 6] recv [of "BAddr_IPv6 [] 0" 18] fail i
    by (auto simp: received_reply_header_def Let_def report_error_def start_receive_def do_receive_def socks_consts ntoh8_def hton8_def
        waits_def)
qed

text \<open>Writing the password message.\<close>

lemma put_next:
  assumes "buffer c = Some (xs @ ys)" "off = length xs" "length bs \<le> length ys"
  shows "put off bs c = c\<lparr>buffer := Some ((xs @ bs) @ drop (length bs) ys)\<rparr>"
  using assms by (simp add: put_def the_buffer_def)

lemma put_password:
  assumes "buffer c = Some b" "length b = length (password_message ai)"
  shows "put (3 + length (auth_username ai)) (auth_password ai) (put (2 + length (auth_username ai)) [word_of_nat (length (auth_password ai))]
     (put 2 (auth_username ai) (put 1 [word_of_nat (length (auth_username ai))] (put 0 [1] c)))) =
     c\<lparr>buffer := Some (password_message ai)\<rparr>"
proof -
  let ?u = "auth_username ai" and ?p = "auth_password ai"
  have l: "length b = 3 + length ?u + length ?p"
    using assms(2) by (simp add: password_message_def)
  show ?thesis
    using assms(1) l by (simp add: put_def the_buffer_def password_message_def numeral_3_eq_3)
qed

text \<open>What the client has to say when the server has answered the hello: the request, or the name and the password of the first
  entry of the table with the chosen method.\<close>

definition next_message :: "BSocksClient_auth_info list \<Rightarrow> bool \<Rightarrow> BAddr \<Rightarrow> bytes \<Rightarrow> bytes option" where
  "next_message t u dest reply =
     (if reply ! 0 \<noteq> 5 then None
      else case [ai \<leftarrow> t. auth_type ai = reply ! 1] of
             [] \<Rightarrow> None
           | ai # _ \<Rightarrow>
               if reply ! 1 = 0 then request_to u dest
               else if auth_username ai = [] \<or> auth_password ai = [] \<or> length (auth_username ai) > 255 \<or> length (auth_password ai) > 255
               then None
               else Some (password_message ai))"

definition next_state :: "bytes \<Rightarrow> socks_state" where
  "next_state reply = (if reply ! 1 = 0 then STATE_SENDING_REQUEST else STATE_SENDING_PASSWORD)"

lemma filter_find: "filter P xs = (case find P xs of None \<Rightarrow> [] | Some x \<Rightarrow> x # filter P (tl (dropWhile (\<lambda>x. \<not> P x) xs)))"
  by (induction xs) (simp_all split: option.split)

text \<open>The name and the password are written to a buffer of exactly their size.\<close>

lemma password_written:
  assumes "auth_username ai \<noteq> []" "length (auth_username ai) \<le> 255" "auth_password ai \<noteq> []" "length (auth_password ai) \<le> 255"
  defines "n \<equiv> 3 + length (auth_username ai) + length (auth_password ai)"
  shows "bsize_abs (bsize_fromsize (word_of_nat (1 + 1 + length (auth_username ai) + 1 + length (auth_password ai)))) = Some n"
    "put (3 + length (auth_username ai)) (auth_password ai) (put (2 + length (auth_username ai)) [word_of_nat (length (auth_password ai))]
       (put 2 (auth_username ai) (put 1 [word_of_nat (length (auth_username ai))] (put 0 [1] (fresh w c n))))) =
     c\<lparr>buffer := Some (password_message ai)\<rparr>"
    "length (password_message ai) = n"
proof -
  show lm: "length (password_message ai) = n"
    by (simp add: password_message_def n_def)
  have "unat (word_of_nat n :: 64 word) = n"
    using assms by (simp add: unat_of_nat take_bit_nat_eq_self n_def del: of_nat_add)
  moreover have "1 + 1 + length (auth_username ai) + 1 + length (auth_password ai) = n"
    by (simp add: n_def)
  ultimately show "bsize_abs (bsize_fromsize (word_of_nat (1 + 1 + length (auth_username ai) + 1 + length (auth_password ai)))) = Some n"
    by (simp only: size_abs)
  have "buffer (fresh w c n) = Some (the_buffer (fresh w c n))"
    by (simp add: fresh_def the_buffer_def)
  from put_password [OF this, of ai] lm
  show "put (3 + length (auth_username ai)) (auth_password ai) (put (2 + length (auth_username ai)) [word_of_nat (length (auth_password ai))]
       (put 2 (auth_username ai) (put 1 [word_of_nat (length (auth_username ai))] (put 0 [1] (fresh w c n))))) =
     c\<lparr>buffer := Some (password_message ai)\<rparr>"
    by simp
qed

lemma received_hello_says:
  assumes "free_to_change e" "sender e" "\<not> errored e" "block e = Some 2" "address_ok (dest_addr c)" "length t = num_auth_info c" "table_ok t"
  shows "returns (says w (next_state (the_buffer c)) (next_message t (udp c) (dest_addr c) (the_buffer c)) c e) (received_hello w t c) e"
proof -
  let ?m = "the_buffer c ! 1"
  note defs = received_hello_def Let_def report_error_def ntoh8_def hton8_def socks_consts next_message_def filter_find
  note idle = assms(1-4)
  show ?thesis
  proof (cases "the_buffer c ! 0 = 5 \<and> find (\<lambda>ai. auth_type ai = ?m) t \<noteq> None")
    case False
    then show ?thesis
      using idle assms(6) by (auto simp: defs says_def)
  next
    case True
    then obtain ai where f: "find (\<lambda>ai. auth_type ai = ?m) t = Some ai"
      by blast
    then have ai: "auth_type ai = ?m" "ai \<in> set t"
      by (auto simp: find_Some_iff)
    then have "?m = 0 \<or> ?m = 2"
      using assms(7) by (auto simp: table_ok_def list_all_iff socks_consts)
    then show ?thesis
    proof
      assume z: "?m = 0"
      then show ?thesis
        using True f ai(1) assms(6) idle auth_finished_says [OF idle(1-3) assms(5), of w] by (simp add: defs next_state_def)
    next
      assume z: "?m = 2"
      let ?bad = "auth_username ai = [] \<or> length (auth_username ai) > 255 \<or> auth_password ai = [] \<or> length (auth_password ai) > 255"
      show ?thesis
      proof (cases ?bad)
        case bad: True
        then show ?thesis
          using True f ai(1) z assms(6) idle by (auto simp: defs says_def)
      next
        case False
        let ?n = "3 + length (auth_username ai) + length (auth_password ai)"
        note p = password_written [of ai] and r = reserve_buffer_eq [OF password_written(1) [of ai]]
        have n: "next_message t (udp c) (dest_addr c) (the_buffer c) = Some (password_message ai)"
          "next_state (the_buffer c) = STATE_SENDING_PASSWORD"
          using True f z False by (simp_all add: next_message_def filter_find next_state_def)
        show ?thesis
        proof (cases "alloc_ok w")
          case yes: True
          have "received_hello w t c = (c\<lparr>buffer := Some (password_message ai), sstate := STATE_SENDING_PASSWORD\<rparr>,
              [Access 0 2, Realloc ?n True, Access 0 1, Access 1 1, Access 2 (length (auth_username ai)),
              Access (2 + length (auth_username ai)) 1, Access (3 + length (auth_username ai)) (length (auth_password ai)), Send ?n])"
            using True f ai(1) z assms(6) False yes p r
            by (simp add: received_hello_def ntoh8_def hton8_def socks_consts Let_def del: of_nat_add)
          then show ?thesis
            using idle n yes False p(3) by (simp add: says_def free_to_change_def INT_MAX_def)
        next
          case no: False
          have "received_hello w t c = (c, [Access 0 2, Realloc ?n False, Handler EVENT_ERROR])"
            using True f ai(1) z assms(6) False no r
            by (simp add: received_hello_def ntoh8_def hton8_def socks_consts Let_def report_error_def del: of_nat_add)
          then show ?thesis
            using idle n no by (simp add: says_def)
        qed
      qed
    qed
  qed
qed

lemma next_message_cases:
  assumes "next_message t u dest reply = Some msg" "table_ok t"
  obtains ai where "reply ! 0 = 5" "ai \<in> set t" "auth_type ai = 0" "reply ! 1 = 0" "request_to u dest = Some msg"
  | ai where "reply ! 0 = 5" "reply ! 1 = 2" "ai \<in> set t" "auth_type ai = 2" "auth_username ai \<noteq> []" "length (auth_username ai) \<le> 255"
      "auth_password ai \<noteq> []" "length (auth_password ai) \<le> 255" "msg = password_message ai"
proof -
  obtain ai as where f: "[ai \<leftarrow> t. auth_type ai = reply ! 1] = ai # as" and h: "reply ! 0 = 5"
    using assms(1) by (auto simp: next_message_def split: if_splits list.splits)
  have "ai \<in> set [ai \<leftarrow> t. auth_type ai = reply ! 1]"
    unfolding f by simp
  then have ai: "ai \<in> set t" "auth_type ai = reply ! 1"
    by simp_all
  then have "auth_type ai = 0 \<or> auth_type ai = 2"
    using assms(2) by (auto simp: table_ok_def list_all_iff socks_consts)
  then show ?thesis
    using that assms(1) f h ai by (auto simp: next_message_def split: if_splits)
qed

lemma hello_reply_ok:
  assumes "idle_with c e 2" "wire_out e = hello_message (hd (tables e))" "wire_in e = the_buffer c"
  shows "returns good (received_hello w (hd (tables e)) c) e"
proof (rule returns_mono)
  let ?t = "hd (tables e)" and ?b = "the_buffer c"
  let ?m = "next_message ?t (udp c) (dest_addr c) ?b"
  have i: "free_to_change e" "block e = Some 2" "calm c e" "sender e" "waits False False None None e"
    "length ?b = 2" "sstate c \<noteq> STATE_UP" "sstate c \<noteq> STATE_CONNECTING" "\<not> errored e"
    using assms(1) by (auto simp: idle_with_def waits_def free_to_change_def calm_def)
  have t: "length ?t = num_auth_info c" "table_ok ?t" "?t \<in> set (tables e)" "address_ok (dest_addr c)"
    using i(3) by (auto simp: calm_def fixed_ok_def)
  have b: "?b = [?b ! 0, ?b ! 1]"
    using take_2_4(1) [of ?b] i(6) by simp
  show "returns (says w (next_state ?b) ?m c e) (received_hello w ?t c) e"
    using i t by (intro received_hello_says)
  fix c' e' assume s: "says w (next_state ?b) ?m c e c' e'"
  show "good c' e'"
  proof (rule says_good [OF s i(3-5) i(8,7)])
    show "next_state ?b \<noteq> STATE_CONNECTING" "next_state ?b \<noteq> STATE_UP"
      by (simp_all add: next_state_def)
    fix msg assume m: "?m = Some msg"
    let ?c = "c\<lparr>buffer := Some msg, sstate := next_state ?b\<rparr>" and ?e = "e\<lparr>block := Some (length msg), sending := Some (length msg)\<rparr>"
    have w: "sends msg ?c ?e"
      using i(5) by (simp add: sends_def waits_def)
    from m t(2) show "talk_ok ?c ?e"
    proof (cases rule: next_message_cases)
      case (1 ai)
      then have "wire_in e = [5, 0]"
        using assms(3) b by simp
      then have "authenticated (tables e) (wire_out e) (wire_in e)"
        using 1 t(3) assms(2) by (auto simp: authenticated_def)
      moreover have "msg = request_message (udp c) (dest_addr c)"
        using 1(5) by (auto simp: request_to_def split: if_splits)
      ultimately show ?thesis
        using 1 w by (simp add: talk_ok_def next_state_def)
    next
      case (2 ai)
      then have "wire_in e = [5, 2]"
        using assms(3) b by simp
      moreover have "password_entry (tables e) ai"
        using 2 t(3) by (auto simp: password_entry_def)
      ultimately show ?thesis
        using 2 w assms(2) by (auto simp: talk_ok_def next_state_def)
    qed
  qed
qed


lemma socks_received_ok:
  assumes "good c e" "receiving e = Some (off, n)" "bs \<noteq> []" "length bs \<le> n" "\<not> errored e"
  shows "returns good (recv_handler_done w (hd (tables e)) (put off bs c) (length bs))
    (e\<lparr>receiving := None, wire_in := wire_in e @ bs\<rparr>)"
proof -
  note t = not_error [OF assms(1,5)]
  let ?c = "(put off bs c)\<lparr>recv_len := recv_len c + length bs\<rparr>"
  let ?e = "e\<lparr>receiving := None, wire_in := wire_in e @ bs\<rparr>"
  have st: "sstate c = STATE_SENT_HELLO \<or> sstate c = STATE_SENT_PASSWORD \<or> sstate c = STATE_SENT_REQUEST \<or>
      sstate c = STATE_RECEIVED_REPLY_HEADER"
    using t(2) assms(2) by (auto simp: talk_ok_def waits_def sends_def split: socks_state.splits)
  then obtain sz where r: "receives sz (recv_dest c) (recv_total c) c e" "sz = 2 \<or> sz = 22"
    using t(2) by (auto simp: talk_ok_def receives_def split: BAddr.splits)
  then have off: "off = recv_dest c + recv_len c" "n = recv_total c - recv_len c" and
    room: "recv_dest c + recv_len c + length bs \<le> length (the_buffer c)" and
    w: "connecting e = False" "job_set e = False" "sending e = None" and lb: "length (the_buffer c) = sz"
    using assms(2,4) by (auto simp: receives_def waits_def)
  have got: "got ?c = got c @ bs"
    using got_put [OF room] by (simp add: off)
  have bc: "buffer ?c = Some (the_buffer ?c)" and lc: "length (the_buffer ?c) = sz"
    using room lb by (simp_all add: off put_def the_buffer_def)
  have res: "resources_ok c e" and nup: "sstate c \<noteq> STATE_UP" and ncon: "sstate c \<noteq> STATE_CONNECTING"
    using t(1) st by (auto simp: calm_def)
  have fixed: "fixed_ok ?c f" if "tables f = tables e" for f
    by (rule fixed_ok_cong [of c e]) (use t(1) that in \<open>simp_all add: calm_def\<close>)
  have blk: "block e = Some sz"
    using res lb r(1) by (auto simp: resources_ok_def receives_def the_buffer_def)
  have con: "connection e" "recv_async e" "sender e" "send_async e" "job_exists e" "connector e"
    using res nup ncon by (simp_all add: resources_ok_def)
  have calm: "calm ?c (?e\<lparr>receiving := v\<rparr>)" for v
  proof (rule calmI [OF t(1)])
    show "resources_ok ?c (?e\<lparr>receiving := v\<rparr>)"
      using con nup ncon w blk lc by (simp add: resources_ok_def bc del: the_buffer_put)
  qed (use nup in \<open>simp_all add: fixed\<close>)
  have prefix: "the_buffer ?c ! i = the_buffer c ! i" if "i < off" for i
    using that room by (simp add: off nth_append)
  show ?thesis
  proof (cases "recv_len c + length bs < recv_total c")
    case True
    let ?v = "Some (recv_dest c + (recv_len c + length bs), recv_total c - (recv_len c + length bs))"
    have rec: "receives sz' d m c e \<Longrightarrow> receives sz' d m ?c (e\<lparr>wire_in := x, receiving := ?v\<rparr>)" for sz' d m x
      using True lc w r(1) by (auto simp: receives_def waits_def bc simp del: the_buffer_put)
    have "talk_ok ?c (?e\<lparr>receiving := ?v\<rparr>)"
      using st
    proof (elim disjE)
      assume "sstate c = STATE_SENT_HELLO"
      then show ?thesis using t(2) got by (simp add: talk_ok_def rec)
    next
      assume "sstate c = STATE_SENT_PASSWORD"
      then show ?thesis using t(2) got by (simp add: talk_ok_def rec)
    next
      assume "sstate c = STATE_SENT_REQUEST"
      then show ?thesis using t(2) got by (auto simp: talk_ok_def rec)
    next
      assume h: "sstate c = STATE_RECEIVED_REPLY_HEADER"
      then have "4 \<le> off"
        using t(2) by (auto simp: talk_ok_def off receives_def split: BAddr.splits)
      then show ?thesis
        using t(2) h got prefix [of 0] prefix [of 1] prefix [of 3]
        by (auto simp: talk_ok_def rec simp del: the_buffer_put split: BAddr.splits)
    qed
    then have "good ?c (?e\<lparr>receiving := ?v\<rparr>)"
      using calm by (intro calm_good)
    then show ?thesis
      using True assms(4) off blk con room lb r(1)
      by (simp add: recv_handler_done_def do_receive_def Let_def receives_def)
  next
    case False
    then have full: "recv_len c + length bs = recv_total c"
      using assms(4) off(2) r(1) unfolding receives_def by linarith
    have "?e\<lparr>receiving := None\<rparr> = ?e"
      by simp
    with calm [of None] have now: "calm ?c ?e"
      by (simp only:)
    have idle: "idle_with ?c ?e sz"
      using now con w blk lc nup ncon by (simp add: idle_with_def waits_def del: the_buffer_put)
    have g2: "got ?c = the_buffer ?c" if "sz = 2" "recv_dest c = 0" "recv_total c = 2"
      using that full lc by (simp add: got_def del: the_buffer_put)
    have g4: "got ?c = take 4 (the_buffer ?c)" if "recv_dest c = 0" "recv_total c = 4"
      using that full by (simp add: got_def del: the_buffer_put)
    have fin: "recv_handler_done w (hd (tables e)) (put off bs c) (length bs) =
        (case (case sstate c of
           STATE_SENT_HELLO \<Rightarrow> received_hello w (hd (tables e)) ?c
         | STATE_SENT_REQUEST \<Rightarrow> received_reply_header ?c
         | STATE_SENT_PASSWORD \<Rightarrow> received_password_reply w ?c
         | STATE_RECEIVED_REPLY_HEADER \<Rightarrow> received_reply_rest ?c
         | _ \<Rightarrow> (?c, [AssertThat False])) of (c2, cs) \<Rightarrow> (c2, AssertThat True # cs))"
      using False assms(4) unfolding off(2) by (simp add: recv_handler_done_def Let_def)
    show ?thesis
      using st
    proof (elim disjE)
      assume h: "sstate c = STATE_SENT_HELLO"
      then have i: "wire_out e = hello_message (hd (tables e))" "wire_in e = got c" "sz = 2" "recv_dest c = 0" "recv_total c = 2"
        using t(2) lb by (auto simp: talk_ok_def receives_def)
      have "returns good (received_hello w (hd (tables ?e)) ?c) ?e"
        using idle i g2 got by (intro hello_reply_ok) (simp_all del: the_buffer_put)
      then show ?thesis by (simp add: fin h)
    next
      assume h: "sstate c = STATE_SENT_PASSWORD"
      then obtain ai where ai: "password_entry (tables e) ai" "wire_out e = hello_message (hd (tables e)) @ password_message ai"
        "wire_in e = [5, 2] @ got c" "sz = 2" "recv_dest c = 0" "recv_total c = 2"
        using t(2) lb by (auto simp: talk_ok_def receives_def)
      have "returns good (received_password_reply w ?c) ?e"
        using idle ai g2 got by (intro password_reply_ok [where ai = ai]) (simp_all del: the_buffer_put)
      then show ?thesis by (simp add: fin h)
    next
      assume h: "sstate c = STATE_SENT_REQUEST"
      then obtain inp where i: "asked (tables e) (udp c) (dest_addr c) (wire_out e) inp" "wire_in e = inp @ got c" "sz = 22"
        "recv_dest c = 0" "recv_total c = 4"
        using t(2) lb by (auto simp: talk_ok_def receives_def)
      have "returns good (received_reply_header ?c) ?e"
        using idle i g4 got by (intro reply_header_ok [where inp = inp]) (simp_all del: the_buffer_put)
      then show ?thesis by (simp add: fin h)
    next
      assume h: "sstate c = STATE_RECEIVED_REPLY_HEADER"
      then obtain inp where i: "asked (tables e) (udp c) (dest_addr c) (wire_out e) inp" "wire_in e = inp @ got c" "sz = 22"
        "recv_dest c = 4" "the_buffer c ! 0 = 5" "the_buffer c ! 1 = 0"
        "case bind_addr c of BAddr_IPv4 _ _ \<Rightarrow> the_buffer c ! 3 = 1 \<and> recv_total c = 6
           | BAddr_IPv6 _ _ \<Rightarrow> the_buffer c ! 3 = 4 \<and> recv_total c = 18 | _ \<Rightarrow> False"
        using t(2) lb by (auto simp: talk_ok_def receives_def split: BAddr.splits)
      have p: "the_buffer ?c ! 0 = 5" "the_buffer ?c ! 1 = 0" "the_buffer ?c ! 3 = the_buffer c ! 3"
        using prefix [of 0] prefix [of 1] prefix [of 3] i(4-6) off(1) by simp_all
      have "returns good (received_reply_rest ?c) ?e"
      proof (rule reply_rest_ok [where inp = inp])
        show "case bind_addr ?c of BAddr_IPv4 _ _ \<Rightarrow> the_buffer ?c ! 3 = 1 \<and> recv_total ?c = 6
           | BAddr_IPv6 _ _ \<Rightarrow> the_buffer ?c ! 3 = 4 \<and> recv_total ?c = 18 | _ \<Rightarrow> False"
          unfolding p using i(7) by (simp split: BAddr.splits)
      qed (use idle i h full got p in \<open>simp_all del: the_buffer_put\<close>)
      then show ?thesis by (simp add: fin h)
    qed
  qed
qed

end
