(* ===== verification/Socks_Conversation.thy ===== *)
theory Socks_Conversation
  imports Socks_Negotiation
begin

text \<open>
  What follows from the invariant of the SOCKS client: every reachable state is safe, the states and
  the reports come in the order of the protocol, and the negotiation ends.
\<close>


section \<open>Reachable states\<close>

lemma same_types_facts:
  assumes "same_types t u"
  shows "length t = length u" "hello_message t = hello_message u" "table_ok t = table_ok u"
proof -
  have m: "map auth_type t = map auth_type u"
    using assms by (simp add: same_types_def)
  then show "length t = length u"
    by (rule map_eq_imp_length_eq)
  then show "hello_message t = hello_message u"
    using m by (simp add: hello_message_def)
  have "table_ok v = list_all (\<lambda>a. a = SOCKS_METHOD_NO_AUTHENTICATION_REQUIRED \<or> a = SOCKS_METHOD_USERNAME_PASSWORD) (map auth_type v)" for v
    by (simp add: table_ok_def list_all_iff)
  then show "table_ok t = table_ok u"
    by (simp add: m)
qed

lemma same_types_trans: "same_types t t" "same_types s u \<Longrightarrow> same_types t u \<Longrightarrow> same_types s t"
  by (simp_all add: same_types_def)

text \<open>What is known of the conversation stays true when the table gets another content.\<close>

lemma talk_mono:
  assumes "set ts \<subseteq> set us"
  shows "password_entry ts ai \<Longrightarrow> password_entry us ai"
    "authenticated ts out inp \<Longrightarrow> authenticated us out inp"
    "asked ts u dest out inp \<Longrightarrow> asked us u dest out inp"
    "granted ts u dest b out inp \<Longrightarrow> granted us u dest b out inp"
proof -
  have p: "password_entry ts ai \<Longrightarrow> password_entry us ai" for ai
    using assms by (auto simp: password_entry_def)
  have a: "authenticated ts out inp \<Longrightarrow> authenticated us out inp" for out inp
    using assms p unfolding authenticated_def by blast
  have k: "asked ts u dest out inp \<Longrightarrow> asked us u dest out inp" for out inp
    using a unfolding asked_def by blast
  show "password_entry ts ai \<Longrightarrow> password_entry us ai" "authenticated ts out inp \<Longrightarrow> authenticated us out inp"
    "asked ts u dest out inp \<Longrightarrow> asked us u dest out inp"
    by (rule p a k; assumption)+
  show "granted ts u dest b out inp \<Longrightarrow> granted us u dest b out inp"
    using k unfolding granted_def by blast
qed

lemma waiting_cong:
  "waits a b s r (e\<lparr>tables := ts\<rparr>) = waits a b s r e"
  "sends m c (e\<lparr>tables := ts\<rparr>) = sends m c e"
  "receives n d k c (e\<lparr>tables := ts\<rparr>) = receives n d k c e"
  "resources_ok c (e\<lparr>tables := ts\<rparr>) = resources_ok c e"
  by (simp_all add: waits_def sends_def receives_def resources_ok_def)

lemma table_changes_ok:
  assumes "good c e" "same_types t (hd (tables e))"
  shows "good c (e\<lparr>tables := t # tables e\<rparr>)"
proof -
  let ?e = "e\<lparr>tables := t # tables e\<rparr>" and ?h = "hd (tables e)"
  have f: "fixed_ok c e" and ne: "tables e \<noteq> []"
    using assms(1) by (simp_all add: good_def fixed_ok_def)
  have th: "length t = num_auth_info c" "table_ok t" "hello_message t = hello_message ?h"
    using f ne same_types_facts [OF assms(2)] by (simp_all add: fixed_ok_def)
  have "set (tables e) \<subseteq> set (t # tables e)"
    by auto
  note m = talk_mono [OF this]
  have "fixed_ok c ?e"
    using f th(1,2) same_types_trans(1) same_types_trans(2) [OF _ assms(2)]
    unfolding fixed_ok_def by auto
  moreover have "resources_ok c ?e"
    using assms(1) by (simp add: good_def waiting_cong)
  moreover have "talk_ok c ?e" if "talk_ok c e"
    using that th(3) by (cases "sstate c"; cases "bind_addr c"; simp add: talk_ok_def waiting_cong; (blast intro: m)?)
  ultimately show ?thesis
    using assms(1) m(4) by (auto simp: good_def)
qed

lemma set_dest_ok:
  assumes "good c e" "sstate c = STATE_CONNECTING \<or> sstate c = STATE_CONNECTED_HANDLER" "\<not> errored e" "address_ok a"
  shows "returns good (BSocksClient_SetDestAddr c a) e"
proof -
  note t = not_error [OF assms(1,3)]
  let ?c = "c\<lparr>dest_addr := a\<rparr>"
  have "fixed_ok ?c e" "resources_ok ?c e"
    using t(1) assms(4) by (auto simp: calm_def fixed_ok_def resources_ok_def)
  then have "calm ?c e"
    using assms(2) by (intro calmI [OF t(1)]) auto
  moreover have "talk_ok ?c e"
    using t(2) assms(2) by (auto simp: talk_ok_def)
  ultimately show ?thesis
    using assms(2) by (simp add: BSocksClient_SetDestAddr_def calm_good)
qed

lemma free_ok:
  assumes "good c e"
  shows "returns (\<lambda>c' e'. gone e' \<and> tables e' = tables e) (BSocksClient_Free c) e"
proof -
  have r: "resources_ok c e"
    using assms by (simp add: good_def)
  show ?thesis
  proof (cases "sstate c = STATE_CONNECTING")
    case True
    then show ?thesis
      using r by (cases "buffer c"; cases "receiving e"; simp add: BSocksClient_Free_def resources_ok_def gone_def free_to_change_def)
  next
    case False
    then show ?thesis
      using r by (cases "sstate c = STATE_UP"; cases "buffer c")
        (simp_all add: BSocksClient_Free_def resources_ok_def gone_def free_to_change_def free_control_io_def free_up_io_def)
  qed
qed

lemma started_ok:
  assumes "BSocksClient_Init m srv (length t) dest u True = (r, True)" "table_ok t" "address_ok dest" "run r (blank_env t) = Some (c, e)"
  shows "good c e"
proof -
  have "c = m\<lparr>num_auth_info := length t, dest_addr := dest, udp := u, buffer := None, sstate := STATE_CONNECTING\<rparr>"
    "e = (blank_env t)\<lparr>job_exists := True, connector := True, connecting := True\<rparr>"
    using assms(1,4) by (auto simp: BSocksClient_Init_def run_def blank_env_def split: if_splits)
  then show ?thesis
    using assms(2,3) by (simp add: good_def fixed_ok_def same_types_def resources_ok_def talk_ok_def waits_def blank_env_def)
qed

lemma run_returns: "returns P r e \<longleftrightarrow> (\<exists>e'. run r e = Some (fst r, e') \<and> P (fst r) e')"
  by (auto simp: returns_def run_def)

lemma good_ok: "good c e \<Longrightarrow> ok (c, e)"
proof -
  assume g: "good c e"
  then have "tables e \<noteq> []"
    by (simp add: good_def fixed_ok_def)
  with g show "ok (c, e)"
    by (simp add: ok_def)
qed

lemma socks_fire_ok:
  assumes "ok (c, e)" "enabled ev (c, e)"
  shows "\<exists>c' e'. fire w ev (c, e) = Some (c', e') \<and> ok (c', e') \<and>
    (if ev = User_Frees then gone e' \<and> c' = c else gone e \<and> gone e' \<or> good c e \<and> good c' e')"
proof (cases "gone e")
  case True
  then show ?thesis
    using assms by (cases ev) (auto simp: gone_def ok_def)
next
  case False
  then have g: "good c e" and ne: "tables e \<noteq> []"
    using assms(1) by (simp_all add: ok_def)
  have keep: "returns good r e0 \<Longrightarrow> \<exists>c' e'. run r e0 = Some (c', e') \<and> ok (c', e') \<and> good c' e'" for r e0
    unfolding run_returns using good_ok by blast
  show ?thesis
  proof (cases ev)
    case (Connector_Reports b)
    then show ?thesis using keep [OF connector_ok [OF g]] assms(2) g by fastforce
  next
    case (Connection_Reports b)
    then show ?thesis using keep [OF connection_ok [OF g]] assms(2) g by fastforce
  next
    case Job_Runs
    then show ?thesis using keep [OF continue_job_ok [OF g]] assms(2) g by fastforce
  next
    case Sent
    then show ?thesis using keep [OF socks_sent_ok [OF g]] assms(2) g by fastforce
  next
    case (Received bs)
    then show ?thesis using keep [OF socks_received_ok [OF g]] assms(2) g by (fastforce split: option.splits)
  next
    case (User_Sets_Dest a)
    then show ?thesis using keep [OF set_dest_ok [OF g]] assms(2) g by fastforce
  next
    case (Table_Changes t)
    then show ?thesis using table_changes_ok [OF g, of t] assms(2) g good_ok by fastforce
  next
    case User_Frees
    then show ?thesis using free_ok [OF g] ne unfolding run_returns
      by (auto simp: ok_def BSocksClient_Free_def)
  qed
qed

lemma negotiated_ok: "negotiated s \<Longrightarrow> ok s"
proof (induction rule: negotiated.induct)
  case (started m srv t dest u r s)
  then show ?case
    using started_ok [of m srv t dest u r "fst s" "snd s"] by (metis good_ok prod.collapse)
next
  case (event c e ev w s)
  then show ?case
    using socks_fire_ok [of c e ev w] by auto
qed


section \<open>What each handler reports\<close>

definition told :: "socks_call list \<Rightarrow> socks_event list" where
  "told cs = List.map_filter (\<lambda>x. case x of Handler ev \<Rightarrow> Some ev | _ \<Rightarrow> None) cs"

lemma told_simps [simp]:
  "told [] = []" "told (Handler ev # cs) = ev # told cs" "\<not> is_handler x \<Longrightarrow> told (x # cs) = told cs"
  "told (cs @ ds) = told cs @ told ds"
  by (auto simp: told_def map_filter_simps map_filter_def elim: is_handler.elims split: socks_call.splits)

text \<open>A handler reports an error and stays where it is, or it goes to another state.\<close>

definition leads :: "BSocksClient \<Rightarrow> socks_state set \<Rightarrow> socks_run \<Rightarrow> bool" where
  "leads c S r =
     (AssertThat False \<in> set (snd r) \<or>
      told (snd r) = [EVENT_ERROR] \<and> sstate (fst r) = sstate c \<or> told (snd r) = [] \<and> sstate (fst r) \<in> S)"

lemma leads_pre [simp]: "\<not> is_handler x \<Longrightarrow> leads c S (case r of (c1, cs) \<Rightarrow> (c1, x # cs)) = (x = AssertThat False \<or> leads c S r)"
  by (cases r) (auto simp: leads_def)

lemma leads_mono: "leads c S r \<Longrightarrow> S \<subseteq> T \<Longrightarrow> leads c T r"
  by (auto simp: leads_def)

lemma put_state: "sstate (put off bs c) = sstate c"
  by simp

lemma reserve_buffer_cases:
  obtains c1 cs b where "reserve_buffer w c sz = ((c1, cs), b)" "sstate c1 = sstate c" "told cs = []"
proof -
  have "sstate (fst (fst (reserve_buffer w c sz))) = sstate c \<and> told (snd (fst (reserve_buffer w c sz))) = []"
    by (simp add: reserve_buffer_def Let_def)
  then show ?thesis
    using that by (metis prod.collapse)
qed

lemma auth_finished_leads: "leads c {STATE_SENDING_REQUEST} (auth_finished w c)"
proof -
  have "leads c {STATE_SENDING_REQUEST} (auth_finished w c)" if "dest_addr c = a" for a
  proof -
    obtain c1 cs b where r: "reserve_buffer w c (bsize_add (bsize_fromsize 4) (bsize_fromsize 6)) = ((c1, cs), b)"
      "sstate c1 = sstate c" "told cs = []"
      by (rule reserve_buffer_cases)
    obtain c2 ds d where s: "reserve_buffer w c (bsize_add (bsize_fromsize 4) (bsize_fromsize 18)) = ((c2, ds), d)"
      "sstate c2 = sstate c" "told ds = []"
      by (rule reserve_buffer_cases)
    show ?thesis
      using that r s
      by (cases a; cases b; cases d) (simp_all add: auth_finished_def Let_def report_error_def leads_def put_state)
  qed
  then show ?thesis by blast
qed

lemma received_password_reply_leads: "leads c {STATE_SENDING_REQUEST} (received_password_reply w c)"
  using auth_finished_leads [of c w] by (auto simp: received_password_reply_def report_error_def leads_def split: prod.splits)

lemma received_hello_leads: "leads c {STATE_SENDING_REQUEST, STATE_SENDING_PASSWORD} (received_hello w t c)"
proof (cases "find (\<lambda>ai. auth_type ai = ntoh8 (the_buffer c ! 1)) (take (num_auth_info c) t)")
  case None
  then show ?thesis
    by (simp add: received_hello_def Let_def report_error_def leads_def)
next
  case (Some ai)
  have a: "leads c {STATE_SENDING_REQUEST, STATE_SENDING_PASSWORD} (auth_finished w c)"
    using auth_finished_leads by (rule leads_mono) simp
  obtain c1 cs b where r: "reserve_buffer w c (bsize_fromsize
      (word_of_nat (1 + 1 + length (auth_username ai) + 1 + length (auth_password ai)))) = ((c1, cs), b)"
      "sstate c1 = sstate c" "told cs = []"
    by (rule reserve_buffer_cases)
  show ?thesis
    using a r by (cases b; cases "auth_finished w c")
      (simp_all add: received_hello_def Let_def report_error_def leads_def Some put_state del: One_nat_def)
qed

lemma received_reply_header_leads: "leads c {STATE_RECEIVED_REPLY_HEADER} (received_reply_header c)"
  by (simp add: received_reply_header_def Let_def report_error_def start_receive_def do_receive_def leads_def)

lemma received_reply_rest_leads:
  "AssertThat False \<in> set (snd (received_reply_rest c)) \<or>
   told (snd (received_reply_rest c)) = [EVENT_UP] \<and> sstate (fst (received_reply_rest c)) = STATE_UP"
  by (cases "bind_addr c") (simp_all add: received_reply_rest_def Let_def free_control_io_def init_up_io_def)

lemma receive_reply_leads: "leads c {st} (receive_reply w c sz n st)"
proof -
  obtain c1 cs b where r: "reserve_buffer w c sz = ((c1, cs), b)" "sstate c1 = sstate c" "told cs = []"
    by (rule reserve_buffer_cases)
  then show ?thesis
    by (cases b) (simp_all add: receive_reply_def start_receive_def do_receive_def leads_def report_error_def)
qed

lemma write_methods_told: "told (snd (write_methods i t c)) = []" "sstate (fst (write_methods i t c)) = sstate c"
  by (induction i t c rule: write_methods.induct) (simp_all add: case_prod_unfold)

lemma continue_job_leads: "leads c {STATE_SENDING_HELLO} (continue_job_handler w t c)"
proof -
  obtain c1 cs b where r: "reserve_buffer w c (bsize_add (bsize_fromsize 2)
      (bsize_mul (bsize_fromsize (word_of_nat (num_auth_info c))) (bsize_fromsize 1))) = ((c1, cs), b)"
      "sstate c1 = sstate c" "told cs = []"
    by (rule reserve_buffer_cases)
  then show ?thesis
    by (cases b) (simp_all add: continue_job_handler_def Let_def report_error_def leads_def case_prod_unfold write_methods_told)
qed

lemma recv_handler_leads:
  assumes "recv_len c + n < recv_total c"
  shows "sstate (fst (recv_handler_done w t c n)) = sstate c" "told (snd (recv_handler_done w t c n)) = []"
    "recv_total (fst (recv_handler_done w t c n)) = recv_total c"
    "recv_len (fst (recv_handler_done w t c n)) = recv_len c + n"
  using assms by (simp_all add: recv_handler_done_def do_receive_def Let_def)

text \<open>What the environment keeps of it.\<close>

lemma exec_calls_told:
  assumes "exec_calls cs e = Some e'"
  shows "reports e' = reports e @ told cs" "AssertThat False \<notin> set cs"
    "errored e' \<longleftrightarrow> errored e \<or> EVENT_ERROR \<in> set (told cs) \<or> EVENT_ERROR_CLOSED \<in> set (told cs)"
proof -
  have x: "exec_call x e = Some e' \<Longrightarrow> \<not> is_handler x \<Longrightarrow> reports e' = reports e \<and> errored e' = errored e" for x e e'
    by (cases x) (auto split: if_splits option.splits)
  have "reports e' = reports e @ told cs \<and> AssertThat False \<notin> set cs \<and>
    (errored e' \<longleftrightarrow> errored e \<or> EVENT_ERROR \<in> set (told cs) \<or> EVENT_ERROR_CLOSED \<in> set (told cs))"
    using assms
  proof (induction cs e rule: exec_calls.induct)
    case (2 c cs e)
    show ?case
    proof (cases "is_handler c")
      case True
      then obtain ev where "c = Handler ev"
        by (cases c) auto
      then show ?thesis
        using 2 True by (auto split: if_splits)
    next
      case False
      then obtain e1 where e1: "exec_call c e = Some e1" "exec_calls cs e1 = Some e'"
        using 2(2) by (auto split: option.splits)
      have "c \<noteq> AssertThat False"
        using e1(1) by auto
      then show ?thesis
        using 2(1) [OF _ e1(1) e1(2)] x [OF e1(1) False] False by auto
    qed
  qed simp
  then show "reports e' = reports e @ told cs" "AssertThat False \<notin> set cs"
    "errored e' \<longleftrightarrow> errored e \<or> EVENT_ERROR \<in> set (told cs) \<or> EVENT_ERROR_CLOSED \<in> set (told cs)"
    by blast+
qed


section \<open>The states in their order\<close>

fun follows :: "socks_state \<Rightarrow> socks_state set" where
  "follows STATE_CONNECTING = {STATE_CONNECTED_HANDLER}"
| "follows STATE_CONNECTED_HANDLER = {STATE_SENDING_HELLO}"
| "follows STATE_SENDING_HELLO = {STATE_SENT_HELLO}"
| "follows STATE_SENT_HELLO = {STATE_SENDING_REQUEST, STATE_SENDING_PASSWORD}"
| "follows STATE_SENDING_PASSWORD = {STATE_SENT_PASSWORD}"
| "follows STATE_SENT_PASSWORD = {STATE_SENDING_REQUEST}"
| "follows STATE_SENDING_REQUEST = {STATE_SENT_REQUEST}"
| "follows STATE_SENT_REQUEST = {STATE_RECEIVED_REPLY_HEADER}"
| "follows STATE_RECEIVED_REPLY_HEADER = {STATE_UP}"
| "follows STATE_UP = {}"

fun told_on_entry :: "socks_state \<Rightarrow> socks_event list" where
  "told_on_entry STATE_CONNECTED_HANDLER = [EVENT_CONNECTED]"
| "told_on_entry STATE_UP = [EVENT_UP]"
| "told_on_entry _ = []"

fun in_talk :: "event \<Rightarrow> bool" where
  "in_talk (User_Sets_Dest _) = False"
| "in_talk (Table_Changes _) = False"
| "in_talk User_Frees = False"
| "in_talk _ = True"

definition fails :: "BSocksClient \<Rightarrow> socks_env \<Rightarrow> BSocksClient \<Rightarrow> socks_env \<Rightarrow> bool" where
  "fails c e c' e' =
     (errored e' \<and> sstate c' = sstate c \<and>
      (reports e' = reports e @ [EVENT_ERROR] \<or> sstate c = STATE_UP \<and> reports e' = reports e @ [EVENT_ERROR_CLOSED]))"

definition moves :: "BSocksClient \<Rightarrow> socks_env \<Rightarrow> BSocksClient \<Rightarrow> socks_env \<Rightarrow> bool" where
  "moves c e c' e' =
     (\<not> errored e' \<and> sstate c' \<in> follows (sstate c) \<and> reports e' = reports e @ told_on_entry (sstate c'))"

definition receives_more :: "BSocksClient \<Rightarrow> socks_env \<Rightarrow> BSocksClient \<Rightarrow> socks_env \<Rightarrow> bool" where
  "receives_more c e c' e' =
     (\<not> errored e' \<and> sstate c' = sstate c \<and> reports e' = reports e \<and> recv_total c' = recv_total c \<and> recv_len c < recv_len c' \<and>
      recv_len c' < recv_total c \<and> receiving e \<noteq> None)"

lemma leads_runs:
  assumes "leads c S r" "run r e0 = Some (c', e')" "\<not> errored e" "errored e0 = errored e" "reports e0 = reports e"
    "S \<subseteq> follows (sstate c)" "\<forall>s\<in>S. told_on_entry s = []" "sstate c = sstate d"
  shows "fails d e c' e' \<or> moves d e c' e'"
proof -
  have x: "exec_calls (snd r) e0 = Some e'" "c' = fst r"
    using assms(2) by (auto simp: run_def)
  show ?thesis
    using assms(1,3-8) exec_calls_told [OF x(1)] by (auto simp: leads_def fails_def moves_def x(2))
qed

lemma full_reply_moves:
  assumes "\<not> recv_len c + n < recv_total c" "run (recv_handler_done w t c n) e0 = Some (c', e')"
    "\<not> errored e" "errored e0 = errored e" "reports e0 = reports e" "sstate c = sstate d"
  shows "fails d e c' e' \<or> moves d e c' e'"
proof -
  let ?c = "c\<lparr>recv_len := recv_len c + n\<rparr>"
  obtain r where r: "run r e0 = Some (c', e')" "r = (case sstate ?c of
           STATE_SENT_HELLO \<Rightarrow> received_hello w t ?c
         | STATE_SENT_REQUEST \<Rightarrow> received_reply_header ?c
         | STATE_SENT_PASSWORD \<Rightarrow> received_password_reply w ?c
         | STATE_RECEIVED_REPLY_HEADER \<Rightarrow> received_reply_rest ?c
         | _ \<Rightarrow> (?c, [AssertThat False]))"
    using assms(1,2) by (auto simp: recv_handler_done_def run_def Let_def case_prod_unfold split: if_splits)
  then have x: "exec_calls (snd r) e0 = Some e'" "c' = fst r"
    by (auto simp: run_def)
  note runs = leads_runs [where c = ?c and d = d and e = e, OF _ r(1) assms(3-5)]
  consider "sstate c = STATE_SENT_HELLO" | "sstate c = STATE_SENT_REQUEST" | "sstate c = STATE_SENT_PASSWORD" |
    "sstate c = STATE_RECEIVED_REPLY_HEADER"
    using r(2) exec_calls_told(2) [OF x(1)] by (cases "sstate c") auto
  then show ?thesis
  proof cases
    case 1
    then have "leads ?c {STATE_SENDING_REQUEST, STATE_SENDING_PASSWORD} r"
      using r(2) received_hello_leads [of ?c w t] by simp
    from runs [OF this] show ?thesis
      using 1 assms(6) by simp
  next
    case 2
    then have "leads ?c {STATE_RECEIVED_REPLY_HEADER} r"
      using r(2) received_reply_header_leads [of ?c] by simp
    from runs [OF this] show ?thesis
      using 2 assms(6) by simp
  next
    case 3
    then have "leads ?c {STATE_SENDING_REQUEST} r"
      using r(2) received_password_reply_leads [of ?c w] by simp
    from runs [OF this] show ?thesis
      using 3 assms(6) by simp
  next
    case 4
    then show ?thesis
      using received_reply_rest_leads [of ?c] exec_calls_told [OF x(1)] r(2) x(2) assms(3-6) by (auto simp: moves_def)
  qed
qed

lemma step_outcome:
  assumes "good c e" "enabled ev (c, e)" "in_talk ev" "fire w ev (c, e) = Some (c', e')"
  shows "\<not> errored e" "fails c e c' e' \<or> moves c e c' e' \<or> receives_more c e c' e'"
proof -
  show n: "\<not> errored e"
    using assms(2,3) by (cases ev) auto
  note t = not_error [OF assms(1) n]
  show "fails c e c' e' \<or> moves c e c' e' \<or> receives_more c e c' e'"
  proof (cases ev)
    case (Connector_Reports b)
    then have st: "sstate c = STATE_CONNECTING"
      using t(2) assms(2) by (auto simp: talk_ok_def waits_def sends_def receives_def split: socks_state.splits BAddr.splits)
    obtain r where r: "r = connector_handler w c b" "exec_calls (snd r) (e\<lparr>connecting := False\<rparr>) = Some e'" "c' = fst r"
      using assms(4) Connector_Reports by (auto simp: run_def)
    then show ?thesis
      using exec_calls_told [OF r(2)] st n
      by (auto simp: connector_handler_def report_error_def init_control_io_def Let_def fails_def moves_def split: if_splits)
  next
    case (Connection_Reports b)
    then obtain r where r: "r = connection_handler c b" "exec_calls (snd r) e = Some e'" "c' = fst r"
      using assms(4) by (auto simp: run_def)
    then show ?thesis
      using exec_calls_told [OF r(2)] n
      by (auto simp: connection_handler_def report_error_def Let_def fails_def split: if_splits)
  next
    case Job_Runs
    then have st: "sstate c = STATE_CONNECTED_HANDLER"
      using t(2) assms(2) by (auto simp: talk_ok_def waits_def sends_def receives_def split: socks_state.splits BAddr.splits)
    have "run (continue_job_handler w (hd (tables e)) c) (e\<lparr>job_set := False\<rparr>) = Some (c', e')"
      using assms(4) Job_Runs by simp
    then show ?thesis
      using leads_runs [OF continue_job_leads, of w _ c _ c' e' e c] n st by auto
  next
    case Sent
    then obtain n where s: "sending e = Some n" "run (send_handler_done w c)
        (e\<lparr>sending := None, wire_out := wire_out e @ take n (the_buffer c)\<rparr>) = Some (c', e')"
      using assms(2,4) by auto
    let ?e = "e\<lparr>sending := None, wire_out := wire_out e @ take n (the_buffer c)\<rparr>"
    have cases: "sstate c = STATE_SENDING_HELLO \<or> sstate c = STATE_SENDING_PASSWORD \<or> sstate c = STATE_SENDING_REQUEST"
      using t(2) s(1) by (auto simp: talk_ok_def waits_def sends_def receives_def split: socks_state.splits BAddr.splits)
    then obtain sz k st where k: "send_handler_done w c = (case receive_reply w c sz k st of (c1, cs) \<Rightarrow> (c1, AssertThat (buffer c \<noteq> None) # cs))"
      "follows (sstate c) = {st}" "told_on_entry st = []"
      by (auto simp: send_handler_done_def)
    then have "leads c {st} (send_handler_done w c)"
      using receive_reply_leads [of c st w sz k] cases t(2)
      by (auto simp: talk_ok_def sends_def)
    then show ?thesis
      using leads_runs [of c "{st}" "send_handler_done w c" ?e c' e' e c] s(2) k(2,3) n by auto
  next
    case (Received bs)
    then obtain off k where r: "receiving e = Some (off, k)" "bs \<noteq> []" "run (recv_handler_done w (hd (tables e)) (put off bs c) (length bs))
        (e\<lparr>receiving := None, wire_in := wire_in e @ bs\<rparr>) = Some (c', e')"
      using assms(2,4) by (auto split: option.splits)
    let ?e = "e\<lparr>receiving := None, wire_in := wire_in e @ bs\<rparr>"
    show ?thesis
    proof (cases "recv_len c + length bs < recv_total c")
      case True
      have x: "exec_calls (snd (recv_handler_done w (hd (tables e)) (put off bs c) (length bs))) ?e = Some e'"
        "c' = fst (recv_handler_done w (hd (tables e)) (put off bs c) (length bs))"
        using r(3) by (auto simp: run_def)
      then have "receives_more c e c' e'"
        using exec_calls_told [OF x(1)] recv_handler_leads [of "put off bs c" "length bs" w "hd (tables e)"] True r(1,2) n
        by (simp add: receives_more_def)
      then show ?thesis by blast
    next
      case False
      then have "fails c e c' e' \<or> moves c e c' e'"
        using full_reply_moves [of "put off bs c" "length bs" w "hd (tables e)" ?e c' e' e c] r(3) n by simp
      then show ?thesis by blast
    qed
  qed (use assms(3) in simp_all)
qed


section \<open>How much is left\<close>

fun stage :: "socks_state \<Rightarrow> nat" where
  "stage STATE_CONNECTING = 33"
| "stage STATE_CONNECTED_HANDLER = 32"
| "stage STATE_SENDING_HELLO = 31"
| "stage STATE_SENT_HELLO = 28"
| "stage STATE_SENDING_PASSWORD = 28"
| "stage STATE_SENT_PASSWORD = 25"
| "stage STATE_SENDING_REQUEST = 25"
| "stage STATE_SENT_REQUEST = 20"
| "stage STATE_RECEIVED_REPLY_HEADER = 2"
| "stage STATE_UP = 2"

definition to_receive :: "BSocksClient \<Rightarrow> nat" where
  "to_receive c =
     (if sstate c \<in> {STATE_SENT_HELLO, STATE_SENT_PASSWORD, STATE_SENT_REQUEST, STATE_RECEIVED_REPLY_HEADER}
      then recv_total c - recv_len c else 0)"

definition work_left :: "socks_system \<Rightarrow> nat" where
  "work_left s = (if gone (snd s) then 0 else if errored (snd s) then 1 else stage (sstate (fst s)) + to_receive (fst s))"

lemma to_receive_bounds:
  assumes "talk_ok c e"
  shows "to_receive c \<le> (case sstate c of STATE_SENT_HELLO \<Rightarrow> 2 | STATE_SENT_PASSWORD \<Rightarrow> 2 | STATE_SENT_REQUEST \<Rightarrow> 4
      | STATE_RECEIVED_REPLY_HEADER \<Rightarrow> 18 | _ \<Rightarrow> 0)"
    "sstate c \<in> {STATE_SENT_HELLO, STATE_SENT_PASSWORD, STATE_SENT_REQUEST, STATE_RECEIVED_REPLY_HEADER} \<Longrightarrow> 0 < to_receive c"
  using assms by (auto simp: to_receive_def talk_ok_def receives_def split: socks_state.splits BAddr.splits)

lemma moves_less:
  assumes "talk_ok c e" "talk_ok c' e'" "sstate c' \<in> follows (sstate c)"
  shows "stage (sstate c') + to_receive c' < stage (sstate c) + to_receive c"
  using assms(3) to_receive_bounds [OF assms(1)] to_receive_bounds(1) [OF assms(2)] by (cases "sstate c") auto

lemma not_gone: "enabled ev (c, e) \<Longrightarrow> in_talk ev \<or> ev = User_Frees \<Longrightarrow> \<not> gone e"
  by (cases ev) (auto simp: gone_def split: option.splits)

lemma work_decreases:
  assumes "ok (c, e)" "enabled ev (c, e)" "in_talk ev \<or> ev = User_Frees" "fire w ev (c, e) = Some (c', e')"
  shows "work_left (c', e') < work_left (c, e)"
proof -
  have ng: "\<not> gone e"
    using assms(2,3) by (rule not_gone)
  then have g: "good c e"
    using assms(1) by (simp add: ok_def)
  have pos: "0 < stage st" "1 < stage st" for st
    by (cases st; simp)+
  show ?thesis
  proof (cases "ev = User_Frees")
    case True
    then show ?thesis
      using socks_fire_ok [OF assms(1,2), of w] assms(4) ng pos by (auto simp: work_left_def)
  next
    case False
    then have t: "in_talk ev"
      using assms(3) by blast
    note n = step_outcome(1) [OF g assms(2) t assms(4)]
    have g': "good c' e'"
      using socks_fire_ok [OF assms(1,2), of w] assms(4) ng False by auto
    then have ng': "\<not> gone e'"
      by (auto simp: good_def resources_ok_def gone_def)
    note ta = not_error(2) [OF g n]
    from step_outcome(2) [OF g assms(2) t assms(4)] show ?thesis
    proof (elim disjE)
      assume "fails c e c' e'"
      then show ?thesis
        using pos(2) [of "sstate c"] ng ng' n by (simp add: work_left_def fails_def)
    next
      assume m: "moves c e c' e'"
      then have "talk_ok c' e'"
        using not_error(2) [OF g'] by (simp add: moves_def)
      then show ?thesis
        using moves_less [OF ta] m ng ng' n by (simp add: work_left_def moves_def)
    next
      assume m: "receives_more c e c' e'"
      then have "sstate c \<in> {STATE_SENT_HELLO, STATE_SENT_PASSWORD, STATE_SENT_REQUEST, STATE_RECEIVED_REPLY_HEADER}"
        using ta by (auto simp: receives_more_def talk_ok_def waits_def sends_def split: socks_state.splits)
      then show ?thesis
        using m ng ng' n by (auto simp: work_left_def receives_more_def to_receive_def)
    qed
  qed
qed

lemma quiet_keeps:
  assumes "ok (c, e)" "enabled ev (c, e)" "\<not> (in_talk ev \<or> ev = User_Frees)" "fire w ev (c, e) = Some (c', e')"
  shows "work_left (c', e') = work_left (c, e)"
proof (cases ev)
  case (User_Sets_Dest a)
  then have "c' = c\<lparr>dest_addr := a\<rparr>" "e' = e"
    using assms(4) by (auto simp: run_def BSocksClient_SetDestAddr_def split: if_splits)
  then show ?thesis
    by (simp add: work_left_def to_receive_def)
next
  case (Table_Changes t)
  then have "c' = c" "e' = e\<lparr>tables := t # tables e\<rparr>"
    using assms(4) by auto
  then show ?thesis
    by (simp add: work_left_def to_receive_def gone_def)
qed (use assms(3) in simp_all)

fun reports_in :: "socks_state \<Rightarrow> socks_event list" where
  "reports_in STATE_CONNECTING = []"
| "reports_in STATE_UP = [EVENT_CONNECTED, EVENT_UP]"
| "reports_in _ = [EVENT_CONNECTED]"

definition reports_ok :: "socks_system \<Rightarrow> bool" where
  "reports_ok s =
     (if errored (snd s)
      then reports (snd s) = reports_in (sstate (fst s)) @ [EVENT_ERROR] \<or>
        sstate (fst s) = STATE_UP \<and> reports (snd s) = reports_in STATE_UP @ [EVENT_ERROR_CLOSED]
      else reports (snd s) = reports_in (sstate (fst s)))"

lemma reports_follow: "t \<in> follows st \<Longrightarrow> reports_in t = reports_in st @ told_on_entry t"
  by (cases st) auto

lemma reports_step:
  assumes "ok (c, e)" "enabled ev (c, e)" "fire w ev (c, e) = Some (c', e')" "reports_ok (c, e)"
  shows "reports_ok (c', e')"
proof (cases "in_talk ev")
  case True
  then have g: "good c e"
    using not_gone [OF assms(2)] assms(1) by (simp add: ok_def)
  show ?thesis
    using step_outcome [OF g assms(2) True assms(3)] assms(4)
    by (auto simp: reports_ok_def fails_def moves_def receives_more_def reports_follow)
next
  case False
  have "reports e' = reports e \<and> errored e' = errored e \<and> sstate c' = sstate c"
  proof (cases ev)
    case User_Frees
    then have "run (BSocksClient_Free c) e = Some (c', e')"
      using assms(3) by simp
    moreover have "fst (BSocksClient_Free c) = c"
      by (simp add: BSocksClient_Free_def)
    ultimately have x: "exec_calls (snd (BSocksClient_Free c)) e = Some e'" "c' = c"
      unfolding run_def by auto
    moreover have "told (snd (BSocksClient_Free c)) = []"
      by (simp add: BSocksClient_Free_def free_up_io_def free_control_io_def)
    ultimately show ?thesis
      using exec_calls_told [OF x(1)] by simp
  qed (use False assms(3) in \<open>auto simp: run_def BSocksClient_SetDestAddr_def split: if_splits\<close>)
  then show ?thesis
    using assms(4) by (auto simp: reports_ok_def split: if_splits)
qed


section \<open>Properties\<close>

fun run_events :: "(socks_world \<times> event) list \<Rightarrow> socks_system \<Rightarrow> socks_system option" where
  "run_events [] s = Some s"
| "run_events ((w, ev) # evs) s =
     (if enabled ev s then (case fire w ev s of None \<Rightarrow> None | Some s' \<Rightarrow> run_events evs s') else None)"

lemma run_events_negotiated: "negotiated s \<Longrightarrow> run_events evs s = Some s' \<Longrightarrow> negotiated s'"
proof (induction evs arbitrary: s)
  case (Cons x evs)
  obtain w ev c e where x: "x = (w, ev)" "s = (c, e)"
    by (cases x; cases s)
  then show ?case
    using Cons negotiated.event [of c e ev w] by (auto split: if_splits option.splits)
qed simp

text \<open>A conversation with a name and a password, whose last answer comes in two parts.\<close>

definition sample_world :: socks_world where
  "sample_world = \<lparr>alloc_ok = True, junk = \<lambda>_. 0, connection_ok = True\<rparr>"

definition sample_table :: "BSocksClient_auth_info list" where
  "sample_table = [BSocksClient_auth_password [97] [98]]"

definition sample_start :: socks_system where
  "sample_start =
     (\<lparr>num_auth_info = 1, dest_addr = BAddr_IPv4 7 8, udp = False, bind_addr = BAddr_None, sstate = STATE_CONNECTING,
        buffer = None, recv_dest = 0, recv_len = 0, recv_total = 0\<rparr>,
      (blank_env sample_table)\<lparr>job_exists := True, connector := True, connecting := True\<rparr>)"

lemma sample_init:
  "BSocksClient_Init (fst sample_start) (BAddr_IPv4 1 2) (length sample_table) (BAddr_IPv4 7 8) False True =
    ((fst sample_start, [AssertThat True, JobInit, ConnectorInit (BAddr_IPv4 1 2)]), True)"
  "table_ok sample_table" "address_ok (BAddr_IPv4 7 8)" "\<not> BAddr_IsInvalid (BAddr_IPv4 1 2)"
  "run (fst sample_start, [AssertThat True, JobInit, ConnectorInit (BAddr_IPv4 1 2)]) (blank_env sample_table) = Some sample_start"
  by (simp_all add: BSocksClient_Init_def sample_table_def sample_start_def table_ok_def BSocksClient_auth_password_def address_ok_def
    BAddr_IsInvalid_def run_def blank_env_def)

lemma sample_negotiated: "negotiated sample_start"
  using sample_init by (rule negotiated.started)

definition sample_events :: "event list" where
  "sample_events = [Connector_Reports False, Job_Runs, Sent, Received [5], Received [2], Sent, Received [1, 0], Sent,
     Received [5, 0, 0, 1], Received [9, 9], Received [9, 9, 1, 1]]"

definition after :: "nat \<Rightarrow> socks_system option" where
  "after n = run_events (map (\<lambda>ev. (sample_world, ev)) (take n sample_events)) sample_start"

lemma after_negotiated: "after n = Some s \<Longrightarrow> negotiated s"
  unfolding after_def by (rule run_events_negotiated [OF sample_negotiated])

lemma sample_all: "map_option (\<lambda>(c, e). (reports e, job_exists e, bind_addr c, errored e)) (after 11) =
  Some ([EVENT_CONNECTED, EVENT_UP], True, BAddr_IPv4 0x09090909 0x0101, False)"
  by code_simp

lemma sample_part: "map_option (\<lambda>(c, e). (reports e, job_exists e, errored e, receiving e)) (after 9) =
  Some ([EVENT_CONNECTED], True, False, Some (4, 6))"
  by code_simp


lemma after_11: "\<exists>c e. after 11 = Some (c, e) \<and> negotiated (c, e) \<and> reports e = [EVENT_CONNECTED, EVENT_UP] \<and> job_exists e \<and>
    \<not> errored e \<and> bind_addr c = BAddr_IPv4 0x09090909 0x0101"
  using sample_all after_negotiated by (cases "after 11") auto

lemma after_9: "\<exists>c e. after 9 = Some (c, e) \<and> negotiated (c, e) \<and> reports e = [EVENT_CONNECTED] \<and> job_exists e \<and> \<not> errored e \<and>
    receiving e = Some (4, 6)"
  using sample_part after_negotiated by (cases "after 9") auto

text \<open>C4: Whatever the connector, the connection, the server, the allocator and the user do, in every reachable state
  each event that can happen is handled: no assertion fails, no access leaves the buffer, the buffer is not touched while it
  is being sent or received into, nothing is initialised twice or used after it was freed, and nothing follows a report to
  the user, who may have freed the client in it.\<close>

theorem socks_client_never_fails:
  assumes "negotiated (c, e)" "enabled ev (c, e)"
  shows "\<exists>s. fire w ev (c, e) = Some s \<and> negotiated s"
  using socks_fire_ok [OF negotiated_ok [OF assms(1)] assms(2), of w] negotiated.event [OF assms] by blast

theorem socks_client_never_fails_witness:
  "\<exists>c e s. reports e = [EVENT_CONNECTED] \<and> fire sample_world (Received [9, 9]) (c, e) = Some s \<and> negotiated s"
proof -
  obtain c e where s: "negotiated (c, e)" "reports e = [EVENT_CONNECTED]" "\<not> errored e" "receiving e = Some (4, 6)"
    using after_9 by blast
  then have "enabled (Received [9, 9]) (c, e)" by simp
  from socks_client_never_fails [OF s(1) this] s(2) show ?thesis by blast
qed

text \<open>C5: When the user has been told that the client is up, the SOCKS dialogue did take place: the bytes sent are the
  hello with all the methods of the table, the name and password if the server asked for them, and the
  request for the destination, and the bytes received are an accepted method, a successful
  authentication and a positive reply with the address that \<open>BSocksClient_GetBindAddr\<close> returns.\<close>

theorem socks_up_means_granted:
  assumes "negotiated (c, e)" "job_exists e" "EVENT_UP \<in> set (reports e)"
  shows "granted (tables e) (udp c) (dest_addr c) (fst (BSocksClient_GetBindAddr c)) (wire_out e) (wire_in e) \<and>
    snd (BSocksClient_GetBindAddr c) = [AssertThat True]"
  using negotiated_ok [OF assms(1)] assms(2,3) by (auto simp: ok_def good_def gone_def BSocksClient_GetBindAddr_def)

theorem socks_up_means_granted_witness:
  "\<exists>c e. negotiated (c, e) \<and> granted (tables e) (udp c) (dest_addr c) (BAddr_IPv4 0x09090909 0x0101) (wire_out e) (wire_in e)"
proof -
  obtain c e where s: "negotiated (c, e)" "job_exists e" "reports e = [EVENT_CONNECTED, EVENT_UP]"
    "bind_addr c = BAddr_IPv4 0x09090909 0x0101"
    using after_11 by blast
  then show ?thesis
    using socks_up_means_granted [OF s(1,2)] by (auto simp: BSocksClient_GetBindAddr_def)
qed

text \<open>C8: Freeing is possible at any time, in the middle of a transfer as well, and leaves nothing behind: no job, connector,
  connection, sender, buffer or pending operation.\<close>

theorem socks_client_releases_everything:
  assumes "negotiated (c, e)" "job_exists e"
  shows "\<exists>e'. run (BSocksClient_Free c) e = Some (c, e') \<and> gone e'"
  using socks_fire_ok [OF negotiated_ok [OF assms(1)], of User_Frees w] assms(2) by auto

theorem socks_client_releases_everything_witness:
  "\<exists>c e e'. negotiated (c, e) \<and> receiving e = Some (4, 6) \<and> run (BSocksClient_Free c) e = Some (c, e') \<and> gone e'"
proof -
  obtain c e where s: "negotiated (c, e)" "job_exists e" "receiving e = Some (4, 6)"
    using after_9 by blast
  then show ?thesis
    using socks_client_releases_everything [OF s(1,2)] by blast
qed

text \<open>Until it is up, has failed or is freed, the client waits for exactly one thing: the connector, its job, the end of a
  transmission or received data.  So it never hangs by itself.\<close>

theorem socks_client_waits_for_one_thing:
  assumes "negotiated (c, e)" "job_exists e" "\<not> errored e" "EVENT_UP \<notin> set (reports e)"
  shows "length (filter id [connecting e, job_set e, sending e \<noteq> None, receiving e \<noteq> None]) = 1"
proof -
  have g: "good c e"
    using negotiated_ok [OF assms(1)] assms(2) by (simp add: ok_def gone_def)
  then have "sstate c \<noteq> STATE_UP"
    using assms(4) by (simp add: good_def)
  then show ?thesis
    using not_error(2) [OF g assms(3)]
    by (cases "sstate c") (auto simp: talk_ok_def waits_def sends_def receives_def split: BAddr.splits)
qed

theorem socks_client_waits_for_one_thing_witness:
  "\<exists>c e. negotiated (c, e) \<and> receiving e = Some (4, 6) \<and>
    length (filter id [connecting e, job_set e, sending e \<noteq> None, receiving e \<noteq> None]) = 1"
proof -
  obtain c e where s: "negotiated (c, e)" "job_exists e" "\<not> errored e" "reports e = [EVENT_CONNECTED]" "receiving e = Some (4, 6)"
    using after_9 by blast
  then have "EVENT_UP \<notin> set (reports e)" by simp
  from socks_client_waits_for_one_thing [OF s(1-3) this] s(1,5) show ?thesis by blast
qed

text \<open>C6: The user hears of the connection first, then at most once that the client is up, and a single error ends the
  reports; that the server closed is only reported after the client was up.\<close>

theorem socks_reports_in_order:
  assumes "negotiated (c, e)"
  shows "reports e \<in> {[], [EVENT_ERROR], [EVENT_CONNECTED], [EVENT_CONNECTED, EVENT_ERROR], [EVENT_CONNECTED, EVENT_UP],
      [EVENT_CONNECTED, EVENT_UP, EVENT_ERROR], [EVENT_CONNECTED, EVENT_UP, EVENT_ERROR_CLOSED]}"
proof -
  have "reports_ok s" if "negotiated s" for s
    using that
  proof (induction rule: negotiated.induct)
    case (started m srv t dest u r s)
    then show ?case
      by (auto simp: reports_ok_def BSocksClient_Init_def run_def blank_env_def)
  next
    case (event c e ev w s)
    then show ?case
      using reports_step [OF negotiated_ok [OF event(1)], of ev w "fst s" "snd s"] by simp
  qed
  from this [OF assms] show ?thesis
    by (cases "sstate c") (auto simp: reports_ok_def split: if_splits)
qed

theorem socks_reports_in_order_witness:
  "\<exists>c e. negotiated (c, e) \<and> EVENT_UP \<in> set (reports e) \<and>
    reports e \<in> {[], [EVENT_ERROR], [EVENT_CONNECTED], [EVENT_CONNECTED, EVENT_ERROR], [EVENT_CONNECTED, EVENT_UP],
      [EVENT_CONNECTED, EVENT_UP, EVENT_ERROR], [EVENT_CONNECTED, EVENT_UP, EVENT_ERROR_CLOSED]}"
proof -
  obtain c e where s: "negotiated (c, e)" "reports e = [EVENT_CONNECTED, EVENT_UP]"
    using after_11 by blast
  then show ?thesis
    using socks_reports_in_order [OF s(1)] by (intro exI [of _ c] exI [of _ e]) simp
qed

text \<open>C7: A negotiation ends.  From the start at most 33 events can happen, of which each byte received counts at most once, up
  to and including the last report or the freeing, however the server splits its answers; only the user's changes of the destination and of the
  table are not counted.\<close>

theorem socks_negotiation_ends:
  assumes "BSocksClient_Init m srv (length t) dest u True = (r, True)" "table_ok t" "address_ok dest" "\<not> BAddr_IsInvalid srv"
    "run r (blank_env t) = Some s" "run_events evs s = Some s'"
  shows "length (filter (\<lambda>(w, ev). in_talk ev \<or> ev = User_Frees) evs) \<le> 33"
proof -
  have dec: "length (filter (\<lambda>(w, ev). in_talk ev \<or> ev = User_Frees) evs) + work_left s' \<le> work_left s"
    if "negotiated s" "run_events evs s = Some s'" for s s' evs
    using that
  proof (induction evs arbitrary: s)
    case (Cons x evs)
    obtain w ev c e where x: "x = (w, ev)" "s = (c, e)"
      by (cases x; cases s)
    with Cons(3) obtain c1 e1 where f: "enabled ev (c, e)" "fire w ev (c, e) = Some (c1, e1)" "run_events evs (c1, e1) = Some s'"
      by (auto split: if_splits option.splits)
    have n: "negotiated (c1, e1)" and o: "ok (c, e)"
      using Cons(2) f x negotiated.event negotiated_ok by blast+
    note ih = Cons.IH [OF n f(3)]
    show ?case
    proof (cases "in_talk ev \<or> ev = User_Frees")
      case True
      then show ?thesis
        using ih work_decreases [OF o f(1) True f(2)] x by auto
    next
      case False
      then have "work_left (c1, e1) \<le> work_left (c, e)"
        using quiet_keeps [OF o f(1) _ f(2)] by simp
      then show ?thesis
        using ih x False by auto
    qed
  qed simp
  have "negotiated s"
    using assms(1-5) by (rule negotiated.started)
  moreover have "work_left s \<le> 33"
    using assms(1,5) by (auto simp: work_left_def to_receive_def BSocksClient_Init_def run_def blank_env_def gone_def)
  ultimately show ?thesis
    using dec [OF _ assms(6)] by fastforce
qed


text \<open>The bound is reached: a server that sends every answer byte by byte, except the header of the last one, and a user who frees the
  client after the report.\<close>

definition slow_events :: "event list" where
  "slow_events = [Connector_Reports False, Job_Runs, Sent, Received [5], Received [2], Sent, Received [1], Received [0], Sent,
     Received [5], Received [0], Received [0], Received [4]] @ replicate 18 (Received [7]) @ [Connection_Reports True, User_Frees]"

lemma slow_run: "run_events (map (\<lambda>ev. (sample_world, ev)) slow_events) sample_start \<noteq> None"
  by code_simp

theorem socks_negotiation_ends_witness:
  "\<exists>s'. run_events (map (\<lambda>ev. (sample_world, ev)) slow_events) sample_start = Some s' \<and>
     length (filter (\<lambda>(w, ev). in_talk ev \<or> ev = User_Frees) (map (\<lambda>ev. (sample_world, ev)) slow_events)) = 33 \<and>
     run_events (map (\<lambda>ev. (sample_world, ev)) (slow_events @ [User_Frees])) sample_start = None"
proof -
  have "run_events (map (\<lambda>ev. (sample_world, ev)) (slow_events @ [User_Frees])) sample_start = None"
  proof (rule ccontr)
    assume "run_events (map (\<lambda>ev. (sample_world, ev)) (slow_events @ [User_Frees])) sample_start \<noteq> None"
    then obtain s' where "run_events (map (\<lambda>ev. (sample_world, ev)) (slow_events @ [User_Frees])) sample_start = Some s'"
      by blast
    from socks_negotiation_ends [OF sample_init this] show False
      by (simp add: slow_events_def)
  qed
  then show ?thesis
    using slow_run by (auto simp: slow_events_def)
qed

text \<open>C9: When the server has answered the hello, by two bytes however they are split, the client looks the method up in the table of authentication
  methods as it is then (\<open>hd (tables e)\<close>), not as it was when the client was made and the hello was written: it sends the request if the
  chosen method is to use no authentication, and otherwise the name and the password that the first entry with that method has
  at that moment, provided that both have 1 to 255 bytes.  A wrong version, a method that was not offered, a destination that is no internet address or
  a lack of memory is reported as an error, and nothing is sent.  As \<open>listener_accept_func\<close> of \<open>tun2socks.c\<close> rewrites the name in the table for
  every connection, a client can so authenticate with the name of a later one.\<close>

theorem socks_answers_from_the_present_table:
  assumes "negotiated (c, e)" "sstate c = STATE_SENT_HELLO" "enabled (Received bs) (c, e)" "length (wire_in e @ bs) = 2"
  shows "\<exists>c' e'. fire w (Received bs) (c, e) = Some (c', e') \<and> tables e' = tables e \<and> wire_in e' = wire_in e @ bs \<and>
    (case (if alloc_ok w then next_message (hd (tables e)) (udp c) (dest_addr c) (wire_in e @ bs) else None) of
       Some msg \<Rightarrow> sstate c' = next_state (wire_in e @ bs) \<and> the_buffer c' = msg \<and> sending e' = Some (length msg) \<and> reports e' = reports e
     | None \<Rightarrow> sstate c' = sstate c \<and> sending e' = None \<and> receiving e' = None \<and> reports e' = reports e @ [EVENT_ERROR])"
proof -
  let ?t = "hd (tables e)"
  have n: "\<not> errored e" "receiving e \<noteq> None"
    using assms(3) by (auto split: option.splits)
  then have g: "good c e"
    using negotiated_ok [OF assms(1)] by (auto simp: ok_def gone_def)
  note t = not_error [OF g n(1)]
  have r: "receives 2 0 2 c e" and w: "wire_in e = got c"
    using t(2) assms(2) by (simp_all add: talk_ok_def)
  then have l: "length (wire_in e) = recv_len c" "receiving e = Some (recv_len c, 2 - recv_len c)" "length (the_buffer c) = 2"
    by (auto simp: receives_def waits_def got_def)
  then have full: "recv_len c + length bs = 2"
    using assms(4) by simp
  let ?c = "(put (recv_len c) bs c)\<lparr>recv_len := 2\<rparr>" and ?e = "e\<lparr>receiving := None, wire_in := wire_in e @ bs\<rparr>"
  have b: "the_buffer ?c = wire_in e @ bs"
    using r w full l(3) by (simp add: receives_def got_def)
  have x: "recv_handler_done w ?t (put (recv_len c) bs c) (length bs) =
      (case received_hello w ?t ?c of (c2, cs) \<Rightarrow> (c2, AssertThat True # cs))"
  proof -
    have "length bs \<le> 2 - recv_len c"
      using full by simp
    then show ?thesis
      using r full assms(2) by (simp add: recv_handler_done_def Let_def receives_def)
  qed
  have s: "free_to_change ?e" "sender ?e" "\<not> errored ?e" "block ?e = Some 2" "address_ok (dest_addr ?c)" "length ?t = num_auth_info ?c"
    "table_ok ?t"
    using t(1) r n(1) assms(2) l(3)
    by (auto simp: calm_def fixed_ok_def resources_ok_def receives_def waits_def free_to_change_def the_buffer_def)
  have "returns (says w (next_state (wire_in e @ bs)) (next_message ?t (udp c) (dest_addr c) (wire_in e @ bs)) ?c ?e) (received_hello w ?t ?c) ?e"
    using received_hello_says [OF s, of w] unfolding b by simp
  then obtain c' e' where f: "fire w (Received bs) (c, e) = Some (c', e')"
    "says w (next_state (wire_in e @ bs)) (next_message ?t (udp c) (dest_addr c) (wire_in e @ bs)) ?c ?e c' e'"
    using l(2) by (cases "received_hello w ?t ?c") (auto simp: x returns_def run_def)
  have "sending e = None"
    using r by (simp add: receives_def waits_def)
  with f show ?thesis
    by (intro exI [of _ c'] exI [of _ e'])
      (cases "if alloc_ok w then next_message ?t (udp c) (dest_addr c) (wire_in e @ bs) else None"; simp add: says_def del: fire.simps)
qed

text \<open>A client that was made with the name \<open>a\<close>: the table gets the name \<open>c\<close> before the server answers.\<close>

definition late_events :: "event list" where
  "late_events = [Connector_Reports False, Job_Runs, Sent, Table_Changes [BSocksClient_auth_password [99] [98]], Received [5]]"

lemma late_run:
  "map_option (\<lambda>(c, e). (sstate c, receiving e, errored e, wire_in e, wire_out e, tables e, reports e, udp c, dest_addr c))
     (run_events (map (\<lambda>ev. (sample_world, ev)) late_events) sample_start) =
   Some (STATE_SENT_HELLO, Some (1, 1), False, [5], hello_message sample_table,
     [[BSocksClient_auth_password [99] [98]], sample_table], [EVENT_CONNECTED], False, BAddr_IPv4 7 8)"
  by code_simp

theorem socks_answers_from_the_present_table_witness:
  "\<exists>c e c' e'. negotiated (c, e) \<and> wire_out e = hello_message sample_table \<and> fire sample_world (Received [2]) (c, e) = Some (c', e') \<and>
     the_buffer c' = password_message (BSocksClient_auth_password [99] [98]) \<and> sending e' = Some (length (the_buffer c')) \<and>
     BSocksClient_auth_password [99] [98] \<notin> set sample_table"
proof -
  obtain c e where s: "run_events (map (\<lambda>ev. (sample_world, ev)) late_events) sample_start = Some (c, e)"
    "sstate c = STATE_SENT_HELLO" "receiving e = Some (1, 1)" "\<not> errored e" "wire_in e = [5]" "wire_out e = hello_message sample_table"
    "hd (tables e) = [BSocksClient_auth_password [99] [98]]"
    using late_run by auto
  have n: "negotiated (c, e)"
    using sample_negotiated s(1) by (rule run_events_negotiated)
  have "enabled (Received [2]) (c, e)" "length (wire_in e @ [2]) = 2"
    using s by simp_all
  note f = socks_answers_from_the_present_table [OF n s(2) this, of sample_world]
  have m: "next_message (hd (tables e)) (udp c) (dest_addr c) (wire_in e @ [2]) = Some (password_message (BSocksClient_auth_password [99] [98]))"
    by (simp add: s next_message_def BSocksClient_auth_password_def socks_consts)
  have new: "BSocksClient_auth_password [99] [98] \<notin> set sample_table" "alloc_ok sample_world"
    by (simp_all add: sample_table_def sample_world_def BSocksClient_auth_password_def)
  obtain c' e' where o: "fire sample_world (Received [2]) (c, e) = Some (c', e')"
    "the_buffer c' = password_message (BSocksClient_auth_password [99] [98])" "sending e' = Some (length (the_buffer c'))"
    using f unfolding m by (auto simp: new simp del: fire.simps)
  then show ?thesis
    using n s(6) new(1) by blast
qed

end
