(* ===== verification/Udpgw_Client.thy ===== *)
theory Udpgw_Client
  imports Packet_Proto Socks_Client
begin

text \<open>
  The client of the UDP gateway, \<open>udpgw_client/UdpGwClient.c\<close>, with the messages of \<open>protocol/udpgw_proto.h\<close>, and the
  object that keeps it connected through a SOCKS server, \<open>tun2socks/SocksUdpGwClient.c\<close>.  The
  connections are objects on a heap; the two search trees and the list of recently used connections
  hold pointers to them.  A new connection keeps the pointer to the data of its first packet, which its job reads later;
  the memory it points to is an argument of that handler.  A tree is the collection of its nodes, looked up with its comparator; that no
  key changes while its node is in the tree is an assertion of the operation that changes it.
\<close>

section \<open>Messages\<close>

definition UDPGW_CLIENT_FLAG_KEEPALIVE :: byte where "UDPGW_CLIENT_FLAG_KEEPALIVE = 1"
definition UDPGW_CLIENT_FLAG_REBIND :: byte where "UDPGW_CLIENT_FLAG_REBIND = 2"
definition UDPGW_CLIENT_FLAG_DNS :: byte where "UDPGW_CLIENT_FLAG_DNS = 4"
definition UDPGW_CLIENT_FLAG_IPV6 :: byte where "UDPGW_CLIENT_FLAG_IPV6 = 8"

lemmas udpgw_flags = UDPGW_CLIENT_FLAG_KEEPALIVE_def UDPGW_CLIENT_FLAG_REBIND_def UDPGW_CLIENT_FLAG_DNS_def
  UDPGW_CLIENT_FLAG_IPV6_def

definition udpgw_header :: "byte \<Rightarrow> 16 word \<Rightarrow> bytes" where
  "udpgw_header flags conid = flags # le16_bytes conid"

definition udpgw_addr_ipv4 :: "32 word \<Rightarrow> 16 word \<Rightarrow> bytes" where
  "udpgw_addr_ipv4 addr_ip addr_port = le32_bytes addr_ip @ le16_bytes addr_port"

definition udpgw_addr_ipv6 :: "bytes \<Rightarrow> 16 word \<Rightarrow> bytes" where
  "udpgw_addr_ipv6 addr_ip addr_port = addr_ip @ le16_bytes addr_port"

definition udpgw_compute_mtu :: "int \<Rightarrow> int" where
  "udpgw_compute_mtu dgram_mtu =
     (let bs = bsize_add (bsize_fromsize 3)
                 (bsize_add (bsize_max (bsize_fromsize 6) (bsize_fromsize 18)) (bsize_fromint dgram_mtu))
      in case bsize_toint bs of None \<Rightarrow> -1 | Some s \<Rightarrow> s)"

text \<open>The packet that keeps the connection to the server alive, with its length in front.\<close>

definition UdpGwClient__keepalive_packet :: bytes where
  "UdpGwClient__keepalive_packet = le16_bytes 3 @ udpgw_header UDPGW_CLIENT_FLAG_KEEPALIVE 0"

section \<open>State\<close>

type_synonym con_ptr = nat

text \<open>Where the data of a packet is.\<close>

type_synonym data_ptr = nat

record UdpGwClient_conaddr =
  local_addr :: BAddr
  remote_addr :: BAddr

record UdpGwClient_connection =
  conaddr :: UdpGwClient_conaddr
  first_flags :: byte
  first_data :: data_ptr
  first_data_len :: int
  conid :: "16 word"

record UdpGwClient =
  udp_mtu :: int
  max_connections :: int
  send_buffer_size :: int
  udpgw_mtu :: int
  pp_mtu :: int
  connections_tree_by_conaddr :: "con_ptr list"
  connections_tree_by_conid :: "con_ptr list"
  connections_list :: "con_ptr list"
  num_connections :: int
  next_conid :: int
  keepalive_sending :: bool
  have_server :: bool
  connection :: "con_ptr \<Rightarrow> UdpGwClient_connection"

datatype unit_part = Connector | Monitor | Send_Queue | Keepalive_Flow | Recv_If | Decoder | Stream_Sender

datatype part = Struct | FirstJob | Queue_Flow | Proto_Flow

datatype gw_call =
    Obtain part con_ptr
  | Release part con_ptr
  | SetFirstJob con_ptr
  | ProtoFlowInit con_ptr int int int bool
  | AssertFlowFree con_ptr
  | ReadData data_ptr int
  | StartPacket con_ptr bool
  | EndPacket con_ptr bytes
  | RecvDone
  | HandlerReceived BAddr BAddr bytes
  | HandlerServerError
  | KeepaliveSend bytes
  | PrepareFree
  | Make unit_part int
  | CannotMake unit_part
  | Unmake unit_part
  | ConnectOutput
  | DisconnectOutput
  | AssertThat bool

type_synonym gw_run = "UdpGwClient \<times> gw_call list"

text \<open>Answers of the environment: where the submitted data is, the address of a new connection, whether its buffer could be made, and
  whether a connection's buffer has room for another packet.\<close>

record gw_world =
  data_at :: data_ptr
  new_connection :: "con_ptr option"
  flow_ok :: bool
  has_room :: bool

section \<open>Lookup\<close>

definition uint16_comparator :: "16 word \<Rightarrow> 16 word \<Rightarrow> int" where
  "uint16_comparator v1 v2 = B_COMPARE (uint v1) (uint v2)"

definition conaddr_comparator :: "UdpGwClient_conaddr \<Rightarrow> UdpGwClient_conaddr \<Rightarrow> int" where
  "conaddr_comparator v1 v2 =
     (let r = BAddr_CompareOrder (remote_addr v1) (remote_addr v2)
      in if r \<noteq> 0 then r else BAddr_CompareOrder (local_addr v1) (local_addr v2))"

definition find_connection_by_conaddr :: "UdpGwClient \<Rightarrow> UdpGwClient_conaddr \<Rightarrow> con_ptr option" where
  "find_connection_by_conaddr u ca =
     find (\<lambda>p. conaddr_comparator ca (conaddr (connection u p)) = 0) (connections_tree_by_conaddr u)"

definition find_connection_by_conid :: "UdpGwClient \<Rightarrow> 16 word \<Rightarrow> con_ptr option" where
  "find_connection_by_conid u i =
     find (\<lambda>p. uint16_comparator i (conid (connection u p)) = 0) (connections_tree_by_conid u)"

definition insert_by_conaddr :: "con_ptr \<Rightarrow> UdpGwClient \<Rightarrow> gw_run" where
  "insert_by_conaddr p u =
     (u\<lparr>connections_tree_by_conaddr := p # connections_tree_by_conaddr u\<rparr>,
      [AssertThat (find_connection_by_conaddr u (conaddr (connection u p)) = None)])"

definition insert_by_conid :: "con_ptr \<Rightarrow> UdpGwClient \<Rightarrow> gw_run" where
  "insert_by_conid p u =
     (u\<lparr>connections_tree_by_conid := p # connections_tree_by_conid u\<rparr>,
      [AssertThat (find_connection_by_conid u (conid (connection u p)) = None)])"

text \<open>The loop that looks for a free number.  It may run forever when all are taken.\<close>

partial_function (option) unused_conid_loop :: "UdpGwClient \<Rightarrow> (UdpGwClient \<times> 16 word) option" where
  "unused_conid_loop u =
     (if find_connection_by_conid u (word_of_int (next_conid u)) = None then Some (u, word_of_int (next_conid u))
      else if next_conid u = max_connections u - 1 then unused_conid_loop (u\<lparr>next_conid := 0\<rparr>)
      else unused_conid_loop (u\<lparr>next_conid := next_conid u + 1\<rparr>))"

declare unused_conid_loop.simps [code]

definition find_unused_conid :: "UdpGwClient \<Rightarrow> ((UdpGwClient \<times> 16 word) \<times> gw_call list) option" where
  "find_unused_conid u =
     (case unused_conid_loop u of
        None \<Rightarrow> None
      | Some r \<Rightarrow> Some (r, [AssertThat (num_connections u < max_connections u)]))"

section \<open>Connections\<close>

definition connection_send :: "gw_world \<Rightarrow> UdpGwClient \<Rightarrow> con_ptr \<Rightarrow> byte \<Rightarrow> bytes \<Rightarrow> gw_run" where
  "connection_send w u p flags data =
     (let pre = [AssertThat (int (length data) \<le> udp_mtu u), StartPacket p (has_room w)];
          c = connection u p
      in if \<not> has_room w then (u, pre)
         else
         let flags1 = (case remote_addr (conaddr c) of BAddr_IPv6 _ _ \<Rightarrow> flags OR UDPGW_CLIENT_FLAG_IPV6 | _ \<Rightarrow> flags);
             addr = (case remote_addr (conaddr c) of
                       BAddr_IPv4 ip port \<Rightarrow> udpgw_addr_ipv4 ip port
                     | BAddr_IPv6 ip port \<Rightarrow> udpgw_addr_ipv6 ip port
                     | _ \<Rightarrow> [])
         in (u, pre @ [EndPacket p (udpgw_header (htol8 flags1) (htol16 (conid c)) @ addr @ data)]))"

definition connection_init :: "gw_world \<Rightarrow> UdpGwClient \<Rightarrow> UdpGwClient_conaddr \<Rightarrow> byte \<Rightarrow> bytes \<Rightarrow> gw_run option" where
  "connection_init w u ca flags data =
     (let pre = [AssertThat (num_connections u < max_connections u), AssertThat (find_connection_by_conaddr u ca = None),
                 AssertThat (int (length data) \<le> udp_mtu u)]
      in case new_connection w of
           None \<Rightarrow> Some (u, pre)
         | Some p \<Rightarrow>
             (case find_unused_conid u of
                None \<Rightarrow> None
              | Some ((u1, i), cs) \<Rightarrow>
                  let c = \<lparr>conaddr = ca, first_flags = flags, first_data = data_at w, first_data_len = int (length data), conid = i\<rparr>;
                      u2 = u1\<lparr>connection := (connection u1)(p := c)\<rparr>;
                      up = pre @ [Obtain Struct p] @ cs @ [Obtain FirstJob p, SetFirstJob p, Obtain Queue_Flow p];
                      flow = ProtoFlowInit p (udpgw_mtu u2) (send_buffer_size u2) (pp_mtu u2) (flow_ok w)
                  in if \<not> flow_ok w
                     then Some (u2, up @ [flow, Release Queue_Flow p, Release FirstJob p, Release Struct p])
                     else
                     let (u3, cs3) = insert_by_conaddr p u2;
                         (u4, cs4) = insert_by_conid p u3
                     in Some (u4\<lparr>connections_list := connections_list u4 @ [p], num_connections := num_connections u4 + 1\<rparr>,
                          up @ [flow] @ cs3 @ cs4)))"

definition connection_free :: "UdpGwClient \<Rightarrow> con_ptr \<Rightarrow> gw_run" where
  "connection_free u p =
     (u\<lparr>num_connections := num_connections u - 1, connections_list := remove1 p (connections_list u),
        connections_tree_by_conid := remove1 p (connections_tree_by_conid u),
        connections_tree_by_conaddr := remove1 p (connections_tree_by_conaddr u)\<rparr>,
      [AssertFlowFree p, Release Proto_Flow p, Release Queue_Flow p, Release FirstJob p, Release Struct p])"

text \<open>The job sends what the memory \<open>m\<close> holds where the pointer points to by now; it is read when there is room for the packet.\<close>

definition connection_first_job_handler :: "gw_world \<Rightarrow> UdpGwClient \<Rightarrow> (data_ptr \<Rightarrow> bytes) \<Rightarrow> con_ptr \<Rightarrow> gw_run" where
  "connection_first_job_handler w u m p =
     (let c = connection u p
      in case connection_send w u p (UDPGW_CLIENT_FLAG_REBIND OR first_flags c) (take (nat (first_data_len c)) (m (first_data c))) of
           (u1, cs) \<Rightarrow> (u1, (if has_room w then [ReadData (first_data c) (first_data_len c)] else []) @ cs))"

definition set_conaddr :: "con_ptr \<Rightarrow> UdpGwClient_conaddr \<Rightarrow> UdpGwClient \<Rightarrow> gw_run" where
  "set_conaddr p ca u =
     (u\<lparr>connection := (connection u)(p := (connection u p)\<lparr>conaddr := ca\<rparr>)\<rparr>,
      [AssertThat (p \<notin> set (connections_tree_by_conaddr u))])"

definition reuse_connection :: "UdpGwClient \<Rightarrow> UdpGwClient_conaddr \<Rightarrow> (UdpGwClient \<times> con_ptr) \<times> gw_call list" where
  "reuse_connection u ca =
     (let pre = [AssertThat (find_connection_by_conaddr u ca = None), AssertThat (0 < num_connections u),
                 AssertThat (connections_list u \<noteq> [])];
          p = hd (connections_list u);
          u1 = u\<lparr>connections_tree_by_conaddr := remove1 p (connections_tree_by_conaddr u)\<rparr>;
          (u2, cs2) = set_conaddr p ca u1;
          (u3, cs3) = insert_by_conaddr p u2
      in ((u3, p), pre @ cs2 @ cs3))"

text \<open>A connection that is used becomes the most recent one.\<close>

definition move_to_front :: "con_ptr \<Rightarrow> UdpGwClient \<Rightarrow> UdpGwClient" where
  "move_to_front p u = u\<lparr>connections_list := remove1 p (connections_list u) @ [p]\<rparr>"

section \<open>Handlers\<close>

definition free_server :: "gw_call list" where
  "free_server = [DisconnectOutput, Unmake Stream_Sender, Unmake Decoder, Unmake Recv_If]"

definition decoder_handler_error :: "UdpGwClient \<Rightarrow> gw_run" where
  "decoder_handler_error u = (u, [AssertThat (have_server u), HandlerServerError])"

text \<open>The end of the receive handler, once the address is known: find the connection, and pass the data on.\<close>

definition received_from :: "UdpGwClient \<Rightarrow> 16 word \<Rightarrow> BAddr \<Rightarrow> bytes \<Rightarrow> gw_run" where
  "received_from u i remote data =
     (if int (length data) > udp_mtu u then (u, [])
      else case find_connection_by_conid u i of
             None \<Rightarrow> (u, [])
           | Some p \<Rightarrow>
               if BAddr_CompareOrder (remote_addr (conaddr (connection u p))) remote \<noteq> 0 then (u, [])
               else
               let u1 = move_to_front p u
               in (u1, [HandlerReceived (local_addr (conaddr (connection u1 p))) (remote_addr (conaddr (connection u1 p))) data]))"

definition recv_interface_handler_send :: "UdpGwClient \<Rightarrow> bytes \<Rightarrow> gw_run" where
  "recv_interface_handler_send u data =
     (let pre = [AssertThat (have_server u), AssertThat (int (length data) \<le> udpgw_mtu u), RecvDone]
      in if length data < 3 then (u, pre)
         else
         let flags = ltoh8 (data ! 0);
             i = ltoh16 (le16_of (take 2 (drop 1 data)));
             rest = drop 3 data
         in if flags AND UDPGW_CLIENT_FLAG_IPV6 \<noteq> 0
            then (if length rest < 18 then (u, pre)
                  else (case received_from u i (BAddr_InitIPv6 (take 16 rest) (le16_of (take 2 (drop 16 rest)))) (drop 18 rest) of
                          (u1, cs) \<Rightarrow> (u1, pre @ cs)))
            else (if length rest < 6 then (u, pre)
                  else (case received_from u i (BAddr_InitIPv4 (le32_of (take 4 rest)) (le16_of (take 2 (drop 4 rest)))) (drop 6 rest) of
                          (u1, cs) \<Rightarrow> (u1, pre @ cs))))"

definition send_monitor_handler :: "UdpGwClient \<Rightarrow> gw_run" where
  "send_monitor_handler u =
     (if keepalive_sending u then (u, [])
      else (u\<lparr>keepalive_sending := True\<rparr>, [KeepaliveSend UdpGwClient__keepalive_packet]))"

definition keepalive_if_handler_done :: "UdpGwClient \<Rightarrow> gw_run" where
  "keepalive_if_handler_done u = (u\<lparr>keepalive_sending := False\<rparr>, [AssertThat (keepalive_sending u)])"

section \<open>Functions of the interface\<close>

definition UdpGwClient_Init :: "UdpGwClient \<Rightarrow> int \<Rightarrow> int \<Rightarrow> int \<Rightarrow> bool \<Rightarrow> gw_run \<times> bool" where
  "UdpGwClient_Init u dgram_mtu max_con buf_size queue_ok =
     (let pre = [AssertThat (0 \<le> dgram_mtu), AssertThat (0 \<le> udpgw_compute_mtu dgram_mtu),
                 AssertThat (udpgw_compute_mtu dgram_mtu \<le> PACKETPROTO_MAXPAYLOAD), AssertThat (0 < max_con), AssertThat (0 < buf_size)];
          m = (if max_con > UINT16_MAX + 1 then UINT16_MAX + 1 else max_con);
          g = udpgw_compute_mtu dgram_mtu;
          u1 = u\<lparr>udp_mtu := dgram_mtu, max_connections := m, send_buffer_size := buf_size, udpgw_mtu := g,
                 pp_mtu := g + int packetproto_header_size, connections_tree_by_conaddr := [], connections_tree_by_conid := [],
                 connections_list := [], num_connections := 0, next_conid := 0\<rparr>;
          up = pre @ [Make Connector (pp_mtu u1), Make Monitor (pp_mtu u1)]
      in if \<not> queue_ok then ((u1, up @ [CannotMake Send_Queue, Unmake Monitor, Unmake Connector]), False)
         else ((u1\<lparr>keepalive_sending := False, have_server := False\<rparr>,
                up @ [Make Send_Queue (pp_mtu u1), Make Keepalive_Flow (pp_mtu u1)]), True))"

function free_connections :: "UdpGwClient \<Rightarrow> gw_run" where
  "free_connections u =
     (case connections_list u of
        [] \<Rightarrow> (u, [])
      | p # ps \<Rightarrow>
          (case connection_free u p of (u1, cs1) \<Rightarrow> (case free_connections u1 of (u2, cs2) \<Rightarrow> (u2, cs1 @ cs2))))"
  by pat_completeness auto
termination
  by (relation "measure (\<lambda>u. length (connections_list u))") (auto simp: connection_free_def)

definition UdpGwClient_Free :: "UdpGwClient \<Rightarrow> gw_run" where
  "UdpGwClient_Free u =
     (case free_connections u of
        (u1, cs) \<Rightarrow> (u1, [PrepareFree] @ cs @ (if have_server u1 then free_server else []) @
           [Unmake Keepalive_Flow, Unmake Send_Queue, Unmake Monitor, Unmake Connector]))"

definition UdpGwClient_SubmitPacket :: "gw_world \<Rightarrow> UdpGwClient \<Rightarrow> BAddr \<Rightarrow> BAddr \<Rightarrow> bool \<Rightarrow> bytes \<Rightarrow> gw_run option" where
  "UdpGwClient_SubmitPacket w u l r is_dns data =
     (let pre = [AssertThat (case l of BAddr_IPv4 _ _ \<Rightarrow> True | BAddr_IPv6 _ _ \<Rightarrow> True | _ \<Rightarrow> False),
                 AssertThat (case r of BAddr_IPv4 _ _ \<Rightarrow> True | BAddr_IPv6 _ _ \<Rightarrow> True | _ \<Rightarrow> False),
                 AssertThat (int (length data) \<le> udp_mtu u)];
          ca = \<lparr>local_addr = l, remote_addr = r\<rparr>;
          flags = (if is_dns then UDPGW_CLIENT_FLAG_DNS else 0)
      in case find_connection_by_conaddr u ca of
           Some p \<Rightarrow>
             (case connection_send w (move_to_front p u) p flags data of (u1, cs) \<Rightarrow> Some (u1, pre @ cs))
         | None \<Rightarrow>
             if num_connections u = max_connections u
             then (case reuse_connection u ca of
                     ((u1, p), cs1) \<Rightarrow>
                       (case connection_send w (move_to_front p u1) p (flags OR UDPGW_CLIENT_FLAG_REBIND) data of
                          (u2, cs2) \<Rightarrow> Some (u2, pre @ cs1 @ cs2)))
             else (case connection_init w u ca flags data of
                     None \<Rightarrow> None
                   | Some (u1, cs) \<Rightarrow> Some (u1, pre @ cs)))"

definition UdpGwClient_ConnectServer :: "UdpGwClient \<Rightarrow> bool \<Rightarrow> gw_run \<times> bool" where
  "UdpGwClient_ConnectServer u decoder_ok =
     (let pre = [AssertThat (\<not> have_server u), Make Recv_If (udpgw_mtu u)]
      in if \<not> decoder_ok then ((u, pre @ [CannotMake Decoder, Unmake Recv_If]), False)
         else ((u\<lparr>have_server := True\<rparr>,
                pre @ [Make Decoder (udpgw_mtu u), Make Stream_Sender (pp_mtu u), ConnectOutput]), True))"

definition UdpGwClient_DisconnectServer :: "UdpGwClient \<Rightarrow> gw_run" where
  "UdpGwClient_DisconnectServer u = (u\<lparr>have_server := False\<rparr>, [AssertThat (have_server u)] @ free_server)"

section \<open>Reconnecting through SOCKS\<close>

record SocksUdpGwClient =
  have_socks :: bool
  socks_up :: bool

datatype relay_call =
    SocksInit bool
  | SocksFree
  | SetTimer
  | RemoveTimer
  | ConnectServer bool
  | DisconnectServer
  | UdpgwInit bool
  | UdpgwFree
  | TimerInit
  | AssertTimerStopped
  | Assert_That bool

type_synonym relay_run = "SocksUdpGwClient \<times> relay_call list"

definition free_socks :: "SocksUdpGwClient \<Rightarrow> relay_run" where
  "free_socks s =
     (s\<lparr>have_socks := False\<rparr>, [Assert_That (have_socks s)] @ (if socks_up s then [DisconnectServer] else []) @ [SocksFree])"

definition try_connect :: "bool \<Rightarrow> SocksUdpGwClient \<Rightarrow> relay_run" where
  "try_connect socks_ok s =
     (let pre = [Assert_That (\<not> have_socks s), AssertTimerStopped]
      in if \<not> socks_ok then (s, pre @ [SocksInit False, SetTimer])
         else (s\<lparr>have_socks := True, socks_up := False\<rparr>, pre @ [SocksInit True]))"

definition reconnect_timer_handler :: "bool \<Rightarrow> SocksUdpGwClient \<Rightarrow> relay_run" where
  "reconnect_timer_handler socks_ok s =
     (case try_connect socks_ok s of (s1, cs) \<Rightarrow> (s1, [Assert_That (\<not> have_socks s)] @ cs))"

definition socks_client_handler :: "bool \<Rightarrow> SocksUdpGwClient \<Rightarrow> socks_event \<Rightarrow> relay_run" where
  "socks_client_handler decoder_ok s ev =
     (let pre = [Assert_That (have_socks s)];
          failed = (\<lambda>cs. case free_socks s of (s1, cs1) \<Rightarrow> (s1, pre @ cs @ cs1 @ [SetTimer]))
      in case ev of
           EVENT_UP \<Rightarrow>
             (if \<not> decoder_ok then failed [Assert_That (\<not> socks_up s), ConnectServer False]
              else (s\<lparr>socks_up := True\<rparr>, pre @ [Assert_That (\<not> socks_up s), ConnectServer True]))
         | EVENT_ERROR \<Rightarrow> failed []
         | EVENT_ERROR_CLOSED \<Rightarrow> failed []
         | EVENT_CONNECTED \<Rightarrow> (s, pre))"

definition udpgw_handler_servererror :: "SocksUdpGwClient \<Rightarrow> relay_run" where
  "udpgw_handler_servererror s =
     (case free_socks s of
        (s1, cs) \<Rightarrow> (s1, [Assert_That (have_socks s), Assert_That (socks_up s)] @ cs @ [SetTimer]))"

definition SocksUdpGwClient_Init :: "SocksUdpGwClient \<Rightarrow> BAddr \<Rightarrow> BAddr \<Rightarrow> bool \<Rightarrow> bool \<Rightarrow> relay_run \<times> bool" where
  "SocksUdpGwClient_Init s server_addr remote_udpgw_addr udpgw_ok socks_ok =
     (let pre = [Assert_That (\<not> BAddr_IsInvalid server_addr),
                 Assert_That (case remote_udpgw_addr of BAddr_IPv4 _ _ \<Rightarrow> True | BAddr_IPv6 _ _ \<Rightarrow> True | _ \<Rightarrow> False)]
      in if \<not> udpgw_ok then ((s, pre @ [UdpgwInit False]), False)
         else (case try_connect socks_ok (s\<lparr>have_socks := False\<rparr>) of
                 (s1, cs) \<Rightarrow> ((s1, pre @ [UdpgwInit True, TimerInit] @ cs), True)))"

definition SocksUdpGwClient_Free :: "SocksUdpGwClient \<Rightarrow> relay_run" where
  "SocksUdpGwClient_Free s =
     (case (if have_socks s then free_socks s else (s, [])) of (s1, cs) \<Rightarrow> (s1, cs @ [RemoveTimer, UdpgwFree]))"

text \<open>Packets pass through to and from the gateway client.\<close>

definition SocksUdpGwClient_SubmitPacket :: "gw_world \<Rightarrow> UdpGwClient \<Rightarrow> BAddr \<Rightarrow> BAddr \<Rightarrow> bool \<Rightarrow> bytes \<Rightarrow> gw_run option" where
  "SocksUdpGwClient_SubmitPacket w u l r is_dns data = UdpGwClient_SubmitPacket w u l r is_dns data"

definition udpgw_handler_received :: "BAddr \<Rightarrow> BAddr \<Rightarrow> bytes \<Rightarrow> gw_call list" where
  "udpgw_handler_received l r data = [HandlerReceived l r data]"

end
