(* ===== verification/Udpgw_Relay.thy ===== *)
theory Udpgw_Relay
  imports Udpgw_Client
begin


text \<open>
  The UDP gateway client in its environment: the user who submits packets, the server, the queue
  of outgoing packets, the allocator, and the jobs of the reactor's group, of which the last one set runs first.  The data of a packet is in the
  buffer of the device, which is not the client's: \<open>device_read_handler_send\<close> of \<open>tun2socks.c\<close> has already set the job that lets the buffer
  be filled again when it submits the packet.  So the data is there until that job has run, and a job that reads the pointer afterwards reads memory that
  has other contents; in the model it has no result.
\<close>

section \<open>The environment\<close>

text \<open>A job of the group: the first packet of a connection, or the reuse of the buffer in which submitted data was.\<close>

datatype gw_job = First con_ptr | Reuse data_ptr

record gw_env =
  held :: "(part \<times> con_ptr) set"
  pending :: "gw_job list"
  memory :: "data_ptr \<Rightarrow> bytes"
  flow_mtu :: "con_ptr \<Rightarrow> int"
  writing :: "con_ptr option"
  units :: "(unit_part \<times> int) set"
  connected :: bool
  receiving :: bool
  ka_busy :: bool
  prepared :: bool
  server_error :: bool
  sent :: "(con_ptr \<times> bytes) list"
  delivered :: "(BAddr \<times> BAddr \<times> bytes) list"

definition first_jobs :: "gw_env \<Rightarrow> con_ptr set" where
  "first_jobs e = {p. First p \<in> set (pending e)}"

definition made :: "unit_part \<Rightarrow> gw_env \<Rightarrow> bool" where
  "made x e = (x \<in> fst ` units e)"

fun needs :: "unit_part \<Rightarrow> unit_part option" where
  "needs Monitor = Some Connector"
| "needs Send_Queue = Some Monitor"
| "needs Keepalive_Flow = Some Send_Queue"
| "needs Decoder = Some Recv_If"
| "needs _ = None"

text \<open>What is made on top of another object has at most its size, and is gone before it.\<close>

definition can_make :: "unit_part \<Rightarrow> int \<Rightarrow> gw_env \<Rightarrow> bool" where
  "can_make x m e =
     (\<not> made x e \<and> 0 \<le> m \<and> (x = Recv_If \<longrightarrow> m \<le> PACKETPROTO_MAXPAYLOAD) \<and>
      (case needs x of None \<Rightarrow> True | Some y \<Rightarrow> (y, m) \<in> units e))"

definition can_unmake :: "unit_part \<Rightarrow> gw_env \<Rightarrow> bool" where
  "can_unmake x e =
     (made x e \<and> (x = Connector \<longrightarrow> \<not> made Monitor e) \<and> (x = Monitor \<longrightarrow> \<not> made Send_Queue e) \<and>
      (x = Send_Queue \<longrightarrow> \<not> made Keepalive_Flow e \<and> held e = {}) \<and> (x = Keepalive_Flow \<longrightarrow> prepared e) \<and>
      (x = Recv_If \<longrightarrow> \<not> made Decoder e) \<and> (x \<in> {Stream_Sender, Connector} \<longrightarrow> \<not> connected e))"

fun gw_exec :: "gw_call \<Rightarrow> gw_env \<Rightarrow> gw_env option" where
  "gw_exec (Obtain x p) e =
     (if (x, p) \<notin> held e \<and> (x = Struct \<or> (Struct, p) \<in> held e) \<and> x \<noteq> Proto_Flow then Some (e\<lparr>held := insert (x, p) (held e)\<rparr>) else None)"
| "gw_exec (Release x p) e =
     (if (x, p) \<in> held e \<and> (x = Queue_Flow \<longrightarrow> (Proto_Flow, p) \<notin> held e) \<and>
         (x = Struct \<longrightarrow> (\<forall>y\<in>{FirstJob, Queue_Flow, Proto_Flow}. (y, p) \<notin> held e))
      then Some (e\<lparr>held := held e - {(x, p)}, pending := (if x = FirstJob then removeAll (First p) (pending e) else pending e)\<rparr>) else None)"
| "gw_exec (SetFirstJob p) e = (if (FirstJob, p) \<in> held e then Some (e\<lparr>pending := First p # removeAll (First p) (pending e)\<rparr>) else None)"
| "gw_exec (ReadData d n) e = (if Reuse d \<in> set (pending e) \<and> 0 \<le> n \<and> n \<le> int (length (memory e d)) then Some e else None)"
| "gw_exec (ProtoFlowInit p m n out r) e =
     (if 0 \<le> m \<and> m \<le> PACKETPROTO_MAXPAYLOAD \<and> 0 < n \<and> PACKETPROTO_ENCLEN m \<le> out \<and> (Send_Queue, out) \<in> units e \<and>
         (Queue_Flow, p) \<in> held e \<and> (Proto_Flow, p) \<notin> held e
      then Some (if r then e\<lparr>held := insert (Proto_Flow, p) (held e), flow_mtu := (flow_mtu e)(p := m)\<rparr> else e) else None)"
| "gw_exec (AssertFlowFree p) e = (if (Queue_Flow, p) \<in> held e \<and> prepared e then Some e else None)"
| "gw_exec (StartPacket p r) e =
     (if (Proto_Flow, p) \<in> held e \<and> writing e = None then Some (if r then e\<lparr>writing := Some p\<rparr> else e) else None)"
| "gw_exec (EndPacket p m) e =
     (if writing e = Some p \<and> int (length m) \<le> flow_mtu e p then Some (e\<lparr>writing := None, sent := sent e @ [(p, m)]\<rparr>) else None)"
| "gw_exec RecvDone e = (if receiving e then Some (e\<lparr>receiving := False\<rparr>) else None)"
| "gw_exec (HandlerReceived l r d) e = Some (e\<lparr>delivered := delivered e @ [(l, r, d)]\<rparr>)"
| "gw_exec HandlerServerError e = (if server_error e then None else Some (e\<lparr>server_error := True\<rparr>))"
| "gw_exec (KeepaliveSend m) e =
     (if \<not> ka_busy e \<and> (\<exists>n\<in>snd ` {x \<in> units e. fst x = Keepalive_Flow}. int (length m) \<le> n) then Some (e\<lparr>ka_busy := True\<rparr>) else None)"
| "gw_exec PrepareFree e = (if made Send_Queue e then Some (e\<lparr>prepared := True\<rparr>) else None)"
| "gw_exec (Make x m) e = (if can_make x m e then Some (e\<lparr>units := insert (x, m) (units e)\<rparr>) else None)"
| "gw_exec (CannotMake x) e = (if made x e then None else Some e)"
| "gw_exec (Unmake x) e =
     (if can_unmake x e
      then Some (e\<lparr>units := {y \<in> units e. fst y \<noteq> x}, receiving := (receiving e \<and> x \<noteq> Recv_If),
             server_error := (server_error e \<and> x \<noteq> Decoder)\<rparr>)
      else None)"
| "gw_exec ConnectOutput e =
     (if \<not> connected e \<and> (\<exists>m\<in>snd ` units e. (Stream_Sender, m) \<in> units e \<and> (Connector, m) \<in> units e)
      then Some (e\<lparr>connected := True\<rparr>) else None)"
| "gw_exec DisconnectOutput e = (if connected e then Some (e\<lparr>connected := False\<rparr>) else None)"
| "gw_exec (AssertThat b) e = (if b then Some e else None)"

fun gw_execs :: "gw_call list \<Rightarrow> gw_env \<Rightarrow> gw_env option" where
  "gw_execs [] e = Some e"
| "gw_execs (c # cs) e = (case gw_exec c e of None \<Rightarrow> None | Some e' \<Rightarrow> gw_execs cs e')"

type_synonym gw_system = "UdpGwClient \<times> gw_env"

definition gw_do :: "gw_run \<Rightarrow> gw_env \<Rightarrow> gw_system option" where
  "gw_do r e = map_option (\<lambda>e'. (fst r, e')) (gw_execs (snd r) e)"

datatype gw_event =
    Submit BAddr BAddr bool bytes
  | First_Job con_ptr
  | Buffer_Reused bytes
  | From_Server bytes
  | Decoder_Fails
  | Send_Idle
  | Keepalive_Sent
  | Connect bool
  | Disconnect

definition sender_address :: "BAddr \<Rightarrow> bool" where
  "sender_address a = (case a of BAddr_IPv4 _ _ \<Rightarrow> True | BAddr_IPv6 ip _ \<Rightarrow> length ip = 16 | _ \<Rightarrow> False)"

fun gw_enabled :: "gw_world \<Rightarrow> gw_event \<Rightarrow> gw_system \<Rightarrow> bool" where
  "gw_enabled w (Submit l r dns d) (u, e) =
     (sender_address l \<and> sender_address r \<and> int (length d) \<le> udp_mtu u \<and> Reuse (data_at w) \<notin> set (pending e) \<and>
      (case new_connection w of None \<Rightarrow> True | Some p \<Rightarrow> (Struct, p) \<notin> held e))"
| "gw_enabled w (First_Job p) (u, e) = (case pending e of j # _ \<Rightarrow> j = First p | [] \<Rightarrow> False)"
| "gw_enabled w (Buffer_Reused d) (u, e) = (case pending e of Reuse _ # _ \<Rightarrow> True | _ \<Rightarrow> False)"
| "gw_enabled w (From_Server d) (u, e) = (have_server u \<and> \<not> server_error e \<and> (\<exists>m\<in>snd ` units e. (Recv_If, m) \<in> units e \<and> int (length d) \<le> m))"
| "gw_enabled w Decoder_Fails (u, e) = (have_server u \<and> \<not> server_error e)"
| "gw_enabled w Send_Idle (u, e) = True"
| "gw_enabled w Keepalive_Sent (u, e) = ka_busy e"
| "gw_enabled w (Connect b) (u, e) = (\<not> have_server u)"
| "gw_enabled w Disconnect (u, e) = have_server u"

definition data_comes :: "gw_world \<Rightarrow> bytes \<Rightarrow> gw_env \<Rightarrow> gw_env" where
  "data_comes w d e = e\<lparr>pending := Reuse (data_at w) # pending e, memory := (memory e)(data_at w := d)\<rparr>"

fun gw_fire :: "gw_world \<Rightarrow> gw_event \<Rightarrow> gw_system \<Rightarrow> gw_system option" where
  "gw_fire w (Submit l r dns d) (u, e) = (case UdpGwClient_SubmitPacket w u l r dns d of None \<Rightarrow> None | Some x \<Rightarrow> gw_do x (data_comes w d e))"
| "gw_fire w (First_Job p) (u, e) = gw_do (connection_first_job_handler w u (memory e) p) (e\<lparr>pending := tl (pending e)\<rparr>)"
| "gw_fire w (Buffer_Reused d) (u, e) =
     (case pending e of Reuse a # js \<Rightarrow> Some (u, e\<lparr>pending := js, memory := (memory e)(a := d)\<rparr>) | _ \<Rightarrow> None)"
| "gw_fire w (From_Server d) (u, e) = gw_do (recv_interface_handler_send u d) (e\<lparr>receiving := True\<rparr>)"
| "gw_fire w Decoder_Fails (u, e) = gw_do (decoder_handler_error u) e"
| "gw_fire w Send_Idle (u, e) = gw_do (send_monitor_handler u) e"
| "gw_fire w Keepalive_Sent (u, e) = gw_do (keepalive_if_handler_done u) (e\<lparr>ka_busy := False\<rparr>)"
| "gw_fire w (Connect b) (u, e) = gw_do (fst (UdpGwClient_ConnectServer u b)) e"
| "gw_fire w Disconnect (u, e) = gw_do (UdpGwClient_DisconnectServer u) e"

definition gw_blank :: gw_env where
  "gw_blank = \<lparr>held = {}, pending = [], memory = (\<lambda>_. []), flow_mtu = (\<lambda>_. 0), writing = None, units = {}, connected = False, receiving = False,
     ka_busy = False, prepared = False, server_error = False, sent = [], delivered = []\<rparr>"

text \<open>The state with which the client starts, for sizes that its caller checked.\<close>

inductive gw_reached :: "gw_system \<Rightarrow> bool" where
  started: "\<lbrakk>UdpGwClient_Init m dgram_mtu max_con buf_size True = (r, True); 0 \<le> dgram_mtu; dgram_mtu \<le> 65514; 0 < max_con; 0 < buf_size;
     gw_do r gw_blank = Some s\<rbrakk> \<Longrightarrow> gw_reached s"
| event: "\<lbrakk>gw_reached (u, e); gw_enabled w ev (u, e); gw_fire w ev (u, e) = Some s\<rbrakk> \<Longrightarrow> gw_reached s"

section \<open>The invariant\<close>

definition sizes_ok :: "UdpGwClient \<Rightarrow> bool" where
  "sizes_ok u =
     (0 \<le> udp_mtu u \<and> udpgw_mtu u = udp_mtu u + 21 \<and> udpgw_mtu u \<le> PACKETPROTO_MAXPAYLOAD \<and> pp_mtu u = udpgw_mtu u + 2 \<and>
      0 < max_connections u \<and> max_connections u \<le> 65536 \<and> 0 < send_buffer_size u)"

definition tables_ok :: "UdpGwClient \<Rightarrow> bool" where
  "tables_ok u =
     (distinct (connections_list u) \<and> distinct (connections_tree_by_conaddr u) \<and> distinct (connections_tree_by_conid u) \<and>
      set (connections_tree_by_conaddr u) = set (connections_list u) \<and> set (connections_tree_by_conid u) = set (connections_list u) \<and>
      num_connections u = int (length (connections_list u)) \<and> num_connections u \<le> max_connections u \<and>
      0 \<le> next_conid u \<and> next_conid u < max_connections u)"

definition keys_ok :: "UdpGwClient \<Rightarrow> bool" where
  "keys_ok u =
     (inj_on (\<lambda>p. conid (connection u p)) (set (connections_list u)) \<and>
      inj_on (\<lambda>p. conaddr (connection u p)) (set (connections_list u)) \<and>
      (\<forall>p\<in>set (connections_list u). uint (conid (connection u p)) < max_connections u \<and>
         sender_address (local_addr (conaddr (connection u p))) \<and> sender_address (remote_addr (conaddr (connection u p)))))"

text \<open>A job that will send a first packet runs before its data is gone.\<close>

fun jobs_ok :: "UdpGwClient \<Rightarrow> (data_ptr \<Rightarrow> bytes) \<Rightarrow> gw_job list \<Rightarrow> bool" where
  "jobs_ok u m [] = True"
| "jobs_ok u m (First p # js) =
     (let c = connection u p
      in p \<in> set (connections_list u) \<and> First p \<notin> set js \<and> Reuse (first_data c) \<in> set js \<and>
         0 \<le> first_data_len c \<and> first_data_len c \<le> udp_mtu u \<and> first_data_len c \<le> int (length (m (first_data c))) \<and> jobs_ok u m js)"
| "jobs_ok u m (Reuse d # js) = (Reuse d \<notin> set js \<and> jobs_ok u m js)"

definition parts_ok :: "UdpGwClient \<Rightarrow> gw_env \<Rightarrow> bool" where
  "parts_ok u e =
     (held e = UNIV \<times> set (connections_list u) \<and> jobs_ok u (memory e) (pending e) \<and> writing e = None \<and>
      (\<forall>p\<in>set (connections_list u). flow_mtu e p = udpgw_mtu u))"

definition units_of :: "UdpGwClient \<Rightarrow> (unit_part \<times> int) set" where
  "units_of u = {(Connector, pp_mtu u), (Monitor, pp_mtu u), (Send_Queue, pp_mtu u), (Keepalive_Flow, pp_mtu u)} \<union>
     (if have_server u then {(Recv_If, udpgw_mtu u), (Decoder, udpgw_mtu u), (Stream_Sender, pp_mtu u)} else {})"

definition server_ok :: "UdpGwClient \<Rightarrow> gw_env \<Rightarrow> bool" where
  "server_ok u e =
     (units e = units_of u \<and> connected e = have_server u \<and> \<not> receiving e \<and> (server_error e \<longrightarrow> have_server u) \<and>
      ka_busy e = keepalive_sending u \<and> \<not> prepared e)"

definition gw_good :: "UdpGwClient \<Rightarrow> gw_env \<Rightarrow> bool" where
  "gw_good u e = (sizes_ok u \<and> tables_ok u \<and> keys_ok u \<and> parts_ok u e \<and> server_ok u e)"


section \<open>Lookups\<close>

lemma sender_ip: "sender_address a \<Longrightarrow> ip_address a"
  by (auto simp: sender_address_def ip_address_def split: BAddr.splits)

lemma same_address: "sender_address a \<Longrightarrow> sender_address b \<Longrightarrow> BAddr_CompareOrder a b = 0 \<longleftrightarrow> a = b"
  by (simp add: order_key sgn_eq_0_iff key_zero sender_ip)

lemma same_conaddr:
  assumes "sender_address (local_addr a)" "sender_address (remote_addr a)" "sender_address (local_addr b)" "sender_address (remote_addr b)"
  shows "conaddr_comparator a b = 0 \<longleftrightarrow> a = b"
  using assms by (cases a; cases b) (auto simp: conaddr_comparator_def Let_def same_address)

lemma same_conid: "uint16_comparator a b = 0 \<longleftrightarrow> a = b"
  by (simp add: uint16_comparator_def B_COMPARE_sgn sgn_eq_0_iff word_uint_eq_iff)

lemma by_conid_None: "find_connection_by_conid u i = None \<longleftrightarrow> (\<forall>p\<in>set (connections_tree_by_conid u). conid (connection u p) \<noteq> i)"
  by (auto simp: find_connection_by_conid_def find_None_iff same_conid)

lemma by_conid_Some:
  assumes "inj_on (\<lambda>p. conid (connection u p)) (set (connections_tree_by_conid u))"
  shows "find_connection_by_conid u i = Some p \<longleftrightarrow> p \<in> set (connections_tree_by_conid u) \<and> conid (connection u p) = i"
proof
  assume "find_connection_by_conid u i = Some p"
  then show "p \<in> set (connections_tree_by_conid u) \<and> conid (connection u p) = i"
    by (auto simp: find_connection_by_conid_def find_Some_iff same_conid)
next
  assume a: "p \<in> set (connections_tree_by_conid u) \<and> conid (connection u p) = i"
  then obtain q where "find_connection_by_conid u i = Some q"
    using by_conid_None [of u i] by blast
  moreover from this have "q \<in> set (connections_tree_by_conid u) \<and> conid (connection u q) = i"
    by (auto simp: find_connection_by_conid_def find_Some_iff same_conid)
  ultimately show "find_connection_by_conid u i = Some p"
    using a assms by (auto dest: inj_onD)
qed

definition good_keys :: "UdpGwClient \<Rightarrow> bool" where
  "good_keys u = (\<forall>p\<in>set (connections_tree_by_conaddr u).
     sender_address (local_addr (conaddr (connection u p))) \<and> sender_address (remote_addr (conaddr (connection u p))))"

lemma by_conaddr_iff:
  assumes "good_keys u" "sender_address (local_addr a)" "sender_address (remote_addr a)"
  shows "find_connection_by_conaddr u a = find (\<lambda>p. conaddr (connection u p) = a) (connections_tree_by_conaddr u)"
  unfolding find_connection_by_conaddr_def
  by (rule find_cong [OF refl]) (use assms same_conaddr in \<open>auto simp: good_keys_def\<close>)

lemma by_conaddr_None:
  assumes "good_keys u" "sender_address (local_addr a)" "sender_address (remote_addr a)"
  shows "find_connection_by_conaddr u a = None \<longleftrightarrow> (\<forall>p\<in>set (connections_tree_by_conaddr u). conaddr (connection u p) \<noteq> a)"
  by (auto simp: by_conaddr_iff [OF assms] find_None_iff)

lemma by_conaddr_Some:
  assumes "good_keys u" "sender_address (local_addr a)" "sender_address (remote_addr a)" "find_connection_by_conaddr u a = Some p"
  shows "p \<in> set (connections_tree_by_conaddr u)" "conaddr (connection u p) = a"
  using assms(4) by (auto simp: by_conaddr_iff [OF assms(1-3)] find_Some_iff)

section \<open>A free number is found\<close>

lemma conid_next [simp]: "find_connection_by_conid (u\<lparr>next_conid := n\<rparr>) i = find_connection_by_conid u i"
  by (simp add: find_connection_by_conid_def)

lemma loop_finds:
  assumes "0 \<le> k" "k < max_connections u" "find_connection_by_conid u (word_of_int k) = None"
    "0 \<le> next_conid u" "next_conid u < max_connections u" "nat ((k - next_conid u) mod max_connections u) = d"
  shows "\<exists>n. unused_conid_loop u = Some (u\<lparr>next_conid := n\<rparr>, word_of_int n) \<and> 0 \<le> n \<and> n < max_connections u \<and>
    find_connection_by_conid u (word_of_int n) = None"
  using assms
proof (induction d arbitrary: u)
  case 0
  then have "(k - next_conid u) mod max_connections u = 0"
    by (metis Euclidean_Rings.pos_mod_sign le_less_trans nat_0_iff order_antisym)
  then have "k = next_conid u"
    using 0 by (metis mod_eq_dvd_iff mod_pos_pos_trivial mod_0_imp_dvd)
  then show ?case
    using 0 by (intro exI [of _ k]) (simp add: unused_conid_loop.simps)
next
  case (Suc d)
  let ?m = "max_connections u" and ?n = "next_conid u"
  show ?case
  proof (cases "find_connection_by_conid u (word_of_int ?n) = None")
    case True
    then show ?thesis
      using Suc by (intro exI [of _ ?n]) (simp add: unused_conid_loop.simps)
  next
    case False
    let ?s = "if ?n = ?m - 1 then 0 else ?n + 1"
    let ?u = "u\<lparr>next_conid := ?s\<rparr>"
    have r: "0 \<le> ?s" "?s < ?m"
      using Suc.prems by auto
    have "nat ((k - ?s) mod ?m) = d"
    proof -
      have "(k - ?n) mod ?m = 1 + int d"
        using Suc.prems(6) by linarith
      moreover have "(k - ?s) mod ?m = ((k - ?n) mod ?m - 1) mod ?m"
      proof -
        have "(k - ?s) mod ?m = (k - (?n + 1)) mod ?m"
          by (auto simp: mod_eq_dvd_iff)
        also have "\<dots> = ((k - ?n) mod ?m - 1) mod ?m"
          by (simp add: mod_diff_left_eq diff_diff_add)
        finally show ?thesis .
      qed
      moreover have "1 + int d < ?m"
        using calculation(1) Suc.prems(1,2) by (metis Euclidean_Rings.pos_mod_bound le_less_trans)
      ultimately show ?thesis
        by simp
    qed
    then obtain n where "unused_conid_loop ?u = Some (u\<lparr>next_conid := n\<rparr>, word_of_int n)" "0 \<le> n" "n < ?m"
      "find_connection_by_conid u (word_of_int n) = None"
      using Suc.IH [of ?u] Suc.prems r by auto
    moreover have "unused_conid_loop u = unused_conid_loop ?u"
      using False by (subst unused_conid_loop.simps) auto
    ultimately show ?thesis
      by (intro exI [of _ n]) simp
  qed
qed

text \<open>There are more numbers than connections.\<close>

lemma free_number:
  assumes "tables_ok u" "num_connections u < max_connections u" "max_connections u \<le> 65536"
  shows "\<exists>k. 0 \<le> k \<and> k < max_connections u \<and> find_connection_by_conid u (word_of_int k) = None"
proof -
  let ?L = "connections_list u" and ?m = "max_connections u"
  let ?used = "(\<lambda>p. uint (conid (connection u p))) ` set ?L"
  have "card ?used \<le> length ?L"
    using card_image_le [of "set ?L" "\<lambda>p. uint (conid (connection u p))"] card_length [of ?L] by simp
  moreover have "int (length ?L) < ?m"
    using assms(1,2) by (simp add: tables_ok_def)
  ultimately have "card ?used < card {0..<?m}"
    by simp
  then obtain k where k: "k \<in> {0..<?m}" "k \<notin> ?used"
    by (meson card_mono finite_imageI List.finite_set not_le subsetI)
  have "find_connection_by_conid u (word_of_int k) = None"
    unfolding by_conid_None
  proof
    fix p
    assume "p \<in> set (connections_tree_by_conid u)"
    then have "k \<noteq> uint (conid (connection u p))"
      using k(2) assms(1) by (auto simp: tables_ok_def)
    moreover have "uint (word_of_int k :: 16 word) = k"
      using k(1) assms(3) by (simp add: uint_word_of_int)
    ultimately show "conid (connection u p) \<noteq> word_of_int k"
      by auto
  qed
  with k show ?thesis by auto
qed

lemma unused_found:
  assumes "tables_ok u" "num_connections u < max_connections u" "max_connections u \<le> 65536"
  shows "\<exists>n. find_unused_conid u = Some ((u\<lparr>next_conid := n\<rparr>, word_of_int n), [AssertThat True]) \<and> 0 \<le> n \<and> n < max_connections u \<and>
    find_connection_by_conid u (word_of_int n) = None"
proof -
  obtain k where "0 \<le> k" "k < max_connections u" "find_connection_by_conid u (word_of_int k) = None"
    using free_number [OF assms] by blast
  moreover have "0 \<le> next_conid u" "next_conid u < max_connections u"
    using assms(1) by (simp_all add: tables_ok_def)
  ultimately obtain n where "unused_conid_loop u = Some (u\<lparr>next_conid := n\<rparr>, word_of_int n)" "0 \<le> n" "n < max_connections u"
    "find_connection_by_conid u (word_of_int n) = None"
    using loop_finds by blast
  then show ?thesis
    using assms(2) by (auto simp: find_unused_conid_def)
qed


section \<open>Each step\<close>

definition gw_returns :: "(UdpGwClient \<Rightarrow> gw_env \<Rightarrow> bool) \<Rightarrow> gw_run \<Rightarrow> gw_env \<Rightarrow> bool" where
  "gw_returns P r e = (\<exists>e'. gw_execs (snd r) e = Some e' \<and> P (fst r) e')"

lemma gw_execs_append: "gw_execs (xs @ ys) e = (case gw_execs xs e of None \<Rightarrow> None | Some e' \<Rightarrow> gw_execs ys e')"
  by (induction xs arbitrary: e) (auto split: option.splits)

lemma gw_returns_simps [simp]:
  "gw_returns P (u, []) e \<longleftrightarrow> P u e"
  "gw_returns P (u, c # cs) e \<longleftrightarrow> (\<exists>e'. gw_exec c e = Some e' \<and> gw_returns P (u, cs) e')"
  by (auto simp: gw_returns_def split: option.splits)

lemma gw_returns_append: "gw_returns P (u, xs @ ys) e \<longleftrightarrow> (\<exists>e'. gw_execs xs e = Some e' \<and> gw_returns P (u, ys) e')"
  by (auto simp: gw_returns_def gw_execs_append split: option.splits)

definition gw_message :: "UdpGwClient \<Rightarrow> con_ptr \<Rightarrow> byte \<Rightarrow> bytes \<Rightarrow> bytes" where
  "gw_message u p flags data =
     (let c = connection u p
      in case remote_addr (conaddr c) of
           BAddr_IPv6 ip port \<Rightarrow> udpgw_header (flags OR 8) (conid c) @ udpgw_addr_ipv6 ip port @ data
         | BAddr_IPv4 ip port \<Rightarrow> udpgw_header flags (conid c) @ udpgw_addr_ipv4 ip port @ data
         | _ \<Rightarrow> udpgw_header flags (conid c) @ data)"

definition message_to :: "16 word \<Rightarrow> BAddr \<Rightarrow> byte \<Rightarrow> bytes \<Rightarrow> bytes" where
  "message_to i remote flags data =
     (case remote of
        BAddr_IPv4 ip port \<Rightarrow> udpgw_header flags i @ udpgw_addr_ipv4 ip port @ data
      | BAddr_IPv6 ip port \<Rightarrow> udpgw_header (flags OR UDPGW_CLIENT_FLAG_IPV6) i @ udpgw_addr_ipv6 ip port @ data
      | _ \<Rightarrow> [])"

lemma gw_message_to:
  "sender_address (remote_addr (conaddr (connection u p))) \<Longrightarrow>
   gw_message u p flags data = message_to (conid (connection u p)) (remote_addr (conaddr (connection u p))) flags data"
  by (auto simp: gw_message_def message_to_def Let_def sender_address_def udpgw_flags split: BAddr.splits)

lemma connection_send_eq:
  "connection_send w u p flags data =
     (u, [AssertThat (int (length data) \<le> udp_mtu u), StartPacket p (has_room w)] @
        (if has_room w then [EndPacket p (gw_message u p flags data)] else []))"
  by (simp add: connection_send_def gw_message_def Let_def htol8_def htol16_def udpgw_flags split: BAddr.splits)

lemma message_length:
  assumes "sender_address (remote_addr (conaddr (connection u p)))"
  shows "length (gw_message u p flags data) \<le> 21 + length data"
  using assms by (auto simp: gw_message_def Let_def udpgw_header_def udpgw_addr_ipv4_def udpgw_addr_ipv6_def sender_address_def split: BAddr.splits)

text \<open>What connecting or disconnecting, and the sending flag, do not change.\<close>

lemma gw_good_tables:
  assumes "gw_good u e"
  shows "sizes_ok u" "tables_ok u" "keys_ok u" "parts_ok u e" "server_ok u e" "good_keys u"
  using assms by (auto simp: gw_good_def good_keys_def keys_ok_def tables_ok_def)

lemma jobs_ok_cong:
  assumes "jobs_ok u m js" "udp_mtu u' = udp_mtu u"
    "\<And>p. p \<in> set (connections_list u) \<Longrightarrow> p \<in> set (connections_list u') \<and>
       first_data (connection u' p) = first_data (connection u p) \<and> first_data_len (connection u' p) = first_data_len (connection u p)"
  shows "jobs_ok u' m js"
  using assms(1)
proof (induction js)
  case (Cons j js)
  then show ?case
    using assms(3) by (cases j) (auto simp: Let_def assms(2))
qed simp

lemma jobs_ok_flags [simp]:
  "jobs_ok (u\<lparr>have_server := b\<rparr>) m js = jobs_ok u m js" "jobs_ok (u\<lparr>keepalive_sending := b\<rparr>) m js = jobs_ok u m js"
proof -
  have eq: "jobs_ok v m js = jobs_ok u m js" if "connection v = connection u" "connections_list v = connections_list u" "udp_mtu v = udp_mtu u"
    for u v
  proof
    assume "jobs_ok v m js"
    then show "jobs_ok u m js"
      by (rule jobs_ok_cong) (simp_all add: that)
  next
    assume "jobs_ok u m js"
    then show "jobs_ok v m js"
      by (rule jobs_ok_cong) (simp_all add: that)
  qed
  show "jobs_ok (u\<lparr>have_server := b\<rparr>) m js = jobs_ok u m js" "jobs_ok (u\<lparr>keepalive_sending := b\<rparr>) m js = jobs_ok u m js"
    by (rule eq; simp)+
qed

lemma jobs_ok_in: "jobs_ok u m js \<Longrightarrow> First p \<in> set js \<Longrightarrow> p \<in> set (connections_list u)"
  by (induction u m js rule: jobs_ok.induct) (auto simp: Let_def)

lemma jobs_ok_data:
  assumes "jobs_ok u m js" "First p \<in> set js"
  shows "Reuse (first_data (connection u p)) \<in> set js"
  using assms by (induction u m js rule: jobs_ok.induct) (auto simp: Let_def)

lemma jobs_ok_memory: "jobs_ok u m js \<Longrightarrow> Reuse a \<notin> set js \<Longrightarrow> jobs_ok u (m(a := d)) js"
  by (induction u m js rule: jobs_ok.induct) (auto simp: Let_def)

lemma jobs_ok_remove: "jobs_ok u m js \<Longrightarrow> jobs_ok u m (removeAll (First p) js)"
  by (induction u m js rule: jobs_ok.induct) (auto simp: Let_def)

lemma data_comes_good: "gw_good u e \<Longrightarrow> Reuse (data_at w) \<notin> set (pending e) \<Longrightarrow> gw_good u (data_comes w d e)"
  by (simp add: data_comes_def gw_good_def parts_ok_def server_ok_def jobs_ok_memory)

lemma data_comes_fields [simp]:
  "held (data_comes w d e) = held e" "sent (data_comes w d e) = sent e" "Reuse (data_at w) \<in> set (pending (data_comes w d e))"
  "memory (data_comes w d e) (data_at w) = d"
  by (simp_all add: data_comes_def)

lemma gw_buffer_ok:
  assumes "gw_good u e" "pending e = Reuse a # js"
  shows "gw_good u (e\<lparr>pending := js, memory := (memory e)(a := d)\<rparr>)"
  using assms by (simp add: gw_good_def parts_ok_def server_ok_def jobs_ok_memory)

definition packet_sent :: "gw_world \<Rightarrow> con_ptr \<Rightarrow> bytes \<Rightarrow> gw_env \<Rightarrow> gw_env" where
  "packet_sent w p m e = e\<lparr>sent := sent e @ (if has_room w then [(p, m)] else [])\<rparr>"

lemma packet_sent_good: "gw_good u e \<Longrightarrow> gw_good u (packet_sent w p m e)"
  by (simp add: packet_sent_def gw_good_def parts_ok_def server_ok_def)

lemma gw_send_runs:
  assumes "gw_good u e" "p \<in> set (connections_list u)" "int (length data) \<le> udp_mtu u"
  shows "gw_execs (snd (connection_send w u p flags data)) e = Some (packet_sent w p (gw_message u p flags data) e)"
proof -
  note g = gw_good_tables [OF assms(1)]
  have p: "(Proto_Flow, p) \<in> held e" "writing e = None" "flow_mtu e p = udpgw_mtu u"
    using g(4) assms(2) by (auto simp: parts_ok_def)
  have "int (length (gw_message u p flags data)) \<le> udpgw_mtu u"
    using message_length [of u p flags data] g(1,3) assms(2,3) by (force simp: sizes_ok_def keys_ok_def)
  then show ?thesis
    using p assms(3) by (simp add: connection_send_eq packet_sent_def)
qed

lemma gw_send_ok:
  assumes "gw_good u e" "p \<in> set (connections_list u)" "int (length data) \<le> udp_mtu u"
  shows "gw_returns gw_good (connection_send w u p flags data) e"
  using gw_send_runs [OF assms, of w flags] packet_sent_good [OF assms(1)] by (simp add: gw_returns_def) (simp add: connection_send_eq)

lemma gw_front_good:
  assumes "gw_good u e" "p \<in> set (connections_list u)"
  shows "gw_good (move_to_front p u) e"
proof -
  have s: "set (remove1 p (connections_list u) @ [p]) = set (connections_list u)"
    using assms(2) gw_good_tables(2) [OF assms(1)] by (auto simp: tables_ok_def set_remove1_eq)
  have l: "length (remove1 p (connections_list u) @ [p]) = length (connections_list u)"
    using assms(2) by (simp add: length_remove1) (metis One_nat_def Suc_pred length_pos_if_in_set)
  have "distinct (remove1 p (connections_list u) @ [p])"
    using gw_good_tables(2) [OF assms(1)] by (simp add: tables_ok_def)
  then have "tables_ok (move_to_front p u)"
    using gw_good_tables(2) [OF assms(1)] s l by (simp add: move_to_front_def tables_ok_def del: set_append length_append)
  moreover have "jobs_ok (move_to_front p u) (memory e) (pending e)"
    by (rule jobs_ok_cong [of u]) (use gw_good_tables(4) [OF assms(1)] s in \<open>simp_all add: parts_ok_def move_to_front_def del: set_append\<close>)
  moreover from this have "keys_ok (move_to_front p u)" "parts_ok (move_to_front p u) e"
    using gw_good_tables(3,4) [OF assms(1)] s by (simp_all add: move_to_front_def keys_ok_def parts_ok_def del: set_append)
  ultimately show ?thesis
    using gw_good_tables(1,5) [OF assms(1)]
    by (simp add: gw_good_def move_to_front_def sizes_ok_def server_ok_def units_of_def)
qed

lemma gw_front_fields [simp]:
  "connection (move_to_front p u) = connection u" "udp_mtu (move_to_front p u) = udp_mtu u"
  "p \<in> set (connections_list (move_to_front p u))"
  by (simp_all add: move_to_front_def)

text \<open>The job finds the data of its packet where it was.\<close>

lemma gw_first_job_runs:
  assumes "gw_good u e" "pending e = First p # js"
  defines "c \<equiv> connection u p"
  shows "gw_execs (snd (connection_first_job_handler w u (memory e) p)) (e\<lparr>pending := js\<rparr>) =
      Some (packet_sent w p (gw_message u p (UDPGW_CLIENT_FLAG_REBIND OR first_flags c)
        (take (nat (first_data_len c)) (memory e (first_data c)))) (e\<lparr>pending := js\<rparr>))"
    "fst (connection_first_job_handler w u (memory e) p) = u" "gw_good u (e\<lparr>pending := js\<rparr>)"
proof -
  have j: "p \<in> set (connections_list u)" "Reuse (first_data c) \<in> set js" "0 \<le> first_data_len c" "first_data_len c \<le> udp_mtu u"
    "first_data_len c \<le> int (length (memory e (first_data c)))" "jobs_ok u (memory e) js"
    using gw_good_tables(4) [OF assms(1)] by (simp_all add: parts_ok_def assms(2) c_def Let_def)
  show g: "gw_good u (e\<lparr>pending := js\<rparr>)"
    using assms(1) j(6) by (simp add: gw_good_def parts_ok_def server_ok_def)
  have "int (length (take (nat (first_data_len c)) (memory e (first_data c)))) \<le> udp_mtu u"
    using j(3-5) by simp
  from gw_send_runs [OF g j(1) this] j(2,3,5)
  show "gw_execs (snd (connection_first_job_handler w u (memory e) p)) (e\<lparr>pending := js\<rparr>) =
      Some (packet_sent w p (gw_message u p (UDPGW_CLIENT_FLAG_REBIND OR first_flags c)
        (take (nat (first_data_len c)) (memory e (first_data c)))) (e\<lparr>pending := js\<rparr>))"
    by (simp add: connection_first_job_handler_def Let_def case_prod_unfold flip: c_def)
  show "fst (connection_first_job_handler w u (memory e) p) = u"
    by (simp add: connection_first_job_handler_def connection_send_eq Let_def)
qed

lemma gw_reuse_ok:
  assumes "gw_good u e" "find_connection_by_conaddr u ca = None" "num_connections u = max_connections u"
    "sender_address (local_addr ca)" "sender_address (remote_addr ca)"
  obtains u1 p cs where "reuse_connection u ca = ((u1, p), cs)" "gw_execs cs e = Some e" "gw_good u1 e" "p \<in> set (connections_list u1)"
    "p = hd (connections_list u)" "connections_list u1 = connections_list u" "udp_mtu u1 = udp_mtu u"
    "connection u1 = (connection u)(p := (connection u p)\<lparr>conaddr := ca\<rparr>)"
proof -
  note g = gw_good_tables [OF assms(1)]
  define p where "p = hd (connections_list u)"
  have ne: "connections_list u \<noteq> []"
    using g(1,2) assms(3) by (auto simp: tables_ok_def sizes_ok_def)
  then have p: "p \<in> set (connections_list u)"
    by (simp add: p_def)
  let ?c = "(connection u)(p := (connection u p)\<lparr>conaddr := ca\<rparr>)"
  let ?t = "remove1 p (connections_tree_by_conaddr u)"
  let ?u2 = "u\<lparr>connections_tree_by_conaddr := ?t, connection := ?c\<rparr>"
  let ?u3 = "u\<lparr>connections_tree_by_conaddr := p # ?t, connection := ?c\<rparr>"
  have t: "distinct ?t" "p \<notin> set ?t" "set (p # ?t) = set (connections_list u)"
    using g(2) p by (auto simp: tables_ok_def set_remove1_eq)
  have fresh: "\<forall>q\<in>set (connections_list u). conaddr (connection u q) \<noteq> ca"
    using by_conaddr_None [OF g(6) assms(4,5)] assms(2) g(2) by (auto simp: tables_ok_def)
  have k2: "good_keys ?u2"
    using g(3) t assms(4,5) by (auto simp: good_keys_def keys_ok_def)
  have n: "find_connection_by_conaddr ?u2 ca = None"
    by (subst by_conaddr_None [OF k2 assms(4,5)]) (use fresh t in auto)
  have r: "reuse_connection u ca = ((?u3, p), [AssertThat True, AssertThat True, AssertThat True, AssertThat True, AssertThat True])"
    using assms(2,3) g(1) ne t(2) n
    by (simp add: reuse_connection_def Let_def set_conaddr_def insert_by_conaddr_def sizes_ok_def flip: p_def)
  have k: "keys_ok ?u3"
  proof -
    have e: "(\<lambda>q. conaddr (?c q)) = (\<lambda>q. conaddr (connection u q))(p := ca)" "(\<lambda>q. conid (?c q)) = (\<lambda>q. conid (connection u q))"
      by auto
    have "inj_on (\<lambda>q. conaddr (?c q)) (set (connections_list u))"
      unfolding e using g(3) fresh by (intro inj_on_fun_updI) (auto simp: keys_ok_def)
    moreover have "inj_on (\<lambda>q. conid (?c q)) (set (connections_list u))"
      unfolding e using g(3) by (simp add: keys_ok_def)
    ultimately show ?thesis
      using g(3) assms(4,5) by (auto simp: keys_ok_def)
  qed
  have "jobs_ok ?u3 (memory e) (pending e)"
    by (rule jobs_ok_cong [of u]) (use g(4) in \<open>auto simp: parts_ok_def\<close>)
  then have "gw_good ?u3 e"
    using g k t by (auto simp: gw_good_def sizes_ok_def tables_ok_def parts_ok_def server_ok_def units_of_def)
  then show ?thesis
    using that [OF r] p by (simp add: p_def)
qed


lemma all_parts: "x = Struct \<or> x = FirstJob \<or> x = Queue_Flow \<or> x = Proto_Flow"
  by (cases x) auto

lemma held_all:
  "insert (Proto_Flow, p) (insert (Queue_Flow, p) (insert (FirstJob, p) (insert (Struct, p) (UNIV \<times> A)))) = UNIV \<times> insert p A"
  "p \<notin> A \<Longrightarrow> insert (Queue_Flow, p) (insert (FirstJob, p) (insert (Struct, p) (UNIV \<times> A))) - {(Queue_Flow, p)} - {(FirstJob, p)} -
     {(Struct, p)} = UNIV \<times> A"
  using all_parts by auto

lemma gw_new_good:
  assumes "gw_good u e" "num_connections u < max_connections u" "p \<notin> set (connections_list u)" "0 \<le> n" "n < max_connections u"
    "find_connection_by_conid u (word_of_int n) = None" "find_connection_by_conaddr u ca = None"
    "sender_address (local_addr ca)" "sender_address (remote_addr ca)" "int (length data) \<le> udp_mtu u"
    "c = \<lparr>conaddr = ca, first_flags = flags, first_data = a, first_data_len = int (length data), conid = word_of_int n\<rparr>"
    "Reuse a \<in> set (pending e)" "memory e a = data"
  shows "gw_good (u\<lparr>next_conid := n, connection := (connection u)(p := c),
       connections_tree_by_conaddr := p # connections_tree_by_conaddr u,
       connections_tree_by_conid := p # connections_tree_by_conid u, connections_list := connections_list u @ [p],
       num_connections := num_connections u + 1\<rparr>)
     (e\<lparr>pending := First p # pending e, held := UNIV \<times> insert p (set (connections_list u)),
       flow_mtu := (flow_mtu e)(p := udpgw_mtu u)\<rparr>)"
    (is "gw_good ?u ?e")
proof -
  note g = gw_good_tables [OF assms(1)]
  have new: "p \<notin> set (connections_tree_by_conaddr u)" "p \<notin> set (connections_tree_by_conid u)"
    using g(2) assms(3) by (simp_all add: tables_ok_def)
  have fresh: "\<forall>q\<in>set (connections_list u). conaddr (connection u q) \<noteq> ca"
    using by_conaddr_None [OF g(6) assms(8,9)] assms(7) g(2) by (auto simp: tables_ok_def)
  have free: "\<forall>q\<in>set (connections_list u). conid (connection u q) \<noteq> word_of_int n"
    using assms(6) g(2) by (simp add: by_conid_None tables_ok_def)
  have e: "(\<lambda>q. conaddr (((connection u)(p := c)) q)) = (\<lambda>q. conaddr (connection u q))(p := ca)"
    "(\<lambda>q. conid (((connection u)(p := c)) q)) = (\<lambda>q. conid (connection u q))(p := word_of_int n)"
    using assms(11) by auto
  have "uint (word_of_int n :: 16 word) \<le> n"
    using assms(4) by (simp add: uint_word_of_int zmod_le_nonneg_dividend)
  then have lt: "uint (word_of_int n :: 16 word) < max_connections u"
    using assms(5) by simp
  have "keys_ok ?u"
  proof -
    have "inj_on (\<lambda>q. conaddr (((connection u)(p := c)) q)) (insert p (set (connections_list u)))"
      unfolding e using g(3) fresh assms(3) by (auto simp: keys_ok_def intro!: inj_on_fun_updI)
    moreover have "inj_on (\<lambda>q. conid (((connection u)(p := c)) q)) (insert p (set (connections_list u)))"
      unfolding e using g(3) free assms(3) by (auto simp: keys_ok_def intro!: inj_on_fun_updI)
    moreover have "\<forall>q\<in>insert p (set (connections_list u)). uint (conid (((connection u)(p := c)) q)) < max_connections u \<and>
        sender_address (local_addr (conaddr (((connection u)(p := c)) q))) \<and>
        sender_address (remote_addr (conaddr (((connection u)(p := c)) q)))"
      using g(3) lt assms(8,9,11) by (auto simp: keys_ok_def)
    ultimately show ?thesis
      by (simp add: keys_ok_def del: fun_upd_apply)
  qed
  moreover have "tables_ok ?u"
    using g(2) new assms(2-5) by (simp add: tables_ok_def)
  moreover have "jobs_ok ?u (memory e) (pending e)"
    by (rule jobs_ok_cong [of u]) (use g(4) assms(3) in \<open>auto simp: parts_ok_def\<close>)
  then have "jobs_ok ?u (memory e) (First p # pending e)"
    using assms(3,10-13) g(4) jobs_ok_in [of u "memory e" "pending e" p] by (auto simp: parts_ok_def)
  then have "parts_ok ?u ?e"
    using g(4) assms(3) by (auto simp: parts_ok_def simp del: jobs_ok.simps)
  moreover have "sizes_ok ?u" "server_ok ?u ?e"
    using g(1,5) by (simp_all add: sizes_ok_def server_ok_def units_of_def)
  ultimately show ?thesis
    by (simp add: gw_good_def)
qed

lemma gw_heap_good:
  assumes "gw_good u e" "p \<notin> set (connections_list u)" "0 \<le> n" "n < max_connections u"
  shows "gw_good (u\<lparr>next_conid := n, connection := (connection u)(p := c)\<rparr>) e"
proof -
  note g = gw_good_tables [OF assms(1)]
  let ?u = "u\<lparr>next_conid := n, connection := (connection u)(p := c)\<rparr>"
  have "keys_ok ?u"
  proof -
    have "inj_on (\<lambda>q. conaddr (((connection u)(p := c)) q)) (set (connections_list u)) \<longleftrightarrow> inj_on (\<lambda>q. conaddr (connection u q)) (set (connections_list u))"
      "inj_on (\<lambda>q. conid (((connection u)(p := c)) q)) (set (connections_list u)) \<longleftrightarrow> inj_on (\<lambda>q. conid (connection u q)) (set (connections_list u))"
      using assms(2) by (auto intro!: inj_on_cong)
    then show ?thesis
      using g(3) assms(2) by (auto simp: keys_ok_def)
  qed
  moreover have "tables_ok ?u" "sizes_ok ?u" "server_ok ?u e"
    using g assms(3,4) by (simp_all add: tables_ok_def sizes_ok_def server_ok_def units_of_def)
  moreover have "jobs_ok ?u (memory e) (pending e)"
    by (rule jobs_ok_cong [of u]) (use g(4) assms(2) in \<open>auto simp: parts_ok_def\<close>)
  then have "parts_ok ?u e"
    using g(4) assms(2) by (auto simp: parts_ok_def)
  ultimately show ?thesis
    by (simp add: gw_good_def)
qed

lemma gw_init_ok:
  assumes "gw_good u e" "num_connections u < max_connections u" "find_connection_by_conaddr u ca = None"
    "sender_address (local_addr ca)" "sender_address (remote_addr ca)" "int (length data) \<le> udp_mtu u"
    "case new_connection w of None \<Rightarrow> True | Some p \<Rightarrow> (Struct, p) \<notin> held e" "Reuse (data_at w) \<in> set (pending e)"
    "memory e (data_at w) = data"
  shows "\<exists>u' cs e'. connection_init w u ca flags data = Some (u', cs) \<and> gw_execs cs e = Some e' \<and> gw_good u' e' \<and> sent e' = sent e \<and>
    (new_connection w = Some p \<and> flow_ok w \<longrightarrow> connections_list u' = connections_list u @ [p] \<and>
       (\<exists>i. connection u' = (connection u)(p := \<lparr>conaddr = ca, first_flags = flags, first_data = data_at w,
          first_data_len = int (length data), conid = i\<rparr>)) \<and>
       p \<notin> set (connections_list u) \<and> pending e' = First p # pending e \<and> memory e' = memory e)"
proof (cases "new_connection w")
  case None
  then show ?thesis
    using assms by (simp add: connection_init_def Let_def)
next
  case (Some p')
  note g = gw_good_tables [OF assms(1)]
  have new: "p' \<notin> set (connections_list u)"
    using assms(7) Some g(4) by (auto simp: parts_ok_def)
  have held: "held e = UNIV \<times> set (connections_list u)"
    using g(4) by (simp add: parts_ok_def)
  have "First p' \<notin> set (pending e)"
    using g(4) new jobs_ok_in [of u "memory e" "pending e" p'] by (auto simp: parts_ok_def)
  then have fj: "removeAll (First p') (pending e) = pending e"
    by simp
  have m: "max_connections u \<le> 65536"
    using g(1) by (simp add: sizes_ok_def)
  obtain n where n: "find_unused_conid u = Some ((u\<lparr>next_conid := n\<rparr>, word_of_int n), [AssertThat True])" "0 \<le> n"
    "n < max_connections u" "find_connection_by_conid u (word_of_int n) = None"
    using unused_found [OF g(2) assms(2) m] by blast
  let ?c = "\<lparr>conaddr = ca, first_flags = flags, first_data = data_at w, first_data_len = int (length data), conid = word_of_int n\<rparr>"
  have un: "(Send_Queue, pp_mtu u) \<in> units e"
    using g(5) by (simp add: server_ok_def units_of_def)
  have sz: "0 \<le> udpgw_mtu u" "udpgw_mtu u \<le> PACKETPROTO_MAXPAYLOAD" "pp_mtu u = 2 + udpgw_mtu u" "0 < send_buffer_size u"
    using g(1) by (simp_all add: sizes_ok_def)
  show ?thesis
  proof (cases "flow_ok w")
    case True
    have ca: "find_connection_by_conaddr (u\<lparr>next_conid := n, connection := (connection u)(p' := ?c)\<rparr>) ca = None"
      using assms(3) new g(2) unfolding find_connection_by_conaddr_def by (auto simp: find_None_iff tables_ok_def)
    have ci: "find_connection_by_conid (u\<lparr>next_conid := n, connection := (connection u)(p' := ?c),
        connections_tree_by_conaddr := p' # connections_tree_by_conaddr u\<rparr>) (word_of_int n) = None"
      using n(4) new g(2) unfolding by_conid_None by (auto simp: tables_ok_def)
    let ?u = "u\<lparr>next_conid := n, connection := (connection u)(p' := ?c), connections_tree_by_conaddr := p' # connections_tree_by_conaddr u,
       connections_tree_by_conid := p' # connections_tree_by_conid u, connections_list := connections_list u @ [p'],
       num_connections := num_connections u + 1\<rparr>"
    let ?e = "e\<lparr>pending := First p' # pending e, held := UNIV \<times> insert p' (set (connections_list u)),
       flow_mtu := (flow_mtu e)(p' := udpgw_mtu u)\<rparr>"
    let ?cs = "[AssertThat True, AssertThat True, AssertThat True, Obtain Struct p', AssertThat True, Obtain FirstJob p', SetFirstJob p',
       Obtain Queue_Flow p', ProtoFlowInit p' (udpgw_mtu u) (send_buffer_size u) (pp_mtu u) True, AssertThat True, AssertThat True]"
    have "gw_good ?u ?e"
      by (rule gw_new_good [OF assms(1,2) new n(2-4) assms(3-6) refl assms(8,9)])
    moreover have "connection_init w u ca flags data = Some (?u, ?cs)"
      using True Some assms(2,3,6) n(1) ca ci
      by (simp add: connection_init_def Let_def insert_by_conaddr_def insert_by_conid_def)
    moreover have "gw_execs ?cs e = Some ?e"
      using new held un sz by (simp add: held_all fj)
    ultimately show ?thesis
      using Some new by (intro exI [of _ ?u] exI [of _ ?cs] exI [of _ ?e]) (auto simp del: gw_execs.simps fun_upd_apply)
  next
    case False
    have "e\<lparr>held := UNIV \<times> set (connections_list u), pending := pending e\<rparr> = e"
      by (simp add: flip: held)
    then have "gw_execs (snd (the (connection_init w u ca flags data))) e = Some e"
      using False Some assms(2,3,6) n(1) new held un sz fj by (simp add: connection_init_def Let_def held_all)
    then show ?thesis
      using False Some assms(2,3,6) n(1) gw_heap_good [OF assms(1) new n(2,3), of ?c]
      by (simp add: connection_init_def Let_def del: gw_execs.simps)
  qed
qed


text \<open>The connections as a cache of pairs of addresses, the least recently used one first.\<close>

definition recent :: "UdpGwClient \<Rightarrow> UdpGwClient_conaddr list" where
  "recent u = map (\<lambda>p. conaddr (connection u p)) (connections_list u)"

definition lru_use :: "nat \<Rightarrow> 'a \<Rightarrow> 'a list \<Rightarrow> 'a list" where
  "lru_use n a xs = (if a \<in> set xs then remove1 a xs @ [a] else if length xs = n then tl xs @ [a] else xs @ [a])"

lemma map_remove1_inj: "inj_on f (set xs) \<Longrightarrow> x \<in> set xs \<Longrightarrow> map f (remove1 x xs) = remove1 (f x) (map f xs)"
proof (induction xs)
  case (Cons y xs)
  then show ?case
    by (cases "x = y") (auto simp: inj_on_def)
qed simp

lemma recent_front:
  assumes "gw_good u e" "p \<in> set (connections_list u)"
  shows "recent (move_to_front p u) = remove1 (conaddr (connection u p)) (recent u) @ [conaddr (connection u p)]"
proof -
  have "inj_on (\<lambda>p. conaddr (connection u p)) (set (connections_list u))"
    using gw_good_tables(3) [OF assms(1)] by (simp add: keys_ok_def)
  from map_remove1_inj [OF this assms(2)] show ?thesis
    by (simp add: recent_def move_to_front_def)
qed

lemma recent_length: "gw_good u e \<Longrightarrow> int (length (recent u)) = num_connections u"
  using gw_good_tables(2) [of u e] by (simp add: recent_def tables_ok_def)

text \<open>What a submitted packet does: for a known pair the packet is sent; when all connections are taken, the least recently used one gets the
  pair, and the packet is sent with the flag for rebinding; else a new connection will send it in its job.\<close>

definition submitted :: "gw_world \<Rightarrow> UdpGwClient_conaddr \<Rightarrow> byte \<Rightarrow> bytes \<Rightarrow> UdpGwClient \<Rightarrow> gw_env \<Rightarrow> UdpGwClient \<Rightarrow> gw_env \<Rightarrow> bool" where
  "submitted w a f d u e u' e' =
     (if a \<in> set (recent u)
      then \<exists>p\<in>set (connections_list u). conaddr (connection u p) = a \<and> connection u' = connection u \<and>
        e' = packet_sent w p (message_to (conid (connection u p)) (remote_addr a) f d) e
      else if num_connections u = max_connections u
      then let p = hd (connections_list u)
        in connection u' = (connection u)(p := (connection u p)\<lparr>conaddr := a\<rparr>) \<and> a \<in> set (recent u') \<and>
           e' = packet_sent w p (message_to (conid (connection u p)) (remote_addr a) (f OR UDPGW_CLIENT_FLAG_REBIND) d) e
      else sent e' = sent e \<and>
        (\<forall>p. new_connection w = Some p \<and> flow_ok w \<longrightarrow> connections_list u' = connections_list u @ [p] \<and>
           (\<exists>i. connection u' = (connection u)(p := \<lparr>conaddr = a, first_flags = f, first_data = data_at w,
              first_data_len = int (length d), conid = i\<rparr>)) \<and>
           p \<notin> set (connections_list u) \<and> pending e' = First p # pending e \<and> memory e' = memory e))"

lemma gw_execs_True: "gw_execs ([AssertThat True, AssertThat True, AssertThat True] @ cs) e = gw_execs cs e"
  by simp

lemma gw_submit_runs:
  assumes "gw_good u e" "sender_address l" "sender_address r" "int (length d) \<le> udp_mtu u"
    "case new_connection w of None \<Rightarrow> True | Some p \<Rightarrow> (Struct, p) \<notin> held e" "Reuse (data_at w) \<in> set (pending e)"
    "memory e (data_at w) = d"
  shows "\<exists>u' cs e'. UdpGwClient_SubmitPacket w u l r dns d = Some (u', cs) \<and> gw_execs cs e = Some e' \<and> gw_good u' e' \<and>
    submitted w \<lparr>local_addr = l, remote_addr = r\<rparr> (if dns then UDPGW_CLIENT_FLAG_DNS else 0) d u e u' e' \<and>
    (new_connection w \<noteq> None \<and> flow_ok w \<longrightarrow>
       recent u' = lru_use (nat (max_connections u)) \<lparr>local_addr = l, remote_addr = r\<rparr> (recent u))"
proof -
  let ?ca = "\<lparr>local_addr = l, remote_addr = r\<rparr>" and ?f = "if dns then UDPGW_CLIENT_FLAG_DNS else 0"
  let ?pre = "[AssertThat True, AssertThat True, AssertThat True]"
  note g = gw_good_tables [OF assms(1)]
  have pre: "(case l of BAddr_IPv4 _ _ \<Rightarrow> True | BAddr_IPv6 _ _ \<Rightarrow> True | _ \<Rightarrow> False) = True"
    "(case r of BAddr_IPv4 _ _ \<Rightarrow> True | BAddr_IPv6 _ _ \<Rightarrow> True | _ \<Rightarrow> False) = True"
    using assms(2,3) by (auto simp: sender_address_def split: BAddr.splits)
  have len: "int (length (recent u)) = num_connections u"
    by (rule recent_length [OF assms(1)])
  have L: "set (connections_tree_by_conaddr u) = set (connections_list u)"
    using g(2) by (simp add: tables_ok_def)
  show ?thesis
  proof (cases "find_connection_by_conaddr u ?ca")
    case (Some p)
    then have p: "p \<in> set (connections_list u)" "conaddr (connection u p) = ?ca"
      using by_conaddr_Some [OF g(6), of ?ca p] assms(2,3) L by auto
    let ?u = "move_to_front p u"
    let ?e = "packet_sent w p (message_to (conid (connection u p)) r ?f d) e"
    have gu: "gw_good ?u e"
      by (rule gw_front_good [OF assms(1) p(1)])
    have "gw_message ?u p ?f d = message_to (conid (connection u p)) r ?f d"
      using gw_message_to [of ?u p] p(2) assms(3) by simp
    then have s: "gw_execs (snd (connection_send w ?u p ?f d)) e = Some ?e"
      using gw_send_runs [OF gu, of p d w ?f] assms(4) by simp
    have r: "UdpGwClient_SubmitPacket w u l r dns d = Some (?u, ?pre @ snd (connection_send w ?u p ?f d))"
      using assms(4) by (simp add: UdpGwClient_SubmitPacket_def Let_def Some connection_send_eq pre)
    have known: "?ca \<in> set (recent u)"
      using p unfolding recent_def by force
    then have "recent ?u = lru_use (nat (max_connections u)) ?ca (recent u)"
      using recent_front [OF assms(1) p(1)] p by (simp add: lru_use_def)
    moreover have "submitted w ?ca ?f d u e ?u ?e"
      using known p by (auto simp: submitted_def)
    ultimately show ?thesis
      unfolding r using s packet_sent_good [OF gu]
      by (intro exI [of _ ?u] exI [of _ "?pre @ snd (connection_send w ?u p ?f d)"] exI [of _ ?e]) (simp only: gw_execs_True simp_thms)
  next
    case none: None
    then have new: "?ca \<notin> set (recent u)"
      using by_conaddr_None [OF g(6), of ?ca] assms(2,3) L by (auto simp: recent_def)
    show ?thesis
    proof (cases "num_connections u = max_connections u")
      case True
      obtain u1 p cs where q: "reuse_connection u ?ca = ((u1, p), cs)" "gw_execs cs e = Some e" "gw_good u1 e" "p \<in> set (connections_list u1)"
        "p = hd (connections_list u)" "connections_list u1 = connections_list u" "udp_mtu u1 = udp_mtu u"
        "connection u1 = (connection u)(p := (connection u p)\<lparr>conaddr := ?ca\<rparr>)"
        using gw_reuse_ok [OF assms(1) none True] assms(2,3) by auto
      let ?u = "move_to_front p u1" and ?g = "?f OR UDPGW_CLIENT_FLAG_REBIND"
      let ?e = "packet_sent w p (message_to (conid (connection u p)) r ?g d) e"
      have gu: "gw_good ?u e"
        by (rule gw_front_good [OF q(3,4)])
      have "gw_message ?u p ?g d = message_to (conid (connection u p)) r ?g d"
        using gw_message_to [of ?u p ?g d] assms(3) by (simp add: q(8))
      then have s: "gw_execs (snd (connection_send w ?u p ?g d)) e = Some ?e"
        using gw_send_runs [OF gu, of p d w ?g] assms(4) q(7) by simp
      have r: "UdpGwClient_SubmitPacket w u l r dns d = Some (?u, ?pre @ cs @ snd (connection_send w ?u p ?g d))"
        using assms(4) True by (simp add: UdpGwClient_SubmitPacket_def Let_def none connection_send_eq pre q(1))
      have re: "recent ?u = tl (recent u) @ [?ca]"
      proof -
        obtain ps where ps: "connections_list u = p # ps"
          using q(4-6) by (cases "connections_list u") auto
        then have "p \<notin> set ps"
          using g(2) by (simp add: tables_ok_def)
        moreover have "connections_list ?u = ps @ [p]"
          by (simp add: move_to_front_def q(6) ps)
        ultimately show ?thesis
          by (simp add: recent_def q(8) ps)
      qed
      moreover have "length (recent u) = nat (max_connections u)"
        using len True by linarith
      ultimately have "recent ?u = lru_use (nat (max_connections u)) ?ca (recent u)"
        using new by (simp add: lru_use_def)
      moreover have "submitted w ?ca ?f d u e ?u ?e"
        using new True q(5,8) re by (simp add: submitted_def Let_def)
      moreover have "gw_execs (?pre @ cs @ snd (connection_send w ?u p ?g d)) e = Some ?e"
        by (simp add: gw_execs_append q(2) s)
      ultimately show ?thesis
        unfolding r using packet_sent_good [OF gu]
        by (intro exI [of _ ?u] exI [of _ "?pre @ cs @ snd (connection_send w ?u p ?g d)"] exI [of _ ?e]) (simp only: simp_thms)
    next
      case False
      then have lt: "num_connections u < max_connections u"
        using g(2) by (simp add: tables_ok_def)
      have "sender_address (local_addr ?ca)" "sender_address (remote_addr ?ca)"
        using assms(2,3) by simp_all
      note ini = gw_init_ok [OF assms(1) lt none this assms(4-7), of ?f]
      obtain u' cs e' where x: "connection_init w u ?ca ?f d = Some (u', cs)" "gw_execs cs e = Some e'" "gw_good u' e'" "sent e' = sent e"
        using ini by blast
      have p: "connections_list u' = connections_list u @ [p]" "p \<notin> set (connections_list u)" "pending e' = First p # pending e"
        "memory e' = memory e" "\<exists>i. connection u' = (connection u)(p := \<lparr>conaddr = ?ca, first_flags = ?f, first_data = data_at w,
           first_data_len = int (length d), conid = i\<rparr>)"
        if "new_connection w = Some p" "flow_ok w" for p
        using ini [of p] that x(1,2) by simp_all
      have c: "recent u' = lru_use (nat (max_connections u)) ?ca (recent u)" if nw: "new_connection w \<noteq> None" and fo: "flow_ok w"
      proof -
        obtain q where q: "new_connection w = Some q"
          using nw by blast
        have "recent u' = recent u @ [?ca]"
          using p(1,2,5) [OF q fo] by (auto simp: recent_def)
        moreover have "length (recent u) \<noteq> nat (max_connections u)"
          using len lt by linarith
        ultimately show ?thesis
          using new by (simp add: lru_use_def)
      qed
      then have c': "new_connection w \<noteq> None \<and> flow_ok w \<longrightarrow> recent u' = lru_use (nat (max_connections u)) ?ca (recent u)"
        by blast
      have "submitted w ?ca ?f d u e u' e'"
        using new False x(4) p by (simp add: submitted_def)
      moreover have "UdpGwClient_SubmitPacket w u l r dns d = Some (u', ?pre @ cs)"
        using assms(4) False by (simp add: UdpGwClient_SubmitPacket_def Let_def none pre x(1))
      ultimately show ?thesis
        using x(2,3) c' by (intro exI [of _ u'] exI [of _ "?pre @ cs"] exI [of _ e']) (simp only: gw_execs_True simp_thms)
    qed
  qed
qed


lemma received_from_cases:
  assumes "gw_good u e" "sender_address remote"
  shows "received_from u i remote d = (u, []) \<or>
    (\<exists>p\<in>set (connections_list u). conid (connection u p) = i \<and> remote_addr (conaddr (connection u p)) = remote \<and> int (length d) \<le> udp_mtu u \<and>
       received_from u i remote d = (move_to_front p u, [HandlerReceived (local_addr (conaddr (connection u p))) remote d]))"
proof (cases "int (length d) > udp_mtu u \<or> find_connection_by_conid u i = None")
  case True
  then show ?thesis by (auto simp: received_from_def)
next
  case False
  note g = gw_good_tables [OF assms(1)]
  from False obtain p where p: "find_connection_by_conid u i = Some p"
    by blast
  have L: "set (connections_tree_by_conid u) = set (connections_list u)"
    using g(2) by (simp add: tables_ok_def)
  then have "inj_on (\<lambda>p. conid (connection u p)) (set (connections_tree_by_conid u))"
    using g(3) by (simp add: keys_ok_def)
  then have q: "p \<in> set (connections_list u)" "conid (connection u p) = i"
    using p L by (simp_all add: by_conid_Some)
  have "sender_address (remote_addr (conaddr (connection u p)))"
    using g(3) q(1) by (simp add: keys_ok_def)
  then have "BAddr_CompareOrder (remote_addr (conaddr (connection u p))) remote = 0 \<longleftrightarrow> remote_addr (conaddr (connection u p)) = remote"
    using assms(2) by (rule same_address)
  then show ?thesis
    using p q False by (auto simp: received_from_def Let_def)
qed

lemma recv_parts:
  "length d \<ge> 24 \<or> sender_address (BAddr_InitIPv4 x y)"
  "18 \<le> length (rest :: bytes) \<Longrightarrow> sender_address (BAddr_InitIPv6 (take 16 rest) y)"
  by (simp_all add: sender_address_def BAddr_InitIPv4_def BAddr_InitIPv6_def BAddr_MakeIPv4_def BAddr_MakeIPv6_def)

lemma recv_cases:
  assumes "gw_good u e"
  obtains (dropped) "recv_interface_handler_send u d =
      (u, [AssertThat (have_server u), AssertThat (int (length d) \<le> udpgw_mtu u), RecvDone])"
  | (taken) p n where "p \<in> set (connections_list u)" "int (length (drop n d)) \<le> udp_mtu u" "n \<le> length d"
      "recv_interface_handler_send u d = (move_to_front p u, [AssertThat (have_server u), AssertThat (int (length d) \<le> udpgw_mtu u), RecvDone,
         HandlerReceived (local_addr (conaddr (connection u p))) (remote_addr (conaddr (connection u p))) (drop n d)])"
proof -
  let ?pre = "[AssertThat (have_server u), AssertThat (int (length d) \<le> udpgw_mtu u), RecvDone]" and ?rest = "drop 3 d"
  let ?f = "ltoh8 (d ! 0)" and ?i = "ltoh16 (le16_of (take 2 (drop 1 d)))"
  let ?a6 = "BAddr_InitIPv6 (take 16 ?rest) (le16_of (take 2 (drop 16 ?rest)))"
  let ?a4 = "BAddr_InitIPv4 (le32_of (take 4 ?rest)) (le16_of (take 2 (drop 4 ?rest)))"
  have s: "(\<exists>a n. sender_address a \<and> n \<le> length d \<and> recv_interface_handler_send u d =
      (case received_from u ?i a (drop n d) of (u1, cs) \<Rightarrow> (u1, ?pre @ cs))) \<or> recv_interface_handler_send u d = (u, ?pre)"
  proof (cases "length d < 3 \<or> (?f AND UDPGW_CLIENT_FLAG_IPV6 \<noteq> 0 \<and> length ?rest < 18) \<or>
      (?f AND UDPGW_CLIENT_FLAG_IPV6 = 0 \<and> length ?rest < 6)")
    case True
    then have "recv_interface_handler_send u d = (u, ?pre)"
      by (auto simp: recv_interface_handler_send_def Let_def)
    then show ?thesis ..
  next
    case False
    show ?thesis
    proof (cases "?f AND UDPGW_CLIENT_FLAG_IPV6 = 0")
      case z: True
      have "recv_interface_handler_send u d = (case received_from u ?i ?a4 (drop 9 d) of (u1, cs) \<Rightarrow> (u1, ?pre @ cs))"
        using False z by (simp add: recv_interface_handler_send_def Let_def)
      moreover have "sender_address ?a4"
        by (simp add: sender_address_def BAddr_InitIPv4_def BAddr_MakeIPv4_def)
      moreover have "9 \<le> length d"
        using False z by (simp; linarith)
      ultimately show ?thesis by blast
    next
      case nz: False
      have "recv_interface_handler_send u d = (case received_from u ?i ?a6 (drop 21 d) of (u1, cs) \<Rightarrow> (u1, ?pre @ cs))"
        using False nz by (simp add: recv_interface_handler_send_def Let_def)
      moreover have "sender_address ?a6"
        using False nz by (simp add: sender_address_def BAddr_InitIPv6_def BAddr_MakeIPv6_def)
      moreover have "21 \<le> length d"
        using False nz by (simp; linarith)
      ultimately show ?thesis by blast
    qed
  qed
  then show ?thesis
  proof (elim disjE exE conjE)
    fix a n
    assume a: "sender_address a" "n \<le> length d" "recv_interface_handler_send u d =
      (case received_from u ?i a (drop n d) of (u1, cs) \<Rightarrow> (u1, ?pre @ cs))"
    from received_from_cases [OF assms a(1), of ?i "drop n d"] show ?thesis
    proof (elim disjE bexE conjE)
      assume "received_from u ?i a (drop n d) = (u, [])"
      then show ?thesis
        using a(3) by (intro dropped) simp
    next
      fix p
      assume p: "p \<in> set (connections_list u)" "remote_addr (conaddr (connection u p)) = a" "int (length (drop n d)) \<le> udp_mtu u"
        "received_from u ?i a (drop n d) = (move_to_front p u, [HandlerReceived (local_addr (conaddr (connection u p))) a (drop n d)])"
      show ?thesis
        by (rule taken [OF p(1,3) a(2)]) (use a(3) p(2,4) in simp)
    qed
  qed (use dropped in simp)
qed

lemma gw_good_delivered: "gw_good u e \<Longrightarrow> gw_good u (e\<lparr>receiving := False, delivered := x\<rparr>)"
  by (simp add: gw_good_def parts_ok_def server_ok_def)

lemma gw_receive_ok:
  assumes "gw_good u e" "have_server u" "int (length d) \<le> udpgw_mtu u"
  shows "gw_returns gw_good (recv_interface_handler_send u d) (e\<lparr>receiving := True\<rparr>)"
  using assms(1)
proof (cases rule: recv_cases [of u e d])
  case dropped
  have "gw_good u (e\<lparr>receiving := False\<rparr>)"
    using assms(1) by (simp add: gw_good_def parts_ok_def server_ok_def)
  then show ?thesis
    using assms dropped by simp
next
  case (taken p n)
  have "gw_good (move_to_front p u) (e\<lparr>receiving := False, delivered := x\<rparr>)" for x
    using gw_front_good [OF assms(1) taken(1)] by (rule gw_good_delivered)
  then show ?thesis
    using assms taken(4) by simp
qed

section \<open>Reachable states\<close>

lemma unit_facts:
  assumes "units e = units_of u"
  shows "made x e \<longleftrightarrow> x \<in> {Connector, Monitor, Send_Queue, Keepalive_Flow} \<or> have_server u"
  using assms by (cases x) (auto simp: made_def units_of_def)

lemma made_less [simp]: "made x (e\<lparr>units := {y. y \<in> units e \<and> fst y \<noteq> z}\<rparr>) \<longleftrightarrow> made x e \<and> x \<noteq> z"
  by (auto simp: made_def)

lemma gw_connect_ok:
  assumes "gw_good u e" "\<not> have_server u"
  shows "gw_returns gw_good (fst (UdpGwClient_ConnectServer u b)) e"
proof -
  note g = gw_good_tables [OF assms(1)]
  have un: "units e = units_of u" and c: "\<not> connected e" "\<not> server_error e" "\<not> receiving e"
    using g(5) assms(2) by (auto simp: server_ok_def)
  have sz: "0 \<le> udpgw_mtu u" "udpgw_mtu u \<le> PACKETPROTO_MAXPAYLOAD" "0 \<le> pp_mtu u"
    using g(1) by (simp_all add: sizes_ok_def)
  show ?thesis
  proof (cases b)
    case True
    let ?u = "u\<lparr>have_server := True\<rparr>"
    let ?e = "e\<lparr>units := insert (Stream_Sender, pp_mtu u) (insert (Decoder, udpgw_mtu u) (insert (Recv_If, udpgw_mtu u) (units e))), connected := True\<rparr>"
    have "server_ok ?u ?e"
      using g(5) un assms(2) by (auto simp: server_ok_def units_of_def)
    then have "gw_good ?u ?e"
      using g by (simp add: gw_good_def sizes_ok_def tables_ok_def keys_ok_def parts_ok_def)
    moreover have "(Connector, pp_mtu u) \<in> units e"
      by (simp add: un units_of_def)
    ultimately show ?thesis
      using True c sz assms(2) unit_facts [OF un]
      by (force simp: UdpGwClient_ConnectServer_def can_make_def made_def)
  next
    case False
    have "gw_good u (e\<lparr>units := units_of u, receiving := False, server_error := False\<rparr>)"
      using assms(1) c un by (simp add: gw_good_def parts_ok_def server_ok_def)
    moreover have "{y. (y = (Recv_If, udpgw_mtu u) \<or> y \<in> units e) \<and> fst y \<noteq> Recv_If} = units_of u"
      using assms(2) by (auto simp: un units_of_def)
    moreover have "\<not> made Recv_If e" "\<not> made Decoder e"
      using assms(2) unit_facts [OF un] by simp_all
    ultimately show ?thesis
      using False c sz assms(2) by (simp add: UdpGwClient_ConnectServer_def can_make_def can_unmake_def) (simp add: made_def)
  qed
qed

lemma gw_disconnect_ok:
  assumes "gw_good u e" "have_server u"
  shows "gw_returns gw_good (UdpGwClient_DisconnectServer u) e"
proof -
  note g = gw_good_tables [OF assms(1)]
  have un: "units e = units_of u" and c: "connected e"
    using g(5) assms(2) by (auto simp: server_ok_def)
  let ?u = "u\<lparr>have_server := False\<rparr>"
  let ?e = "e\<lparr>connected := False, units := units_of ?u, receiving := False, server_error := False\<rparr>"
  have "server_ok ?u ?e"
    using g(5) by (auto simp: server_ok_def units_of_def)
  then have good: "gw_good ?u ?e"
    using g by (simp add: gw_good_def sizes_ok_def tables_ok_def keys_ok_def parts_ok_def)
  have s: "{y. ((y \<in> units e \<and> fst y \<noteq> Stream_Sender) \<and> fst y \<noteq> Decoder) \<and> fst y \<noteq> Recv_If} = units_of ?u"
    using assms(2) by (auto simp: un units_of_def)
  have m: "made Stream_Sender e" "made Decoder e" "made Recv_If e"
    using assms(2) unit_facts [OF un] by simp_all
  have "gw_execs free_server e = Some ?e"
    using c m s by (simp add: free_server_def can_unmake_def) (force simp: made_def)
  then show ?thesis
    using assms(2) good by (simp add: UdpGwClient_DisconnectServer_def gw_returns_def)
qed


lemma gw_idle_ok: "gw_good u e \<Longrightarrow> gw_returns gw_good (send_monitor_handler u) e"
proof -
  assume a: "gw_good u e"
  note g = gw_good_tables [OF a]
  show ?thesis
  proof (cases "keepalive_sending u")
    case False
    let ?u = "u\<lparr>keepalive_sending := True\<rparr>"
    have "gw_good ?u (e\<lparr>ka_busy := True\<rparr>)"
      using g by (simp add: gw_good_def sizes_ok_def tables_ok_def keys_ok_def parts_ok_def server_ok_def units_of_def)
    moreover have "(Keepalive_Flow, pp_mtu u) \<in> units e" "\<not> ka_busy e" "5 \<le> pp_mtu u"
      using g(1,5) False by (auto simp: server_ok_def units_of_def sizes_ok_def)
    ultimately show ?thesis
      using False
      by (force simp: send_monitor_handler_def UdpGwClient__keepalive_packet_def udpgw_header_def le16_bytes_def image_def)
  qed (use a in \<open>simp add: send_monitor_handler_def\<close>)
qed

lemma gw_keepalive_ok:
  assumes "gw_good u e" "ka_busy e"
  shows "gw_returns gw_good (keepalive_if_handler_done u) (e\<lparr>ka_busy := False\<rparr>)"
proof -
  note g = gw_good_tables [OF assms(1)]
  have "gw_good (u\<lparr>keepalive_sending := False\<rparr>) (e\<lparr>ka_busy := False\<rparr>)"
    using g by (simp add: gw_good_def sizes_ok_def tables_ok_def keys_ok_def parts_ok_def server_ok_def units_of_def)
  then show ?thesis
    using g(5) assms(2) by (simp add: keepalive_if_handler_done_def server_ok_def)
qed

lemma gw_decoder_ok:
  assumes "gw_good u e" "have_server u" "\<not> server_error e"
  shows "gw_returns gw_good (decoder_handler_error u) e"
proof -
  have "gw_good u (e\<lparr>server_error := True\<rparr>)"
    using assms by (simp add: gw_good_def parts_ok_def server_ok_def)
  then show ?thesis
    using assms(2,3) by (simp add: decoder_handler_error_def)
qed

lemma gw_do_returns: "gw_returns P r e \<longleftrightarrow> (\<exists>e'. gw_do r e = Some (fst r, e') \<and> P (fst r) e')"
  by (auto simp: gw_returns_def gw_do_def)

lemma gw_submit_fire:
  assumes "gw_good u e" "gw_enabled w (Submit l r dns d) (u, e)"
  shows "\<exists>u' e'. gw_fire w (Submit l r dns d) (u, e) = Some (u', e') \<and> gw_good u' e' \<and>
    submitted w \<lparr>local_addr = l, remote_addr = r\<rparr> (if dns then UDPGW_CLIENT_FLAG_DNS else 0) d u (data_comes w d e) u' e' \<and>
    (new_connection w \<noteq> None \<and> flow_ok w \<longrightarrow>
       recent u' = lru_use (nat (max_connections u)) \<lparr>local_addr = l, remote_addr = r\<rparr> (recent u))"
proof -
  have h: "sender_address l" "sender_address r" "int (length d) \<le> udp_mtu u" "Reuse (data_at w) \<notin> set (pending e)"
    "case new_connection w of None \<Rightarrow> True | Some p \<Rightarrow> (Struct, p) \<notin> held (data_comes w d e)"
    using assms(2) by (simp_all split: option.splits)
  note runs = gw_submit_runs [OF data_comes_good [OF assms(1) h(4), where d = d] h(1-3,5) data_comes_fields(3,4), of dns]
  then obtain u' cs e' where x: "UdpGwClient_SubmitPacket w u l r dns d = Some (u', cs)" "gw_execs cs (data_comes w d e) = Some e'"
    "gw_good u' e'"
    by blast
  then have "gw_fire w (Submit l r dns d) (u, e) = Some (u', e')"
    by (simp add: gw_do_def)
  then show ?thesis
    using runs x by auto
qed

lemma gw_fire_ok:
  assumes "gw_good u e" "gw_enabled w ev (u, e)"
  shows "\<exists>u' e'. gw_fire w ev (u, e) = Some (u', e') \<and> gw_good u' e'"
proof -
  have keep: "gw_returns gw_good r e0 \<Longrightarrow> \<exists>u' e'. gw_do r e0 = Some (u', e') \<and> gw_good u' e'" for r e0
    unfolding gw_do_returns by blast
  show ?thesis
  proof (cases ev)
    case (Submit l r dns d)
    then show ?thesis
      using gw_submit_fire [OF assms(1)] assms(2) by blast
  next
    case (First_Job p)
    then obtain js where "pending e = First p # js"
      using assms(2) by (auto split: list.splits)
    note r = gw_first_job_runs [OF assms(1) this]
    show ?thesis
      using r(1) [of w] r(2) [of w] packet_sent_good [OF r(3)] First_Job \<open>pending e = First p # js\<close> by (simp add: gw_do_def)
  next
    case (Buffer_Reused d)
    then show ?thesis
      using gw_buffer_ok [OF assms(1)] assms(2) by (auto split: list.splits gw_job.splits)
  next
    case (From_Server d)
    then have h: "have_server u" and "\<exists>m. (Recv_If, m) \<in> units e \<and> int (length d) \<le> m"
      using assms(2) by auto
    moreover have "units e = units_of u"
      using gw_good_tables(5) [OF assms(1)] by (simp add: server_ok_def)
    ultimately have "int (length d) \<le> udpgw_mtu u"
      by (auto simp: units_of_def split: if_splits)
    then show ?thesis using keep [OF gw_receive_ok [OF assms(1) h]] From_Server by simp
  next
    case Decoder_Fails
    then show ?thesis using keep [OF gw_decoder_ok [OF assms(1)]] assms(2) by simp
  next
    case Send_Idle
    then show ?thesis using keep [OF gw_idle_ok [OF assms(1)]] by simp
  next
    case Keepalive_Sent
    then show ?thesis using keep [OF gw_keepalive_ok [OF assms(1)]] assms(2) by simp
  next
    case (Connect b)
    then show ?thesis using keep [OF gw_connect_ok [OF assms(1)]] assms(2) by simp
  next
    case Disconnect
    then show ?thesis using keep [OF gw_disconnect_ok [OF assms(1)]] assms(2) by simp
  qed
qed

lemma compute_mtu_exact:
  assumes "0 \<le> n" "n \<le> INT_MAX"
  shows "udpgw_compute_mtu n = (if n + 21 \<le> INT_MAX then n + 21 else -1)"
proof -
  have "bsize_abs (bsize_add (bsize_fromsize 3) (bsize_add (bsize_max (bsize_fromsize 6) (bsize_fromsize 18)) (bsize_fromint n))) =
      Some (nat n + 21)"
    using assms by (simp add: add_exact max_exact fromint_exact lift_size_def fits_def INT_MAX_def nat_less_iff)
  from toint_exact [OF this] show ?thesis
    using assms by (simp add: udpgw_compute_mtu_def)
qed

lemma compute_mtu: "0 \<le> n \<Longrightarrow> n \<le> 65514 \<Longrightarrow> udpgw_compute_mtu n = n + 21"
  by (simp add: compute_mtu_exact INT_MAX_def)

lemma gw_start_ok:
  assumes "UdpGwClient_Init m n max_con buf_size True = (r, True)" "0 \<le> n" "n \<le> 65514" "0 < max_con" "0 < buf_size"
  shows "gw_returns gw_good r gw_blank"
proof -
  note mtu_eq = compute_mtu [OF assms(2,3)]
  let ?u = "m\<lparr>udp_mtu := n, max_connections := (if max_con > UINT16_MAX + 1 then UINT16_MAX + 1 else max_con), send_buffer_size := buf_size,
    udpgw_mtu := n + 21, pp_mtu := n + 21 + int packetproto_header_size, connections_tree_by_conaddr := [], connections_tree_by_conid := [],
    connections_list := [], num_connections := 0, next_conid := 0, keepalive_sending := False, have_server := False\<rparr>"
  let ?k = "n + 21 + int packetproto_header_size"
  let ?e = "gw_blank\<lparr>units := {(Keepalive_Flow, ?k), (Send_Queue, ?k), (Monitor, ?k), (Connector, ?k)}\<rparr>"
  have "gw_good ?u ?e"
    using assms(2-5)
    by (auto simp: gw_good_def sizes_ok_def tables_ok_def keys_ok_def parts_ok_def server_ok_def units_of_def gw_blank_def
        packetproto_header_size_def PACKETPROTO_MAXPAYLOAD_def UINT16_MAX_def)
  then show ?thesis
    using assms
    by (auto simp: UdpGwClient_Init_def Let_def mtu_eq can_make_def made_def gw_blank_def PACKETPROTO_MAXPAYLOAD_def UINT16_MAX_def split: if_splits)
qed

lemma gw_reached_good: "gw_reached (u, e) \<Longrightarrow> gw_good u e"
proof (induction "(u, e)" arbitrary: u e rule: gw_reached.induct)
  case (started m n max_con buf_size r u e)
  then show ?case
    using gw_start_ok [OF started(1-5)] by (auto simp: gw_do_returns)
next
  case (event u0 e0 w ev u e)
  then show ?case
    using gw_fire_ok [of u0 e0 w ev] by fastforce
qed

end
