(* ===== verification/Udpgw_Properties.thy ===== *)
theory Udpgw_Properties
  imports Udpgw_Relay
begin

text \<open>
  What follows for the UDP gateway client: it is safe, its connections are a cache of the least
  recently used pairs, its messages are understood, and it is freed completely; and its connection
  to the server is always made again.
\<close>


section \<open>Freeing\<close>

declare free_connections.simps [simp del]

definition without :: "con_ptr list \<Rightarrow> gw_job list \<Rightarrow> gw_job list" where
  "without ps js = [j \<leftarrow> js. j \<notin> First ` set ps]"

lemma without_simps [simp]: "without [] js = js" "without ps (removeAll (First p) js) = without (p # ps) js"
  by (auto simp: without_def removeAll_filter_not_eq intro: filter_cong)

lemma free_connections_ok:
  assumes "held e = UNIV \<times> set (connections_list u)" "distinct (connections_list u)" "prepared e"
  shows "gw_execs (snd (free_connections u)) e = Some (e\<lparr>held := {}, pending := without (connections_list u) (pending e)\<rparr>) \<and>
    have_server (fst (free_connections u)) = have_server u"
  using assms
proof (induction "connections_list u" arbitrary: u e)
  case Nil
  then show ?case
    by (simp add: free_connections.simps [of u] flip: Nil(1))
next
  case (Cons p ps)
  let ?u = "fst (connection_free u p)"
  let ?e = "e\<lparr>held := UNIV \<times> set ps, pending := removeAll (First p) (pending e)\<rparr>"
  have L: "connections_list u = p # ps"
    using Cons(2) by simp
  have p: "p \<notin> set ps" "distinct ps"
    using Cons.prems(2) unfolding L by simp_all
  have c: "ps = connections_list ?u" "have_server ?u = have_server u"
    by (simp_all add: connection_free_def L)
  have "held ?e = UNIV \<times> set (connections_list ?u)" "distinct (connections_list ?u)" "prepared ?e"
    using p(2) Cons.prems(3) by (simp_all flip: c(1))
  from Cons.hyps(1) [OF c(1) this] have ih: "gw_execs (snd (free_connections ?u)) ?e =
      Some (?e\<lparr>held := {}, pending := without ps (pending ?e)\<rparr>)" "have_server (fst (free_connections ?u)) = have_server u"
    by (simp_all add: c flip: c(1))
  have H: "(x, p) \<in> held e" for x
    using Cons.prems(1) unfolding L by simp
  have h: "held e - {(Proto_Flow, p)} - {(Queue_Flow, p)} - {(FirstJob, p)} - {(Struct, p)} = UNIV \<times> set ps"
    using Cons.prems(1) all_parts p unfolding L by auto
  have "gw_execs (snd (connection_free u p)) e = Some ?e"
    using H Cons.prems(3) by (simp add: connection_free_def flip: h)
  moreover have "free_connections u = (fst (free_connections ?u), snd (connection_free u p) @ snd (free_connections ?u))"
    by (subst free_connections.simps) (simp add: L case_prod_unfold)
  ultimately show ?case
    using ih L by (simp add: gw_execs_append)
qed

lemma gw_free_ok:
  assumes "gw_good u e"
  shows "gw_returns (\<lambda>u' e'. held e' = {} \<and> first_jobs e' = {} \<and> units e' = {} \<and> \<not> connected e') (UdpGwClient_Free u) e"
proof -
  note g = gw_good_tables [OF assms]
  have un: "units e = units_of u" and c: "connected e = have_server u" and pr: "\<not> prepared e"
    using g(5) by (auto simp: server_ok_def)
  let ?e1 = "e\<lparr>prepared := True\<rparr>"
  let ?e2 = "?e1\<lparr>held := {}, pending := without (connections_list u) (pending e)\<rparr>"
  have fj: "first_jobs ?e2 = {}"
    using g(4) jobs_ok_in [of u "memory e" "pending e"] by (auto simp: parts_ok_def first_jobs_def without_def)
  have "held ?e1 = UNIV \<times> set (connections_list u)" "distinct (connections_list u)"
    using g(2,4) by (simp_all add: parts_ok_def tables_ok_def)
  then have f: "gw_execs (snd (free_connections u)) ?e1 = Some ?e2" "have_server (fst (free_connections u)) = have_server u"
    using free_connections_ok [of ?e1 u] by simp_all
  have last: "gw_returns (\<lambda>u' e'. held e' = {} \<and> first_jobs e' = {} \<and> units e' = {} \<and> \<not> connected e')
      (u', [Unmake Keepalive_Flow, Unmake Send_Queue, Unmake Monitor, Unmake Connector]) e3"
    if "units e3 = {(Connector, k), (Monitor, k), (Send_Queue, k), (Keepalive_Flow, k)}" "held e3 = {}" "first_jobs e3 = {}"
      "\<not> connected e3" "prepared e3" for u' e3 k
  proof -
    have s: "{y. ((((y = (Connector, k) \<or> y = (Monitor, k) \<or> y = (Send_Queue, k) \<or> y = (Keepalive_Flow, k)) \<and> fst y \<noteq> Keepalive_Flow) \<and>
        fst y \<noteq> Send_Queue) \<and> fst y \<noteq> Monitor) \<and> fst y \<noteq> Connector} = {}"
      by auto
    show ?thesis
      using that s by (simp add: can_unmake_def made_def first_jobs_def) (force simp: image_def)
  qed
  show ?thesis
  proof (cases "have_server u")
    case False
    then have "gw_returns (\<lambda>u' e'. held e' = {} \<and> first_jobs e' = {} \<and> units e' = {} \<and> \<not> connected e')
      (fst (free_connections u), [Unmake Keepalive_Flow, Unmake Send_Queue, Unmake Monitor, Unmake Connector]) ?e2"
      using fj by (intro last) (simp_all add: un units_of_def c)
    then show ?thesis
      using f False un by (simp add: UdpGwClient_Free_def case_prod_unfold gw_returns_append made_def units_of_def)
  next
    case True
    let ?e3 = "?e2\<lparr>connected := False, units := units_of (u\<lparr>have_server := False\<rparr>), receiving := False, server_error := False\<rparr>"
    have s: "{y. ((y \<in> units e \<and> fst y \<noteq> Stream_Sender) \<and> fst y \<noteq> Decoder) \<and> fst y \<noteq> Recv_If} = units_of (u\<lparr>have_server := False\<rparr>)"
      using True by (auto simp: un units_of_def)
    have m: "made Stream_Sender e" "made Decoder e" "made Recv_If e"
      using True unit_facts [OF un] by simp_all
    have x: "gw_execs free_server ?e2 = Some ?e3"
      using c m s True by (simp add: free_server_def can_unmake_def) (force simp: made_def)
    have "gw_returns (\<lambda>u' e'. held e' = {} \<and> first_jobs e' = {} \<and> units e' = {} \<and> \<not> connected e')
      (fst (free_connections u), [Unmake Keepalive_Flow, Unmake Send_Queue, Unmake Monitor, Unmake Connector]) ?e3"
      using fj by (intro last) (simp_all add: units_of_def first_jobs_def)
    then show ?thesis
      using f True un x by (simp add: UdpGwClient_Free_def case_prod_unfold gw_returns_append made_def units_of_def)
  qed
qed


section \<open>Properties\<close>

fun gw_run_events :: "(gw_world \<times> gw_event) list \<Rightarrow> gw_system \<Rightarrow> gw_system option" where
  "gw_run_events [] s = Some s"
| "gw_run_events ((w, ev) # evs) s =
     (if gw_enabled w ev s then (case gw_fire w ev s of None \<Rightarrow> None | Some s' \<Rightarrow> gw_run_events evs s') else None)"

lemma gw_run_reached: "gw_reached s \<Longrightarrow> gw_run_events evs s = Some s' \<Longrightarrow> gw_reached s'"
proof (induction evs arbitrary: s)
  case (Cons x evs)
  obtain w ev u e where x: "x = (w, ev)" "s = (u, e)"
    by (cases x; cases s)
  then show ?case
    using Cons gw_reached.event [of u e w ev] by (auto split: if_splits option.splits)
qed simp

text \<open>A gateway with room for one connection.\<close>

definition gw_sample :: UdpGwClient where
  "gw_sample = \<lparr>udp_mtu = 100, max_connections = 1, send_buffer_size = 1, udpgw_mtu = 121, pp_mtu = 123,
     connections_tree_by_conaddr = [], connections_tree_by_conid = [], connections_list = [], num_connections = 0, next_conid = 0,
     keepalive_sending = False, have_server = False,
     connection = (\<lambda>_. \<lparr>conaddr = \<lparr>local_addr = BAddr_None, remote_addr = BAddr_None\<rparr>, first_flags = 0, first_data = 0, first_data_len = 0, conid = 0\<rparr>)\<rparr>"

definition gw_sample_env :: gw_env where
  "gw_sample_env = gw_blank\<lparr>units := {(Keepalive_Flow, 123), (Send_Queue, 123), (Monitor, 123), (Connector, 123)}\<rparr>"

definition gw_world_for :: "con_ptr \<Rightarrow> gw_world" where
  "gw_world_for p = \<lparr>data_at = 0, new_connection = Some p, flow_ok = True, has_room = True\<rparr>"

lemma gw_sample_reached: "gw_reached (gw_sample, gw_sample_env)"
proof -
  have "udpgw_compute_mtu 100 = 121"
    by (subst compute_mtu) simp_all
  then have "UdpGwClient_Init gw_sample 100 1 1 True = ((gw_sample, [AssertThat True, AssertThat True, AssertThat True, AssertThat True,
      AssertThat True, Make Connector 123, Make Monitor 123, Make Send_Queue 123, Make Keepalive_Flow 123]), True)"
    by (simp add: UdpGwClient_Init_def gw_sample_def UINT16_MAX_def PACKETPROTO_MAXPAYLOAD_def packetproto_header_size_def)
  then show ?thesis
    by (rule gw_reached.started) (simp_all add: gw_do_def can_make_def made_def gw_sample_env_def gw_blank_def)
qed

definition gw_prefix :: "(gw_world \<times> gw_event) list" where
  "gw_prefix = [(gw_world_for 7, Connect True), (gw_world_for 7, Submit (BAddr_IPv4 1 2) (BAddr_IPv4 3 4) False [9]),
     (gw_world_for 7, First_Job 7), (gw_world_for 7, Buffer_Reused [])]"

lemma gw_sample_run: "map_option (\<lambda>(u, e). (connections_list u, num_connections u, max_connections u, conaddr (connection u 7),
     udp_mtu u, have_server u, server_error e, (Recv_If, 121) \<in> units e, (Struct, 8) \<in> held e, pending e,
     conid (connection u 7)))
    (gw_run_events gw_prefix (gw_sample, gw_sample_env)) =
  Some ([7], 1, 1, \<lparr>local_addr = BAddr_IPv4 1 2, remote_addr = BAddr_IPv4 3 4\<rparr>, 100, True, False, True, False, [], 0)"
  by code_simp

lemma gw_connected:
  obtains u e where "gw_reached (u, e)" "connections_list u = [7]" "num_connections u = 1" "max_connections u = 1"
    "conaddr (connection u 7) = \<lparr>local_addr = BAddr_IPv4 1 2, remote_addr = BAddr_IPv4 3 4\<rparr>" "udp_mtu u = 100" "have_server u"
    "\<not> server_error e" "(Recv_If, 121) \<in> units e" "(Struct, 8) \<notin> held e"
    "pending e = []" "conid (connection u 7) = 0"
proof -
  obtain u e where "gw_run_events gw_prefix (gw_sample, gw_sample_env) = Some (u, e)"
    using gw_sample_run by (cases "gw_run_events gw_prefix (gw_sample, gw_sample_env)") auto
  then show ?thesis
    using gw_run_reached [OF gw_sample_reached] gw_sample_run that by fastforce
qed

text \<open>C10: In every reachable state of the UDP gateway client, whatever the user submits, the server sends and the
  allocator answers, each event is handled: no assertion fails, no connection is used after it was
  freed or found twice, a message is never written outside the buffer of its connection, the search
  for a free number returns, and the job that sends the first packet of a connection reads its data, to which the connection only has a pointer,
  before the buffer with the data is used again.\<close>

theorem udpgw_never_fails:
  assumes "gw_reached (u, e)" "gw_enabled w ev (u, e)"
  shows "\<exists>s. gw_fire w ev (u, e) = Some s \<and> gw_reached s"
  using gw_fire_ok [OF gw_reached_good [OF assms(1)] assms(2)] gw_reached.event [OF assms] by blast

text \<open>A new connection whose first packet is still in the buffer of the device.\<close>

definition gw_new_prefix :: "(gw_world \<times> gw_event) list" where
  "gw_new_prefix = [(gw_world_for 7, Connect True), (gw_world_for 7, Submit (BAddr_IPv4 1 2) (BAddr_IPv4 3 4) False [9])]"

lemma gw_new_run: "map_option (\<lambda>(u, e). (pending e, memory e 0, first_data (connection u 7), first_data_len (connection u 7)))
    (gw_run_events gw_new_prefix (gw_sample, gw_sample_env)) = Some ([First 7, Reuse 0], [9], 0, 1)"
  by code_simp

theorem udpgw_never_fails_witness:
  "\<exists>u e s. pending e = [First 7, Reuse 0] \<and> memory e (first_data (connection u 7)) = [9] \<and>
     gw_fire (gw_world_for 8) (First_Job 7) (u, e) = Some s \<and> gw_reached s"
proof -
  obtain u e where s: "gw_run_events gw_new_prefix (gw_sample, gw_sample_env) = Some (u, e)" "pending e = [First 7, Reuse 0]"
    "memory e 0 = [9]" "first_data (connection u 7) = 0"
    using gw_new_run by auto
  have r: "gw_reached (u, e)"
    using gw_run_reached [OF gw_sample_reached s(1)] .
  have "gw_enabled (gw_world_for 8) (First_Job 7) (u, e)"
    using s(2) by simp
  from udpgw_never_fails [OF r this] obtain t where "gw_fire (gw_world_for 8) (First_Job 7) (u, e) = Some t \<and> gw_reached t"
    by blast
  then show ?thesis
    using s(2-4) by (intro exI [of _ u] exI [of _ e] exI [of _ t]) (simp del: gw_fire.simps)
qed

text \<open>C12: While there is room for a connection, the search for a free number ends, and the number is below the
  limit and used by no connection.\<close>

theorem udpgw_finds_a_number:
  assumes "gw_reached (u, e)" "num_connections u < max_connections u"
  shows "\<exists>n. unused_conid_loop u = Some (u\<lparr>next_conid := n\<rparr>, word_of_int n) \<and> 0 \<le> n \<and> n < max_connections u \<and>
    (\<forall>p\<in>set (connections_list u). conid (connection u p) \<noteq> word_of_int n)"
proof -
  note g = gw_good_tables [OF gw_reached_good [OF assms(1)]]
  obtain n where n: "find_unused_conid u = Some ((u\<lparr>next_conid := n\<rparr>, word_of_int n), [AssertThat True])" "0 \<le> n" "n < max_connections u"
    "find_connection_by_conid u (word_of_int n) = None"
    using unused_found [OF g(2) assms(2)] g(1) by (auto simp: sizes_ok_def)
  then show ?thesis
    using g(2) by (auto simp: find_unused_conid_def by_conid_None tables_ok_def split: option.splits)
qed

theorem udpgw_finds_a_number_witness:
  "\<exists>n. unused_conid_loop gw_sample = Some (gw_sample\<lparr>next_conid := n\<rparr>, word_of_int n) \<and> 0 \<le> n \<and> n < 1"
  using udpgw_finds_a_number [OF gw_sample_reached] by (auto simp: gw_sample_def)



lemma gw_message_parsed:
  assumes "sender_address (remote_addr (conaddr (connection u p)))" "flags AND UDPGW_CLIENT_FLAG_IPV6 = 0" "m = gw_message u p flags data"
  shows "recv_interface_handler_send u m =
    (case received_from u (conid (connection u p)) (remote_addr (conaddr (connection u p))) data of
       (u1, cs) \<Rightarrow> (u1, [AssertThat (have_server u), AssertThat (int (length m) \<le> udpgw_mtu u), RecvDone] @ cs))"
proof (cases "remote_addr (conaddr (connection u p))")
  case (BAddr_IPv4 ip port)
  then show ?thesis
    using assms(2)
    by (simp add: assms(3) gw_message_def Let_def udpgw_header_def udpgw_addr_ipv4_def recv_interface_handler_send_def ltoh8_def htol8_def
        ltoh16_def htol16_def BAddr_InitIPv4_def BAddr_MakeIPv4_def del: le16_of_take le32_of_take)
next
  case (BAddr_IPv6 ip port)
  have "(flags OR x) AND x = x" for x :: byte
    by (rule bit_eqI) (auto simp: bit_and_iff bit_or_iff)
  then have "(flags OR 8) AND 8 \<noteq> (0 :: byte)" by simp
  moreover have "length ip = 16"
    using assms(1) BAddr_IPv6 by (simp add: sender_address_def)
  ultimately show ?thesis
    using BAddr_IPv6
    by (simp add: assms(3) gw_message_def Let_def udpgw_header_def udpgw_addr_ipv6_def recv_interface_handler_send_def ltoh8_def htol8_def
        ltoh16_def htol16_def BAddr_InitIPv6_def BAddr_MakeIPv6_def UDPGW_CLIENT_FLAG_IPV6_def del: le16_of_take le32_of_take)
qed (use assms(1) in \<open>simp_all add: sender_address_def\<close>)

text \<open>C13: What a connection sends is understood: a message with the same header, address and
  data coming from the server is delivered to the local address of that connection, with its remote address and
  the same data, for IPv4 and IPv6.\<close>

theorem udpgw_messages_roundtrip:
  assumes "gw_reached (u, e)" "p \<in> set (connections_list u)" "int (length data) \<le> udp_mtu u" "flags AND UDPGW_CLIENT_FLAG_IPV6 = 0"
    "EndPacket p m \<in> set (snd (connection_send w u p flags data))"
  shows "HandlerReceived (local_addr (conaddr (connection u p))) (remote_addr (conaddr (connection u p))) data
    \<in> set (snd (recv_interface_handler_send u m))"
proof -
  note g = gw_good_tables [OF gw_reached_good [OF assms(1)]]
  let ?c = "connection u p"
  have m: "m = gw_message u p flags data"
    using assms(5) by (auto simp: connection_send_eq split: if_splits)
  have L: "set (connections_tree_by_conid u) = set (connections_list u)"
    using g(2) by (simp add: tables_ok_def)
  then have f: "find_connection_by_conid u (conid ?c) = Some p"
    using g(3) assms(2) by (subst by_conid_Some) (simp_all add: keys_ok_def)
  have s: "sender_address (remote_addr (conaddr ?c))"
    using g(3) assms(2) by (simp add: keys_ok_def)
  then have z: "BAddr_CompareOrder (remote_addr (conaddr ?c)) (remote_addr (conaddr ?c)) = 0"
    by (simp add: same_address)
  have h: "HandlerReceived (local_addr (conaddr ?c)) (remote_addr (conaddr ?c)) data
      \<in> set (snd (received_from u (conid ?c) (remote_addr (conaddr ?c)) data))"
    using f z assms(3) by (simp add: received_from_def Let_def)
  show ?thesis
    unfolding gw_message_parsed [OF s assms(4) m] using h by (auto split: prod.splits)
qed

theorem udpgw_messages_roundtrip_witness:
  "\<exists>u e m. gw_reached (u, e) \<and> EndPacket 7 m \<in> set (snd (connection_send (gw_world_for 8) u 7 4 [1, 2])) \<and>
    HandlerReceived (BAddr_IPv4 1 2) (BAddr_IPv4 3 4) [1, 2] \<in> set (snd (recv_interface_handler_send u m))"
proof -
  obtain u e where s: "gw_reached (u, e)" "connections_list u = [7]" "udp_mtu u = 100"
    "conaddr (connection u 7) = \<lparr>local_addr = BAddr_IPv4 1 2, remote_addr = BAddr_IPv4 3 4\<rparr>"
    by (rule gw_connected)
  let ?m = "gw_message u 7 4 [1, 2]"
  have m: "EndPacket 7 ?m \<in> set (snd (connection_send (gw_world_for 8) u 7 4 [1, 2]))"
    by (simp add: connection_send_eq gw_world_for_def)
  show ?thesis
    using udpgw_messages_roundtrip [OF s(1) _ _ _ m] s m by (fastforce simp: UDPGW_CLIENT_FLAG_IPV6_def)
qed

text \<open>Whatever bytes the server sends, what reaches the user belongs to a connection: its local and remote
  address are those of one of the connections, and the data is the end of the message and within the MTU.\<close>

theorem udpgw_delivers_to_connections:
  assumes "gw_reached (u, e)" "HandlerReceived l r x \<in> set (snd (recv_interface_handler_send u d))"
  shows "\<lparr>local_addr = l, remote_addr = r\<rparr> \<in> set (recent u) \<and> (\<exists>n\<le>length d. x = drop n d) \<and> int (length x) \<le> udp_mtu u"
  using gw_reached_good [OF assms(1)]
proof (cases rule: recv_cases [of u e d])
  case dropped
  then show ?thesis
    using assms(2) by simp
next
  case (taken p n)
  let ?a = "conaddr (connection u p)"
  have h: "l = local_addr ?a" "r = remote_addr ?a" "x = drop n d"
    using assms(2) taken(4) by simp_all
  have "\<lparr>local_addr = l, remote_addr = r\<rparr> = ?a"
    by (simp add: h)
  then have "\<lparr>local_addr = l, remote_addr = r\<rparr> \<in> set (recent u)"
    unfolding recent_def set_map using taken(1) by (rule image_eqI)
  then show ?thesis
    using taken(2,3) h(3) by blast
qed

theorem udpgw_delivers_to_connections_witness:
  "\<exists>u e d. gw_reached (u, e) \<and> HandlerReceived (BAddr_IPv4 1 2) (BAddr_IPv4 3 4) [1, 2] \<in> set (snd (recv_interface_handler_send u d)) \<and>
    \<lparr>local_addr = BAddr_IPv4 1 2, remote_addr = BAddr_IPv4 3 4\<rparr> \<in> set (recent u)"
proof -
  obtain u e where s: "gw_run_events gw_prefix (gw_sample, gw_sample_env) = Some (u, e)"
    using gw_sample_run by (cases "gw_run_events gw_prefix (gw_sample, gw_sample_env)") auto
  have r: "gw_reached (u, e)"
    using gw_run_reached [OF gw_sample_reached s] .
  have "map_option (\<lambda>(u, e). snd (recv_interface_handler_send u [0, 0, 0, 3, 0, 0, 0, 4, 0, 1, 2]))
      (gw_run_events gw_prefix (gw_sample, gw_sample_env)) =
    Some [AssertThat True, AssertThat True, RecvDone, HandlerReceived (BAddr_IPv4 1 2) (BAddr_IPv4 3 4) [1, 2]]"
    by code_simp
  then have h: "HandlerReceived (BAddr_IPv4 1 2) (BAddr_IPv4 3 4) [1, 2]
      \<in> set (snd (recv_interface_handler_send u [0, 0, 0, 3, 0, 0, 0, 4, 0, 1, 2]))"
    by (simp add: s)
  from udpgw_delivers_to_connections [OF r h] r h show ?thesis by blast
qed

text \<open>Freeing is possible in every state and leaves nothing: every connection with its job, flow and buffer,
  the server's side, the queue and the connector are gone.\<close>

theorem udpgw_frees_everything:
  assumes "gw_reached (u, e)"
  shows "\<exists>u' e'. gw_do (UdpGwClient_Free u) e = Some (u', e') \<and> held e' = {} \<and> first_jobs e' = {} \<and> units e' = {} \<and> \<not> connected e'"
  using gw_free_ok [OF gw_reached_good [OF assms]] by (auto simp: gw_do_returns)

theorem udpgw_frees_everything_witness:
  "\<exists>u e u' e'. gw_reached (u, e) \<and> connections_list u = [7] \<and> have_server u \<and> gw_do (UdpGwClient_Free u) e = Some (u', e') \<and> held e' = {}"
proof -
  obtain u e where s: "gw_reached (u, e)" "connections_list u = [7]" "have_server u"
    by (rule gw_connected)
  then show ?thesis
    using udpgw_frees_everything [OF s(1)] by blast
qed

text \<open>C14: What a submitted packet makes the client send.  For a pair that has a connection it is one message with the number of that
  connection, without the flag for rebinding, or nothing when the connection's buffer has no room.  When all numbers are taken, a new pair gets the least
  recently used one, and the packet is sent with the flag, or not at all when there is no room; in both cases the number is the pair's from then on, so when the
  packet was dropped no later message carries the flag.  Otherwise a new connection is made, whose job is the next to run and sends the
  packet with the flag, if there is room.\<close>

theorem udpgw_rebinds_in_one_message:
  assumes "gw_reached (u, e)" "gw_enabled w (Submit l r dns d) (u, e)"
  shows "\<exists>u' e'. gw_fire w (Submit l r dns d) (u, e) = Some (u', e') \<and>
    (let a = \<lparr>local_addr = l, remote_addr = r\<rparr>; f = (if dns then UDPGW_CLIENT_FLAG_DNS else 0)
     in if a \<in> set (recent u)
        then \<exists>p\<in>set (connections_list u). conaddr (connection u p) = a \<and> connection u' = connection u \<and>
          sent e' = sent e @ (if has_room w then [(p, message_to (conid (connection u p)) r f d)] else [])
        else if num_connections u = max_connections u
        then let p = hd (connections_list u)
          in connection u' = (connection u)(p := (connection u p)\<lparr>conaddr := a\<rparr>) \<and> a \<in> set (recent u') \<and>
             sent e' = sent e @ (if has_room w then [(p, message_to (conid (connection u p)) r (f OR UDPGW_CLIENT_FLAG_REBIND) d)] else [])
        else sent e' = sent e \<and>
          (\<forall>p w'. new_connection w = Some p \<and> flow_ok w \<longrightarrow>
             conaddr (connection u' p) = a \<and> gw_enabled w' (First_Job p) (u', e') \<and>
             (\<exists>e''. gw_fire w' (First_Job p) (u', e') = Some (u', e'') \<and> sent e'' = sent e @
                (if has_room w' then [(p, message_to (conid (connection u' p)) r (UDPGW_CLIENT_FLAG_REBIND OR f) d)] else []))))"
proof -
  let ?a = "\<lparr>local_addr = l, remote_addr = r\<rparr>" and ?f = "if dns then UDPGW_CLIENT_FLAG_DNS else 0"
  obtain u' e' where s: "gw_fire w (Submit l r dns d) (u, e) = Some (u', e')" "gw_good u' e'"
    "submitted w ?a ?f d u (data_comes w d e) u' e'"
    using gw_submit_fire [OF gw_reached_good [OF assms(1)] assms(2)] by blast
  have ip: "sender_address r"
    using assms(2) by simp
  show ?thesis
  proof (intro exI conjI)
    show "gw_fire w (Submit l r dns d) (u, e) = Some (u', e')"
      by (rule s(1))
    consider "?a \<in> set (recent u)" | "?a \<notin> set (recent u)" "num_connections u = max_connections u"
      | "?a \<notin> set (recent u)" "num_connections u \<noteq> max_connections u"
      by blast
    then show "let a = ?a; f = ?f
     in if a \<in> set (recent u)
        then \<exists>p\<in>set (connections_list u). conaddr (connection u p) = a \<and> connection u' = connection u \<and>
          sent e' = sent e @ (if has_room w then [(p, message_to (conid (connection u p)) r f d)] else [])
        else if num_connections u = max_connections u
        then let p = hd (connections_list u)
          in connection u' = (connection u)(p := (connection u p)\<lparr>conaddr := a\<rparr>) \<and> a \<in> set (recent u') \<and>
             sent e' = sent e @ (if has_room w then [(p, message_to (conid (connection u p)) r (f OR UDPGW_CLIENT_FLAG_REBIND) d)] else [])
        else sent e' = sent e \<and>
          (\<forall>p w'. new_connection w = Some p \<and> flow_ok w \<longrightarrow>
             conaddr (connection u' p) = a \<and> gw_enabled w' (First_Job p) (u', e') \<and>
             (\<exists>e''. gw_fire w' (First_Job p) (u', e') = Some (u', e'') \<and> sent e'' = sent e @
                (if has_room w' then [(p, message_to (conid (connection u' p)) r (UDPGW_CLIENT_FLAG_REBIND OR f) d)] else [])))"
    proof cases
      case 1
      then show ?thesis
        using s(3) by (force simp: submitted_def packet_sent_def)
    next
      case 2
      then show ?thesis
        using s(3) by (simp add: submitted_def packet_sent_def Let_def)
    next
      case 3
      have new: "conaddr (connection u' p) = ?a \<and> gw_enabled w' (First_Job p) (u', e') \<and>
           (\<exists>e''. gw_fire w' (First_Job p) (u', e') = Some (u', e'') \<and> sent e'' = sent e @
              (if has_room w' then [(p, message_to (conid (connection u' p)) r (UDPGW_CLIENT_FLAG_REBIND OR ?f) d)] else []))"
        if p: "new_connection w = Some p" "flow_ok w" for p w'
      proof -
        let ?js = "pending (data_comes w d e)"
        obtain i where i: "connection u' = (connection u)(p := \<lparr>conaddr = ?a, first_flags = ?f, first_data = data_at w,
            first_data_len = int (length d), conid = i\<rparr>)" "pending e' = First p # ?js" "memory e' (data_at w) = d" "sent e' = sent e"
          using s(3) 3 p by (auto simp: submitted_def)
        have m: "gw_message u' p (UDPGW_CLIENT_FLAG_REBIND OR ?f) d = message_to (conid (connection u' p)) r (UDPGW_CLIENT_FLAG_REBIND OR ?f) d"
          using gw_message_to [of u' p "UDPGW_CLIENT_FLAG_REBIND OR ?f" d] ip by (simp add: i(1))
        have "gw_execs (snd (connection_first_job_handler w' u' (memory e') p)) (e'\<lparr>pending := ?js\<rparr>) =
            Some (packet_sent w' p (gw_message u' p (UDPGW_CLIENT_FLAG_REBIND OR ?f) d) (e'\<lparr>pending := ?js\<rparr>))"
          using gw_first_job_runs(1) [OF s(2) i(2), of w'] by (simp add: i(1,3) del: fun_upd_apply) (simp add: i(3))
        then have "gw_fire w' (First_Job p) (u', e') =
            Some (u', packet_sent w' p (message_to (conid (connection u' p)) r (UDPGW_CLIENT_FLAG_REBIND OR ?f) d) (e'\<lparr>pending := ?js\<rparr>))"
          using gw_first_job_runs(2) [OF s(2) i(2), of w'] by (simp add: gw_do_def i(2) m)
        then show ?thesis
          by (simp add: i(2,4) packet_sent_def del: gw_fire.simps) (simp add: i(1))
      qed
      have "sent e' = sent e"
        using s(3) 3 by (simp add: submitted_def)
      then show ?thesis
        using 3 new by (simp only: Let_def if_False) blast
    qed
  qed
qed

definition gw_no_room :: "gw_world" where
  "gw_no_room = (gw_world_for 8)\<lparr>data_at := 1, has_room := False\<rparr>"

lemma gw_run_append: "gw_run_events (xs @ ys) s = Option.bind (gw_run_events xs s) (gw_run_events ys)"
  by (induction xs s rule: gw_run_events.induct) (simp_all split: option.split)

lemma gw_dropped_run: "map_option (\<lambda>(u, e). (connections_list u, pending e, udp_mtu u, (Struct, 8) \<in> held e))
    (gw_run_events (gw_prefix @ [(gw_no_room, Submit (BAddr_IPv4 5 6) (BAddr_IPv4 3 4) False [1])]) (gw_sample, gw_sample_env)) =
  Some ([7], [Reuse 1], 100, False)"
  by code_simp

text \<open>A flag is lost: the packet of the new pair is dropped, and the next one has the number of the old pair without the flag.\<close>

theorem udpgw_rebinds_in_one_message_witness:
  "\<exists>u e u1 e1 u2 e2. gw_reached (u, e) \<and> recent u = [\<lparr>local_addr = BAddr_IPv4 1 2, remote_addr = BAddr_IPv4 3 4\<rparr>] \<and>
    gw_fire gw_no_room (Submit (BAddr_IPv4 5 6) (BAddr_IPv4 3 4) False [1]) (u, e) = Some (u1, e1) \<and> sent e1 = sent e \<and>
    gw_fire (gw_world_for 8) (Submit (BAddr_IPv4 5 6) (BAddr_IPv4 3 4) False [1]) (u1, e1) = Some (u2, e2) \<and>
    sent e2 = sent e @ [(7, message_to 0 (BAddr_IPv4 3 4) 0 [1])]"
proof -
  let ?B = "Submit (BAddr_IPv4 5 6) (BAddr_IPv4 3 4) False [1]" and ?new = "\<lparr>local_addr = BAddr_IPv4 5 6, remote_addr = BAddr_IPv4 3 4\<rparr>"
  obtain u e where s: "gw_run_events gw_prefix (gw_sample, gw_sample_env) = Some (u, e)" "connections_list u = [7]" "num_connections u = 1"
    "max_connections u = 1" "udp_mtu u = 100" "conaddr (connection u 7) = \<lparr>local_addr = BAddr_IPv4 1 2, remote_addr = BAddr_IPv4 3 4\<rparr>"
    "(Struct, 8) \<notin> held e" "pending e = []" "conid (connection u 7) = 0"
    using gw_sample_run by auto
  have r: "gw_reached (u, e)"
    using gw_run_reached [OF gw_sample_reached s(1)] .
  have en: "gw_enabled gw_no_room ?B (u, e)"
    using s by (simp add: gw_no_room_def gw_world_for_def sender_address_def)
  have rec: "recent u = [\<lparr>local_addr = BAddr_IPv4 1 2, remote_addr = BAddr_IPv4 3 4\<rparr>]"
    using s by (simp add: recent_def)
  obtain u1 e1 where f1: "gw_fire gw_no_room ?B (u, e) = Some (u1, e1)"
    "connection u1 = (connection u)(7 := (connection u 7)\<lparr>conaddr := ?new\<rparr>)" "?new \<in> set (recent u1)" "sent e1 = sent e"
    using udpgw_rebinds_in_one_message [OF r en] s(2-4) rec by (auto simp: Let_def gw_no_room_def simp del: gw_fire.simps)
  have r1: "gw_reached (u1, e1)"
    using r en f1(1) by (rule gw_reached.event)
  have "gw_run_events (gw_prefix @ [(gw_no_room, ?B)]) (gw_sample, gw_sample_env) = Some (u1, e1)"
    using s(1) en f1(1) by (simp add: gw_run_append del: gw_fire.simps gw_enabled.simps)
  then have s1: "connections_list u1 = [7]" "pending e1 = [Reuse 1]" "udp_mtu u1 = 100" "(Struct, 8) \<notin> held e1"
    using gw_dropped_run by auto
  have "gw_enabled (gw_world_for 8) ?B (u1, e1)"
    using s1 by (simp add: gw_world_for_def sender_address_def)
  from udpgw_rebinds_in_one_message [OF r1 this] f1(3) s1(1) obtain u2 e2 where
    "gw_fire (gw_world_for 8) ?B (u1, e1) = Some (u2, e2)" "sent e2 = sent e1 @ [(7, message_to (conid (connection u1 7)) (BAddr_IPv4 3 4) 0 [1])]"
    by (auto simp: gw_world_for_def simp del: gw_fire.simps)
  then show ?thesis
    using r rec f1 s(9) by (intro exI [of _ u] exI [of _ e] exI [of _ u1] exI [of _ e1] exI [of _ u2] exI [of _ e2]) (simp del: gw_fire.simps)
qed

section \<open>Reconnecting\<close>

record relay_env =
  socks_exists :: bool
  timer :: bool
  udpgw_exists :: bool
  server_connected :: bool

fun relay_exec :: "relay_call \<Rightarrow> relay_env \<Rightarrow> relay_env option" where
  "relay_exec (SocksInit r) e = (if socks_exists e then None else Some (e\<lparr>socks_exists := r\<rparr>))"
| "relay_exec SocksFree e = (if socks_exists e \<and> \<not> server_connected e then Some (e\<lparr>socks_exists := False\<rparr>) else None)"
| "relay_exec SetTimer e = Some (e\<lparr>timer := True\<rparr>)"
| "relay_exec RemoveTimer e = Some (e\<lparr>timer := False\<rparr>)"
| "relay_exec (ConnectServer r) e =
     (if udpgw_exists e \<and> socks_exists e \<and> \<not> server_connected e then Some (e\<lparr>server_connected := r\<rparr>) else None)"
| "relay_exec DisconnectServer e = (if server_connected e then Some (e\<lparr>server_connected := False\<rparr>) else None)"
| "relay_exec (UdpgwInit r) e = (if udpgw_exists e then None else Some (e\<lparr>udpgw_exists := r\<rparr>))"
| "relay_exec UdpgwFree e = (if udpgw_exists e \<and> \<not> server_connected e then Some (e\<lparr>udpgw_exists := False\<rparr>) else None)"
| "relay_exec TimerInit e = Some (e\<lparr>timer := False\<rparr>)"
| "relay_exec AssertTimerStopped e = (if timer e then None else Some e)"
| "relay_exec (Assert_That b) e = (if b then Some e else None)"

fun relay_execs :: "relay_call list \<Rightarrow> relay_env \<Rightarrow> relay_env option" where
  "relay_execs [] e = Some e"
| "relay_execs (c # cs) e = (case relay_exec c e of None \<Rightarrow> None | Some e' \<Rightarrow> relay_execs cs e')"

definition relay_do :: "relay_run \<Rightarrow> relay_env \<Rightarrow> (SocksUdpGwClient \<times> relay_env) option" where
  "relay_do r e = map_option (\<lambda>e'. (fst r, e')) (relay_execs (snd r) e)"

datatype relay_event = Timer_Expires bool | Socks_Reports socks_event bool | Server_Fails

text \<open>The SOCKS client reports that it is up at most once, as proved of it.\<close>

fun relay_enabled :: "relay_event \<Rightarrow> SocksUdpGwClient \<times> relay_env \<Rightarrow> bool" where
  "relay_enabled (Timer_Expires b) (s, e) = timer e"
| "relay_enabled (Socks_Reports ev b) (s, e) = (socks_exists e \<and> (ev = EVENT_UP \<longrightarrow> \<not> server_connected e))"
| "relay_enabled Server_Fails (s, e) = server_connected e"

fun relay_fire :: "relay_event \<Rightarrow> SocksUdpGwClient \<times> relay_env \<Rightarrow> (SocksUdpGwClient \<times> relay_env) option" where
  "relay_fire (Timer_Expires b) (s, e) = relay_do (reconnect_timer_handler b s) (e\<lparr>timer := False\<rparr>)"
| "relay_fire (Socks_Reports ev b) (s, e) = relay_do (socks_client_handler b s ev) e"
| "relay_fire Server_Fails (s, e) = relay_do (udpgw_handler_servererror s) e"

definition relay_blank :: relay_env where
  "relay_blank = \<lparr>socks_exists = False, timer = False, udpgw_exists = False, server_connected = False\<rparr>"

inductive relay_reached :: "SocksUdpGwClient \<times> relay_env \<Rightarrow> bool" where
  started: "\<lbrakk>SocksUdpGwClient_Init m srv gw True b = (r, True); \<not> BAddr_IsInvalid srv; sender_address gw;
     relay_do r relay_blank = Some s\<rbrakk> \<Longrightarrow> relay_reached s"
| event: "\<lbrakk>relay_reached (c, e); relay_enabled ev (c, e); relay_fire ev (c, e) = Some s\<rbrakk> \<Longrightarrow> relay_reached s"

definition relay_ok :: "SocksUdpGwClient \<Rightarrow> relay_env \<Rightarrow> bool" where
  "relay_ok s e =
     (udpgw_exists e \<and> socks_exists e = have_socks s \<and> timer e = (\<not> have_socks s) \<and>
      server_connected e = (have_socks s \<and> socks_up s))"

lemma relay_fire_ok:
  assumes "relay_ok s e" "relay_enabled ev (s, e)"
  shows "\<exists>s' e'. relay_fire ev (s, e) = Some (s', e') \<and> relay_ok s' e'"
proof (cases ev)
  case (Timer_Expires b)
  then show ?thesis
    using assms by (cases b) (simp_all add: relay_ok_def relay_do_def reconnect_timer_handler_def try_connect_def Let_def)
next
  case (Socks_Reports x b)
  then show ?thesis
    using assms by (cases x; cases b; cases "socks_up s")
      (simp_all add: relay_ok_def relay_do_def socks_client_handler_def free_socks_def Let_def)
next
  case Server_Fails
  then show ?thesis
    using assms by (simp add: relay_ok_def relay_do_def udpgw_handler_servererror_def free_socks_def)
qed

lemma relay_start_ok:
  assumes "SocksUdpGwClient_Init m srv gw True b = (r, True)" "\<not> BAddr_IsInvalid srv" "sender_address gw"
  shows "\<exists>e. relay_do r relay_blank = Some (fst r, e) \<and> relay_ok (fst r) e"
  using assms by (cases b; cases gw)
    (auto simp: SocksUdpGwClient_Init_def try_connect_def Let_def relay_do_def relay_blank_def relay_ok_def sender_address_def)

lemma relay_reached_ok: "relay_reached (s, e) \<Longrightarrow> relay_ok s e"
proof (induction "(s, e)" arbitrary: s e rule: relay_reached.induct)
  case (started m srv gw b r s e)
  then show ?case
    using relay_start_ok [OF started(1-3)] by auto
next
  case (event c e0 ev s e)
  then show ?case
    using relay_fire_ok [of c e0 ev] by auto
qed

text \<open>C15: The relay always gets a connection again: it has a SOCKS client or its timer runs, never both and never neither;
  the gateway client is connected to a server exactly while the SOCKS client is up; and no report, error or expiry of
  the timer, whatever fails in its handling, violates an assertion.\<close>

theorem relay_reconnects:
  assumes "relay_reached (s, e)"
  shows "(socks_exists e \<longleftrightarrow> \<not> timer e) \<and> (server_connected e \<longleftrightarrow> have_socks s \<and> socks_up s) \<and>
    (\<forall>ev. relay_enabled ev (s, e) \<longrightarrow> (\<exists>t. relay_fire ev (s, e) = Some t \<and> relay_reached t))"
proof -
  have ok: "relay_ok s e"
    by (rule relay_reached_ok [OF assms])
  moreover have "\<exists>t. relay_fire ev (s, e) = Some t \<and> relay_reached t" if "relay_enabled ev (s, e)" for ev
    using relay_fire_ok [OF ok that] relay_reached.event [OF assms that] by blast
  ultimately show ?thesis
    unfolding relay_ok_def by blast
qed

theorem relay_reconnects_witness:
  "\<exists>s e. relay_reached (s, e) \<and> timer e \<and> \<not> socks_exists e \<and> (\<exists>t. relay_fire (Timer_Expires True) (s, e) = Some t \<and> relay_reached t)"
proof -
  let ?s = "\<lparr>have_socks = False, socks_up = False\<rparr>" and ?e = "\<lparr>socks_exists = False, timer = True, udpgw_exists = True, server_connected = False\<rparr>"
  have r: "relay_reached (?s, ?e)"
    by (rule relay_reached.started [of ?s "BAddr_IPv4 1 2" "BAddr_IPv4 3 4" False "(?s, [Assert_That True, Assert_That True, UdpgwInit True,
        TimerInit, Assert_That True, AssertTimerStopped, SocksInit False, SetTimer])"])
      (simp_all add: SocksUdpGwClient_Init_def try_connect_def BAddr_IsInvalid_def sender_address_def relay_do_def relay_blank_def)
  moreover have "relay_enabled (Timer_Expires True) (?s, ?e)"
    by simp
  ultimately have "\<exists>t. relay_fire (Timer_Expires True) (?s, ?e) = Some t \<and> relay_reached t"
    using relay_reconnects [OF r] by blast
  then show ?thesis
    using r by (intro exI [of _ ?s] exI [of _ ?e]) (simp del: relay_fire.simps)
qed

end
