(* ===== verification/Socks_Udp.thy ===== *)
theory Socks_Udp
  imports Addresses Socks_Client
begin

text \<open>
  The client that relays datagrams through a SOCKS server: \<open>socks_udp_client/SocksUdpClient.c\<close>, with
  the datagram header of \<open>misc/socks_proto.h\<close>.  The connections are objects on a heap; the search tree is the
  sequence of its nodes in order, with its comparator.  The flow objects, the socket and the SOCKS
  client of a connection are the calls made to them.
\<close>

section \<open>State\<close>

type_synonym udp_ptr = nat

record SocksUdpClient_connection =
  con_local_addr :: BAddr
  con_first_data :: "bytes option"
  con_first_remote_addr :: BAddr
  dns_id :: int

record SocksUdpClient =
  num_connections :: int
  max_connections :: int
  send_buf_size :: int
  udp_mtu :: int
  socks_mtu :: int
  connections_tree :: "udp_ptr list"
  con :: "udp_ptr \<Rightarrow> SocksUdpClient_connection"

datatype udp_part =
    Con_Struct | First_Data | First_Job | Udp_Socket | Socks_Con
  | Send_Async | Send_Monitor | Send_Writer | Send_Queue
  | Recv_Async | Recv_If | Recv_Single

datatype udp_call =
    Acquire udp_part udp_ptr int
  | OpenSocket udp_ptr int
  | QueueInit udp_ptr int int bool
  | Dispose udp_part udp_ptr
  | SetJob udp_ptr
  | BindSocket udp_ptr BAddr
  | SetDestAddr udp_ptr BAddr
  | GetBindAddr udp_ptr
  | SetSendAddrs udp_ptr BAddr BIPAddr
  | WriterStart udp_ptr bool
  | WriterEnd udp_ptr bytes
  | AcceptPacket udp_ptr
  | Received BAddr BAddr bytes
  | Check bool

type_synonym udp_run = "SocksUdpClient \<times> udp_call list"

text \<open>
  Answers of the environment: the allocations and objects of a new connection, whether the writer takes a
  packet, and the addresses of the sockets.
\<close>

record udp_world =
  new_con :: "udp_ptr option"
  data_ok :: bool
  socket_ok :: bool
  socks_ok :: bool
  queue_ok :: bool
  recv_ok :: bool
  writer_ready :: bool
  tcp_local_addr :: "BAddr option"
  bind_ok :: bool
  bound_addr :: "BAddr option"
  server_bind_addr :: BAddr

section \<open>Helpers\<close>

definition DnsPort :: "16 word" where "DnsPort = 53"

definition socks_udp_header :: "16 word \<Rightarrow> byte \<Rightarrow> byte \<Rightarrow> bytes" where
  "socks_udp_header rsv frag atyp = le16_bytes rsv @ [frag, atyp]"

definition addr_comparator :: "BAddr \<Rightarrow> BAddr \<Rightarrow> int" where
  "addr_comparator v1 v2 = BAddr_CompareOrder v1 v2"

definition find_connection :: "SocksUdpClient \<Rightarrow> BAddr \<Rightarrow> udp_ptr option" where
  "find_connection u addr = find (\<lambda>p. addr_comparator addr (con_local_addr (con u p)) = 0) (connections_tree u)"

definition insert_connection :: "udp_ptr \<Rightarrow> SocksUdpClient \<Rightarrow> udp_run" where
  "insert_connection p u =
     (let before = (\<lambda>q. addr_comparator (con_local_addr (con u q)) (con_local_addr (con u p)) < 0)
      in (u\<lparr>connections_tree := takeWhile before (connections_tree u) @ p # dropWhile before (connections_tree u)\<rparr>,
          [Check (find_connection u (con_local_addr (con u p)) = None)]))"

definition compute_socks_mtu :: "int \<Rightarrow> int" where
  "compute_socks_mtu mtu_arg =
     (let bs = bsize_add (bsize_fromint mtu_arg) (bsize_add (bsize_fromsize 4) (bsize_fromsize 18))
      in case bsize_toint bs of None \<Rightarrow> -1 | Some s \<Rightarrow> s)"

text \<open>The port of another kind of address is an assertion of \<open>BAddr_GetPort\<close>.\<close>

definition has_port :: "BAddr \<Rightarrow> bool" where
  "has_port a = (BAddr_GetPort a \<noteq> None)"

definition get_dns_id :: "BAddr \<Rightarrow> bytes \<Rightarrow> int" where
  "get_dns_id remote data =
     (case BAddr_GetPort remote of
        None \<Rightarrow> -1
      | Some port \<Rightarrow>
          if ntoh16 port = DnsPort \<and> 2 \<le> length data
          then push_bit 8 (uint (data ! 0)) OR uint (data ! 1) else -1)"

section \<open>Connections\<close>

definition free_con :: "SocksUdpClient \<Rightarrow> udp_ptr \<Rightarrow> udp_run" where
  "free_con u p =
     (u\<lparr>num_connections := num_connections u - 1, connections_tree := remove1 p (connections_tree u)\<rparr>,
      [Check (0 < num_connections u),
       Dispose Recv_Single p, Dispose Recv_If p, Dispose Recv_Async p,
       Dispose Send_Queue p, Dispose Send_Writer p, Dispose Send_Monitor p, Dispose Send_Async p,
       Dispose Socks_Con p, Dispose Udp_Socket p, Dispose First_Job p] @
      (if con_first_data (con u p) \<noteq> None then [Dispose First_Data p] else []) @ [Dispose Con_Struct p])"

definition send_con :: "udp_world \<Rightarrow> SocksUdpClient \<Rightarrow> udp_ptr \<Rightarrow> BAddr \<Rightarrow> bytes \<Rightarrow> udp_run" where
  "send_con w u p remote data =
     (let pre = [Check (int (length data) \<le> udp_mtu u)];
          (c1, cs1) = (if 0 \<le> dns_id (con u p)
                       then (if get_dns_id remote data \<noteq> dns_id (con u p) then (con u p)\<lparr>dns_id := -1\<rparr> else con u p,
                             [Check (has_port remote)])
                       else (con u p, []));
          u1 = u\<lparr>con := (con u)(p := c1)\<rparr>;
          write = (\<lambda>atyp address_size address.
             let total_len = 4 + address_size + length data;
                 out = socks_udp_header 0 0 atyp @ address @ data
             in [Check (int total_len \<le> socks_mtu u), WriterStart p (writer_ready w)] @
                (if writer_ready w then [Check (length out = total_len), WriterEnd p out] else []))
      in case remote of
           BAddr_IPv4 ip port \<Rightarrow> (u1, pre @ cs1 @ write SOCKS_ATYP_IPV4 6 (socks_addr_ipv4 ip port))
         | BAddr_IPv6 ip port \<Rightarrow> (u1, pre @ cs1 @ write SOCKS_ATYP_IPV6 18 (socks_addr_ipv6 ip port))
         | _ \<Rightarrow> (u1, pre @ cs1))"

definition init_con :: "udp_world \<Rightarrow> SocksUdpClient \<Rightarrow> BAddr \<Rightarrow> BAddr \<Rightarrow> bytes \<Rightarrow> udp_run" where
  "init_con w u local remote data =
     (let pre = [Check (num_connections u \<le> max_connections u), Check (find_connection u local = None)]
      in case new_con w of
           None \<Rightarrow> (u, pre)
         | Some p \<Rightarrow>
             let fail1 = [Dispose Con_Struct p];
                 fail2 = [Dispose First_Job p, Dispose First_Data p] @ fail1;
                 fail3 = [Dispose Udp_Socket p] @ fail2;
                 fail4 = [Dispose Send_Writer p, Dispose Send_Monitor p, Dispose Send_Async p, Dispose Socks_Con p] @ fail3;
                 fail5 = [Dispose Recv_If p, Dispose Recv_Async p, Dispose Send_Queue p] @ fail4;
                 m = socks_mtu u;
                 up0 = pre @ [Acquire Con_Struct p 0]
             in if \<not> data_ok w then (u, up0 @ fail1)
                else
                let c = \<lparr>con_local_addr = local, con_first_data = Some data, con_first_remote_addr = remote,
                         dns_id = get_dns_id remote data\<rparr>;
                    u1 = u\<lparr>con := (con u)(p := c)\<rparr>;
                    up1 = up0 @ [Acquire First_Data p 0, Check (has_port remote), Acquire First_Job p 0, SetJob p]
                in if \<not> socket_ok w then (u1, up1 @ fail2)
                   else
                   let up2 = up1 @ [OpenSocket p (baddr_type local)]
                   in if \<not> socks_ok w then (u1, up2 @ fail3)
                      else
                      let up3 = up2 @ [Acquire Socks_Con p 0, Acquire Send_Async p m, Acquire Send_Monitor p m,
                                       Acquire Send_Writer p m, QueueInit p m (send_buf_size u) (queue_ok w)]
                      in if \<not> queue_ok w then (u1, up3 @ fail4)
                         else
                         let up4 = up3 @ [Acquire Recv_Async p m, Acquire Recv_If p m]
                         in if \<not> recv_ok w then (u1, up4 @ fail5)
                            else
                            let (u2, cs2) = insert_connection p u1
                            in (u2\<lparr>num_connections := num_connections u2 + 1\<rparr>, up4 @ [Acquire Recv_Single p m] @ cs2))"

definition first_job_handler :: "udp_world \<Rightarrow> SocksUdpClient \<Rightarrow> udp_ptr \<Rightarrow> udp_run" where
  "first_job_handler w u p =
     (let pre = [Check (con_first_data (con u p) \<noteq> None)];
          data = (case con_first_data (con u p) of None \<Rightarrow> [] | Some d \<Rightarrow> d);
          (u1, cs) = send_con w u p (con_first_remote_addr (con u p)) data
      in (u1\<lparr>con := (con u1)(p := (con u1 p)\<lparr>con_first_data := None\<rparr>)\<rparr>, pre @ cs @ [Dispose First_Data p]))"

section \<open>Handlers\<close>

text \<open>The socket is bound to the address from which the server is reached, at a port that the kernel chooses.\<close>

definition socks_connected :: "udp_world \<Rightarrow> SocksUdpClient \<Rightarrow> udp_ptr \<Rightarrow> udp_run" where
  "socks_connected w u p =
     (let drop_con = (\<lambda>cs. case free_con u p of (u1, cs1) \<Rightarrow> (u1, cs @ cs1))
      in case tcp_local_addr w of
           None \<Rightarrow> drop_con []
         | Some tcp_addr \<Rightarrow>
             (case BAddr_SetPort tcp_addr 0 of
                None \<Rightarrow> drop_con []
              | Some bind_to \<Rightarrow>
                  if \<not> bind_ok w then drop_con [BindSocket p bind_to]
                  else case bound_addr w of
                         None \<Rightarrow> drop_con [BindSocket p bind_to]
                       | Some b \<Rightarrow> (u, [BindSocket p bind_to, SetDestAddr p b])))"

definition socks_state_handler :: "udp_world \<Rightarrow> SocksUdpClient \<Rightarrow> udp_ptr \<Rightarrow> socks_event \<Rightarrow> udp_run" where
  "socks_state_handler w u p ev =
     (case ev of
        EVENT_CONNECTED \<Rightarrow> socks_connected w u p
      | EVENT_UP \<Rightarrow> (u, [GetBindAddr p, SetSendAddrs p (server_bind_addr w) BIPAddr_InitInvalid])
      | EVENT_ERROR \<Rightarrow> free_con u p
      | EVENT_ERROR_CLOSED \<Rightarrow> free_con u p)"

definition datagram_state_handler :: "SocksUdpClient \<Rightarrow> udp_ptr \<Rightarrow> udp_run" where
  "datagram_state_handler u p = free_con u p"

definition send_idle_handler :: "SocksUdpClient \<Rightarrow> udp_ptr \<Rightarrow> udp_run" where
  "send_idle_handler u p = free_con u p"

text \<open>The header and the address of a received datagram; \<open>None\<close> when it is refused.\<close>

definition parse_udp_header :: "bytes \<Rightarrow> (BAddr \<times> bytes) option" where
  "parse_udp_header data =
     (if length data < 4 then None
      else
      let atyp = data ! 3;
          rest = drop 4 data
      in if atyp = SOCKS_ATYP_IPV4
         then (if length rest < 6 then None
               else Some (BAddr_IPv4 (le32_of (take 4 rest)) (le16_of (take 2 (drop 4 rest))), drop 6 rest))
         else if atyp = SOCKS_ATYP_IPV6
         then (if length rest < 18 then None
               else Some (BAddr_IPv6 (take 16 rest) (le16_of (take 2 (drop 16 rest))), drop 18 rest))
         else None)"

definition recv_if_handler_send :: "SocksUdpClient \<Rightarrow> udp_ptr \<Rightarrow> bytes \<Rightarrow> udp_run" where
  "recv_if_handler_send u p packet =
     (let pre = [Check (int (length packet) \<le> socks_mtu u), AcceptPacket p]
      in case parse_udp_header packet of
           None \<Rightarrow> (u, pre)
         | Some (remote, data) \<Rightarrow>
             if int (length data) > udp_mtu u then (u, pre)
             else
             let up = pre @ [Received (con_local_addr (con u p)) remote data]
             in if 0 \<le> dns_id (con u p)
                then (if get_dns_id remote data = dns_id (con u p)
                      then (case free_con u p of (u1, cs) \<Rightarrow> (u1, up @ [Check (has_port remote)] @ cs))
                      else (u\<lparr>con := (con u)(p := (con u p)\<lparr>dns_id := -1\<rparr>)\<rparr>, up @ [Check (has_port remote)]))
                else (u, up))"

section \<open>Functions of the interface\<close>

definition SocksUdpClient_Init :: "SocksUdpClient \<Rightarrow> int \<Rightarrow> int \<Rightarrow> int \<Rightarrow> udp_run \<times> bool" where
  "SocksUdpClient_Init u dgram_mtu max_con buf_size =
     (let pre = [Check (0 \<le> dgram_mtu), Check (0 < max_con), Check (0 < buf_size)];
          u1 = u\<lparr>num_connections := 0, max_connections := max_con, send_buf_size := buf_size, udp_mtu := dgram_mtu,
                 socks_mtu := compute_socks_mtu dgram_mtu\<rparr>
      in if socks_mtu u1 < 0 then ((u1, pre), False)
         else ((u1\<lparr>connections_tree := []\<rparr>, pre), True))"

function SocksUdpClient_Free :: "SocksUdpClient \<Rightarrow> udp_run" where
  "SocksUdpClient_Free u =
     (case connections_tree u of
        [] \<Rightarrow> (u, [])
      | p # ps \<Rightarrow>
          (case free_con u p of (u1, cs1) \<Rightarrow> (case SocksUdpClient_Free u1 of (u2, cs2) \<Rightarrow> (u2, cs1 @ cs2))))"
  by pat_completeness auto
termination
  by (relation "measure (\<lambda>u. length (connections_tree u))") (auto simp: free_con_def)

definition sendable :: "BAddr \<Rightarrow> bool" where
  "sendable a = (case a of BAddr_IPv4 _ _ \<Rightarrow> True | BAddr_IPv6 _ _ \<Rightarrow> True | _ \<Rightarrow> False)"

definition SocksUdpClient_SubmitPacket :: "udp_world \<Rightarrow> SocksUdpClient \<Rightarrow> BAddr \<Rightarrow> BAddr \<Rightarrow> bytes \<Rightarrow> udp_run" where
  "SocksUdpClient_SubmitPacket w u local remote data =
     (let pre = [Check (sendable local), Check (sendable remote), Check (int (length data) \<le> udp_mtu u)]
      in case find_connection u local of
           None \<Rightarrow>
             if num_connections u \<ge> max_connections u then (u, pre)
             else (case init_con w u local remote data of (u1, cs) \<Rightarrow> (u1, pre @ cs))
         | Some p \<Rightarrow> (case send_con w u p remote data of (u1, cs) \<Rightarrow> (u1, pre @ cs)))"

end
