(* ===== verification/Socks_Udp_Relay.thy ===== *)
theory Socks_Udp_Relay
  imports Socks_Udp
begin

text \<open>
  The SOCKS UDP client in its environment: the contracts of the objects of a connection, the events
  that reach the client, its reachable states and their invariant.
\<close>

section \<open>The environment\<close>

datatype con_phase = Connecting | Negotiating | Associated

text \<open>A part remembers the MTU it was made with, the socket its address family.\<close>

record udp_env =
  owned :: "udp_ptr \<Rightarrow> udp_part set"
  pending_jobs :: "udp_ptr set"
  made_with :: "udp_ptr \<Rightarrow> udp_part \<Rightarrow> int"
  phase :: "udp_ptr \<Rightarrow> con_phase"
  writing :: "udp_ptr option"
  reading :: "udp_ptr option"
  outbox :: "(udp_ptr \<times> bytes) list"
  inbox :: "(BAddr \<times> BAddr \<times> bytes) list"

definition pipeline :: "udp_part set" where
  "pipeline = {Send_Async, Send_Monitor, Send_Writer, Send_Queue, Recv_Async, Recv_If, Recv_Single}"

text \<open>What must exist before a part is made, and must outlive it.\<close>

fun needs :: "udp_part \<Rightarrow> udp_part list" where
  "needs Con_Struct = []"
| "needs Send_Async = [Udp_Socket]"
| "needs Send_Monitor = [Send_Async]"
| "needs Send_Queue = [Send_Writer, Send_Monitor]"
| "needs Recv_Async = [Udp_Socket]"
| "needs Recv_Single = [Recv_Async, Recv_If]"
| "needs _ = [Con_Struct]"

definition every_part :: "udp_part list" where
  "every_part = [Con_Struct, First_Data, First_Job, Udp_Socket, Socks_Con, Send_Async, Send_Monitor, Send_Writer, Send_Queue,
     Recv_Async, Recv_If, Recv_Single]"

definition can_acquire :: "udp_part \<Rightarrow> udp_ptr \<Rightarrow> int \<Rightarrow> udp_env \<Rightarrow> bool" where
  "can_acquire x p m e =
     (x \<notin> owned e p \<and> 0 \<le> m \<and> (\<forall>y\<in>set (needs x). y \<in> owned e p \<and> (y \<in> pipeline \<longrightarrow> made_with e p y = m)))"

definition can_dispose :: "udp_part \<Rightarrow> udp_ptr \<Rightarrow> udp_env \<Rightarrow> bool" where
  "can_dispose x p e =
     (x \<in> owned e p \<and> (\<forall>y\<in>set every_part. x \<in> set (needs y) \<longrightarrow> y \<notin> owned e p) \<and>
      (x = Send_Writer \<longrightarrow> writing e \<noteq> Some p) \<and> (x = Recv_If \<longrightarrow> reading e \<noteq> Some p))"

definition acquired :: "udp_part \<Rightarrow> udp_ptr \<Rightarrow> int \<Rightarrow> udp_env \<Rightarrow> udp_env" where
  "acquired x p m e =
     e\<lparr>owned := (owned e)(p := insert x (owned e p)), made_with := (made_with e)(p := (made_with e p)(x := m)),
       phase := (if x = Socks_Con then (phase e)(p := Connecting) else phase e)\<rparr>"

fun udp_exec :: "udp_call \<Rightarrow> udp_env \<Rightarrow> udp_env option" where
  "udp_exec (Acquire x p m) e = (if x \<noteq> Udp_Socket \<and> x \<noteq> Send_Queue \<and> can_acquire x p m e then Some (acquired x p m e) else None)"
| "udp_exec (OpenSocket p family) e =
     (if (family = 1 \<or> family = 2) \<and> can_acquire Udp_Socket p family e then Some (acquired Udp_Socket p family e) else None)"
| "udp_exec (QueueInit p m n r) e =
     (if 0 < n \<and> can_acquire Send_Queue p m e then Some (if r then acquired Send_Queue p m e else e) else None)"
| "udp_exec (Dispose x p) e =
     (if can_dispose x p e
      then Some (e\<lparr>owned := (owned e)(p := owned e p - {x}),
                   pending_jobs := (if x = First_Job then pending_jobs e - {p} else pending_jobs e)\<rparr>)
      else None)"
| "udp_exec (SetJob p) e = (if First_Job \<in> owned e p then Some (e\<lparr>pending_jobs := insert p (pending_jobs e)\<rparr>) else None)"
| "udp_exec (BindSocket p a) e = (if Udp_Socket \<in> owned e p \<and> sendable a then Some e else None)"
| "udp_exec (SetDestAddr p a) e =
     (if Socks_Con \<in> owned e p \<and> phase e p = Connecting then Some (e\<lparr>phase := (phase e)(p := Negotiating)\<rparr>) else None)"
| "udp_exec (GetBindAddr p) e = (if Socks_Con \<in> owned e p \<and> phase e p = Associated then Some e else None)"
| "udp_exec (SetSendAddrs p a l) e = (if Udp_Socket \<in> owned e p \<and> sendable a then Some e else None)"
| "udp_exec (WriterStart p r) e =
     (if Send_Writer \<in> owned e p \<and> writing e = None then Some (if r then e\<lparr>writing := Some p\<rparr> else e) else None)"
| "udp_exec (WriterEnd p d) e =
     (if writing e = Some p \<and> int (length d) \<le> made_with e p Send_Writer
      then Some (e\<lparr>writing := None, outbox := outbox e @ [(p, d)]\<rparr>) else None)"
| "udp_exec (AcceptPacket p) e = (if reading e = Some p then Some (e\<lparr>reading := None\<rparr>) else None)"
| "udp_exec (Received l r d) e = Some (e\<lparr>inbox := inbox e @ [(l, r, d)]\<rparr>)"
| "udp_exec (Check b) e = (if b then Some e else None)"

fun udp_execs :: "udp_call list \<Rightarrow> udp_env \<Rightarrow> udp_env option" where
  "udp_execs [] e = Some e"
| "udp_execs (c # cs) e = (case udp_exec c e of None \<Rightarrow> None | Some e' \<Rightarrow> udp_execs cs e')"

type_synonym udp_system = "SocksUdpClient \<times> udp_env"

definition udp_do :: "udp_run \<Rightarrow> udp_env \<Rightarrow> udp_system option" where
  "udp_do r e = map_option (\<lambda>e'. (fst r, e')) (udp_execs (snd r) e)"

datatype udp_event =
    Submit_Packet BAddr BAddr bytes
  | Run_Job udp_ptr
  | Socks_Reports udp_ptr socks_event
  | Socket_Fails udp_ptr
  | Goes_Idle udp_ptr
  | Datagram udp_ptr bytes

definition udp_address :: "BAddr \<Rightarrow> bool" where
  "udp_address a = (case a of BAddr_IPv4 _ _ \<Rightarrow> True | BAddr_IPv6 ip _ \<Rightarrow> length ip = 16 | _ \<Rightarrow> False)"

text \<open>
  The events that the objects' documentation allows; the phase of the SOCKS client orders its reports, and a socket
  cannot be bound to an address of another family.
\<close>

fun udp_enabled :: "udp_world \<Rightarrow> udp_event \<Rightarrow> udp_system \<Rightarrow> bool" where
  "udp_enabled w (Submit_Packet l r d) (u, e) =
     (udp_address l \<and> udp_address r \<and> int (length d) \<le> udp_mtu u \<and>
      (case new_con w of None \<Rightarrow> True | Some p \<Rightarrow> owned e p = {}))"
| "udp_enabled w (Run_Job p) (u, e) = (p \<in> pending_jobs e)"
| "udp_enabled w (Socks_Reports p ev) (u, e) =
     (Socks_Con \<in> owned e p \<and> (ev = EVENT_CONNECTED \<longrightarrow> phase e p = Connecting \<and>
        (case tcp_local_addr w of Some a \<Rightarrow> bind_ok w \<longrightarrow> baddr_type a = made_with e p Udp_Socket | None \<Rightarrow> True)) \<and>
      (ev = EVENT_UP \<longrightarrow> phase e p = Negotiating \<and> sendable (server_bind_addr w)))"
| "udp_enabled w (Socket_Fails p) (u, e) = (Udp_Socket \<in> owned e p)"
| "udp_enabled w (Goes_Idle p) (u, e) = (Send_Monitor \<in> owned e p)"
| "udp_enabled w (Datagram p d) (u, e) = (Recv_Single \<in> owned e p \<and> int (length d) \<le> made_with e p Recv_If)"

fun udp_fire :: "udp_world \<Rightarrow> udp_event \<Rightarrow> udp_system \<Rightarrow> udp_system option" where
  "udp_fire w (Submit_Packet l r d) (u, e) = udp_do (SocksUdpClient_SubmitPacket w u l r d) e"
| "udp_fire w (Run_Job p) (u, e) = udp_do (first_job_handler w u p) (e\<lparr>pending_jobs := pending_jobs e - {p}\<rparr>)"
| "udp_fire w (Socks_Reports p ev) (u, e) =
     udp_do (socks_state_handler w u p ev) (if ev = EVENT_UP then e\<lparr>phase := (phase e)(p := Associated)\<rparr> else e)"
| "udp_fire w (Socket_Fails p) (u, e) = udp_do (datagram_state_handler u p) e"
| "udp_fire w (Goes_Idle p) (u, e) = udp_do (send_idle_handler u p) e"
| "udp_fire w (Datagram p d) (u, e) = udp_do (recv_if_handler_send u p d) (e\<lparr>reading := Some p\<rparr>)"

definition udp_blank :: udp_env where
  "udp_blank = \<lparr>owned = (\<lambda>_. {}), pending_jobs = {}, made_with = (\<lambda>_ _. 0), phase = (\<lambda>_. Connecting), writing = None,
     reading = None, outbox = [], inbox = []\<rparr>"

inductive udp_reached :: "udp_system \<Rightarrow> bool" where
  started: "\<lbrakk>SocksUdpClient_Init m n max_con buf = (r, True); 0 \<le> n; n \<le> INT_MAX; 0 < max_con; 0 < buf; udp_do r udp_blank = Some s\<rbrakk> \<Longrightarrow>
     udp_reached s"
| event: "\<lbrakk>udp_reached (u, e); udp_enabled w ev (u, e); udp_fire w ev (u, e) = Some s\<rbrakk> \<Longrightarrow> udp_reached s"

section \<open>The invariant\<close>

definition udp_sizes_ok :: "SocksUdpClient \<Rightarrow> bool" where
  "udp_sizes_ok u = (0 \<le> udp_mtu u \<and> socks_mtu u = udp_mtu u + 22 \<and> 0 < send_buf_size u \<and> 0 < max_connections u)"

definition udp_tables_ok :: "SocksUdpClient \<Rightarrow> bool" where
  "udp_tables_ok u =
     (distinct (connections_tree u) \<and> num_connections u = int (length (connections_tree u)) \<and>
      num_connections u \<le> max_connections u \<and> inj_on (\<lambda>p. con_local_addr (con u p)) (set (connections_tree u)))"

definition con_ok :: "int \<Rightarrow> SocksUdpClient_connection \<Rightarrow> bool" where
  "con_ok m c =
     (udp_address (con_local_addr c) \<and> udp_address (con_first_remote_addr c) \<and>
      (case con_first_data c of
         None \<Rightarrow> True
       | Some d \<Rightarrow> int (length d) \<le> m \<and> (dns_id c = -1 \<or> dns_id c = get_dns_id (con_first_remote_addr c) d)))"

definition parts_of :: "SocksUdpClient \<Rightarrow> udp_ptr \<Rightarrow> udp_part set" where
  "parts_of u p =
     (if p \<notin> set (connections_tree u) then {} else if con_first_data (con u p) = None then - {First_Data} else UNIV)"

definition udp_env_ok :: "SocksUdpClient \<Rightarrow> udp_env \<Rightarrow> bool" where
  "udp_env_ok u e =
     (owned e = parts_of u \<and> pending_jobs e = {p \<in> set (connections_tree u). con_first_data (con u p) \<noteq> None} \<and>
      (\<forall>p\<in>set (connections_tree u). made_with e p Send_Writer = socks_mtu u \<and> made_with e p Recv_If = socks_mtu u \<and>
         made_with e p Udp_Socket = baddr_type (con_local_addr (con u p))) \<and>
      writing e = None \<and> reading e = None)"

definition udp_good :: "SocksUdpClient \<Rightarrow> udp_env \<Rightarrow> bool" where
  "udp_good u e =
     (udp_sizes_ok u \<and> udp_tables_ok u \<and> (\<forall>p\<in>set (connections_tree u). con_ok (udp_mtu u) (con u p)) \<and> udp_env_ok u e)"

lemma udp_good_parts:
  assumes "udp_good u e"
  shows "udp_sizes_ok u" "udp_tables_ok u" "p \<in> set (connections_tree u) \<Longrightarrow> con_ok (udp_mtu u) (con u p)" "udp_env_ok u e"
    "owned e = parts_of u" "writing e = None" "reading e = None"
  using assms by (auto simp: udp_good_def udp_env_ok_def)

section \<open>Lookup\<close>

lemma udp_address_eq: "udp_address a \<Longrightarrow> udp_address b \<Longrightarrow> BAddr_CompareOrder a b = 0 \<longleftrightarrow> a = b"
  by (subst order_key) (auto simp: sgn_eq_0_iff key_zero udp_address_def ip_address_def split: BAddr.splits)

lemma find_connection_eq:
  assumes "\<forall>p\<in>set (connections_tree u). udp_address (con_local_addr (con u p))" "udp_address l"
  shows "find_connection u l = find (\<lambda>p. con_local_addr (con u p) = l) (connections_tree u)"
  unfolding find_connection_def addr_comparator_def
  by (rule find_cong [OF refl]) (use assms udp_address_eq in auto)

lemma find_connection_None:
  assumes "udp_good u e" "udp_address l"
  shows "find_connection u l = None \<longleftrightarrow> (\<forall>p\<in>set (connections_tree u). con_local_addr (con u p) \<noteq> l)"
  using assms by (subst find_connection_eq) (auto simp: udp_good_def con_ok_def find_None_iff)

lemma find_connection_Some:
  assumes "udp_good u e" "udp_address l"
  shows "find_connection u l = Some p \<longleftrightarrow> p \<in> set (connections_tree u) \<and> con_local_addr (con u p) = l"
proof
  assume "find_connection u l = Some p"
  then show "p \<in> set (connections_tree u) \<and> con_local_addr (con u p) = l"
    using assms by (subst (asm) find_connection_eq) (auto simp: udp_good_def con_ok_def find_Some_iff)
next
  assume p: "p \<in> set (connections_tree u) \<and> con_local_addr (con u p) = l"
  then obtain q where q: "find_connection u l = Some q"
    using find_connection_None [OF assms] by blast
  then have "q \<in> set (connections_tree u) \<and> con_local_addr (con u q) = l"
    using assms by (subst (asm) find_connection_eq) (auto simp: udp_good_def con_ok_def find_Some_iff)
  then have "q = p"
    using p udp_good_parts(2) [OF assms(1)] by (auto simp: udp_tables_ok_def dest: inj_onD)
  with q show "find_connection u l = Some p" by simp
qed

section \<open>Each step\<close>

definition udp_returns :: "(SocksUdpClient \<Rightarrow> udp_env \<Rightarrow> bool) \<Rightarrow> udp_run \<Rightarrow> udp_env \<Rightarrow> bool" where
  "udp_returns P r e = (\<exists>e'. udp_execs (snd r) e = Some e' \<and> P (fst r) e')"

lemma udp_execs_append: "udp_execs (xs @ ys) e = (case udp_execs xs e of None \<Rightarrow> None | Some e' \<Rightarrow> udp_execs ys e')"
  by (induction xs arbitrary: e) (auto split: option.splits)

lemma udp_returns_simps [simp]:
  "udp_returns P (u, []) e \<longleftrightarrow> P u e"
  "udp_returns P (u, c # cs) e \<longleftrightarrow> (\<exists>e'. udp_exec c e = Some e' \<and> udp_returns P (u, cs) e')"
  by (auto simp: udp_returns_def split: option.splits)

lemma udp_returns_append: "udp_returns P (u, xs @ ys) e \<longleftrightarrow> (\<exists>e'. udp_execs xs e = Some e' \<and> udp_returns P (u, ys) e')"
  by (auto simp: udp_returns_def udp_execs_append split: option.splits)

lemma udp_do_returns: "udp_returns P r e \<longleftrightarrow> (\<exists>e'. udp_do r e = Some (fst r, e') \<and> P (fst r) e')"
  by (auto simp: udp_returns_def udp_do_def)

lemma sendable_address: "udp_address a \<Longrightarrow> sendable a \<and> has_port a"
  by (auto simp: udp_address_def sendable_def has_port_def BAddr_GetPort_def split: BAddr.splits)

text \<open>Freeing a connection gives back exactly its parts.\<close>

definition freed :: "udp_ptr \<Rightarrow> udp_env \<Rightarrow> udp_env" where
  "freed p e = e\<lparr>owned := (owned e)(p := {}), pending_jobs := pending_jobs e - {p}\<rparr>"

lemma parts_gone: "UNIV - {Recv_Single} - {Recv_If} - {Recv_Async} - {Send_Queue} - {Send_Writer} - {Send_Monitor} - {Send_Async} -
    {Socks_Con} - {Udp_Socket} - {First_Job} - {First_Data} - {Con_Struct} = {}"
  "- {First_Data} - {Recv_Single} - {Recv_If} - {Recv_Async} - {Send_Queue} - {Send_Writer} - {Send_Monitor} - {Send_Async} -
    {Socks_Con} - {Udp_Socket} - {First_Job} - {Con_Struct} = {}"
proof -
  have "x \<in> set every_part" for x by (cases x) (simp_all add: every_part_def)
  then have u: "UNIV = set every_part" by auto
  show "UNIV - {Recv_Single} - {Recv_If} - {Recv_Async} - {Send_Queue} - {Send_Writer} - {Send_Monitor} - {Send_Async} -
    {Socks_Con} - {Udp_Socket} - {First_Job} - {First_Data} - {Con_Struct} = {}"
   "- {First_Data} - {Recv_Single} - {Recv_If} - {Recv_Async} - {Send_Queue} - {Send_Writer} - {Send_Monitor} - {Send_Async} -
    {Socks_Con} - {Udp_Socket} - {First_Job} - {Con_Struct} = {}"
    unfolding Compl_eq_Diff_UNIV u every_part_def by auto
qed

lemma free_con_runs:
  assumes "udp_good u e" "p \<in> set (connections_tree u)" 
  shows "udp_execs (snd (free_con u p)) (e\<lparr>inbox := x\<rparr>) = Some (freed p (e\<lparr>inbox := x\<rparr>))"
proof -
  note g = udp_good_parts [OF assms(1)]
  have n: "0 < num_connections u"
    using g(2) assms(2) by (auto simp: udp_tables_ok_def length_pos_if_in_set)
  show ?thesis
  proof (cases "con_first_data (con u p) = None")
    case True
    then have "owned e p = - {First_Data}"
      using g(5) assms(2) by (simp add: parts_of_def)
    then show ?thesis
      using n g(6,7) True by (simp add: free_con_def can_dispose_def every_part_def freed_def parts_gone)
  next
    case False
    then have "owned e p = UNIV"
      using g(5) assms(2) by (auto simp: parts_of_def)
    then show ?thesis
      using n g(6,7) False by (simp add: free_con_def can_dispose_def every_part_def freed_def parts_gone)
  qed
qed

lemma free_con_good:
  assumes "udp_good u e" "p \<in> set (connections_tree u)"
  shows "udp_good (fst (free_con u p)) (freed p (e\<lparr>inbox := x\<rparr>))"
proof -
  note g = udp_good_parts [OF assms(1)]
  let ?t = "remove1 p (connections_tree u)"
  have t: "set ?t = set (connections_tree u) - {p}" "distinct ?t"
    using g(2) by (simp_all add: udp_tables_ok_def)
  have "length (connections_tree u) = Suc (length ?t)"
    using assms(2) by (simp add: length_remove1) (metis Suc_pred length_pos_if_in_set)
  then have "udp_tables_ok (fst (free_con u p))"
    using g(2) t by (auto simp: udp_tables_ok_def free_con_def intro: inj_on_subset)
  moreover have "udp_env_ok (fst (free_con u p)) (freed p (e\<lparr>inbox := x\<rparr>))"
    using g(4) t by (auto simp: udp_env_ok_def free_con_def freed_def parts_of_def fun_eq_iff)
  ultimately show ?thesis
    using g(1,3) t by (simp add: udp_good_def udp_sizes_ok_def free_con_def)
qed

lemma free_con_ok:
  assumes "udp_good u e" "p \<in> set (connections_tree u)"
  shows "udp_returns udp_good (free_con u p) (e\<lparr>inbox := x\<rparr>)"
  using free_con_runs [OF assms] free_con_good [OF assms] by (simp add: udp_returns_def)

lemma free_con_now:
  assumes "udp_good u e" "p \<in> set (connections_tree u)"
  shows "udp_returns udp_good (free_con u p) e"
  using free_con_ok [OF assms, of "inbox e"] by simp

lemma tables_con:
  assumes "con_local_addr c = con_local_addr (con u p)"
  shows "udp_tables_ok (u\<lparr>con := (con u)(p := c)\<rparr>) = udp_tables_ok u"
proof -
  have "(\<lambda>q. con_local_addr (((con u)(p := c)) q)) = (\<lambda>q. con_local_addr (con u q))"
    using assms by auto
  then show ?thesis
    by (simp add: udp_tables_ok_def del: fun_upd_apply)
qed

text \<open>The invariant is not about the identification of a query.\<close>

lemma udp_good_con:
  assumes "udp_good u e" "con_local_addr c = con_local_addr (con u p)" "con_first_data c = con_first_data (con u p)"
    "con_first_remote_addr c = con_first_remote_addr (con u p)" "dns_id c = -1 \<or> dns_id c = dns_id (con u p)"
  shows "udp_good (u\<lparr>con := (con u)(p := c)\<rparr>) e"
proof -
  note g = udp_good_parts [OF assms(1)]
  let ?u = "u\<lparr>con := (con u)(p := c)\<rparr>"
  have s: "con_local_addr (con ?u q) = con_local_addr (con u q)" "con_first_data (con ?u q) = con_first_data (con u q)"
    "con_first_remote_addr (con ?u q) = con_first_remote_addr (con u q)"
    "dns_id (con ?u q) = -1 \<or> dns_id (con ?u q) = dns_id (con u q)" for q
    using assms(2-5) by simp_all
  have "udp_sizes_ok ?u" "udp_tables_ok ?u"
    using g(1,2) unfolding udp_sizes_ok_def udp_tables_ok_def s(1-3) by simp_all
  moreover have "parts_of ?u = parts_of u"
    unfolding parts_of_def s(1-3) by simp
  then have "udp_env_ok ?u e"
    using g(4) unfolding udp_env_ok_def s(1-3) by simp
  moreover have "con_ok (udp_mtu ?u) (con ?u q)" if "q \<in> set (connections_tree ?u)" for q
    using g(3) [of q] s(4) [of q] that unfolding con_ok_def s(1-3) by (auto split: option.splits)
  ultimately show ?thesis
    by (simp add: udp_good_def)
qed

lemma udp_good_boxes: "udp_good u e \<Longrightarrow> udp_good u (e\<lparr>writing := None, outbox := x\<rparr>)"
  "udp_good u e \<Longrightarrow> udp_good u (e\<lparr>reading := None, inbox := y\<rparr>)"
  "udp_good u e \<Longrightarrow> udp_good u (e\<lparr>reading := None\<rparr>)"
  "udp_good u e \<Longrightarrow> udp_good u (e\<lparr>phase := z\<rparr>)"
  by (simp_all add: udp_good_def udp_env_ok_def)

text \<open>What is written for a datagram, and what sending one does.\<close>

definition udp_message :: "BAddr \<Rightarrow> bytes \<Rightarrow> bytes" where
  "udp_message remote data =
     (case remote of
        BAddr_IPv6 ip port \<Rightarrow> socks_udp_header 0 0 SOCKS_ATYP_IPV6 @ socks_addr_ipv6 ip port @ data
      | BAddr_IPv4 ip port \<Rightarrow> socks_udp_header 0 0 SOCKS_ATYP_IPV4 @ socks_addr_ipv4 ip port @ data
      | _ \<Rightarrow> data)"

definition next_dns_id :: "BAddr \<Rightarrow> bytes \<Rightarrow> int \<Rightarrow> int" where
  "next_dns_id remote data i = (if 0 \<le> i \<and> get_dns_id remote data \<noteq> i then -1 else i)"

lemma udp_message_length: "udp_address r \<Longrightarrow> length (udp_message r d) \<le> 22 + length d"
  by (auto simp: udp_message_def udp_address_def socks_udp_header_def socks_addr_ipv4_def socks_addr_ipv6_def split: BAddr.splits)

lemma send_con_eq:
  assumes "udp_address r"
  shows "\<exists>cs1 n. send_con w u p r d =
     (u\<lparr>con := (con u)(p := (con u p)\<lparr>dns_id := next_dns_id r d (dns_id (con u p))\<rparr>)\<rparr>,
      Check (int (length d) \<le> udp_mtu u) # cs1 @ [Check (int (n + length d) \<le> socks_mtu u), WriterStart p (writer_ready w)] @
        (if writer_ready w then [Check True, WriterEnd p (udp_message r d)] else [])) \<and> set cs1 \<subseteq> {Check True} \<and> n \<le> 22"
proof -
  let ?cs = "if 0 \<le> dns_id (con u p) then [Check True] else []"
  have h: "has_port r"
    using sendable_address [OF assms] by simp
  obtain ip port where r: "r = BAddr_IPv4 ip port \<or> (\<exists>i6. r = BAddr_IPv6 i6 port \<and> length i6 = 16)"
    using assms by (auto simp: udp_address_def split: BAddr.splits)
  then show ?thesis
  proof (elim disjE exE conjE)
    assume "r = BAddr_IPv4 ip port"
    then show ?thesis
      using h by (intro exI [of _ ?cs] exI [of _ 10])
        (simp add: send_con_def Let_def next_dns_id_def udp_message_def socks_udp_header_def socks_addr_ipv4_def)
  next
    fix i6
    assume "r = BAddr_IPv6 i6 port" "length i6 = 16"
    then show ?thesis
      using h by (intro exI [of _ ?cs] exI [of _ 22])
        (simp add: send_con_def Let_def next_dns_id_def udp_message_def socks_udp_header_def socks_addr_ipv6_def)
  qed
qed

lemma udp_checks_pass: "set cs \<subseteq> {Check True} \<Longrightarrow> udp_execs (cs @ ds) e = udp_execs ds e"
  by (induction cs) auto

lemma send_con_runs:
  assumes "udp_good u e" "p \<in> set (connections_tree u)" "udp_address r" "int (length d) \<le> udp_mtu u"
    "owned e' = owned e" "made_with e' = made_with e" "writing e' = None"
  shows "udp_execs (snd (send_con w u p r d)) e' =
      Some (if writer_ready w then e'\<lparr>outbox := outbox e' @ [(p, udp_message r d)]\<rparr> else e')"
    "fst (send_con w u p r d) = u\<lparr>con := (con u)(p := (con u p)\<lparr>dns_id := next_dns_id r d (dns_id (con u p))\<rparr>)\<rparr>"
proof -
  note g = udp_good_parts [OF assms(1)]
  obtain cs1 n where s: "send_con w u p r d =
     (u\<lparr>con := (con u)(p := (con u p)\<lparr>dns_id := next_dns_id r d (dns_id (con u p))\<rparr>)\<rparr>,
      Check (int (length d) \<le> udp_mtu u) # cs1 @ [Check (int (n + length d) \<le> socks_mtu u), WriterStart p (writer_ready w)] @
        (if writer_ready w then [Check True, WriterEnd p (udp_message r d)] else []))" "set cs1 \<subseteq> {Check True}" "n \<le> 22"
    using send_con_eq [OF assms(3), of w u p d] by blast
  have m: "socks_mtu u = udp_mtu u + 22" "made_with e' p Send_Writer = socks_mtu u"
    using g(1,4) assms(2,6) by (simp_all add: udp_sizes_ok_def udp_env_ok_def)
  have "Send_Writer \<in> owned e' p"
    using g(5) assms(2,5) by (simp add: parts_of_def)
  moreover have "int (length (udp_message r d)) \<le> socks_mtu u"
    using udp_message_length [OF assms(3), of d] assms(4) m by linarith
  ultimately show "udp_execs (snd (send_con w u p r d)) e' =
      Some (if writer_ready w then e'\<lparr>outbox := outbox e' @ [(p, udp_message r d)]\<rparr> else e')"
    using s(3) m assms(4,7) by (simp add: s(1) udp_checks_pass [OF s(2)])
  show "fst (send_con w u p r d) = u\<lparr>con := (con u)(p := (con u p)\<lparr>dns_id := next_dns_id r d (dns_id (con u p))\<rparr>)\<rparr>"
    by (simp add: s(1))
qed

lemma udp_good_outbox: "udp_good u e \<Longrightarrow> udp_good u (if b then e\<lparr>outbox := x\<rparr> else e)"
  by (simp add: udp_good_def udp_env_ok_def)

lemma send_con_ok:
  assumes "udp_good u e" "p \<in> set (connections_tree u)" "udp_address r" "int (length d) \<le> udp_mtu u"
  shows "udp_returns udp_good (send_con w u p r d) e"
  using send_con_runs [OF assms, of e w] udp_good_parts(6) [OF assms(1)] assms(1)
  by (simp add: udp_returns_def udp_good_outbox udp_good_con next_dns_id_def)

lemma first_job_ok:
  assumes "udp_good u e" "p \<in> pending_jobs e"
  shows "udp_returns udp_good (first_job_handler w u p) (e\<lparr>pending_jobs := pending_jobs e - {p}\<rparr>)"
proof -
  note g = udp_good_parts [OF assms(1)]
  obtain d where p: "p \<in> set (connections_tree u)" "con_first_data (con u p) = Some d"
    using g(4) assms(2) by (auto simp: udp_env_ok_def)
  let ?c = "con u p" and ?e = "e\<lparr>pending_jobs := pending_jobs e - {p}\<rparr>"
  let ?r = "con_first_remote_addr ?c"
  have c: "udp_address ?r" "int (length d) \<le> udp_mtu u"
    using g(3) [OF p(1)] p(2) by (simp_all add: con_ok_def)
  let ?e1 = "if writer_ready w then ?e\<lparr>outbox := outbox ?e @ [(p, udp_message ?r d)]\<rparr> else ?e"
  let ?u = "u\<lparr>con := (con u)(p := ?c\<lparr>dns_id := next_dns_id ?r d (dns_id ?c), con_first_data := None\<rparr>)\<rparr>"
  have x: "udp_execs (snd (send_con w u p ?r d)) ?e = Some ?e1"
    "fst (send_con w u p ?r d) = u\<lparr>con := (con u)(p := ?c\<lparr>dns_id := next_dns_id ?r d (dns_id ?c)\<rparr>)\<rparr>"
    using send_con_runs [OF assms(1) p(1) c, of ?e w] g(6) by simp_all
  have all: "owned ?e1 p = UNIV"
    using g(5) p by (auto simp: parts_of_def)
  let ?e2 = "?e1\<lparr>owned := (owned ?e1)(p := UNIV - {First_Data})\<rparr>"
  have "udp_good ?u ?e2"
  proof -
    have "udp_sizes_ok ?u" 
      using g(1) by (simp add: udp_sizes_ok_def)
    moreover have "udp_tables_ok ?u"
      using g(2) by (subst tables_con) simp_all
    moreover have "con_ok (udp_mtu ?u) (con ?u q)" if "q \<in> set (connections_tree ?u)" for q
      using g(3) [of q] that by (auto simp: con_ok_def)
    moreover have "udp_env_ok ?u ?e2"
      using g(4) p by (auto simp: udp_env_ok_def parts_of_def fun_eq_iff)
    ultimately show ?thesis
      by (simp add: udp_good_def)
  qed
  moreover have "can_dispose First_Data p ?e1"
    unfolding can_dispose_def all by (simp add: every_part_def)
  moreover have "first_job_handler w u p = (?u, [Check True] @ snd (send_con w u p ?r d) @ [Dispose First_Data p])"
    using x(2) p(2) by (simp add: first_job_handler_def case_prod_unfold)
  ultimately show ?thesis
    using x(1) all by (simp add: udp_returns_append)
qed

text \<open>A new connection: each failure gives back what was acquired before it.\<close>

lemma udp_good_fresh:
  assumes "udp_good u e" "p \<notin> set (connections_tree u)"
  shows "udp_good (u\<lparr>con := (con u)(p := c)\<rparr>)
    (e\<lparr>owned := (owned e)(p := {}), made_with := (made_with e)(p := f), phase := ph, pending_jobs := pending_jobs e - {p}\<rparr>)"
proof -
  note g = udp_good_parts [OF assms(1)]
  let ?u = "u\<lparr>con := (con u)(p := c)\<rparr>"
  have "inj_on (\<lambda>q. con_local_addr (con ?u q)) (set (connections_tree u)) \<longleftrightarrow>
      inj_on (\<lambda>q. con_local_addr (con u q)) (set (connections_tree u))"
    using assms(2) by (auto intro!: inj_on_cong)
  then have "udp_tables_ok ?u" "udp_sizes_ok ?u"
    using g(1,2) by (simp_all add: udp_tables_ok_def udp_sizes_ok_def)
  moreover have "con_ok (udp_mtu ?u) (con ?u q)" if "q \<in> set (connections_tree ?u)" for q
    using g(3) [of q] that assms(2) by auto
  moreover have "udp_env_ok ?u (e\<lparr>owned := (owned e)(p := {}), made_with := (made_with e)(p := f), phase := ph,
      pending_jobs := pending_jobs e - {p}\<rparr>)"
    using g(4) assms(2) by (auto simp: udp_env_ok_def parts_of_def fun_eq_iff)
  ultimately show ?thesis
    by (simp add: udp_good_def)
qed

lemma fresh_same:
  assumes "udp_good u e" "p \<notin> set (connections_tree u)"
  shows "owned e p = {}" "p \<notin> pending_jobs e"
  using udp_good_parts [OF assms(1)] assms(2) by (simp_all add: parts_of_def udp_env_ok_def)

text \<open>The environment while the parts of one connection are made.\<close>

definition making :: "udp_ptr \<Rightarrow> udp_part set \<Rightarrow> (udp_part \<Rightarrow> int) \<Rightarrow> (udp_ptr \<Rightarrow> con_phase) \<Rightarrow> udp_ptr set \<Rightarrow> udp_env \<Rightarrow> udp_env" where
  "making p A f ph J e = e\<lparr>owned := (owned e)(p := A), made_with := (made_with e)(p := f), phase := ph, pending_jobs := J\<rparr>"

lemma making_start: "owned e p = {} \<Longrightarrow> e = making p {} (made_with e p) (phase e) (pending_jobs e) e"
  by (simp add: making_def fun_upd_idem)

lemma making_fields [simp]:
  "owned (making p A f ph J e) p = A" "made_with (making p A f ph J e) p = f" "writing (making p A f ph J e) = writing e"
  "reading (making p A f ph J e) = reading e" "pending_jobs (making p A f ph J e) = J"
  by (simp_all add: making_def)

lemma making_acquired [simp]:
  "acquired x p m (making p A f ph J e) =
     making p (insert x A) (f(x := m)) (if x = Socks_Con then ph(p := Connecting) else ph) J e"
  by (simp add: making_def acquired_def)

lemma making_less [simp]: "making p A f ph J e\<lparr>owned := (owned (making p A f ph J e))(p := B), pending_jobs := K\<rparr> = making p B f ph K e"
  "making p A f ph J e\<lparr>pending_jobs := K\<rparr> = making p A f ph K e"
  by (simp_all add: making_def)

lemma dispose_making [simp]:
  "can_dispose x p (making p A f ph J e) \<longleftrightarrow>
     x \<in> A \<and> (\<forall>y\<in>set every_part. x \<in> set (needs y) \<longrightarrow> y \<notin> A) \<and> (x = Send_Writer \<longrightarrow> writing e \<noteq> Some p) \<and>
     (x = Recv_If \<longrightarrow> reading e \<noteq> Some p)"
  by (simp add: can_dispose_def)

lemma acquire_making [simp]:
  "can_acquire x p m (making p A f ph J e) \<longleftrightarrow>
     x \<notin> A \<and> 0 \<le> m \<and> (\<forall>y\<in>set (needs x). y \<in> A \<and> (y \<in> pipeline \<longrightarrow> f y = m))"
  by (simp add: can_acquire_def)

lemma making_done:
  assumes "udp_good u e" "p \<notin> set (connections_tree u)"
  shows "udp_good u (making p {} f ph (pending_jobs e) e)" "udp_good (u\<lparr>con := (con u)(p := c)\<rparr>) (making p {} f ph (pending_jobs e) e)"
  using udp_good_fresh [OF assms, where c = "con u p" and f = f and ph = ph] udp_good_fresh [OF assms, where c = c and f = f and ph = ph]
    fresh_same [OF assms]
  by (simp_all add: making_def)

lemma every_part_UNIV: "set every_part = UNIV"
proof -
  have "x \<in> set every_part" for x
    by (cases x) (simp_all add: every_part_def)
  then show ?thesis by auto
qed

lemma family_of: "udp_address l \<Longrightarrow> (baddr_type l = 1 \<or> baddr_type l = 2) \<and> 0 \<le> baddr_type l"
  by (auto simp: udp_address_def baddr_type_def split: BAddr.splits)

text \<open>The calls of \<open>init_con\<close>, in parts.\<close>

definition made_job :: "udp_ptr \<Rightarrow> udp_call list" where
  "made_job p = [Acquire Con_Struct p 0, Acquire First_Data p 0, Check True, Acquire First_Job p 0, SetJob p]"

definition made_sender :: "udp_ptr \<Rightarrow> int \<Rightarrow> udp_call list" where
  "made_sender p m = [Acquire Socks_Con p 0, Acquire Send_Async p m, Acquire Send_Monitor p m, Acquire Send_Writer p m]"

definition unmade_socket :: "udp_ptr \<Rightarrow> udp_call list" where
  "unmade_socket p = [Dispose Udp_Socket p, Dispose First_Job p, Dispose First_Data p, Dispose Con_Struct p]"

definition unmade_sender :: "udp_ptr \<Rightarrow> udp_call list" where
  "unmade_sender p = [Dispose Send_Writer p, Dispose Send_Monitor p, Dispose Send_Async p, Dispose Socks_Con p] @ unmade_socket p"

lemma made_job_runs:
  assumes "owned e p = {}"
  shows "\<exists>f ph. udp_execs (made_job p) e = Some (making p {First_Job, First_Data, Con_Struct} f ph (insert p (pending_jobs e)) e)"
  by (subst making_start [OF assms]) (simp add: made_job_def, blast)

lemma made_sender_runs:
  assumes "0 \<le> m"
  shows "\<exists>f' ph'. udp_execs (made_sender p m) (making p {Udp_Socket, First_Job, First_Data, Con_Struct} f ph J e) =
    Some (making p {Send_Writer, Send_Monitor, Send_Async, Socks_Con, Udp_Socket, First_Job, First_Data, Con_Struct} f' ph' J e) \<and>
    f' Send_Writer = m \<and> f' Send_Monitor = m \<and> f' Udp_Socket = f Udp_Socket"
  using assms
  by (intro exI [of _ "f(Socks_Con := 0, Send_Async := m, Send_Monitor := m, Send_Writer := m)"] exI [of _ "ph(p := Connecting)"])
    (simp add: made_sender_def pipeline_def)

lemma unmade_socket_runs:
  assumes "p \<notin> J"
  shows "udp_execs (unmade_socket p) (making p {Udp_Socket, First_Job, First_Data, Con_Struct} f ph (insert p J) e) = Some (making p {} f ph J e)"
  using assms by (simp add: unmade_socket_def every_part_def)

lemma unmade_sender_runs:
  assumes "p \<notin> J" "writing e = None"
  shows "udp_execs (unmade_sender p)
     (making p {Send_Writer, Send_Monitor, Send_Async, Socks_Con, Udp_Socket, First_Job, First_Data, Con_Struct} f ph (insert p J) e) =
    Some (making p {} f ph J e)"
  using assms by (simp add: unmade_sender_def every_part_def unmade_socket_runs)


lemma init_early_ok:
  assumes "udp_good u e" "num_connections u < max_connections u" "find_connection u l = None"
    "udp_address l" "udp_address r" "new_con w = Some p" "owned e p = {}"
    "\<not> data_ok w \<or> \<not> socket_ok w \<or> \<not> socks_ok w"
  shows "udp_returns udp_good (init_con w u l r d) e"
proof -
  note g = udp_good_parts [OF assms(1)]
  have p: "p \<notin> set (connections_tree u)"
    using g(5) assms(7) by (auto simp: parts_of_def split: if_splits)
  have h: "has_port r" using sendable_address [OF assms(5)] by simp
  note fam = family_of [OF assms(4)]
  obtain f ph where job: "udp_execs (made_job p) e = Some (making p {First_Job, First_Data, Con_Struct} f ph (insert p (pending_jobs e)) e)"
    using made_job_runs [OF assms(7)] by blast
  show ?thesis
  proof (cases "data_ok w")
    case False
    have "udp_returns udp_good (u, [Acquire Con_Struct p 0, Dispose Con_Struct p]) e"
      by (subst making_start [OF assms(7)]) (use making_done(1) [OF assms(1) p] in \<open>simp add: every_part_def\<close>)
    then show ?thesis
      using assms(2,3,6) False by (simp add: init_con_def Let_def)
  next
    case True
    let ?u = "u\<lparr>con := (con u)(p := \<lparr>con_local_addr = l, con_first_data = Some d, con_first_remote_addr = r, dns_id = get_dns_id r d\<rparr>)\<rparr>"
    note d = making_done(2) [OF assms(1) p] fresh_same(2) [OF assms(1) p]
    show ?thesis
    proof (cases "socket_ok w")
      case False
      have "init_con w u l r d = (?u, [Check True, Check True] @ made_job p @ [Dispose First_Job p, Dispose First_Data p, Dispose Con_Struct p])"
        using assms(2,3,6) True False h by (simp add: init_con_def Let_def made_job_def)
      then show ?thesis
        using job d by (simp add: udp_returns_append every_part_def)
    next
      case s: True
      then have "\<not> socks_ok w" using True assms(8) by simp
      then have "init_con w u l r d = (?u, [Check True, Check True] @ made_job p @ [OpenSocket p (baddr_type l)] @ unmade_socket p)"
        using assms(2,3,6) True s h by (simp add: init_con_def Let_def made_job_def unmade_socket_def)
      moreover have "udp_execs (unmade_socket p) (making p {Udp_Socket, First_Job, First_Data, Con_Struct} (f(Udp_Socket := baddr_type l)) ph
          (insert p (pending_jobs e)) e) = Some (making p {} (f(Udp_Socket := baddr_type l)) ph (pending_jobs e) e)"
        using unmade_socket_runs [OF d(2)] .
      ultimately show ?thesis
        using job d fam by (simp add: udp_returns_def udp_execs_append pipeline_def)
    qed
  qed
qed

definition made_receiver :: "udp_ptr \<Rightarrow> int \<Rightarrow> udp_call list" where
  "made_receiver p m = [Acquire Recv_Async p m, Acquire Recv_If p m]"

lemma made_receiver_runs:
  assumes "0 \<le> m" "A = {Send_Queue, Send_Writer, Send_Monitor, Send_Async, Socks_Con, Udp_Socket, First_Job, First_Data, Con_Struct}"
  shows "udp_execs (made_receiver p m) (making p A f ph J e) =
    Some (making p (insert Recv_If (insert Recv_Async A)) (f(Recv_Async := m, Recv_If := m)) ph J e)"
  using assms by (simp add: made_receiver_def pipeline_def)

lemma unmade_receiver_runs:
  assumes "p \<notin> J" "writing e = None" "reading e = None"
  shows "udp_execs ([Dispose Recv_If p, Dispose Recv_Async p, Dispose Send_Queue p] @ unmade_sender p)
     (making p {Recv_If, Recv_Async, Send_Queue, Send_Writer, Send_Monitor, Send_Async, Socks_Con, Udp_Socket, First_Job, First_Data,
        Con_Struct} f ph (insert p J) e) =
    Some (making p {} f ph J e)"
  using assms by (simp add: every_part_def unmade_sender_runs)

lemma all_made:
  "{Recv_Single, Recv_If, Recv_Async, Send_Queue, Send_Writer, Send_Monitor, Send_Async, Socks_Con, Udp_Socket, First_Job, First_Data,
     Con_Struct} = UNIV"
  unfolding every_part_UNIV [symmetric] every_part_def by auto

lemma udp_new_good:
  assumes "udp_good u e" "p \<notin> set (connections_tree u)" "num_connections u < max_connections u"
    "\<forall>q\<in>set (connections_tree u). con_local_addr (con u q) \<noteq> con_local_addr c" "con_ok (udp_mtu u) c" "con_first_data c \<noteq> None"
    "xs @ ys = connections_tree u" "f Send_Writer = socks_mtu u" "f Recv_If = socks_mtu u" "f Udp_Socket = baddr_type (con_local_addr c)"
  shows "udp_good (u\<lparr>con := (con u)(p := c), connections_tree := xs @ p # ys, num_connections := num_connections u + 1\<rparr>)
     (making p UNIV f ph (insert p (pending_jobs e)) e)" (is "udp_good ?u ?e")
proof -
  note g = udp_good_parts [OF assms(1)]
  have s: "set (xs @ p # ys) = insert p (set (connections_tree u))" "length (xs @ p # ys) = Suc (length (connections_tree u))"
    "distinct (xs @ p # ys)"
    using g(2) assms(2) by (auto simp: udp_tables_ok_def simp flip: assms(7))
  have e: "(\<lambda>q. con_local_addr (((con u)(p := c)) q)) = (\<lambda>q. con_local_addr (con u q))(p := con_local_addr c)"
    by auto
  have "inj_on (\<lambda>q. con_local_addr (((con u)(p := c)) q)) (insert p (set (connections_tree u)))"
    unfolding e using g(2) assms(2,4) by (auto simp: udp_tables_ok_def intro!: inj_on_fun_updI)
  then have "udp_tables_ok ?u"
    using g(2) s assms(3) by (simp add: udp_tables_ok_def del: set_append length_append distinct_append fun_upd_apply)
  moreover have "con_ok (udp_mtu ?u) (con ?u q)" if "q \<in> set (connections_tree ?u)" for q
    using g(3) [of q] that s(1) assms(5) by (auto simp del: set_append)
  moreover have "udp_env_ok ?u ?e"
  proof -
    have t: "set (connections_tree ?u) = insert p (set (connections_tree u))"
      using s(1) by (simp del: set_append)
    have "owned ?e q = parts_of ?u q" for q
      using g(5) assms(6) unfolding parts_of_def t by (cases "q = p") (auto simp: making_def parts_of_def)
    then have "owned ?e = parts_of ?u" by (rule ext)
    then show ?thesis
      using g(4) assms(2,6,8-10) unfolding udp_env_ok_def t by (auto simp: making_def)
  qed
  ultimately show ?thesis
    using g(1) by (simp add: udp_good_def udp_sizes_ok_def)
qed

lemma insert_connection_fresh:
  assumes "find_connection u (con_local_addr (con u p)) = None"
  obtains xs ys where "xs @ ys = connections_tree u" "insert_connection p u = (u\<lparr>connections_tree := xs @ p # ys\<rparr>, [Check True])"
  by (rule that [OF takeWhile_dropWhile_id]) (use assms in \<open>simp add: insert_connection_def Let_def\<close>)

lemma init_late_ok:
  assumes "udp_good u e" "num_connections u < max_connections u" "find_connection u l = None"
    "udp_address l" "udp_address r" "new_con w = Some p" "owned e p = {}" "int (length d) \<le> udp_mtu u"
    "data_ok w" "socket_ok w" "socks_ok w"
  shows "udp_returns udp_good (init_con w u l r d) e"
proof -
  note g = udp_good_parts [OF assms(1)]
  have p: "p \<notin> set (connections_tree u)"
    using g(5) assms(7) by (auto simp: parts_of_def split: if_splits)
  have h: "has_port r" using sendable_address [OF assms(5)] by simp
  have m: "0 \<le> socks_mtu u" "0 < send_buf_size u" using g(1) by (simp_all add: udp_sizes_ok_def)
  note fam = family_of [OF assms(4)] and J = fresh_same(2) [OF assms(1) p] and gone = making_done(2) [OF assms(1) p]
  define c where "c = \<lparr>con_local_addr = l, con_first_data = Some d, con_first_remote_addr = r, dns_id = get_dns_id r d\<rparr>"
  define pre where "pre = [Check True, Check True] @ made_job p @ [OpenSocket p (baddr_type l)] @ made_sender p (socks_mtu u)"
  let ?u = "u\<lparr>con := (con u)(p := c)\<rparr>" and ?q = "\<lambda>b. QueueInit p (socks_mtu u) (send_buf_size u) b"
  obtain f ph where pre: "udp_execs pre e = Some (making p {Send_Writer, Send_Monitor, Send_Async, Socks_Con, Udp_Socket, First_Job,
      First_Data, Con_Struct} f ph (insert p (pending_jobs e)) e)" "f Send_Writer = socks_mtu u" "f Send_Monitor = socks_mtu u"
    "f Udp_Socket = baddr_type l"
  proof -
    obtain f ph where "udp_execs (made_job p) e = Some (making p {First_Job, First_Data, Con_Struct} f ph (insert p (pending_jobs e)) e)"
      using made_job_runs [OF assms(7)] by blast
    then show ?thesis
      using made_sender_runs [OF m(1), of p "f(Udp_Socket := baddr_type l)" ph "insert p (pending_jobs e)" e] fam that
      by (auto simp: pre_def udp_execs_append pipeline_def)
  qed
  note known = assms(2,3,6,9-11) h
  consider "\<not> queue_ok w" | "queue_ok w" "\<not> recv_ok w" | "queue_ok w" "recv_ok w" by blast
  then show ?thesis
  proof cases
    case 1
    then have "init_con w u l r d = (?u, pre @ [?q False] @ unmade_sender p)"
      using known by (simp add: init_con_def Let_def pre_def made_job_def made_sender_def unmade_sender_def unmade_socket_def c_def)
    then show ?thesis
      using pre m gone unmade_sender_runs [OF J g(6)] by (simp add: udp_returns_def udp_execs_append pipeline_def)
  next
    case 2
    then have "init_con w u l r d = (?u, pre @ [?q True] @ made_receiver p (socks_mtu u) @
        [Dispose Recv_If p, Dispose Recv_Async p, Dispose Send_Queue p] @ unmade_sender p)"
      using known by (simp add: init_con_def Let_def pre_def made_job_def made_sender_def unmade_sender_def unmade_socket_def c_def made_receiver_def)
    then show ?thesis
      using pre m gone unmade_receiver_runs [OF J g(6,7)]
      by (simp add: udp_returns_def udp_execs_append made_receiver_runs [OF m(1) refl] pipeline_def del: udp_execs.simps(2))
        (simp add: pipeline_def made_receiver_runs [OF m(1) refl] udp_execs_append)
  next
    case 3
    have new: "\<forall>q\<in>set (connections_tree u). con_local_addr (con u q) \<noteq> con_local_addr c"
      using find_connection_None [OF assms(1,4)] assms(3) by (simp add: c_def)
    have "find_connection ?u l = None"
      using assms(3) p by (simp add: find_connection_def find_None_iff)
    then obtain xs ys where t: "xs @ ys = connections_tree u" "insert_connection p ?u = (?u\<lparr>connections_tree := xs @ p # ys\<rparr>, [Check True])"
      using insert_connection_fresh [of ?u p] by (auto simp: c_def)
    let ?v = "?u\<lparr>connections_tree := xs @ p # ys, num_connections := num_connections u + 1\<rparr>"
    have i: "init_con w u l r d = (?v, pre @ [?q True] @ made_receiver p (socks_mtu u) @ [Acquire Recv_Single p (socks_mtu u), Check True])"
      using known 3 t(2) by (simp add: init_con_def Let_def pre_def made_job_def made_sender_def c_def made_receiver_def)
    have "udp_good ?v (making p UNIV (f(Send_Queue := socks_mtu u, Recv_Async := socks_mtu u, Recv_If := socks_mtu u,
        Recv_Single := socks_mtu u)) ph (insert p (pending_jobs e)) e)"
      by (rule udp_new_good [OF assms(1) p assms(2) new _ _ t(1)]) (use assms(4,5,8) pre(2,4) in \<open>simp_all add: c_def con_ok_def\<close>)
    then show ?thesis
      using i pre m by (simp add: udp_returns_def udp_execs_append pipeline_def made_receiver_def all_made)
  qed
qed

lemma init_con_ok:
  assumes "udp_good u e" "num_connections u < max_connections u" "find_connection u l = None"
    "udp_address l" "udp_address r" "int (length d) \<le> udp_mtu u" "case new_con w of None \<Rightarrow> True | Some p \<Rightarrow> owned e p = {}"
  shows "udp_returns udp_good (init_con w u l r d) e"
proof (cases "new_con w")
  case None
  then show ?thesis
    using assms by (simp add: init_con_def Let_def)
next
  case (Some p)
  then have "owned e p = {}"
    using assms(7) by simp
  then show ?thesis
    using init_early_ok [OF assms(1-5) Some] init_late_ok [OF assms(1-5) Some _ assms(6)] by blast
qed

lemma udp_submit_ok:
  assumes "udp_good u e" "udp_address l" "udp_address r" "int (length d) \<le> udp_mtu u"
    "case new_con w of None \<Rightarrow> True | Some p \<Rightarrow> owned e p = {}"
  shows "udp_returns udp_good (SocksUdpClient_SubmitPacket w u l r d) e"
proof (cases "find_connection u l")
  case None
  then show ?thesis
    using init_con_ok [OF assms(1) _ None assms(2-5)] assms sendable_address
    by (simp add: SocksUdpClient_SubmitPacket_def Let_def udp_returns_def case_prod_unfold)
next
  case (Some p)
  then have "p \<in> set (connections_tree u)"
    using find_connection_Some [OF assms(1,2)] by simp
  then show ?thesis
    using send_con_ok [OF assms(1) _ assms(3,4)] Some assms sendable_address
    by (simp add: SocksUdpClient_SubmitPacket_def Let_def udp_returns_def case_prod_unfold)
qed

lemma parsed_smaller: "parse_udp_header x = Some (r, d) \<Longrightarrow> udp_address r \<and> length d \<le> length x"
  by (auto simp: parse_udp_header_def Let_def udp_address_def split: if_splits)

lemma udp_recv_ok:
  assumes "udp_good u e" "p \<in> set (connections_tree u)" "int (length x) \<le> socks_mtu u"
  shows "udp_returns udp_good (recv_if_handler_send u p x) (e\<lparr>reading := Some p\<rparr>)"
proof (cases "\<exists>r d. parse_udp_header x = Some (r, d) \<and> int (length d) \<le> udp_mtu u")
  case False
  then have "recv_if_handler_send u p x = (u, [Check True, AcceptPacket p])"
    using assms(3) by (auto simp: recv_if_handler_send_def Let_def split: option.splits)
  then show ?thesis
    using udp_good_boxes(3) [OF assms(1)] by simp
next
  case True
  then obtain r d where r: "parse_udp_header x = Some (r, d)" "int (length d) \<le> udp_mtu u" by blast
  have h: "has_port r"
    using parsed_smaller [OF r(1)] sendable_address by simp
  let ?in = "inbox e @ [(con_local_addr (con u p), r, d)]"
  have e: "e\<lparr>reading := None, inbox := ?in\<rparr> = e\<lparr>inbox := ?in\<rparr>"
    using udp_good_parts(7) [OF assms(1)] by simp
  have good: "udp_good v (e\<lparr>inbox := ?in\<rparr>)" if "udp_good v e" for v
    using udp_good_boxes(2) [OF that, of ?in] by (simp only: e)
  show ?thesis
    using assms(3) r h good [OF assms(1)] good [OF udp_good_con [OF assms(1)]] free_con_ok [OF assms(1,2)]
    by (simp add: recv_if_handler_send_def Let_def udp_returns_def case_prod_unfold e)
qed

lemma set_port_sendable: "BAddr_SetPort a port = Some b \<Longrightarrow> sendable b"
  by (auto simp: BAddr_SetPort_def sendable_def split: BAddr.splits)

lemma udp_socks_ok:
  assumes "udp_good u e" "p \<in> set (connections_tree u)" "ev = EVENT_CONNECTED \<longrightarrow> phase e p = Connecting"
    "ev = EVENT_UP \<longrightarrow> sendable (server_bind_addr w)"
  shows "udp_returns udp_good (socks_state_handler w u p ev) (if ev = EVENT_UP then e\<lparr>phase := (phase e)(p := Associated)\<rparr> else e)"
proof -
  note g = udp_good_parts [OF assms(1)]
  have own: "Socks_Con \<in> owned e p" "Udp_Socket \<in> owned e p"
    using g(5) assms(2) by (simp_all add: parts_of_def)
  note free = free_con_now [OF assms(1,2)]
  show ?thesis
  proof (cases ev)
    case EVENT_CONNECTED
    then show ?thesis
      using own set_port_sendable free assms udp_good_boxes(4) [OF assms(1)]
      by (auto simp: socks_state_handler_def socks_connected_def Let_def udp_returns_def case_prod_unfold split: option.splits)
  next
    case EVENT_UP
    then show ?thesis
      using own assms udp_good_boxes(4) [OF assms(1)] by (simp add: socks_state_handler_def)
  qed (use free in \<open>simp_all add: socks_state_handler_def\<close>)
qed

section \<open>Reachable states\<close>

lemma owned_live: "udp_good u e \<Longrightarrow> x \<in> owned e p \<Longrightarrow> p \<in> set (connections_tree u)"
  using udp_good_parts(5) [of u e] by (auto simp: parts_of_def split: if_splits)

lemma udp_fire_ok:
  assumes "udp_good u e" "udp_enabled w ev (u, e)"
  shows "\<exists>u' e'. udp_fire w ev (u, e) = Some (u', e') \<and> udp_good u' e'"
proof -
  have keep: "udp_returns udp_good r e0 \<Longrightarrow> \<exists>u' e'. udp_do r e0 = Some (u', e') \<and> udp_good u' e'" for r e0
    unfolding udp_do_returns by blast
  show ?thesis
  proof (cases ev)
    case (Submit_Packet l r d)
    then show ?thesis using keep [OF udp_submit_ok [OF assms(1), of l r d w]] assms(2) by simp
  next
    case (Run_Job p)
    then show ?thesis using keep [OF first_job_ok [OF assms(1)]] assms(2) by simp
  next
    case (Socks_Reports p ev')
    then show ?thesis
      using keep [OF udp_socks_ok [OF assms(1), of p ev' w]] owned_live [OF assms(1), of Socks_Con p] assms(2) by simp
  next
    case (Socket_Fails p)
    then show ?thesis
      using keep [OF free_con_now [OF assms(1)]] owned_live [OF assms(1), of Udp_Socket p] assms(2)
      by (simp add: datagram_state_handler_def)
  next
    case (Goes_Idle p)
    then show ?thesis
      using keep [OF free_con_now [OF assms(1)]] owned_live [OF assms(1), of Send_Monitor p] assms(2)
      by (simp add: send_idle_handler_def)
  next
    case (Datagram p x)
    then have p: "p \<in> set (connections_tree u)"
      using owned_live [OF assms(1), of Recv_Single p] assms(2) by simp
    then have "made_with e p Recv_If = socks_mtu u"
      using udp_good_parts(4) [OF assms(1)] by (simp add: udp_env_ok_def)
    then show ?thesis
      using keep [OF udp_recv_ok [OF assms(1) p]] assms(2) Datagram by simp
  qed
qed

text \<open>The datagram with its header: exact, and refused when it would not be an \<open>int\<close>.\<close>

lemma socks_mtu_exact:
  assumes "0 \<le> n" "n \<le> INT_MAX"
  shows "compute_socks_mtu n = (if n + 22 \<le> INT_MAX then n + 22 else -1)"
proof -
  have "bsize_abs (bsize_add (bsize_fromint n) (bsize_add (bsize_fromsize 4) (bsize_fromsize 18))) = Some (nat n + 22)"
    using assms by (simp add: add_exact fromint_exact lift_size_def fits_def INT_MAX_def nat_less_iff)
  from toint_exact [OF this] show ?thesis
    using assms by (simp add: compute_socks_mtu_def)
qed

lemma udp_start_ok:
  assumes "SocksUdpClient_Init m n max_con buf = (r, True)" "0 \<le> n" "n \<le> INT_MAX" "0 < max_con" "0 < buf"
  shows "udp_returns udp_good r udp_blank"
  using assms
  by (auto simp: SocksUdpClient_Init_def Let_def socks_mtu_exact udp_good_def udp_sizes_ok_def udp_tables_ok_def udp_env_ok_def
      parts_of_def udp_blank_def fun_eq_iff split: if_splits)

lemma udp_reached_good: "udp_reached (u, e) \<Longrightarrow> udp_good u e"
proof (induction "(u, e)" arbitrary: u e rule: udp_reached.induct)
  case (started m n max_con buf r u e)
  then show ?case
    using udp_start_ok [OF started(1-5)] by (auto simp: udp_do_returns)
next
  case (event u0 e0 w ev u e)
  then show ?case
    using udp_fire_ok [of u0 e0 w ev] by fastforce
qed

end
