(* ===== verification/Socks_Udp_Properties.thy ===== *)
theory Socks_Udp_Properties
  imports Socks_Udp_Relay
begin

text \<open>
  What follows for the SOCKS UDP client: it is safe and can be freed at any time; its connections are a
  table of the local addresses; datagrams survive the way through the header; and what its treatment
  of DNS queries and of address families means.
\<close>

section \<open>The table of connections\<close>

type_synonym udp_table = "BAddr \<Rightarrow> int option"

definition udp_table :: "SocksUdpClient \<Rightarrow> udp_table" where
  "udp_table u = map_of (map (\<lambda>p. (con_local_addr (con u p), dns_id (con u p))) (connections_tree u))"

text \<open>What the operations do to the table: the value of an address is the identification of its only query, or \<open>-1\<close>.\<close>

definition con_made :: "udp_world \<Rightarrow> bool" where
  "con_made w = (new_con w \<noteq> None \<and> data_ok w \<and> socket_ok w \<and> socks_ok w \<and> queue_ok w \<and> recv_ok w)"

definition socket_bound :: "udp_world \<Rightarrow> bool" where
  "socket_bound w = ((case tcp_local_addr w of None \<Rightarrow> False | Some a \<Rightarrow> sendable a) \<and> bind_ok w \<and> bound_addr w \<noteq> None)"

definition table_submit :: "bool \<Rightarrow> int \<Rightarrow> BAddr \<Rightarrow> BAddr \<Rightarrow> bytes \<Rightarrow> udp_table \<Rightarrow> udp_table" where
  "table_submit made cap l r d T =
     (case T l of
        Some i \<Rightarrow> T(l \<mapsto> next_dns_id r d i)
      | None \<Rightarrow> if int (card (dom T)) < cap \<and> made then T(l \<mapsto> get_dns_id r d) else T)"

definition table_receive :: "int \<Rightarrow> BAddr \<Rightarrow> bytes \<Rightarrow> udp_table \<Rightarrow> udp_table" where
  "table_receive m l packet T =
     (case (parse_udp_header packet, T l) of
        (Some (r, d), Some i) \<Rightarrow>
          if m < int (length d) \<or> i < 0 then T else if get_dns_id r d = i then T(l := None) else T(l \<mapsto> -1)
      | _ \<Rightarrow> T)"

fun table_step :: "udp_world \<Rightarrow> (udp_ptr \<Rightarrow> BAddr) \<Rightarrow> int \<Rightarrow> int \<Rightarrow> udp_event \<Rightarrow> udp_table \<Rightarrow> udp_table" where
  "table_step w addr cap m (Submit_Packet l r d) T = table_submit (con_made w) cap l r d T"
| "table_step w addr cap m (Run_Job p) T = T"
| "table_step w addr cap m (Socks_Reports p EVENT_UP) T = T"
| "table_step w addr cap m (Socks_Reports p EVENT_CONNECTED) T = (if socket_bound w then T else T(addr p := None))"
| "table_step w addr cap m (Socks_Reports p _) T = T(addr p := None)"
| "table_step w addr cap m (Socket_Fails p) T = T(addr p := None)"
| "table_step w addr cap m (Goes_Idle p) T = T(addr p := None)"
| "table_step w addr cap m (Datagram p x) T = table_receive m (addr p) x T"

lemma table_Some:
  assumes "udp_tables_ok u"
  shows "udp_table u l = Some i \<longleftrightarrow> (\<exists>p\<in>set (connections_tree u). con_local_addr (con u p) = l \<and> dns_id (con u p) = i)"
proof -
  have "distinct (map fst (map (\<lambda>p. (con_local_addr (con u p), dns_id (con u p))) (connections_tree u)))"
    using assms by (simp add: udp_tables_ok_def distinct_map comp_def)
  from map_of_eq_Some_iff [OF this] show ?thesis
    by (auto simp: udp_table_def)
qed

lemma table_at:
  assumes "udp_tables_ok u" "p \<in> set (connections_tree u)"
  shows "udp_table u (con_local_addr (con u p)) = Some (dns_id (con u p))"
  using assms table_Some by blast

lemma table_dom: "dom (udp_table u) = (\<lambda>p. con_local_addr (con u p)) ` set (connections_tree u)"
  unfolding udp_table_def by (simp add: dom_map_of_conv_image_fst image_image)

lemma table_card: "udp_tables_ok u \<Longrightarrow> int (card (dom (udp_table u))) = num_connections u"
  by (simp add: table_dom udp_tables_ok_def card_image distinct_card)

lemma table_eqI: "(\<And>l i. T l = Some i \<longleftrightarrow> T' l = Some i) \<Longrightarrow> T = T'"
  by (rule ext) (metis not_None_eq)

lemma table_con:
  assumes "udp_tables_ok u" "p \<in> set (connections_tree u)" "con_local_addr c = con_local_addr (con u p)"
  shows "udp_table (u\<lparr>con := (con u)(p := c)\<rparr>) = (udp_table u)(con_local_addr (con u p) \<mapsto> dns_id c)"
proof (rule table_eqI)
  fix l i
  have "udp_tables_ok (u\<lparr>con := (con u)(p := c)\<rparr>)"
    using assms(1,3) by (simp add: tables_con)
  moreover have "q = p" if "q \<in> set (connections_tree u)" "con_local_addr (con u q) = con_local_addr (con u p)" for q
    using assms(1,2) that by (auto simp: udp_tables_ok_def dest: inj_onD)
  ultimately show "udp_table (u\<lparr>con := (con u)(p := c)\<rparr>) l = Some i \<longleftrightarrow>
      ((udp_table u)(con_local_addr (con u p) \<mapsto> dns_id c)) l = Some i"
    using assms table_Some [OF assms(1), of l i] by (auto simp: table_Some) metis
qed

lemma table_unchanged:
  assumes "udp_tables_ok u" "p \<in> set (connections_tree u)" "con_local_addr c = con_local_addr (con u p)" "dns_id c = dns_id (con u p)"
  shows "udp_table (u\<lparr>con := (con u)(p := c)\<rparr>) = udp_table u"
  using table_con [OF assms(1-3)] table_at [OF assms(1,2)] assms(4) by (auto simp: fun_upd_idem)

lemma table_free:
  assumes "udp_good u e" "p \<in> set (connections_tree u)"
  shows "udp_table (fst (free_con u p)) = (udp_table u)(con_local_addr (con u p) := None)"
proof (rule table_eqI)
  fix l i
  note g = udp_good_parts [OF assms(1)] and h = udp_good_parts [OF free_con_good [OF assms]]
  have t: "set (connections_tree (fst (free_con u p))) = set (connections_tree u) - {p}" "con (fst (free_con u p)) = con u"
    using g(2) by (simp_all add: free_con_def udp_tables_ok_def)
  have "q = p" if "q \<in> set (connections_tree u)" "con_local_addr (con u q) = con_local_addr (con u p)" for q
    using g(2) assms(2) that by (auto simp: udp_tables_ok_def dest: inj_onD)
  then show "udp_table (fst (free_con u p)) l = Some i \<longleftrightarrow> ((udp_table u)(con_local_addr (con u p) := None)) l = Some i"
    unfolding table_Some [OF h(2)] t by (auto simp: table_Some [OF g(2)])
qed

lemma table_new:
  assumes "p \<notin> set (connections_tree u)" "con_local_addr c \<notin> dom (udp_table u)" "xs @ ys = connections_tree u"
  shows "udp_table (u\<lparr>con := (con u)(p := c), connections_tree := xs @ p # ys, num_connections := n\<rparr>) =
    (udp_table u)(con_local_addr c \<mapsto> dns_id c)"
proof -
  let ?f = "\<lambda>q. (con_local_addr (con u q), dns_id (con u q))"
  let ?g = "\<lambda>q. (con_local_addr (((con u)(p := c)) q), dns_id (((con u)(p := c)) q))"
  have n: "p \<notin> set xs" "p \<notin> set ys"
    using assms(1) by (auto simp flip: assms(3))
  have "con_local_addr c \<notin> dom (map_of (map ?f xs))"
    using assms(2) by (auto simp: udp_table_def simp flip: assms(3))
  moreover have "map ?g xs = map ?f xs" "map ?g ys = map ?f ys"
    using n by auto
  then have "map ?g (xs @ p # ys) = map ?f xs @ (con_local_addr c, dns_id c) # map ?f ys"
    by simp
  moreover have "udp_table u = map_of (map ?f xs @ map ?f ys)"
    by (simp add: udp_table_def flip: assms(3))
  ultimately show ?thesis
    unfolding udp_table_def by (simp add: map_add_upd_left del: fun_upd_apply map_append)
qed

lemma table_heap: "p \<notin> set (connections_tree u) \<Longrightarrow> udp_table (u\<lparr>con := (con u)(p := c)\<rparr>) = udp_table u"
  unfolding udp_table_def by (simp, intro arg_cong [where f = map_of] map_cong) auto

section \<open>Each event\<close>

lemma init_con_table:
  assumes "udp_good u e" "num_connections u < max_connections u" "udp_address l" "udp_table u l = None"
    "case new_con w of None \<Rightarrow> True | Some p \<Rightarrow> owned e p = {}"
  shows "udp_table (fst (init_con w u l r d)) = (if con_made w then (udp_table u)(l \<mapsto> get_dns_id r d) else udp_table u)"
proof (cases "new_con w")
  case None
  then show ?thesis
    by (simp add: init_con_def Let_def con_made_def)
next
  case (Some p)
  note g = udp_good_parts [OF assms(1)]
  have p: "p \<notin> set (connections_tree u)"
    using g(5) assms(5) Some by (auto simp: parts_of_def split: if_splits)
  define c where "c = \<lparr>con_local_addr = l, con_first_data = Some d, con_first_remote_addr = r, dns_id = get_dns_id r d\<rparr>"
  let ?u = "u\<lparr>con := (con u)(p := c)\<rparr>"
  have "\<forall>q\<in>set (connections_tree u). con_local_addr (con u q) \<noteq> l"
    using table_at [OF g(2)] assms(4) by auto
  then have "find_connection u l = None"
    using find_connection_None [OF assms(1,3)] by simp
  then have "find_connection ?u l = None"
    using p by (simp add: find_connection_def find_None_iff)
  then obtain xs ys where t: "xs @ ys = connections_tree u" "insert_connection p ?u = (?u\<lparr>connections_tree := xs @ p # ys\<rparr>, [Check True])"
    using insert_connection_fresh [of ?u p] by (auto simp: c_def)
  show ?thesis
  proof (cases "con_made w")
    case True
    then have "fst (init_con w u l r d) = ?u\<lparr>connections_tree := xs @ p # ys, num_connections := num_connections u + 1\<rparr>"
      using Some t(2) by (simp add: init_con_def Let_def con_made_def c_def)
    moreover have "con_local_addr c \<notin> dom (udp_table u)"
      using assms(4) by (simp add: c_def domIff)
    ultimately show ?thesis
      using table_new [OF p _ t(1)] True by (simp add: c_def)
  next
    case False
    then have "fst (init_con w u l r d) = u \<or> fst (init_con w u l r d) = ?u"
      using Some by (auto simp: init_con_def Let_def con_made_def c_def)
    then show ?thesis
      using table_heap [OF p] False by auto
  qed
qed

lemma submit_table:
  assumes "udp_good u e" "udp_enabled w (Submit_Packet l r d) (u, e)"
  shows "udp_table (fst (SocksUdpClient_SubmitPacket w u l r d)) = table_submit (con_made w) (max_connections u) l r d (udp_table u)"
proof (cases "find_connection u l")
  case None
  note g = udp_good_parts [OF assms(1)]
  have n: "udp_table u l = None"
    using None find_connection_None [OF assms(1), of l] assms(2) table_Some [OF g(2), of l] by (auto intro: option.exhaust)
  show ?thesis
    using init_con_table [OF assms(1) _ _ n] None n assms(2) table_card [OF g(2)]
    by (simp add: SocksUdpClient_SubmitPacket_def Let_def table_submit_def case_prod_unfold)
next
  case (Some p)
  note g = udp_good_parts [OF assms(1)]
  have p: "p \<in> set (connections_tree u)" "con_local_addr (con u p) = l"
    using find_connection_Some [OF assms(1), of l] Some assms(2) by auto
  then have l: "udp_table u l = Some (dns_id (con u p))"
    using table_at [OF g(2) p(1)] by simp
  have "fst (send_con w u p r d) = u\<lparr>con := (con u)(p := (con u p)\<lparr>dns_id := next_dns_id r d (dns_id (con u p))\<rparr>)\<rparr>"
    using send_con_runs(2) [OF assms(1) p(1), of r d e w] assms(2) g(6) by simp
  then show ?thesis
    using Some l table_con [OF g(2) p(1)] p(2)
    by (simp add: SocksUdpClient_SubmitPacket_def Let_def table_submit_def case_prod_unfold)
qed

text \<open>The first datagram, sent late, leaves the identification alone.\<close>

lemma first_job_table:
  assumes "udp_good u e" "p \<in> pending_jobs e"
  shows "udp_table (fst (first_job_handler w u p)) = udp_table u"
proof -
  note g = udp_good_parts [OF assms(1)]
  obtain d where p: "p \<in> set (connections_tree u)" "con_first_data (con u p) = Some d"
    using g(4) assms(2) by (auto simp: udp_env_ok_def)
  let ?c = "con u p" and ?e = "e\<lparr>pending_jobs := pending_jobs e - {p}\<rparr>"
  have c: "udp_address (con_first_remote_addr ?c)" "int (length d) \<le> udp_mtu u"
    "next_dns_id (con_first_remote_addr ?c) d (dns_id ?c) = dns_id ?c"
    using g(3) [OF p(1)] p(2) by (auto simp: con_ok_def next_dns_id_def)
  have "fst (first_job_handler w u p) = u\<lparr>con := (con u)(p := ?c\<lparr>con_first_data := None\<rparr>)\<rparr>"
    using send_con_runs(2) [OF assms(1) p(1) c(1,2), of e w] c(3) p(2) g(6) by (simp add: first_job_handler_def case_prod_unfold)
  then show ?thesis
    using table_unchanged [OF g(2) p(1), of "?c\<lparr>con_first_data := None\<rparr>"] by simp
qed

lemma receive_table:
  assumes "udp_good u e" "p \<in> set (connections_tree u)"
  shows "udp_table (fst (recv_if_handler_send u p x)) = table_receive (udp_mtu u) (con_local_addr (con u p)) x (udp_table u)"
proof -
  note g = udp_good_parts [OF assms(1)]
  show ?thesis
    using table_at [OF g(2) assms(2)] table_free [OF assms] table_con [OF g(2) assms(2)]
    by (simp add: recv_if_handler_send_def table_receive_def Let_def case_prod_unfold split: option.splits)
qed

lemma socks_table:
  assumes "udp_good u e" "p \<in> set (connections_tree u)"
  shows "udp_table (fst (socks_state_handler w u p ev)) =
    table_step w (\<lambda>p. con_local_addr (con u p)) (max_connections u) (udp_mtu u) (Socks_Reports p ev) (udp_table u)"
proof -
  have "sendable a \<longleftrightarrow> (\<exists>b. BAddr_SetPort a 0 = Some b)" for a
    by (simp add: BAddr_SetPort_def sendable_def split: BAddr.splits)
  then show ?thesis
    using table_free [OF assms]
    by (cases ev) (auto simp: socks_state_handler_def socks_connected_def socket_bound_def case_prod_unfold split: option.splits)
qed

lemma datagram_closes:
  assumes "udp_good u e" "udp_enabled w (Datagram p x) (u, e)" "parse_udp_header x = Some (r, d)" "int (length d) \<le> udp_mtu u"
    "0 \<le> dns_id (con u p)" "get_dns_id r d = dns_id (con u p)"
  shows "\<exists>u' e'. udp_fire w (Datagram p x) (u, e) = Some (u', e') \<and> udp_table u' = (udp_table u)(con_local_addr (con u p) := None)"
proof -
  have p: "p \<in> set (connections_tree u)"
    using owned_live [OF assms(1), of Recv_Single p] assms(2) by simp
  obtain u' e' where f: "udp_fire w (Datagram p x) (u, e) = Some (u', e')"
    using udp_fire_ok [OF assms(1,2)] by blast
  then have "udp_table u' = table_receive (udp_mtu u) (con_local_addr (con u p)) x (udp_table u)"
    using receive_table [OF assms(1) p, of x] by (auto simp: udp_do_def)
  then show ?thesis
    using f assms(3-6) table_at [OF udp_good_parts(2) [OF assms(1)] p] by (simp add: table_receive_def)
qed

section \<open>Freeing and runs of events\<close>

declare SocksUdpClient_Free.simps [simp del]

lemma udp_free_runs:
  assumes "udp_good u e"
  shows "\<exists>e'. udp_execs (snd (SocksUdpClient_Free u)) e = Some e' \<and> owned e' = (\<lambda>_. {}) \<and> pending_jobs e' = {}"
  using assms
proof (induction "length (connections_tree u)" arbitrary: u e)
  case 0
  then have "connections_tree u = []" by simp
  then show ?case
    using udp_good_parts(4) [OF 0(2)] by (simp add: SocksUdpClient_Free.simps [of u] udp_env_ok_def parts_of_def fun_eq_iff)
next
  case (Suc n)
  then obtain p ps where L: "connections_tree u = p # ps"
    by (cases "connections_tree u") auto
  let ?u = "fst (free_con u p)" and ?e = "freed p e"
  have p: "p \<in> set (connections_tree u)"
    by (simp add: L)
  have "udp_good ?u ?e" "udp_execs (snd (free_con u p)) e = Some ?e"
    using free_con_good [OF Suc.prems p, of "inbox e"] free_con_runs [OF Suc.prems p, of "inbox e"] by simp_all
  moreover have "n = length (connections_tree ?u)"
    using Suc.hyps(2) by (simp add: L free_con_def)
  moreover have "SocksUdpClient_Free u = (fst (SocksUdpClient_Free ?u), snd (free_con u p) @ snd (SocksUdpClient_Free ?u))"
    by (subst SocksUdpClient_Free.simps) (simp add: L case_prod_unfold)
  ultimately show ?case
    using Suc.hyps(1) [of ?u ?e] by (simp add: udp_execs_append)
qed

fun udp_run_events :: "(udp_world \<times> udp_event) list \<Rightarrow> udp_system \<Rightarrow> udp_system option" where
  "udp_run_events [] s = Some s"
| "udp_run_events ((w, ev) # evs) s =
     (if udp_enabled w ev s then (case udp_fire w ev s of None \<Rightarrow> None | Some s' \<Rightarrow> udp_run_events evs s') else None)"

lemma udp_run_reached: "udp_reached s \<Longrightarrow> udp_run_events evs s = Some s' \<Longrightarrow> udp_reached s'"
proof (induction evs arbitrary: s)
  case (Cons x evs)
  obtain w ev u e where x: "x = (w, ev)" "s = (u, e)"
    by (cases x; cases s)
  then show ?case
    using Cons udp_reached.event [of u e w ev] by (auto split: if_splits option.splits)
qed simp

text \<open>A client of one query, from port 1000 of 10.0.0.2 to a DNS server.\<close>

definition some_client :: SocksUdpClient where
  "some_client = \<lparr>num_connections = 0, max_connections = 0, send_buf_size = 0, udp_mtu = 0, socks_mtu = 0, connections_tree = [],
     con = (\<lambda>_. \<lparr>con_local_addr = BAddr_None, con_first_data = None, con_first_remote_addr = BAddr_None, dns_id = 0\<rparr>)\<rparr>"

definition udp_world_for :: "udp_ptr \<Rightarrow> udp_world" where
  "udp_world_for p = \<lparr>new_con = Some p, data_ok = True, socket_ok = True, socks_ok = True, queue_ok = True, recv_ok = True,
     writer_ready = True, tcp_local_addr = Some (BAddr_IPv4 9 9), bind_ok = True, bound_addr = Some (BAddr_IPv4 9 8),
     server_bind_addr = BAddr_IPv4 7 7\<rparr>"

definition a_client :: BAddr where "a_client = BAddr_IPv4 0x0200000A 0xE803"
definition a_query :: bytes where "a_query = [1, 2, 3]"
definition a_server :: BAddr where "a_server = BAddr_IPv4 0x08080808 0x3500"
definition another_server :: BAddr where "another_server = BAddr_IPv4 0x01010101 0x3500"

lemmas samples = a_client_def a_query_def a_server_def another_server_def udp_world_for_def udp_address_def sendable_def

definition started_client :: udp_system where
  "started_client = the (udp_do (fst (SocksUdpClient_Init some_client 100 2 3)) udp_blank)"

lemma started_reached: "udp_reached started_client"
proof -
  have "snd (SocksUdpClient_Init some_client 100 2 3)" "udp_do (fst (SocksUdpClient_Init some_client 100 2 3)) udp_blank \<noteq> None"
    by code_simp+
  then show ?thesis
    unfolding started_client_def
    by (intro udp_reached.started [of some_client 100 2 3 "fst (SocksUdpClient_Init some_client 100 2 3)"]) (auto simp: INT_MAX_def prod_eq_iff)
qed

definition one_query :: "(udp_world \<times> udp_event) list" where
  "one_query = [(udp_world_for 7, Submit_Packet a_client a_server a_query), (udp_world_for 7, Run_Job 7)]"

lemma one_query_runs:
  obtains u e where "udp_reached (u, e)" "connections_tree u = [7]" "con_local_addr (con u 7) = a_client" "dns_id (con u 7) = 258"
    "udp_mtu u = 100" "max_connections u = 2" "owned e 7 = - {First_Data}" "phase e 7 = Connecting" "con_first_remote_addr (con u 7) = a_server"
proof -
  have "(case udp_run_events one_query started_client of None \<Rightarrow> False
     | Some (u, e) \<Rightarrow> connections_tree u = [7] \<and> con_local_addr (con u 7) = a_client \<and> dns_id (con u 7) = 258 \<and>
         udp_mtu u = 100 \<and> max_connections u = 2 \<and> con_first_data (con u 7) = None \<and> phase e 7 = Connecting \<and>
         con_first_remote_addr (con u 7) = a_server)"
    by code_simp
  then obtain u e where r: "udp_run_events one_query started_client = Some (u, e)" "connections_tree u = [7]"
    "con_local_addr (con u 7) = a_client" "dns_id (con u 7) = 258" "udp_mtu u = 100" "max_connections u = 2"
    "con_first_data (con u 7) = None" "phase e 7 = Connecting" "con_first_remote_addr (con u 7) = a_server"
    by (auto split: option.splits)
  have reached: "udp_reached (u, e)"
    using udp_run_reached [OF started_reached r(1)] .
  have "owned e 7 = - {First_Data}"
    using udp_good_parts(5) [OF udp_reached_good [OF reached]] r by (simp add: parts_of_def)
  then show ?thesis
    using that [OF reached r(2-6) _ r(8,9)] by blast
qed

section \<open>Properties\<close>

text \<open>C16: The SOCKS UDP client never fails an assertion, never uses or releases a part of a connection that it does not
  own, never makes a part twice or before what it needs: from every reachable state every event is
  handled.  The parts that exist are those of the connections in the tree, which are at most \<open>max_connections\<close>
  and have different local addresses; and \<open>SocksUdpClient_Free\<close> then releases all of them.\<close>

theorem socks_udp_never_fails:
  assumes "udp_reached (u, e)" "udp_enabled w ev (u, e)"
  shows "(\<exists>s. udp_fire w ev (u, e) = Some s \<and> udp_reached s) \<and>
    (\<forall>p. owned e p \<noteq> {} \<longleftrightarrow> p \<in> set (connections_tree u)) \<and>
    int (length (connections_tree u)) = num_connections u \<and> num_connections u \<le> max_connections u \<and>
    distinct (map (\<lambda>p. con_local_addr (con u p)) (connections_tree u)) \<and>
    (\<exists>e'. udp_execs (snd (SocksUdpClient_Free u)) e = Some e' \<and> owned e' = (\<lambda>_. {}) \<and> pending_jobs e' = {})"
proof -
  note good = udp_reached_good [OF assms(1)] and g = udp_good_parts [OF udp_reached_good [OF assms(1)]]
  have "owned e p \<noteq> {} \<longleftrightarrow> p \<in> set (connections_tree u)" for p
    using g(5) by (auto simp: parts_of_def)
  moreover have "\<exists>s. udp_fire w ev (u, e) = Some s \<and> udp_reached s"
    using udp_fire_ok [OF good assms(2)] udp_reached.event [OF assms] by blast
  ultimately show ?thesis
    using g(2) udp_free_runs [OF good] by (simp add: udp_tables_ok_def distinct_map)
qed

theorem socks_udp_never_fails_witness:
  "\<exists>u e s. udp_reached (u, e) \<and> connections_tree u = [7] \<and>
     udp_fire (udp_world_for 8) (Submit_Packet another_server a_server [1]) (u, e) = Some s \<and> udp_reached s"
proof -
  obtain u e where s: "udp_reached (u, e)" "connections_tree u = [7]" "udp_mtu u = 100"
    by (rule one_query_runs)
  have "owned e 8 = {}"
    using udp_good_parts(5) [OF udp_reached_good [OF s(1)]] s(2) by (simp add: parts_of_def)
  then have "udp_enabled (udp_world_for 8) (Submit_Packet another_server a_server [1]) (u, e)"
    using s(3) by (simp add: samples)
  from socks_udp_never_fails [OF s(1) this] s show ?thesis by blast
qed

text \<open>C17: The connections are a table from local addresses to what is known of their DNS query.  Every
  event changes it as specified: a datagram from a new address adds an entry unless the table is full or the connection cannot be
  made, one from a known address keeps the identification only if it is the same query; the
  answer to the query, inactivity, an error and a socket that cannot be bound remove the entry of
  that address and nothing else.\<close>

theorem socks_udp_is_a_table:
  assumes "udp_reached (u, e)" "udp_enabled w ev (u, e)"
  shows "\<exists>u' e'. udp_fire w ev (u, e) = Some (u', e') \<and>
    udp_table u' = table_step w (\<lambda>p. con_local_addr (con u p)) (max_connections u) (udp_mtu u) ev (udp_table u)"
proof -
  note good = udp_reached_good [OF assms(1)]
  obtain u' e' where f: "udp_fire w ev (u, e) = Some (u', e')"
    using udp_fire_ok [OF good assms(2)] by blast
  then have "udp_table u' = table_step w (\<lambda>p. con_local_addr (con u p)) (max_connections u) (udp_mtu u) ev (udp_table u)"
  proof (cases ev)
    case (Submit_Packet l r d)
    then show ?thesis
      using f submit_table [OF good] assms(2) by (auto simp: udp_do_def)
  next
    case (Run_Job p)
    then show ?thesis
      using f first_job_table [OF good, of p w] assms(2) by (auto simp: udp_do_def)
  next
    case (Socks_Reports p ev')
    then show ?thesis
      using f socks_table [OF good owned_live [OF good, of Socks_Con p]] assms(2) by (auto simp: udp_do_def)
  next
    case (Socket_Fails p)
    then show ?thesis
      using f table_free [OF good owned_live [OF good, of Udp_Socket p]] assms(2) by (auto simp: udp_do_def datagram_state_handler_def)
  next
    case (Goes_Idle p)
    then show ?thesis
      using f table_free [OF good owned_live [OF good, of Send_Monitor p]] assms(2) by (auto simp: udp_do_def send_idle_handler_def)
  next
    case (Datagram p x)
    then show ?thesis
      using f receive_table [OF good owned_live [OF good, of Recv_Single p]] assms(2) by (auto simp: udp_do_def)
  qed
  with f show ?thesis by blast
qed

theorem socks_udp_is_a_table_witness:
  "\<exists>u e u' e'. udp_reached (u, e) \<and> udp_table u = [a_client \<mapsto> 258] \<and>
     udp_fire (udp_world_for 7) (Submit_Packet a_client a_server [3, 4]) (u, e) = Some (u', e') \<and> udp_table u' = [a_client \<mapsto> -1]"
proof -
  obtain u e where s: "udp_reached (u, e)" "connections_tree u = [7]" "udp_mtu u = 100" "con_local_addr (con u 7) = a_client"
    "dns_id (con u 7) = 258" 
    by (rule one_query_runs)
  let ?w = "udp_world_for 7\<lparr>new_con := None\<rparr>"
  have T: "udp_table u = [a_client \<mapsto> 258]"
    using s by (simp add: udp_table_def)
  have n: "SocksUdpClient_SubmitPacket (udp_world_for 7) u a_client a_server [3, 4] = SocksUdpClient_SubmitPacket ?w u a_client a_server [3, 4]"
    using find_connection_Some [OF udp_reached_good [OF s(1)], of a_client 7] s
    by (simp add: SocksUdpClient_SubmitPacket_def send_con_def samples)
  have "udp_enabled ?w (Submit_Packet a_client a_server [3, 4]) (u, e)"
    using s(3) by (simp add: samples)
  from socks_udp_is_a_table [OF s(1) this] obtain u' e' where
    "udp_fire ?w (Submit_Packet a_client a_server [3, 4]) (u, e) = Some (u', e')"
    "udp_table u' = table_submit (con_made ?w) (max_connections u) a_client a_server [3, 4] (udp_table u)"
    by auto
  moreover have "next_dns_id a_server [3, 4] 258 = -1"
    by code_simp
  ultimately show ?thesis
    using s(1) T n by (intro exI [of _ u] exI [of _ e] exI [of _ u'] exI [of _ e']) (simp add: table_submit_def)
qed

text \<open>C18: What the client sends for a datagram is what it understands: the message fits the MTU of the connection, and when
  it comes in at any connection, the same address and data are passed to the user with that
  connection's local address, for IPv4 and IPv6 and every length up to the MTU.\<close>

theorem socks_udp_datagrams_roundtrip:
  assumes "udp_reached (u, e)" "p \<in> set (connections_tree u)" "udp_address r" "int (length d) \<le> udp_mtu u"
    "WriterEnd p m \<in> set (snd (send_con w u p r d))"
  shows "int (length m) \<le> socks_mtu u \<and> Received (con_local_addr (con u q)) r d \<in> set (snd (recv_if_handler_send u q m))"
proof -
  note g = udp_good_parts [OF udp_reached_good [OF assms(1)]]
  have "m = udp_message r d"
    using send_con_eq [OF assms(3), of w u p d] assms(5) by (auto split: if_splits)
  moreover have "int (length (udp_message r d)) \<le> socks_mtu u"
    using udp_message_length [OF assms(3), of d] g(1) assms(4) by (simp add: udp_sizes_ok_def)
  moreover have "parse_udp_header (udp_message r d) = Some (r, d)"
    using assms(3)
    by (cases r) (simp_all add: udp_address_def parse_udp_header_def udp_message_def socks_udp_header_def socks_addr_ipv4_def
        socks_addr_ipv6_def SOCKS_ATYP_IPV4_def SOCKS_ATYP_IPV6_def le16_bytes_def[of 0] Let_def del: le16_of_take le32_of_take)
  ultimately show ?thesis
    using assms(4) by (simp add: recv_if_handler_send_def Let_def case_prod_unfold)
qed

theorem socks_udp_datagrams_roundtrip_witness:
  "\<exists>u e m. udp_reached (u, e) \<and> WriterEnd 7 m \<in> set (snd (send_con (udp_world_for 8) u 7 a_server [5])) \<and> length m = 11 \<and>
     Received a_client a_server [5] \<in> set (snd (recv_if_handler_send u 7 m))"
proof -
  obtain u e where s: "udp_reached (u, e)" "connections_tree u = [7]" "udp_mtu u = 100" "con_local_addr (con u 7) = a_client"
    by (rule one_query_runs)
  have m: "WriterEnd 7 (udp_message a_server [5]) \<in> set (snd (send_con (udp_world_for 8) u 7 a_server [5]))"
    by (simp add: send_con_def Let_def udp_message_def samples)
  moreover have "udp_address a_server" "length (udp_message a_server [5]) = 11"
    by code_simp+
  ultimately show ?thesis
    using socks_udp_datagrams_roundtrip [OF s(1) _ _ _ m, of 7] s by auto
qed

text \<open>C19: A connection that counts as used for one DNS query may have sent that query to several servers: another query
  with the same number to any server keeps it so, although the description of \<open>dns_id\<close> asks for the
  same IP address.  The first answer with that number, from whichever server, then closes the
  connection, and the answers of the others are lost.\<close>

theorem socks_udp_confuses_dns_servers:
  assumes "udp_reached (u, e)" "udp_table u l = Some i" "0 \<le> i" "udp_enabled w (Submit_Packet l r d) (u, e)" "get_dns_id r d = i"
  shows "\<exists>u' e'. udp_fire w (Submit_Packet l r d) (u, e) = Some (u', e') \<and> udp_table u' l = Some i \<and>
    (\<forall>w' p x r' d'. udp_enabled w' (Datagram p x) (u', e') \<and> con_local_addr (con u' p) = l \<and>
       parse_udp_header x = Some (r', d') \<and> int (length d') \<le> udp_mtu u' \<and> get_dns_id r' d' = i \<longrightarrow>
       (\<exists>u2 e2. udp_fire w' (Datagram p x) (u', e') = Some (u2, e2) \<and> l \<notin> dom (udp_table u2)))"
proof -
  note good = udp_reached_good [OF assms(1)]
  obtain u' e' where f: "udp_fire w (Submit_Packet l r d) (u, e) = Some (u', e')" "udp_good u' e'"
    using udp_fire_ok [OF good assms(4)] by blast
  have "udp_table u' = table_submit (con_made w) (max_connections u) l r d (udp_table u)"
    using f(1) submit_table [OF good assms(4)] by (auto simp: udp_do_def)
  then have T: "udp_table u' l = Some i"
    using assms(2,5) by (simp add: table_submit_def next_dns_id_def)
  have "\<exists>u2 e2. udp_fire w' (Datagram p x) (u', e') = Some (u2, e2) \<and> l \<notin> dom (udp_table u2)"
    if h: "udp_enabled w' (Datagram p x) (u', e')" "con_local_addr (con u' p) = l" "parse_udp_header x = Some (r', d')"
      "int (length d') \<le> udp_mtu u'" "get_dns_id r' d' = i" for w' p x r' d'
  proof -
    have "p \<in> set (connections_tree u')"
      using owned_live [OF f(2), of Recv_Single p] h(1) by simp
    then have "dns_id (con u' p) = i"
      using table_at [OF udp_good_parts(2) [OF f(2)]] h(2) T by fastforce
    then show ?thesis
      using datagram_closes [OF f(2) h(1,3,4)] h(2,5) assms(3) by auto
  qed
  with f(1) T show ?thesis by blast
qed

theorem socks_udp_confuses_dns_servers_witness:
  "\<exists>u e u' e'. udp_reached (u, e) \<and> con_first_remote_addr (con u 7) = a_server \<and> a_server \<noteq> another_server \<and>
     udp_fire (udp_world_for 8) (Submit_Packet a_client another_server a_query) (u, e) = Some (u', e') \<and> udp_table u' a_client = Some 258"
proof -
  obtain u e where s: "udp_reached (u, e)" "connections_tree u = [7]" "udp_mtu u = 100" "con_local_addr (con u 7) = a_client"
    "dns_id (con u 7) = 258" "con_first_remote_addr (con u 7) = a_server"
    by (rule one_query_runs)
  have T: "udp_table u a_client = Some 258"
    using s by (simp add: udp_table_def)
  have "owned e 8 = {}"
    using udp_good_parts(5) [OF udp_reached_good [OF s(1)]] s(2) by (simp add: parts_of_def)
  then have n: "udp_enabled (udp_world_for 8) (Submit_Packet a_client another_server a_query) (u, e)"
    using s(3) by (simp add: samples)
  have i: "get_dns_id another_server a_query = 258" "a_server \<noteq> another_server"
    by code_simp+
  show ?thesis
    using socks_udp_confuses_dns_servers [OF s(1) T _ n i(1)] s(1,6) i(2) by auto
qed

text \<open>C20: The socket of a connection has the address family of the client's address, but it is bound to the
  address from which the SOCKS server was reached.  When the families differ, every new connection is
  dropped as soon as the server is connected: such a client never gets through.\<close>

theorem socks_udp_needs_the_family_of_the_client:
  assumes "udp_reached (u, e)" "udp_enabled w (Socks_Reports p EVENT_CONNECTED) (u, e)" "tcp_local_addr w = Some a"
    "baddr_type a \<noteq> baddr_type (con_local_addr (con u p))"
  shows "\<exists>u' e'. udp_fire w (Socks_Reports p EVENT_CONNECTED) (u, e) = Some (u', e') \<and>
    con_local_addr (con u p) \<notin> dom (udp_table u') \<and> owned e' p = {} \<and> outbox e' = outbox e"
proof -
  note good = udp_reached_good [OF assms(1)]
  have p: "p \<in> set (connections_tree u)"
    using owned_live [OF good, of Socks_Con p] assms(2) by simp
  then have "made_with e p Udp_Socket = baddr_type (con_local_addr (con u p))"
    using udp_good_parts(4) [OF good] by (simp add: udp_env_ok_def)
  then have b: "\<not> bind_ok w"
    using assms(2-4) by auto
  obtain cs where s: "socks_state_handler w u p EVENT_CONNECTED = (fst (free_con u p), cs @ snd (free_con u p))"
    "cs = [] \<or> (\<exists>x. cs = [BindSocket p x] \<and> sendable x)"
  proof (cases "BAddr_SetPort a 0")
    case None
    then show ?thesis
      using assms(3) by (intro that [of "[]"]) (simp_all add: socks_state_handler_def socks_connected_def case_prod_unfold)
  next
    case (Some x)
    then show ?thesis
      using assms(3) b set_port_sendable [OF Some]
      by (intro that [of "[BindSocket p x]"]) (simp_all add: socks_state_handler_def socks_connected_def case_prod_unfold)
  qed
  have "Udp_Socket \<in> owned e p"
    using udp_good_parts(5) [OF good] p by (simp add: parts_of_def)
  then have "udp_execs cs e = Some e"
    using s(2) by auto
  then have "udp_fire w (Socks_Reports p EVENT_CONNECTED) (u, e) = Some (fst (free_con u p), freed p e)"
    using s(1) free_con_runs [OF good p, of "inbox e"] by (simp add: udp_do_def udp_execs_append)
  moreover have "con_local_addr (con u p) \<notin> dom (udp_table (fst (free_con u p)))"
    using table_free [OF good p] by simp
  ultimately show ?thesis
    by (simp add: freed_def)
qed

theorem socks_udp_needs_the_family_of_the_client_witness:
  "\<exists>u e u' e'. udp_reached (u, e) \<and> con_local_addr (con u 7) = a_client \<and>
     udp_fire (udp_world_for 8\<lparr>tcp_local_addr := Some (BAddr_IPv6 (replicate 16 0) 0), bind_ok := False\<rparr>) (Socks_Reports 7 EVENT_CONNECTED) (u, e) =
       Some (u', e') \<and> a_client \<notin> dom (udp_table u')"
proof -
  obtain u e where s: "udp_reached (u, e)" "con_local_addr (con u 7) = a_client" "owned e 7 = - {First_Data}" "phase e 7 = Connecting"
    by (rule one_query_runs)
  let ?w = "udp_world_for 8\<lparr>tcp_local_addr := Some (BAddr_IPv6 (replicate 16 0) 0), bind_ok := False\<rparr>"
  have "udp_enabled ?w (Socks_Reports 7 EVENT_CONNECTED) (u, e)"
    using s(3,4) by simp
  moreover have "baddr_type (BAddr_IPv6 (replicate 16 0) 0) \<noteq> baddr_type (con_local_addr (con u 7))"
    by (simp add: s(2) a_client_def baddr_type_def)
  ultimately obtain u' e' where "udp_fire ?w (Socks_Reports 7 EVENT_CONNECTED) (u, e) = Some (u', e')"
    "con_local_addr (con u 7) \<notin> dom (udp_table u')"
    using socks_udp_needs_the_family_of_the_client [OF s(1), of ?w 7 "BAddr_IPv6 (replicate 16 0) 0"] by auto
  then show ?thesis
    using s(1,2) by (intro exI [of _ u] exI [of _ e] exI [of _ u'] exI [of _ e']) simp
qed

end
