(* ===== verification/Tun2socks_Start.thy ===== *)
theory Tun2socks_Start
  imports Tun_Device Udpgw_Relay
begin

text \<open>
  The Android program from its command line to its end: \<open>tun2socks/tun2socks_android.c\<close>, with the parts of
  \<open>tun2socks/tun2socks.c\<close> that it uses to process the arguments, start lwIP and stop, and
  \<open>misc/loglevel.h\<close>.  What \<open>main\<close> makes and frees are the calls in the order of the program; what may fail
  is answered by the environment, as is what the event loop leaves behind.
\<close>

section \<open>Options\<close>

definition DEFAULT_UDPGW_MAX_CONNECTIONS :: int where "DEFAULT_UDPGW_MAX_CONNECTIONS = 256"
definition DEFAULT_UDPGW_CONNECTION_BUFFER_SIZE :: int where "DEFAULT_UDPGW_CONNECTION_BUFFER_SIZE = 8"
definition SOCKS_UDP_SEND_BUFFER_PACKETS :: int where "SOCKS_UDP_SEND_BUFFER_PACKETS = 16"

text \<open>The options of \<open>tun2socks.c\<close> that the code reads, with the two of the Android front end at the end.\<close>

record start_options =
  opt_loglevel :: int
  opt_netif_ipaddr :: "string option"
  opt_netif_netmask :: "string option"
  opt_netif_ip6addr :: "string option"
  opt_socks_server_addr :: "string option"
  opt_username :: "string option"
  opt_password :: "string option"
  opt_password_file :: "string option"
  opt_append_source_to_username :: bool
  opt_udpgw_remote_server_addr :: "string option"
  opt_udpgw_max_connections :: int
  opt_udpgw_connection_buffer_size :: int
  opt_udpgw_transparent_dns :: bool
  opt_socks5_udp :: bool
  opt_sock_path :: "string option"
  opt_tun_mtu :: int

definition BLOG_DEBUG :: int where "BLOG_DEBUG = 5"

definition parse_loglevel :: "string \<Rightarrow> int" where
  "parse_loglevel str =
     (if str = ''none'' then 0
      else if str = ''error'' then 1
      else if str = ''warning'' then 2
      else if str = ''notice'' then 3
      else if str = ''info'' then 4
      else if str = ''debug'' then BLOG_DEBUG
      else case strtol10 str of
             (res, endptr) \<Rightarrow> if str \<noteq> [] \<and> endptr = [] \<and> 0 \<le> res \<and> res \<le> BLOG_DEBUG then res else -1)"

text \<open>The C library does not define \<open>atoi\<close> for a number that is not an \<open>int\<close>; what it gives then is a parameter.\<close>

definition atoi :: "(string \<Rightarrow> int) \<Rightarrow> string \<Rightarrow> int" where
  "atoi undefined_value str =
     (let v = fst (strtol10 str) in if - INT_MAX - 1 \<le> v \<and> v \<le> INT_MAX then v else undefined_value str)"

datatype arg_error =
    No_Arguments
  | Requires_Argument string
  | Wrong_Argument string
  | Unknown_Option string
  | Is_Required string

definition init_options :: start_options where
  "init_options = \<lparr>opt_loglevel = -1, opt_netif_ipaddr = None, opt_netif_netmask = None, opt_netif_ip6addr = None,
     opt_socks_server_addr = None, opt_username = None, opt_password = None, opt_password_file = None,
     opt_append_source_to_username = False, opt_udpgw_remote_server_addr = None,
     opt_udpgw_max_connections = DEFAULT_UDPGW_MAX_CONNECTIONS,
     opt_udpgw_connection_buffer_size = DEFAULT_UDPGW_CONNECTION_BUFFER_SIZE, opt_udpgw_transparent_dns = False,
     opt_socks5_udp = False, opt_sock_path = None, opt_tun_mtu = 1500\<rparr>"

definition known_options :: "string list" where
  "known_options = [''--loglevel'', ''--netif-ipaddr'', ''--netif-netmask'', ''--netif-ip6addr'', ''--sock-path'', ''--tun-mtu'',
     ''--socks-server-addr'', ''--udpgw-remote-server-addr'']"

definition set_option :: "(string \<Rightarrow> int) \<Rightarrow> string \<Rightarrow> string \<Rightarrow> start_options \<Rightarrow> start_options option" where
  "set_option ub arg value opts =
     (if arg = ''--loglevel'' then
        (if parse_loglevel value < 0 then None else Some (opts\<lparr>opt_loglevel := parse_loglevel value\<rparr>))
      else if arg = ''--netif-ipaddr'' then Some (opts\<lparr>opt_netif_ipaddr := Some value\<rparr>)
      else if arg = ''--netif-netmask'' then Some (opts\<lparr>opt_netif_netmask := Some value\<rparr>)
      else if arg = ''--netif-ip6addr'' then Some (opts\<lparr>opt_netif_ip6addr := Some value\<rparr>)
      else if arg = ''--sock-path'' then Some (opts\<lparr>opt_sock_path := Some value\<rparr>)
      else if arg = ''--tun-mtu'' then
        (if atoi ub value \<le> 0 then None else Some (opts\<lparr>opt_tun_mtu := atoi ub value\<rparr>))
      else if arg = ''--socks-server-addr'' then Some (opts\<lparr>opt_socks_server_addr := Some value\<rparr>)
      else Some (opts\<lparr>opt_udpgw_remote_server_addr := Some value\<rparr>))"

fun parse_loop :: "(string \<Rightarrow> int) \<Rightarrow> string list \<Rightarrow> start_options \<Rightarrow> arg_error + start_options" where
  "parse_loop ub [] opts = Inr opts"
| "parse_loop ub [arg] opts = Inl (if arg \<in> set known_options then Requires_Argument arg else Unknown_Option arg)"
| "parse_loop ub (arg # value # rest) opts =
     (if arg \<notin> set known_options then Inl (Unknown_Option arg)
      else case set_option ub arg value opts of
             None \<Rightarrow> Inl (Wrong_Argument arg)
           | Some opts1 \<Rightarrow> parse_loop ub rest opts1)"

definition android_parse_arguments :: "(string \<Rightarrow> int) \<Rightarrow> string list \<Rightarrow> arg_error + start_options" where
  "android_parse_arguments ub argv =
     (if argv = [] then Inl No_Arguments
      else case parse_loop ub (tl argv) init_options of
             Inl err \<Rightarrow> Inl err
           | Inr opts \<Rightarrow>
               if opt_netif_ipaddr opts = None then Inl (Is_Required ''--netif-ipaddr'')
               else if opt_netif_netmask opts = None then Inl (Is_Required ''--netif-netmask'')
               else if opt_sock_path opts = None then Inl (Is_Required ''--sock-path'')
               else if opt_socks_server_addr opts = None then Inl (Is_Required ''--socks-server-addr'')
               else Inr opts)"

section \<open>Addresses\<close>

record start_addresses =
  netif_ipaddr :: BIPAddr
  netif_netmask :: BIPAddr
  netif_ip6addr :: ipv6_addr
  socks_server_addr :: BAddr
  socks_auth_info :: "BSocksClient_auth_info list"
  udpgw_remote_server_addr :: BAddr

datatype main_part =
    Log | Password | Vpn_Socket | Remote_Socket | Vpn_Fd | Reactor | Signals | Tap | Read_If | Read_Buffer | Gateway | Udp_Client
  | Init_Job | Write_Buffer | Tcp_Timer | Netif | Listener | Listener6 | Tcp_Client nat

record loop_end =
  end_clients :: "nat list"
  end_listener_ip6 :: bool
  end_listener :: bool
  end_netif :: bool

datatype start_call =
    MakePart main_part
  | MakeSized main_part int
  | MakeGateway int int int BAddr BAddr
  | MakeUdpClient int int int BAddr
  | UnmakePart main_part
  | SetLoglevels int
  | Unlink string
  | BindPath string
  | SetJob
  | SetTcpTimer
  | EventLoop loop_end

definition the_string :: "string option \<Rightarrow> string" where
  "the_string s = (case s of None \<Rightarrow> [] | Some x \<Rightarrow> x)"

definition string_bytes :: "string \<Rightarrow> bytes" where
  "string_bytes = map of_char"

text \<open>
  \<open>None\<close> when the code returns 0; the second component says whether the password file was read into memory.
  A null \<open>password_file\<close> cannot be opened.
\<close>

definition socks_auth :: "(string \<Rightarrow> bytes option) \<Rightarrow> start_options \<Rightarrow> (BSocksClient_auth_info list \<times> bool) option" where
  "socks_auth read_file opts =
     (case opt_username opts of
        None \<Rightarrow> Some ([BSocksClient_auth_none], False)
      | Some user \<Rightarrow>
          (case opt_password opts of
             Some p \<Rightarrow> Some ([BSocksClient_auth_none, BSocksClient_auth_password (string_bytes user) (string_bytes p)], False)
           | None \<Rightarrow>
               (case opt_password_file opts of
                  None \<Rightarrow> None
                | Some f \<Rightarrow>
                    (case read_file f of
                       None \<Rightarrow> None
                     | Some p \<Rightarrow> Some ([BSocksClient_auth_none, BSocksClient_auth_password (string_bytes user) p], True)))))"

definition process_arguments :: "resolver \<Rightarrow> (string \<Rightarrow> bytes option) \<Rightarrow> start_options \<Rightarrow> start_addresses option \<times> bool" where
  "process_arguments getaddrinfo read_file opts =
     (case BIPAddr_Resolve getaddrinfo (the_string (opt_netif_ipaddr opts)) False of
        Some (BIPAddr_IPv4 ip) \<Rightarrow>
          (case BIPAddr_Resolve getaddrinfo (the_string (opt_netif_netmask opts)) False of
             Some (BIPAddr_IPv4 nm) \<Rightarrow>
               (case (case opt_netif_ip6addr opts of
                        None \<Rightarrow> Accept (replicate 16 0)
                      | Some s \<Rightarrow> ipaddr6_parse_ipv6_addr s (replicate 16 0)) of
                  Accept ip6 \<Rightarrow>
                    (case BAddr_Parse2 getaddrinfo (the_string (opt_socks_server_addr opts)) None False of
                       None \<Rightarrow> (None, False)
                     | Some (server, _) \<Rightarrow>
                         (case socks_auth read_file opts of
                            None \<Rightarrow> (None, False)
                          | Some (auth, file_read) \<Rightarrow>
                              let found = (\<lambda>remote. \<lparr>netif_ipaddr = BIPAddr_IPv4 ip, netif_netmask = BIPAddr_IPv4 nm,
                                             netif_ip6addr = ip6, socks_server_addr = server, socks_auth_info = auth,
                                             udpgw_remote_server_addr = remote\<rparr>)
                              in case opt_udpgw_remote_server_addr opts of
                                   None \<Rightarrow> (Some (found BAddr_None), file_read)
                                 | Some s \<Rightarrow>
                                     (case BAddr_Parse2 getaddrinfo s None False of
                                        None \<Rightarrow> (None, file_read)
                                      | Some (remote, _) \<Rightarrow> (Some (found remote), file_read))))
                | _ \<Rightarrow> (None, False))
           | _ \<Rightarrow> (None, False))
      | _ \<Rightarrow> (None, False))"

section \<open>From \<open>main\<close> to the event loop and back\<close>

record start_world =
  atoi_undefined :: "string \<Rightarrow> int"
  getaddrinfo :: resolver
  read_file :: "string \<Rightarrow> bytes option"
  network_ok :: bool
  socket_made :: bool
  bind_ok :: bool
  listen_ok :: bool
  select_ok :: bool
  accept_ok :: bool
  received_fd :: "nat option"
  reactor_ok :: bool
  signal_ok :: bool
  tap_ok :: bool
  read_buffer_ok :: bool
  gateway_ok :: bool
  write_buffer_ok :: bool
  loop_end :: loop_end

text \<open>A path longer than the 107 bytes that fit a socket address is cut.  \<open>received_fd\<close> is \<open>None\<close> when \<open>ancil_recv_fd\<close> fails or leaves
  the -1 in place; else it is the descriptor that the kernel has opened for the process, of which \<open>BTap\<close> asserts that it is not negative.\<close>

definition android_wait_for_vpn_fd :: "start_world \<Rightarrow> start_options \<Rightarrow> start_call list \<times> nat option" where
  "android_wait_for_vpn_fd w opts =
     (let path = the_string (opt_sock_path opts);
          up = [MakePart Vpn_Socket, Unlink path, BindPath (take 107 path)]
      in if \<not> socket_made w then ([], None)
         else if \<not> bind_ok w then (up @ [UnmakePart Vpn_Socket], None)
         else if \<not> listen_ok w then (up @ [UnmakePart Vpn_Socket], None)
         else if \<not> select_ok w then (up, None)
         else if \<not> accept_ok w then (up, None)
         else (up @ [MakePart Remote_Socket] @ (if received_fd w \<noteq> None then [MakePart Vpn_Fd] else []) @
               [UnmakePart Remote_Socket, UnmakePart Vpn_Socket], received_fd w))"

text \<open>The cleanup after the event loop.\<close>

definition free_loop :: "loop_end \<Rightarrow> start_call list" where
  "free_loop l =
     map (\<lambda>c. UnmakePart (Tcp_Client c)) (end_clients l) @
     (if end_listener_ip6 l then [UnmakePart Listener6] else []) @
     (if end_listener l then [UnmakePart Listener] else []) @
     (if end_netif l then [UnmakePart Netif] else [])"

definition choose_udp_mode :: "start_options \<Rightarrow> udp_mode" where
  "choose_udp_mode opts =
     (if opt_udpgw_remote_server_addr opts \<noteq> None then UdpModeUdpgw
      else if opt_socks5_udp opts then UdpModeSocks else UdpModeNone)"

text \<open>\<open>main\<close> from the point where the device is there.  What \<open>SocksUdpClient_Init\<close> returns is not looked at.\<close>

definition with_device :: "start_world \<Rightarrow> start_options \<Rightarrow> start_addresses \<Rightarrow> start_call list" where
  "with_device w opts addrs =
     (let dev_mtu = opt_tun_mtu opts;
          fail4 = [UnmakePart Read_If, UnmakePart Tap];
          fail4a = [UnmakePart Read_Buffer] @ fail4;
          free_udp = (case choose_udp_mode opts of
                        UdpModeUdpgw \<Rightarrow> [UnmakePart Gateway] | UdpModeSocks \<Rightarrow> [UnmakePart Udp_Client] | UdpModeNone \<Rightarrow> []);
          fail5 = [UnmakePart Init_Job] @ free_udp @ fail4a;
          up4 = [MakeSized Tap dev_mtu, MakeSized Read_If dev_mtu]
      in if \<not> read_buffer_ok w then up4 @ fail4
         else
         let up5 = up4 @ [MakePart Read_Buffer];
             dgram_mtu = compute_udp_mtu dev_mtu (opt_netif_ip6addr opts \<noteq> None);
             g = udpgw_compute_mtu dgram_mtu
         in if choose_udp_mode opts = UdpModeUdpgw \<and> (g < 0 \<or> g > PACKETPROTO_MAXPAYLOAD) then up5 @ fail4a
            else if choose_udp_mode opts = UdpModeUdpgw \<and> \<not> gateway_ok w then up5 @ fail4a
            else
            let up6 = up5 @ (case choose_udp_mode opts of
                        UdpModeUdpgw \<Rightarrow> [MakeGateway dgram_mtu DEFAULT_UDPGW_MAX_CONNECTIONS (opt_udpgw_connection_buffer_size opts)
                                          (socks_server_addr addrs) (udpgw_remote_server_addr addrs)]
                      | UdpModeSocks \<Rightarrow> [MakeUdpClient dgram_mtu DEFAULT_UDPGW_MAX_CONNECTIONS SOCKS_UDP_SEND_BUFFER_PACKETS
                                          (socks_server_addr addrs)]
                      | UdpModeNone \<Rightarrow> []) @ [MakePart Init_Job, SetJob]
            in if \<not> write_buffer_ok w then up6 @ fail5
               else up6 @ [MakeSized Write_Buffer dev_mtu, MakePart Tcp_Timer, SetTcpTimer, EventLoop (loop_end w)] @
                    free_loop (loop_end w) @ [UnmakePart Tcp_Timer, UnmakePart Write_Buffer] @ fail5)"

definition tun2socks_main :: "start_world \<Rightarrow> string list \<Rightarrow> start_call list" where
  "tun2socks_main w argv =
     (if argv = [] then []
      else case android_parse_arguments (atoi_undefined w) argv of
             Inl err \<Rightarrow> []
           | Inr opts \<Rightarrow>
               let up = [MakePart Log, SetLoglevels (opt_loglevel opts)]
               in if \<not> network_ok w then up @ [UnmakePart Log]
                  else
                  let (addrs, file_read) = process_arguments (getaddrinfo w) (read_file w) opts;
                      up1 = up @ (if file_read then [MakePart Password] else []);
                      fail1 = (if file_read then [UnmakePart Password] else []) @ [UnmakePart Log]
                  in case addrs of
                       None \<Rightarrow> up1 @ fail1
                     | Some a \<Rightarrow>
                         let (cs, fd) = android_wait_for_vpn_fd w opts;
                             up2 = up1 @ cs;
                             fail2 = [UnmakePart Reactor] @ fail1;
                             fail3 = [UnmakePart Signals] @ fail2
                         in if fd = None then up2 @ fail1
                            else if \<not> reactor_ok w then up2 @ fail1
                            else if \<not> signal_ok w then up2 @ [MakePart Reactor] @ fail2
                            else if \<not> tap_ok w then up2 @ [MakePart Reactor, MakePart Signals] @ fail3
                            else up2 @ [MakePart Reactor, MakePart Signals] @ with_device w opts a @ fail3)"

section \<open>Jobs of the running program\<close>

record tun_globals =
  quitting :: bool
  have_netif :: bool
  listener :: bool
  listener_ip6 :: bool
  tcp_timer_mod4 :: nat

datatype lwip_call =
    LwipInit
  | NetifAdd "32 word" "32 word" bool
  | NetifSetUp | NetifSetLinkUp | NetifSetPretendTcp | NetifSetDefault
  | NetifIp6AddrSet bytes
  | TcpNew bool
  | TcpBindToNetif bool
  | TcpBindNetif
  | TcpListen bool
  | TcpAccept
  | TcpClose
  | ReactorQuit
  | RestartTimer
  | TcpTmr | IpReassTmr | Nd6Tmr | Ip6ReassTmr
  | CheckState bool

text \<open>Answers of lwIP, for the listener of IPv4 and that of IPv6.\<close>

record lwip_world =
  netif_added :: bool
  pcb_made :: "bool \<Rightarrow> bool"
  pcb_bound :: "bool \<Rightarrow> bool"
  pcb_listens :: "bool \<Rightarrow> bool"

type_synonym tun_run = "tun_globals \<times> lwip_call list"

definition terminate :: "tun_globals \<Rightarrow> tun_run" where
  "terminate g = (g\<lparr>quitting := True\<rparr>, [CheckState (\<not> quitting g), ReactorQuit])"

definition signal_handler :: "tun_globals \<Rightarrow> tun_run" where
  "signal_handler g = (case terminate g of (g1, cs) \<Rightarrow> (g1, [CheckState (\<not> quitting g)] @ cs))"

definition device_error_handler :: "tun_globals \<Rightarrow> tun_run" where
  "device_error_handler g = (case terminate g of (g1, cs) \<Rightarrow> (g1, [CheckState (\<not> quitting g)] @ cs))"

text \<open>A new pcb that listens, or \<open>False\<close> with the pcb closed again.\<close>

definition make_listener :: "lwip_world \<Rightarrow> bool \<Rightarrow> lwip_call list \<times> bool" where
  "make_listener w ip6 =
     (if \<not> pcb_made w ip6 then ([TcpNew False], False)
      else if \<not> pcb_bound w ip6 then ([TcpNew True, TcpBindToNetif False, TcpClose], False)
      else if \<not> pcb_listens w ip6 then ([TcpNew True, TcpBindToNetif True, TcpBindNetif, TcpListen False, TcpClose], False)
      else ([TcpNew True, TcpBindToNetif True, TcpBindNetif, TcpListen True, TcpAccept], True))"

definition lwip_init_job_hadler :: "lwip_world \<Rightarrow> start_options \<Rightarrow> start_addresses \<Rightarrow> tun_globals \<Rightarrow> tun_run" where
  "lwip_init_job_hadler w opts addrs g =
     (let pre = [CheckState (\<not> quitting g), CheckState (case netif_ipaddr addrs of BIPAddr_IPv4 _ \<Rightarrow> True | _ \<Rightarrow> False),
                 CheckState (case netif_netmask addrs of BIPAddr_IPv4 _ \<Rightarrow> True | _ \<Rightarrow> False), CheckState (\<not> have_netif g),
                 CheckState (\<not> listener g), CheckState (\<not> listener_ip6 g), LwipInit];
          ip4 = (\<lambda>a. case a of BIPAddr_IPv4 x \<Rightarrow> x | _ \<Rightarrow> 0);
          add = NetifAdd (ip4 (netif_ipaddr addrs)) (ip4 (netif_netmask addrs)) (netif_added w);
          fail = (\<lambda>g1 cs. if \<not> quitting g1 then (case terminate g1 of (g2, cs2) \<Rightarrow> (g2, cs @ cs2)) else (g1, cs))
      in if \<not> netif_added w then fail g (pre @ [add])
         else
         let g1 = g\<lparr>have_netif := True\<rparr>;
             up = pre @ [add, NetifSetUp, NetifSetLinkUp, NetifSetPretendTcp, NetifSetDefault] @
               (if opt_netif_ip6addr opts \<noteq> None then [NetifIp6AddrSet (netif_ip6addr addrs)] else []);
             (cs4, ok4) = make_listener w False
         in if \<not> ok4 then fail g1 (up @ cs4)
            else
            let g2 = g1\<lparr>listener := True\<rparr>
            in if opt_netif_ip6addr opts = None then (g2, up @ cs4)
               else
               let (cs6, ok6) = make_listener w True
               in if \<not> ok6 then fail g2 (up @ cs4 @ cs6)
                  else (g2\<lparr>listener_ip6 := True\<rparr>, up @ cs4 @ cs6))"

definition tcp_timer_handler :: "tun_globals \<Rightarrow> tun_run" where
  "tcp_timer_handler g =
     (let m = (tcp_timer_mod4 g + 1) mod 4
      in (g\<lparr>tcp_timer_mod4 := m\<rparr>,
          [CheckState (\<not> quitting g), RestartTimer, TcpTmr] @ (if m = 0 then [IpReassTmr, Nd6Tmr, Ip6ReassTmr] else [])))"

end
