(* ===== verification/Start_Properties.thy ===== *)
theory Start_Properties
  imports Socks_Udp Tun2socks_Start
begin

text \<open>
  What follows for the start and the end of the program: which command lines are accepted and what
  they mean, what is freed and what is not, whatever fails, that the UDP gateway client is started
  within its assertions, and that lwIP either listens or the program stops.
\<close>

section \<open>The command line\<close>

definition flat :: "(string \<times> string) list \<Rightarrow> string list" where
  "flat kvs = concat (map (\<lambda>(k, v). [k, v]) kvs)"

text \<open>The last value given for an option counts.\<close>

definition option_value :: "(string \<times> string) list \<Rightarrow> string \<Rightarrow> string option" where
  "option_value kvs = map_of (rev kvs)"

definition acceptable :: "(string \<Rightarrow> int) \<Rightarrow> string \<times> string \<Rightarrow> bool" where
  "acceptable ub kv =
     (fst kv \<in> set known_options \<and> (fst kv = ''--loglevel'' \<longrightarrow> 0 \<le> parse_loglevel (snd kv)) \<and>
      (fst kv = ''--tun-mtu'' \<longrightarrow> 0 < atoi ub (snd kv)))"

definition options_of :: "(string \<Rightarrow> int) \<Rightarrow> (string \<times> string) list \<Rightarrow> start_options" where
  "options_of ub kvs = init_options\<lparr>
     opt_loglevel := (case option_value kvs ''--loglevel'' of None \<Rightarrow> -1 | Some v \<Rightarrow> parse_loglevel v),
     opt_netif_ipaddr := option_value kvs ''--netif-ipaddr'',
     opt_netif_netmask := option_value kvs ''--netif-netmask'',
     opt_netif_ip6addr := option_value kvs ''--netif-ip6addr'',
     opt_socks_server_addr := option_value kvs ''--socks-server-addr'',
     opt_udpgw_remote_server_addr := option_value kvs ''--udpgw-remote-server-addr'',
     opt_sock_path := option_value kvs ''--sock-path'',
     opt_tun_mtu := (case option_value kvs ''--tun-mtu'' of None \<Rightarrow> 1500 | Some v \<Rightarrow> atoi ub v)\<rparr>"

lemma flat_simps [simp]: "flat [] = []" "flat ((k, v) # kvs) = k # v # flat kvs"
  by (simp_all add: flat_def)

lemma set_option_iff:
  assumes "k \<in> set known_options"
  shows "set_option ub k v opts \<noteq> None \<longleftrightarrow> acceptable ub (k, v)"
  using assms by (auto simp: set_option_def acceptable_def)

lemma options_of_snoc:
  assumes "acceptable ub (k, v)"
  shows "set_option ub k v (options_of ub kvs) = Some (options_of ub (kvs @ [(k, v)]))"
proof -
  have "option_value (kvs @ [(k, v)]) = (option_value kvs)(k \<mapsto> v)"
    by (simp add: option_value_def)
  moreover have "k \<in> set known_options"
    using assms by (simp add: acceptable_def)
  then have "k = ''--loglevel'' \<or> k = ''--netif-ipaddr'' \<or> k = ''--netif-netmask'' \<or> k = ''--netif-ip6addr'' \<or> k = ''--sock-path'' \<or>
      k = ''--tun-mtu'' \<or> k = ''--socks-server-addr'' \<or> k = ''--udpgw-remote-server-addr''"
    by (simp add: known_options_def)
  ultimately show ?thesis
    using assms by (elim disjE) (simp_all add: set_option_def options_of_def acceptable_def)
qed

lemma parse_loop_flat:
  assumes "\<forall>kv\<in>set kvs. acceptable ub kv"
  shows "parse_loop ub (flat kvs) (options_of ub pre) = Inr (options_of ub (pre @ kvs))"
  using assms
proof (induction kvs arbitrary: pre)
  case (Cons kv kvs)
  obtain k v where kv: "kv = (k, v)" by (cases kv)
  then have "acceptable ub (k, v)" "k \<in> set known_options"
    using Cons.prems by (auto simp: acceptable_def)
  then show ?case
    using Cons.IH [of "pre @ [(k, v)]"] Cons.prems kv options_of_snoc [of ub k v pre] by simp
qed simp

lemma parse_loop_Inr:
  "parse_loop ub args opts = Inr r \<Longrightarrow> \<exists>kvs. args = flat kvs \<and> (\<forall>kv\<in>set kvs. acceptable ub kv)"
proof (induction ub args opts rule: parse_loop.induct)
  case (1 ub opts)
  then show ?case by (intro exI [of _ "[]"]) simp
next
  case (3 ub k v rest opts)
  then have k: "k \<in> set known_options"
    by (auto split: if_splits)
  then obtain o1 where o1: "set_option ub k v opts = Some o1" "parse_loop ub rest o1 = Inr r"
    using 3 by (auto split: option.splits)
  then obtain kvs where "rest = flat kvs" "\<forall>kv\<in>set kvs. acceptable ub kv"
    using 3(1) k by auto
  moreover have "acceptable ub (k, v)"
    using set_option_iff [OF k, of ub v opts] o1(1) by simp
  ultimately show ?case
    by (intro exI [of _ "(k, v) # kvs"]) simp
qed simp

lemma options_of_nil: "options_of ub [] = init_options"
  by (simp add: options_of_def option_value_def init_options_def)

definition required_options :: "string list" where
  "required_options = [''--netif-ipaddr'', ''--netif-netmask'', ''--sock-path'', ''--socks-server-addr'']"

lemma parse_arguments_Inr:
  "android_parse_arguments ub argv = Inr opts \<longleftrightarrow>
     (\<exists>prog kvs. argv = prog # flat kvs \<and> (\<forall>kv\<in>set kvs. acceptable ub kv) \<and>
        (\<forall>k\<in>set required_options. option_value kvs k \<noteq> None) \<and> opts = options_of ub kvs)" (is "_ \<longleftrightarrow> ?R")
proof
  assume a: "android_parse_arguments ub argv = Inr opts"
  then obtain prog args where argv: "argv = prog # args"
    by (cases argv) (auto simp: android_parse_arguments_def)
  with a have p: "parse_loop ub args init_options = Inr opts"
    by (auto simp: android_parse_arguments_def split: sum.splits if_splits)
  then obtain kvs where k: "args = flat kvs" "\<forall>kv\<in>set kvs. acceptable ub kv"
    using parse_loop_Inr by blast
  then have "opts = options_of ub kvs"
    using p parse_loop_flat [OF k(2), of "[]"] by (simp add: options_of_nil)
  moreover from this have "\<forall>k\<in>set required_options. option_value kvs k \<noteq> None"
    using a argv p by (auto simp: android_parse_arguments_def required_options_def options_of_def split: if_splits)
  ultimately show ?R
    using argv k by blast
next
  assume ?R
  then obtain prog kvs where r: "argv = prog # flat kvs" "\<forall>kv\<in>set kvs. acceptable ub kv"
    "\<forall>k\<in>set required_options. option_value kvs k \<noteq> None" "opts = options_of ub kvs" by blast
  then have "parse_loop ub (flat kvs) init_options = Inr opts"
    using parse_loop_flat [OF r(2), of "[]"] by (simp add: options_of_nil)
  then show "android_parse_arguments ub argv = Inr opts"
    using r(1,3,4) by (auto simp: android_parse_arguments_def required_options_def options_of_def)
qed

section \<open>What exists while the program runs\<close>

fun main_needs :: "main_part \<Rightarrow> main_part list" where
  "main_needs Remote_Socket = [Vpn_Socket]"
| "main_needs Signals = [Reactor]"
| "main_needs Tap = [Reactor, Vpn_Fd]"
| "main_needs Read_If = [Reactor]"
| "main_needs Read_Buffer = [Tap, Read_If]"
| "main_needs Gateway = [Reactor]"
| "main_needs Udp_Client = [Reactor]"
| "main_needs Init_Job = [Reactor]"
| "main_needs Tcp_Timer = [Reactor]"
| "main_needs Netif = [Tap, Write_Buffer]"
| "main_needs Listener = [Netif]"
| "main_needs Listener6 = [Netif]"
| "main_needs (Tcp_Client _) = [Reactor, Netif]"
| "main_needs _ = []"

definition can_make_part :: "main_part \<Rightarrow> main_part set \<Rightarrow> bool" where
  "can_make_part x s = (x \<notin> s \<and> set (main_needs x) \<subseteq> s)"

definition left_by_loop :: "loop_end \<Rightarrow> main_part set" where
  "left_by_loop l =
     Tcp_Client ` set (end_clients l) \<union> (if end_listener_ip6 l then {Listener6} else {}) \<union>
     (if end_listener l then {Listener} else {}) \<union> (if end_netif l then {Netif} else {})"

text \<open>The clients and the listeners use the network interface.\<close>

definition loop_end_ok :: "loop_end \<Rightarrow> bool" where
  "loop_end_ok l =
     (distinct (end_clients l) \<and> (end_clients l \<noteq> [] \<longrightarrow> end_netif l) \<and> (end_listener_ip6 l \<longrightarrow> end_netif l) \<and> (end_listener l \<longrightarrow> end_netif l))"

definition gateway_accepts :: "int \<Rightarrow> int \<Rightarrow> int \<Rightarrow> BAddr \<Rightarrow> BAddr \<Rightarrow> bool" where
  "gateway_accepts dm mc bs server remote =
     (0 \<le> dm \<and> 0 \<le> udpgw_compute_mtu dm \<and> udpgw_compute_mtu dm \<le> PACKETPROTO_MAXPAYLOAD \<and> 0 < mc \<and> 0 < bs \<and>
      \<not> BAddr_IsInvalid server \<and> (case remote of BAddr_IPv4 _ _ \<Rightarrow> True | BAddr_IPv6 _ _ \<Rightarrow> True | _ \<Rightarrow> False))"

fun start_exec :: "start_call \<Rightarrow> main_part set \<Rightarrow> main_part set option" where
  "start_exec (MakePart x) s = (if can_make_part x s then Some (insert x s) else None)"
| "start_exec (MakeSized x m) s = (if can_make_part x s \<and> 0 \<le> m then Some (insert x s) else None)"
| "start_exec (MakeGateway dm mc bs server remote) s =
     (if can_make_part Gateway s \<and> gateway_accepts dm mc bs server remote then Some (insert Gateway s) else None)"
| "start_exec (MakeUdpClient dm mc bs server) s =
     (if can_make_part Udp_Client s \<and> 0 \<le> dm \<and> 0 < mc \<and> 0 < bs
      then Some (if compute_socks_mtu dm < 0 then s else insert Udp_Client s) else None)"
| "start_exec (UnmakePart x) s = (if x \<in> s \<and> (\<forall>y\<in>s. x \<notin> set (main_needs y)) then Some (s - {x}) else None)"
| "start_exec (SetLoglevels l) s = (if Log \<in> s \<and> 0 \<le> l \<and> l \<le> BLOG_DEBUG then Some s else None)"
| "start_exec (Unlink path) s = Some s"
| "start_exec (BindPath path) s = (if Vpn_Socket \<in> s \<and> length path \<le> 107 then Some s else None)"
| "start_exec SetJob s = (if Init_Job \<in> s then Some s else None)"
| "start_exec SetTcpTimer s = (if Tcp_Timer \<in> s then Some s else None)"
| "start_exec (EventLoop l) s =
     (if {Reactor, Signals, Tap, Read_If, Read_Buffer, Init_Job, Write_Buffer, Tcp_Timer} \<subseteq> s then Some (s \<union> left_by_loop l) else None)"

fun start_execs :: "start_call list \<Rightarrow> main_part set \<Rightarrow> main_part set option" where
  "start_execs [] s = Some s"
| "start_execs (c # cs) s = (case start_exec c s of None \<Rightarrow> None | Some s' \<Rightarrow> start_execs cs s')"

lemma start_execs_append: "start_execs (xs @ ys) s = (case start_execs xs s of None \<Rightarrow> None | Some s' \<Rightarrow> start_execs ys s')"
  by (induction xs arbitrary: s) (auto split: option.splits)

definition no_loop_parts :: "main_part set \<Rightarrow> bool" where
  "no_loop_parts s = ((\<forall>c. Tcp_Client c \<notin> s) \<and> Listener \<notin> s \<and> Listener6 \<notin> s \<and> Netif \<notin> s)"

lemma nothing_needs:
  "Tcp_Client c \<notin> set (main_needs y)" "Listener \<notin> set (main_needs y)" "Listener6 \<notin> set (main_needs y)"
  "Netif \<in> set (main_needs y) \<longleftrightarrow> y = Listener \<or> y = Listener6 \<or> (\<exists>c. y = Tcp_Client c)"
  by (cases y; simp)+

lemma free_clients_run:
  assumes "distinct cs" "Tcp_Client ` set cs \<subseteq> s"
  shows "start_execs (map (\<lambda>c. UnmakePart (Tcp_Client c)) cs) s = Some (s - Tcp_Client ` set cs)"
  using assms
proof (induction cs arbitrary: s)
  case (Cons c cs)
  then have "Tcp_Client ` set cs \<subseteq> s - {Tcp_Client c}" by auto
  moreover have "s - {Tcp_Client c} - Tcp_Client ` set cs = s - Tcp_Client ` set (c # cs)" by auto
  ultimately show ?case
    using Cons by (simp add: nothing_needs)
qed simp

lemma free_loop_runs:
  assumes "loop_end_ok l" "no_loop_parts s"
  shows "start_execs (free_loop l) (s \<union> left_by_loop l) = Some s"
proof -
  let ?t = "s \<union> (if end_listener_ip6 l then {Listener6} else {}) \<union> (if end_listener l then {Listener} else {}) \<union>
     (if end_netif l then {Netif} else {})"
  have t: "s \<union> left_by_loop l - Tcp_Client ` set (end_clients l) = ?t"
    using assms(2) by (auto simp: left_by_loop_def no_loop_parts_def split: if_splits)
  have "distinct (end_clients l)" "Tcp_Client ` set (end_clients l) \<subseteq> s \<union> left_by_loop l"
    using assms(1) by (auto simp: loop_end_ok_def left_by_loop_def)
  then have "start_execs (map (\<lambda>c. UnmakePart (Tcp_Client c)) (end_clients l)) (s \<union> left_by_loop l) = Some ?t"
    unfolding t [symmetric] by (rule free_clients_run)
  moreover have n: "\<forall>y\<in>s. Netif \<notin> set (main_needs y)" "Netif \<notin> s" "Listener \<notin> s" "Listener6 \<notin> s"
    using assms(2) by (auto simp: nothing_needs(4) no_loop_parts_def)
  then have "start_execs ((if end_listener_ip6 l then [UnmakePart Listener6] else []) @ (if end_listener l then [UnmakePart Listener] else []) @
      (if end_netif l then [UnmakePart Netif] else [])) ?t = Some s"
    using assms(1)
    by (cases "end_listener_ip6 l"; cases "end_listener l"; cases "end_netif l")
      (simp_all add: nothing_needs(1-3) loop_end_ok_def insert_Diff_if)
  ultimately show ?thesis
    by (simp only: free_loop_def start_execs_append option.case)
qed

text \<open>What exists before the device is there.\<close>

definition before_device :: "main_part set \<Rightarrow> bool" where
  "before_device s = (Reactor \<in> s \<and> Signals \<in> s \<and> Vpn_Fd \<in> s \<and> s \<subseteq> {Signals, Reactor, Vpn_Fd, Log, Password})"

lemma before_device_simps:
  assumes "before_device s"
  shows "Tap \<notin> s" "Read_If \<notin> s" "Read_Buffer \<notin> s" "Gateway \<notin> s" "Udp_Client \<notin> s" "Init_Job \<notin> s" "Write_Buffer \<notin> s"
    "Tcp_Timer \<notin> s" "Netif \<notin> s" "Listener \<notin> s" "Listener6 \<notin> s" "Tcp_Client c \<notin> s" "Reactor \<in> s" "Signals \<in> s" "Vpn_Fd \<in> s"
    "x \<noteq> Reactor \<Longrightarrow> \<forall>y\<in>s. x \<notin> set (main_needs y)"
proof -
  show "x \<noteq> Reactor \<Longrightarrow> \<forall>y\<in>s. x \<notin> set (main_needs y)"
    using assms by (auto simp: before_device_def dest!: subsetD)
qed (use assms in \<open>auto simp: before_device_def\<close>)

definition gateway_part :: "start_options \<Rightarrow> main_part set \<Rightarrow> main_part set" where
  "gateway_part opts s =
     (case choose_udp_mode opts of UdpModeUdpgw \<Rightarrow> insert Gateway s | UdpModeSocks \<Rightarrow> insert Udp_Client s | UdpModeNone \<Rightarrow> s)"

definition gateway_up :: "start_options \<Rightarrow> start_addresses \<Rightarrow> start_call list" where
  "gateway_up opts a =
     (let d = compute_udp_mtu (opt_tun_mtu opts) (opt_netif_ip6addr opts \<noteq> None)
      in (case choose_udp_mode opts of
            UdpModeUdpgw \<Rightarrow> [MakeGateway d DEFAULT_UDPGW_MAX_CONNECTIONS (opt_udpgw_connection_buffer_size opts) (socks_server_addr a)
                              (udpgw_remote_server_addr a)]
          | UdpModeSocks \<Rightarrow> [MakeUdpClient d DEFAULT_UDPGW_MAX_CONNECTIONS SOCKS_UDP_SEND_BUFFER_PACKETS (socks_server_addr a)]
          | UdpModeNone \<Rightarrow> []) @ [MakePart Init_Job, SetJob])"

definition gateway_down :: "start_options \<Rightarrow> start_call list" where
  "gateway_down opts =
     (case choose_udp_mode opts of UdpModeUdpgw \<Rightarrow> [UnmakePart Gateway] | UdpModeSocks \<Rightarrow> [UnmakePart Udp_Client] | UdpModeNone \<Rightarrow> [])"

definition gateway_fits :: "start_options \<Rightarrow> bool" where
  "gateway_fits opts =
     (let g = udpgw_compute_mtu (compute_udp_mtu (opt_tun_mtu opts) (opt_netif_ip6addr opts \<noteq> None))
      in choose_udp_mode opts = UdpModeUdpgw \<longrightarrow> 0 \<le> g \<and> g \<le> PACKETPROTO_MAXPAYLOAD)"

definition device_up :: "int \<Rightarrow> start_call list" where
  "device_up m = [MakeSized Tap m, MakeSized Read_If m]"

definition loop_calls :: "int \<Rightarrow> loop_end \<Rightarrow> start_call list" where
  "loop_calls m l = [MakeSized Write_Buffer m, MakePart Tcp_Timer, SetTcpTimer, EventLoop l] @ free_loop l @
     [UnmakePart Tcp_Timer, UnmakePart Write_Buffer]"

definition device_down :: "start_options \<Rightarrow> start_call list" where
  "device_down opts = [UnmakePart Init_Job] @ gateway_down opts @ [UnmakePart Read_Buffer, UnmakePart Read_If, UnmakePart Tap]"

lemma with_device_cases:
  "with_device w opts a =
     (if \<not> read_buffer_ok w then device_up (opt_tun_mtu opts) @ [UnmakePart Read_If, UnmakePart Tap]
      else if \<not> gateway_fits opts \<or> choose_udp_mode opts = UdpModeUdpgw \<and> \<not> gateway_ok w
      then device_up (opt_tun_mtu opts) @ [MakePart Read_Buffer, UnmakePart Read_Buffer, UnmakePart Read_If, UnmakePart Tap]
      else device_up (opt_tun_mtu opts) @ [MakePart Read_Buffer] @ gateway_up opts a @
        (if write_buffer_ok w then loop_calls (opt_tun_mtu opts) (loop_end w) else []) @ device_down opts)"
  by (auto simp: with_device_def Let_def gateway_up_def gateway_down_def gateway_fits_def device_up_def loop_calls_def device_down_def not_le)

lemma device_runs:
  assumes "before_device s" "loop_end_ok (loop_end w)" "0 < opt_tun_mtu opts"
    "gateway_fits opts \<Longrightarrow> choose_udp_mode opts = UdpModeUdpgw \<Longrightarrow> gateway_accepts (compute_udp_mtu (opt_tun_mtu opts) (opt_netif_ip6addr opts \<noteq> None))
       DEFAULT_UDPGW_MAX_CONNECTIONS (opt_udpgw_connection_buffer_size opts) (socks_server_addr a) (udpgw_remote_server_addr a)"
    "choose_udp_mode opts = UdpModeSocks \<Longrightarrow> 0 \<le> compute_socks_mtu (compute_udp_mtu (opt_tun_mtu opts) (opt_netif_ip6addr opts \<noteq> None))"
  shows "start_execs (with_device w opts a) s = Some s"
proof -
  note b = before_device_simps [OF assms(1)]
  let ?m = "opt_tun_mtu opts"
  let ?s5 = "insert Read_Buffer (insert Read_If (insert Tap s))"
  let ?s6 = "insert Init_Job (gateway_part opts ?s5)"
  let ?s8 = "insert Tcp_Timer (insert Write_Buffer ?s6)"
  have up: "start_execs (device_up ?m) s = Some (insert Read_If (insert Tap s))"
    using b assms(3) by (simp add: device_up_def can_make_part_def)
  have early: "start_execs [UnmakePart Read_If, UnmakePart Tap] (insert Read_If (insert Tap s)) = Some s"
    using b by simp
  have early2: "start_execs [MakePart Read_Buffer, UnmakePart Read_Buffer, UnmakePart Read_If, UnmakePart Tap] (insert Read_If (insert Tap s)) = Some s"
    using b by (simp add: can_make_part_def)
  have rb: "start_execs [MakePart Read_Buffer] (insert Read_If (insert Tap s)) = Some ?s5"
    using b by (simp add: can_make_part_def)
  have gw: "start_execs (gateway_up opts a) ?s5 = Some ?s6" if "gateway_fits opts"
    using b that assms(4,5)
    by (cases "choose_udp_mode opts")
      (simp_all add: gateway_up_def gateway_part_def can_make_part_def Let_def compute_udp_mtu_def DEFAULT_UDPGW_MAX_CONNECTIONS_def
        SOCKS_UDP_SEND_BUFFER_PACKETS_def)
  have down: "start_execs (device_down opts) ?s6 = Some s"
    using b by (cases "choose_udp_mode opts") (simp_all add: device_down_def gateway_down_def gateway_part_def)
  have "no_loop_parts ?s8"
    using b by (cases "choose_udp_mode opts") (simp_all add: no_loop_parts_def gateway_part_def)
  then have f: "start_execs (free_loop (loop_end w)) (?s8 \<union> left_by_loop (loop_end w)) = Some ?s8"
    by (rule free_loop_runs [OF assms(2)])
  have e: "start_execs [MakeSized Write_Buffer ?m, MakePart Tcp_Timer, SetTcpTimer, EventLoop (loop_end w)] ?s6 =
      Some (?s8 \<union> left_by_loop (loop_end w))"
    using b assms(3) by (cases "choose_udp_mode opts") (simp_all add: can_make_part_def gateway_part_def)
  have t: "start_execs [UnmakePart Tcp_Timer, UnmakePart Write_Buffer] ?s8 = Some ?s6"
    using b by (cases "choose_udp_mode opts") (simp_all add: gateway_part_def)
  have loop: "start_execs (loop_calls ?m (loop_end w)) ?s6 = Some ?s6"
    unfolding loop_calls_def by (subst start_execs_append, subst e) (simp only: option.case start_execs_append f t)
  show ?thesis
    unfolding with_device_cases
    by (simp only: start_execs_append up early early2 rb option.case split: if_split)
      (auto simp: gw loop down simp del: start_execs.simps(2))
qed

section \<open>What the accepted options and addresses are like\<close>

lemma parse_loglevel_range: "parse_loglevel s \<le> BLOG_DEBUG"
  by (auto simp: parse_loglevel_def BLOG_DEBUG_def split: prod.splits)

lemma option_value_accepted:
  assumes "\<forall>kv\<in>set kvs. acceptable ub kv" "option_value kvs k = Some v"
  shows "acceptable ub (k, v)"
  using assms map_of_SomeD [of "rev kvs" k v] by (auto simp: option_value_def)

lemma parsed_options:
  assumes "android_parse_arguments ub argv = Inr opts"
  shows "opt_username opts = None" "opt_udpgw_connection_buffer_size opts = 8" "0 < opt_tun_mtu opts" "opt_loglevel opts \<le> BLOG_DEBUG"
    "\<not> opt_socks5_udp opts" "argv \<noteq> []" "(\<forall>s. ub s \<le> INT_MAX) \<Longrightarrow> opt_tun_mtu opts \<le> INT_MAX"
proof -
  obtain prog kvs where k: "argv = prog # flat kvs" "\<forall>kv\<in>set kvs. acceptable ub kv" "opts = options_of ub kvs"
    using assms unfolding parse_arguments_Inr by blast
  show "0 < opt_tun_mtu opts"
    using option_value_accepted [OF k(2), of "''--tun-mtu''"] k(3) by (auto simp: options_of_def acceptable_def split: option.splits)
  show "opt_loglevel opts \<le> BLOG_DEBUG"
    using k(3) parse_loglevel_range by (auto simp: options_of_def BLOG_DEBUG_def split: option.splits)
  show "(\<forall>s. ub s \<le> INT_MAX) \<Longrightarrow> opt_tun_mtu opts \<le> INT_MAX"
    using k(3) by (auto simp: options_of_def atoi_def Let_def INT_MAX_def split: option.splits)
  show "opt_username opts = None" "opt_udpgw_connection_buffer_size opts = 8" "\<not> opt_socks5_udp opts" "argv \<noteq> []"
    using k(1,3) by (simp_all add: options_of_def init_options_def DEFAULT_UDPGW_CONNECTION_BUFFER_SIZE_def)
qed

definition is_ip :: "BAddr \<Rightarrow> bool" where
  "is_ip a = (case a of BAddr_IPv4 _ _ \<Rightarrow> True | BAddr_IPv6 _ _ \<Rightarrow> True | _ \<Rightarrow> False)"

lemma parse2_ip: "BAddr_Parse2 ga s n nr = Some (a, nm) \<Longrightarrow> is_ip a"
  by (auto simp: BAddr_Parse2_def Let_def is_ip_def split: if_splits option.splits prod.splits)

lemma processed_addresses:
  assumes "process_arguments ga rf opts = (Some a, r)"
  shows "\<exists>ip. netif_ipaddr a = BIPAddr_IPv4 ip" "\<exists>ip. netif_netmask a = BIPAddr_IPv4 ip" "is_ip (socks_server_addr a)"
    "opt_udpgw_remote_server_addr opts \<noteq> None \<Longrightarrow> is_ip (udpgw_remote_server_addr a)"
  using assms parse2_ip
  by (fastforce simp: process_arguments_def Let_def split: option.splits BIPAddr.splits parse6.splits)+

lemma processed_file: "opt_username opts = None \<Longrightarrow> snd (process_arguments ga rf opts) = False"
  by (auto simp: process_arguments_def socks_auth_def Let_def split: option.splits BIPAddr.splits parse6.splits)

lemma is_ip_valid: "is_ip a \<Longrightarrow> \<not> BAddr_IsInvalid a"
  by (auto simp: is_ip_def BAddr_IsInvalid_def)

text \<open>The socket for the file descriptor stays open when waiting for a connection or accepting it fails.\<close>

definition vpn_socket_left :: "start_world \<Rightarrow> start_options \<Rightarrow> bool" where
  "vpn_socket_left w opts =
     (network_ok w \<and> fst (process_arguments (getaddrinfo w) (read_file w) opts) \<noteq> None \<and>
      socket_made w \<and> bind_ok w \<and> listen_ok w \<and> \<not> (select_ok w \<and> accept_ok w))"

text \<open>Nothing closes the descriptor of the device once it was received: \<open>BTap_Free\<close> only closes descriptors that it has opened itself.\<close>

definition vpn_fd_left :: "start_world \<Rightarrow> start_options \<Rightarrow> bool" where
  "vpn_fd_left w opts =
     (network_ok w \<and> fst (process_arguments (getaddrinfo w) (read_file w) opts) \<noteq> None \<and>
      socket_made w \<and> bind_ok w \<and> listen_ok w \<and> select_ok w \<and> accept_ok w \<and> received_fd w \<noteq> None)"

definition descriptors_left :: "start_world \<Rightarrow> start_options \<Rightarrow> main_part set" where
  "descriptors_left w opts =
     (if vpn_socket_left w opts then {Vpn_Socket} else {}) \<union> (if vpn_fd_left w opts then {Vpn_Fd} else {})"

lemma wait_for_fd_runs:
  "start_execs (fst (android_wait_for_vpn_fd w opts)) {Log} =
     Some (if socket_made w \<and> bind_ok w \<and> listen_ok w
       then if \<not> (select_ok w \<and> accept_ok w) then {Vpn_Socket, Log} else if received_fd w \<noteq> None then {Vpn_Fd, Log} else {Log}
       else {Log})"
  by (auto simp: android_wait_for_vpn_fd_def Let_def can_make_part_def)

lemma wait_for_fd_result:
  "snd (android_wait_for_vpn_fd w opts) =
     (if socket_made w \<and> bind_ok w \<and> listen_ok w \<and> select_ok w \<and> accept_ok w then received_fd w else None)"
  by (simp add: android_wait_for_vpn_fd_def Let_def)

lemma main_with_options:
  assumes "loop_end_ok (loop_end w)" "android_parse_arguments (atoi_undefined w) argv = Inr opts" "0 \<le> opt_loglevel opts"
  shows "start_execs (tun2socks_main w argv) {} = Some (descriptors_left w opts)"
proof -
  note p = parsed_options [OF assms(2)]
  obtain addrs fr where pr: "process_arguments (getaddrinfo w) (read_file w) opts = (addrs, fr)"
    by (cases "process_arguments (getaddrinfo w) (read_file w) opts")
  have fr: "fr = False"
    using processed_file [OF p(1), of "getaddrinfo w" "read_file w"] pr by simp
  obtain cs fd where w: "android_wait_for_vpn_fd w opts = (cs, fd)"
    by (cases "android_wait_for_vpn_fd w opts")
  have log: "start_execs [MakePart Log, SetLoglevels (opt_loglevel opts)] {} = Some {Log}"
    using assms(3) p(4) by (simp add: can_make_part_def)
  show ?thesis
  proof (cases "network_ok w \<and> addrs \<noteq> None")
    case False
    then have "tun2socks_main w argv = [MakePart Log, SetLoglevels (opt_loglevel opts), UnmakePart Log]"
      using assms(2) p(6) pr fr by (auto simp: tun2socks_main_def Let_def)
    then show ?thesis
      using assms(3) p(4) False pr by (auto simp: descriptors_left_def vpn_socket_left_def vpn_fd_left_def can_make_part_def)
  next
    case True
    then obtain a where a: "addrs = Some a" by auto
    note addr = processed_addresses [OF pr [unfolded a]]
    let ?left = "descriptors_left w opts"
    have wait: "start_execs cs {Log} = Some (insert Log ?left)"
      using wait_for_fd_runs [of w opts] w True pr
      by (auto simp: descriptors_left_def vpn_socket_left_def vpn_fd_left_def)
    have fd: "fd \<noteq> None \<longleftrightarrow> ?left = {Vpn_Fd}" "?left \<subseteq> {Vpn_Socket, Vpn_Fd}"
      using wait_for_fd_result [of w opts] w True pr
      by (auto simp: descriptors_left_def vpn_socket_left_def vpn_fd_left_def)
    let ?up = "[MakePart Log, SetLoglevels (opt_loglevel opts)]"
    let ?dev = "if \<not> reactor_ok w then [] else if \<not> signal_ok w then [MakePart Reactor, UnmakePart Reactor]
      else [MakePart Reactor, MakePart Signals] @ (if tap_ok w then with_device w opts a else []) @ [UnmakePart Signals, UnmakePart Reactor]"
    define calls where "calls = (if fd = None then [] else ?dev)"
    have m: "tun2socks_main w argv = ?up @ cs @ calls @ [UnmakePart Log]"
      unfolding calls_def using assms(2) p(6) pr fr a w True by (simp add: tun2socks_main_def Let_def)
    have "start_execs (with_device w opts a) {Signals, Reactor, Log, Vpn_Fd} = Some {Signals, Reactor, Log, Vpn_Fd}"
    proof (rule device_runs [OF _ assms(1) p(3)])
      show "before_device {Signals, Reactor, Log, Vpn_Fd}"
        by (simp add: before_device_def)
    next
      assume "choose_udp_mode opts = UdpModeSocks"
      then show "0 \<le> compute_socks_mtu (compute_udp_mtu (opt_tun_mtu opts) (opt_netif_ip6addr opts \<noteq> None))"
        using p(5) by (simp add: choose_udp_mode_def split: if_splits)
    next
      assume g: "gateway_fits opts" "choose_udp_mode opts = UdpModeUdpgw"
      then have "is_ip (udpgw_remote_server_addr a)"
        using addr(4) by (auto simp: choose_udp_mode_def split: if_splits)
      then show "gateway_accepts (compute_udp_mtu (opt_tun_mtu opts) (opt_netif_ip6addr opts \<noteq> None))
        DEFAULT_UDPGW_MAX_CONNECTIONS (opt_udpgw_connection_buffer_size opts) (socks_server_addr a) (udpgw_remote_server_addr a)"
        using g p(2) is_ip_valid [OF addr(3)]
        by (auto simp: gateway_accepts_def gateway_fits_def Let_def is_ip_def DEFAULT_UDPGW_MAX_CONNECTIONS_def compute_udp_mtu_def)
    qed
    then have "start_execs ?dev {Log, Vpn_Fd} = Some {Log, Vpn_Fd}"
      by (simp add: start_execs_append can_make_part_def insert_Diff_if insert_commute)
    then have dev: "start_execs calls (insert Log ?left) = Some (insert Log ?left)"
      using fd(1) by (cases "fd = None") (simp_all add: calls_def)
    have "start_execs [UnmakePart Log] (insert Log ?left) = Some ?left"
      using fd(2) by auto
    then show ?thesis
      unfolding m start_execs_append log option.case wait dev .
  qed
qed

section \<open>lwIP\<close>

text \<open>The pcb that is being set up, the number of listeners, whether the interface is there and whether the reactor quits.\<close>

record lwip_env =
  open_pcb :: bool
  listeners :: nat
  netif_there :: bool
  quits :: bool

fun lwip_exec :: "lwip_call \<Rightarrow> lwip_env \<Rightarrow> lwip_env option" where
  "lwip_exec (NetifAdd ip nm ok) e = (if netif_there e then None else Some (e\<lparr>netif_there := ok\<rparr>))"
| "lwip_exec NetifSetUp e = (if netif_there e then Some e else None)"
| "lwip_exec NetifSetLinkUp e = (if netif_there e then Some e else None)"
| "lwip_exec NetifSetPretendTcp e = (if netif_there e then Some e else None)"
| "lwip_exec NetifSetDefault e = (if netif_there e then Some e else None)"
| "lwip_exec (NetifIp6AddrSet a) e = (if netif_there e then Some e else None)"
| "lwip_exec (TcpNew ok) e = (if open_pcb e then None else Some (e\<lparr>open_pcb := ok\<rparr>))"
| "lwip_exec (TcpBindToNetif ok) e = (if open_pcb e then Some e else None)"
| "lwip_exec TcpBindNetif e = (if open_pcb e \<and> netif_there e then Some e else None)"
| "lwip_exec (TcpListen ok) e =
     (if open_pcb e then Some (if ok then e\<lparr>open_pcb := False, listeners := Suc (listeners e)\<rparr> else e) else None)"
| "lwip_exec TcpAccept e = (if 0 < listeners e then Some e else None)"
| "lwip_exec TcpClose e = (if open_pcb e then Some (e\<lparr>open_pcb := False\<rparr>) else None)"
| "lwip_exec ReactorQuit e = (if quits e then None else Some (e\<lparr>quits := True\<rparr>))"
| "lwip_exec (CheckState b) e = (if b then Some e else None)"
| "lwip_exec _ e = Some e"

fun lwip_execs :: "lwip_call list \<Rightarrow> lwip_env \<Rightarrow> lwip_env option" where
  "lwip_execs [] e = Some e"
| "lwip_execs (c # cs) e = (case lwip_exec c e of None \<Rightarrow> None | Some e' \<Rightarrow> lwip_execs cs e')"

definition fresh_lwip :: lwip_env where
  "fresh_lwip = \<lparr>open_pcb = False, listeners = 0, netif_there = False, quits = False\<rparr>"

section \<open>Properties\<close>

text \<open>C21: A command line is accepted exactly when it is the name of the program and pairs of a known option and a value,
  the log level and the MTU are valid wherever they are given, and the four required options are there; then
  the options are the last values given, and the defaults for the others.\<close>

theorem command_line_is_pairs:
  "android_parse_arguments ub argv = Inr opts \<longleftrightarrow>
     (\<exists>prog kvs. argv = prog # flat kvs \<and> (\<forall>kv\<in>set kvs. acceptable ub kv) \<and>
        (\<forall>k\<in>set required_options. option_value kvs k \<noteq> None) \<and> opts = options_of ub kvs)"
  by (rule parse_arguments_Inr)

theorem command_line_is_pairs_witness:
  "android_parse_arguments (\<lambda>_. 0) [''tun2socks'', ''--tun-mtu'', ''9000'', ''--netif-ipaddr'', ''a'', ''--netif-netmask'', ''b'',
      ''--sock-path'', ''c'', ''--socks-server-addr'', ''d'', ''--tun-mtu'', ''1280''] =
   Inr (init_options\<lparr>opt_netif_ipaddr := Some ''a'', opt_netif_netmask := Some ''b'', opt_socks_server_addr := Some ''d'',
     opt_sock_path := Some ''c'', opt_tun_mtu := 1280\<rparr>)"
proof -
  let ?kvs = "[(''--tun-mtu'', ''9000''), (''--netif-ipaddr'', ''a''), (''--netif-netmask'', ''b''), (''--sock-path'', ''c''),
    (''--socks-server-addr'', ''d''), (''--tun-mtu'', ''1280'')]"
  have "\<forall>kv\<in>set ?kvs. acceptable (\<lambda>_. 0) kv" "\<forall>k\<in>set required_options. option_value ?kvs k \<noteq> None"
    by code_simp+
  moreover have "options_of (\<lambda>_. 0) ?kvs = init_options\<lparr>opt_netif_ipaddr := Some ''a'', opt_netif_netmask := Some ''b'',
      opt_socks_server_addr := Some ''d'', opt_sock_path := Some ''c'', opt_tun_mtu := 1280\<rparr>"
    by code_simp
  ultimately show ?thesis
    unfolding command_line_is_pairs by (intro exI [of _ "''tun2socks''"] exI [of _ ?kvs]) simp
qed

text \<open>C22: Whatever fails during the start, and whatever clients, listeners and interface the event loop leaves: the
  program makes each of its objects after those it needs and once, and frees each after those that need it and
  once.  What is left at the end is at most a descriptor: the listening socket, when waiting for the VPN file descriptor fails in \<open>select\<close> or
  \<open>accept\<close>, and the VPN file descriptor itself, whenever it was received.  Without \<open>--loglevel\<close> the assertion of
  \<open>BLog_SetChannelLoglevel\<close> fails on the default \<open>-1\<close>.\<close>

theorem main_leaves_only_descriptors:
  assumes "loop_end_ok (loop_end w)"
  shows "start_execs (tun2socks_main w argv) {} =
    (case android_parse_arguments (atoi_undefined w) argv of
       Inl _ \<Rightarrow> Some {}
     | Inr opts \<Rightarrow>
         if opt_loglevel opts < 0 then None
         else Some ((if vpn_socket_left w opts then {Vpn_Socket} else {}) \<union> (if vpn_fd_left w opts then {Vpn_Fd} else {})))"
proof (cases "android_parse_arguments (atoi_undefined w) argv")
  case (Inl err)
  then show ?thesis
    by (simp add: tun2socks_main_def)
next
  case (Inr opts)
  show ?thesis
  proof (cases "0 \<le> opt_loglevel opts")
    case True
    then show ?thesis
      using main_with_options [OF assms Inr] Inr by (simp add: descriptors_left_def)
  next
    case False
    have "\<exists>cs. tun2socks_main w argv = [MakePart Log, SetLoglevels (opt_loglevel opts)] @ cs"
      using Inr parsed_options(6) [OF Inr] by (auto simp: tun2socks_main_def Let_def case_prod_unfold split: option.split)
    then obtain cs where "tun2socks_main w argv = [MakePart Log, SetLoglevels (opt_loglevel opts)] @ cs" ..
    then show ?thesis
      using False Inr by (simp add: can_make_part_def)
  qed
qed

text \<open>A command line that starts the program, and a world in which everything works but for what is said.\<close>

definition some_args :: "string list" where
  "some_args = [''tun2socks'', ''--netif-ipaddr'', ''10.0.0.2'', ''--netif-netmask'', ''255.255.255.0'', ''--sock-path'', ''p'',
     ''--socks-server-addr'', ''1.2.3.4:1080'', ''--udpgw-remote-server-addr'', ''1.2.3.4:7300'', ''--loglevel'', ''info'']"

definition numeric_resolver :: resolver where
  "numeric_resolver s v6 nr = (if v6 then None else map_option le32_bytes (ipaddr_parse_ipv4_addr s))"

definition some_world :: "bool \<Rightarrow> start_world" where
  "some_world accepting = \<lparr>atoi_undefined = (\<lambda>_. 0), getaddrinfo = numeric_resolver, read_file = (\<lambda>_. None), network_ok = True,
     socket_made = True, bind_ok = True, listen_ok = True, select_ok = True, accept_ok = accepting, received_fd = Some 5, reactor_ok = True,
     signal_ok = True, tap_ok = True, read_buffer_ok = True, gateway_ok = True, write_buffer_ok = True,
     loop_end = \<lparr>end_clients = [1, 2], end_listener_ip6 = False, end_listener = True, end_netif = True\<rparr>\<rparr>"

theorem main_leaves_only_descriptors_witness:
  "start_execs (tun2socks_main (some_world True) some_args) {} = Some {Vpn_Fd} \<and>
   start_execs (tun2socks_main (some_world False) some_args) {} = Some {Vpn_Socket} \<and>
   start_execs (tun2socks_main (some_world True) (take 11 some_args)) {} = None"
proof -
  have l: "loop_end_ok (loop_end (some_world b))" for b
    by (simp add: some_world_def loop_end_ok_def)
  have "(case android_parse_arguments (atoi_undefined (some_world True)) some_args of
      Inl _ \<Rightarrow> False | Inr opts \<Rightarrow> 0 \<le> opt_loglevel opts \<and> \<not> vpn_socket_left (some_world True) opts \<and> vpn_fd_left (some_world True) opts)"
    "(case android_parse_arguments (atoi_undefined (some_world False)) some_args of
      Inl _ \<Rightarrow> False | Inr opts \<Rightarrow> 0 \<le> opt_loglevel opts \<and> vpn_socket_left (some_world False) opts \<and> \<not> vpn_fd_left (some_world False) opts)"
    "(case android_parse_arguments (atoi_undefined (some_world True)) (take 11 some_args) of
      Inl _ \<Rightarrow> False | Inr opts \<Rightarrow> opt_loglevel opts < 0)"
    by code_simp+
  then show ?thesis
    using main_leaves_only_descriptors [OF l, of True some_args] main_leaves_only_descriptors [OF l, of False some_args]
      main_leaves_only_descriptors [OF l, of True "take 11 some_args"]
    by (auto split: sum.splits)
qed

text \<open>C23: When the program starts the UDP gateway client, the client starts: the arguments are within its assertions, with a
  maximum datagram length that fits the MTU of the device and the 16-bit length field, a
  valid server address and a gateway address of IPv4 or IPv6; so the states of the gateway client that
  are shown to be safe are those that the program reaches.\<close>

theorem gateway_starts_within_its_limits:
  assumes "\<forall>s. atoi_undefined w s \<le> INT_MAX" "MakeGateway dm mc bs server remote \<in> set (tun2socks_main w argv)"
  shows "(\<exists>r s. UdpGwClient_Init u dm mc bs True = (r, True) \<and> gw_do r gw_blank = Some s \<and> gw_reached s) \<and>
    0 \<le> dm \<and> dm \<le> 65514 \<and> is_ip server \<and> is_ip remote"
proof -
  obtain opts where o: "android_parse_arguments (atoi_undefined w) argv = Inr opts"
    using assms(2) by (cases "android_parse_arguments (atoi_undefined w) argv") (auto simp: tun2socks_main_def split: if_splits)
  note p = parsed_options [OF o]
  obtain addrs fr where pr: "process_arguments (getaddrinfo w) (read_file w) opts = (addrs, fr)"
    by (cases "process_arguments (getaddrinfo w) (read_file w) opts")
  obtain cs fd where v: "android_wait_for_vpn_fd w opts = (cs, fd)"
    by (cases "android_wait_for_vpn_fd w opts")
  have n: "MakeGateway dm mc bs server remote \<notin> set cs"
    using v by (auto simp: android_wait_for_vpn_fd_def Let_def split: if_splits)
  obtain a where a: "addrs = Some a" "MakeGateway dm mc bs server remote \<in> set (with_device w opts a)"
    using assms(2) o p(6) pr v n by (auto simp: tun2socks_main_def Let_def split: if_splits option.splits)
  note addr = processed_addresses [OF pr [unfolded a(1)]]
  have down: "MakeGateway dm mc bs server remote \<notin> set (loop_calls m l)" "MakeGateway dm mc bs server remote \<notin> set (device_down opts)" for m l
    by (auto simp: loop_calls_def free_loop_def device_down_def gateway_down_def split: udp_mode.splits)
  have g: "gateway_fits opts" "choose_udp_mode opts = UdpModeUdpgw" and
    eq: "dm = compute_udp_mtu (opt_tun_mtu opts) (opt_netif_ip6addr opts \<noteq> None)" "mc = 256" "bs = 8" "server = socks_server_addr a"
      "remote = udpgw_remote_server_addr a"
    using a(2) p(2) down unfolding with_device_cases
    by (auto simp: device_up_def gateway_up_def Let_def DEFAULT_UDPGW_MAX_CONNECTIONS_def split: if_splits udp_mode.splits)
  have "0 \<le> dm" "dm \<le> INT_MAX"
    using eq(1) p(3) p(7) [OF assms(1)] by (auto simp: compute_udp_mtu_def Let_def INT_MAX_def)
  moreover have "0 \<le> udpgw_compute_mtu dm" "udpgw_compute_mtu dm \<le> PACKETPROTO_MAXPAYLOAD"
    using g eq(1) by (simp_all add: gateway_fits_def Let_def)
  ultimately have dm: "0 \<le> dm" "dm \<le> 65514"
    by (auto simp: compute_mtu_exact PACKETPROTO_MAXPAYLOAD_def UINT16_MAX_def split: if_splits)
  obtain r where r: "UdpGwClient_Init u dm mc bs True = (r, True)"
    by (simp add: UdpGwClient_Init_def Let_def)
  have m: "0 < mc" "0 < bs" by (simp_all add: eq)
  obtain s where s: "gw_do r gw_blank = Some s"
    using gw_start_ok [OF r dm m] by (auto simp: gw_do_returns)
  have "gw_reached s"
    using gw_reached.started [OF r dm m s] .
  moreover have "is_ip remote"
    using addr(4) g(2) eq(5) by (auto simp: choose_udp_mode_def split: if_splits)
  ultimately show ?thesis
    using r s dm addr(3) eq(4) by blast
qed

theorem gateway_starts_within_its_limits_witness:
  "MakeGateway 1472 256 8 (BAddr_IPv4 0x04030201 0x3804) (BAddr_IPv4 0x04030201 0x841C) \<in> set (tun2socks_main (some_world True) some_args) \<and>
   (\<exists>u r s. UdpGwClient_Init u 1472 256 8 True = (r, True) \<and> gw_do r gw_blank = Some s \<and> gw_reached s)"
proof -
  have m: "MakeGateway 1472 256 8 (BAddr_IPv4 0x04030201 0x3804) (BAddr_IPv4 0x04030201 0x841C) \<in> set (tun2socks_main (some_world True) some_args)"
    by code_simp
  have "\<forall>s. atoi_undefined (some_world True) s \<le> INT_MAX"
    by (simp add: some_world_def INT_MAX_def)
  from gateway_starts_within_its_limits [OF this m] m show ?thesis by blast
qed

text \<open>C24: Starting lwIP ends in one of two ways, whatever fails in it: the program listens on the network interface, for
  IPv6 too when it has an IPv6 address, or the event loop is told to quit.  No pcb is left
  open beside the listeners, which are those that are freed at the end of \<open>main\<close>.\<close>

theorem lwip_listens_or_quits:
  assumes "process_arguments ga rf opts = (Some addrs, r)"
    "g = \<lparr>quitting = False, have_netif = False, listener = False, listener_ip6 = False, tcp_timer_mod4 = k\<rparr>"
    "lwip_init_job_hadler w opts addrs g = (g', cs)"
  shows "\<exists>e. lwip_execs cs fresh_lwip = Some e \<and> \<not> open_pcb e \<and> quits e = quitting g' \<and> netif_there e = have_netif g' \<and>
    listeners e = of_bool (listener g') + of_bool (listener_ip6 g') \<and>
    (quitting g' \<or> have_netif g' \<and> listener g' \<and> listener_ip6 g' = (opt_netif_ip6addr opts \<noteq> None)) \<and>
    loop_end_ok \<lparr>end_clients = [], end_listener_ip6 = listener_ip6 g', end_listener = listener g', end_netif = have_netif g'\<rparr>"
proof -
  obtain ip nm where "netif_ipaddr addrs = BIPAddr_IPv4 ip" "netif_netmask addrs = BIPAddr_IPv4 nm"
    using processed_addresses [OF assms(1)] by blast
  then show ?thesis
    using assms(2,3)
    by (auto simp: lwip_init_job_hadler_def Let_def make_listener_def terminate_def fresh_lwip_def loop_end_ok_def split: if_splits)
qed

theorem lwip_listens_or_quits_witness:
  "\<exists>opts a r g' cs e. process_arguments numeric_resolver (\<lambda>_. None) opts = (Some a, r) \<and>
     lwip_init_job_hadler \<lparr>netif_added = True, pcb_made = (\<lambda>_. True), pcb_bound = (\<lambda>_. False), pcb_listens = (\<lambda>_. True)\<rparr> opts a
       \<lparr>quitting = False, have_netif = False, listener = False, listener_ip6 = False, tcp_timer_mod4 = 0\<rparr> = (g', cs) \<and>
     lwip_execs cs fresh_lwip = Some e \<and> \<not> open_pcb e \<and> quits e"
proof -
  let ?o = "options_of (\<lambda>_. 0) [(''--netif-ipaddr'', ''10.0.0.2''), (''--netif-netmask'', ''255.0.0.0''), (''--socks-server-addr'', ''1.2.3.4:1080'')]"
  have "(case process_arguments numeric_resolver (\<lambda>_. None) ?o of (a, r) \<Rightarrow> a \<noteq> None)"
    by code_simp
  then obtain a r where a: "process_arguments numeric_resolver (\<lambda>_. None) ?o = (Some a, r)"
    by (auto split: prod.splits)
  let ?w = "\<lparr>netif_added = True, pcb_made = (\<lambda>_. True), pcb_bound = (\<lambda>_. False), pcb_listens = (\<lambda>_. True)\<rparr>"
  let ?g = "\<lparr>quitting = False, have_netif = False, listener = False, listener_ip6 = False, tcp_timer_mod4 = 0\<rparr>"
  obtain g' cs where j: "lwip_init_job_hadler ?w ?o a ?g = (g', cs)"
    by (cases "lwip_init_job_hadler ?w ?o a ?g")
  moreover have "quitting g'"
    using j by (auto simp: lwip_init_job_hadler_def make_listener_def terminate_def Let_def)
  moreover obtain e where "lwip_execs cs fresh_lwip = Some e" "\<not> open_pcb e" "quits e = quitting g'"
    using lwip_listens_or_quits [OF a refl j] by blast
  ultimately show ?thesis
    using a by blast
qed

end
