(* ===== verification/Spec2Isabelle.thy ===== *)
theory Spec2Isabelle
  imports Flow_Connectors Flow_Adapters Stream_Senders Packet_Buffer Packet_Proto Priority_Queue Fair_Queue Tcp_Relay Socks_Conversation Udpgw_Properties Socks_Udp_Properties Start_Properties
begin

text \<open>
  A verification development for the native part of twilight-line-android, the C code under
  \<open>src/app/src/main/jni/badvpn/\<close> (paths below are relative to it).

  The program.  The Android application opens a VPN device and hands its file descriptor to
  \<open>tun2socks\<close> (\<open>tun2socks/tun2socks_android.c\<close>, which includes \<open>tun2socks/tun2socks.c\<close>).  Packets read from
  the device are either UDP, which goes to a relay (\<open>udpgw_client/\<close> with \<open>tun2socks/SocksUdpGwClient.c\<close>, or
  \<open>socks_udp_client/\<close>), or they are input to lwIP, which terminates TCP; each accepted connection is
  coupled with a connection through a SOCKS server (\<open>socksclient/\<close>).  Everything runs in one thread on a
  reactor whose jobs (\<open>base/BPending.c\<close>) are the only concurrency.  Data moves through flow components
  (\<open>flow/\<close>, \<open>flowextra/\<close>) that are joined by four interfaces: the passing or receiving of packets or of
  stream bytes, each with at most one operation in progress, completed by a callback from a job.

  The theories, with the code they model.
  \<^item> \<open>Flow_Prelude\<close>: the store (addresses to bytes), \<open>memcpy\<close>, little-endian fields; \<open>misc/balign.h\<close>,
    \<open>misc/minmax.h\<close>, \<open>misc/compare.h\<close>.
  \<^item> \<open>Pending_Jobs\<close>: \<open>base/BPending.c\<close>, the stack of jobs with its self-pointing marker for a removed job.
  \<^item> \<open>Flow_Interfaces\<close>, \<open>Flow_Contract\<close>: the four interfaces of \<open>flow/\<close> with every \<open>ASSERT\<close> of their functions, and
    what it means for a component to keep their contract: the component's handlers are closed with an
    environment that may do anything the interfaces allow, jobs running in any order.  The locale
    \<open>flow_contract\<close> turns a component's invariant into the absence of failed assertions in every
    execution; every flow component interprets it on its own handlers.
  \<^item> \<open>Flow_Connectors\<close>, \<open>Flow_Adapters\<close>, \<open>Stream_Senders\<close>: the connectors, notifier, copier, blocker, buffer writer,
    single-packet buffer and sender, inactivity monitor, and the stream senders and receivers.
  \<^item> \<open>Chunk_Buffer\<close>, \<open>Packet_Buffer\<close>: \<open>structure/ChunkBuffer2.h\<close> refines a queue of packets over the byte
    store; \<open>flow/PacketBuffer.c\<close> on top of it is a bounded queue.
  \<^item> \<open>Packet_Proto\<close>: framing of packets on a stream, \<open>protocol/packetproto.h\<close> with its encoder and decoder.
  \<^item> \<open>Flow_Queues\<close>, \<open>Priority_Queue\<close>, \<open>Fair_Queue\<close>: the queues by which many flows share an output.  The AVL trees
    of the last two are their in-order sequences.
  \<^item> \<open>Byte_Order\<close>, \<open>Number_Parsing\<close>, \<open>Ip_Addresses\<close>, \<open>Ip6_Addresses\<close>, \<open>Addresses\<close>: \<open>misc/byteorder.h\<close>,
    \<open>misc/read_write_int.h\<close>, \<open>misc/bsize.h\<close>, \<open>misc/memref.h\<close>, \<open>misc/parse_number.h\<close>, \<open>misc/ipaddr.h\<close>, \<open>misc/ipaddr6.h\<close>,
    \<open>system/BAddr.h\<close>.
  \<^item> \<open>Packet_Headers\<close>, \<open>Tun_Device\<close>: the packed headers and checksums of IPv4, IPv6 and UDP, and the functions of
    \<open>tun2socks.c\<close> between the device, the UDP relay and lwIP.
  \<^item> \<open>Tcp_Client\<close>, \<open>Tcp_Relay\<close>: the TCP clients of \<open>tun2socks.c\<close>, and their execution in the environment of lwIP
    and the SOCKS client.
  \<^item> \<open>Socks_Client\<close>, \<open>Socks_Negotiation\<close>, \<open>Socks_Conversation\<close>: the SOCKS5 client \<open>socksclient/BSocksClient.c\<close> with the
    messages of \<open>misc/socks_proto.h\<close>; its environment with the log of the bytes on the wire, and the
    invariant; what follows from it for every reachable state.
  \<^item> \<open>Udpgw_Client\<close>, \<open>Udpgw_Relay\<close>, \<open>Udpgw_Properties\<close>: the client of the UDP gateway, \<open>udpgw_client/UdpGwClient.c\<close>
    with \<open>protocol/udpgw_proto.h\<close>, and \<open>tun2socks/SocksUdpGwClient.c\<close>, which connects it through SOCKS; its
    environment and invariant; its properties.  A new connection keeps a pointer to the data of its first packet, which is in the
    device's buffer; the environment has that memory and the stack of jobs, of which one lets the buffer be filled again, so
    that a read through the pointer after that job has no result.
  \<^item> \<open>Socks_Udp\<close>, \<open>Socks_Udp_Relay\<close>, \<open>Socks_Udp_Properties\<close>: the client that relays datagrams through a SOCKS server,
    \<open>socks_udp_client/SocksUdpClient.c\<close>; the contracts of the parts of a connection, the reachable states
    and the invariant; the table that its connections are, and what follows.
  \<^item> \<open>Tun2socks_Start\<close>, \<open>Start_Properties\<close>: the command line, \<open>main\<close> and its cleanup, the wait for the VPN file descriptor and the
    start of lwIP, in \<open>tun2socks/tun2socks_android.c\<close> and \<open>tun2socks/tun2socks.c\<close>, with \<open>misc/loglevel.h\<close>.

  How code becomes definitions.  A structure is a record, a handler is a function from the old state to the new
  one and the list of calls it makes, in program order, with its own \<open>ASSERT\<close>s among the calls.  The
  build defines \<open>NDEBUG\<close>, so that nothing checks an assertion at run time; here each is an obligation: an
  execution that violates one, or a documented precondition of a called function, has no next
  state, and the main theorems say that this does not happen.  Integers whose wrap-around matters are
  words; lengths are \<open>int\<close> or \<open>nat\<close>.  What is outside the program (the device, lwIP, the network,
  the allocator, the resolver) is an argument or an event chosen by the environment.  Every definition
  is executable.

  What the lemmas show.  For each flow component, that it never fails and never stalls, and what it
  does to the data: connectors keep a packet across a disconnect, the buffer is a bounded queue, the
  decoder recovers the packets from any cutting of the stream and stays in its buffer for any input, the queues
  serve flows in the specified order, the 64-bit accounting of the fair queue is exact.  For the
  addresses, that parsing accepts exactly the documented forms and inverts printing, within the buffers
  reserved; the parser of IPv6 addresses takes every character through a checked read.  For the tunnel, that relayed datagrams have headers and checksums which the receiving
  side accepts, and that whatever the device sends is handled within the packet.  For the TCP clients, that
  no sequence of events leads to a failed assertion or a use after free, that bytes are relayed
  in order without loss, and that a half-closed client is waiting for an event and is freed by the last one.  For the SOCKS client, that no server can
  make it fail, that it only reports success after the complete dialogue, that its answer to the server's choice of a method is the one that
  the present table of methods gives, and that the negotiation ends.  For the gateway client, that no sequence of packets, answers and
  failures makes it fail, that its connections are a cache of the least recently used pairs of
  addresses, which messages a packet makes it send and with which flags, and that its messages are understood.  For the SOCKS UDP client, that every failure gives back exactly what
  was made, that its connections are a bounded table of local addresses, and that datagrams
  survive the way through its header.  For the program as a whole, which command lines it accepts, that \<open>main\<close>
  makes and frees its objects in the right order whatever fails and leaves at most two descriptors open, which are named, and that it starts the gateway client within the limits under
  which that client is shown to be safe.

  Bounds and fuel.  No definition uses fuel.  The search for a free connection number, which may run forever, is a
  partial function that is proved to return while there is room; all other recursion is structural or has a termination proof (the
  sending loop of a client by the bytes that are left, the negotiation with SOCKS by 33 events, the parsers by the length of the text, the decoder by
  the bytes in its buffer).

  Two limits of the program are stated where they apply: its Android front end never enables the SOCKS UDP
  client, nor a user name, so that those parts are verified for the library they are; and the descriptors that \<open>main\<close> never closes (the listening
  socket after a failure of \<open>select\<close> or \<open>accept\<close>, and the received VPN descriptor always) are in the statement of the theorem about it, as is the
  failed assertion without \<open>--loglevel\<close>.

  Not modelled.  lwIP and \<open>generated/\<close> are third-party or generated code and appear only through the
  calls made to them; the Java and Go parts are in other languages.  Logging, \<open>DebugObject\<close> and reference
  counters have no effect in the build.  The reactor, sockets, signals, processes and the device driver
  (\<open>system/\<close>, \<open>tuntap/\<close>) are system calls around the interfaces modelled here.  The variants for
  Windows, glib and emscripten are not built, the front end \<open>main2\<close> of \<open>tun2socks.c\<close> is not reached, and
  \<open>flow/LineBuffer.c\<close>, \<open>flow/RouteBuffer.c\<close>, \<open>flow/PacketRouter.c\<close> and \<open>flowextra/KeepaliveIO.c\<close> are compiled but not
  used.  \<open>flow/PacketProtoFlow.c\<close> only joins three modelled components.  The search trees and lists of
  \<open>structure/\<close> appear as the sequences of their elements.
\<close>

end
